(* ===== verification/Prelude.thy ===== *)
theory Prelude
  imports Complex_Main "HOL-Library.Char_ord" "HOL-Library.List_Lexorder"
    "HOL-Library.Product_Lexorder"
begin

text \<open>
  Shared vocabulary of the development: JavaScript results and values, the string and
  number built-ins the sources use (\<^verbatim>\<open>String(bigint)\<close>, \<^verbatim>\<open>BigInt(text)\<close>,
  \<^verbatim>\<open>Number.isSafeInteger\<close>, \<^verbatim>\<open>toLowerCase\<close>, \<^verbatim>\<open>trim\<close>, the character classes of the
  regular expressions) and the few SQL operations the SQLite stores are written with
  (row identifiers, \<^verbatim>\<open>ORDER BY ... DESC LIMIT n\<close>).

  Conventions. A JavaScript \<^verbatim>\<open>bigint\<close> is an \<^typ>\<open>int\<close>. A \<^verbatim>\<open>number\<close> that the code
  validates with \<^verbatim>\<open>isSafeInteger\<close> is an \<^typ>\<open>int\<close> too, and the validation is kept. A
  thrown exception is \<open>Inl\<close>, a returned value \<open>Inr\<close>. A SQLite table is the list of its
  rows in row-id order. A transaction that throws is rolled back, so an \<open>Inl\<close> result of a
  store operation carries no state: the caller keeps the state it had.
\<close>

named_theorems result_simps \<open>reasoning about results of fallible operations\<close>
named_theorems validators \<open>unfolding of the input validators\<close>

section \<open>Results\<close>

text \<open>What the sources throw: the built-in error classes and SQLite's constraint failures.\<close>

datatype js_error =
    TypeError string
  | RangeError string
  | Error string
  | SyntaxError string
  | ConstraintFailed string
  | SettlementBudgetExceeded string
  | AdmissionError string

type_synonym 'a result = "js_error + 'a"

text \<open>Sequencing: the first exception wins.\<close>

definition ebind :: "'e + 'a \<Rightarrow> ('a \<Rightarrow> 'e + 'b) \<Rightarrow> 'e + 'b" where
  "ebind m f = (case m of Inl e \<Rightarrow> Inl e | Inr a \<Rightarrow> f a)"

definition ensure :: "bool \<Rightarrow> 'e \<Rightarrow> 'e + unit" where
  "ensure b e = (if b then Inr () else Inl e)"

lemma ebind_simps [simp]:
  "ebind (Inl e) f = Inl e"
  "ebind (Inr a) f = f a"
  by (simp_all add: ebind_def)

lemma ebind_Inr_iff [result_simps]:
  "ebind m f = Inr b \<longleftrightarrow> (\<exists>a. m = Inr a \<and> f a = Inr b)"
  by (cases m) simp_all

lemma ebind_Inl_iff [result_simps]:
  "ebind m f = Inl e \<longleftrightarrow> m = Inl e \<or> (\<exists>a. m = Inr a \<and> f a = Inl e)"
  by (cases m) simp_all

lemma ensure_iff [simp]:
  "ensure b e = Inr u \<longleftrightarrow> b"
  "ensure b e = Inl e' \<longleftrightarrow> \<not> b \<and> e' = e"
  by (auto simp: ensure_def)

lemma ensure_simps [simp]: "ensure True e = Inr ()" "ensure False e = Inl e"
  by (simp_all add: ensure_def)

section \<open>JavaScript values\<close>

text \<open>
  A value of unknown shape: what \<^verbatim>\<open>JSON.parse\<close> returns or an argument typed
  \<^verbatim>\<open>unknown\<close>. A number is \<open>JNum\<close> when it is an integer and \<open>JFrac\<close> when it is not.
\<close>

datatype js =
    JUndefined
  | JNull
  | JBool bool
  | JNum int
  | JFrac rat
  | JBigint int
  | JString string
  | JArray "js list"
  | JObject "(string \<times> js) list"

text \<open>Property access \<^verbatim>\<open>v.k\<close> where \<open>v\<close> is known to be an object; the last entry of a key wins.\<close>

definition js_get :: "js \<Rightarrow> string \<Rightarrow> js" where
  "js_get v k = (case v of
     JObject fs \<Rightarrow> (case map_of (rev fs) k of None \<Rightarrow> JUndefined | Some x \<Rightarrow> x)
   | _ \<Rightarrow> JUndefined)"

text \<open>\<^verbatim>\<open>typeof v === "object"\<close>: true of objects, arrays and \<^verbatim>\<open>null\<close>.\<close>

fun typeof_object :: "js \<Rightarrow> bool" where
  "typeof_object JNull = True"
| "typeof_object (JArray _) = True"
| "typeof_object (JObject _) = True"
| "typeof_object _ = False"

section \<open>Numbers\<close>

definition MAX_SAFE_INTEGER :: int where
  "MAX_SAFE_INTEGER = 9007199254740991"

definition isSafeInteger :: "int \<Rightarrow> bool" where
  "isSafeInteger n \<longleftrightarrow> - MAX_SAFE_INTEGER \<le> n \<and> n \<le> MAX_SAFE_INTEGER"

section \<open>Characters and strings\<close>

definition char_between :: "char \<Rightarrow> char \<Rightarrow> char \<Rightarrow> bool" where
  "char_between lo hi c \<longleftrightarrow> of_char lo \<le> (of_char c :: nat) \<and> (of_char c :: nat) \<le> of_char hi"

definition is_digit :: "char \<Rightarrow> bool" where
  "is_digit c \<longleftrightarrow> char_between CHR ''0'' CHR ''9'' c"

definition is_lower :: "char \<Rightarrow> bool" where
  "is_lower c \<longleftrightarrow> char_between CHR ''a'' CHR ''z'' c"

definition is_upper :: "char \<Rightarrow> bool" where
  "is_upper c \<longleftrightarrow> char_between CHR ''A'' CHR ''Z'' c"

text \<open>\<^verbatim>\<open>[0-9a-f]\<close> and \<^verbatim>\<open>[0-9a-fA-F]\<close>.\<close>

definition is_lower_hex :: "char \<Rightarrow> bool" where
  "is_lower_hex c \<longleftrightarrow> is_digit c \<or> char_between CHR ''a'' CHR ''f'' c"

definition is_hex :: "char \<Rightarrow> bool" where
  "is_hex c \<longleftrightarrow> is_lower_hex c \<or> char_between CHR ''A'' CHR ''F'' c"

lemmas char_class_defs [validators] =
  char_between_def is_digit_def is_lower_def is_upper_def is_lower_hex_def is_hex_def

definition to_lower_char :: "char \<Rightarrow> char" where
  "to_lower_char c = (if is_upper c then char_of (of_char c + 32 :: nat) else c)"

text \<open>\<^verbatim>\<open>s.toLowerCase()\<close> on ASCII text.\<close>

definition toLowerCase :: "string \<Rightarrow> string" where
  "toLowerCase s = map to_lower_char s"

lemma to_lower_char_idem [simp]: "to_lower_char (to_lower_char c) = to_lower_char c"
proof (cases "is_upper c")
  case True
  then have "(of_char c + 32 :: nat) < 256" by (simp add: is_upper_def char_between_def)
  then have "(of_char (to_lower_char c) :: nat) = of_char c + 32"
    using True by (simp add: to_lower_char_def)
  then have "\<not> is_upper (to_lower_char c)"
    using True by (simp add: is_upper_def char_between_def)
  then show ?thesis by (simp add: to_lower_char_def)
next
  case False
  then show ?thesis by (simp add: to_lower_char_def)
qed

lemma toLowerCase_idem [simp]: "toLowerCase (toLowerCase s) = toLowerCase s"
  by (simp add: toLowerCase_def)

lemma length_toLowerCase [simp]: "length (toLowerCase s) = length s"
  by (simp add: toLowerCase_def)

text \<open>\<^verbatim>\<open>/^0x[0-9a-fA-F]{n}$/\<close> and its lower-case variant.\<close>

definition hex_literal :: "(char \<Rightarrow> bool) \<Rightarrow> nat \<Rightarrow> string \<Rightarrow> bool" where
  "hex_literal p n s \<longleftrightarrow>
     length s = n + 2 \<and> take 2 s = ''0x'' \<and> list_all p (drop 2 s)"

lemma is_hex_to_lower [simp]: "is_hex c \<Longrightarrow> is_hex (to_lower_char c)"
proof -
  assume h: "is_hex c"
  show ?thesis
  proof (cases "is_upper c")
    case True
    then have "(of_char c + 32 :: nat) < 256" by (simp add: is_upper_def char_between_def)
    then have "(of_char (to_lower_char c) :: nat) = of_char c + 32"
      using True by (simp add: to_lower_char_def)
    then show ?thesis using h True by (auto simp: char_class_defs)
  next
    case False
    then show ?thesis using h by (simp add: to_lower_char_def)
  qed
qed

lemma hex_literal_lower: "hex_literal is_hex n s \<Longrightarrow> hex_literal is_hex n (toLowerCase s)"
proof -
  assume h: "hex_literal is_hex n s"
  then have "take 2 (toLowerCase s) = map to_lower_char ''0x''"
    by (simp add: toLowerCase_def take_map hex_literal_def)
  also have "\<dots> = ''0x''" by (simp add: to_lower_char_def is_upper_def char_between_def)
  finally show ?thesis
    using h by (auto simp: hex_literal_def toLowerCase_def drop_map list_all_iff)
qed

text \<open>White space as \<^verbatim>\<open>trim()\<close> and \<^verbatim>\<open>\s\<close> see it in ASCII text.\<close>

definition is_space :: "char \<Rightarrow> bool" where
  "is_space c \<longleftrightarrow> of_char c = (32 :: nat) \<or> (9 \<le> (of_char c :: nat) \<and> (of_char c :: nat) \<le> 13)"

definition trim :: "string \<Rightarrow> string" where
  "trim s = rev (dropWhile is_space (rev (dropWhile is_space s)))"

section \<open>Decimal text\<close>

text \<open>
  \<^verbatim>\<open>String(n)\<close> and \<^verbatim>\<open>n.toString()\<close> of a bigint, and \<^verbatim>\<open>BigInt(text)\<close> on the decimal
  texts those produce. \<^verbatim>\<open>BigInt\<close> throws on any other text; the only writers of the
  columns it reads are \<^verbatim>\<open>amountText\<close>, \<^verbatim>\<open>amount\<close> and \<^verbatim>\<open>String(bigint)\<close>, so the model reads
  decimal text only.
\<close>

definition digit_char :: "nat \<Rightarrow> char" where
  "digit_char d = char_of (48 + d)"

definition digit_value :: "char \<Rightarrow> nat" where
  "digit_value c = of_char c - 48"

fun nat_dec :: "nat \<Rightarrow> string" where
  "nat_dec n = (if n < 10 then [digit_char n] else nat_dec (n div 10) @ [digit_char (n mod 10)])"

declare nat_dec.simps [simp del]

definition dec_value :: "string \<Rightarrow> nat" where
  "dec_value s = foldl (\<lambda>acc c. 10 * acc + digit_value c) 0 s"

definition String :: "int \<Rightarrow> string" where
  "String i = (if i < 0 then CHR ''-'' # nat_dec (nat (- i)) else nat_dec (nat i))"

definition BigInt :: "string \<Rightarrow> int" where
  "BigInt s = (case s of
     [] \<Rightarrow> 0
   | c # cs \<Rightarrow> if c = CHR ''-'' then - int (dec_value cs) else int (dec_value s))"

lemma digit_char_eval [simp]:
  "digit_char 0 = CHR ''0''" "digit_char 1 = CHR ''1''" "digit_char (Suc 0) = CHR ''1''"
  "digit_char 2 = CHR ''2''" "digit_char 3 = CHR ''3''" "digit_char 4 = CHR ''4''"
  "digit_char 5 = CHR ''5''" "digit_char 6 = CHR ''6''" "digit_char 7 = CHR ''7''"
  "digit_char 8 = CHR ''8''" "digit_char 9 = CHR ''9''"
  by (simp_all add: digit_char_def char_of_def bit_0)

lemma digit_value_digit_char [simp]: "d < 10 \<Longrightarrow> digit_value (digit_char d) = d"
  by (simp add: digit_value_def digit_char_def)

lemma is_digit_digit_char [simp]: "d < 10 \<Longrightarrow> is_digit (digit_char d)"
  by (simp add: is_digit_def char_between_def digit_char_def)

lemma digit_value_less [simp]: "is_digit c \<Longrightarrow> digit_value c < 10"
  by (auto simp: is_digit_def char_between_def digit_value_def)

lemma digit_char_digit_value [simp]: "is_digit c \<Longrightarrow> digit_char (digit_value c) = c"
  by (simp add: is_digit_def char_between_def digit_value_def digit_char_def)

lemma dec_value_Nil [simp]: "dec_value [] = 0"
  by (simp add: dec_value_def)

lemma dec_value_snoc [simp]: "dec_value (s @ [c]) = 10 * dec_value s + digit_value c"
  by (simp add: dec_value_def)

lemma dec_value_single [simp]: "dec_value [c] = digit_value c"
  using dec_value_snoc [of "[]" c] by simp

lemma dec_value_nat_dec [simp]: "dec_value (nat_dec n) = n"
proof (induction n rule: nat_dec.induct)
  case (1 n)
  then show ?case by (subst nat_dec.simps) auto
qed

lemma nat_dec_not_Nil [simp]: "nat_dec n \<noteq> []"
  by (subst nat_dec.simps) simp

lemma nat_dec_digits [simp]: "list_all is_digit (nat_dec n)"
proof (induction n rule: nat_dec.induct)
  case (1 n)
  then show ?case by (subst nat_dec.simps) auto
qed

lemma hd_nat_dec_not_minus [simp]: "hd (nat_dec n) \<noteq> CHR ''-''"
proof -
  have "is_digit (hd (nat_dec n))"
    using nat_dec_digits [of n] nat_dec_not_Nil [of n]
    by (simp add: list_all_iff)
  then show ?thesis by (auto simp: is_digit_def char_between_def)
qed

lemma BigInt_nat_dec: "BigInt (nat_dec n) = int n"
proof (cases "nat_dec n")
  case Nil
  then show ?thesis by simp
next
  case (Cons c cs)
  then have "c \<noteq> CHR ''-''" using hd_nat_dec_not_minus [of n] by simp
  then show ?thesis using Cons dec_value_nat_dec [of n] by (simp add: BigInt_def)
qed

text \<open>The bigint text codec loses nothing, at any magnitude.\<close>

lemma BigInt_String [simp]: "BigInt (String i) = i"
  by (simp add: String_def BigInt_nat_dec) (simp add: BigInt_def)

lemma String_inj [simp]: "String i = String j \<longleftrightarrow> i = j"
  by (metis BigInt_String)

lemma BigInt_zero_text [simp]: "BigInt ''0'' = 0"
  by (simp add: BigInt_def dec_value_def digit_value_def)

section \<open>SQL tables as lists\<close>

text \<open>
  \<^verbatim>\<open>INTEGER PRIMARY KEY\<close>: SQLite gives a new row one more than the largest identifier in
  the table, and 1 in an empty table.
\<close>

definition next_rowid :: "('r \<Rightarrow> int) \<Rightarrow> 'r list \<Rightarrow> int" where
  "next_rowid f rows = foldr max (map f rows) 0 + 1"

lemma foldr_max_upper: "x \<in> set xs \<Longrightarrow> (x :: int) \<le> foldr max xs a"
  by (induction xs) auto

lemma next_rowid_fresh: "r \<in> set rows \<Longrightarrow> f r < next_rowid f rows"
  using foldr_max_upper [of "f r" "map f rows" 0] by (simp add: next_rowid_def)

lemma next_rowid_notin [simp]: "next_rowid f rows \<notin> f ` set rows"
proof
  assume "next_rowid f rows \<in> f ` set rows"
  then obtain r where "r \<in> set rows" and "f r = next_rowid f rows" by auto
  then show False using next_rowid_fresh [of r rows f] by simp
qed

text \<open>\<^verbatim>\<open>ORDER BY key DESC\<close>.\<close>

definition order_desc :: "('r \<Rightarrow> 'k :: linorder) \<Rightarrow> 'r list \<Rightarrow> 'r list" where
  "order_desc key rows = rev (sort_key key rows)"

lemma set_order_desc [simp]: "set (order_desc key rows) = set rows"
  by (simp add: order_desc_def)

lemma length_order_desc [simp]: "length (order_desc key rows) = length rows"
  by (simp add: order_desc_def)

lemma distinct_order_desc [simp]: "distinct (order_desc key rows) = distinct rows"
  by (simp add: order_desc_def)

lemma sorted_order_desc: "sorted (rev (map key (order_desc key rows)))"
  by (simp add: order_desc_def rev_map)

text \<open>
  \<^verbatim>\<open>... ORDER BY key DESC LIMIT n\<close> keeps the \<open>n\<close> rows with the largest keys: nothing cut
  off is larger than something kept.
\<close>

lemma order_desc_limit_newest:
  assumes "x \<in> set (take n (order_desc key rows))"
    and "y \<in> set (drop n (order_desc key rows))"
  shows "key y \<le> key x"
proof -
  let ?ks = "map key (order_desc key rows)"
  have split: "rev ?ks = rev (map key (drop n (order_desc key rows)))
      @ rev (map key (take n (order_desc key rows)))"
    by (metis append_take_drop_id map_append rev_append)
  have "sorted (rev (map key (drop n (order_desc key rows)))
      @ rev (map key (take n (order_desc key rows))))"
    using sorted_order_desc [of key rows] split by simp
  then show ?thesis using assms by (auto simp: sorted_append)
qed

section \<open>Lists\<close>

lemma length_filter_split: "length xs = length (filter p xs) + length (filter (\<lambda>x. \<not> p x) xs)"
  by (simp add: sum_length_filter_compl)

lemma find_Some_iff_ex: "find p xs = Some x \<Longrightarrow> x \<in> set xs \<and> p x"
  by (auto simp: find_Some_iff)

lemma sum_list_map_filter_split:
  "sum_list (map f xs) = sum_list (map f (filter p xs)) + sum_list (map f (filter (\<lambda>x. \<not> p x) xs))"
  for f :: "'a \<Rightarrow> int"
  by (induction xs) auto

text \<open>\<^verbatim>\<open>UPDATE ... WHERE p\<close>.\<close>

definition update_where :: "('r \<Rightarrow> bool) \<Rightarrow> ('r \<Rightarrow> 'r) \<Rightarrow> 'r list \<Rightarrow> 'r list" where
  "update_where p f rows = map (\<lambda>r. if p r then f r else r) rows"

text \<open>\<^verbatim>\<open>changes\<close> of an \<^verbatim>\<open>UPDATE\<close> or \<^verbatim>\<open>DELETE\<close>: the number of rows the condition selects.\<close>

definition changes :: "('r \<Rightarrow> bool) \<Rightarrow> 'r list \<Rightarrow> nat" where
  "changes p rows = length (filter p rows)"

lemma length_update_where [simp]: "length (update_where p f rows) = length rows"
  by (simp add: update_where_def)

lemma map_update_where_id:
  "(\<And>r. p r \<Longrightarrow> g (f r) = g r) \<Longrightarrow> map g (update_where p f rows) = map g rows"
  by (simp add: update_where_def)

lemma set_update_where:
  "set (update_where p f rows) = {r \<in> set rows. \<not> p r} \<union> f ` {r \<in> set rows. p r}"
  by (auto simp: update_where_def)

lemma find_map_pred: "(\<And>r. P (h r) = P r) \<Longrightarrow> find P (map h xs) = map_option h (find P xs)"
  by (induction xs) auto

text \<open>
  Reading one row back by a key the update keeps: the other rows are untouched and the
  selected row is rewritten when the condition holds of it.
\<close>

lemma find_update_where:
  assumes "\<And>r. k (f r) = k r"
  shows "find (\<lambda>r. k r = x) (update_where p f rows)
    = map_option (\<lambda>r. if p r then f r else r) (find (\<lambda>r. k r = x) rows)"
  unfolding update_where_def by (rule find_map_pred) (simp add: assms)

lemma find_append_key:
  "find p (xs @ [r]) = (case find p xs of Some y \<Rightarrow> Some y | None \<Rightarrow> if p r then Some r else None)"
  by (induction xs) auto

text \<open>Rewriting the one row a key selects moves a sum over the table by that row's difference.\<close>

lemma update_where_absent: "i \<notin> k ` set rs \<Longrightarrow> update_where (\<lambda>x. k x = i) f rs = rs"
  by (induction rs) (auto simp: update_where_def)

lemma update_where_Cons:
  "update_where p f (x # xs) = (if p x then f x else x) # update_where p f xs"
  by (simp add: update_where_def)

lemma sum_update_where:
  fixes g :: "'r \<Rightarrow> int"
  assumes "distinct (map k rs)" and "r \<in> set rs" and "\<And>x. P (f x) = P x"
  shows "sum_list (map g (filter P (update_where (\<lambda>x. k x = k r) f rs)))
    = sum_list (map g (filter P rs)) + (if P r then g (f r) - g r else 0)"
  using assms(1,2)
proof (induction rs)
  case (Cons x xs)
  show ?case
  proof (cases "k x = k r")
    case True
    then have "x = r" using Cons.prems by auto
    moreover have "update_where (\<lambda>x. k x = k r) f xs = xs"
      using Cons.prems True by (intro update_where_absent) auto
    ultimately show ?thesis using assms(3) by (simp add: update_where_Cons)
  next
    case False
    then show ?thesis using Cons assms(3) by (auto simp: update_where_Cons)
  qed
qed simp

lemma find_distinct:
  assumes "distinct (map k xs)" "x \<in> set xs"
  shows "find (\<lambda>y. k y = k x) xs = Some x"
  using assms by (induction xs) auto

end
