(* ===== verification/Retention.thy ===== *)
theory Retention
  imports Prelude
begin

text \<open>
  The retention contract two tables of the store share: \<^verbatim>\<open>Ledger.prune\<close> bounds the
  \<^verbatim>\<open>rejected\<close> settlement events and \<^verbatim>\<open>PaymentIdentifiers.prune\<close> the unsettled bindings,
  each with one \<^verbatim>\<open>DELETE\<close> by age and one by rank. The laws below are what those two
  statements promise; the consequences are proved once here and reach each table through an
  interpretation on its own model.
\<close>

locale retention =
  fixes candidate :: "'r \<Rightarrow> bool"
    and stamp :: "'r \<Rightarrow> int"
    and rank :: "'r \<Rightarrow> 'k :: linorder"
    and ident :: "'r \<Rightarrow> 'i"
    and drop_before :: "int \<Rightarrow> 'r list \<Rightarrow> 'r list"
    and drop_beyond :: "nat \<Rightarrow> 'r list \<Rightarrow> 'r list"
  assumes drop_before_law:
      "drop_before b rs = filter (\<lambda>r. \<not> (candidate r \<and> stamp r < b)) rs"
    and drop_beyond_law:
      "drop_beyond k rs = filter (\<lambda>r. \<not> (candidate r \<and>
         ident r \<notin> ident ` set (take k (order_desc rank (filter candidate rs))))) rs"
begin

lemma keeps_others:
  "filter (\<lambda>r. \<not> candidate r) (drop_beyond k (drop_before b rs)) = filter (\<lambda>r. \<not> candidate r) rs"
  unfolding drop_before_law drop_beyond_law filter_filter by (rule filter_cong) auto

lemma others_stay: "r \<in> set rs \<Longrightarrow> \<not> candidate r \<Longrightarrow> r \<in> set (drop_beyond k (drop_before b rs))"
  by (simp add: drop_before_law drop_beyond_law)

lemma shrinks:
  "length (drop_before b rs) \<le> length rs" "length (drop_beyond k rs) \<le> length rs"
  unfolding drop_before_law drop_beyond_law by (rule length_filter_le)+

text \<open>The rows a pass removes, counted the way \<^verbatim>\<open>changes + changes\<close> does.\<close>

lemma removed_count:
  "int (length rs - length (drop_before b rs))
     + int (length (drop_before b rs) - length (drop_beyond k (drop_before b rs)))
   = int (length rs) - int (length (drop_beyond k (drop_before b rs)))"
  using shrinks(1) [of b rs] shrinks(2) [of k "drop_before b rs"] by linarith

lemma subset: "set (drop_beyond k (drop_before b rs)) \<subseteq> set rs"
  by (auto simp: drop_before_law drop_beyond_law)

lemma none_older:
  "r \<in> set (drop_beyond k (drop_before b rs)) \<Longrightarrow> candidate r \<Longrightarrow> b \<le> stamp r"
  by (auto simp: drop_before_law drop_beyond_law)

lemma distinct_after:
  "distinct (map ident rs) \<Longrightarrow> distinct (map ident (drop_beyond k (drop_before b rs)))"
  by (simp add: drop_before_law drop_beyond_law distinct_map_filter)

text \<open>The survivors of the second \<^verbatim>\<open>DELETE\<close> are exactly the first \<open>k\<close> by rank.\<close>

lemma survivors:
  assumes "distinct (map ident rs)"
  shows "set (filter candidate (drop_beyond k rs)) = set (take k (order_desc rank (filter candidate rs)))"
    (is "?L = set ?top")
proof
  have sub: "set ?top \<subseteq> {r \<in> set rs. candidate r}"
    using set_take_subset [of k "order_desc rank (filter candidate rs)"] by auto
  then show "set ?top \<subseteq> ?L" by (auto simp: drop_beyond_law)
  show "?L \<subseteq> set ?top"
  proof
    fix r assume "r \<in> ?L"
    then have r: "r \<in> set rs" "candidate r" "ident r \<in> ident ` set ?top"
      by (auto simp: drop_beyond_law)
    then obtain t where "t \<in> set ?top" "ident r = ident t" by auto
    moreover have "inj_on ident (set rs)" using assms by (simp add: distinct_map)
    ultimately show "r \<in> set ?top" using r sub by (auto dest: inj_onD)
  qed
qed

lemma survivor_count:
  assumes "distinct (map ident rs)"
  shows "length (filter candidate (drop_beyond k rs)) = min k (length (filter candidate rs))"
proof -
  have d: "distinct rs" using assms by (simp add: distinct_map)
  have "distinct (filter candidate (drop_beyond k rs))"
    using d by (simp add: drop_beyond_law)
  then have "length (filter candidate (drop_beyond k rs))
      = card (set (take k (order_desc rank (filter candidate rs))))"
    using survivors [OF assms, of k] distinct_card by metis
  also have "\<dots> = length (take k (order_desc rank (filter candidate rs)))"
    using d by (intro distinct_card distinct_take) simp
  finally show ?thesis by simp
qed

lemma survivors_newest:
  assumes "distinct (map ident rs)"
    and "x \<in> set (filter candidate (drop_beyond k rs))"
    and "y \<in> set (filter candidate rs)" and "y \<notin> set (drop_beyond k rs)"
  shows "rank y \<le> rank x"
proof -
  have "y \<in> set (order_desc rank (filter candidate rs))" using assms(3) by simp
  moreover have "y \<notin> set (take k (order_desc rank (filter candidate rs)))"
    using survivors [OF assms(1), of k] assms(3,4) by auto
  ultimately have "y \<in> set (drop k (order_desc rank (filter candidate rs)))"
    by (metis Un_iff append_take_drop_id set_append)
  moreover have "x \<in> set (take k (order_desc rank (filter candidate rs)))"
    using survivors [OF assms(1), of k] assms(2) by simp
  ultimately show ?thesis by (rule order_desc_limit_newest [rotated])
qed

text \<open>What a pass of both statements leaves, in the terms the callers document.\<close>

lemma pass:
  fixes b :: int and k :: nat
  assumes "distinct (map ident rs)"
  defines "win \<equiv> drop_before b rs"
  defines "out \<equiv> drop_beyond k win"
  shows "filter (\<lambda>r. \<not> candidate r) out = filter (\<lambda>r. \<not> candidate r) rs"
    and "length (filter candidate out) = min k (length (filter (\<lambda>r. candidate r \<and> b \<le> stamp r) rs))"
    and "\<And>r. r \<in> set out \<Longrightarrow> candidate r \<Longrightarrow> b \<le> stamp r"
    and "\<And>x y. x \<in> set out \<Longrightarrow> candidate x \<Longrightarrow> y \<in> set rs \<Longrightarrow> candidate y \<Longrightarrow> b \<le> stamp y
          \<Longrightarrow> y \<notin> set out \<Longrightarrow> rank y \<le> rank x"
proof -
  have d: "distinct (map ident win)"
    using assms(1) by (simp add: win_def drop_before_law distinct_map_filter)
  have w: "filter candidate win = filter (\<lambda>r. candidate r \<and> b \<le> stamp r) rs"
    unfolding win_def drop_before_law filter_filter by (rule filter_cong) auto
  show "filter (\<lambda>r. \<not> candidate r) out = filter (\<lambda>r. \<not> candidate r) rs"
    unfolding out_def win_def by (rule keeps_others)
  show "length (filter candidate out) = min k (length (filter (\<lambda>r. candidate r \<and> b \<le> stamp r) rs))"
    unfolding out_def using survivor_count [OF d, of k] w by simp
  show "\<And>r. r \<in> set out \<Longrightarrow> candidate r \<Longrightarrow> b \<le> stamp r"
    unfolding out_def win_def by (rule none_older)
  show "\<And>x y. x \<in> set out \<Longrightarrow> candidate x \<Longrightarrow> y \<in> set rs \<Longrightarrow> candidate y \<Longrightarrow> b \<le> stamp y
          \<Longrightarrow> y \<notin> set out \<Longrightarrow> rank y \<le> rank x"
  proof -
    fix x y assume *: "x \<in> set out" "candidate x" "y \<in> set rs" "candidate y" "b \<le> stamp y" "y \<notin> set out"
    then have "y \<in> set (filter candidate win)" using w by auto
    then show "rank y \<le> rank x"
      using survivors_newest [OF d, of x k y] * unfolding out_def by auto
  qed
qed

end

end
