(* ===== verification/Store_Ledger.thy ===== *)
theory Store_Ledger
  imports Retention
begin

text \<open>
  The input validators of \<^verbatim>\<open>packages/store/src/index.ts\<close> and its settlement ledger
  (\<^verbatim>\<open>createLedger\<close>): \<^verbatim>\<open>record\<close>, \<^verbatim>\<open>list\<close>, \<^verbatim>\<open>summary\<close> and \<^verbatim>\<open>prune\<close> over the table
  \<^verbatim>\<open>settlement_events\<close>. The lemmas show what a pass of the retention keeps, what the
  summary counts, and that the summary's money figures do not depend on the retention.
\<close>

section \<open>Validators\<close>

text \<open>Both branches of \<^verbatim>\<open>amountText\<close>: not a bigint, or negative.\<close>

definition amountText :: "js \<Rightarrow> string \<Rightarrow> string result" where
  "amountText value name = (case value of
     JBigint v \<Rightarrow> if v < 0 then Inl (RangeError (name @ '' must not be negative'')) else Inr (String v)
   | _ \<Rightarrow> Inl (TypeError (name @ '' must be a bigint'')))"

definition optionalAmountText :: "int option \<Rightarrow> string \<Rightarrow> string option result" where
  "optionalAmountText value name = (case value of
     None \<Rightarrow> Inr None
   | Some v \<Rightarrow> ebind (amountText (JBigint v) name) (\<lambda>t. Inr (Some t)))"

definition millis :: "js \<Rightarrow> string \<Rightarrow> int result" where
  "millis value name = (case value of
     JNum n \<Rightarrow> if isSafeInteger n \<and> 0 \<le> n then Inr n
       else Inl (TypeError (name @ '' must be a non-negative integer of epoch milliseconds''))
   | _ \<Rightarrow> Inl (TypeError (name @ '' must be a non-negative integer of epoch milliseconds'')))"

definition positiveInteger :: "js \<Rightarrow> string \<Rightarrow> int result" where
  "positiveInteger value name = (case value of
     JNum n \<Rightarrow> if isSafeInteger n \<and> 1 \<le> n then Inr n
       else Inl (TypeError (name @ '' must be a positive integer''))
   | _ \<Rightarrow> Inl (TypeError (name @ '' must be a positive integer'')))"

lemma amountText_iff [simp]:
  "amountText (JBigint v) name = Inr t \<longleftrightarrow> 0 \<le> v \<and> t = String v"
  by (auto simp: amountText_def)

lemma amountText_ok: "0 \<le> v \<Longrightarrow> amountText (JBigint v) name = Inr (String v)"
  by simp

lemma millis_iff [simp]:
  "millis (JNum n) name = Inr m \<longleftrightarrow> isSafeInteger n \<and> 0 \<le> n \<and> m = n"
  by (auto simp: millis_def)

lemma millis_ok [simp]: "isSafeInteger n \<Longrightarrow> 0 \<le> n \<Longrightarrow> millis (JNum n) name = Inr n"
  by simp

lemma positiveInteger_iff [simp]:
  "positiveInteger (JNum n) name = Inr m \<longleftrightarrow> isSafeInteger n \<and> 1 \<le> n \<and> m = n"
  by (auto simp: positiveInteger_def)

lemma positiveInteger_ok [simp]: "isSafeInteger n \<Longrightarrow> 1 \<le> n \<Longrightarrow> positiveInteger (JNum n) name = Inr n"
  by simp

lemma optionalAmountText_iff [simp]:
  "optionalAmountText g name = Inr t \<longleftrightarrow> (\<forall>v. g = Some v \<longrightarrow> 0 \<le> v) \<and> t = map_option String g"
  by (cases g) (auto simp: optionalAmountText_def result_simps)

section \<open>Events and rows\<close>

datatype SettlementOutcome = Settled | Rejected | OutcomeError

record SettlementEventInput =
  evi_at :: int
  evi_kind :: string
  evi_payer :: string
  evi_payTo :: string
  evi_amountBase :: int
  evi_outcome :: SettlementOutcome
  evi_txHash :: "string option"
  evi_gasUsed :: "int option"
  evi_errorCode :: "string option"

record SettlementEvent =
  ev_id :: int
  ev_at :: int
  ev_kind :: string
  ev_payer :: string
  ev_payTo :: string
  ev_amountBase :: int
  ev_outcome :: SettlementOutcome
  ev_txHash :: "string option"
  ev_gasUsed :: "int option"
  ev_errorCode :: "string option"

text \<open>A row of \<^verbatim>\<open>settlement_events\<close>: amounts are decimal text.\<close>

record SettlementEventRow =
  row_id :: int
  row_at :: int
  row_kind :: string
  row_payer :: string
  row_pay_to :: string
  row_amount_base :: string
  row_tx_hash :: "string option"
  row_outcome :: SettlementOutcome
  row_gas_used :: "string option"
  row_error_code :: "string option"

definition toSettlementEvent :: "SettlementEventRow \<Rightarrow> SettlementEvent" where
  "toSettlementEvent row = \<lparr>
     ev_id = row_id row,
     ev_at = row_at row,
     ev_kind = row_kind row,
     ev_payer = row_payer row,
     ev_payTo = row_pay_to row,
     ev_amountBase = BigInt (row_amount_base row),
     ev_outcome = row_outcome row,
     ev_txHash = row_tx_hash row,
     ev_gasUsed = map_option BigInt (row_gas_used row),
     ev_errorCode = row_error_code row\<rparr>"

section \<open>The ledger's operations\<close>

definition ledger_record ::
    "SettlementEventRow list \<Rightarrow> SettlementEventInput \<Rightarrow> (SettlementEvent \<times> SettlementEventRow list) result" where
  "ledger_record rows e =
     ebind (millis (JNum (evi_at e)) ''at'') (\<lambda>at_ms.
     ebind (amountText (JBigint (evi_amountBase e)) ''amountBase'') (\<lambda>amountBase.
     ebind (optionalAmountText (evi_gasUsed e) ''gasUsed'') (\<lambda>gasUsed.
       let row = \<lparr>row_id = next_rowid row_id rows, row_at = at_ms, row_kind = evi_kind e,
             row_payer = evi_payer e, row_pay_to = evi_payTo e, row_amount_base = amountBase,
             row_tx_hash = evi_txHash e, row_outcome = evi_outcome e, row_gas_used = gasUsed,
             row_error_code = evi_errorCode e\<rparr>
       in Inr (toSettlementEvent row, rows @ [row]))))"

definition ledger_order :: "SettlementEventRow \<Rightarrow> int \<times> int" where
  "ledger_order r = (row_at r, row_id r)"

definition ledger_list :: "SettlementEventRow list \<Rightarrow> int \<Rightarrow> SettlementEvent list result" where
  "ledger_list rows limit =
     ebind (positiveInteger (JNum limit) ''limit'') (\<lambda>n.
       Inr (map toSettlementEvent (take (nat n) (order_desc ledger_order rows))))"

record LedgerSummary =
  sum_total :: int
  sum_succeeded :: int
  sum_failed :: int
  sum_volumeByPayTo :: "string \<rightharpoonup> int"
  sum_uniquePayers :: int

text \<open>\<^verbatim>\<open>volumeByPayTo[pay_to] = (volumeByPayTo[pay_to] ?? 0n) + BigInt(amount_base)\<close>.\<close>

definition add_volume :: "(string \<rightharpoonup> int) \<Rightarrow> SettlementEventRow \<Rightarrow> (string \<rightharpoonup> int)" where
  "add_volume m r = m(row_pay_to r \<mapsto>
     (case m (row_pay_to r) of None \<Rightarrow> 0 | Some v \<Rightarrow> v) + BigInt (row_amount_base r))"

definition settled_since :: "int \<Rightarrow> SettlementEventRow \<Rightarrow> bool" where
  "settled_since since r \<longleftrightarrow> row_outcome r = Settled \<and> since \<le> row_at r"

definition ledger_summary :: "SettlementEventRow list \<Rightarrow> int \<Rightarrow> LedgerSummary result" where
  "ledger_summary rows sinceMs =
     ebind (millis (JNum sinceMs) ''sinceMs'') (\<lambda>since.
       let total = int (length (filter (\<lambda>r. since \<le> row_at r) rows));
           settled = filter (settled_since since) rows;
           succeeded = int (length settled)
       in Inr \<lparr>sum_total = total, sum_succeeded = succeeded, sum_failed = total - succeeded,
               sum_volumeByPayTo = foldl add_volume Map.empty settled,
               sum_uniquePayers = int (length (remdups (map row_payer settled)))\<rparr>)"

definition rejected_row :: "SettlementEventRow \<Rightarrow> bool" where
  "rejected_row r \<longleftrightarrow> row_outcome r = Rejected"

definition dropRejectedBefore :: "int \<Rightarrow> SettlementEventRow list \<Rightarrow> SettlementEventRow list" where
  "dropRejectedBefore before rows = filter (\<lambda>r. \<not> (rejected_row r \<and> row_at r < before)) rows"

definition dropRejectedBeyond :: "nat \<Rightarrow> SettlementEventRow list \<Rightarrow> SettlementEventRow list" where
  "dropRejectedBeyond keep rows = filter (\<lambda>r. \<not> (rejected_row r \<and>
     row_id r \<notin> row_id ` set (take keep (order_desc ledger_order (filter rejected_row rows))))) rows"

text \<open>The two deletes in one transaction; the result is how many rows went.\<close>

definition ledger_prune ::
    "SettlementEventRow list \<Rightarrow> int \<Rightarrow> int \<Rightarrow> (int \<times> SettlementEventRow list) result" where
  "ledger_prune rows rejectedBefore keepRejected =
     ebind (millis (JNum rejectedBefore) ''rejectedBefore'') (\<lambda>before.
     ebind (positiveInteger (JNum keepRejected) ''keepRejected'') (\<lambda>keep.
       let rows1 = dropRejectedBefore before rows;
           rows2 = dropRejectedBeyond (nat keep) rows1
       in Inr (int (length rows - length rows1) + int (length rows1 - length rows2), rows2)))"

interpretation led: retention rejected_row row_at ledger_order row_id
    dropRejectedBefore dropRejectedBeyond
  by unfold_locales (simp_all add: dropRejectedBefore_def dropRejectedBeyond_def)

section \<open>Well-formed ledgers\<close>

text \<open>Row identifiers are unique and every amount column holds a decimal integer.\<close>

definition ledger_ok :: "SettlementEventRow list \<Rightarrow> bool" where
  "ledger_ok rows \<longleftrightarrow> distinct (map row_id rows) \<and>
     (\<forall>r \<in> set rows. \<exists>v \<ge> 0. row_amount_base r = String v)"

lemma ledger_recordE:
  assumes "ledger_record rows e = Inr (ev, rows')"
  obtains row where "rows' = rows @ [row]" and "ev = toSettlementEvent row"
    and "row_id row = next_rowid row_id rows" and "0 \<le> evi_amountBase e"
    and "row_amount_base row = String (evi_amountBase e)" and "row_outcome row = evi_outcome e"
    and "row_at row = evi_at e" and "row_pay_to row = evi_payTo e" and "row_payer row = evi_payer e"
    and "row_error_code row = evi_errorCode e" and "row_tx_hash row = evi_txHash e"
    and "row_kind row = evi_kind e" and "row_gas_used row = map_option String (evi_gasUsed e)"
  using assms by (auto simp: ledger_record_def result_simps Let_def)

lemma ledger_record_ok: "ledger_ok rows \<Longrightarrow> ledger_record rows e = Inr (ev, rows') \<Longrightarrow> ledger_ok rows'"
  by (erule ledger_recordE) (auto simp: ledger_ok_def)

lemma ledger_pruneE:
  assumes "ledger_prune rows b k = Inr (n, rows')"
  obtains "rows' = dropRejectedBeyond (nat k) (dropRejectedBefore b rows)" and "1 \<le> k"
    and "n = int (length rows) - int (length rows')"
  using assms that by (auto simp: ledger_prune_def result_simps Let_def led.removed_count)

lemma ledger_prune_ok: "ledger_ok rows \<Longrightarrow> ledger_prune rows b k = Inr (n, rows') \<Longrightarrow> ledger_ok rows'"
  using led.subset led.distinct_after by (fastforce elim!: ledger_pruneE simp: ledger_ok_def)

section \<open>What the summary counts\<close>

lemma foldl_add_volume:
  "foldl add_volume m rs p =
     (if \<exists>r \<in> set rs. row_pay_to r = p
      then Some ((case m p of None \<Rightarrow> 0 | Some v \<Rightarrow> v)
        + sum_list (map (\<lambda>r. BigInt (row_amount_base r)) (filter (\<lambda>r. row_pay_to r = p) rs)))
      else m p)"
  by (induction rs arbitrary: m) (auto simp: add_volume_def)

lemma settled_not_rejected: "settled_since s r \<Longrightarrow> \<not> rejected_row r"
  by (simp add: settled_since_def rejected_row_def)

lemma settled_filter_kept:
  assumes "filter (\<lambda>r. \<not> rejected_row r) rows' = filter (\<lambda>r. \<not> rejected_row r) rows"
  shows "filter (settled_since s) rows' = filter (settled_since s) rows"
proof -
  have "filter (settled_since s) rs = filter (settled_since s) (filter (\<lambda>r. \<not> rejected_row r) rs)" for rs
    unfolding filter_filter by (rule filter_cong) (auto dest: settled_not_rejected)
  then show ?thesis using assms by metis
qed

section \<open>Properties\<close>

definition sample_event :: "int \<Rightarrow> int \<Rightarrow> SettlementOutcome \<Rightarrow> SettlementEventRow" where
  "sample_event i t out = \<lparr>row_id = i, row_at = t, row_kind = ''settle'', row_payer = ''p'', row_pay_to = ''q'',
     row_amount_base = String 3, row_tx_hash = None, row_outcome = out, row_gas_used = None, row_error_code = None\<rparr>"

definition sample_ledger :: "SettlementEventRow list" where
  "sample_ledger = [sample_event 1 10 Rejected, sample_event 2 20 Settled, sample_event 3 30 Rejected,
     sample_event 4 40 Rejected]"

lemma sample_event_fields [simp]:
  "row_id (sample_event i t out) = i" "row_at (sample_event i t out) = t"
  "row_outcome (sample_event i t out) = out" "row_payer (sample_event i t out) = ''p''"
  "row_amount_base (sample_event i t out) = String 3"
  by (simp_all add: sample_event_def)

lemma sample_ledger_prune:
  "ledger_prune sample_ledger 15 1 = Inr (2, [sample_event 2 20 Settled, sample_event 4 40 Rejected])"
  by (simp add: ledger_prune_def sample_ledger_def isSafeInteger_def MAX_SAFE_INTEGER_def Let_def
      dropRejectedBefore_def dropRejectedBeyond_def rejected_row_def order_desc_def ledger_order_def)

text \<open>The retention of the ledger. A prune keeps every row that is not a refusal, in place;
  of the refusals it keeps exactly the newest ones inside the window, at most \<^verbatim>\<open>keepRejected\<close>
  of them, nothing it drops for the count is newer than anything it keeps, and the number it
  reports is the number of rows gone.\<close>

theorem ledger_prune_retention:
  assumes "ledger_ok rows" and "ledger_prune rows rejectedBefore keepRejected = Inr (removed, rows')"
  shows "filter (\<lambda>r. row_outcome r \<noteq> Rejected) rows' = filter (\<lambda>r. row_outcome r \<noteq> Rejected) rows \<and>
    length (filter rejected_row rows') =
      min (nat keepRejected) (length (filter (\<lambda>r. rejected_row r \<and> rejectedBefore \<le> row_at r) rows)) \<and>
    (\<forall>r \<in> set rows'. rejected_row r \<longrightarrow> rejectedBefore \<le> row_at r) \<and>
    (\<forall>kept \<in> set rows'. \<forall>gone \<in> set rows - set rows'.
       rejected_row kept \<longrightarrow> rejectedBefore \<le> row_at gone \<longrightarrow> ledger_order gone \<le> ledger_order kept) \<and>
    removed = int (length rows) - int (length rows')"
proof -
  have d: "distinct (map row_id rows)" using assms(1) by (simp add: ledger_ok_def)
  from assms(2) obtain eq: "rows' = dropRejectedBeyond (nat keepRejected) (dropRejectedBefore rejectedBefore rows)"
    and "removed = int (length rows) - int (length rows')"
    by (rule ledger_pruneE)
  moreover have "rejected_row gone" if "gone \<in> set rows - set rows'" for gone
    using that led.others_stay eq by auto
  ultimately show ?thesis
    using led.pass [OF d, where k = "nat keepRejected" and b = rejectedBefore] unfolding rejected_row_def [symmetric]
    by (auto simp: rejected_row_def)
qed

theorem ledger_prune_retention_witness:
  "ledger_prune sample_ledger 15 1 = Inr (2, [sample_event 2 20 Settled, sample_event 4 40 Rejected]) \<and>
   length (filter rejected_row [sample_event 2 20 Settled, sample_event 4 40 Rejected]) = 1"
proof -
  have "ledger_ok sample_ledger"
    by (auto simp: ledger_ok_def sample_ledger_def intro: exI [of _ 3])
  from ledger_prune_retention [OF this sample_ledger_prune] sample_ledger_prune show ?thesis
    by (simp add: rejected_row_def)
qed

lemma length_filter_imp: "(\<And>x. p x \<Longrightarrow> q x) \<Longrightarrow> length (filter p xs) \<le> length (filter q xs)"
  by (induction xs) auto

text \<open>The figures published about money do not depend on the retention. After a prune the
  summary over any window reports the same settlements, the same volume for every recipient
  and the same number of payers; only the count of refusals can fall.\<close>

theorem summary_survives_prune:
  assumes "ledger_prune rows before keep = Inr (n, rows')"
    and "ledger_summary rows since = Inr s" and "ledger_summary rows' since = Inr s'"
  shows "sum_succeeded s' = sum_succeeded s \<and> sum_volumeByPayTo s' = sum_volumeByPayTo s \<and>
    sum_uniquePayers s' = sum_uniquePayers s \<and> sum_failed s' \<le> sum_failed s \<and> 0 \<le> sum_failed s'"
proof -
  have "filter (\<lambda>r. \<not> rejected_row r) rows' = filter (\<lambda>r. \<not> rejected_row r) rows"
    using assms(1) by (auto elim!: ledger_pruneE simp: led.keeps_others)
  note kept = settled_filter_kept [OF this, of since]
  have "length (filter (\<lambda>r. since \<le> row_at r) rows') \<le> length (filter (\<lambda>r. since \<le> row_at r) rows)"
    using assms(1) by (auto elim!: ledger_pruneE simp: dropRejectedBefore_def dropRejectedBeyond_def
        intro: length_filter_imp)
  moreover have "length (filter (settled_since since) rows') \<le> length (filter (\<lambda>r. since \<le> row_at r) rows')"
    by (induction rows') (auto simp: settled_since_def)
  ultimately show ?thesis using assms(2,3) kept by (auto simp: ledger_summary_def result_simps Let_def)
qed

theorem summary_survives_prune_witness:
  "\<exists>s s'. ledger_summary sample_ledger 0 = Inr s \<and>
    ledger_summary [sample_event 2 20 Settled, sample_event 4 40 Rejected] 0 = Inr s' \<and>
    sum_volumeByPayTo s' = sum_volumeByPayTo s \<and> sum_succeeded s = 1 \<and> sum_failed s' < sum_failed s"
proof -
  have "\<exists>s. ledger_summary rows 0 = Inr s" for rows
    by (simp add: ledger_summary_def millis_def isSafeInteger_def MAX_SAFE_INTEGER_def Let_def)
  then obtain s s' where s: "ledger_summary sample_ledger 0 = Inr s"
    "ledger_summary [sample_event 2 20 Settled, sample_event 4 40 Rejected] 0 = Inr s'"
    by blast
  then have "sum_succeeded s = 1" "sum_failed s = 3" "sum_failed s' = 1"
    by (auto simp: ledger_summary_def isSafeInteger_def MAX_SAFE_INTEGER_def Let_def sample_ledger_def
        settled_since_def)
  then show ?thesis using s summary_survives_prune [OF sample_ledger_prune s] by auto
qed

end
