(* ===== verification/Js_Date.thy ===== *)
theory Js_Date
  imports Prelude
begin

text \<open>
  The one use the sources make of JavaScript's dates: \<^verbatim>\<open>new Date(ms).toISOString().slice(0, 10)\<close>,
  the UTC calendar day a spend is booked under. The definitions follow ECMA-262's
  \<^verbatim>\<open>Day\<close>, \<^verbatim>\<open>DayFromYear\<close>, \<^verbatim>\<open>YearFromTime\<close> and \<^verbatim>\<open>MonthFromTime\<close>. An instant more than
  8.64e15 ms from the epoch is an invalid date and \<^verbatim>\<open>toISOString\<close> throws.
\<close>

definition DAY_MS :: int where
  "DAY_MS = 86400000"

definition MAX_TIME :: int where
  "MAX_TIME = 8640000000000000"

definition dayFromYear :: "int \<Rightarrow> int" where
  "dayFromYear y = 365 * (y - 1970) + (y - 1969) div 4 - (y - 1901) div 100 + (y - 1601) div 400"

lemma dayFromYear_step: "dayFromYear y + 364 \<le> dayFromYear (y + 1)"
proof -
  have "(y - 1969) div 4 \<le> (y + 1 - 1969) div 4" and "(y - 1601) div 400 \<le> (y + 1 - 1601) div 400"
    by (simp_all add: zdiv_mono1)
  moreover have "(y + 1 - 1901) div 100 \<le> (y - 1901) div 100 + 1"
    by linarith
  ultimately show ?thesis by (simp add: dayFromYear_def)
qed

lemma dayFromYear_step_le: "dayFromYear (y + 1) \<le> dayFromYear y + 367"
proof -
  have "(y + 1 - 1969) div 4 \<le> (y - 1969) div 4 + 1" and "(y + 1 - 1601) div 400 \<le> (y - 1601) div 400 + 1"
    by linarith+
  moreover have "(y - 1901) div 100 \<le> (y + 1 - 1901) div 100" by (simp add: zdiv_mono1)
  ultimately show ?thesis by (simp add: dayFromYear_def)
qed

text \<open>The largest year that starts on or before \<open>day\<close>, searched upwards.\<close>

function yearFromDay :: "int \<Rightarrow> int \<Rightarrow> int" where
  "yearFromDay day y = (if dayFromYear (y + 1) \<le> day then yearFromDay day (y + 1) else y)"
  by pat_completeness auto
termination
proof (relation "measure (\<lambda>(day, y). nat (day - dayFromYear y))")
  fix day y :: int
  assume "dayFromYear (y + 1) \<le> day"
  then show "((day, y + 1), day, y) \<in> measure (\<lambda>(day, y). nat (day - dayFromYear y))"
    using dayFromYear_step [of y] by simp
qed simp

declare yearFromDay.simps [simp del]

lemma yearFromDay_bounds:
  assumes "dayFromYear y \<le> day"
  shows "dayFromYear (yearFromDay day y) \<le> day \<and> day < dayFromYear (yearFromDay day y + 1)
    \<and> y \<le> yearFromDay day y"
  using assms
proof (induction day y rule: yearFromDay.induct)
  case (1 day y)
  show ?case
  proof (cases "dayFromYear (y + 1) \<le> day")
    case True
    then have "yearFromDay day y = yearFromDay day (y + 1)" by (simp add: yearFromDay.simps [of day y])
    then show ?thesis using "1.IH" [OF True True] by simp
  next
    case False
    then have "yearFromDay day y = y" by (simp add: yearFromDay.simps [of day y])
    then show ?thesis using "1.prems" False by simp
  qed
qed

definition isLeapYear :: "int \<Rightarrow> bool" where
  "isLeapYear y \<longleftrightarrow> (4 dvd y \<and> \<not> 100 dvd y) \<or> 400 dvd y"

definition monthLengths :: "int \<Rightarrow> int list" where
  "monthLengths y = [31, if isLeapYear y then 29 else 28, 31, 30, 31, 30, 31, 31, 30, 31, 30, 31]"

text \<open>Month (from 1) and day of the month of a day number within its year.\<close>

fun monthAndDate :: "int list \<Rightarrow> int \<Rightarrow> int \<Rightarrow> int \<times> int" where
  "monthAndDate (l # ls) m d = (if d < l \<or> ls = [] then (m, d + 1) else monthAndDate ls (m + 1) (d - l))"
| "monthAndDate [] m d = (m, d + 1)"

definition padStart :: "nat \<Rightarrow> string \<Rightarrow> string" where
  "padStart n s = replicate (n - length s) CHR ''0'' @ s"

text \<open>
  The date part of \<^verbatim>\<open>toISOString\<close>: four-digit years, and a sign with six digits outside
  0 to 9999.
\<close>

definition isoYear :: "int \<Rightarrow> string" where
  "isoYear y = (if 0 \<le> y \<and> y \<le> 9999 then padStart 4 (String y)
     else if y < 0 then CHR ''-'' # padStart 6 (String (- y))
     else CHR ''+'' # padStart 6 (String y))"

definition isoDate :: "int \<Rightarrow> string" where
  "isoDate ms =
     (let day = ms div DAY_MS;
          y = yearFromDay day (if 0 \<le> day then 1970 + day div 366 else -271822);
          md = monthAndDate (monthLengths y) 1 (day - dayFromYear y)
      in isoYear y @ ''-'' @ padStart 2 (String (fst md)) @ ''-'' @ padStart 2 (String (snd md)))"

definition toISOString_day :: "int \<Rightarrow> string result" where
  "toISOString_day ms =
     (if - MAX_TIME \<le> ms \<and> ms \<le> MAX_TIME then Inr (take 10 (isoDate ms))
      else Inl (RangeError ''Invalid Date''))"


lemma isoDate_example: "isoDate 1709164800000 = ''2024-02-29''"
proof -
  have d: "1709164800000 div DAY_MS = 19782" by (simp add: DAY_MS_def)
  have y: "yearFromDay 19782 (1970 + 19782 div 366) = 2024"
    by (simp add: yearFromDay.simps dayFromYear_def)
  have m: "monthAndDate (monthLengths 2024) 1 (19782 - dayFromYear 2024) = (2, 29)"
    by (simp add: monthLengths_def isLeapYear_def dayFromYear_def)
  show ?thesis
    unfolding isoDate_def Let_def d
    by (simp only: y m if_True if_False simp_thms zero_le_numeral fst_conv snd_conv)
      (simp add: isoYear_def padStart_def String_def nat_dec.simps)
qed

lemma isoDate_epoch: "isoDate 0 = ''1970-01-01''"
proof -
  have d: "0 div DAY_MS = 0" by simp
  have y: "yearFromDay 0 (1970 + 0 div 366) = 1970"
    by (simp add: yearFromDay.simps dayFromYear_def)
  have m: "monthAndDate (monthLengths 1970) 1 (0 - dayFromYear 1970) = (1, 1)"
    by (simp add: monthLengths_def isLeapYear_def dayFromYear_def)
  show ?thesis
    unfolding isoDate_def Let_def d
    by (simp only: y m if_True if_False simp_thms order_refl fst_conv snd_conv)
      (simp add: isoYear_def padStart_def String_def nat_dec.simps)
qed

text \<open>The whole \<^verbatim>\<open>toISOString\<close>: the date and the time of the day to the millisecond.\<close>

definition isoTime :: "int \<Rightarrow> string" where
  "isoTime ms = padStart 2 (String (ms mod DAY_MS div 3600000)) @ '':'' @ padStart 2 (String (ms mod 3600000 div 60000)) @ '':''
     @ padStart 2 (String (ms mod 60000 div 1000)) @ ''.'' @ padStart 3 (String (ms mod 1000)) @ ''Z''"

definition toISOString :: "int \<Rightarrow> string result" where
  "toISOString ms =
     (if - MAX_TIME \<le> ms \<and> ms \<le> MAX_TIME then Inr (isoDate ms @ ''T'' @ isoTime ms)
      else Inl (RangeError ''Invalid Date''))"

end
