(* ===== verification/Settlement_Journal.thy ===== *)
theory Settlement_Journal
  imports Store_Ledger Js_Date "HOL-Library.Multiset"
begin

text \<open>
  The daily budget table (\<^verbatim>\<open>createBudget\<close> of \<^verbatim>\<open>packages/store/src/index.ts\<close>) and the
  durable settlement journal (\<^verbatim>\<open>packages/store/src/settlement.ts\<close>): \<^verbatim>\<open>get\<close>, \<^verbatim>\<open>nextNonce\<close>,
  \<^verbatim>\<open>claim\<close> and \<^verbatim>\<open>finish\<close> over the tables \<^verbatim>\<open>settlement_intents\<close>, \<^verbatim>\<open>settlement_events\<close> and
  \<^verbatim>\<open>budget_days\<close>. The journal invariant says that every day's total is the sum of what
  the day's intents hold or spent, and that every intent is charged once.
\<close>

section \<open>Budget series\<close>

text \<open>\<^verbatim>\<open>budget_days\<close>, keyed by scope and day as its primary key says; the total is text.\<close>

type_synonym budget_days = "string \<times> string \<rightharpoonup> string"

text \<open>\<^verbatim>\<open>/^\d{4}-\d{2}-\d{2}$/\<close>.\<close>

definition is_day :: "string \<Rightarrow> bool" where
  "is_day s \<longleftrightarrow> length s = 10 \<and> s ! 4 = CHR ''-'' \<and> s ! 7 = CHR ''-'' \<and>
     list_all is_digit (take 4 s @ [s ! 5, s ! 6, s ! 8, s ! 9])"

definition dayKey :: "string \<Rightarrow> string result" where
  "dayKey value = (if is_day value then Inr value else Inl (TypeError ''day must be YYYY-MM-DD''))"

text \<open>\<^verbatim>\<open>/^[\x21-\x7e]{1,128}$/\<close>.\<close>

definition is_scope :: "string \<Rightarrow> bool" where
  "is_scope s \<longleftrightarrow> 1 \<le> length s \<and> length s \<le> 128 \<and>
     list_all (\<lambda>c. 33 \<le> (of_char c :: nat) \<and> (of_char c :: nat) \<le> 126) s"

definition scopeKey :: "string \<Rightarrow> string result" where
  "scopeKey value = (if is_scope value then Inr value
     else Inl (TypeError ''scope must be 1-128 printable ASCII characters without whitespace''))"

definition TOTAL_SCOPE :: string where
  "TOTAL_SCOPE = ''total''"

definition series_load :: "budget_days \<Rightarrow> string \<Rightarrow> string \<Rightarrow> int result" where
  "series_load b scope day = ebind (dayKey day) (\<lambda>d.
     Inr (case b (scope, d) of Some spent \<Rightarrow> BigInt spent | None \<Rightarrow> 0))"

definition series_save :: "budget_days \<Rightarrow> string \<Rightarrow> string \<Rightarrow> int \<Rightarrow> budget_days result" where
  "series_save b scope day spentWei = ebind (dayKey day) (\<lambda>d.
     ebind (amountText (JBigint spentWei) ''spentWei'') (\<lambda>t. Inr (b((scope, d) \<mapsto> t))))"

text \<open>\<^verbatim>\<open>store.budget.load\<close> reads the total series; \<^verbatim>\<open>scoped(name)\<close> validates the scope and reads its own.\<close>

definition budget_load :: "budget_days \<Rightarrow> string \<Rightarrow> int result" where
  "budget_load b day = series_load b TOTAL_SCOPE day"

definition budget_scoped_load :: "budget_days \<Rightarrow> string \<Rightarrow> string \<Rightarrow> int result" where
  "budget_scoped_load b scope day = ebind (scopeKey scope) (\<lambda>s. series_load b s day)"

definition budget_scoped_save :: "budget_days \<Rightarrow> string \<Rightarrow> string \<Rightarrow> int \<Rightarrow> budget_days result" where
  "budget_scoped_save b scope day w = ebind (scopeKey scope) (\<lambda>s. series_save b s day w)"

section \<open>Journal validators\<close>

text \<open>\<^verbatim>\<open>hex(value, bytes)\<close>: \<^verbatim>\<open>/^0x[0-9a-fA-F]{2*bytes}$/\<close>, returned in lower case.\<close>

definition hex :: "string \<Rightarrow> nat \<Rightarrow> string result" where
  "hex value bytes = (if hex_literal is_hex (bytes * 2) value then Inr (toLowerCase value)
     else Inl (TypeError ''expected byte hex''))"

definition uint :: "int \<Rightarrow> int result" where
  "uint value = (if isSafeInteger value \<and> 0 \<le> value then Inr value
     else Inl (TypeError ''expected safe nonnegative integer''))"

definition amount :: "int \<Rightarrow> string result" where
  "amount value = (if value < 0 then Inl (TypeError ''expected nonnegative bigint'') else Inr (String value))"

lemma uint_iff [simp]: "uint v = Inr w \<longleftrightarrow> isSafeInteger v \<and> 0 \<le> v \<and> w = v"
  by (auto simp: uint_def)

lemma amount_iff [simp]: "amount v = Inr t \<longleftrightarrow> 0 \<le> v \<and> t = String v"
  by (auto simp: amount_def)

lemma hex_iff [simp]: "hex v n = Inr w \<longleftrightarrow> hex_literal is_hex (n * 2) v \<and> w = toLowerCase v"
  by (auto simp: hex_def)

section \<open>Journal data\<close>

record SettlementInput =
  si_paymentIntentId :: string
  si_txHash :: string
  si_signer :: string
  si_chainId :: int
  si_nonce :: int
  si_gas :: int
  si_maxFeePerGas :: int
  si_maxPriorityFeePerGas :: int
  si_payer :: string
  si_payTo :: string
  si_amountBase :: int
  si_createdAt :: int

record SettlementRecord = SettlementInput +
  sr_budgetDay :: string
  sr_reservedWei :: int
  sr_actualCost :: "int option"
  sr_terminal :: "SettlementEvent option"

record SettlementLimits =
  lim_total :: int
  lim_payer :: int

record SettlementResultInput =
  fin_at :: int
  fin_gasUsed :: int
  fin_actualCost :: int
  fin_errorCode :: "string option"

text \<open>A row of \<^verbatim>\<open>settlement_intents\<close>.\<close>

record IntentRow =
  ir_payment_intent_id :: string
  ir_tx_hash :: string
  ir_signer :: string
  ir_chain_id :: int
  ir_nonce :: int
  ir_gas :: string
  ir_max_fee :: string
  ir_priority_fee :: string
  ir_payer :: string
  ir_pay_to :: string
  ir_amount_base :: string
  ir_budget_day :: string
  ir_reserved_wei :: string
  ir_created_at :: int
  ir_terminal_event_id :: "int option"
  ir_actual_cost :: "string option"

record journal_db =
  intents :: "IntentRow list"
  events :: "SettlementEventRow list"
  budget :: budget_days

definition empty_journal :: journal_db where
  "empty_journal = \<lparr>intents = [], events = [], budget = Map.empty\<rparr>"

section \<open>Journal operations\<close>

text \<open>\<^verbatim>\<open>BigInt(spent.get(scope, day)?.spent_wei ?? "0")\<close>.\<close>

definition load :: "budget_days \<Rightarrow> string \<Rightarrow> string \<Rightarrow> int" where
  "load b scope day = BigInt (case b (scope, day) of Some t \<Rightarrow> t | None \<Rightarrow> ''0'')"

definition record_of_row :: "SettlementEventRow list \<Rightarrow> IntentRow \<Rightarrow> SettlementRecord" where
  "record_of_row evs r = \<lparr>
     si_paymentIntentId = ir_payment_intent_id r, si_txHash = ir_tx_hash r, si_signer = ir_signer r,
     si_chainId = ir_chain_id r, si_nonce = ir_nonce r, si_gas = BigInt (ir_gas r),
     si_maxFeePerGas = BigInt (ir_max_fee r), si_maxPriorityFeePerGas = BigInt (ir_priority_fee r),
     si_payer = ir_payer r, si_payTo = ir_pay_to r, si_amountBase = BigInt (ir_amount_base r),
     si_createdAt = ir_created_at r, sr_budgetDay = ir_budget_day r,
     sr_reservedWei = BigInt (ir_reserved_wei r), sr_actualCost = map_option BigInt (ir_actual_cost r),
     sr_terminal = (case ir_terminal_event_id r of None \<Rightarrow> None
       | Some i \<Rightarrow> map_option toSettlementEvent (find (\<lambda>e. row_id e = i) evs))\<rparr>"

definition select_intent :: "journal_db \<Rightarrow> string \<Rightarrow> IntentRow option" where
  "select_intent db i = find (\<lambda>r. ir_payment_intent_id r = i) (intents db)"

definition journal_read :: "journal_db \<Rightarrow> string \<Rightarrow> SettlementRecord option result" where
  "journal_read db i = ebind (hex i 32) (\<lambda>k.
     Inr (map_option (record_of_row (events db)) (select_intent db k)))"

definition payer_scope :: "string \<Rightarrow> string" where
  "payer_scope p = ''payer:'' @ p"

text \<open>\<^verbatim>\<open>nextNonce\<close>: the node's pending nonce is the floor, the largest claimed nonce plus one the other.\<close>

definition max_nonce :: "journal_db \<Rightarrow> string \<Rightarrow> int \<Rightarrow> int option" where
  "max_nonce db signer chainId =
     (case map ir_nonce (filter (\<lambda>r. ir_signer r = signer \<and> ir_chain_id r = chainId) (intents db)) of
        [] \<Rightarrow> None | n # ns \<Rightarrow> Some (foldr max ns n))"

definition nextNonce :: "journal_db \<Rightarrow> string \<Rightarrow> int \<Rightarrow> int \<Rightarrow> int result" where
  "nextNonce db signer chainId pendingNonce =
     ebind (hex signer 20) (\<lambda>s. ebind (uint chainId) (\<lambda>c.
     let known = max_nonce db s c in
     ebind (uint pendingNonce) (\<lambda>p.
       uint (max p (case known of None \<Rightarrow> 0 | Some k \<Rightarrow> k + 1)))))"

text \<open>
  The constraints of \<^verbatim>\<open>settlement_intents\<close> an insert can violate: the primary key, the
  unique hash, and \<^verbatim>\<open>settlement_nonce\<close>.
\<close>

definition insert_intent :: "journal_db \<Rightarrow> IntentRow \<Rightarrow> journal_db result" where
  "insert_intent db r =
     (if ir_payment_intent_id r \<in> ir_payment_intent_id ` set (intents db)
      then Inl (ConstraintFailed ''settlement_intents.payment_intent_id'')
      else if ir_tx_hash r \<in> ir_tx_hash ` set (intents db)
      then Inl (ConstraintFailed ''settlement_intents.tx_hash'')
      else if (ir_chain_id r, ir_signer r, ir_nonce r)
         \<in> (\<lambda>q. (ir_chain_id q, ir_signer q, ir_nonce q)) ` set (intents db)
      then Inl (ConstraintFailed ''settlement_nonce'')
      else Inr (db\<lparr>intents := intents db @ [r]\<rparr>))"

definition save_budget :: "journal_db \<Rightarrow> string \<Rightarrow> string \<Rightarrow> int \<Rightarrow> journal_db result" where
  "save_budget db scope day v = ebind (amount v) (\<lambda>t. Inr (db\<lparr>budget := (budget db)((scope, day) \<mapsto> t)\<rparr>))"

text \<open>
  The part of \<^verbatim>\<open>claim\<close> after the existing row was looked up: validation, the two budget
  checks (the payer's share first), the insert, and both reservations.
\<close>

definition claim_new :: "journal_db \<Rightarrow> string \<Rightarrow> SettlementInput \<Rightarrow> SettlementLimits \<Rightarrow> journal_db result" where
  "claim_new db i input limits =
     ebind (hex (si_signer input) 20) (\<lambda>signer.
     ebind (hex (si_payer input) 20) (\<lambda>payer.
     ebind (hex (si_payTo input) 20) (\<lambda>payTo.
     ebind (uint (si_createdAt input)) (\<lambda>createdAt.
     ebind (toISOString_day createdAt) (\<lambda>day.
     ebind (amount (si_gas input)) (\<lambda>gas.
     ebind (amount (si_maxFeePerGas input)) (\<lambda>fee.
     ebind (amount (si_maxPriorityFeePerGas input)) (\<lambda>priority.
     ebind (ensure (\<not> (si_gas input = 0 \<or> si_maxPriorityFeePerGas input > si_maxFeePerGas input))
       (Error ''invalid gas envelope'')) (\<lambda>_.
     ebind (amount (lim_total limits)) (\<lambda>_.
     ebind (amount (lim_payer limits)) (\<lambda>_.
     ebind (ensure (\<not> (lim_total limits = 0 \<or> lim_payer limits = 0 \<or> lim_payer limits > lim_total limits))
       (Error ''invalid settlement limits'')) (\<lambda>_.
     let reserved = si_gas input * si_maxFeePerGas input; scope = payer_scope payer in
     ebind (ensure (load (budget db) scope day + reserved \<le> lim_payer limits)
       (SettlementBudgetExceeded ''payer_budget_exhausted'')) (\<lambda>_.
     ebind (ensure (load (budget db) TOTAL_SCOPE day + reserved \<le> lim_total limits)
       (SettlementBudgetExceeded ''budget_exhausted'')) (\<lambda>_.
     ebind (hex (si_txHash input) 32) (\<lambda>txHash.
     ebind (uint (si_chainId input)) (\<lambda>chainId.
     ebind (uint (si_nonce input)) (\<lambda>nonce.
     ebind (amount (si_amountBase input)) (\<lambda>amountBase.
     ebind (amount reserved) (\<lambda>reservedText.
     ebind (insert_intent db \<lparr>ir_payment_intent_id = i, ir_tx_hash = txHash, ir_signer = signer,
         ir_chain_id = chainId, ir_nonce = nonce, ir_gas = gas, ir_max_fee = fee,
         ir_priority_fee = priority, ir_payer = payer, ir_pay_to = payTo, ir_amount_base = amountBase,
         ir_budget_day = day, ir_reserved_wei = reservedText, ir_created_at = createdAt,
         ir_terminal_event_id = None, ir_actual_cost = None\<rparr>) (\<lambda>db1.
     ebind (save_budget db1 TOTAL_SCOPE day (load (budget db1) TOTAL_SCOPE day + reserved)) (\<lambda>db2.
     save_budget db2 scope day (load (budget db2) scope day + reserved))))))))))))))))))))))"

definition claim ::
    "journal_db \<Rightarrow> SettlementInput \<Rightarrow> SettlementLimits \<Rightarrow> (SettlementRecord \<times> journal_db) result" where
  "claim db input limits =
     ebind (hex (si_paymentIntentId input) 32) (\<lambda>i.
     case select_intent db i of
       Some r \<Rightarrow> Inr (record_of_row (events db) r, db)
     | None \<Rightarrow>
         ebind (claim_new db i input limits) (\<lambda>db'.
         case select_intent db' i of
           Some r \<Rightarrow> Inr (record_of_row (events db') r, db')
         | None \<Rightarrow> Inl (TypeError ''null'')))"

text \<open>\<^verbatim>\<open>for (const scope of ["total", `payer:${record.payer}`]) save(...)\<close>.\<close>

definition resettle_scope :: "journal_db \<Rightarrow> string \<Rightarrow> string \<Rightarrow> int \<Rightarrow> int \<Rightarrow> journal_db result" where
  "resettle_scope db scope day reserved actual =
     save_budget db scope day (load (budget db) scope day - reserved + actual)"

definition terminal_event :: "SettlementRecord \<Rightarrow> SettlementResultInput \<Rightarrow> SettlementEventInput" where
  "terminal_event rec res = \<lparr>evi_at = fin_at res, evi_kind = ''settle'', evi_payer = si_payer rec,
     evi_payTo = si_payTo rec, evi_amountBase = si_amountBase rec,
     evi_outcome = (case fin_errorCode res of None \<Rightarrow> Settled
        | Some c \<Rightarrow> if c = '''' then Settled else OutcomeError),
     evi_txHash = Some (si_txHash rec), evi_gasUsed = Some (fin_gasUsed res),
     evi_errorCode = fin_errorCode res\<rparr>"

definition finish_intent :: "journal_db \<Rightarrow> string \<Rightarrow> int \<Rightarrow> string \<Rightarrow> journal_db" where
  "finish_intent db i eid cost = db\<lparr>intents := update_where (\<lambda>r. ir_payment_intent_id r = i)
     (\<lambda>r. r\<lparr>ir_terminal_event_id := Some eid, ir_actual_cost := Some cost\<rparr>) (intents db)\<rparr>"

definition finish ::
    "journal_db \<Rightarrow> string \<Rightarrow> SettlementResultInput \<Rightarrow> (SettlementRecord \<times> journal_db) result" where
  "finish db i res =
     ebind (journal_read db i) (\<lambda>found. case found of
       None \<Rightarrow> Inl (Error ''settlement intent not found'')
     | Some rec \<Rightarrow>
       if sr_terminal rec \<noteq> None then Inr (rec, db)
       else
         ebind (amount (fin_actualCost res)) (\<lambda>cost.
         ebind (amount (fin_gasUsed res)) (\<lambda>_.
         ebind (uint (fin_at res)) (\<lambda>_.
         ebind (resettle_scope db TOTAL_SCOPE (sr_budgetDay rec) (sr_reservedWei rec) (fin_actualCost res)) (\<lambda>db1.
         ebind (resettle_scope db1 (payer_scope (si_payer rec)) (sr_budgetDay rec) (sr_reservedWei rec) (fin_actualCost res)) (\<lambda>db2.
         ebind (ledger_record (events db2) (terminal_event rec res)) (\<lambda>(e, evs).
         let db3 = finish_intent (db2\<lparr>events := evs\<rparr>) (si_paymentIntentId rec) (ev_id e) cost in
         ebind (journal_read db3 i) (\<lambda>found'. case found' of
           Some rec' \<Rightarrow> Inr (rec', db3)
         | None \<Rightarrow> Inl (TypeError ''null'')))))))))"


section \<open>The journal invariant\<close>

text \<open>What an intent is charged to its day: the reservation, then the actual cost.\<close>

definition intent_charge :: "IntentRow \<Rightarrow> int" where
  "intent_charge r = BigInt (case ir_actual_cost r of None \<Rightarrow> ir_reserved_wei r | Some c \<Rightarrow> c)"

definition day_total :: "IntentRow list \<Rightarrow> string \<Rightarrow> int" where
  "day_total rs d = sum_list (map intent_charge (filter (\<lambda>r. ir_budget_day r = d) rs))"

definition payer_day_total :: "IntentRow list \<Rightarrow> string \<Rightarrow> string \<Rightarrow> int" where
  "payer_day_total rs p d = sum_list (map intent_charge (filter (\<lambda>r. ir_payer r = p \<and> ir_budget_day r = d) rs))"

definition event_of :: "IntentRow \<Rightarrow> SettlementEventRow \<Rightarrow> bool" where
  "event_of r e \<longleftrightarrow> ir_terminal_event_id r = Some (row_id e) \<and> \<not> rejected_row e \<and>
     row_tx_hash e = Some (ir_tx_hash r) \<and> row_payer e = ir_payer r \<and> row_pay_to e = ir_pay_to r \<and>
     row_amount_base e = ir_amount_base r"

definition intent_ok :: "SettlementEventRow list \<Rightarrow> IntentRow \<Rightarrow> bool" where
  "intent_ok evs r \<longleftrightarrow>
     hex_literal is_hex 64 (ir_payment_intent_id r) \<and>
     toLowerCase (ir_payment_intent_id r) = ir_payment_intent_id r \<and>
     0 \<le> BigInt (ir_reserved_wei r) \<and> 0 \<le> intent_charge r \<and>
     ir_amount_base r = String (BigInt (ir_amount_base r)) \<and> 0 \<le> BigInt (ir_amount_base r) \<and>
     (ir_terminal_event_id r = None \<longleftrightarrow> ir_actual_cost r = None) \<and>
     (ir_terminal_event_id r \<noteq> None \<longrightarrow> (\<exists>e \<in> set evs. event_of r e))"

definition terminal_ids :: "IntentRow list \<Rightarrow> int list" where
  "terminal_ids rs = map (the \<circ> ir_terminal_event_id) (filter (\<lambda>r. ir_terminal_event_id r \<noteq> None) rs)"

definition nonce_key :: "IntentRow \<Rightarrow> int \<times> string \<times> int" where
  "nonce_key r = (ir_chain_id r, ir_signer r, ir_nonce r)"

definition journal_ok :: "journal_db \<Rightarrow> bool" where
  "journal_ok db \<longleftrightarrow>
     distinct (map ir_payment_intent_id (intents db)) \<and>
     distinct (map ir_tx_hash (intents db)) \<and>
     distinct (map nonce_key (intents db)) \<and>
     ledger_ok (events db) \<and>
     (\<forall>r \<in> set (intents db). intent_ok (events db) r) \<and>
     mset (map row_id (filter (\<lambda>e. \<not> rejected_row e) (events db))) = mset (terminal_ids (intents db)) \<and>
     (\<forall>d. load (budget db) TOTAL_SCOPE d = day_total (intents db) d) \<and>
     (\<forall>p d. load (budget db) (payer_scope p) d = payer_day_total (intents db) p d)"

lemma payer_scope_neq [simp]: "payer_scope p \<noteq> TOTAL_SCOPE" "TOTAL_SCOPE \<noteq> payer_scope p"
  by (simp_all add: payer_scope_def TOTAL_SCOPE_def)

lemma payer_scope_inj [simp]: "payer_scope p = payer_scope q \<longleftrightarrow> p = q"
  by (simp add: payer_scope_def)

lemma load_upd [simp]:
  "load (b((s, d) \<mapsto> String v)) s' d' = (if s' = s \<and> d' = d then v else load b s' d')"
  by (auto simp: load_def)

lemma empty_journal_ok: "journal_ok empty_journal"
  by (simp add: journal_ok_def empty_journal_def ledger_ok_def terminal_ids_def load_def
      day_total_def payer_day_total_def)

lemma insert_intentE:
  assumes "insert_intent db r = Inr db'"
  obtains "db' = db\<lparr>intents := intents db @ [r]\<rparr>"
    and "ir_payment_intent_id r \<notin> ir_payment_intent_id ` set (intents db)"
    and "ir_tx_hash r \<notin> ir_tx_hash ` set (intents db)"
    and "nonce_key r \<notin> nonce_key ` set (intents db)"
  using assms by (auto simp: insert_intent_def nonce_key_def [abs_def] split: if_splits)

lemma claim_newE:
  assumes "claim_new db i input limits = Inr db'"
  obtains r where "intents db' = intents db @ [r]" and "events db' = events db"
    and "budget db' = (budget db)
      ((TOTAL_SCOPE, ir_budget_day r) \<mapsto> String (load (budget db) TOTAL_SCOPE (ir_budget_day r) + intent_charge r),
       (payer_scope (ir_payer r), ir_budget_day r) \<mapsto>
          String (load (budget db) (payer_scope (ir_payer r)) (ir_budget_day r) + intent_charge r))"
    and "ir_payment_intent_id r = i" and "ir_tx_hash r = toLowerCase (si_txHash input)"
    and "ir_signer r = toLowerCase (si_signer input)" and "ir_chain_id r = si_chainId input"
    and "ir_nonce r = si_nonce input" and "ir_payer r = toLowerCase (si_payer input)"
    and "ir_pay_to r = toLowerCase (si_payTo input)"
    and "ir_amount_base r = String (si_amountBase input)" and "0 \<le> si_amountBase input"
    and "ir_terminal_event_id r = None" and "ir_actual_cost r = None"
    and "ir_reserved_wei r = String (si_gas input * si_maxFeePerGas input)"
    and "intent_charge r = si_gas input * si_maxFeePerGas input" and "0 \<le> intent_charge r"
    and "0 < si_gas input" and "0 \<le> si_maxFeePerGas input"
    and "toISOString_day (si_createdAt input) = Inr (ir_budget_day r)"
    and "load (budget db) TOTAL_SCOPE (ir_budget_day r) + intent_charge r \<le> lim_total limits"
    and "load (budget db) (payer_scope (ir_payer r)) (ir_budget_day r) + intent_charge r \<le> lim_payer limits"
    and "i \<notin> ir_payment_intent_id ` set (intents db)"
    and "ir_tx_hash r \<notin> ir_tx_hash ` set (intents db)"
    and "nonce_key r \<notin> nonce_key ` set (intents db)"
    and "isSafeInteger (si_nonce input)" and "ir_gas r = String (si_gas input)"
    and "ir_max_fee r = String (si_maxFeePerGas input)"
    and "ir_priority_fee r = String (si_maxPriorityFeePerGas input)"
    and "ir_created_at r = si_createdAt input"
proof -
  from assms obtain day where day: "toISOString_day (si_createdAt input) = Inr day"
    by (auto simp: claim_new_def result_simps)
  define reserved where "reserved = si_gas input * si_maxFeePerGas input"
  define payer where "payer = toLowerCase (si_payer input)"
  define r where "r = \<lparr>ir_payment_intent_id = i, ir_tx_hash = toLowerCase (si_txHash input),
    ir_signer = toLowerCase (si_signer input), ir_chain_id = si_chainId input,
    ir_nonce = si_nonce input, ir_gas = String (si_gas input), ir_max_fee = String (si_maxFeePerGas input),
    ir_priority_fee = String (si_maxPriorityFeePerGas input), ir_payer = payer,
    ir_pay_to = toLowerCase (si_payTo input), ir_amount_base = String (si_amountBase input),
    ir_budget_day = day, ir_reserved_wei = String reserved, ir_created_at = si_createdAt input,
    ir_terminal_event_id = None, ir_actual_cost = None\<rparr>"
  note defs = r_def payer_def reserved_def
  have guards: "0 < si_gas input" "0 \<le> si_maxFeePerGas input" "0 \<le> reserved"
    "load (budget db) TOTAL_SCOPE day + reserved \<le> lim_total limits"
    "load (budget db) (payer_scope payer) day + reserved \<le> lim_payer limits"
    "0 \<le> si_amountBase input" "isSafeInteger (si_nonce input)"
    using assms day by (auto simp: claim_new_def result_simps Let_def defs)
  obtain db1 where ins: "insert_intent db r = Inr db1"
    and b: "intents db' = intents db1" "events db' = events db1"
      "budget db' = (budget db1)((TOTAL_SCOPE, day) \<mapsto> String (load (budget db1) TOTAL_SCOPE day + reserved),
        (payer_scope payer, day) \<mapsto> String (load (budget db1) (payer_scope payer) day + reserved))"
    using assms day by (auto simp: claim_new_def result_simps Let_def save_budget_def defs)
  have intent_charge: "intent_charge r = reserved" by (simp add: r_def intent_charge_def)
  show thesis
    using ins by (rule insert_intentE, intro that [of r])
      (use day guards b intent_charge in \<open>simp_all add: defs\<close>)
qed

lemma select_intent_Some:
  "select_intent db i = Some r \<Longrightarrow> r \<in> set (intents db) \<and> ir_payment_intent_id r = i"
  by (auto simp: select_intent_def dest: find_Some_iff_ex)

lemma select_intent_None:
  "select_intent db i = None \<longleftrightarrow> i \<notin> ir_payment_intent_id ` set (intents db)"
  by (auto simp: select_intent_def find_None_iff)

lemma select_intent_append:
  "intents db' = intents db @ [r] \<Longrightarrow> ir_payment_intent_id r \<notin> ir_payment_intent_id ` set (intents db)
   \<Longrightarrow> select_intent db' (ir_payment_intent_id r) = Some r"
proof -
  assume a: "intents db' = intents db @ [r]"
    and "ir_payment_intent_id r \<notin> ir_payment_intent_id ` set (intents db)"
  then have "find (\<lambda>q. ir_payment_intent_id q = ir_payment_intent_id r) (intents db) = None"
    by (simp add: find_None_iff image_iff) metis
  then show ?thesis using a by (simp add: select_intent_def find_append_key)
qed

lemma terminal_ids_append: "terminal_ids (rs @ [r]) = terminal_ids rs
   @ (case ir_terminal_event_id r of None \<Rightarrow> [] | Some i \<Rightarrow> [i])"
  by (auto simp: terminal_ids_def split: option.splits)

lemma claim_new_ok:
  assumes ok: "journal_ok db" and c: "claim_new db i input limits = Inr db'"
    and i: "hex_literal is_hex 64 i" "toLowerCase i = i"
  shows "journal_ok db'"
  using c
proof (cases rule: claim_newE)
  case (1 r)
  have "intent_ok (events db) r"
    using 1 i by (simp add: intent_ok_def)
  then show ?thesis
    using ok 1
    by (simp add: journal_ok_def terminal_ids_append day_total_def payer_day_total_def)
qed

text \<open>The two shapes of a successful claim.\<close>

lemma claim_cases:
  assumes "claim db input limits = Inr (rec, db')"
  obtains (known) r where "select_intent db (toLowerCase (si_paymentIntentId input)) = Some r"
      and "rec = record_of_row (events db) r" and "db' = db"
  | (fresh) r where "select_intent db (toLowerCase (si_paymentIntentId input)) = None"
      and "claim_new db (toLowerCase (si_paymentIntentId input)) input limits = Inr db'"
      and "hex_literal is_hex 64 (si_paymentIntentId input)"
      and "select_intent db' (toLowerCase (si_paymentIntentId input)) = Some r"
      and "rec = record_of_row (events db') r"
proof (cases "select_intent db (toLowerCase (si_paymentIntentId input))")
  case None
  have "hex_literal is_hex 64 (si_paymentIntentId input)"
    using assms by (auto simp: claim_def result_simps)
  moreover obtain r where "claim_new db (toLowerCase (si_paymentIntentId input)) input limits = Inr db'"
    and "select_intent db' (toLowerCase (si_paymentIntentId input)) = Some r"
    and "rec = record_of_row (events db') r"
    using assms None by (auto simp: claim_def result_simps split: option.splits)
  ultimately show ?thesis using None by (intro fresh)
next
  case (Some r)
  then have "rec = record_of_row (events db) r \<and> db' = db"
    using assms by (auto simp: claim_def result_simps)
  then show ?thesis using Some by (intro known) auto
qed

lemma journal_readE:
  assumes "journal_read db i = Inr found"
  shows "hex_literal is_hex 64 i"
    and "found = map_option (record_of_row (events db)) (select_intent db (toLowerCase i))"
  using assms by (auto simp: journal_read_def result_simps)

lemma finish_cases:
  assumes "finish db i res = Inr (rec, db')"
  obtains (replay) r where "select_intent db (toLowerCase i) = Some r"
      and "rec = record_of_row (events db) r" and "sr_terminal rec \<noteq> None" and "db' = db"
  | (fresh) r e where "select_intent db (toLowerCase i) = Some r"
      and "sr_terminal (record_of_row (events db) r) = None"
      and "0 \<le> fin_actualCost res" and "0 \<le> fin_gasUsed res" and "isSafeInteger (fin_at res)" and "0 \<le> fin_at res"
      and "0 \<le> load (budget db) TOTAL_SCOPE (ir_budget_day r) - BigInt (ir_reserved_wei r) + fin_actualCost res"
      and "budget db' = (budget db)
        ((TOTAL_SCOPE, ir_budget_day r) \<mapsto> String (load (budget db) TOTAL_SCOPE (ir_budget_day r)
            - BigInt (ir_reserved_wei r) + fin_actualCost res),
         (payer_scope (ir_payer r), ir_budget_day r) \<mapsto> String (load (budget db) (payer_scope (ir_payer r)) (ir_budget_day r)
            - BigInt (ir_reserved_wei r) + fin_actualCost res))"
      and "ledger_record (events db) (terminal_event (record_of_row (events db) r) res)
        = Inr (toSettlementEvent e, events db @ [e])"
      and "events db' = events db @ [e]"
      and "intents db' = intents (finish_intent db (ir_payment_intent_id r) (row_id e) (String (fin_actualCost res)))"
      and "select_intent db' (toLowerCase i) = Some
        (r\<lparr>ir_terminal_event_id := Some (row_id e), ir_actual_cost := Some (String (fin_actualCost res))\<rparr>)"
      and "rec = record_of_row (events db')
        (r\<lparr>ir_terminal_event_id := Some (row_id e), ir_actual_cost := Some (String (fin_actualCost res))\<rparr>)"
proof -
  from assms obtain found where rd: "journal_read db i = Inr found"
    by (auto simp: finish_def result_simps)
  note f = journal_readE [OF rd]
  then obtain r where r: "select_intent db (toLowerCase i) = Some r"
    using assms rd by (auto simp: finish_def split: option.splits)
  have ir: "ir_payment_intent_id r = toLowerCase i" using select_intent_Some [OF r] by simp
  let ?rec = "record_of_row (events db) r"
  have fields: "sr_budgetDay ?rec = ir_budget_day r" "si_payer ?rec = ir_payer r"
    "sr_reservedWei ?rec = BigInt (ir_reserved_wei r)" "si_paymentIntentId ?rec = toLowerCase i"
    by (simp_all add: record_of_row_def ir)
  show thesis
  proof (cases "sr_terminal ?rec = None")
    case False
    then have "rec = ?rec" "db' = db" using assms rd f r by (auto simp: finish_def)
    then show ?thesis using r False by (intro replay) auto
  next
    case True
    let ?c = "fin_actualCost res"
    let ?d = "ir_budget_day r" and ?p = "payer_scope (ir_payer r)" and ?w = "BigInt (ir_reserved_wei r)"
    let ?b = "(budget db)((TOTAL_SCOPE, ?d) \<mapsto> String (load (budget db) TOTAL_SCOPE ?d - ?w + ?c),
      (?p, ?d) \<mapsto> String (load (budget db) ?p ?d - ?w + ?c))"
    from assms True rd f r obtain ev evs where
      g: "0 \<le> ?c" "0 \<le> fin_gasUsed res" "isSafeInteger (fin_at res)" "0 \<le> fin_at res"
        "0 \<le> load (budget db) TOTAL_SCOPE ?d - ?w + ?c"
      and lr: "ledger_record (events db) (terminal_event ?rec res) = Inr (ev, evs)"
      and db': "db' = finish_intent (db\<lparr>budget := ?b, events := evs\<rparr>) (toLowerCase i) (ev_id ev) (String ?c)"
      and rd': "journal_read db' i = Inr (Some rec)"
      by (auto simp: finish_def result_simps resettle_scope_def save_budget_def fields Let_def
          split: option.splits prod.splits)
    from lr obtain e where e: "evs = events db @ [e]" "ev = toSettlementEvent e"
      by (rule ledger_recordE)
    have id: "ev_id ev = row_id e" by (simp add: e toSettlementEvent_def)
    let ?r' = "r\<lparr>ir_terminal_event_id := Some (row_id e), ir_actual_cost := Some (String ?c)\<rparr>"
    have sel: "select_intent db' (toLowerCase i) = Some ?r'"
      using r ir unfolding select_intent_def db' finish_intent_def
      by (simp add: find_update_where id)
    have "rec = record_of_row (events db') ?r'"
      using journal_readE(2) [OF rd'] sel by simp
    then show ?thesis
      using fresh [OF r True g] lr sel e db' id ir by (simp add: finish_intent_def)
  qed
qed

lemma terminal_of_ok:
  assumes "intent_ok evs r"
  shows "sr_terminal (record_of_row evs r) = None \<longleftrightarrow> ir_terminal_event_id r = None"
proof (cases "ir_terminal_event_id r")
  case (Some k)
  then obtain e where "e \<in> set evs" "row_id e = k"
    using assms by (auto simp: intent_ok_def event_of_def)
  then have "find (\<lambda>e. row_id e = k) evs \<noteq> None" by (auto simp: find_None_iff)
  then show ?thesis using Some by (simp add: record_of_row_def)
qed (simp add: record_of_row_def)

lemma intent_ok_mono: "intent_ok evs r \<Longrightarrow> set evs \<subseteq> set evs' \<Longrightarrow> intent_ok evs' r"
  by (auto simp: intent_ok_def)

lemma terminal_ids_update:
  assumes "distinct (map ir_payment_intent_id rs)" "r \<in> set rs" "ir_terminal_event_id r = None"
  shows "mset (terminal_ids (update_where (\<lambda>q. ir_payment_intent_id q = ir_payment_intent_id r)
     (\<lambda>q. q\<lparr>ir_terminal_event_id := Some k, ir_actual_cost := c\<rparr>) rs)) = add_mset k (mset (terminal_ids rs))"
  using assms
proof (induction rs)
  case (Cons x xs)
  show ?case
  proof (cases "ir_payment_intent_id x = ir_payment_intent_id r")
    case True
    then have "x = r" using Cons.prems by auto
    moreover have "update_where (\<lambda>q. ir_payment_intent_id q = ir_payment_intent_id r)
        (\<lambda>q. q\<lparr>ir_terminal_event_id := Some k, ir_actual_cost := c\<rparr>) xs = xs"
      using Cons.prems True by (intro update_where_absent) auto
    ultimately show ?thesis using Cons.prems by (simp add: update_where_Cons terminal_ids_def)
  next
    case False
    then have "r \<in> set xs" using Cons.prems by auto
    then show ?thesis
      using Cons False by (auto simp: update_where_Cons terminal_ids_def)
  qed
qed simp

lemma finish_ok:
  assumes ok: "journal_ok db" and fin: "finish db i res = Inr (rec, db')"
  shows "journal_ok db'"
  using fin
proof (cases rule: finish_cases)
  case (replay r)
  then show ?thesis using ok by simp
next
  case (fresh r e)
  have r: "r \<in> set (intents db)" using select_intent_Some [OF fresh(1)] by simp
  have d: "distinct (map ir_payment_intent_id (intents db))" using ok by (simp add: journal_ok_def)
  have iok: "intent_ok (events db) r" using ok r by (simp add: journal_ok_def)
  then have t: "ir_terminal_event_id r = None" "ir_actual_cost r = None"
    using fresh(2) terminal_of_ok by (auto simp: intent_ok_def)
  from fresh(9) obtain e' where ev: "events db @ [e] = events db @ [e']"
    "row_outcome e' \<noteq> Rejected" "row_tx_hash e' = Some (ir_tx_hash r)" "row_payer e' = ir_payer r"
    "row_pay_to e' = ir_pay_to r" "row_amount_base e' = String (BigInt (ir_amount_base r))"
    by (rule ledger_recordE)
      (auto simp: terminal_event_def record_of_row_def split: option.splits if_splits)
  let ?f = "\<lambda>q. q\<lparr>ir_terminal_event_id := Some (row_id e), ir_actual_cost := Some (String (fin_actualCost res))\<rparr>"
  have ints: "intents db' = update_where (\<lambda>q. ir_payment_intent_id q = ir_payment_intent_id r) ?f (intents db)"
    using fresh(11) by (simp add: finish_intent_def)
  have evok: "event_of (?f r) e" and nr: "\<not> rejected_row e"
    using ev iok by (auto simp: event_of_def rejected_row_def intent_ok_def)
  have rok: "intent_ok (events db') (?f r)"
    using iok evok fresh(3,10) by (auto simp: intent_ok_def intent_charge_def)
  have all: "\<forall>q \<in> set (intents db'). intent_ok (events db') q"
  proof
    fix q assume "q \<in> set (intents db')"
    then consider "q \<in> set (intents db)" | x where "x \<in> set (intents db)"
        "ir_payment_intent_id x = ir_payment_intent_id r" "q = ?f x"
      by (auto simp: ints set_update_where)
    then show "intent_ok (events db') q"
    proof cases
      case 1
      then show ?thesis using ok fresh(10) by (auto simp: journal_ok_def intro: intent_ok_mono)
    next
      case 2
      then have "x = r" using d r by (auto simp: distinct_map dest: inj_onD)
      then show ?thesis using 2 rok by simp
    qed
  qed
  have chg: "intent_charge (?f r) - intent_charge r = fin_actualCost res - BigInt (ir_reserved_wei r)"
    by (simp add: intent_charge_def t)
  have sums: "day_total (intents db') x = day_total (intents db) x
       + (if ir_budget_day r = x then fin_actualCost res - BigInt (ir_reserved_wei r) else 0)"
    "payer_day_total (intents db') p x = payer_day_total (intents db) p x
       + (if ir_payer r = p \<and> ir_budget_day r = x then fin_actualCost res - BigInt (ir_reserved_wei r) else 0)" for p x
    unfolding day_total_def payer_day_total_def ints
    by (subst sum_update_where [OF d r]; simp add: chg)+
  have ms: "mset (map row_id (filter (\<lambda>e. \<not> rejected_row e) (events db'))) = mset (terminal_ids (intents db'))"
    using ok nr unfolding ints fresh(10) by (subst terminal_ids_update [OF d r t(1)]) (simp add: journal_ok_def)
  have led: "ledger_ok (events db')"
    using ledger_record_ok [OF _ fresh(9)] ok fresh(10) by (simp add: journal_ok_def)
  have keys: "map ir_payment_intent_id (intents db') = map ir_payment_intent_id (intents db)"
    "map ir_tx_hash (intents db') = map ir_tx_hash (intents db)"
    "map nonce_key (intents db') = map nonce_key (intents db)"
    unfolding ints by (rule map_update_where_id, simp add: nonce_key_def)+
  show ?thesis
    using ok all ms led sums unfolding journal_ok_def keys by (auto simp: fresh(8))
qed

end
