(* ===== verification/Journal_Properties.thy ===== *)
theory Journal_Properties
  imports Settlement_Journal
begin

text \<open>
  What the settlement journal and the ledger guarantee over every sequence of their
  operations: the runs of the facilitator's store (claims, completions, refusal rows and the
  hourly retention pass), the invariant of every reachable store, the spending caps, and
  the exactly-once behaviour of \<^verbatim>\<open>claim\<close> and \<^verbatim>\<open>finish\<close>.
\<close>

section \<open>Runs of the store\<close>

text \<open>
  The facilitator's writes to its store: \<^verbatim>\<open>claim\<close> and \<^verbatim>\<open>finish\<close> under one configured pair
  of limits \<open>L\<close>, a refusal row (\<^verbatim>\<open>recordRejection\<close>) and \<^verbatim>\<open>pruneLedger\<close>. \<open>Q\<close> restricts the
  costs a run may finish with: a claim that needs no restriction takes \<open>\<lambda>_ _. True\<close>.
\<close>

inductive store_run :: "(int \<Rightarrow> int \<Rightarrow> bool) \<Rightarrow> SettlementLimits \<Rightarrow> journal_db \<Rightarrow> bool"
  for Q :: "int \<Rightarrow> int \<Rightarrow> bool" and L :: SettlementLimits where
  run_start: "store_run Q L empty_journal"
| run_claim: "store_run Q L db \<Longrightarrow> claim db input L = Inr (rec, db') \<Longrightarrow> store_run Q L db'"
| run_finish: "store_run Q L db \<Longrightarrow> finish db i res = Inr (rec, db') \<Longrightarrow>
     Q (sr_reservedWei rec) (fin_actualCost res) \<Longrightarrow> store_run Q L db'"
| run_reject: "store_run Q L db \<Longrightarrow> evi_outcome ev = Rejected \<Longrightarrow>
     ledger_record (events db) ev = Inr (e, evs) \<Longrightarrow> store_run Q L (db\<lparr>events := evs\<rparr>)"
| run_prune: "store_run Q L db \<Longrightarrow> ledger_prune (events db) before keep = Inr (n, evs) \<Longrightarrow>
     store_run Q L (db\<lparr>events := evs\<rparr>)"

inductive_cases store_runE: "store_run Q L db"

lemma claim_ok:
  assumes "journal_ok db" "claim db input L = Inr (rec, db')"
  shows "journal_ok db'"
  using assms(2)
proof (cases rule: claim_cases)
  case (known r)
  then show ?thesis using assms(1) by simp
next
  case (fresh r)
  have "hex_literal is_hex 64 (toLowerCase (si_paymentIntentId input))"
    using fresh(3) by (rule hex_literal_lower)
  then show ?thesis by (rule claim_new_ok [OF assms(1) fresh(2)]) simp
qed

lemma reject_ok:
  assumes "journal_ok db" "evi_outcome ev = Rejected" "ledger_record (events db) ev = Inr (e, evs)"
  shows "journal_ok (db\<lparr>events := evs\<rparr>)"
proof -
  from assms(3) obtain row where row: "evs = events db @ [row]" "row_outcome row = evi_outcome ev"
    by (rule ledger_recordE)
  then have "rejected_row row" using assms(2) by (simp add: rejected_row_def)
  moreover have "\<forall>r \<in> set (intents db). intent_ok evs r"
    using assms(1) row by (auto simp: journal_ok_def intro: intent_ok_mono)
  moreover have "ledger_ok evs"
    using ledger_record_ok [OF _ assms(3)] assms(1) by (simp add: journal_ok_def)
  ultimately show ?thesis using assms(1) row by (simp add: journal_ok_def)
qed

lemma prune_kept:
  assumes "ledger_prune rows b k = Inr (n, rows')"
  shows "filter (\<lambda>e. \<not> rejected_row e) rows' = filter (\<lambda>e. \<not> rejected_row e) rows"
  using assms by (auto elim!: ledger_pruneE simp: led.keeps_others)

lemma prune_intent_ok:
  assumes "ledger_prune rows b k = Inr (n, rows')" "intent_ok rows r"
  shows "intent_ok rows' r"
proof -
  have "e \<in> set rows'" if "e \<in> set rows" "\<not> rejected_row e" for e
    using arg_cong [OF prune_kept [OF assms(1)], of set] that by auto
  then show ?thesis using assms(2) by (auto simp: intent_ok_def event_of_def)
qed

lemma prune_ok:
  assumes "journal_ok db" "ledger_prune (events db) b k = Inr (n, evs)"
  shows "journal_ok (db\<lparr>events := evs\<rparr>)"
  using assms prune_kept [OF assms(2)] ledger_prune_ok [OF _ assms(2)] prune_intent_ok [OF assms(2)]
  by (simp add: journal_ok_def)

lemma store_run_ok: "store_run Q L db \<Longrightarrow> journal_ok db"
  by (induction rule: store_run.induct)
    (blast intro: empty_journal_ok claim_ok finish_ok reject_ok prune_ok)+

section \<open>Sums of charges\<close>

lemma charge_nonneg: "journal_ok db \<Longrightarrow> r \<in> set (intents db) \<Longrightarrow> 0 \<le> intent_charge r"
  by (auto simp: journal_ok_def intent_ok_def)

lemma charge_le_sum:
  assumes "\<forall>q \<in> set rs. 0 \<le> intent_charge q" "r \<in> set rs" "P r"
  shows "intent_charge r \<le> sum_list (map intent_charge (filter P rs))"
  using assms
proof (induction rs)
  case (Cons x xs)
  have "0 \<le> sum_list (map intent_charge (filter P xs))"
    using Cons.prems(1) by (intro sum_list_nonneg) auto
  then show ?case using Cons by fastforce
qed simp

lemma charge_le_loads:
  assumes "journal_ok db" "r \<in> set (intents db)"
  shows "intent_charge r \<le> load (budget db) TOTAL_SCOPE (ir_budget_day r)"
    and "intent_charge r \<le> load (budget db) (payer_scope (ir_payer r)) (ir_budget_day r)"
  using assms charge_le_sum [OF _ assms(2)] charge_nonneg [OF assms(1)]
  by (simp_all add: journal_ok_def day_total_def payer_day_total_def)

lemma open_charge:
  "intent_ok evs r \<Longrightarrow> ir_terminal_event_id r = None \<Longrightarrow> intent_charge r = BigInt (ir_reserved_wei r)"
  by (simp add: intent_ok_def intent_charge_def)

lemma terminal_event_recorded:
  assumes "intent_ok evs r" "0 \<le> fin_gasUsed res" "isSafeInteger (fin_at res)" "0 \<le> fin_at res"
  shows "\<exists>ev evs'. ledger_record evs (terminal_event (record_of_row evs r) res) = Inr (ev, evs')"
  using assms by (simp add: ledger_record_def terminal_event_def record_of_row_def
      intent_ok_def millis_def amountText_def optionalAmountText_def Let_def)

lemma finish_returns:
  assumes ok: "journal_ok db" and r: "select_intent db (toLowerCase i) = Some r"
    and i: "hex_literal is_hex 64 i" and t: "ir_terminal_event_id r = None"
    and res: "0 \<le> fin_actualCost res" "0 \<le> fin_gasUsed res" "isSafeInteger (fin_at res)" "0 \<le> fin_at res"
  shows "\<exists>rec db'. finish db i res = Inr (rec, db')"
proof -
  have rin: "r \<in> set (intents db)" and ri: "ir_payment_intent_id r = toLowerCase i"
    using select_intent_Some [OF r] by auto
  have iok: "intent_ok (events db) r" using ok rin by (simp add: journal_ok_def)
  let ?rec = "record_of_row (events db) r"
  have nt: "sr_terminal ?rec = None" using terminal_of_ok [OF iok] t by simp
  have fields: "sr_budgetDay ?rec = ir_budget_day r" "si_payer ?rec = ir_payer r"
    "sr_reservedWei ?rec = BigInt (ir_reserved_wei r)" "si_paymentIntentId ?rec = toLowerCase i"
    by (simp_all add: record_of_row_def ri)
  have loads: "0 \<le> load (budget db) TOTAL_SCOPE (ir_budget_day r) - BigInt (ir_reserved_wei r) + fin_actualCost res"
    "0 \<le> load (budget db) (payer_scope (ir_payer r)) (ir_budget_day r) - BigInt (ir_reserved_wei r) + fin_actualCost res"
    using charge_le_loads [OF ok rin] open_charge [OF iok t] res(1) by simp_all
  obtain ev evs where lr: "ledger_record (events db) (terminal_event ?rec res) = Inr (ev, evs)"
    using terminal_event_recorded [OF iok res(2-4)] by blast
  have rd: "journal_read db i = Inr (Some ?rec)" using i r by (simp add: journal_read_def hex_def)
  let ?b = "(budget db)((TOTAL_SCOPE, ir_budget_day r) \<mapsto> String (load (budget db) TOTAL_SCOPE (ir_budget_day r)
        - BigInt (ir_reserved_wei r) + fin_actualCost res),
      (payer_scope (ir_payer r), ir_budget_day r) \<mapsto> String (load (budget db) (payer_scope (ir_payer r)) (ir_budget_day r)
        - BigInt (ir_reserved_wei r) + fin_actualCost res))"
  let ?db3 = "finish_intent (db\<lparr>budget := ?b, events := evs\<rparr>) (toLowerCase i) (ev_id ev) (String (fin_actualCost res))"
  have "select_intent ?db3 (toLowerCase i) \<noteq> None"
    using r by (simp add: select_intent_def finish_intent_def find_update_where)
  then obtain rec' where "journal_read ?db3 i = Inr (Some rec')"
    using i by (auto simp: journal_read_def hex_def)
  then have "finish db i res = Inr (rec', ?db3)"
    using rd nt res loads lr
    by (simp add: finish_def amount_def uint_def resettle_scope_def save_budget_def fields Let_def)
  then show ?thesis by blast
qed

text \<open>A claim adds to a day only what stays under the limits it was checked against.\<close>

lemma claim_new_limits:
  assumes "claim_new db i input L = Inr db'"
  shows "(load (budget db') TOTAL_SCOPE d \<le> lim_total L \<or>
      load (budget db') TOTAL_SCOPE d = load (budget db) TOTAL_SCOPE d) \<and>
    (load (budget db') (payer_scope p) d \<le> lim_payer L \<or>
      load (budget db') (payer_scope p) d = load (budget db) (payer_scope p) d)"
  using assms
proof (cases rule: claim_newE)
  case (1 r)
  show ?thesis using 1(21,22) unfolding 1(3) by simp
qed

section \<open>A sample run, for the witnesses\<close>

definition sample_hex :: "nat \<Rightarrow> char \<Rightarrow> string" where
  "sample_hex n c = ''0x'' @ replicate n c"

lemma sample_hex_simps [simp]:
  "hex_literal is_hex n (sample_hex n CHR ''1'')" "hex_literal is_hex n (sample_hex n CHR ''2'')"
  "toLowerCase (sample_hex n CHR ''1'') = sample_hex n CHR ''1''"
  "toLowerCase (sample_hex n CHR ''2'') = sample_hex n CHR ''2''"
  by (simp_all add: sample_hex_def hex_literal_def toLowerCase_def to_lower_char_def char_class_defs
      list_all_iff)

definition sample_input :: SettlementInput where
  "sample_input = \<lparr>si_paymentIntentId = sample_hex 64 CHR ''1'', si_txHash = sample_hex 64 CHR ''2'',
     si_signer = sample_hex 40 CHR ''1'', si_chainId = 91342, si_nonce = 0, si_gas = 2,
     si_maxFeePerGas = 3, si_maxPriorityFeePerGas = 1, si_payer = sample_hex 40 CHR ''1'',
     si_payTo = sample_hex 40 CHR ''2'', si_amountBase = 5, si_createdAt = 0\<rparr>"

definition sample_limits :: SettlementLimits where
  "sample_limits = \<lparr>lim_total = 10, lim_payer = 10\<rparr>"

definition sample_result :: SettlementResultInput where
  "sample_result = \<lparr>fin_at = 1, fin_gasUsed = 2, fin_actualCost = 4, fin_errorCode = None\<rparr>"

definition sample_db :: journal_db where
  "sample_db = (case claim empty_journal sample_input sample_limits of Inr (r, db) \<Rightarrow> db | _ \<Rightarrow> empty_journal)"

lemma epoch_day: "toISOString_day 0 = Inr ''1970-01-01''"
  by (simp add: toISOString_day_def MAX_TIME_def isoDate_epoch)

lemma sample_claim_ex: "\<exists>rec db. claim empty_journal sample_input sample_limits = Inr (rec, db)"
  by (simp add: claim_def claim_new_def sample_input_def sample_limits_def empty_journal_def
      select_intent_def hex_def uint_def amount_def isSafeInteger_def MAX_SAFE_INTEGER_def epoch_day
      load_def insert_intent_def save_budget_def Let_def)

lemma sample_claim: "\<exists>rec. claim empty_journal sample_input sample_limits = Inr (rec, sample_db)"
  using sample_claim_ex by (auto simp: sample_db_def)

lemma sample_run: "store_run Q sample_limits sample_db"
  using run_claim [OF run_start] sample_claim by blast

lemma sample_row: "\<exists>r. intents sample_db = [r] \<and> ir_payment_intent_id r = sample_hex 64 CHR ''1''
    \<and> ir_terminal_event_id r = None \<and> ir_budget_day r = ''1970-01-01'' \<and> ir_signer r = sample_hex 40 CHR ''1''
    \<and> ir_chain_id r = 91342 \<and> ir_nonce r = 0 \<and> events sample_db = []"
proof -
  obtain rec where "claim empty_journal sample_input sample_limits = Inr (rec, sample_db)"
    using sample_claim by blast
  then show ?thesis
  proof (cases rule: claim_cases)
    case (known r)
    then show ?thesis by (simp add: select_intent_def empty_journal_def)
  next
    case (fresh r)
    from fresh(2) show ?thesis
      by (cases rule: claim_newE) (auto simp: empty_journal_def sample_input_def epoch_day)
  qed
qed

lemma sample_select: "\<exists>r. select_intent sample_db (sample_hex 64 CHR ''1'') = Some r
    \<and> ir_terminal_event_id r = None \<and> ir_budget_day r = ''1970-01-01'' \<and> r \<in> set (intents sample_db)"
  using sample_row by (auto simp: select_intent_def)

section \<open>Properties\<close>

text \<open>C1: conservation of the gas budget. In every store the facilitator's operations can
  reach, the total booked on a day is exactly what that day's intents hold (the reservation
  of an open one, the actual cost of a finished one), each payer's share is the same sum over
  that payer's intents, and no two intents share an identifier, a transaction hash or a nonce
  of one signer.\<close>

theorem journal_budget_conservation:
  assumes "store_run (\<lambda>_ _. True) L db"
  shows "load (budget db) TOTAL_SCOPE d = day_total (intents db) d \<and>
    load (budget db) (payer_scope p) d = payer_day_total (intents db) p d \<and>
    distinct (map ir_payment_intent_id (intents db)) \<and>
    distinct (map ir_tx_hash (intents db)) \<and>
    distinct (map nonce_key (intents db))"
  using store_run_ok [OF assms] by (simp add: journal_ok_def)

theorem journal_budget_conservation_witness:
  "load (budget sample_db) TOTAL_SCOPE ''1970-01-01'' = day_total (intents sample_db) ''1970-01-01''
   \<and> intents sample_db \<noteq> []"
  using journal_budget_conservation [OF sample_run] sample_select by auto

lemma limits_kept:
  assumes "store_run (\<lambda>reserved actual. actual \<le> reserved) L db"
    and "0 \<le> lim_payer L" and "0 \<le> lim_total L"
  shows "load (budget db) TOTAL_SCOPE d \<le> lim_total L \<and> load (budget db) (payer_scope p) d \<le> lim_payer L"
  using assms
proof (induction arbitrary: d p rule: store_run.induct)
  case run_start
  then show ?case by (simp add: empty_journal_def load_def)
next
  case (run_claim db input rec db')
  from run_claim.hyps(2) show ?case
  proof (cases rule: claim_cases)
    case (known r)
    then show ?thesis using run_claim by simp
  next
    case (fresh r)
    have "load (budget db) TOTAL_SCOPE d \<le> lim_total L" "load (budget db) (payer_scope p) d \<le> lim_payer L"
      using run_claim by blast+
    then show ?thesis using claim_new_limits [OF fresh(2), of d p] by linarith
  qed
next
  case (run_finish db i res rec db')
  from run_finish.hyps(2) show ?case
  proof (cases rule: finish_cases)
    case (replay r)
    then show ?thesis using run_finish by simp
  next
    case (fresh r e)
    have cost: "fin_actualCost res \<le> BigInt (ir_reserved_wei r)"
      using run_finish.hyps(3) fresh(13) by (simp add: record_of_row_def)
    have T: "load (budget db) TOTAL_SCOPE x \<le> lim_total L" for x
      using run_finish.IH [OF run_finish.prems] by blast
    have P: "load (budget db) (payer_scope q) x \<le> lim_payer L" for q x
      using run_finish.IH [OF run_finish.prems] by blast
    show ?thesis
      using cost T [of d] P [of p d] T [of "ir_budget_day r"] P [of "ir_payer r" "ir_budget_day r"]
      unfolding fresh(8) by (auto simp: load_def TOTAL_SCOPE_def payer_scope_def)
  qed
qed simp_all

text \<open>C2: the daily ceilings hold. As long as no receipt costs more than its reservation, no
  sequence of claims, completions, refusals and prunes books more than the configured total
  on any day, or more than the configured share for any payer.\<close>

theorem daily_limits_hold:
  assumes "store_run (\<lambda>reserved actual. actual \<le> reserved) L db"
    and "0 \<le> lim_payer L" and "0 \<le> lim_total L"
  shows "load (budget db) TOTAL_SCOPE d \<le> lim_total L \<and> load (budget db) (payer_scope p) d \<le> lim_payer L"
  by (rule limits_kept [OF assms])

theorem daily_limits_hold_witness:
  "load (budget sample_db) TOTAL_SCOPE ''1970-01-01'' \<le> 10"
  using daily_limits_hold [OF sample_run, of "''1970-01-01''" "''x''"] by (simp add: sample_limits_def)

lemma finish_recorded:
  assumes ok: "journal_ok db" and r: "select_intent db (toLowerCase i) = Some r"
    and i: "hex_literal is_hex 64 i" and t: "ir_terminal_event_id r = None"
    and res: "0 \<le> fin_actualCost res" "0 \<le> fin_gasUsed res" "isSafeInteger (fin_at res)" "0 \<le> fin_at res"
  shows "\<exists>rec db' ev. finish db i res = Inr (rec, db') \<and> sr_terminal rec = Some ev \<and>
     sr_actualCost rec = Some (fin_actualCost res) \<and> ev_txHash ev = Some (ir_tx_hash r)"
proof -
  have rin: "r \<in> set (intents db)" and ri: "ir_payment_intent_id r = toLowerCase i"
    using select_intent_Some [OF r] by auto
  have iok: "intent_ok (events db) r" using ok rin by (simp add: journal_ok_def)
  have rd: "journal_read db i = Inr (Some (record_of_row (events db) r))"
    using i r by (simp add: journal_read_def hex_def)
  have nt: "sr_terminal (record_of_row (events db) r) = None"
    using terminal_of_ok [OF iok] t by simp
  obtain rec db' where fin: "finish db i res = Inr (rec, db')"
    using finish_returns [OF ok r i t res] by blast
  from fin show ?thesis
  proof (cases rule: finish_cases)
    case (replay q)
    then show ?thesis using r nt by simp
  next
    case (fresh q e)
    have "q = r" using fresh(1) r by simp
    have "distinct (map row_id (events db'))"
      using finish_ok [OF ok fin] by (simp add: journal_ok_def ledger_ok_def)
    then have "find (\<lambda>x. row_id x = row_id e) (events db') = Some e"
      by (rule find_distinct) (simp add: fresh(10))
    moreover from fresh(9) have "row_tx_hash e = Some (ir_tx_hash r)"
      by (rule ledger_recordE) (simp add: \<open>q = r\<close> terminal_event_def record_of_row_def)
    ultimately show ?thesis
      using fin fresh(13) \<open>q = r\<close> by (simp add: record_of_row_def toSettlementEvent_def)
  qed
qed

text \<open>C3: accounting a mined settlement cannot be refused by the books. For every intent the
  journal holds open, \<^verbatim>\<open>finish\<close> with a readable receipt (non-negative gas and cost, a safe
  timestamp) returns the intent's record with its terminal event and actual cost.\<close>

theorem finish_total:
  assumes ok: "journal_ok db" and r: "select_intent db (toLowerCase i) = Some r"
    and i: "hex_literal is_hex 64 i" and t: "ir_terminal_event_id r = None"
    and res: "0 \<le> fin_actualCost res" "0 \<le> fin_gasUsed res" "isSafeInteger (fin_at res)" "0 \<le> fin_at res"
  shows "\<exists>rec db' ev. finish db i res = Inr (rec, db') \<and> sr_terminal rec = Some ev \<and>
     sr_actualCost rec = Some (fin_actualCost res) \<and> ev_txHash ev = Some (ir_tx_hash r)"
  by (rule finish_recorded [OF ok r i t res])

theorem finish_total_witness:
  "\<exists>rec db' ev. finish sample_db (sample_hex 64 CHR ''1'') sample_result = Inr (rec, db') \<and>
     sr_terminal rec = Some ev \<and> sr_actualCost rec = Some 4"
proof -
  obtain r where r: "select_intent sample_db (sample_hex 64 CHR ''1'') = Some r" "ir_terminal_event_id r = None"
    using sample_select by blast
  show ?thesis
    using finish_total [OF store_run_ok [OF sample_run], of "sample_hex 64 CHR ''1''" r sample_result] r
    by (auto simp: sample_result_def isSafeInteger_def MAX_SAFE_INTEGER_def)
qed

text \<open>A claim is idempotent. Claiming an intent again, in any letter case, with any other
  fields and under any other limits, returns the record of the first claim and changes
  nothing: the budget is reserved once and the signed transaction is never replaced.\<close>

theorem claim_idempotent:
  assumes "claim db input L = Inr (rec, db')"
    and "toLowerCase (si_paymentIntentId again) = toLowerCase (si_paymentIntentId input)"
    and "hex_literal is_hex 64 (si_paymentIntentId again)"
  shows "claim db' again L' = Inr (rec, db')"
  using assms(1)
proof (cases rule: claim_cases)
  case (known r)
  then show ?thesis using assms(2,3) by (simp add: claim_def hex_def)
next
  case (fresh r)
  then show ?thesis using assms(2,3) by (simp add: claim_def hex_def)
qed

theorem claim_idempotent_witness:
  "\<exists>rec. claim sample_db (sample_input\<lparr>si_nonce := 7, si_gas := 0\<rparr>) \<lparr>lim_total = 0, lim_payer = 0\<rparr> = Inr (rec, sample_db)"
  using sample_claim
    claim_idempotent [of empty_journal sample_input sample_limits _ sample_db
      "sample_input\<lparr>si_nonce := 7, si_gas := 0\<rparr>" "\<lparr>lim_total = 0, lim_payer = 0\<rparr>"]
  by (auto simp: sample_input_def)

text \<open>An intent is accounted once. After a \<^verbatim>\<open>finish\<close>, a second \<^verbatim>\<open>finish\<close> of the same intent,
  whatever result it carries, returns the first record and leaves the budget, the ledger and
  the journal as they are.\<close>

theorem finish_exactly_once:
  assumes "journal_ok db" and "finish db i res = Inr (rec, db')"
    and "toLowerCase j = toLowerCase i" and "hex_literal is_hex 64 j"
  shows "finish db' j res' = Inr (rec, db')"
proof -
  have "\<exists>r. select_intent db' (toLowerCase i) = Some r \<and> rec = record_of_row (events db') r \<and> sr_terminal rec \<noteq> None"
    using assms(2)
  proof (cases rule: finish_cases)
    case (fresh r e)
    let ?r = "r\<lparr>ir_terminal_event_id := Some (row_id e), ir_actual_cost := Some (String (fin_actualCost res))\<rparr>"
    have "intent_ok (events db') ?r"
      using finish_ok [OF assms(1,2)] select_intent_Some [OF fresh(12)] by (simp add: journal_ok_def)
    then have "sr_terminal rec \<noteq> None" using fresh(13) terminal_of_ok by simp
    then show ?thesis using fresh by blast
  qed blast
  then show ?thesis using assms(3,4) by (auto simp: finish_def journal_read_def hex_def)
qed

theorem finish_exactly_once_witness:
  "\<exists>rec db'. finish sample_db (sample_hex 64 CHR ''1'') sample_result = Inr (rec, db') \<and>
     finish db' (sample_hex 64 CHR ''1'') (sample_result\<lparr>fin_actualCost := 900\<rparr>) = Inr (rec, db')"
proof -
  obtain r where "select_intent sample_db (sample_hex 64 CHR ''1'') = Some r" "ir_terminal_event_id r = None"
    using sample_select by blast
  then obtain rec db' where fin: "finish sample_db (sample_hex 64 CHR ''1'') sample_result = Inr (rec, db')"
    using finish_returns [OF store_run_ok [OF sample_run], of "sample_hex 64 CHR ''1''" r sample_result]
    by (auto simp: sample_result_def isSafeInteger_def MAX_SAFE_INTEGER_def)
  have "finish db' (sample_hex 64 CHR ''1'') (sample_result\<lparr>fin_actualCost := 900\<rparr>) = Inr (rec, db')"
    by (rule finish_exactly_once [OF store_run_ok [OF sample_run] fin]) simp_all
  then show ?thesis using fin by blast
qed

lemma foldr_max_bounds: "(x :: int) \<in> set (n # ns) \<Longrightarrow> x \<le> foldr max ns n"
  by (induction ns) auto

lemma max_nonce_upper:
  assumes "r \<in> set (intents db)" "ir_signer r = s" "ir_chain_id r = c"
  shows "\<exists>k. max_nonce db s c = Some k \<and> ir_nonce r \<le> k"
proof -
  let ?ns = "map ir_nonce (filter (\<lambda>r. ir_signer r = s \<and> ir_chain_id r = c) (intents db))"
  have "ir_nonce r \<in> set ?ns" using assms by auto
  moreover obtain m ms where "?ns = m # ms" using calculation by (cases ?ns) simp_all
  ultimately show ?thesis using foldr_max_bounds [of "ir_nonce r" m ms] by (simp add: max_nonce_def)
qed

lemma terminal_ids_inj:
  assumes "distinct (terminal_ids rs)" "r \<in> set rs" "q \<in> set rs"
    and "ir_terminal_event_id r = Some k" "ir_terminal_event_id q = Some k"
  shows "q = r"
proof -
  have "inj_on (the \<circ> ir_terminal_event_id) {r \<in> set rs. ir_terminal_event_id r \<noteq> None}"
    using assms(1) by (simp add: terminal_ids_def distinct_map)
  then show ?thesis by (rule inj_onD) (use assms(2-5) in auto)
qed

text \<open>A nonce is never handed out twice. The nonce \<^verbatim>\<open>nextNonce\<close> returns is at least the
  node's pending nonce and above every nonce this signer has claimed on the chain, so it can
  never collide with a row of the journal.\<close>

theorem nextNonce_fresh:
  assumes "nextNonce db signer chainId pendingNonce = Inr n"
  shows "pendingNonce \<le> n \<and> (chainId, toLowerCase signer, n) \<notin> nonce_key ` set (intents db) \<and>
    (\<forall>r \<in> set (intents db). ir_signer r = toLowerCase signer \<longrightarrow> ir_chain_id r = chainId \<longrightarrow> ir_nonce r < n)"
proof -
  from assms have n: "n = max pendingNonce (case max_nonce db (toLowerCase signer) chainId of None \<Rightarrow> 0 | Some k \<Rightarrow> k + 1)"
    by (simp add: nextNonce_def result_simps Let_def)
  have "ir_nonce r < n" if "r \<in> set (intents db)" "ir_signer r = toLowerCase signer" "ir_chain_id r = chainId" for r
    using max_nonce_upper [OF that] n by auto
  then show ?thesis using n by (force simp: nonce_key_def)
qed

theorem nextNonce_fresh_witness:
  "nextNonce sample_db (sample_hex 40 CHR ''1'') 91342 0 = Inr 1 \<and>
   (91342, sample_hex 40 CHR ''1'', 1) \<notin> nonce_key ` set (intents sample_db)"
proof -
  obtain r where "intents sample_db = [r]" "ir_signer r = sample_hex 40 CHR ''1''"
    "ir_chain_id r = 91342" "ir_nonce r = 0"
    using sample_row by blast
  then have "nextNonce sample_db (sample_hex 40 CHR ''1'') 91342 0 = Inr 1"
    by (simp add: nextNonce_def hex_def uint_def max_nonce_def isSafeInteger_def MAX_SAFE_INTEGER_def)
  then show ?thesis using nextNonce_fresh [of sample_db "sample_hex 40 CHR ''1''" 91342 0 1] by simp
qed

text \<open>The ledger and the journal agree. In every reachable store, every event that is not a
  refusal is the terminal event of exactly one intent, with that intent's transaction, payer,
  recipient and amount: nothing settles in the books without a claim behind it, and no claim
  is booked twice.\<close>

theorem money_events_are_claims:
  assumes "store_run (\<lambda>_ _. True) L db" and "e \<in> set (events db)" and "row_outcome e \<noteq> Rejected"
  shows "\<exists>!r. r \<in> set (intents db) \<and> event_of r e"
proof -
  have ok: "journal_ok db" using store_run_ok [OF assms(1)] .
  have ms: "mset (map row_id (filter (\<lambda>e. \<not> rejected_row e) (events db))) = mset (terminal_ids (intents db))"
    and d: "distinct (map row_id (events db))" and ids: "distinct (map ir_payment_intent_id (intents db))"
    using ok by (simp_all add: journal_ok_def ledger_ok_def)
  have "distinct (map row_id (filter (\<lambda>e. \<not> rejected_row e) (events db)))"
    using d by (rule distinct_map_filter)
  then have dt: "distinct (terminal_ids (intents db))" using ms mset_eq_imp_distinct_iff by blast
  have "row_id e \<in> set (map row_id (filter (\<lambda>e. \<not> rejected_row e) (events db)))"
    using assms(2,3) by (auto simp: rejected_row_def)
  then have "row_id e \<in> set (terminal_ids (intents db))" using ms mset_eq_setD by blast
  then obtain r where r: "r \<in> set (intents db)" "ir_terminal_event_id r = Some (row_id e)"
    by (auto simp: terminal_ids_def)
  then obtain e' where e': "e' \<in> set (events db)" "event_of r e'"
    using ok by (auto simp: journal_ok_def intent_ok_def)
  then have "row_id e' = row_id e" using r by (simp add: event_of_def)
  then have "e' = e" using d e' assms(2) by (auto simp: distinct_map dest: inj_onD)
  moreover have "q = r" if "q \<in> set (intents db)" "event_of q e" for q
    using terminal_ids_inj [OF dt r(1) that(1) r(2)] that(2) by (simp add: event_of_def)
  ultimately show ?thesis using r e' by blast
qed

theorem money_events_are_claims_witness:
  "\<exists>db e. store_run (\<lambda>_ _. True) sample_limits db \<and> e \<in> set (events db) \<and>
     (\<exists>!r. r \<in> set (intents db) \<and> event_of r e)"
proof -
  obtain r where r: "select_intent sample_db (sample_hex 64 CHR ''1'') = Some r" "ir_terminal_event_id r = None"
    using sample_select by blast
  then obtain rec db' where fin: "finish sample_db (sample_hex 64 CHR ''1'') sample_result = Inr (rec, db')"
    using finish_returns [OF store_run_ok [OF sample_run], of "sample_hex 64 CHR ''1''" r sample_result]
    by (auto simp: sample_result_def isSafeInteger_def MAX_SAFE_INTEGER_def)
  have run: "store_run (\<lambda>_ _. True) sample_limits db'" by (rule run_finish [OF sample_run fin]) simp
  from fin obtain e where "e \<in> set (events db')" "row_outcome e \<noteq> Rejected"
  proof (cases rule: finish_cases)
    case (replay q)
    then show ?thesis using r terminal_of_ok [of "events sample_db" r] store_run_ok [OF sample_run] select_intent_Some [OF r(1)]
      by (simp add: journal_ok_def)
  next
    case (fresh q e)
    from fresh(9) have "row_outcome e \<noteq> Rejected"
      by (rule ledger_recordE) (auto simp: terminal_event_def sample_result_def)
    then show ?thesis using that [of e] fresh(10) by simp
  qed
  then show ?thesis using run money_events_are_claims [OF run] by blast
qed

text \<open>The hourly retention never disturbs the journal. Pruning the ledger leaves every
  intent's record (its transaction, its reservation, its terminal event and its actual cost)
  as it was read before.\<close>

theorem prune_keeps_records:
  assumes ok: "journal_ok db" and "ledger_prune (events db) before keep = Inr (n, evs)"
  shows "journal_read (db\<lparr>events := evs\<rparr>) i = journal_read db i"
proof -
  have "record_of_row evs r = record_of_row (events db) r" if "select_intent db k = Some r" for r k
  proof (cases "ir_terminal_event_id r")
    case (Some t)
    have r: "intent_ok (events db) r" "ledger_ok evs" "ledger_ok (events db)"
      using ok select_intent_Some [OF that] ledger_prune_ok [OF _ assms(2)] by (auto simp: journal_ok_def)
    then obtain e where e: "e \<in> set (events db)" "row_id e = t" "\<not> rejected_row e"
      using Some by (auto simp: intent_ok_def event_of_def)
    then have "e \<in> set evs" using arg_cong [OF prune_kept [OF assms(2)], of set] by auto
    then have "find (\<lambda>x. row_id x = t) evs = Some e" "find (\<lambda>x. row_id x = t) (events db) = Some e"
      using e r(2,3) find_distinct [of row_id _ e] by (auto simp: ledger_ok_def)
    then show ?thesis using Some by (simp add: record_of_row_def)
  qed (simp add: record_of_row_def)
  then show ?thesis
    by (cases "select_intent db (toLowerCase i)")
      (auto simp: journal_read_def hex_def select_intent_def ebind_def)
qed

theorem prune_keeps_records_witness:
  "journal_read (sample_db\<lparr>events := []\<rparr>) (sample_hex 64 CHR ''1'') = journal_read sample_db (sample_hex 64 CHR ''1'')"
proof -
  have "events sample_db = []"
    using sample_row by blast
  then have "ledger_prune (events sample_db) 5 1 = Inr (0, [])"
    by (simp add: ledger_prune_def isSafeInteger_def MAX_SAFE_INTEGER_def dropRejectedBefore_def dropRejectedBeyond_def)
  then show ?thesis using prune_keeps_records [OF store_run_ok [OF sample_run]] by blast
qed

end
