(* ===== verification/Store_Scheduler.thy ===== *)
theory Store_Scheduler
  imports Js_Date
begin

text \<open>
  The payment schedule store (\<^verbatim>\<open>packages/store/src/scheduler.ts\<close>): \<^verbatim>\<open>add\<close>, \<^verbatim>\<open>get\<close>,
  \<^verbatim>\<open>list\<close>, \<^verbatim>\<open>cancel\<close>, \<^verbatim>\<open>runs\<close>, \<^verbatim>\<open>claim\<close> and \<^verbatim>\<open>finish\<close> over \<^verbatim>\<open>payment_jobs\<close> and
  \<^verbatim>\<open>payment_runs\<close>. A claim pauses its job and books the largest amount before anything is
  paid; the invariant says what every sequence of operations keeps: the money committed is
  the money of the runs, under the job's total, with at most one run in flight.

  Times are whole milliseconds below \<open>MAX_TIME\<close>, so the floating-point quotient under
  \<^verbatim>\<open>Math.floor\<close> is exact and \<open>div\<close> is its value. A next slot beyond the largest safe integer
  lies after every \<^verbatim>\<open>endsAt\<close>, where the job completes whatever the rounded number is.
\<close>

section \<open>Data\<close>

datatype JobStatus = Active | Paused | Cancelled | Completed

datatype RunOutcome = RunUnknown | RunPaid | RunUnpaid

record PaymentSchedule =
  ps_id :: string
  ps_resourcePath :: string
  ps_payTo :: string
  ps_maxAmountBase :: int
  ps_maxTotalBase :: int
  ps_maxRuns :: int
  ps_startsAt :: int
  ps_endsAt :: int
  ps_intervalMs :: int
  ps_maxAttempts :: int
  ps_retryDelayMs :: int

record ScheduledJob = PaymentSchedule +
  sj_status :: JobStatus
  sj_nextAt :: int
  sj_runCount :: int
  sj_attempts :: int
  sj_committedBase :: int

record ScheduledRun =
  run_id :: int
  run_jobId :: string
  run_at :: int
  run_attempt :: int
  run_outcome :: RunOutcome
  run_amountBase :: int
  run_code :: string
  run_transaction :: "string option"

datatype ScheduledResult =
    ResultPaid int "string option"
  | ResultUnpaid string bool
  | ResultUnknown string

record JobRow =
  jr_id :: string
  jr_resource_path :: string
  jr_pay_to :: string
  jr_max_amount :: string
  jr_max_total :: string
  jr_max_runs :: int
  jr_starts_at :: int
  jr_ends_at :: int
  jr_interval_ms :: int
  jr_max_attempts :: int
  jr_retry_delay_ms :: int
  jr_status :: JobStatus
  jr_next_at :: int
  jr_run_count :: int
  jr_attempts :: int
  jr_committed :: string

record RunRow =
  rr_id :: int
  rr_job_id :: string
  rr_at :: int
  rr_attempt :: int
  rr_outcome :: RunOutcome
  rr_amount :: string
  rr_code :: string
  rr_tx_hash :: "string option"
  rr_finished :: int

record sched_db =
  jobs :: "JobRow list"
  job_runs :: "RunRow list"

definition job :: "JobRow \<Rightarrow> ScheduledJob" where
  "job r = \<lparr>ps_id = jr_id r, ps_resourcePath = jr_resource_path r, ps_payTo = jr_pay_to r,
     ps_maxAmountBase = BigInt (jr_max_amount r), ps_maxTotalBase = BigInt (jr_max_total r),
     ps_maxRuns = jr_max_runs r, ps_startsAt = jr_starts_at r, ps_endsAt = jr_ends_at r,
     ps_intervalMs = jr_interval_ms r, ps_maxAttempts = jr_max_attempts r,
     ps_retryDelayMs = jr_retry_delay_ms r, sj_status = jr_status r, sj_nextAt = jr_next_at r,
     sj_runCount = jr_run_count r, sj_attempts = jr_attempts r,
     sj_committedBase = BigInt (jr_committed r)\<rparr>"

definition run :: "RunRow \<Rightarrow> ScheduledRun" where
  "run r = \<lparr>run_id = rr_id r, run_jobId = rr_job_id r, run_at = rr_at r, run_attempt = rr_attempt r,
     run_outcome = rr_outcome r, run_amountBase = BigInt (rr_amount r), run_code = rr_code r,
     run_transaction = rr_tx_hash r\<rparr>"

section \<open>Validation\<close>

definition safe_time :: "int \<Rightarrow> bool" where
  "safe_time n \<longleftrightarrow> isSafeInteger n \<and> 0 \<le> n \<and> n \<le> 8640000000000000"

definition safeTime :: "int \<Rightarrow> unit result" where
  "safeTime n = ensure (safe_time n) (Error ''invalid schedule time'')"

text \<open>\<^verbatim>\<open>/^[a-zA-Z0-9_-]{1,64}$/\<close>.\<close>

definition schedule_id :: "string \<Rightarrow> bool" where
  "schedule_id s \<longleftrightarrow> 1 \<le> length s \<and> length s \<le> 64 \<and>
     list_all (\<lambda>c. is_lower c \<or> is_upper c \<or> is_digit c \<or> c = CHR ''_'' \<or> c = CHR ''-'') s"

text \<open>\<^verbatim>\<open>/^\/(?!\/)[a-zA-Z0-9/_-]*$/\<close> and at most 512 characters.\<close>

definition resource_path :: "string \<Rightarrow> bool" where
  "resource_path s \<longleftrightarrow> length s \<le> 512 \<and> (case s of
     [] \<Rightarrow> False
   | c # cs \<Rightarrow> c = CHR ''/'' \<and> (cs = [] \<or> hd cs \<noteq> CHR ''/'') \<and>
       list_all (\<lambda>c. is_lower c \<or> is_upper c \<or> is_digit c \<or> c = CHR ''/'' \<or> c = CHR ''_'' \<or> c = CHR ''-'') cs)"

definition zero_address :: string where
  "zero_address = ''0x'' @ replicate 40 CHR ''0''"

text \<open>\<^verbatim>\<open>/^[A-Z_]{1,64}$/\<close>.\<close>

definition outcome_code :: "string \<Rightarrow> bool" where
  "outcome_code s \<longleftrightarrow> 1 \<le> length s \<and> length s \<le> 64 \<and>
     list_all (\<lambda>c. is_upper c \<or> c = CHR ''_'') s"

definition validate_schedule :: "PaymentSchedule \<Rightarrow> unit result" where
  "validate_schedule j =
     ebind (ensure (schedule_id (ps_id j) \<and> hex_literal is_hex 40 (ps_payTo j) \<and> ps_payTo j \<noteq> zero_address)
       (Error ''invalid schedule identity'')) (\<lambda>_.
     ebind (ensure (resource_path (ps_resourcePath j))
       (Error ''resource must be a plain seller path without credentials or query'')) (\<lambda>_.
     ebind (safeTime (ps_startsAt j)) (\<lambda>_.
     ebind (safeTime (ps_endsAt j)) (\<lambda>_.
     ebind (safeTime (ps_intervalMs j)) (\<lambda>_.
     ebind (safeTime (ps_retryDelayMs j)) (\<lambda>_.
     ebind (ensure (\<not> (ps_endsAt j \<le> ps_startsAt j \<or> ps_intervalMs j < 1000 \<or> ps_retryDelayMs j < 1000
         \<or> \<not> isSafeInteger (ps_maxRuns j) \<or> ps_maxRuns j < 1 \<or> ps_maxRuns j > 100000
         \<or> ps_maxAttempts j < 1 \<or> ps_maxAttempts j > 10))
       (Error ''invalid schedule bounds'')) (\<lambda>_.
     ensure (\<not> (ps_maxAmountBase j \<le> 0 \<or> ps_maxTotalBase j < ps_maxAmountBase j))
       (Error ''invalid payment caps''))))))))"

section \<open>Operations\<close>

definition get_row :: "sched_db \<Rightarrow> string \<Rightarrow> JobRow option" where
  "get_row db i = find (\<lambda>r. jr_id r = i) (jobs db)"

definition sched_get :: "sched_db \<Rightarrow> string \<Rightarrow> ScheduledJob option" where
  "sched_get db i = map_option job (get_row db i)"

definition update_job :: "string \<Rightarrow> (JobRow \<Rightarrow> JobRow) \<Rightarrow> sched_db \<Rightarrow> sched_db" where
  "update_job i f db = db\<lparr>jobs := update_where (\<lambda>r. jr_id r = i) f (jobs db)\<rparr>"

definition sched_add :: "sched_db \<Rightarrow> PaymentSchedule \<Rightarrow> (ScheduledJob \<times> sched_db) result" where
  "sched_add db j =
     ebind (validate_schedule j) (\<lambda>_.
     if ps_id j \<in> jr_id ` set (jobs db) then Inl (ConstraintFailed ''payment_jobs.id'')
     else let row = \<lparr>jr_id = ps_id j, jr_resource_path = ps_resourcePath j,
         jr_pay_to = toLowerCase (ps_payTo j), jr_max_amount = String (ps_maxAmountBase j),
         jr_max_total = String (ps_maxTotalBase j), jr_max_runs = ps_maxRuns j,
         jr_starts_at = ps_startsAt j, jr_ends_at = ps_endsAt j, jr_interval_ms = ps_intervalMs j,
         jr_max_attempts = ps_maxAttempts j, jr_retry_delay_ms = ps_retryDelayMs j,
         jr_status = Active, jr_next_at = ps_startsAt j, jr_run_count = 0, jr_attempts = 0,
         jr_committed = ''0''\<rparr>
       in Inr (job row, db\<lparr>jobs := jobs db @ [row]\<rparr>))"

definition sched_list :: "sched_db \<Rightarrow> ScheduledJob list" where
  "sched_list db = map job (sort_key (\<lambda>r. (jr_next_at r, jr_id r)) (jobs db))"

definition sched_cancel :: "sched_db \<Rightarrow> string \<Rightarrow> sched_db result" where
  "sched_cancel db i = (case sched_get db i of
     None \<Rightarrow> Inl (Error ''job not found'')
   | Some _ \<Rightarrow> Inr (update_job i (\<lambda>r. r\<lparr>jr_status := Cancelled\<rparr>) db))"

definition sched_runs :: "sched_db \<Rightarrow> string \<Rightarrow> ScheduledRun list" where
  "sched_runs db i = map run (sort_key rr_id (filter (\<lambda>r. rr_job_id r = i) (job_runs db)))"

text \<open>The job is exhausted: past its end, out of slots, or out of committed budget.\<close>

definition claim_exhausted :: "ScheduledJob \<Rightarrow> int \<Rightarrow> bool" where
  "claim_exhausted j now \<longleftrightarrow> now \<ge> ps_endsAt j \<or>
     (sj_attempts j = 0 \<and> sj_runCount j \<ge> ps_maxRuns j) \<or>
     sj_committedBase j + ps_maxAmountBase j > ps_maxTotalBase j"

definition sched_claim ::
    "sched_db \<Rightarrow> string \<Rightarrow> int \<Rightarrow> ((ScheduledJob \<times> ScheduledRun) option \<times> sched_db) result" where
  "sched_claim db i now =
     ebind (safeTime now) (\<lambda>_.
     case sched_get db i of
       None \<Rightarrow> Inr (None, db)
     | Some j \<Rightarrow>
       if sj_status j \<noteq> Active \<or> now < sj_nextAt j \<or> now < ps_startsAt j then Inr (None, db)
       else if claim_exhausted j now
       then Inr (None, update_job i (\<lambda>r. r\<lparr>jr_status := Completed\<rparr>) db)
       else
         let db1 = update_job i (\<lambda>r. r\<lparr>jr_status := Paused,
               jr_committed := String (sj_committedBase j + ps_maxAmountBase j),
               jr_run_count := sj_runCount j + (if sj_attempts j = 0 then 1 else 0),
               jr_attempts := jr_attempts r + 1\<rparr>) db;
             row = \<lparr>rr_id = next_rowid rr_id (job_runs db1), rr_job_id = i, rr_at = now,
               rr_attempt = sj_attempts j + 1, rr_outcome = RunUnknown,
               rr_amount = String (ps_maxAmountBase j), rr_code = ''IN_PROGRESS_OR_INTERRUPTED'',
               rr_tx_hash = None, rr_finished = 0\<rparr>;
             db2 = db1\<lparr>job_runs := job_runs db1 @ [row]\<rparr>
         in (case sched_get db2 i of
               Some j' \<Rightarrow> Inr (Some (j', run row), db2)
             | None \<Rightarrow> Inl (TypeError ''null'')))"

definition result_code :: "ScheduledResult \<Rightarrow> string" where
  "result_code res = (case res of ResultPaid _ _ \<Rightarrow> ''PAID'' | ResultUnpaid c _ \<Rightarrow> c | ResultUnknown c \<Rightarrow> c)"

definition result_outcome :: "ScheduledResult \<Rightarrow> RunOutcome" where
  "result_outcome res = (case res of ResultPaid _ _ \<Rightarrow> RunPaid | ResultUnpaid _ _ \<Rightarrow> RunUnpaid
     | ResultUnknown _ \<Rightarrow> RunUnknown)"

text \<open>The slot after \<open>now\<close>: missed intervals are skipped.\<close>

definition next_slot :: "ScheduledJob \<Rightarrow> int \<Rightarrow> int" where
  "next_slot j now = ps_startsAt j + ((now - ps_startsAt j) div ps_intervalMs j + 1) * ps_intervalMs j"

text \<open>The locals of \<^verbatim>\<open>finish\<close> after its two branches: amount, committed, status, next and attempts.\<close>

definition settle_result ::
    "ScheduledJob \<Rightarrow> int \<Rightarrow> ScheduledResult \<Rightarrow> int \<Rightarrow> (int \<times> int \<times> JobStatus \<times> int \<times> int) result" where
  "settle_result j reserved res now = (case res of
     ResultPaid amountBase tx \<Rightarrow>
       if amountBase \<le> 0 \<or> amountBase > ps_maxAmountBase j
       then Inl (Error ''paid amount outside reservation'')
       else if tx \<noteq> None \<and> tx \<noteq> Some '''' \<and> \<not> hex_literal is_hex 64 (the tx)
       then Inl (Error ''invalid transaction'')
       else Inr (amountBase, sj_committedBase j + (amountBase - reserved), Active, next_slot j now, 0)
   | ResultUnpaid _ retry \<Rightarrow>
       if retry \<and> sj_attempts j < ps_maxAttempts j
       then Inr (0, sj_committedBase j - reserved, Active, now + ps_retryDelayMs j, sj_attempts j)
       else Inr (0, sj_committedBase j - reserved, Paused, sj_nextAt j, sj_attempts j)
   | ResultUnknown _ \<Rightarrow> Inr (reserved, sj_committedBase j, Paused, sj_nextAt j, sj_attempts j))"

text \<open>\<^verbatim>\<open>completed\<close> where nothing more can run; \<^verbatim>\<open>cancelled\<close> when the job was cancelled meanwhile.\<close>

definition final_status :: "ScheduledJob \<Rightarrow> JobStatus \<Rightarrow> int \<Rightarrow> int \<Rightarrow> int \<Rightarrow> JobStatus" where
  "final_status j status next_at attempts committed =
     (let st = (if status = Active \<and> (next_at \<ge> ps_endsAt j \<or> (attempts = 0 \<and> sj_runCount j \<ge> ps_maxRuns j)
            \<or> committed + ps_maxAmountBase j > ps_maxTotalBase j) then Completed else status)
      in if sj_status j = Cancelled then Cancelled else st)"

definition sched_finish :: "sched_db \<Rightarrow> int \<Rightarrow> ScheduledResult \<Rightarrow> int \<Rightarrow> sched_db result" where
  "sched_finish db runId res now =
     ebind (safeTime now) (\<lambda>_.
     case find (\<lambda>r. rr_id r = runId) (job_runs db) of
       None \<Rightarrow> Inl (Error ''run not found'')
     | Some r \<Rightarrow>
       if rr_finished r \<noteq> 0 then Inr db
       else (case sched_get db (rr_job_id r) of
         None \<Rightarrow> Inl (TypeError ''null'')
       | Some j \<Rightarrow>
         ebind (ensure (outcome_code (result_code res)) (Error ''invalid outcome code'')) (\<lambda>_.
         ebind (settle_result j (BigInt (rr_amount r)) res now) (\<lambda>(amount, committed, status, next_at, attempts).
         let db1 = update_job (ps_id j) (\<lambda>q. q\<lparr>jr_status := final_status j status next_at attempts committed,
               jr_committed := String committed, jr_next_at := next_at, jr_attempts := attempts\<rparr>) db
         in Inr (db1\<lparr>job_runs := update_where (\<lambda>q. rr_id q = runId) (\<lambda>q. q\<lparr>rr_outcome := result_outcome res,
               rr_amount := String amount, rr_code := result_code res,
               rr_tx_hash := (case res of ResultPaid _ tx \<Rightarrow> tx | _ \<Rightarrow> None), rr_finished := 1\<rparr>) (job_runs db1)\<rparr>)))))"

section \<open>The invariant\<close>

definition runs_of :: "RunRow list \<Rightarrow> string \<Rightarrow> RunRow list" where
  "runs_of rs i = filter (\<lambda>r. rr_job_id r = i) rs"

definition in_flight :: "RunRow \<Rightarrow> bool" where
  "in_flight r \<longleftrightarrow> rr_finished r = 0"

definition run_ok :: "JobRow \<Rightarrow> RunRow \<Rightarrow> bool" where
  "run_ok j r \<longleftrightarrow> 0 \<le> BigInt (rr_amount r) \<and> BigInt (rr_amount r) \<le> BigInt (jr_max_amount j) \<and>
     (in_flight r \<longrightarrow> rr_outcome r = RunUnknown \<and> rr_amount r = jr_max_amount j)"

definition amounts :: "RunRow list \<Rightarrow> int" where
  "amounts rs = sum_list (map (\<lambda>r. BigInt (rr_amount r)) rs)"

definition paid_count :: "RunRow list \<Rightarrow> nat" where
  "paid_count rs = length (filter (\<lambda>r. rr_outcome r = RunPaid) rs)"

definition job_ok :: "RunRow list \<Rightarrow> JobRow \<Rightarrow> bool" where
  "job_ok rs j \<longleftrightarrow>
     0 < BigInt (jr_max_amount j) \<and> jr_max_amount j = String (BigInt (jr_max_amount j)) \<and>
     1 \<le> jr_interval_ms j \<and>
     BigInt (jr_committed j) = amounts rs \<and> amounts rs \<le> BigInt (jr_max_total j) \<and>
     (\<forall>r \<in> set rs. run_ok j r) \<and>
     jr_run_count j \<le> jr_max_runs j \<and>
     0 \<le> jr_attempts j \<and> jr_attempts j \<le> jr_max_attempts j \<and>
     int (paid_count rs) + (if 0 < jr_attempts j then 1 else 0) \<le> jr_run_count j \<and>
     (jr_status j = Active \<longrightarrow> jr_attempts j < jr_max_attempts j \<and> filter in_flight rs = []) \<and>
     length (filter in_flight rs) \<le> 1 \<and>
     (filter in_flight rs \<noteq> [] \<longrightarrow> 0 < jr_attempts j)"

definition sched_ok :: "sched_db \<Rightarrow> bool" where
  "sched_ok db \<longleftrightarrow> distinct (map jr_id (jobs db)) \<and> distinct (map rr_id (job_runs db)) \<and>
     rr_job_id ` set (job_runs db) \<subseteq> jr_id ` set (jobs db) \<and>
     (\<forall>j \<in> set (jobs db). job_ok (runs_of (job_runs db) (jr_id j)) j)"

section \<open>Every operation keeps it\<close>

lemma get_row_Some: "get_row db i = Some r \<Longrightarrow> r \<in> set (jobs db) \<and> jr_id r = i"
  by (auto simp: get_row_def dest: find_Some_iff_ex)

lemma get_row_iff: "distinct (map jr_id (jobs db)) \<Longrightarrow> get_row db i = Some r \<longleftrightarrow> r \<in> set (jobs db) \<and> jr_id r = i"
  using find_distinct [of jr_id "jobs db" r] by (auto simp: get_row_def dest: find_Some_iff_ex)

lemma get_row_None: "get_row db i = None \<longleftrightarrow> i \<notin> jr_id ` set (jobs db)"
  by (auto simp: get_row_def find_None_iff)

lemma sched_get_iff: "sched_get db i = Some j \<longleftrightarrow> (\<exists>r. get_row db i = Some r \<and> j = job r)"
  by (auto simp: sched_get_def)

lemma job_simps [simp]:
  "sj_status (job r) = jr_status r" "sj_attempts (job r) = jr_attempts r"
  "sj_runCount (job r) = jr_run_count r" "sj_committedBase (job r) = BigInt (jr_committed r)"
  "ps_maxAmountBase (job r) = BigInt (jr_max_amount r)" "ps_maxTotalBase (job r) = BigInt (jr_max_total r)"
  "ps_maxRuns (job r) = jr_max_runs r" "ps_maxAttempts (job r) = jr_max_attempts r" "ps_id (job r) = jr_id r"
  "ps_startsAt (job r) = jr_starts_at r" "ps_endsAt (job r) = jr_ends_at r" "sj_nextAt (job r) = jr_next_at r"
  "ps_intervalMs (job r) = jr_interval_ms r" "ps_retryDelayMs (job r) = jr_retry_delay_ms r"
  by (simp_all add: job_def)

text \<open>Rewriting one job and its runs, the others untouched, is checked on that job alone.\<close>

lemma sched_ok_update:
  assumes ok: "sched_ok db" and r: "r \<in> set (jobs db)" "jr_id r = i" and id: "\<And>q. jr_id (f q) = jr_id q"
    and runs: "distinct (map rr_id rs')" "rr_job_id ` set rs' \<subseteq> jr_id ` set (jobs db)"
    and other: "\<And>k. k \<noteq> i \<Longrightarrow> runs_of rs' k = runs_of (job_runs db) k"
    and this_job: "job_ok (runs_of rs' i) (f r)"
  shows "sched_ok ((update_job i f db)\<lparr>job_runs := rs'\<rparr>)"
proof -
  have d: "distinct (map jr_id (jobs db))" using ok by (simp add: sched_ok_def)
  have ids: "map jr_id (update_where (\<lambda>r. jr_id r = i) f (jobs db)) = map jr_id (jobs db)"
    by (rule map_update_where_id) (simp add: id)
  have "job_ok (runs_of rs' (jr_id q)) q" if q: "q \<in> set (update_where (\<lambda>r. jr_id r = i) f (jobs db))" for q
  proof -
    consider "q \<in> set (jobs db)" "jr_id q \<noteq> i" | x where "x \<in> set (jobs db)" "jr_id x = i" "q = f x"
      using q unfolding set_update_where by blast
    then show ?thesis
    proof cases
      case 1
      then show ?thesis using ok other by (simp add: sched_ok_def)
    next
      case (2 x)
      then have "x = r" using d r by (auto simp: distinct_map dest: inj_onD)
      then show ?thesis using 2 this_job by (simp add: id)
    qed
  qed
  then show ?thesis
    using d runs ids ids [THEN arg_cong, of set] unfolding set_map by (simp add: sched_ok_def update_job_def)
qed

lemma sched_ok_update_job:
  assumes "sched_ok db" "r \<in> set (jobs db)" "jr_id r = i" "\<And>q. jr_id (f q) = jr_id q"
    and "job_ok (runs_of (job_runs db) i) (f r)"
  shows "sched_ok (update_job i f db)"
proof -
  have "(update_job i f db)\<lparr>job_runs := job_runs db\<rparr> = update_job i f db" by (simp add: update_job_def)
  then show ?thesis using sched_ok_update [of db r i f "job_runs db"] assms by (simp add: sched_ok_def)
qed

lemma runs_of_append: "runs_of (rs @ [r]) i = runs_of rs i @ (if rr_job_id r = i then [r] else [])"
  by (simp add: runs_of_def)

lemma filter_update_where:
  "(\<And>r. P (f r) = P r) \<Longrightarrow> filter P (update_where p f rs) = update_where p f (filter P rs)"
  by (induction rs) (auto simp: update_where_def)

lemma amounts_append [simp]: "amounts (rs @ [r]) = amounts rs + BigInt (rr_amount r)"
  by (simp add: amounts_def)

lemma paid_count_append: "paid_count (rs @ [r]) = paid_count rs + (if rr_outcome r = RunPaid then 1 else 0)"
  by (simp add: paid_count_def)

lemma sched_add_ok:
  assumes ok: "sched_ok db" and a: "sched_add db j = Inr (out, db')"
  shows "sched_ok db'"
proof -
  obtain row where row: "db' = db\<lparr>jobs := jobs db @ [row]\<rparr>" "jr_id row \<notin> jr_id ` set (jobs db)"
    "jr_max_amount row = String (ps_maxAmountBase j)" "jr_max_total row = String (ps_maxTotalBase j)"
    "jr_interval_ms row = ps_intervalMs j" "jr_max_runs row = ps_maxRuns j" "jr_max_attempts row = ps_maxAttempts j"
    "jr_attempts row = 0" "jr_run_count row = 0" "jr_committed row = ''0''"
    and v: "validate_schedule j = Inr ()"
    using a by (auto simp: sched_add_def result_simps Let_def split: if_splits)
  have caps: "0 < ps_maxAmountBase j" "ps_maxAmountBase j \<le> ps_maxTotalBase j" "1 \<le> ps_intervalMs j"
    "1 \<le> ps_maxRuns j" "1 \<le> ps_maxAttempts j"
    using v by (auto simp: validate_schedule_def result_simps)
  have "rr_job_id x \<noteq> jr_id row" if "x \<in> set (job_runs db)" for x
  proof -
    have "rr_job_id x \<in> jr_id ` set (jobs db)" using ok that by (auto simp: sched_ok_def)
    then show ?thesis using row(2) by metis
  qed
  then have none: "runs_of (job_runs db) (jr_id row) = []" by (simp add: runs_of_def filter_empty_conv)
  have "job_ok [] row" using row caps by (simp add: job_ok_def amounts_def paid_count_def)
  then show ?thesis using ok row(1,2) none by (auto simp: sched_ok_def)
qed

lemma job_ok_status: "job_ok rs r \<Longrightarrow> st \<noteq> Active \<Longrightarrow> job_ok rs (r\<lparr>jr_status := st\<rparr>)"
  by (simp add: job_ok_def run_ok_def)

lemma sched_ok_status:
  assumes ok: "sched_ok db" and r: "get_row db i = Some r" and "st \<noteq> Active"
  shows "sched_ok (update_job i (\<lambda>r. r\<lparr>jr_status := st\<rparr>) db)"
proof -
  have "r \<in> set (jobs db)" "jr_id r = i" using get_row_Some [OF r] by simp_all
  moreover have "job_ok (runs_of (job_runs db) i) r" using ok calculation by (auto simp: sched_ok_def)
  ultimately show ?thesis using assms(3) job_ok_status by (intro sched_ok_update_job [OF ok]) simp_all
qed

lemma sched_cancel_ok:
  assumes "sched_ok db" "sched_cancel db i = Inr db'"
  shows "sched_ok db'"
  using assms sched_ok_status by (auto simp: sched_cancel_def sched_get_def split: option.splits)

text \<open>A claim books the largest amount and one run in flight.\<close>

lemma job_ok_claim:
  assumes "job_ok rs r" "jr_status r = Active" "\<not> claim_exhausted (job r) now" "rr_outcome row = RunUnknown"
    and row: "rr_amount row = String (BigInt (jr_max_amount r))" "in_flight row"
  shows "job_ok (rs @ [row]) (r\<lparr>jr_status := Paused,
        jr_committed := String (BigInt (jr_committed r) + BigInt (jr_max_amount r)),
        jr_run_count := jr_run_count r + (if jr_attempts r = 0 then 1 else 0), jr_attempts := jr_attempts r + 1\<rparr>)"
proof -
  have nofly: "filter in_flight rs = []" "jr_attempts r < jr_max_attempts r" "0 \<le> jr_attempts r"
    and room: "jr_attempts r = 0 \<longrightarrow> jr_run_count r < jr_max_runs r" "jr_run_count r \<le> jr_max_runs r"
    and money: "amounts rs + BigInt (jr_max_amount r) \<le> BigInt (jr_max_total r)"
    and rs: "\<forall>q \<in> set rs. run_ok r q" "jr_max_amount r = String (BigInt (jr_max_amount r))"
    and paid: "int (paid_count rs) + (if 0 < jr_attempts r then 1 else 0) \<le> jr_run_count r"
    using assms(1-3) by (auto simp: job_ok_def claim_exhausted_def)
  show ?thesis
    using assms(1,4) nofly room money rs paid row
    unfolding job_ok_def by (auto simp: run_ok_def paid_count_append split: if_splits)
qed

lemma sched_claim_cases:
  assumes "sched_claim db i now = Inr (out, db')"
  obtains (idle) "out = None" "db' = db"
  | (exhausted) r where "get_row db i = Some r" "out = None" "db' = update_job i (\<lambda>r. r\<lparr>jr_status := Completed\<rparr>) db"
  | (claimed) r row j where "get_row db i = Some r" "jr_status r = Active" "jr_next_at r \<le> now" "jr_starts_at r \<le> now"
      "\<not> claim_exhausted (job r) now" "safe_time now" "out = Some (j, run row)"
      "row = \<lparr>rr_id = next_rowid rr_id (job_runs db), rr_job_id = i, rr_at = now, rr_attempt = jr_attempts r + 1,
        rr_outcome = RunUnknown, rr_amount = String (BigInt (jr_max_amount r)),
        rr_code = ''IN_PROGRESS_OR_INTERRUPTED'', rr_tx_hash = None, rr_finished = 0\<rparr>"
      "db' = (update_job i (\<lambda>q. q\<lparr>jr_status := Paused, jr_committed := String (BigInt (jr_committed r) + BigInt (jr_max_amount r)),
        jr_run_count := jr_run_count r + (if jr_attempts r = 0 then 1 else 0), jr_attempts := jr_attempts q + 1\<rparr>) db)
        \<lparr>job_runs := job_runs db @ [row]\<rparr>"
proof (cases "get_row db i")
  case None
  then show ?thesis using assms idle by (simp add: sched_claim_def result_simps sched_get_def)
next
  case (Some r)
  note r = this and g = get_row_Some [OF this]
  from assms have now: "safe_time now" by (auto simp: sched_claim_def result_simps safeTime_def)
  note eq = assms [unfolded sched_claim_def safeTime_def, simplified now ensure_simps ebind_simps sched_get_def r,
      simplified]
  consider (wait) "jr_status r \<noteq> Active \<or> now < jr_next_at r \<or> now < jr_starts_at r"
    | (full) "jr_status r = Active" "jr_next_at r \<le> now" "jr_starts_at r \<le> now" "claim_exhausted (job r) now"
    | (go) "jr_status r = Active" "jr_next_at r \<le> now" "jr_starts_at r \<le> now" "\<not> claim_exhausted (job r) now"
    by force
  then show ?thesis
  proof cases
    case wait
    then show ?thesis using eq idle by (simp split: if_splits)
  next
    case full
    then show ?thesis using eq exhausted [OF r] by simp
  next
    case go
    let ?row = "\<lparr>rr_id = next_rowid rr_id (job_runs db), rr_job_id = i, rr_at = now, rr_attempt = jr_attempts r + 1,
        rr_outcome = RunUnknown, rr_amount = String (BigInt (jr_max_amount r)),
        rr_code = ''IN_PROGRESS_OR_INTERRUPTED'', rr_tx_hash = None, rr_finished = 0\<rparr>"
    let ?db = "(update_job i (\<lambda>q. q\<lparr>jr_status := Paused, jr_committed := String (BigInt (jr_committed r) + BigInt (jr_max_amount r)),
        jr_run_count := jr_run_count r + (if jr_attempts r = 0 then 1 else 0), jr_attempts := jr_attempts q + 1\<rparr>) db)
        \<lparr>job_runs := job_runs db @ [?row]\<rparr>"
    from eq go obtain j where "out = Some (j, run ?row)" "db' = ?db"
      by (auto simp: Let_def update_job_def split: option.splits)
    then show ?thesis by (intro claimed [OF r go now _ refl])
  qed
qed

lemma sched_claim_ok:
  assumes ok: "sched_ok db" and c: "sched_claim db i now = Inr (out, db')"
  shows "sched_ok db'"
  using c
proof (cases rule: sched_claim_cases)
  case idle
  then show ?thesis using ok by simp
next
  case (exhausted r)
  then show ?thesis using sched_ok_status [OF ok exhausted(1)] by simp
next
  case (claimed r row j)
  have r: "r \<in> set (jobs db)" "jr_id r = i" using get_row_Some [OF claimed(1)] by auto
  have jok: "job_ok (runs_of (job_runs db) i) r" using ok r by (auto simp: sched_ok_def)
  have row: "rr_id row = next_rowid rr_id (job_runs db)" "rr_job_id row = i" "rr_outcome row = RunUnknown"
    "BigInt (rr_amount row) = BigInt (jr_max_amount r)" "rr_amount row = String (BigInt (jr_max_amount r))" "in_flight row"
    unfolding claimed(8) by (simp_all add: in_flight_def)
  show ?thesis
    unfolding claimed(9)
  proof (rule sched_ok_update [OF ok r])
    show "distinct (map rr_id (job_runs db @ [row]))" using ok row by (auto simp: sched_ok_def)
    show "rr_job_id ` set (job_runs db @ [row]) \<subseteq> jr_id ` set (jobs db)"
      using ok row(2) r imageI [OF r(1), of jr_id] by (simp add: sched_ok_def)
    show "runs_of (job_runs db @ [row]) k = runs_of (job_runs db) k" if "k \<noteq> i" for k
      using that row by (simp add: runs_of_append)
    show "job_ok (runs_of (job_runs db @ [row]) i) (r\<lparr>jr_status := Paused,
        jr_committed := String (BigInt (jr_committed r) + BigInt (jr_max_amount r)),
        jr_run_count := jr_run_count r + (if jr_attempts r = 0 then 1 else 0), jr_attempts := jr_attempts r + 1\<rparr>)"
      using job_ok_claim [OF jok claimed(2,5)] row by (simp add: runs_of_append)
  qed simp
qed

definition finish_run :: "ScheduledResult \<Rightarrow> int \<Rightarrow> RunRow \<Rightarrow> RunRow" where
  "finish_run res amount q = q\<lparr>rr_outcome := result_outcome res, rr_amount := String amount,
     rr_code := result_code res, rr_tx_hash := (case res of ResultPaid _ tx \<Rightarrow> tx | _ \<Rightarrow> None), rr_finished := 1\<rparr>"

lemma finish_run_simps [simp]:
  "rr_id (finish_run res a q) = rr_id q" "rr_job_id (finish_run res a q) = rr_job_id q"
  "rr_amount (finish_run res a q) = String a" "rr_outcome (finish_run res a q) = result_outcome res"
  "rr_finished (finish_run res a q) = 1" "\<not> in_flight (finish_run res a q)"
  by (simp_all add: finish_run_def in_flight_def)

lemma paid_count_sum: "int (paid_count rs) = sum_list (map (\<lambda>r. if rr_outcome r = RunPaid then 1 else 0) rs)"
  by (induction rs) (auto simp: paid_count_def)

text \<open>The run in flight is the only one, so finishing it moves the sums by its own change.\<close>

lemma finish_sums:
  assumes "distinct (map rr_id rs)" "r \<in> set rs"
  shows "amounts (update_where (\<lambda>q. rr_id q = rr_id r) (finish_run res a) rs) = amounts rs + a - BigInt (rr_amount r)"
    and "rr_outcome r = RunUnknown \<Longrightarrow> int (paid_count (update_where (\<lambda>q. rr_id q = rr_id r) (finish_run res a) rs))
      = int (paid_count rs) + (if result_outcome res = RunPaid then 1 else 0)"
  using sum_update_where [OF assms, where P = "\<lambda>_. True" and f = "finish_run res a" and g = "\<lambda>r. BigInt (rr_amount r)"]
    sum_update_where [OF assms, where P = "\<lambda>_. True" and f = "finish_run res a" and g = "\<lambda>r. if rr_outcome r = RunPaid then 1 else 0"]
  unfolding paid_count_sum amounts_def by auto

lemma job_ok_finish:
  assumes jok: "job_ok rs j" and d: "distinct (map rr_id rs)" and r: "r \<in> set rs" "in_flight r"
    and sr: "settle_result (job j) (BigInt (rr_amount r)) res now = Inr (amount, committed, status, next_at, attempts)"
  shows "job_ok (update_where (\<lambda>q. rr_id q = rr_id r) (finish_run res amount) rs)
     (j\<lparr>jr_status := final_status (job j) status next_at attempts committed, jr_committed := String committed,
        jr_next_at := next_at, jr_attempts := attempts\<rparr>)" (is "job_ok ?rs ?j")
proof -
  have fly: "filter in_flight rs = [r]"
  proof -
    have "r \<in> set (filter in_flight rs)" using r by simp
    moreover have "length (filter in_flight rs) \<le> 1" using jok by (simp add: job_ok_def)
    ultimately show ?thesis by (cases "filter in_flight rs") auto
  qed
  have ro: "run_ok j r" using jok r by (simp add: job_ok_def)
  then have res: "BigInt (rr_amount r) = BigInt (jr_max_amount j)" "rr_outcome r = RunUnknown"
    using r by (simp_all add: run_ok_def)
  note sums = finish_sums(1) [OF d r(1), of res amount] finish_sums(2) [OF d r(1) res(2), of res amount]
  have landed: "filter in_flight ?rs = []"
  proof -
    have "q = r" if "q \<in> set rs" "in_flight q" for q
      using that fly [THEN arg_cong, of set] by auto
    then show ?thesis by (auto simp: filter_empty_conv set_update_where)
  qed
  have att: "0 < jr_attempts j" "jr_attempts j \<le> jr_max_attempts j" "0 < BigInt (jr_max_amount j)"
    using jok fly by (simp_all add: job_ok_def)
  have amount: "0 \<le> amount" "amount \<le> BigInt (jr_max_amount j)"
    and committed: "committed = amounts rs + amount - BigInt (rr_amount r)"
    and attempts: "0 \<le> attempts" "attempts \<le> jr_max_attempts j"
      "status = Active \<Longrightarrow> attempts < jr_max_attempts j"
      "int (paid_count rs) + (if result_outcome res = RunPaid then 1 else 0) + (if 0 < attempts then 1 else 0) \<le> jr_run_count j"
    using sr jok att res by (auto simp: settle_result_def job_ok_def result_outcome_def split: ScheduledResult.splits if_splits)
  have st: "final_status (job j) status next_at attempts committed = Active \<Longrightarrow> status = Active"
    by (auto simp: final_status_def Let_def split: if_splits)
  have all: "\<forall>q \<in> set ?rs. run_ok ?j q"
    using jok amount by (auto simp: job_ok_def run_ok_def set_update_where)
  show ?thesis
    using jok sums landed amount committed attempts st all res
    unfolding job_ok_def by simp
qed

lemma sched_finish_cases:
  assumes "sched_finish db runId res now = Inr db'"
  obtains (again) r where "find (\<lambda>r. rr_id r = runId) (job_runs db) = Some r" "\<not> in_flight r" "db' = db"
  | (fresh) r j amount committed status next_at attempts where
      "find (\<lambda>r. rr_id r = runId) (job_runs db) = Some r" "in_flight r" "get_row db (rr_job_id r) = Some j"
      "settle_result (job j) (BigInt (rr_amount r)) res now = Inr (amount, committed, status, next_at, attempts)"
      "db' = (update_job (jr_id j) (\<lambda>q. q\<lparr>jr_status := final_status (job j) status next_at attempts committed,
          jr_committed := String committed, jr_next_at := next_at, jr_attempts := attempts\<rparr>) db)
        \<lparr>job_runs := update_where (\<lambda>q. rr_id q = runId) (finish_run res amount) (job_runs db)\<rparr>"
proof -
  from assms obtain r where r: "find (\<lambda>r. rr_id r = runId) (job_runs db) = Some r"
    by (auto simp: sched_finish_def result_simps split: option.splits)
  show thesis
  proof (cases "in_flight r")
    case False
    then have "db' = db" using assms r by (simp add: sched_finish_def result_simps in_flight_def)
    then show ?thesis by (rule again [OF r False])
  next
    case True
    obtain j where j: "get_row db (rr_job_id r) = Some j"
      using assms r True by (cases "get_row db (rr_job_id r)")
        (simp_all add: sched_finish_def in_flight_def sched_get_def result_simps)
    have now: "safe_time now" using assms by (auto simp: sched_finish_def result_simps safeTime_def)
    have code: "outcome_code (result_code res)"
      using assms r True j now by (cases "outcome_code (result_code res)")
        (simp_all add: sched_finish_def in_flight_def sched_get_def safeTime_def)
    note eq = assms [unfolded sched_finish_def safeTime_def, simplified now code r j ensure_simps ebind_simps sched_get_def,
        simplified True [unfolded in_flight_def] r]
    obtain amount committed status next_at attempts where
      sr: "settle_result (job j) (BigInt (rr_amount r)) res now = Inr (amount, committed, status, next_at, attempts)"
      using eq j code True [unfolded in_flight_def] by (cases "settle_result (job j) (BigInt (rr_amount r)) res now") auto
    then have "db' = (update_job (jr_id j) (\<lambda>q. q\<lparr>jr_status := final_status (job j) status next_at attempts committed,
          jr_committed := String committed, jr_next_at := next_at, jr_attempts := attempts\<rparr>) db)
        \<lparr>job_runs := update_where (\<lambda>q. rr_id q = runId) (finish_run res amount) (job_runs db)\<rparr>"
      using eq j code True [unfolded in_flight_def] by (simp add: Let_def update_job_def finish_run_def [abs_def])
    note sr this
    then show ?thesis by (rule fresh [OF r True j])
  qed
qed

lemma runs_of_update:
  assumes "distinct (map rr_id rs)" "r \<in> set rs"
  shows "runs_of (update_where (\<lambda>q. rr_id q = rr_id r) (finish_run res a) rs) k
    = (if k = rr_job_id r then update_where (\<lambda>q. rr_id q = rr_id r) (finish_run res a) (runs_of rs k) else runs_of rs k)"
proof -
  have "runs_of (update_where (\<lambda>q. rr_id q = rr_id r) (finish_run res a) rs) k
      = update_where (\<lambda>q. rr_id q = rr_id r) (finish_run res a) (runs_of rs k)"
    unfolding runs_of_def by (rule filter_update_where) simp
  moreover have "rr_id r \<notin> rr_id ` set (runs_of rs k)" if "k \<noteq> rr_job_id r"
    using that assms by (auto simp: runs_of_def distinct_map dest: inj_onD)
  ultimately show ?thesis by (simp add: update_where_absent)
qed

lemma sched_finish_ok:
  assumes ok: "sched_ok db" and f: "sched_finish db runId res now = Inr db'"
  shows "sched_ok db'"
  using f
proof (cases rule: sched_finish_cases)
  case (again r)
  then show ?thesis using ok by simp
next
  case (fresh r j amount committed status next_at attempts)
  have r: "r \<in> set (job_runs db)" "rr_id r = runId" using find_Some_iff_ex [OF fresh(1)] by auto
  have j: "j \<in> set (jobs db)" "jr_id j = rr_job_id r" using get_row_Some [OF fresh(3)] by auto
  have d: "distinct (map rr_id (job_runs db))" using ok by (simp add: sched_ok_def)
  have jok: "job_ok (runs_of (job_runs db) (jr_id j)) j" using ok j(1) by (simp add: sched_ok_def)
  have ids: "map rr_id (update_where (\<lambda>q. rr_id q = runId) (finish_run res amount) (job_runs db)) = map rr_id (job_runs db)"
    "map rr_job_id (update_where (\<lambda>q. rr_id q = runId) (finish_run res amount) (job_runs db)) = map rr_job_id (job_runs db)"
    by (rule map_update_where_id, simp)+
  show ?thesis
    unfolding fresh(5)
  proof (rule sched_ok_update [OF ok j(1) refl])
    show "distinct (map rr_id (update_where (\<lambda>q. rr_id q = runId) (finish_run res amount) (job_runs db)))"
      using d ids by simp
    show "rr_job_id ` set (update_where (\<lambda>q. rr_id q = runId) (finish_run res amount) (job_runs db)) \<subseteq> jr_id ` set (jobs db)"
      using ok ids(2) [THEN arg_cong, of set] by (simp add: sched_ok_def)
    show "runs_of (update_where (\<lambda>q. rr_id q = runId) (finish_run res amount) (job_runs db)) k = runs_of (job_runs db) k"
      if "k \<noteq> jr_id j" for k
      using that j runs_of_update [OF d r(1)] r(2) by simp
    have "job_ok (update_where (\<lambda>q. rr_id q = rr_id r) (finish_run res amount) (runs_of (job_runs db) (jr_id j)))
       (j\<lparr>jr_status := final_status (job j) status next_at attempts committed, jr_committed := String committed,
        jr_next_at := next_at, jr_attempts := attempts\<rparr>)"
      using d r(1) fresh(2) j
      by (intro job_ok_finish [OF jok _ _ _ fresh(4)]) (simp_all add: runs_of_def distinct_map_filter)
    then show "job_ok (runs_of (update_where (\<lambda>q. rr_id q = runId) (finish_run res amount) (job_runs db)) (jr_id j))
       (j\<lparr>jr_status := final_status (job j) status next_at attempts committed, jr_committed := String committed,
        jr_next_at := next_at, jr_attempts := attempts\<rparr>)"
      using runs_of_update [OF d r(1)] r(2) j(2) by simp
  qed simp
qed

section \<open>Every sequence of operations\<close>

inductive sched_step :: "sched_db \<Rightarrow> sched_db \<Rightarrow> bool" where
  step_add: "sched_add db j = Inr (out, db') \<Longrightarrow> sched_step db db'"
| step_claim: "sched_claim db i now = Inr (claimed, db') \<Longrightarrow> sched_step db db'"
| step_finish: "sched_finish db runId res now = Inr db' \<Longrightarrow> sched_step db db'"
| step_cancel: "sched_cancel db i = Inr db' \<Longrightarrow> sched_step db db'"

inductive_cases sched_stepE: "sched_step db db'"

definition empty_schedule :: sched_db where
  "empty_schedule = \<lparr>jobs = [], job_runs = []\<rparr>"

lemma sched_step_ok: "sched_step db db' \<Longrightarrow> sched_ok db \<Longrightarrow> sched_ok db'"
  by (erule sched_stepE) (blast intro: sched_add_ok sched_claim_ok sched_finish_ok sched_cancel_ok)+

lemma sched_steps_ok: "sched_step\<^sup>*\<^sup>* db db' \<Longrightarrow> sched_ok db \<Longrightarrow> sched_ok db'"
  by (induction rule: rtranclp_induct) (auto intro: sched_step_ok)

lemma empty_schedule_ok: "sched_ok empty_schedule"
  by (simp add: empty_schedule_def sched_ok_def)

text \<open>A job that is not active and has nothing in flight: nothing reactivates it.\<close>

definition dormant :: "sched_db \<Rightarrow> string \<Rightarrow> bool" where
  "dormant db i \<longleftrightarrow> (\<exists>r. get_row db i = Some r \<and> jr_status r \<noteq> Active) \<and>
     filter in_flight (runs_of (job_runs db) i) = []"

lemma get_row_update_job:
  "(\<And>q. jr_id (f q) = jr_id q) \<Longrightarrow> get_row db i = Some r \<Longrightarrow>
   get_row (update_job k f db) i = Some (if i = k then f r else r)"
  using get_row_Some [of db i r] unfolding get_row_def update_job_def by (simp add: find_update_where)

lemma get_row_runs [simp]: "get_row (db\<lparr>job_runs := rs\<rparr>) i = get_row db i"
  by (simp add: get_row_def)

lemma job_runs_update_job [simp]: "job_runs (update_job k f db) = job_runs db"
  by (simp add: update_job_def)

lemma dormant_claim:
  assumes "dormant db i" "sched_claim db k now = Inr (out, db')"
  shows "dormant db' i \<and> (k = i \<longrightarrow> out = None)"
  using assms(2)
proof (cases rule: sched_claim_cases)
  case (claimed r row j)
  have "k \<noteq> i" using claimed(1,2) assms(1) by (auto simp: dormant_def)
  moreover have "rr_job_id row = k" unfolding claimed(8) by simp
  ultimately show ?thesis
    using assms(1) unfolding claimed(9) dormant_def
    by (auto simp: get_row_update_job runs_of_append)
next
  case (exhausted r)
  then show ?thesis using assms(1) by (auto simp: dormant_def get_row_update_job)
qed (use assms(1) in simp)

lemma dormant_finish:
  assumes ok: "sched_ok db" and dor: "dormant db i" and f: "sched_finish db runId res now = Inr db'"
  shows "dormant db' i"
  using f
proof (cases rule: sched_finish_cases)
  case (fresh r j amount committed status next_at attempts)
  have r: "r \<in> set (job_runs db)" "rr_id r = runId" using find_Some_iff_ex [OF fresh(1)] by auto
  have d: "distinct (map rr_id (job_runs db))" using ok by (simp add: sched_ok_def)
  have "rr_job_id r \<noteq> i" using dor fresh(2) r(1) by (auto simp: dormant_def filter_empty_conv runs_of_def)
  moreover have "jr_id j = rr_job_id r" using get_row_Some [OF fresh(3)] by simp
  ultimately show ?thesis
    using dor runs_of_update [OF d r(1), of res amount i] r(2) unfolding fresh(5) dormant_def
    by (auto simp: get_row_update_job)
qed (use dor in simp)

lemma dormant_add:
  assumes "dormant db i" "sched_add db j = Inr (out, db')"
  shows "dormant db' i"
proof -
  obtain row where "db' = db\<lparr>jobs := jobs db @ [row]\<rparr>"
    using assms(2) by (auto simp: sched_add_def result_simps Let_def split: if_splits)
  then show ?thesis using assms(1) by (auto simp: dormant_def get_row_def find_append_key)
qed

lemma dormant_cancel:
  assumes "dormant db i" "sched_cancel db k = Inr db'"
  shows "dormant db' i"
proof -
  have "db' = update_job k (\<lambda>r. r\<lparr>jr_status := Cancelled\<rparr>) db"
    using assms(2) by (auto simp: sched_cancel_def split: option.splits)
  then show ?thesis using assms(1) by (auto simp: dormant_def get_row_update_job)
qed

lemma dormant_step: "sched_step db db' \<Longrightarrow> sched_ok db \<Longrightarrow> dormant db i \<Longrightarrow> dormant db' i"
  by (erule sched_stepE) (auto dest: dormant_add dormant_claim dormant_finish dormant_cancel)

lemma dormant_steps: "sched_step\<^sup>*\<^sup>* db db' \<Longrightarrow> sched_ok db \<Longrightarrow> dormant db i \<Longrightarrow> dormant db' i"
  by (induction rule: rtranclp_induct) (auto intro: dormant_step sched_steps_ok)

section \<open>Properties\<close>

definition sample_schedule :: PaymentSchedule where
  "sample_schedule = \<lparr>ps_id = ''j'', ps_resourcePath = ''/a'', ps_payTo = ''0x'' @ replicate 40 CHR ''1'',
     ps_maxAmountBase = 5, ps_maxTotalBase = 8, ps_maxRuns = 3, ps_startsAt = 1000, ps_endsAt = 9000,
     ps_intervalMs = 1000, ps_maxAttempts = 2, ps_retryDelayMs = 1000\<rparr>"

definition sample_job :: JobRow where
  "sample_job = \<lparr>jr_id = ''j'', jr_resource_path = ''/a'', jr_pay_to = ''0x'' @ replicate 40 CHR ''1'',
     jr_max_amount = String 5, jr_max_total = String 8, jr_max_runs = 3, jr_starts_at = 1000, jr_ends_at = 9000,
     jr_interval_ms = 1000, jr_max_attempts = 2, jr_retry_delay_ms = 1000, jr_status = Active,
     jr_next_at = 1000, jr_run_count = 0, jr_attempts = 0, jr_committed = ''0''\<rparr>"

definition sample_run_row :: RunRow where
  "sample_run_row = \<lparr>rr_id = 1, rr_job_id = ''j'', rr_at = 1500, rr_attempt = 1, rr_outcome = RunUnknown,
     rr_amount = String 5, rr_code = ''IN_PROGRESS_OR_INTERRUPTED'', rr_tx_hash = None, rr_finished = 0\<rparr>"

definition sample_added :: sched_db where
  "sample_added = \<lparr>jobs = [sample_job], job_runs = []\<rparr>"

definition sample_claimed :: sched_db where
  "sample_claimed = \<lparr>jobs = [sample_job\<lparr>jr_status := Paused, jr_committed := String 5, jr_run_count := 1,
     jr_attempts := 1\<rparr>], job_runs = [sample_run_row]\<rparr>"

lemma toLowerCase_ones: "toLowerCase (''0x'' @ replicate 40 CHR ''1'') = ''0x'' @ replicate 40 CHR ''1''"
  by (simp add: toLowerCase_def to_lower_char_def is_upper_def char_between_def)

lemma sample_schedule_valid: "validate_schedule sample_schedule = Inr ()"
proof -
  have "hex_literal is_hex 40 (''0x'' @ replicate 40 CHR ''1'')"
    by (simp add: hex_literal_def char_class_defs list_all_iff)
  moreover have "''0x'' @ replicate 40 CHR ''1'' \<noteq> zero_address" by (simp add: zero_address_def)
  moreover have "schedule_id ''j''" "resource_path ''/a''"
    by (simp_all add: schedule_id_def resource_path_def char_class_defs)
  ultimately show ?thesis
    by (simp add: validate_schedule_def sample_schedule_def safeTime_def safe_time_def isSafeInteger_def
        MAX_SAFE_INTEGER_def)
qed

lemma sample_added_step: "sched_step empty_schedule sample_added"
  using toLowerCase_ones sample_schedule_valid
  by (intro step_add [of _ sample_schedule "job sample_job"])
    (simp add: sched_add_def empty_schedule_def sample_added_def sample_job_def sample_schedule_def Let_def)

lemma sample_claim_eq: "\<exists>j. sched_claim sample_added ''j'' 1500 = Inr (Some (j, run sample_run_row), sample_claimed)"
  by (simp add: sched_claim_def sample_added_def sample_claimed_def sample_job_def sample_run_row_def safeTime_def
      safe_time_def isSafeInteger_def MAX_SAFE_INTEGER_def sched_get_def get_row_def claim_exhausted_def
      update_job_def update_where_def next_rowid_def Let_def)

lemma sample_claimed_run: "sched_step\<^sup>*\<^sup>* empty_schedule sample_claimed"
proof -
  obtain j where "sched_claim sample_added ''j'' 1500 = Inr (Some (j, run sample_run_row), sample_claimed)"
    using sample_claim_eq by blast
  then have "sched_step sample_added sample_claimed" by (rule step_claim)
  then show ?thesis using sample_added_step by simp
qed

lemma sample_claimed_fields: "jobs sample_claimed = [sample_job\<lparr>jr_status := Paused, jr_committed := String 5, jr_run_count := 1,
     jr_attempts := 1\<rparr>]" "job_runs sample_claimed = [sample_run_row]" "jr_id sample_job = ''j''"
  "in_flight sample_run_row" "rr_job_id sample_run_row = ''j''" "rr_id sample_run_row = 1"
  by (simp_all add: sample_claimed_def sample_job_def sample_run_row_def in_flight_def)

text \<open>C8: a schedule never spends past its caps. In every state its operations can reach, a job
  has committed exactly the money of its runs and no more than its total; no run is above the
  per-payment cap; the slots used and the paid runs are within \<^verbatim>\<open>maxRuns\<close>; the attempts within
  \<^verbatim>\<open>maxAttempts\<close>.\<close>

theorem schedule_caps_hold:
  assumes "sched_step\<^sup>*\<^sup>* empty_schedule db" and "j \<in> set (jobs db)"
  defines "rs \<equiv> runs_of (job_runs db) (jr_id j)"
  shows "BigInt (jr_committed j) = amounts rs \<and> amounts rs \<le> BigInt (jr_max_total j) \<and>
    (\<forall>r \<in> set rs. BigInt (rr_amount r) \<le> BigInt (jr_max_amount j)) \<and>
    int (paid_count rs) \<le> jr_run_count j \<and> jr_run_count j \<le> jr_max_runs j \<and>
    jr_attempts j \<le> jr_max_attempts j"
proof -
  have "job_ok rs j"
    using sched_steps_ok [OF assms(1) empty_schedule_ok] assms(2) by (simp add: sched_ok_def rs_def)
  then show ?thesis by (auto simp: job_ok_def run_ok_def split: if_splits)
qed

theorem schedule_caps_hold_witness:
  "amounts (runs_of (job_runs sample_claimed) ''j'') \<le> 8"
  using schedule_caps_hold [OF sample_claimed_run, of "hd (jobs sample_claimed)"]
  by (simp add: sample_claimed_fields)

text \<open>C9: one payment at a time. While a run of a job is unfinished (the process that claimed it
  may be paying, or may have crashed) no claim of that job is granted, in any reachable state
  and at any time.\<close>

theorem no_second_claim_in_flight:
  assumes "sched_step\<^sup>*\<^sup>* empty_schedule db" and "r \<in> set (job_runs db)" and "rr_finished r = 0"
    and "sched_claim db (rr_job_id r) now = Inr (out, db')"
  shows "out = None"
  using assms(4)
proof (cases rule: sched_claim_cases)
  case (claimed q row j)
  have "job_ok (runs_of (job_runs db) (jr_id q)) q" "jr_id q = rr_job_id r"
    using sched_steps_ok [OF assms(1) empty_schedule_ok] get_row_Some [OF claimed(1)] by (auto simp: sched_ok_def)
  then have "filter in_flight (runs_of (job_runs db) (rr_job_id r)) = []"
    using claimed(2) by (simp add: job_ok_def)
  then show ?thesis using assms(2,3) by (auto simp: runs_of_def filter_empty_conv in_flight_def)
qed auto

theorem no_second_claim_in_flight_witness:
  "\<exists>db'. sched_claim sample_claimed ''j'' 5000 = Inr (None, db')"
proof -
  have "\<exists>out db'. sched_claim sample_claimed ''j'' 5000 = Inr (out, db')"
    by (simp add: sched_claim_def sample_claimed_fields safeTime_def safe_time_def isSafeInteger_def
        MAX_SAFE_INTEGER_def sched_get_def get_row_def)
  then show ?thesis
    using no_second_claim_in_flight [OF sample_claimed_run, of sample_run_row 5000]
    by (auto simp: sample_claimed_fields sample_run_row_def)
qed

text \<open>An outcome nobody can name stops the job. Once a run in flight is finished as
  \<^verbatim>\<open>unknown\<close> (the payment may or may not have moved), no claim of that job is ever granted
  again, whatever else happens to the schedule.\<close>

theorem unknown_outcome_stops_job:
  assumes "sched_step\<^sup>*\<^sup>* empty_schedule db" and "r \<in> set (job_runs db)" and "rr_finished r = 0"
    and "sched_finish db (rr_id r) (ResultUnknown code) now = Inr db1"
    and "sched_step\<^sup>*\<^sup>* db1 db2" and "sched_claim db2 (rr_job_id r) now2 = Inr (out, db3)"
  shows "out = None"
proof -
  have ok: "sched_ok db" using sched_steps_ok [OF assms(1) empty_schedule_ok] .
  then have d: "distinct (map rr_id (job_runs db))" by (simp add: sched_ok_def)
  have "dormant db1 (rr_job_id r)"
    using assms(4)
  proof (cases rule: sched_finish_cases)
    case (again q)
    then show ?thesis using find_distinct [OF d assms(2)] assms(3) by (simp add: in_flight_def)
  next
    case (fresh q j amount committed status next_at attempts)
    have q: "q = r" using fresh(1) find_distinct [OF d assms(2)] by simp
    have j: "j \<in> set (jobs db)" "jr_id j = rr_job_id r" using get_row_Some [OF fresh(3)] q by auto
    have "status \<noteq> Active" using fresh(4) by (simp add: settle_result_def)
    then have st: "final_status (job j) status next_at attempts committed \<noteq> Active" by (simp add: final_status_def)
    have jok: "job_ok (runs_of (job_runs db) (rr_job_id r)) j" using ok j by (auto simp: sched_ok_def)
    have "filter in_flight (runs_of (job_runs db1) (rr_job_id r)) = []"
    proof -
      have "x = r" if "x \<in> set (runs_of (job_runs db) (rr_job_id r))" "in_flight x" for x
      proof -
        have "x \<in> set (filter in_flight (runs_of (job_runs db) (rr_job_id r)))"
          "r \<in> set (filter in_flight (runs_of (job_runs db) (rr_job_id r)))"
          using that assms(2,3) by (auto simp: runs_of_def in_flight_def)
        then show ?thesis
          using jok by (cases "filter in_flight (runs_of (job_runs db) (rr_job_id r))") (auto simp: job_ok_def)
      qed
      then show ?thesis
        unfolding fresh(5) by (auto simp: runs_of_update [OF d assms(2)] filter_empty_conv set_update_where)
    qed
    then show ?thesis
      using fresh(3) st j(2) q unfolding dormant_def by (simp add: fresh(5) get_row_update_job)
  qed
  then have "dormant db2 (rr_job_id r)"
    using dormant_steps [OF assms(5)] sched_finish_ok [OF ok assms(4)] by blast
  then show ?thesis using dormant_claim [OF _ assms(6)] by blast
qed

theorem unknown_outcome_stops_job_witness:
  "\<exists>db1 db2. sched_finish sample_claimed 1 (ResultUnknown ''TIMEOUT'') 2000 = Inr db1 \<and>
     sched_claim db1 ''j'' 4000 = Inr (None, db2)"
proof -
  have code: "outcome_code ''TIMEOUT''" by (simp add: outcome_code_def char_class_defs)
  then obtain db1 where f: "sched_finish sample_claimed 1 (ResultUnknown ''TIMEOUT'') 2000 = Inr db1"
    by (simp add: sched_finish_def sample_claimed_fields safeTime_def safe_time_def isSafeInteger_def
        MAX_SAFE_INTEGER_def sched_get_def get_row_def result_code_def settle_result_def Let_def in_flight_def sample_run_row_def)
  have ok: "sched_ok db1"
    using sched_finish_ok [OF sched_steps_ok [OF sample_claimed_run empty_schedule_ok] f] .
  have "\<exists>out db2. sched_claim db1 ''j'' 4000 = Inr (out, db2)"
  proof (cases "sched_get db1 ''j''")
    case None
    then show ?thesis
      by (simp add: sched_claim_def safeTime_def safe_time_def isSafeInteger_def MAX_SAFE_INTEGER_def)
  next
    case (Some j)
    then show ?thesis
      by (auto simp: sched_claim_def safeTime_def safe_time_def isSafeInteger_def MAX_SAFE_INTEGER_def Let_def
          sched_get_def get_row_update_job split: option.splits)
  qed
  then obtain out db2 where c: "sched_claim db1 ''j'' 4000 = Inr (out, db2)" by blast
  have "out = None"
    using unknown_outcome_stops_job [OF sample_claimed_run, of sample_run_row "''TIMEOUT''" 2000 db1 db1 4000 out db2] f c
    by (simp add: sample_claimed_fields sample_run_row_def)
  then show ?thesis using f c by blast
qed

text \<open>Missed slots are skipped, never caught up. After a paid run the next slot is on the
  job's grid, strictly in the future and at most one interval away.\<close>

theorem next_slot_on_grid:
  assumes "0 < ps_intervalMs j"
  shows "now < next_slot j now \<and> next_slot j now \<le> now + ps_intervalMs j \<and>
    (next_slot j now - ps_startsAt j) mod ps_intervalMs j = 0"
proof -
  define q where "q = (now - ps_startsAt j) div ps_intervalMs j"
  have split: "now - ps_startsAt j = q * ps_intervalMs j + (now - ps_startsAt j) mod ps_intervalMs j"
    by (simp add: q_def)
  have "0 \<le> (now - ps_startsAt j) mod ps_intervalMs j" "(now - ps_startsAt j) mod ps_intervalMs j < ps_intervalMs j"
    using assms by simp_all
  then show ?thesis using split unfolding next_slot_def q_def [symmetric] by (simp add: algebra_simps)
qed

theorem next_slot_on_grid_witness:
  "5300 < next_slot (job sample_job) 5300 \<and> next_slot (job sample_job) 5300 = 6000"
  using next_slot_on_grid [of "job sample_job" 5300] by (simp add: sample_job_def next_slot_def)

text \<open>A run is finished once. Finishing a run again, with whatever result, changes nothing:
  the committed money, the slot and the outcome stay those of the first completion.\<close>

theorem sched_finish_once:
  assumes "sched_finish db runId res now = Inr db'" and "0 \<le> now'" and "now' \<le> 8640000000000000"
  shows "sched_finish db' runId res' now' = Inr db'"
proof -
  have "\<exists>r. find (\<lambda>r. rr_id r = runId) (job_runs db') = Some r \<and> rr_finished r \<noteq> 0"
    using assms(1)
  proof (cases rule: sched_finish_cases)
    case (again r)
    then show ?thesis by (simp add: in_flight_def)
  next
    case (fresh r j amount committed status next_at attempts)
    have "find (\<lambda>q. rr_id q = runId) (update_where (\<lambda>q. rr_id q = runId) (finish_run res amount) (job_runs db))
        = Some (finish_run res amount r)"
      using fresh(1) find_Some_iff_ex [OF fresh(1)]
        find_update_where [of rr_id "finish_run res amount" runId "\<lambda>q. rr_id q = runId" "job_runs db"] by simp
    then show ?thesis unfolding fresh(5) by simp
  qed
  then show ?thesis
    using assms(2,3)
    by (auto simp: sched_finish_def safeTime_def safe_time_def isSafeInteger_def MAX_SAFE_INTEGER_def)
qed

theorem sched_finish_once_witness:
  "\<exists>db'. sched_finish sample_claimed 1 (ResultUnpaid ''DECLINED'' False) 2000 = Inr db' \<and>
     sched_finish db' 1 (ResultPaid 5 None) 3000 = Inr db'"
proof -
  have code: "outcome_code ''DECLINED''" by (simp add: outcome_code_def char_class_defs)
  then obtain db' where f: "sched_finish sample_claimed 1 (ResultUnpaid ''DECLINED'' False) 2000 = Inr db'"
    by (simp add: sched_finish_def sample_claimed_fields safeTime_def safe_time_def isSafeInteger_def
        MAX_SAFE_INTEGER_def sched_get_def get_row_def result_code_def settle_result_def Let_def in_flight_def sample_run_row_def)
  then show ?thesis using sched_finish_once [OF f, of 3000 "ResultPaid 5 None"] by auto
qed

end
