(* ===== verification/Rate_Limit.thy ===== *)
theory Rate_Limit
  imports Prelude
begin

text \<open>
  The fixed-window rate limiter (\<^verbatim>\<open>FixedWindowLimiter\<close> of
  \<^verbatim>\<open>packages/delegation/src/account-bootstrap.ts\<close>) and the facilitator's per-address
  middleware around it (\<^verbatim>\<open>rateLimitByIp\<close> of \<^verbatim>\<open>apps/facilitator-erc7710/guards.ts\<close>). The
  bound its comment states, at most twice the limit in any stretch of one window, is proved
  for every interleaving of keys and sweeps under a clock that does not go back.
\<close>

section \<open>The limiter\<close>

record hit =
  hit_count :: int
  hit_resetAt :: int

record limiter =
  lim_limit :: int
  lim_windowMs :: int
  lim_hits :: "string \<rightharpoonup> hit"

text \<open>Arguments that are not integers are outside the type; the code refuses them the same way.\<close>

definition new_limiter :: "int \<Rightarrow> int \<Rightarrow> limiter result" where
  "new_limiter limit windowMs =
     (if limit < 1 then Inl (Error ''limit must be a positive integer'')
      else if windowMs < 1 then Inl (Error ''windowMs must be a positive integer'')
      else Inr \<lparr>lim_limit = limit, lim_windowMs = windowMs, lim_hits = Map.empty\<rparr>)"

definition fresh_window :: "limiter \<Rightarrow> string \<Rightarrow> int \<Rightarrow> limiter" where
  "fresh_window l key now =
     l\<lparr>lim_hits := (lim_hits l)(key \<mapsto> \<lparr>hit_count = 1, hit_resetAt = now + lim_windowMs l\<rparr>)\<rparr>"

definition tryConsume :: "limiter \<Rightarrow> string \<Rightarrow> int \<Rightarrow> bool \<times> limiter" where
  "tryConsume l key now = (case lim_hits l key of
     None \<Rightarrow> (True, fresh_window l key now)
   | Some e \<Rightarrow>
       if hit_resetAt e \<le> now then (True, fresh_window l key now)
       else if lim_limit l \<le> hit_count e then (False, l)
       else (True, l\<lparr>lim_hits := (lim_hits l)(key \<mapsto> e\<lparr>hit_count := hit_count e + 1\<rparr>)\<rparr>))"

definition sweep :: "limiter \<Rightarrow> int \<Rightarrow> limiter" where
  "sweep l now = l\<lparr>lim_hits := (\<lambda>k. case lim_hits l k of
     None \<Rightarrow> None | Some e \<Rightarrow> if hit_resetAt e \<le> now then None else Some e)\<rparr>"

section \<open>The middleware\<close>

definition RATE_WINDOW_MS :: int where
  "RATE_WINDOW_MS = 3600000"

definition SWEEP_EVERY :: int where
  "SWEEP_EVERY = 256"

record rate_state =
  rs_limiter :: limiter
  rs_counted :: int

text \<open>
  The two headers as they arrived, \<^verbatim>\<open>cf-connecting-ip\<close> first; \<open>bucket\<close> is \<^verbatim>\<open>ipBucket\<close>. The
  result says whether the request goes on to the next handler.
\<close>

definition rateLimitByIp ::
    "(string \<Rightarrow> string) \<Rightarrow> rate_state \<Rightarrow> string option \<Rightarrow> string option \<Rightarrow> int \<Rightarrow> bool \<times> rate_state" where
  "rateLimitByIp bucket st cf_ip client_ip now =
     (case (case cf_ip of Some ip \<Rightarrow> Some ip | None \<Rightarrow> client_ip) of
        None \<Rightarrow> (True, st)
      | Some ip \<Rightarrow>
          let counted = rs_counted st + 1;
              l = (if counted mod SWEEP_EVERY = 0 then sweep (rs_limiter st) now else rs_limiter st);
              (ok, l') = tryConsume l (''ip:'' @ bucket ip) now
          in (ok, \<lparr>rs_limiter = l', rs_counted = counted\<rparr>))"

section \<open>The bound\<close>

text \<open>What the limiter is asked, in order: a call under some key, or a sweep.\<close>

datatype limiter_op = Consume string int | Sweep int

fun op_time :: "limiter_op \<Rightarrow> int" where
  "op_time (Consume _ t) = t"
| "op_time (Sweep t) = t"

fun limiter_step :: "limiter \<Rightarrow> limiter_op \<Rightarrow> limiter" where
  "limiter_step l (Consume k t) = snd (tryConsume l k t)"
| "limiter_step l (Sweep t) = sweep l t"

text \<open>How many calls under a key are admitted before a given time.\<close>

fun admitted :: "string \<Rightarrow> int \<Rightarrow> limiter \<Rightarrow> limiter_op list \<Rightarrow> int" where
  "admitted k hi l [] = 0"
| "admitted k hi l (a # as) =
     (case a of Consume k' t \<Rightarrow> if k' = k \<and> t < hi \<and> fst (tryConsume l k' t) then 1 else 0 | Sweep _ \<Rightarrow> 0)
       + admitted k hi (limiter_step l a) as"

lemma limiter_step_params [simp]:
  "lim_limit (limiter_step l a) = lim_limit l" "lim_windowMs (limiter_step l a) = lim_windowMs l"
  by (cases a; auto simp: tryConsume_def fresh_window_def sweep_def split: option.splits)+

lemma tryConsume_params [simp]:
  "lim_limit (snd (tryConsume l k t)) = lim_limit l" "lim_windowMs (snd (tryConsume l k t)) = lim_windowMs l"
  using limiter_step_params [of l "Consume k t"] by simp_all

lemma tryConsume_other: "k' \<noteq> k \<Longrightarrow> lim_hits (snd (tryConsume l k' t)) k = lim_hits l k"
  by (auto simp: tryConsume_def fresh_window_def split: option.splits)

lemma admitted_late: "\<forall>a \<in> set as. hi \<le> op_time a \<Longrightarrow> admitted k hi l as = 0"
  by (induction as arbitrary: l) (auto split: limiter_op.splits)

text \<open>Entries keep a count between 1 and the limit.\<close>

definition counts_ok :: "limiter \<Rightarrow> bool" where
  "counts_ok l \<longleftrightarrow> 1 \<le> lim_limit l \<and> 1 \<le> lim_windowMs l \<and>
     (\<forall>k e. lim_hits l k = Some e \<longrightarrow> 1 \<le> hit_count e \<and> hit_count e \<le> lim_limit l)"

lemma counts_okD:
  assumes "counts_ok l"
  shows "1 \<le> lim_limit l" "1 \<le> lim_windowMs l"
    "lim_hits l k = Some e \<Longrightarrow> 1 \<le> hit_count e" "lim_hits l k = Some e \<Longrightarrow> hit_count e \<le> lim_limit l"
  using assms by (auto simp: counts_ok_def)

lemma counts_ok_step:
  assumes "counts_ok l" shows "counts_ok (limiter_step l a)"
proof -
  have "1 \<le> hit_count e \<and> hit_count e \<le> lim_limit l" if "lim_hits (limiter_step l a) k = Some e" for k e
    using that counts_okD [OF assms]
    by (cases a) (fastforce simp: tryConsume_def fresh_window_def sweep_def
      split: option.splits if_splits)+
  then show ?thesis using counts_okD(1,2) [OF assms] by (simp add: counts_ok_def)
qed

text \<open>What is left of the current window, and nothing after its reset before \<open>hi\<close>.\<close>

lemma admitted_window:
  assumes "counts_ok l" "lim_hits l k = Some e" "hi \<le> hit_resetAt e" "sorted (map op_time as)"
  shows "admitted k hi l as \<le> lim_limit l - hit_count e"
  using assms
proof (induction as arbitrary: l e)
  case Nil
  then show ?case by (auto simp: counts_ok_def)
next
  case (Cons a as)
  show ?case
  proof (cases "hi \<le> op_time a")
    case True
    then have "admitted k hi l (a # as) = 0" using Cons.prems(4) by (intro admitted_late) auto
    then show ?thesis using Cons.prems(1,2) by (auto simp: counts_ok_def)
  next
    case False
    note ok = counts_ok_step [OF Cons.prems(1), of a]
    show ?thesis
    proof (cases a)
      case (Sweep t)
      then have "lim_hits (limiter_step l a) k = Some e" using Cons.prems(2,3) False by (simp add: sweep_def)
      then show ?thesis using Cons.IH [OF ok _ Cons.prems(3)] Cons.prems(4) Sweep by (simp add: sweep_def)
    next
      case (Consume k' t)
      show ?thesis
      proof (cases "k' = k")
        case False
        then have "lim_hits (limiter_step l a) k = Some e"
          using Cons.prems(2) Consume by (simp add: tryConsume_other)
        then show ?thesis using Cons.IH [OF ok _ Cons.prems(3)] Cons.prems(4) Consume False
          limiter_step_params [of l a] by simp
      next
        case same: True
        show ?thesis
        proof (cases "lim_limit l \<le> hit_count e")
          case True
          then have "tryConsume l k t = (False, l)"
            using Cons.prems(2,3) False Consume by (simp add: tryConsume_def)
          then show ?thesis using Cons.IH [OF Cons.prems(1-3)] Cons.prems(4) Consume same by simp
        next
          case room: False
          let ?e = "e\<lparr>hit_count := hit_count e + 1\<rparr>"
          have t: "tryConsume l k t = (True, l\<lparr>lim_hits := (lim_hits l)(k \<mapsto> ?e)\<rparr>)"
            using Cons.prems(2,3) False Consume room by (simp add: tryConsume_def)
          then have "admitted k hi (limiter_step l a) as \<le> lim_limit l - (hit_count e + 1)"
            using Cons.IH [OF ok, of ?e] Cons.prems(3,4) Consume same by simp
          then show ?thesis using t Consume same by simp
        qed
      qed
    qed
  qed
qed

lemma admitted_two_windows:
  assumes "counts_ok l" "sorted (map op_time as)" "\<forall>a \<in> set as. lo \<le> op_time a"
  shows "admitted k (lo + lim_windowMs l) l as \<le> (case lim_hits l k of None \<Rightarrow> lim_limit l
      | Some e \<Rightarrow> 2 * lim_limit l - hit_count e)"
  using assms
proof (induction as arbitrary: l)
  case Nil
  then show ?case using counts_okD(1) [OF Nil.prems(1)] counts_okD(4) [OF Nil.prems(1), of k]
    by (fastforce split: option.splits)
next
  case (Cons a as)
  note ok = counts_ok_step [OF Cons.prems(1), of a]
  note IH = Cons.IH [OF ok]
  have pos: "1 \<le> lim_limit l" "\<And>e. lim_hits l k = Some e \<Longrightarrow> 1 \<le> hit_count e \<and> hit_count e \<le> lim_limit l"
    using Cons.prems(1) by (auto simp: counts_ok_def)
  show ?case
  proof (cases a)
    case (Sweep t)
    have "admitted k (lo + lim_windowMs l) (limiter_step l a) as \<le> (case lim_hits (limiter_step l a) k of
        None \<Rightarrow> lim_limit l | Some e \<Rightarrow> 2 * lim_limit l - hit_count e)"
      using IH Cons.prems(2,3) unfolding limiter_step_params by simp
    then show ?thesis using Sweep pos by (auto simp: sweep_def split: option.splits if_splits)
  next
    case (Consume k' t)
    show ?thesis
    proof (cases "k' = k")
      case False
      have "admitted k (lo + lim_windowMs l) (limiter_step l a) as \<le> (case lim_hits (limiter_step l a) k of
          None \<Rightarrow> lim_limit l | Some e \<Rightarrow> 2 * lim_limit l - hit_count e)"
        using IH Cons.prems(2,3) unfolding limiter_step_params by simp
      then show ?thesis using False Consume by (simp add: tryConsume_other)
    next
      case same: True
      show ?thesis
      proof (cases "case lim_hits l k of None \<Rightarrow> True | Some e \<Rightarrow> hit_resetAt e \<le> t")
        case True
        then have tc: "tryConsume l k t = (True, fresh_window l k t)"
          by (auto simp: tryConsume_def split: option.splits)
        have "lim_hits (limiter_step l a) k = Some \<lparr>hit_count = 1, hit_resetAt = t + lim_windowMs l\<rparr>"
          using tc Consume same by (simp add: fresh_window_def)
        then have "admitted k (lo + lim_windowMs l) (limiter_step l a) as \<le> lim_limit l - 1"
          using admitted_window [OF ok _ _, of k _ "lo + lim_windowMs l" as] Cons.prems(2,3) Consume by simp
        then show ?thesis using tc Consume same pos by (auto split: option.splits)
      next
        case False
        then obtain e where e: "lim_hits l k = Some e" "t < hit_resetAt e" by (auto split: option.splits)
        show ?thesis
        proof (cases "lim_limit l \<le> hit_count e")
          case True
          then have "tryConsume l k t = (False, l)" using e by (simp add: tryConsume_def)
          then show ?thesis using Cons.IH [OF Cons.prems(1)] Cons.prems(2,3) Consume same by simp
        next
          case room: False
          have tc: "tryConsume l k t = (True, l\<lparr>lim_hits := (lim_hits l)(k \<mapsto> e\<lparr>hit_count := hit_count e + 1\<rparr>)\<rparr>)"
            using e room by (simp add: tryConsume_def)
          have "admitted k (lo + lim_windowMs l) (limiter_step l a) as \<le> 2 * lim_limit l - (hit_count e + 1)"
            using IH Cons.prems(2,3) tc Consume same by simp
          then show ?thesis using tc Consume same e by simp
        qed
      qed
    qed
  qed
qed

definition sample_limiter :: limiter where
  "sample_limiter = \<lparr>lim_limit = 2, lim_windowMs = 100, lim_hits = Map.empty\<rparr>"

text \<open>C18: a flood is bounded at twice the limit. From any state the limiter can be in, under a
  clock that does not go back and with any interleaving of other keys and sweeps, one key is
  admitted at most twice the limit in any stretch of one window's length.\<close>

theorem limiter_two_windows:
  assumes "counts_ok l" and "sorted (map op_time as)" and "\<forall>a \<in> set as. lo \<le> op_time a"
  shows "admitted k (lo + lim_windowMs l) l as \<le> 2 * lim_limit l"
  using admitted_two_windows [OF assms, of k] counts_okD(1) [OF assms(1)] counts_okD(3) [OF assms(1), of k]
  by (fastforce split: option.splits)

theorem limiter_two_windows_witness:
  "admitted ''a'' 100 sample_limiter [Consume ''a'' 0, Consume ''b'' 5, Consume ''a'' 10, Sweep 20, Consume ''a'' 30] \<le> 4"
  using limiter_two_windows [of sample_limiter
      "[Consume ''a'' 0, Consume ''b'' 5, Consume ''a'' 10, Sweep 20, Consume ''a'' 30]" 0 "''a''"]
  by (simp add: counts_ok_def sample_limiter_def)

text \<open>A refusal costs nothing and is refused for cause. \<^verbatim>\<open>tryConsume\<close> answers false only when
  the key has used its whole limit in a window that is still open, and then the limiter is
  unchanged.\<close>

theorem refused_only_when_full:
  assumes "tryConsume l key now = (False, l')"
  shows "l' = l \<and> (\<exists>e. lim_hits l key = Some e \<and> now < hit_resetAt e \<and> lim_limit l \<le> hit_count e)"
  using assms by (auto simp: tryConsume_def split: option.splits if_splits)

theorem refused_only_when_full_witness:
  "tryConsume (snd (tryConsume (snd (tryConsume sample_limiter ''a'' 0)) ''a'' 1)) ''a'' 2
     = (False, snd (tryConsume (snd (tryConsume sample_limiter ''a'' 0)) ''a'' 1)) \<and>
   (\<exists>e. lim_hits (snd (tryConsume (snd (tryConsume sample_limiter ''a'' 0)) ''a'' 1)) ''a'' = Some e \<and> 2 \<le> hit_count e)"
proof -
  have "tryConsume (snd (tryConsume (snd (tryConsume sample_limiter ''a'' 0)) ''a'' 1)) ''a'' 2
     = (False, snd (tryConsume (snd (tryConsume sample_limiter ''a'' 0)) ''a'' 1))"
    by (simp add: tryConsume_def sample_limiter_def fresh_window_def)
  moreover note refused_only_when_full [OF this]
  ultimately show ?thesis by (auto simp: tryConsume_def sample_limiter_def fresh_window_def)
qed

end
