(* ===== verification/Js_Text.thy ===== *)
theory Js_Text
  imports Prelude
begin

text \<open>
  Text functions of the language that several components share: prefixes and substrings,
  the pieces of regular expressions the code uses, upper case, joining and splitting,
  hexadecimal numerals, and a URL as its parts.
\<close>

section \<open>Prefixes and substrings\<close>

definition starts_with :: "string \<Rightarrow> string \<Rightarrow> bool" where
  "starts_with p s \<longleftrightarrow> take (length p) s = p"

definition ends_with :: "string \<Rightarrow> string \<Rightarrow> bool" where
  "ends_with p s \<longleftrightarrow> length p \<le> length s \<and> drop (length s - length p) s = p"

text \<open>Every way to cut a text in two.\<close>

definition cuts :: "string \<Rightarrow> (string \<times> string) list" where
  "cuts s = map (\<lambda>i. (take i s, drop i s)) [0..<Suc (length s)]"

definition contains :: "string \<Rightarrow> string \<Rightarrow> bool" where
  "contains p s \<longleftrightarrow> list_ex (\<lambda>(_, r). starts_with p r) (cuts s)"

definition is_word :: "char \<Rightarrow> bool" where
  "is_word c \<longleftrightarrow> is_digit c \<or> is_lower c \<or> is_upper c \<or> c = CHR ''_''"

text \<open>\<^verbatim>\<open>\b\<close> between the text before and the text after.\<close>

definition word_boundary :: "string \<Rightarrow> string \<Rightarrow> bool" where
  "word_boundary l r \<longleftrightarrow> (l \<noteq> [] \<and> is_word (last l)) \<noteq> (r \<noteq> [] \<and> is_word (hd r))"

definition is_newline :: "char \<Rightarrow> bool" where
  "is_newline c \<longleftrightarrow> of_char c = (10 :: nat) \<or> of_char c = (13 :: nat)"

definition to_upper_char :: "char \<Rightarrow> char" where
  "to_upper_char c = (if is_lower c then char_of (of_char c - 32 :: nat) else c)"

definition toUpperCase :: "string \<Rightarrow> string" where
  "toUpperCase s = map to_upper_char s"

section \<open>Joining and splitting\<close>

text \<open>\<^verbatim>\<open>xs.join(sep)\<close>.\<close>

fun join_with :: "string \<Rightarrow> string list \<Rightarrow> string" where
  "join_with sep [] = []"
| "join_with sep [s] = s"
| "join_with sep (s # ss) = s @ sep @ join_with sep ss"

abbreviation join_space :: "string list \<Rightarrow> string" where
  "join_space \<equiv> join_with '' ''"

text \<open>\<^verbatim>\<open>s.split(c)\<close> for a separator of one character.\<close>

fun split_char :: "char \<Rightarrow> string \<Rightarrow> string list" where
  "split_char c [] = [[]]"
| "split_char c (x # xs) = (if x = c then [] # split_char c xs
     else (case split_char c xs of [] \<Rightarrow> [[x]] | w # ws \<Rightarrow> (x # w) # ws))"

lemma split_char_nonempty [simp]: "split_char c s \<noteq> []"
  by (induction s) (auto split: list.split)

lemma split_char_append:
  "c \<notin> set w \<Longrightarrow> split_char c (w @ c # s) = w # split_char c s"
  by (induction w) auto

lemma split_char_word: "c \<notin> set w \<Longrightarrow> split_char c w = [w]"
  by (induction w) auto

lemma split_join:
  assumes "ws \<noteq> []" and "\<forall>w \<in> set ws. c \<notin> set w"
  shows "split_char c (join_with [c] ws) = ws"
  using assms
proof (induction "[c]" ws rule: join_with.induct)
  case (3 s t ts)
  then show ?case by (simp add: split_char_append)
qed (auto simp: split_char_word)

lemma join_inj:
  assumes "join_with [c] xs = join_with [c] ys" "xs \<noteq> []" "ys \<noteq> []"
    and "\<forall>w \<in> set xs. c \<notin> set w" "\<forall>w \<in> set ys. c \<notin> set w"
  shows "xs = ys"
  using assms by (metis split_join)

section \<open>Hexadecimal numerals\<close>

definition hex_digit_value :: "char \<Rightarrow> nat" where
  "hex_digit_value c = (if is_digit c then of_char c - 48
     else if is_lower c then of_char c - 87 else of_char c - 55)"

definition hex_value :: "string \<Rightarrow> int" where
  "hex_value s = int (foldl (\<lambda>acc c. 16 * acc + hex_digit_value c) 0 s)"

lemma hex_value_nonneg [simp]: "0 \<le> hex_value s"
  by (simp add: hex_value_def)

lemma hex_value_snoc: "hex_value (s @ [c]) = 16 * hex_value s + int (hex_digit_value c)"
  by (simp add: hex_value_def)


definition hex_char :: "nat \<Rightarrow> char" where
  "hex_char d = (if d < 10 then char_of (48 + d) else char_of (87 + d))"

lemma hex_char_facts:
  assumes "d < 16" shows "is_hex (hex_char d)" "hex_digit_value (hex_char d) = d"
proof -
  consider "d < 10" | "10 \<le> d" "d < 16" using assms by linarith
  then have "is_hex (hex_char d) \<and> hex_digit_value (hex_char d) = d"
    by cases (simp_all add: hex_char_def hex_digit_value_def char_class_defs)
  then show "is_hex (hex_char d)" "hex_digit_value (hex_char d) = d" by simp_all
qed


text \<open>\<^verbatim>\<open>n.toString(16)\<close>.\<close>

fun nat_hex :: "nat \<Rightarrow> string" where
  "nat_hex n = (if n < 16 then [hex_char n] else nat_hex (n div 16) @ [hex_char (n mod 16)])"

declare nat_hex.simps [simp del]

lemma hex_value_nat_hex [simp]: "hex_value (nat_hex n) = int n"
proof (induction n rule: nat_hex.induct)
  case (1 n)
  show ?case
  proof (cases "n < 16")
    case True
    then show ?thesis by (simp add: nat_hex.simps [of n] hex_value_def hex_char_facts)
  next
    case False
    then show ?thesis using 1 by (simp add: nat_hex.simps [of n] hex_value_snoc hex_char_facts of_nat_div of_nat_mod)
  qed
qed

lemma nat_hex_inj: "nat_hex m = nat_hex n \<longleftrightarrow> m = n"
  by (metis hex_value_nat_hex of_nat_eq_iff)

text \<open>
  \<^verbatim>\<open>Number.parseInt(s, 16)\<close>; \<open>None\<close> is \<^verbatim>\<open>NaN\<close>. The runtime rounds a numeral of more than
  thirteen digits to a double; the model does not.
\<close>

definition parse_hex :: "string \<Rightarrow> int option" where
  "parse_hex s = (let t = dropWhile is_space s;
       neg = starts_with ''-'' t;
       u = (if neg \<or> starts_with ''+'' t then drop 1 t else t);
       w = (if starts_with ''0x'' u \<or> starts_with ''0X'' u then drop 2 u else u);
       digits = takeWhile is_hex w
     in if digits = [] then None else Some (if neg then - hex_value digits else hex_value digits))"

definition print_hex :: "int option \<Rightarrow> string" where
  "print_hex v = (case v of None \<Rightarrow> ''NaN''
     | Some i \<Rightarrow> if i < 0 then CHR ''-'' # nat_hex (nat (- i)) else nat_hex (nat i))"

section \<open>URLs\<close>

text \<open>
  What the code reads of a \<^verbatim>\<open>URL\<close> object. The parser \<^verbatim>\<open>new URL(text)\<close> is the runtime's: a
  function from a text to a URL, or none when it throws.
\<close>

record url =
  u_protocol :: string
  u_username :: string
  u_password :: string
  u_hostname :: string
  u_origin :: string
  u_pathname :: string
  u_search :: string
  u_hash :: string
  u_href :: string

type_synonym url_parser = "string \<Rightarrow> url option"

end
