(* ===== verification/Spend_Budget.thy ===== *)
theory Spend_Budget
  imports Settlement_Journal Js_Text
begin

text \<open>
  The sponsors' daily ceiling (\<^verbatim>\<open>readReceiptFeeField\<close>, \<^verbatim>\<open>costOfReceipt\<close>, \<^verbatim>\<open>BudgetStore\<close>,
  \<^verbatim>\<open>BudgetHold\<close>, \<^verbatim>\<open>budgetDay\<close> and the class \<^verbatim>\<open>SpendBudget\<close> of
  \<^verbatim>\<open>packages/delegation/src/account-bootstrap.ts\<close>). The object's private fields and the
  store behind it are one state that every method threads; a method that throws keeps the
  changes it made before. The locale \<open>budget_store\<close> is the contract \<^verbatim>\<open>BudgetStore\<close> asks of
  its provider; it is interpreted on a series of the \<open>budget_days\<close> table.
\<close>

section \<open>What a transaction cost\<close>

text \<open>\<^verbatim>\<open>/^(0x[0-9a-fA-F]+|[0-9]+)$/\<close> followed by \<^verbatim>\<open>BigInt\<close>.\<close>

definition fee_text :: "string \<Rightarrow> int option" where
  "fee_text s =
     (if take 2 s = ''0x'' \<and> 3 \<le> length s \<and> list_all is_hex (drop 2 s) then Some (hex_value (drop 2 s))
      else if s \<noteq> [] \<and> list_all is_digit s then Some (BigInt s)
      else None)"

definition readReceiptFeeField :: "js \<Rightarrow> int result" where
  "readReceiptFeeField value = (case value of
     JUndefined \<Rightarrow> Inr 0
   | JNull \<Rightarrow> Inr 0
   | JBigint v \<Rightarrow> if v < 0 then Inl (Error ''unreadable l1Fee'') else Inr v
   | JNum v \<Rightarrow> if \<not> isSafeInteger v \<or> v < 0 then Inl (Error ''unreadable l1Fee'') else Inr v
   | JString s \<Rightarrow> (case fee_text (trim s) of Some v \<Rightarrow> Inr v | None \<Rightarrow> Inl (Error ''unreadable l1Fee''))
   | _ \<Rightarrow> Inl (Error ''unreadable l1Fee''))"

definition costOfReceipt :: "int \<Rightarrow> int \<Rightarrow> js \<Rightarrow> int \<Rightarrow> int" where
  "costOfReceipt gasUsed effectiveGasPrice l1Fee fallback =
     (case readReceiptFeeField l1Fee of
        Inr fee \<Rightarrow> gasUsed * effectiveGasPrice + fee
      | Inl _ \<Rightarrow> fallback)"

lemma BigInt_digits_nonneg:
  assumes "list_all is_digit s" shows "0 \<le> BigInt s"
proof (cases s)
  case (Cons c cs)
  then have "c \<noteq> CHR ''-''" using assms by (auto simp: is_digit_def char_between_def)
  then show ?thesis using Cons by (simp add: BigInt_def)
qed (simp add: BigInt_def)

lemma fee_text_nonneg: "fee_text s = Some v \<Longrightarrow> 0 \<le> v"
  by (auto simp: fee_text_def hex_value_nonneg BigInt_digits_nonneg split: if_splits)

lemma readReceiptFeeField_nonneg: "readReceiptFeeField j = Inr v \<Longrightarrow> 0 \<le> v"
  by (cases j) (auto simp: readReceiptFeeField_def fee_text_nonneg split: if_splits option.splits)

section \<open>The budget object\<close>

text \<open>
  \<^verbatim>\<open>#spent\<close>, \<^verbatim>\<open>#reserved\<close>, \<^verbatim>\<open>#day\<close>, \<^verbatim>\<open>dailyLimitWei\<close>, and the store it was given, if any.
\<close>

record 's spend_budget =
  sb_limit :: int
  sb_spent :: int
  sb_reserved :: int
  sb_day :: string
  sb_store :: "'s option"

record budget_hold =
  hold_day :: string
  hold_amount :: int

type_synonym ('s, 'a) budget_op = "'s spend_budget \<Rightarrow> 'a result \<times> 's spend_budget"

text \<open>Sequencing of methods: an exception leaves the object as it is at that point.\<close>

definition sbind :: "('s, 'a) budget_op \<Rightarrow> ('a \<Rightarrow> ('s, 'b) budget_op) \<Rightarrow> ('s, 'b) budget_op" where
  "sbind m f w = (case m w of (Inl e, w') \<Rightarrow> (Inl e, w') | (Inr a, w') \<Rightarrow> f a w')"

definition budgetDay :: "int \<Rightarrow> string result" where
  "budgetDay now = toISOString_day now"

text \<open>\<^verbatim>\<open>store?.load(day) ?? 0n\<close>.\<close>

definition store_load :: "('s \<Rightarrow> string \<Rightarrow> int result) \<Rightarrow> 's option \<Rightarrow> string \<Rightarrow> int result" where
  "store_load ld st day = (case st of None \<Rightarrow> Inr 0 | Some s \<Rightarrow> ld s day)"

definition new_SpendBudget ::
    "('s \<Rightarrow> string \<Rightarrow> int result) \<Rightarrow> int \<Rightarrow> int \<Rightarrow> 's option \<Rightarrow> 's spend_budget result" where
  "new_SpendBudget ld dailyLimitWei now st =
     (if dailyLimitWei \<le> 0 then Inl (Error ''dailyLimitWei must be positive'')
      else ebind (budgetDay now) (\<lambda>day. ebind (store_load ld st day) (\<lambda>spent.
        Inr \<lparr>sb_limit = dailyLimitWei, sb_spent = spent, sb_reserved = 0, sb_day = day, sb_store = st\<rparr>)))"

definition roll :: "('s \<Rightarrow> string \<Rightarrow> int result) \<Rightarrow> int \<Rightarrow> ('s, unit) budget_op" where
  "roll ld now w = (case budgetDay now of
     Inl e \<Rightarrow> (Inl e, w)
   | Inr day \<Rightarrow>
       if day = sb_day w then (Inr (), w)
       else let w' = w\<lparr>sb_day := day\<rparr> in
         case store_load ld (sb_store w') day of
           Inl e \<Rightarrow> (Inl e, w')
         | Inr spent \<Rightarrow> (Inr (), w'\<lparr>sb_spent := spent\<rparr>))"

definition store_save ::
    "('s \<Rightarrow> string \<Rightarrow> int \<Rightarrow> 's result) \<Rightarrow> string \<Rightarrow> int \<Rightarrow> ('s, unit) budget_op" where
  "store_save sv day v w = (case sb_store w of
     None \<Rightarrow> (Inr (), w)
   | Some s \<Rightarrow> (case sv s day v of Inl e \<Rightarrow> (Inl e, w) | Inr s' \<Rightarrow> (Inr (), w\<lparr>sb_store := Some s'\<rparr>)))"

definition persist :: "('s \<Rightarrow> string \<Rightarrow> int \<Rightarrow> 's result) \<Rightarrow> ('s, unit) budget_op" where
  "persist sv w = store_save sv (sb_day w) (sb_spent w) w"

definition reserve ::
    "('s \<Rightarrow> string \<Rightarrow> int result) \<Rightarrow> int \<Rightarrow> int \<Rightarrow> ('s, budget_hold option) budget_op" where
  "reserve ld amt now = sbind (roll ld now) (\<lambda>_ w.
     if sb_limit w < sb_spent w + sb_reserved w + amt then (Inr None, w)
     else (Inr (Some \<lparr>hold_day = sb_day w, hold_amount = amt\<rparr>), w\<lparr>sb_reserved := sb_reserved w + amt\<rparr>))"

definition release :: "int \<Rightarrow> ('s, unit) budget_op" where
  "release amt w =
     (let r = sb_reserved w - amt in (Inr (), w\<lparr>sb_reserved := (if r < 0 then 0 else r)\<rparr>))"

definition charge ::
    "('s \<Rightarrow> string \<Rightarrow> int result) \<Rightarrow> ('s \<Rightarrow> string \<Rightarrow> int \<Rightarrow> 's result) \<Rightarrow> string \<Rightarrow> int \<Rightarrow> int
      \<Rightarrow> ('s, unit) budget_op" where
  "charge ld sv day amt now = sbind (roll ld now) (\<lambda>_ w.
     if day = sb_day w then persist sv (w\<lparr>sb_spent := sb_spent w + amt\<rparr>)
     else case sb_store w of
       None \<Rightarrow> (Inr (), w)
     | Some s \<Rightarrow> (case ld s day of Inl e \<Rightarrow> (Inl e, w) | Inr v \<Rightarrow> store_save sv day (v + amt) w))"

definition settle ::
    "('s \<Rightarrow> string \<Rightarrow> int result) \<Rightarrow> ('s \<Rightarrow> string \<Rightarrow> int \<Rightarrow> 's result) \<Rightarrow> budget_hold \<Rightarrow> js \<Rightarrow> int
      \<Rightarrow> ('s, unit) budget_op" where
  "settle ld sv hold actual now = (case actual of
     JBigint a \<Rightarrow> sbind (release (hold_amount hold)) (\<lambda>_. charge ld sv (hold_day hold) a now)
   | _ \<Rightarrow> sbind (release (hold_amount hold)) (\<lambda>_.
       sbind (charge ld sv (hold_day hold) (hold_amount hold) now) (\<lambda>_ w.
         (Inl (Error ''settle requires a bigint charge''), w))))"

definition spentToday :: "('s \<Rightarrow> string \<Rightarrow> int result) \<Rightarrow> int \<Rightarrow> ('s, int) budget_op" where
  "spentToday ld now = sbind (roll ld now) (\<lambda>_ w. (Inr (sb_spent w), w))"

definition remaining :: "('s \<Rightarrow> string \<Rightarrow> int result) \<Rightarrow> int \<Rightarrow> ('s, int) budget_op" where
  "remaining ld now = sbind (roll ld now) (\<lambda>_ w.
     let left = sb_limit w - sb_spent w - sb_reserved w in (Inr (if 0 < left then left else 0), w))"

section \<open>The ceiling\<close>

text \<open>What the class relies on: loads and saves of well-formed days succeed and a save moves one day only.\<close>

locale budget_store =
  fixes ld :: "'s \<Rightarrow> string \<Rightarrow> int result"
    and sv :: "'s \<Rightarrow> string \<Rightarrow> int \<Rightarrow> 's result"
    and valid :: "'s \<Rightarrow> bool"
  assumes load_ok: "\<lbrakk>valid s; is_day d\<rbrakk> \<Longrightarrow> \<exists>v \<ge> 0. ld s d = Inr v"
    and save_ok: "\<lbrakk>valid s; is_day d; 0 \<le> v\<rbrakk> \<Longrightarrow> \<exists>s'. sv s d v = Inr s'"
    and save_valid: "\<lbrakk>valid s; sv s d v = Inr s'\<rbrakk> \<Longrightarrow> valid s'"
    and load_save: "\<lbrakk>valid s; is_day d; sv s d v = Inr s'\<rbrakk> \<Longrightarrow> ld s' d = Inr v"
    and load_other: "\<lbrakk>valid s; sv s d v = Inr s'; d' \<noteq> d\<rbrakk> \<Longrightarrow> ld s' d' = ld s d'"

text \<open>
  A clock reading whose UTC year has four digits. Outside it \<^verbatim>\<open>toISOString\<close> throws or
  prints a six-digit year that the store refuses as a day.
\<close>

definition dated :: "int \<Rightarrow> bool" where
  "dated now \<longleftrightarrow> (case budgetDay now of Inl _ \<Rightarrow> False | Inr d \<Rightarrow> is_day d)"

text \<open>What one settle charges: the reservation when the cost cannot be read.\<close>

definition charged :: "budget_hold \<Rightarrow> js \<Rightarrow> int" where
  "charged h actual = (case actual of JBigint a \<Rightarrow> a | _ \<Rightarrow> hold_amount h)"

text \<open>The open reservations of one day, or of all days.\<close>

definition held_on :: "string \<Rightarrow> budget_hold list \<Rightarrow> int" where
  "held_on d hs = sum_list (map hold_amount (filter (\<lambda>h. hold_day h = d) hs))"

definition held :: "budget_hold list \<Rightarrow> int" where
  "held hs = sum_list (map hold_amount hs)"

text \<open>
  The life of one budget over one store: construction over a store whose totals are within
  the ceiling, reservations granted or refused, settlements of open holds, and restarts,
  which forget the holds. The clock may jump, and a transaction may cost more than was reserved
  for it: \<^verbatim>\<open>settle\<close> charges the receipt in full, and the run adds the excess up by day.
\<close>

definition overshoot :: "budget_hold \<Rightarrow> js \<Rightarrow> int" where
  "overshoot h actual = max 0 (charged h actual - hold_amount h)"

inductive spend_run :: "('s \<Rightarrow> string \<Rightarrow> int result) \<Rightarrow> ('s \<Rightarrow> string \<Rightarrow> int \<Rightarrow> 's result) \<Rightarrow> ('s \<Rightarrow> bool)
    \<Rightarrow> int \<Rightarrow> 's spend_budget \<Rightarrow> budget_hold list \<Rightarrow> (string \<Rightarrow> int) \<Rightarrow> bool"
  for ld sv valid L where
  start: "\<lbrakk>new_SpendBudget ld L now (Some s) = Inr w; valid s; dated now;
      \<forall>d v. ld s d = Inr v \<longrightarrow> v \<le> L\<rbrakk> \<Longrightarrow> spend_run ld sv valid L w [] (\<lambda>_. 0)"
| granted: "\<lbrakk>spend_run ld sv valid L w hs over; reserve ld amt now w = (Inr (Some h), w'); dated now; 0 \<le> amt\<rbrakk>
    \<Longrightarrow> spend_run ld sv valid L w' (h # hs) over"
| refused: "\<lbrakk>spend_run ld sv valid L w hs over; reserve ld amt now w = (Inr None, w'); dated now\<rbrakk>
    \<Longrightarrow> spend_run ld sv valid L w' hs over"
| settled: "\<lbrakk>spend_run ld sv valid L w hs over; h \<in> set hs; settle ld sv h actual now w = (r, w'); dated now;
      0 \<le> charged h actual\<rbrakk>
    \<Longrightarrow> spend_run ld sv valid L w' (remove1 h hs) (over(hold_day h := over (hold_day h) + overshoot h actual))"
| restarted: "\<lbrakk>spend_run ld sv valid L w hs over; new_SpendBudget ld L now (sb_store w) = Inr w'; dated now\<rbrakk>
    \<Longrightarrow> spend_run ld sv valid L w' [] over"

lemma held_on_Cons [simp]:
  "held_on d (h # hs) = (if hold_day h = d then hold_amount h else 0) + held_on d hs"
  "held (h # hs) = hold_amount h + held hs"
  by (simp_all add: held_on_def held_def)

lemma held_on_Nil [simp]: "held_on d [] = 0" "held [] = 0"
  by (simp_all add: held_on_def held_def)

lemma held_remove1:
  "h \<in> set hs \<Longrightarrow> held_on d (remove1 h hs) = held_on d hs - (if hold_day h = d then hold_amount h else 0)"
  "h \<in> set hs \<Longrightarrow> held (remove1 h hs) = held hs - hold_amount h"
  by (induction hs) auto

lemma held_on_le:
  "\<forall>h \<in> set hs. 0 \<le> hold_amount h \<Longrightarrow> 0 \<le> held_on d hs \<and> held_on d hs \<le> held hs"
  by (induction hs) auto

text \<open>The state between calls: the cached total is the store's, the reserved sum is the open holds'.\<close>

definition budget_ok :: "('s \<Rightarrow> string \<Rightarrow> int result) \<Rightarrow> ('s \<Rightarrow> bool) \<Rightarrow> int \<Rightarrow> 's spend_budget
    \<Rightarrow> 's \<Rightarrow> budget_hold list \<Rightarrow> (string \<Rightarrow> int) \<Rightarrow> bool" where
  "budget_ok ld valid L w s hs over \<longleftrightarrow>
     sb_store w = Some s \<and> valid s \<and> sb_limit w = L \<and> is_day (sb_day w) \<and>
     ld s (sb_day w) = Inr (sb_spent w) \<and> sb_reserved w = held hs \<and>
     (\<forall>h \<in> set hs. 0 \<le> hold_amount h \<and> is_day (hold_day h)) \<and>
     (\<forall>d. 0 \<le> over d) \<and> (\<forall>d v. ld s d = Inr v \<longrightarrow> v + held_on d hs \<le> L + over d)"

lemma budget_okD:
  assumes "budget_ok ld valid L w s hs over"
  shows "sb_store w = Some s" "valid s" "sb_limit w = L" "is_day (sb_day w)"
    "ld s (sb_day w) = Inr (sb_spent w)" "sb_reserved w = held hs"
    "h \<in> set hs \<Longrightarrow> 0 \<le> hold_amount h" "h \<in> set hs \<Longrightarrow> is_day (hold_day h)"
    "ld s d = Inr v \<Longrightarrow> v + held_on d hs \<le> L + over d" "0 \<le> over d"
  using assms by (auto simp: budget_ok_def)

lemma datedE:
  assumes "dated now" obtains d where "budgetDay now = Inr d" "is_day d"
  using assms by (cases "budgetDay now") (auto simp: dated_def)

lemmas budget_method_defs =
  sbind_def release_def charge_def persist_def store_save_def Let_def

context budget_store
begin

lemma new_ok:
  assumes "new_SpendBudget ld L now (Some s) = Inr w" "valid s" "dated now"
    "\<And>d v. ld s d = Inr v \<Longrightarrow> v \<le> L + over d" "\<And>d. 0 \<le> over d"
  shows "budget_ok ld valid L w s [] over"
proof -
  obtain d where "budgetDay now = Inr d" "is_day d" using assms(3) by (rule datedE)
  moreover obtain v where "ld s d = Inr v" using load_ok [OF assms(2) \<open>is_day d\<close>] by blast
  ultimately show ?thesis
    using assms by (auto simp: new_SpendBudget_def store_load_def budget_ok_def split: if_splits)
qed

lemma roll_ok:
  assumes "budget_ok ld valid L w s hs over" "dated now"
  obtains d v where "budgetDay now = Inr d" "roll ld now w = (Inr (), w\<lparr>sb_day := d, sb_spent := v\<rparr>)"
    "is_day d" "ld s d = Inr v" "0 \<le> v" "budget_ok ld valid L (w\<lparr>sb_day := d, sb_spent := v\<rparr>) s hs over"
proof -
  note ok = budget_okD [OF assms(1)]
  obtain d where d: "budgetDay now = Inr d" "is_day d" using assms(2) by (rule datedE)
  obtain v where v: "ld s d = Inr v" "0 \<le> v" using load_ok [OF ok(2) d(2)] by blast
  have "roll ld now w = (Inr (), w\<lparr>sb_day := d, sb_spent := v\<rparr>)"
    using d v ok(1,5) by (cases w) (auto simp: roll_def store_load_def)
  moreover have "budget_ok ld valid L (w\<lparr>sb_day := d, sb_spent := v\<rparr>) s hs over"
    using assms(1) d v by (simp add: budget_ok_def)
  ultimately show ?thesis using d v that by blast
qed

lemma reserve_ok:
  assumes "budget_ok ld valid L w s hs over" "dated now" "0 \<le> amt" "reserve ld amt now w = (r, w')"
  shows "\<exists>h. (r = Inr None \<and> budget_ok ld valid L w' s hs over)
    \<or> (r = Inr (Some h) \<and> hold_amount h = amt \<and> budget_ok ld valid L w' s (h # hs) over)"
proof -
  obtain d v where roll: "roll ld now w = (Inr (), w\<lparr>sb_day := d, sb_spent := v\<rparr>)" "is_day d"
      "ld s d = Inr v" and ok': "budget_ok ld valid L (w\<lparr>sb_day := d, sb_spent := v\<rparr>) s hs over"
    using assms(1,2) by (rule roll_ok)
  let ?h = "\<lparr>hold_day = d, hold_amount = amt\<rparr>"
  show ?thesis
  proof (cases "sb_limit w < v + sb_reserved w + amt")
    case True
    then have "r = Inr None" "w' = w\<lparr>sb_day := d, sb_spent := v\<rparr>"
      using assms(4) roll by (simp_all add: reserve_def sbind_def)
    then show ?thesis using ok' by simp
  next
    case False
    then have r: "r = Inr (Some ?h)"
        "w' = w\<lparr>sb_day := d, sb_spent := v, sb_reserved := sb_reserved w + amt\<rparr>"
      using assms(4) roll by (simp_all add: reserve_def sbind_def)
    have "held_on d hs \<le> held hs" "0 \<le> over d" using budget_okD(7,10) [OF ok'] held_on_le by blast+
    then have "v + (amt + held_on d hs) \<le> sb_limit w + over d"
      using False budget_okD(6) [OF assms(1)] by linarith
    then have "budget_ok ld valid L w' s (?h # hs) over"
      using ok' r assms(3) roll by (auto simp: budget_ok_def)
    then show ?thesis using r by (intro exI [of _ ?h]) simp
  qed
qed

lemma settle_charge:
  assumes "budget_ok ld valid L w s hs over" "dated now" "h \<in> set hs" "0 \<le> charged h actual"
  shows "\<exists>s' w' r v. settle ld sv h actual now w = (r, w') \<and> sb_store w' = Some s' \<and>
      sb_limit w' = L \<and> budgetDay now = Inr (sb_day w') \<and> sb_reserved w' = held (remove1 h hs) \<and>
      ld s (hold_day h) = Inr v \<and> sv s (hold_day h) (v + charged h actual) = Inr s' \<and>
      ld s' (sb_day w') = Inr (sb_spent w') \<and> is_day (sb_day w') \<and>
      (r = Inr () \<longleftrightarrow> (\<exists>a. actual = JBigint a))"
proof -
  note ok = budget_okD [OF assms(1)]
  let ?a = "charged h actual"
  let ?r = "sb_reserved w - hold_amount h"
  have "0 \<le> held (remove1 h hs)"
    using held_on_le [of "remove1 h hs"] ok(7) notin_set_remove1 by fastforce
  then have res: "?r = held (remove1 h hs)" "\<not> ?r < 0" using ok(6) held_remove1(2) [OF assms(3)] by simp_all
  let ?w = "w\<lparr>sb_reserved := ?r\<rparr>"
  obtain d where d: "budgetDay now = Inr d" "is_day d" using assms(2) by (rule datedE)
  obtain u where u: "ld s d = Inr u" "0 \<le> u" using load_ok [OF ok(2) d(2)] by blast
  have roll: "roll ld now ?w = (Inr (), ?w\<lparr>sb_day := d, sb_spent := u\<rparr>)"
    using d u ok(1,5) by (cases w) (auto simp: roll_def store_load_def)
  obtain v where v: "ld s (hold_day h) = Inr v" "0 \<le> v" using load_ok [OF ok(2) ok(8) [OF assms(3)]] by blast
  obtain s' where s': "sv s (hold_day h) (v + ?a) = Inr s'"
    using save_ok [OF ok(2) ok(8) [OF assms(3)]] v assms(4) by (metis add_nonneg_nonneg)
  let ?w' = "?w\<lparr>sb_day := d, sb_spent := (if hold_day h = d then u + ?a else u), sb_store := Some s'\<rparr>"
  have charge: "charge ld sv (hold_day h) ?a now ?w = (Inr (), ?w')"
  proof (cases "hold_day h = d")
    case True
    then show ?thesis using roll u v s' ok(1) by (simp add: budget_method_defs)
  next
    case False
    then show ?thesis using roll v s' ok(1) by (simp add: budget_method_defs)
  qed
  have rel: "release (hold_amount h) w = (Inr (), ?w)" using res by (simp add: release_def Let_def)
  have "settle ld sv h actual now w
      = (if \<exists>a. actual = JBigint a then Inr () else Inl (Error ''settle requires a bigint charge''), ?w')"
    using charge by (cases actual) (simp_all add: settle_def sbind_def rel charged_def)
  moreover have "ld s' d = Inr (if hold_day h = d then u + ?a else u)"
    using load_save [OF ok(2) _ s'] load_other [OF ok(2) s', of d] u v ok(8) [OF assms(3)] by auto
  ultimately show ?thesis
    using d v s' res ok(3) by (intro exI [of _ s'] exI [of _ ?w'] exI [of _ v] exI conjI) (assumption | simp)+
qed

lemma settle_ok:
  assumes "budget_ok ld valid L w s hs over" "dated now" "h \<in> set hs" "0 \<le> charged h actual"
    "settle ld sv h actual now w = (r, w')"
  shows "\<exists>s'. budget_ok ld valid L w' s' (remove1 h hs) (over(hold_day h := over (hold_day h) + overshoot h actual))"
proof -
  note ok = budget_okD [OF assms(1)]
  obtain s' v where st: "sb_store w' = Some s'" "sb_limit w' = L" "sb_reserved w' = held (remove1 h hs)"
      "ld s (hold_day h) = Inr v" "sv s (hold_day h) (v + charged h actual) = Inr s'"
      "ld s' (sb_day w') = Inr (sb_spent w')" "is_day (sb_day w')"
    using settle_charge [OF assms(1-4)] assms(5) by auto
  let ?over = "over(hold_day h := over (hold_day h) + overshoot h actual)"
  have "u + held_on d (remove1 h hs) \<le> L + ?over d" if "ld s' d = Inr u" for d u
  proof (cases "d = hold_day h")
    case True
    then have "u = v + charged h actual"
      using that load_save [OF ok(2) ok(8) [OF assms(3)] st(5)] by simp
    then show ?thesis using True ok(9) [OF st(4)] held_remove1(1) [OF assms(3)] by (simp add: overshoot_def)
  next
    case False
    then have "ld s d = Inr u" using that load_other [OF ok(2) st(5)] by simp
    then show ?thesis using False ok(9) [of d u] held_remove1(1) [OF assms(3)] by simp
  qed
  moreover have "0 \<le> ?over d" for d using ok(10) [of d] ok(10) [of "hold_day h"] by (simp add: overshoot_def)
  moreover have "\<forall>k \<in> set (remove1 h hs). 0 \<le> hold_amount k \<and> is_day (hold_day k)"
    using ok(7,8) notin_set_remove1 by metis
  ultimately show ?thesis using st save_valid [OF ok(2) st(5)] by (auto simp: budget_ok_def)
qed

text \<open>\<^verbatim>\<open>reserve\<close> admits exactly what \<^verbatim>\<open>remaining\<close> says is left.\<close>

lemma reserve_remaining:
  assumes "budget_ok ld valid L w s hs over" "dated now" "1 \<le> amt"
  shows "(\<exists>h. fst (reserve ld amt now w) = Inr (Some h)) \<longleftrightarrow>
    (\<exists>left. fst (remaining ld now w) = Inr left \<and> amt \<le> left)"
proof -
  obtain d v where "roll ld now w = (Inr (), w\<lparr>sb_day := d, sb_spent := v\<rparr>)"
    using assms(1,2) by (rule roll_ok)
  then show ?thesis using assms(3) by (auto simp: reserve_def remaining_def sbind_def Let_def)
qed

text \<open>A hold is granted inside the ceiling itself, whatever earlier settlements overshot.\<close>

lemma grant_within:
  assumes "budget_ok ld valid L w s hs over" "dated now" "reserve ld amt now w = (Inr (Some h), w')"
  shows "\<exists>u. ld s (hold_day h) = Inr u \<and> u + held hs + amt \<le> L"
proof -
  obtain d v where "roll ld now w = (Inr (), w\<lparr>sb_day := d, sb_spent := v\<rparr>)" "ld s d = Inr v"
    using assms(1,2) by (rule roll_ok)
  then show ?thesis
    using assms(3) budget_okD(3,6) [OF assms(1)] by (auto simp: reserve_def sbind_def split: if_splits)
qed

lemma run_ok: "spend_run ld sv valid L w hs over \<Longrightarrow> \<exists>s. budget_ok ld valid L w s hs over"
proof (induction rule: spend_run.induct)
  case (start now s w)
  then show ?case using new_ok [of L now s w "\<lambda>_. 0"] by auto
next
  case (granted w hs over amt now h w')
  then show ?case using reserve_ok by (metis Inr_inject option.distinct(1) option.inject)
next
  case (refused w hs over amt now w')
  then obtain s where s: "budget_ok ld valid L w s hs over" by blast
  obtain d v where "roll ld now w = (Inr (), w\<lparr>sb_day := d, sb_spent := v\<rparr>)"
      and ok': "budget_ok ld valid L (w\<lparr>sb_day := d, sb_spent := v\<rparr>) s hs over"
    using s refused.hyps(3) by (rule roll_ok)
  then have "w' = w\<lparr>sb_day := d, sb_spent := v\<rparr>"
    using refused.hyps(2) by (auto simp: reserve_def sbind_def split: if_splits)
  then show ?case using ok' by blast
next
  case (settled w hs over h actual now r w')
  then show ?case using settle_ok by blast
next
  case (restarted w hs over now w')
  then obtain s where s: "budget_ok ld valid L w s hs over" by blast
  have "v \<le> L + over d" if "ld s d = Inr v" for d v
    using budget_okD(9) [OF s that] held_on_le [of hs d] budget_okD(7) [OF s] by force
  then show ?case using new_ok [of L now s w' over] restarted.hyps budget_okD(1,2,10) [OF s] by auto
qed

end

section \<open>The table as the store\<close>

definition budget_texts_ok :: "budget_days \<Rightarrow> bool" where
  "budget_texts_ok b \<longleftrightarrow> (\<forall>k t. b k = Some t \<longrightarrow> 0 \<le> BigInt t)"

lemma series_save_iff:
  "series_save b scope d v = Inr b' \<longleftrightarrow> is_day d \<and> 0 \<le> v \<and> b' = b((scope, d) \<mapsto> String v)"
  by (auto simp: series_save_def dayKey_def amountText_def result_simps split: if_splits)

lemma series_load_eq:
  "series_load b scope d = (if is_day d then Inr (case b (scope, d) of Some t \<Rightarrow> BigInt t | None \<Rightarrow> 0)
    else Inl (TypeError ''day must be YYYY-MM-DD''))"
  by (simp add: series_load_def dayKey_def)

interpretation series: budget_store "\<lambda>b. series_load b scope" "\<lambda>b. series_save b scope" budget_texts_ok
  for scope
proof (unfold_locales, goal_cases)
  case (1 s d)
  then show ?case by (auto simp: series_load_eq budget_texts_ok_def split: option.split)
next
  case (2 s d v)
  then show ?case by (simp add: series_save_iff)
next
  case (3 s d v s')
  then show ?case by (auto simp: series_save_iff budget_texts_ok_def)
next
  case (4 s d v s')
  then show ?case by (auto simp: series_save_iff series_load_eq)
next
  case (5 s d v s' d')
  then show ?case by (auto simp: series_save_iff series_load_eq)
qed

abbreviation series_run :: "string \<Rightarrow> int \<Rightarrow> budget_days spend_budget \<Rightarrow> budget_hold list \<Rightarrow> (string \<Rightarrow> int) \<Rightarrow> bool" where
  "series_run scope \<equiv> spend_run (\<lambda>b. series_load b scope) (\<lambda>b. series_save b scope) budget_texts_ok"

abbreviation series_reserve :: "string \<Rightarrow> int \<Rightarrow> int \<Rightarrow> (budget_days, budget_hold option) budget_op" where
  "series_reserve scope \<equiv> reserve (\<lambda>b. series_load b scope)"

abbreviation series_settle :: "string \<Rightarrow> budget_hold \<Rightarrow> js \<Rightarrow> int \<Rightarrow> (budget_days, unit) budget_op" where
  "series_settle scope \<equiv> settle (\<lambda>b. series_load b scope) (\<lambda>b. series_save b scope)"

text \<open>
  A budget of 100 over an empty table that reserves 60 on one day and settles 50 of it on the
  next.
\<close>

definition sample_budget :: "budget_days spend_budget" where
  "sample_budget = \<lparr>sb_limit = 100, sb_spent = 0, sb_reserved = 60, sb_day = ''1970-01-01'',
     sb_store = Some Map.empty\<rparr>"

definition sample_hold :: budget_hold where
  "sample_hold = \<lparr>hold_day = ''1970-01-01'', hold_amount = 60\<rparr>"

lemma sample_days:
  "budgetDay 0 = Inr ''1970-01-01''" "budgetDay 86400000 = Inr ''1970-01-02''"
  "is_day ''1970-01-01''" "is_day ''1970-01-02''" "dated 0" "dated 86400000"
  by code_simp+

lemma sample_budget_run: "series_run ''total'' 100 sample_budget [sample_hold] (\<lambda>_. 0)"
proof -
  let ?w = "\<lparr>sb_limit = 100, sb_spent = 0, sb_reserved = 0, sb_day = ''1970-01-01'',
     sb_store = Some (Map.empty :: budget_days)\<rparr>"
  have "series_run ''total'' 100 ?w [] (\<lambda>_. 0)"
  proof (rule spend_run.start [where now = 0 and s = Map.empty])
    show "new_SpendBudget (\<lambda>b. series_load b ''total'') 100 0 (Some Map.empty) = Inr ?w"
      by (simp add: new_SpendBudget_def sample_days store_load_def series_load_eq)
    show "dated 0" by (rule sample_days)
  qed (simp_all add: budget_texts_ok_def series_load_eq)
  then show ?thesis
  proof (rule spend_run.granted [where now = 0 and amt = 60])
    show "series_reserve ''total'' 60 0 ?w = (Inr (Some sample_hold), sample_budget)"
      by (simp add: reserve_def sbind_def roll_def sample_days sample_hold_def sample_budget_def)
    show "dated 0" by (rule sample_days)
  qed simp
qed

section \<open>Properties\<close>

text \<open>A charge follows the day that admitted it. Settling an open hold succeeds in moving the
  recorded total of the hold's own day by exactly the charge, whatever day the clock shows,
  changes no other day, and releases exactly the reservation; a cost that is no bigint is
  charged as the whole reservation and then reported as an exception.\<close>

theorem settle_charges_its_day:
  assumes "series_run scope L w hs over" and "sb_store w = Some b" and "h \<in> set hs" and "dated now"
    and "0 \<le> charged h actual"
  shows "\<exists>r w' b' v. series_settle scope h actual now w = (r, w') \<and> sb_store w' = Some b' \<and>
    (r = Inr () \<longleftrightarrow> (\<exists>a. actual = JBigint a)) \<and>
    series_load b scope (hold_day h) = Inr v \<and>
    series_load b' scope (hold_day h) = Inr (v + charged h actual) \<and>
    (\<forall>d. d \<noteq> hold_day h \<longrightarrow> series_load b' scope d = series_load b scope d) \<and>
    sb_reserved w' = sb_reserved w - hold_amount h"
proof -
  obtain s where s: "budget_ok (\<lambda>b. series_load b scope) budget_texts_ok L w s hs over"
    using series.run_ok [OF assms(1)] by blast
  then have b: "b = s" using budget_okD(1) [OF s] assms(2) by simp
  obtain s' w' r v where st: "series_settle scope h actual now w = (r, w')" "sb_store w' = Some s'"
      "r = Inr () \<longleftrightarrow> (\<exists>a. actual = JBigint a)"
      "series_load s scope (hold_day h) = Inr v" "series_save s scope (hold_day h) (v + charged h actual) = Inr s'"
      "sb_reserved w' = held (remove1 h hs)"
    using series.settle_charge [OF s assms(4,3,5)] by blast
  note laws = budget_okD(2) [OF s] budget_okD(8) [OF s assms(3)] st(5)
  have "series_load s' scope (hold_day h) = Inr (v + charged h actual)" by (rule series.load_save [OF laws])
  moreover have "\<forall>d. d \<noteq> hold_day h \<longrightarrow> series_load s' scope d = series_load s scope d"
    using series.load_other [OF laws(1,3)] by blast
  moreover have "sb_reserved w' = sb_reserved w - hold_amount h"
    using st(6) budget_okD(6) [OF s] held_remove1(2) [OF assms(3)] by simp
  ultimately show ?thesis using st b by blast
qed

theorem settle_charges_its_day_witness:
  "\<exists>r w' b' v. series_settle ''total'' sample_hold (JBigint 50) 86400000 sample_budget = (r, w') \<and>
    sb_store w' = Some b' \<and> series_load b' ''total'' ''1970-01-01'' = Inr (v + 50)"
proof -
  have "charged sample_hold (JBigint 50) = 50" "hold_day sample_hold = ''1970-01-01''"
    by (simp_all add: charged_def sample_hold_def)
  moreover have "sb_store sample_budget = Some Map.empty" by (simp add: sample_budget_def)
  ultimately show ?thesis
    using settle_charges_its_day [OF sample_budget_run, of Map.empty sample_hold 86400000 "JBigint 50"]
      sample_days(6) by fastforce
qed

text \<open>C7: the daily ceiling binds. Along every life of a budget over the table, restarts and clock
  jumps included, the total recorded for any day together with that day's open reservations
  never exceeds the limit by more than the settlements of that day cost over their reservations
  (which \<^verbatim>\<open>settle\<close> charges in full, by design); and a hold is granted only when the recorded total
  of its day, every open reservation and the new one together are within the limit itself, so
  that an overshoot closes the day instead of opening it.\<close>

theorem daily_ceiling_holds:
  assumes "series_run scope L w hs over" and "sb_store w = Some b"
  shows "(\<forall>d v. series_load b scope d = Inr v \<longrightarrow> v + held_on d hs \<le> L + over d) \<and>
    (\<forall>amt now h w'. series_reserve scope amt now w = (Inr (Some h), w') \<and> dated now \<longrightarrow>
       (\<exists>u. series_load b scope (hold_day h) = Inr u \<and> u + held hs + amt \<le> L))"
proof -
  obtain s where s: "budget_ok (\<lambda>b. series_load b scope) budget_texts_ok L w s hs over"
    using series.run_ok [OF assms(1)] by blast
  then have "b = s" using budget_okD(1) [OF s] assms(2) by simp
  then show ?thesis using budget_okD(9) [OF s] series.grant_within [OF s] by blast
qed

text \<open>The sample settles its hold of 60 with a receipt of 130: the day ends 30 over, inside its overshoot of 70.\<close>

theorem daily_ceiling_holds_witness:
  "\<exists>w b. series_run ''total'' 100 w [] ((\<lambda>_. 0)(''1970-01-01'' := 70)) \<and> sb_store w = Some b \<and>
     series_load b ''total'' ''1970-01-01'' = Inr 130 \<and> (130::int) + held_on ''1970-01-01'' [] \<le> 100 + 70"
proof -
  have h: "hold_day sample_hold = ''1970-01-01''" "charged sample_hold (JBigint 130) = 130" "sb_store sample_budget = Some Map.empty"
      "overshoot sample_hold (JBigint 130) = 70"
    by (simp_all add: sample_hold_def charged_def sample_budget_def overshoot_def)
  obtain r w' b' where st: "series_settle ''total'' sample_hold (JBigint 130) 0 sample_budget = (r, w')" "sb_store w' = Some b'"
      "series_load b' ''total'' ''1970-01-01'' = Inr 130"
    using settle_charges_its_day [OF sample_budget_run h(3), of sample_hold 0 "JBigint 130"] h sample_days
    by (auto simp: series_load_eq)
  have "series_run ''total'' 100 w' (remove1 sample_hold [sample_hold])
      ((\<lambda>_. 0)(hold_day sample_hold := 0 + overshoot sample_hold (JBigint 130)))"
    by (rule spend_run.settled [OF sample_budget_run _ st(1)]) (simp_all add: sample_days h)
  then have run: "series_run ''total'' 100 w' [] ((\<lambda>_. 0)(''1970-01-01'' := 70))" by (simp add: h)
  have "130 + held_on ''1970-01-01'' [] \<le> 100 + ((\<lambda>_. 0)(''1970-01-01'' := 70)) ''1970-01-01''"
    using daily_ceiling_holds [OF run st(2), THEN conjunct1] st(3) by blast
  then show ?thesis using run st by auto
qed

text \<open>\<^verbatim>\<open>remaining\<close> tells the truth. In every reachable state a reservation of at least one wei
  is granted exactly when it does not exceed what \<^verbatim>\<open>remaining\<close> reports at the same moment.\<close>

theorem reserve_matches_remaining:
  assumes "series_run scope L w hs over" and "dated now" and "1 \<le> amt"
  shows "(\<exists>h. fst (series_reserve scope amt now w) = Inr (Some h)) \<longleftrightarrow>
    (\<exists>left. fst (remaining (\<lambda>b. series_load b scope) now w) = Inr left \<and> amt \<le> left)"
  using series.run_ok [OF assms(1)] series.reserve_remaining [OF _ assms(2,3)] by blast

theorem reserve_matches_remaining_witness:
  "\<not> (\<exists>h. fst (series_reserve ''total'' 41 0 sample_budget) = Inr (Some h))"
  unfolding reserve_matches_remaining [OF sample_budget_run sample_days(5), of 41, simplified]
  by (simp add: remaining_def sbind_def roll_def sample_days sample_budget_def Let_def)

end
