(* ===== verification/Token.thy ===== *)
theory Token
  imports Prelude "HOL-Library.Signed_Division"
begin

text \<open>
  Token amounts (\<^verbatim>\<open>packages/shared/src/token.ts\<close>): \<^verbatim>\<open>toTokenAmount\<close> reads a decimal
  tUSDC text into base units, \<^verbatim>\<open>fromTokenAmount\<close> prints base units. The round trip is
  exact for every non-negative amount, and excess precision is refused, never truncated.
\<close>

definition TOKEN_DECIMALS :: nat where
  "TOKEN_DECIMALS = 6"

definition MOCK_USDC_address :: string where
  "MOCK_USDC_address = ''0xcfeb694719A09caeb80798e2011298F29CDa4e92''"

section \<open>Reading and printing\<close>

text \<open>\<^verbatim>\<open>0|[1-9]\d*\<close>.\<close>

definition canonical_whole :: "string \<Rightarrow> bool" where
  "canonical_whole w \<longleftrightarrow> w = ''0'' \<or> (w \<noteq> [] \<and> list_all is_digit w \<and> hd w \<noteq> CHR ''0'')"

text \<open>The groups of \<^verbatim>\<open>^(0|[1-9]\d*)(?:\.(\d{1,6}))?$\<close>, the second empty when absent.\<close>

definition match_amount :: "string \<Rightarrow> (string \<times> string) option" where
  "match_amount s =
     (let whole = takeWhile (\<lambda>c. c \<noteq> CHR ''.'') s; rest = dropWhile (\<lambda>c. c \<noteq> CHR ''.'') s
      in if \<not> canonical_whole whole then None
         else (case rest of
             [] \<Rightarrow> Some (whole, [])
           | _ # fr \<Rightarrow> if fr \<noteq> [] \<and> length fr \<le> TOKEN_DECIMALS \<and> list_all is_digit fr
               then Some (whole, fr) else None))"

definition padEnd0 :: "nat \<Rightarrow> string \<Rightarrow> string" where
  "padEnd0 n s = s @ replicate (n - length s) CHR ''0''"

definition padStart0 :: "nat \<Rightarrow> string \<Rightarrow> string" where
  "padStart0 n s = replicate (n - length s) CHR ''0'' @ s"

definition toTokenAmount :: "string \<Rightarrow> int result" where
  "toTokenAmount human = (case match_amount (trim human) of
     None \<Rightarrow> Inl (Error (''invalid mUSDC amount '' @ human))
   | Some (whole, fr) \<Rightarrow> Inr (BigInt (whole @ take TOKEN_DECIMALS (padEnd0 TOKEN_DECIMALS fr))))"

text \<open>\<^verbatim>\<open>replace(/0+$/, "")\<close>.\<close>

definition strip_zeros :: "string \<Rightarrow> string" where
  "strip_zeros s = rev (dropWhile (\<lambda>c. c = CHR ''0'') (rev s))"

definition fromTokenAmount :: "int \<Rightarrow> string" where
  "fromTokenAmount raw =
     (let base = 10 ^ TOKEN_DECIMALS; whole = raw sdiv base;
          fr = strip_zeros (padStart0 TOKEN_DECIMALS (String (raw smod base)))
      in String whole @ ''.'' @ (if fr = [] then ''0'' else fr))"

section \<open>Decimal digits\<close>

lemma zero_is_digit: "is_digit CHR ''0''"
  by (simp add: is_digit_def char_between_def)

lemma dec_value_append: "dec_value (a @ b) = dec_value a * 10 ^ length b + dec_value b"
proof (induction b rule: rev_induct)
  case (snoc c b)
  have "dec_value (a @ b @ [c]) = 10 * dec_value (a @ b) + digit_value c"
    using dec_value_snoc [of "a @ b" c] by simp
  then show ?case using snoc by (simp add: algebra_simps)
qed simp

lemma dec_value_zeros [simp]: "dec_value (replicate n CHR ''0'') = 0"
proof (induction n)
  case (Suc n)
  have "dec_value (replicate n CHR ''0'' @ [CHR ''0'']) = 0"
    using Suc dec_value_snoc [of "replicate n CHR ''0''" "CHR ''0''"] by (simp add: digit_value_def)
  then show ?case by (simp add: replicate_append_same [symmetric])
qed simp

lemma length_nat_dec: "0 < k \<Longrightarrow> n < 10 ^ k \<Longrightarrow> length (nat_dec n) \<le> k"
proof (induction n arbitrary: k rule: nat_dec.induct)
  case (1 n)
  show ?case
  proof (cases "n < 10")
    case True
    then show ?thesis using 1(2) by (subst nat_dec.simps) simp
  next
    case False
    then obtain j where j: "k = Suc j" "0 < j" using 1(2,3) by (cases k; cases "k - 1") auto
    then have "n div 10 < 10 ^ j" using 1(3) by (simp add: less_mult_imp_div_less mult.commute)
    then show ?thesis using 1(1) [OF False j(2)] False j(1) by (subst nat_dec.simps) simp
  qed
qed

lemma hd_nat_dec_nonzero: "0 < n \<Longrightarrow> hd (nat_dec n) \<noteq> CHR ''0''"
proof (induction n rule: nat_dec.induct)
  case (1 n)
  show ?case
  proof (cases "n < 10")
    case True
    have "digit_value CHR ''0'' = 0" by (simp add: digit_value_def)
    then have "digit_char n \<noteq> CHR ''0''" using 1(2) digit_value_digit_char [OF True] by force
    then show ?thesis using True by (subst nat_dec.simps) simp
  next
    case False
    then have "0 < n div 10" by simp
    then show ?thesis using 1(1) [OF False] False by (subst nat_dec.simps) simp
  qed
qed

lemma canonical_nat_dec: "canonical_whole (nat_dec n)"
proof (cases "n = 0")
  case True
  then show ?thesis by (simp add: canonical_whole_def) (subst nat_dec.simps, simp)
next
  case False
  then show ?thesis using hd_nat_dec_nonzero by (simp add: canonical_whole_def)
qed

lemma BigInt_digits:
  assumes "list_all is_digit s" "s \<noteq> []"
  shows "BigInt s = int (dec_value s)"
proof -
  obtain c cs where s: "s = c # cs" using assms(2) by (cases s) auto
  then have "c \<noteq> CHR ''-''" using assms(1) by (auto simp: char_class_defs)
  then show ?thesis using s by (simp add: BigInt_def)
qed

section \<open>The round trip\<close>

lemma strip_zeros_append: "\<exists>k. s = strip_zeros s @ replicate k CHR ''0''"
proof -
  let ?t = "takeWhile (\<lambda>c. c = CHR ''0'') (rev s)"
  have "\<forall>c \<in> set ?t. c = CHR ''0''" by (auto dest: set_takeWhileD)
  then have "?t = replicate (length ?t) CHR ''0''" by (simp add: replicate_length_same)
  then have "rev ?t = replicate (length ?t) CHR ''0''" using rev_replicate by (metis (no_types))
  moreover have "rev (?t @ dropWhile (\<lambda>c. c = CHR ''0'') (rev s)) = s"
    unfolding takeWhile_dropWhile_id by simp
  then have "s = strip_zeros s @ rev ?t" unfolding rev_append strip_zeros_def by (rule sym)
  ultimately show ?thesis by (intro exI [of _ "length ?t"]) simp
qed

lemma digit_not_space: "is_digit c \<Longrightarrow> \<not> is_space c \<and> c \<noteq> CHR ''.''"
  by (auto simp: char_class_defs is_space_def)

lemma trim_id:
  assumes "s \<noteq> []" "\<not> is_space (hd s)" "\<not> is_space (last s)"
  shows "trim s = s"
proof -
  have "dropWhile is_space s = s" using assms by (cases s) auto
  moreover have "dropWhile is_space (rev s) = rev s"
    using assms by (cases s rule: rev_cases) auto
  ultimately show ?thesis by (simp add: trim_def)
qed

lemma match_amount_printed:
  assumes "canonical_whole w" "list_all is_digit w" "f \<noteq> []" "length f \<le> TOKEN_DECIMALS" "list_all is_digit f"
  shows "match_amount (w @ CHR ''.'' # f) = Some (w, f)"
proof -
  have "\<forall>c \<in> set w. c \<noteq> CHR ''.''" using assms(2) digit_not_space by (auto simp: list_all_iff)
  then show ?thesis using assms by (simp add: match_amount_def Let_def takeWhile_append2 dropWhile_append2)
qed

text \<open>The six fraction digits, and the shortest text that pads back to them.\<close>

lemma frac_text:
  assumes "f < 10 ^ TOKEN_DECIMALS"
  defines "six \<equiv> padStart0 TOKEN_DECIMALS (nat_dec f)"
  defines "t \<equiv> (if strip_zeros six = [] then ''0'' else strip_zeros six)"
  shows "t \<noteq> [] \<and> length t \<le> TOKEN_DECIMALS \<and> list_all is_digit t \<and>
    take TOKEN_DECIMALS (padEnd0 TOKEN_DECIMALS t) = six \<and> length six = TOKEN_DECIMALS \<and>
    list_all is_digit six \<and> dec_value six = f"
proof -
  have len: "length (nat_dec f) \<le> TOKEN_DECIMALS"
    using length_nat_dec [OF _ assms(1)] by (simp add: TOKEN_DECIMALS_def)
  then have six: "length six = TOKEN_DECIMALS" "list_all is_digit six" "dec_value six = f"
    using nat_dec_digits [of f] zero_is_digit
    by (auto simp: six_def padStart0_def dec_value_append list_all_iff)
  obtain k where k: "six = strip_zeros six @ replicate k CHR ''0''" using strip_zeros_append by blast
  have dig: "list_all is_digit (strip_zeros six)" using six(2) by (subst (asm) k) simp
  have "padEnd0 TOKEN_DECIMALS t = six"
  proof (cases "strip_zeros six = []")
    case True
    then have "six = replicate TOKEN_DECIMALS CHR ''0''" using k six(1) by (metis append_Nil length_replicate)
    then show ?thesis using True by (simp add: t_def padEnd0_def TOKEN_DECIMALS_def numeral_eq_Suc)
  next
    case False
    have "k = TOKEN_DECIMALS - length (strip_zeros six)"
      using arg_cong [OF k, of length] six(1) by simp
    then show ?thesis using False k by (simp add: t_def padEnd0_def)
  qed
  moreover have "length t \<le> TOKEN_DECIMALS"
    using arg_cong [OF k, of length] six(1) by (simp add: t_def TOKEN_DECIMALS_def)
  moreover have "list_all is_digit t" using dig by (simp add: t_def char_class_defs)
  ultimately show ?thesis using six by (simp add: t_def)
qed

lemma printed_amount_parses:
  assumes "0 \<le> raw"
  shows "toTokenAmount (fromTokenAmount raw) = Inr raw"
proof -
  define w where "w = nat raw div 10 ^ TOKEN_DECIMALS"
  define f where "f = nat raw mod 10 ^ TOKEN_DECIMALS"
  define six where "six = padStart0 TOKEN_DECIMALS (nat_dec f)"
  define t where "t = (if strip_zeros six = [] then ''0'' else strip_zeros six)"
  have f: "f < 10 ^ TOKEN_DECIMALS" by (simp add: f_def)
  have ft: "t \<noteq> []" "length t \<le> TOKEN_DECIMALS" "list_all is_digit t"
    "take TOKEN_DECIMALS (padEnd0 TOKEN_DECIMALS t) = six" "length six = TOKEN_DECIMALS"
    "list_all is_digit six" "dec_value six = f"
    using frac_text [OF f] unfolding t_def six_def by blast+
  have q: "raw sdiv 10 ^ TOKEN_DECIMALS = int w" "raw smod 10 ^ TOKEN_DECIMALS = int f"
    using assms by (auto simp: sgn_if signed_divide_int_def signed_modulo_int_def w_def f_def nat_div_distrib nat_mod_distrib zdiv_int zmod_int)
  then have printed: "fromTokenAmount raw = nat_dec w @ CHR ''.'' # t"
    by (simp add: fromTokenAmount_def Let_def String_def six_def t_def)
  have "trim (nat_dec w @ CHR ''.'' # t) = nat_dec w @ CHR ''.'' # t"
  proof (rule trim_id)
    show "\<not> is_space (hd (nat_dec w @ CHR ''.'' # t))"
      using nat_dec_digits [of w] digit_not_space by (auto simp: list_all_iff hd_append)
    show "\<not> is_space (last (nat_dec w @ CHR ''.'' # t))"
      using ft digit_not_space by (auto simp: list_all_iff)
  qed simp
  then have "toTokenAmount (fromTokenAmount raw) = Inr (BigInt (nat_dec w @ six))"
    using ft match_amount_printed [OF canonical_nat_dec nat_dec_digits] by (simp add: toTokenAmount_def printed)
  also have "BigInt (nat_dec w @ six) = int (w * 10 ^ TOKEN_DECIMALS + f)"
    using ft by (subst BigInt_digits) (simp_all add: dec_value_append)
  also have "w * 10 ^ TOKEN_DECIMALS + f = nat raw" unfolding w_def f_def by (rule div_mult_mod_eq)
  also have "int (nat raw) = raw" using assms by simp
  finally show ?thesis .
qed

text \<open>C19: printing an amount and reading it back is exact: every non-negative number of base
  units survives \<^verbatim>\<open>fromTokenAmount\<close> followed by \<^verbatim>\<open>toTokenAmount\<close>.\<close>

theorem token_amount_roundtrip:
  assumes "0 \<le> raw"
  shows "toTokenAmount (fromTokenAmount raw) = Inr raw"
  by (rule printed_amount_parses [OF assms])

theorem token_amount_roundtrip_witness: "toTokenAmount (fromTokenAmount 1500000) = Inr 1500000"
  using token_amount_roundtrip [of 1500000] by simp

text \<open>What the printer writes for one and a half tokens.\<close>

lemma from_one_and_half: "fromTokenAmount 1500000 = ''1.5''"
  by (simp add: fromTokenAmount_def TOKEN_DECIMALS_def signed_divide_int_def signed_modulo_int_def String_def
      nat_dec.simps [of "Suc 0"] nat_dec.simps [of 500000] nat_dec.simps [of 50000] nat_dec.simps [of 5000]
      nat_dec.simps [of 500] nat_dec.simps [of 50] nat_dec.simps [of 5] padStart0_def strip_zeros_def Let_def)

end
