(* ===== verification/Facilitator_Contract.thy ===== *)
theory Facilitator_Contract
  imports Token
begin

text \<open>
  The seller-to-facilitator wire (\<^verbatim>\<open>packages/delegation/src/facilitator-contract.ts\<close>): the
  closed vocabulary of refusal words, the two outcome ladders \<^verbatim>\<open>decideVerification\<close> and
  \<^verbatim>\<open>decideSettlement\<close>, and the payment-intent key both sides derive.

  The functions of the \<^verbatim>\<open>viem\<close> package and the delegation toolkit are parameters, fields of
  a record; \<open>viem_ok\<close> states what the code relies on: checksumming is idempotent, keeps the
  address and identifies exactly the spellings of one address.
\<close>

section \<open>Third-party functions\<close>

record viem =
  v_isAddress :: "string \<Rightarrow> bool"
  v_getAddress :: "string \<Rightarrow> string"
  v_isHex :: "string \<Rightarrow> bool"
  v_keccak256 :: "string \<Rightarrow> string"
  v_toBytes :: "string \<Rightarrow> string"
  v_encodeIntent :: "string \<times> string \<times> string \<times> int \<times> string \<times> string \<times> string \<Rightarrow> string"
  v_decodeDelegations :: "string \<Rightarrow> string list option"

definition viem_ok :: "viem \<Rightarrow> bool" where
  "viem_ok v \<longleftrightarrow>
     (\<forall>a. v_isAddress v a \<longrightarrow> v_isAddress v (v_getAddress v a)) \<and>
     (\<forall>a b. v_isAddress v a \<longrightarrow> v_isAddress v b \<longrightarrow>
        (v_getAddress v a = v_getAddress v b) = (toLowerCase a = toLowerCase b)) \<and>
     (\<forall>a. v_isAddress v a \<longrightarrow> toLowerCase (v_getAddress v a) = toLowerCase a) \<and>
     v_isAddress v MOCK_USDC_address \<and> v_getAddress v MOCK_USDC_address = MOCK_USDC_address"

lemma viem_getAddress_idem: "viem_ok v \<Longrightarrow> v_isAddress v a \<Longrightarrow> v_getAddress v (v_getAddress v a) = v_getAddress v a"
  unfolding viem_ok_def by blast

lemma viem_isAddress_get: "viem_ok v \<Longrightarrow> v_isAddress v a \<Longrightarrow> v_isAddress v (v_getAddress v a)"
  unfolding viem_ok_def by blast

text \<open>A concrete instance for the witnesses: any 20-byte hex text is an address, its lower case the canonical form.\<close>

definition sample_viem :: viem where
  "sample_viem = \<lparr>v_isAddress = hex_literal is_hex 40,
     v_getAddress = (\<lambda>a. if toLowerCase a = toLowerCase MOCK_USDC_address then MOCK_USDC_address else toLowerCase a),
     v_isHex = (\<lambda>s. take 2 s = ''0x'' \<and> list_all is_hex (drop 2 s)),
     v_keccak256 = id, v_toBytes = id,
     v_encodeIntent = (\<lambda>(d, n, a, m, p, dm, c). d @ n @ a @ String m @ p @ dm @ c),
     v_decodeDelegations = (\<lambda>s. Some [take 42 s])\<rparr>"

lemma mock_usdc_hex: "hex_literal is_hex 40 MOCK_USDC_address"
  by (simp add: MOCK_USDC_address_def hex_literal_def char_class_defs)

lemma mock_usdc_mixed_case: "toLowerCase a \<noteq> MOCK_USDC_address"
proof
  assume "toLowerCase a = MOCK_USDC_address"
  then have "toLowerCase MOCK_USDC_address = MOCK_USDC_address" using toLowerCase_idem by metis
  moreover have "toLowerCase MOCK_USDC_address \<noteq> MOCK_USDC_address" by code_simp
  ultimately show False by simp
qed

lemma sample_viem_ok: "viem_ok sample_viem"
  using mock_usdc_hex mock_usdc_mixed_case mock_usdc_mixed_case [symmetric]
  by (auto simp: viem_ok_def sample_viem_def hex_literal_lower)

section \<open>The words\<close>

definition GIWA_SEPOLIA_CAIP2 :: string where "GIWA_SEPOLIA_CAIP2 = ''eip155:91342''"
definition SETTLEMENT_PENDING :: string where "SETTLEMENT_PENDING = ''settlement_pending''"
definition RATE_LIMITED :: string where "RATE_LIMITED = ''rate_limited''"
definition FACILITATOR_NOT_READY :: string where "FACILITATOR_NOT_READY = ''facilitator_not_ready''"
definition INVALID_PAYLOAD :: string where "INVALID_PAYLOAD = ''invalid_payload''"
definition DELEGATION_REJECTED :: string where "DELEGATION_REJECTED = ''delegation_rejected''"
definition VENDOR_NOT_CREDITED :: string where "VENDOR_NOT_CREDITED = ''vendor_not_credited''"
definition SETTLEMENT_REVERTED :: string where "SETTLEMENT_REVERTED = ''settlement_reverted''"
definition PAYMENT_IDENTIFIER_CONFLICT :: string where
  "PAYMENT_IDENTIFIER_CONFLICT = ''payment_identifier_conflict''"
definition PAYMENT_IDENTIFIER_SETTLED :: string where
  "PAYMENT_IDENTIFIER_SETTLED = ''payment_identifier_settled''"
definition UNEXPECTED_VERIFY_ERROR :: string where "UNEXPECTED_VERIFY_ERROR = ''unexpected_verify_error''"
definition UNEXPECTED_SETTLE_ERROR :: string where "UNEXPECTED_SETTLE_ERROR = ''unexpected_settle_error''"

lemmas wire_words = SETTLEMENT_PENDING_def RATE_LIMITED_def FACILITATOR_NOT_READY_def INVALID_PAYLOAD_def
  DELEGATION_REJECTED_def VENDOR_NOT_CREDITED_def SETTLEMENT_REVERTED_def PAYMENT_IDENTIFIER_CONFLICT_def
  PAYMENT_IDENTIFIER_SETTLED_def UNEXPECTED_VERIFY_ERROR_def UNEXPECTED_SETTLE_ERROR_def

definition KNOWN_REFUSAL_REASONS :: "string list" where
  "KNOWN_REFUSAL_REASONS = [''insufficient_funds'', ''invalid_scheme'', ''unsupported_scheme'',
     ''invalid_network'', INVALID_PAYLOAD, ''invalid_payment_requirements'', ''invalid_x402_version'',
     ''invalid_transaction_state'', DELEGATION_REJECTED, ''payer_budget_exhausted'', ''budget_exhausted'',
     SETTLEMENT_REVERTED, VENDOR_NOT_CREDITED]"

definition MINED_REFUSAL_REASONS :: "string list" where
  "MINED_REFUSAL_REASONS = [SETTLEMENT_REVERTED, VENDOR_NOT_CREDITED]"

definition foldRefusalReason :: "js \<Rightarrow> string" where
  "foldRefusalReason value = (case value of
     JString s \<Rightarrow> if s \<in> set KNOWN_REFUSAL_REASONS then s else DELEGATION_REJECTED
   | _ \<Rightarrow> DELEGATION_REJECTED)"

definition readTransaction :: "js \<Rightarrow> string option" where
  "readTransaction value = (case value of
     JString s \<Rightarrow> if hex_literal is_hex 64 s then Some s else None
   | _ \<Rightarrow> None)"

section \<open>The two ladders\<close>

text \<open>\<^verbatim>\<open>!body || typeof body !== "object"\<close>, negated.\<close>

definition is_object_body :: "js \<Rightarrow> bool" where
  "is_object_body body \<longleftrightarrow> typeof_object body \<and> body \<noteq> JNull"

record FacilitatorAnswer =
  fa_reachable :: bool
  fa_body :: js

text \<open>\<^verbatim>\<open>typeof payer === "string" && isAddress(payer) && getAddress(payer) === expectedPayer\<close>.\<close>

definition names_payer :: "viem \<Rightarrow> js \<Rightarrow> string \<Rightarrow> bool" where
  "names_payer v payer expectedPayer = (case payer of
     JString s \<Rightarrow> v_isAddress v s \<and> v_getAddress v s = expectedPayer
   | _ \<Rightarrow> False)"

definition isVerificationAccepted :: "viem \<Rightarrow> js \<Rightarrow> string \<Rightarrow> bool" where
  "isVerificationAccepted v body expectedPayer \<longleftrightarrow>
     is_object_body body \<and> js_get body ''isValid'' = JBool True \<and>
     names_payer v (js_get body ''payer'') expectedPayer"

datatype VerificationOutcome =
    VerifyUnavailable string
  | VerifyRejected string
  | VerifyAccepted string

definition decideVerification :: "viem \<Rightarrow> FacilitatorAnswer \<Rightarrow> string \<Rightarrow> VerificationOutcome" where
  "decideVerification v response expectedPayer =
     (if \<not> fa_reachable response \<or> \<not> is_object_body (fa_body response)
      then VerifyUnavailable FACILITATOR_NOT_READY
      else let invalidReason = js_get (fa_body response) ''invalidReason'' in
        if invalidReason = JString RATE_LIMITED then VerifyUnavailable RATE_LIMITED
        else if invalidReason = JString FACILITATOR_NOT_READY \<or> invalidReason = JString UNEXPECTED_VERIFY_ERROR
        then VerifyUnavailable FACILITATOR_NOT_READY
        else if \<not> isVerificationAccepted v (fa_body response) expectedPayer
        then VerifyRejected (foldRefusalReason invalidReason)
        else VerifyAccepted expectedPayer)"

datatype SettlementLadder =
    LadderUnavailable string
  | LadderUnknown "string option"
  | LadderFailed string "string option"
  | LadderSettled "string option" bool

definition decideSettlement :: "viem \<Rightarrow> FacilitatorAnswer \<Rightarrow> string \<Rightarrow> SettlementLadder" where
  "decideSettlement v response expectedPayer =
     (if \<not> fa_reachable response \<or> \<not> is_object_body (fa_body response) then LadderUnknown None
      else let body = fa_body response;
               errorReason = js_get body ''errorReason'';
               transaction = readTransaction (js_get body ''transaction'') in
        if errorReason = JString RATE_LIMITED then LadderUnavailable RATE_LIMITED
        else if errorReason = JString FACILITATOR_NOT_READY then LadderUnavailable FACILITATOR_NOT_READY
        else if errorReason = JString SETTLEMENT_PENDING \<or> errorReason = JString UNEXPECTED_SETTLE_ERROR
        then LadderUnknown transaction
        else if js_get body ''success'' \<noteq> JBool True
        then (let word = foldRefusalReason errorReason in
          if transaction \<noteq> None \<and> word \<notin> set MINED_REFUSAL_REASONS then LadderUnknown transaction
          else LadderFailed word transaction)
        else if \<not> names_payer v (js_get body ''payer'') expectedPayer then LadderUnknown transaction
        else LadderSettled transaction (js_get body ''replayed'' = JBool True))"

section \<open>The payment-intent key\<close>

record PaymentIntent =
  pin_network :: string
  pin_asset :: string
  pin_amount :: int
  pin_payTo :: string
  pin_delegationManager :: string
  pin_permissionContext :: string

definition PAYMENT_INTENT_DOMAIN :: "viem \<Rightarrow> string" where
  "PAYMENT_INTENT_DOMAIN v = v_keccak256 v (v_toBytes v ''mapae.erc7710.payment-intent.v1'')"

definition derivePaymentIntentId :: "viem \<Rightarrow> PaymentIntent \<Rightarrow> string" where
  "derivePaymentIntentId v i = v_keccak256 v (v_encodeIntent v (PAYMENT_INTENT_DOMAIN v, pin_network i,
     pin_asset i, pin_amount i, pin_payTo i, pin_delegationManager i,
     v_keccak256 v (pin_permissionContext i)))"

section \<open>Reading a ladder backwards\<close>

lemma foldRefusalReason_known: "foldRefusalReason w \<in> set KNOWN_REFUSAL_REASONS"
  by (simp add: foldRefusalReason_def KNOWN_REFUSAL_REASONS_def split: js.splits)

lemma mined_words: "w \<in> set MINED_REFUSAL_REASONS \<longleftrightarrow> w = SETTLEMENT_REVERTED \<or> w = VENDOR_NOT_CREDITED"
  by (simp add: MINED_REFUSAL_REASONS_def)

lemma known_words_closed:
  "w \<in> set KNOWN_REFUSAL_REASONS \<Longrightarrow>
   w \<notin> {SETTLEMENT_PENDING, RATE_LIMITED, FACILITATOR_NOT_READY, UNEXPECTED_VERIFY_ERROR,
     UNEXPECTED_SETTLE_ERROR, PAYMENT_IDENTIFIER_CONFLICT, PAYMENT_IDENTIFIER_SETTLED}"
  by (auto simp: KNOWN_REFUSAL_REASONS_def wire_words)

text \<open>The hash a reading of a settle answer names; it does not depend on whose payment it was.\<close>

definition ladder_hash :: "SettlementLadder \<Rightarrow> string option" where
  "ladder_hash l = (case l of LadderUnavailable _ \<Rightarrow> None | LadderUnknown t \<Rightarrow> t | LadderFailed _ t \<Rightarrow> t | LadderSettled t _ \<Rightarrow> t)"

lemma ladder_hash_simps [simp]:
  "ladder_hash (LadderUnavailable w) = None" "ladder_hash (LadderUnknown t) = t"
  "ladder_hash (LadderFailed w t) = t" "ladder_hash (LadderSettled t rep) = t"
  by (simp_all add: ladder_hash_def)

text \<open>Every outcome of \<^verbatim>\<open>decideSettlement\<close> and the body behind it.\<close>

lemma decideSettlement_cases:
  obtains (unknown_lost) "decideSettlement v r p = LadderUnknown None"
      "\<not> fa_reachable r \<or> \<not> is_object_body (fa_body r)"
  | (unavailable) w where "decideSettlement v r p = LadderUnavailable w" "fa_reachable r"
      "js_get (fa_body r) ''errorReason'' = JString w" "w = RATE_LIMITED \<or> w = FACILITATOR_NOT_READY"
  | (unknown) "decideSettlement v r p = LadderUnknown (readTransaction (js_get (fa_body r) ''transaction''))" "fa_reachable r"
  | (failed) w where "decideSettlement v r p = LadderFailed w (readTransaction (js_get (fa_body r) ''transaction''))"
      "fa_reachable r" "w = foldRefusalReason (js_get (fa_body r) ''errorReason'')"
      "js_get (fa_body r) ''success'' \<noteq> JBool True"
      "js_get (fa_body r) ''errorReason'' \<noteq> JString SETTLEMENT_PENDING"
      "js_get (fa_body r) ''errorReason'' \<noteq> JString UNEXPECTED_SETTLE_ERROR"
      "readTransaction (js_get (fa_body r) ''transaction'') = None \<or> w \<in> set MINED_REFUSAL_REASONS"
  | (settled) "decideSettlement v r p = LadderSettled (readTransaction (js_get (fa_body r) ''transaction''))
        (js_get (fa_body r) ''replayed'' = JBool True)" "fa_reachable r"
      "js_get (fa_body r) ''success'' = JBool True" "names_payer v (js_get (fa_body r) ''payer'') p"
proof -
  define b where "b = fa_body r"
  consider "\<not> fa_reachable r \<or> \<not> is_object_body b"
    | "fa_reachable r" "is_object_body b" "js_get b ''errorReason'' = JString RATE_LIMITED"
    | "fa_reachable r" "is_object_body b" "js_get b ''errorReason'' = JString FACILITATOR_NOT_READY"
      "js_get b ''errorReason'' \<noteq> JString RATE_LIMITED"
    | "fa_reachable r" "is_object_body b" "js_get b ''errorReason'' \<noteq> JString RATE_LIMITED"
      "js_get b ''errorReason'' \<noteq> JString FACILITATOR_NOT_READY"
      "js_get b ''errorReason'' = JString SETTLEMENT_PENDING \<or> js_get b ''errorReason'' = JString UNEXPECTED_SETTLE_ERROR"
    | "fa_reachable r" "is_object_body b" "js_get b ''errorReason'' \<noteq> JString RATE_LIMITED"
      "js_get b ''errorReason'' \<noteq> JString FACILITATOR_NOT_READY"
      "js_get b ''errorReason'' \<noteq> JString SETTLEMENT_PENDING" "js_get b ''errorReason'' \<noteq> JString UNEXPECTED_SETTLE_ERROR"
    by blast
  then show thesis
  proof cases
    case 1
    then show ?thesis using unknown_lost by (simp add: decideSettlement_def b_def)
  next
    case 2
    then show ?thesis using unavailable [of RATE_LIMITED] by (simp add: decideSettlement_def b_def)
  next
    case 3
    then show ?thesis using unavailable [of FACILITATOR_NOT_READY] by (simp add: decideSettlement_def b_def Let_def)
  next
    case 4
    then show ?thesis using unknown by (simp add: decideSettlement_def b_def Let_def)
  next
    case 5
    note c = 5 [unfolded b_def]
    show ?thesis
    proof (cases "js_get (fa_body r) ''success'' = JBool True")
      case True
      then show ?thesis
      proof (cases "names_payer v (js_get (fa_body r) ''payer'') p")
        case True
        then show ?thesis
          using c \<open>js_get (fa_body r) ''success'' = JBool True\<close>
          by (intro settled) (simp_all add: decideSettlement_def Let_def)
      next
        case False
        then show ?thesis
          using c \<open>js_get (fa_body r) ''success'' = JBool True\<close>
          by (intro unknown) (simp_all add: decideSettlement_def Let_def)
      qed
    next
      case False
      show ?thesis
      proof (cases "readTransaction (js_get (fa_body r) ''transaction'') = None \<or>
          foldRefusalReason (js_get (fa_body r) ''errorReason'') \<in> set MINED_REFUSAL_REASONS")
        case True
        have "decideSettlement v r p = LadderFailed (foldRefusalReason (js_get (fa_body r) ''errorReason''))
            (readTransaction (js_get (fa_body r) ''transaction''))"
          using c False True by (simp add: decideSettlement_def Let_def)
        then show ?thesis using failed [OF _ c(1) refl False c(5,6) True] by blast
      next
        case neither: False
        then show ?thesis using c False by (intro unknown) (simp_all add: decideSettlement_def Let_def)
      qed
    qed
  qed
qed

section \<open>Properties\<close>

text \<open>C4: a settlement is called failed only when nobody can have been charged in doubt, and no
  hash is dropped on the way. If \<^verbatim>\<open>decideSettlement\<close> answers \<^verbatim>\<open>failed\<close>, the facilitator was
  reached, did not claim success and did not say pending, unexpected, rate limited or not ready;
  the word is the body's, folded into the closed vocabulary; the hash is the one the body names,
  and a body that names any hash is failed only by a word for a mined transaction. And whatever
  the verdict, a hash the body names stands in it, unless the facilitator said in the same body
  that it was rate limited or not ready.\<close>

theorem settlement_failed_is_definite:
  assumes "decideSettlement v response payer = verdict"
  shows "(\<forall>word t. verdict = LadderFailed word t \<longrightarrow>
      fa_reachable response \<and> js_get (fa_body response) ''success'' \<noteq> JBool True \<and>
      js_get (fa_body response) ''errorReason'' \<notin> {JString SETTLEMENT_PENDING, JString UNEXPECTED_SETTLE_ERROR,
        JString RATE_LIMITED, JString FACILITATOR_NOT_READY} \<and>
      word = foldRefusalReason (js_get (fa_body response) ''errorReason'') \<and> word \<in> set KNOWN_REFUSAL_REASONS \<and>
      t = readTransaction (js_get (fa_body response) ''transaction'') \<and>
      (\<forall>h. js_get (fa_body response) ''transaction'' = JString h \<and> hex_literal is_hex 64 h \<longrightarrow>
         word = SETTLEMENT_REVERTED \<or> word = VENDOR_NOT_CREDITED)) \<and>
    (\<forall>h. fa_reachable response \<and> js_get (fa_body response) ''transaction'' = JString h \<and> hex_literal is_hex 64 h \<longrightarrow>
      ladder_hash verdict = Some h \<or>
      (\<exists>word. verdict = LadderUnavailable word \<and> js_get (fa_body response) ''errorReason'' = JString word \<and>
         (word = RATE_LIMITED \<or> word = FACILITATOR_NOT_READY)))"
proof -
  have object: "is_object_body (fa_body response)" if "js_get (fa_body response) ''transaction'' = JString h" for h
    using that by (cases "fa_body response") (auto simp: is_object_body_def js_get_def)
  have hash: "readTransaction (JString h) = Some h" if "hex_literal is_hex 64 h" for h
    using that by (simp add: readTransaction_def)
  show ?thesis using assms foldRefusalReason_known hash object
    by (auto simp: decideSettlement_def Let_def mined_words split: if_splits)
qed

definition sample_refusal :: "string \<Rightarrow> FacilitatorAnswer" where
  "sample_refusal word = \<lparr>fa_reachable = True, fa_body = JObject [(''success'', JBool False),
     (''transaction'', JString (''0x'' @ replicate 64 CHR ''1'')), (''errorReason'', JString word)]\<rparr>"

text \<open>A hash under a mined word is a failure with that hash; under a made-up word it leaves the outcome open.\<close>

theorem settlement_failed_is_definite_witness:
  "decideSettlement sample_viem (sample_refusal SETTLEMENT_REVERTED) ''0xa'' = LadderFailed SETTLEMENT_REVERTED (Some (''0x'' @ replicate 64 CHR ''1'')) \<and>
   ladder_hash (decideSettlement sample_viem (sample_refusal ''free text'') ''0xa'') = Some (''0x'' @ replicate 64 CHR ''1'')"
proof -
  have h: "hex_literal is_hex 64 (''0x'' @ replicate 64 CHR ''1'')" by (simp add: hex_literal_def char_class_defs list_all_iff)
  have "decideSettlement sample_viem (sample_refusal SETTLEMENT_REVERTED) ''0xa'' = LadderFailed SETTLEMENT_REVERTED (Some (''0x'' @ replicate 64 CHR ''1''))"
    using h by (simp add: decideSettlement_def sample_refusal_def is_object_body_def js_get_def wire_words
        foldRefusalReason_def KNOWN_REFUSAL_REASONS_def MINED_REFUSAL_REASONS_def readTransaction_def Let_def)
  moreover have "js_get (fa_body (sample_refusal ''free text'')) ''errorReason'' = JString ''free text''"
      "js_get (fa_body (sample_refusal ''free text'')) ''transaction'' = JString (''0x'' @ replicate 64 CHR ''1'')"
      "fa_reachable (sample_refusal ''free text'')"
    by (simp_all add: sample_refusal_def js_get_def)
  moreover note settlement_failed_is_definite [OF refl, of sample_viem "sample_refusal ''free text''" "''0xa''", THEN conjunct2]
  ultimately show ?thesis using h by (auto simp: wire_words)
qed

text \<open>A verification verdict is a verdict. \<^verbatim>\<open>accepted\<close> needs \<^verbatim>\<open>isValid: true\<close> and the expected
  payer; \<^verbatim>\<open>rejected\<close> carries a word of the closed vocabulary, and no answer that was lost or
  that says the facilitator did not look is ever a rejection.\<close>

theorem verification_verdicts:
  "(case decideVerification v response payer of
     VerifyAccepted p \<Rightarrow> p = payer \<and> fa_reachable response \<and>
        js_get (fa_body response) ''isValid'' = JBool True \<and> names_payer v (js_get (fa_body response) ''payer'') payer
   | VerifyRejected w \<Rightarrow> w \<in> set KNOWN_REFUSAL_REASONS \<and> fa_reachable response \<and>
        js_get (fa_body response) ''invalidReason'' \<notin>
          {JString RATE_LIMITED, JString FACILITATOR_NOT_READY, JString UNEXPECTED_VERIFY_ERROR}
   | VerifyUnavailable w \<Rightarrow> w = RATE_LIMITED \<or> w = FACILITATOR_NOT_READY)"
  by (simp add: decideVerification_def Let_def foldRefusalReason_known isVerificationAccepted_def)

end
