(* ===== verification/Settlement_Evidence.thy ===== *)
theory Settlement_Evidence
  imports Spend_Budget Facilitator_Contract
begin

text \<open>
  What proves a settlement (\<^verbatim>\<open>packages/delegation/src/settlement-evidence.ts\<close>): the
  before-and-after comparison of balances and the reading of the receipt's own transfer
  events. A discrepancy is its code; the human-readable detail, which only reports print, is
  left out.
\<close>

section \<open>Snapshots\<close>

record SettlementSnapshot =
  sn_payerToken :: int
  sn_payerNative :: int
  sn_vendorToken :: int
  sn_relayerNonce :: int

datatype SettlementDiscrepancyCode = PAYER_DEBIT | VENDOR_CREDIT | PAYER_PAID_GAS | RELAYER_NONCE

definition same_text :: "string option \<Rightarrow> string option \<Rightarrow> bool" where
  "same_text a b = (case (a, b) of
     (Some x, Some y) \<Rightarrow> x \<noteq> [] \<and> y \<noteq> [] \<and> toLowerCase x = toLowerCase y
   | _ \<Rightarrow> False)"

definition reconcileSettlement ::
    "SettlementSnapshot \<Rightarrow> SettlementSnapshot \<Rightarrow> int \<Rightarrow> string option \<Rightarrow> string option
      \<Rightarrow> SettlementDiscrepancyCode list result" where
  "reconcileSettlement before after amt payer vendor =
     (if amt \<le> 0 then Inl (Error ''reconcileSettlement needs a positive amount'')
      else if same_text payer vendor then Inl (Error ''payer and vendor are the same address'')
      else let payerDelta = sn_payerToken after - sn_payerToken before;
               vendorDelta = sn_vendorToken after - sn_vendorToken before;
               nonceDelta = sn_relayerNonce after - sn_relayerNonce before in
        Inr ((if payerDelta \<noteq> - amt then [PAYER_DEBIT] else [])
          @ (if vendorDelta \<noteq> amt then [VENDOR_CREDIT] else [])
          @ (if sn_payerNative after \<noteq> sn_payerNative before then [PAYER_PAID_GAS] else [])
          @ (if nonceDelta \<noteq> 1 then [RELAYER_NONCE] else [])))"

section \<open>Receipts\<close>

text \<open>\<^verbatim>\<open>keccak256(toBytes("Transfer(address,address,uint256)"))\<close>.\<close>

definition TRANSFER_EVENT_TOPIC :: "viem \<Rightarrow> string" where
  "TRANSFER_EVENT_TOPIC v = v_keccak256 v (v_toBytes v ''Transfer(address,address,uint256)'')"

record ReceiptLog =
  log_address :: string
  log_topics :: "string list"
  log_data :: string

definition TOPIC_PAD :: string where
  "TOPIC_PAD = ''0x000000000000000000000000''"

definition padTopicAddress :: "string \<Rightarrow> string" where
  "padTopicAddress address = TOPIC_PAD @ toLowerCase (drop 2 address)"

definition is_credit :: "viem \<Rightarrow> string \<Rightarrow> string \<Rightarrow> string \<Rightarrow> ReceiptLog \<Rightarrow> bool" where
  "is_credit v asset payer payTo entry \<longleftrightarrow>
     toLowerCase (log_address entry) = toLowerCase asset \<and>
     length (log_topics entry) = 3 \<and>
     toLowerCase (log_topics entry ! 0) = TRANSFER_EVENT_TOPIC v \<and>
     toLowerCase (log_topics entry ! 1) = padTopicAddress payer \<and>
     toLowerCase (log_topics entry ! 2) = padTopicAddress payTo \<and>
     hex_literal is_hex 64 (log_data entry)"

text \<open>\<^verbatim>\<open>BigInt(data)\<close> of a 32-byte word.\<close>

definition log_amount :: "ReceiptLog \<Rightarrow> int" where
  "log_amount entry = hex_value (drop 2 (log_data entry))"

definition reconcileSettlementReceipt ::
    "viem \<Rightarrow> ReceiptLog list \<Rightarrow> string \<Rightarrow> string \<Rightarrow> string \<Rightarrow> int \<Rightarrow> SettlementDiscrepancyCode list" where
  "reconcileSettlementReceipt v logs asset payer payTo amt =
     (case filter (is_credit v asset payer payTo) logs of
        [m] \<Rightarrow> if log_amount m \<noteq> amt then [VENDOR_CREDIT] else []
      | _ \<Rightarrow> [VENDOR_CREDIT])"

section \<open>What an empty list means\<close>

text \<open>
  The specification side: what the events of one transaction say moved from the payer to the
  recipient, as a sum over the well-formed transfer events of the asset.
\<close>

fun moved :: "viem \<Rightarrow> string \<Rightarrow> string \<Rightarrow> string \<Rightarrow> ReceiptLog list \<Rightarrow> int" where
  "moved v asset payer payTo [] = 0"
| "moved v asset payer payTo (l # ls) =
     (if is_credit v asset payer payTo l then log_amount l else 0) + moved v asset payer payTo ls"

lemma moved_filter: "moved v a p t ls = sum_list (map log_amount (filter (is_credit v a p t) ls))"
  by (induction ls) auto

lemma reconcile_empty_iff:
  "reconcileSettlementReceipt v logs asset payer payTo amt = [] \<longleftrightarrow>
     (\<exists>m. filter (is_credit v asset payer payTo) logs = [m] \<and> log_amount m = amt)"
  by (auto simp: reconcileSettlementReceipt_def split: list.split)

text \<open>The event an ERC-20 contract emits for one transfer: three topics and a 32-byte word.\<close>

fun hex_digits :: "nat \<Rightarrow> nat \<Rightarrow> string" where
  "hex_digits 0 n = []"
| "hex_digits (Suc k) n = hex_digits k (n div 16) @ [hex_char (n mod 16)]"

definition word32 :: "nat \<Rightarrow> string" where
  "word32 n = ''0x'' @ hex_digits 64 n"

definition transfer_log :: "viem \<Rightarrow> string \<Rightarrow> string \<Rightarrow> string \<Rightarrow> nat \<Rightarrow> ReceiptLog" where
  "transfer_log v asset from to n = \<lparr>log_address = asset,
     log_topics = [TRANSFER_EVENT_TOPIC v, padTopicAddress from, padTopicAddress to], log_data = word32 n\<rparr>"

lemma length_hex_digits [simp]: "length (hex_digits k n) = k"
  by (induction k n rule: hex_digits.induct) auto

lemma hex_digits_hex: "list_all is_hex (hex_digits k n)"
  by (induction k n rule: hex_digits.induct) (auto simp: hex_char_facts)

lemma hex_value_digits: "n < 16 ^ k \<Longrightarrow> hex_value (hex_digits k n) = int n"
proof (induction k n rule: hex_digits.induct)
  case (1 n)
  then show ?case by (simp add: hex_value_def)
next
  case (2 k n)
  then have "n div 16 < 16 ^ k" by (simp add: less_mult_imp_div_less mult.commute)
  then have "hex_value (hex_digits (Suc k) n) = 16 * int (n div 16) + int (n mod 16)"
    using 2 by (simp add: hex_value_snoc hex_char_facts)
  then show ?case by (simp add: of_nat_div of_nat_mod)
qed

lemma transfer_log_amount: "n < 2 ^ 256 \<Longrightarrow> log_amount (transfer_log v a f t n) = int n"
  using hex_value_digits [of n 64] by (simp add: log_amount_def transfer_log_def word32_def)

lemma lower_zero_prefix: "toLowerCase TOPIC_PAD = TOPIC_PAD"
  by code_simp

lemma toLowerCase_append: "toLowerCase (a @ b) = toLowerCase a @ toLowerCase b"
  by (simp add: toLowerCase_def)

lemma padTopicAddress_lower: "toLowerCase (padTopicAddress a) = padTopicAddress a"
  unfolding padTopicAddress_def by (simp add: toLowerCase_append lower_zero_prefix)

lemma transfer_log_credit:
  assumes "toLowerCase (TRANSFER_EVENT_TOPIC v) = TRANSFER_EVENT_TOPIC v"
  shows "is_credit v asset payer payTo (transfer_log v asset payer payTo n)"
  using assms by (simp add: is_credit_def transfer_log_def padTopicAddress_lower word32_def
      hex_literal_def hex_digits_hex)

text \<open>Who the events of one payer pay: another recipient's event never counts.\<close>

lemma pad_inj:
  "padTopicAddress a = padTopicAddress b \<longleftrightarrow> toLowerCase (drop 2 a) = toLowerCase (drop 2 b)"
  by (simp add: padTopicAddress_def)

text \<open>The snapshot comparison proves the claim exactly. It reports no discrepancy for a
  positive amount between distinct parties precisely when the payer lost that amount and the
  vendor gained it, the payer's native balance did not move (it paid no gas) and the relayer
  sent one transaction; any other movement is reported.\<close>

theorem snapshot_evidence_exact:
  assumes "0 < amt" and "\<not> same_text payer vendor"
  shows "reconcileSettlement before after amt payer vendor = Inr [] \<longleftrightarrow>
    sn_payerToken after = sn_payerToken before - amt \<and>
    sn_vendorToken after = sn_vendorToken before + amt \<and>
    sn_payerNative after = sn_payerNative before \<and>
    sn_relayerNonce after = sn_relayerNonce before + 1"
  using assms by (auto simp: reconcileSettlement_def Let_def)

theorem snapshot_evidence_exact_witness:
  "reconcileSettlement \<lparr>sn_payerToken = 10, sn_payerNative = 0, sn_vendorToken = 1, sn_relayerNonce = 4\<rparr>
     \<lparr>sn_payerToken = 7, sn_payerNative = 0, sn_vendorToken = 4, sn_relayerNonce = 5\<rparr> 3 (Some ''0xa'') (Some ''0xb'') = Inr []"
proof -
  have "\<not> same_text (Some ''0xa'') (Some ''0xb'')" by code_simp
  then show ?thesis
    by (subst snapshot_evidence_exact) simp_all
qed

text \<open>A receipt without discrepancy credited the vendor. When the receipt check reports
  nothing, the transfer events of the asset in this transaction move exactly the charged
  amount from the payer to the recipient, in exactly one event; the events of other assets,
  other parties or another shape do not matter wherever they stand in the receipt.\<close>

theorem receipt_evidence_sound:
  assumes "reconcileSettlementReceipt v logs asset payer payTo amt = []"
    and "\<forall>l \<in> set (xs @ ys). \<not> is_credit v asset payer payTo l"
  shows "moved v asset payer payTo logs = amt \<and>
    length (filter (is_credit v asset payer payTo) logs) = 1 \<and> 0 \<le> amt \<and>
    reconcileSettlementReceipt v (xs @ logs @ ys) asset payer payTo amt = []"
proof -
  obtain m where m: "filter (is_credit v asset payer payTo) logs = [m]" "log_amount m = amt"
    using assms(1) by (auto simp: reconcile_empty_iff)
  moreover have "filter (is_credit v asset payer payTo) (xs @ logs @ ys) = [m]"
    using m assms(2) by (simp add: filter_empty_conv [THEN iffD2])
  moreover have "0 \<le> amt" using m(2) by (auto simp: log_amount_def)
  ultimately show ?thesis by (simp add: moved_filter reconcile_empty_iff)
qed

text \<open>A sample codec whose hash prints in lower case, as the library's does.\<close>

definition event_viem :: viem where
  "event_viem = sample_viem\<lparr>v_keccak256 := toLowerCase\<rparr>"

lemma sample_topic: "toLowerCase (TRANSFER_EVENT_TOPIC event_viem) = TRANSFER_EVENT_TOPIC event_viem"
  by (simp add: TRANSFER_EVENT_TOPIC_def event_viem_def toLowerCase_idem)

lemma sample_transfer_proves:
  "reconcileSettlementReceipt event_viem [transfer_log event_viem ''0xA'' ''0xB'' ''0xC'' 5] ''0xA'' ''0xB'' ''0xC'' 5 = []"
  using transfer_log_credit [OF sample_topic, of "''0xA''" "''0xB''" "''0xC''" 5]
    transfer_log_amount [of 5 event_viem "''0xA''" "''0xB''" "''0xC''"]
  by (simp add: reconcileSettlementReceipt_def)

theorem receipt_evidence_sound_witness:
  "moved event_viem ''0xA'' ''0xB'' ''0xC'' [transfer_log event_viem ''0xA'' ''0xB'' ''0xC'' 5] = 5"
  using receipt_evidence_sound [OF sample_transfer_proves, of "[]" "[]"] by simp

text \<open>An honest ERC-20 transfer is recognised. The event a token emits for the charged
  amount passes the receipt check, for every 256-bit amount and every spelling of the
  addresses, and with two such events, or with any other amount in the event, the check fails.\<close>

theorem honest_transfer_recognised:
  assumes "toLowerCase (TRANSFER_EVENT_TOPIC v) = TRANSFER_EVENT_TOPIC v" and "n < 2 ^ 256"
  shows "(reconcileSettlementReceipt v [transfer_log v asset payer payTo n] asset payer payTo amt = []
      \<longleftrightarrow> amt = int n) \<and>
    reconcileSettlementReceipt v [transfer_log v asset payer payTo n, transfer_log v asset payer payTo n]
      asset payer payTo amt = [VENDOR_CREDIT]"
  using transfer_log_credit [OF assms(1), of asset payer payTo n] transfer_log_amount [OF assms(2), of v asset payer payTo]
  by (auto simp: reconcileSettlementReceipt_def)

theorem honest_transfer_recognised_witness:
  "reconcileSettlementReceipt event_viem [transfer_log event_viem ''0xA'' ''0xB'' ''0xC'' 7] ''0xA'' ''0xB'' ''0xC'' 7 = []"
  using honest_transfer_recognised [OF sample_topic, of 7 "''0xA''" "''0xB''" "''0xC''" 7] by simp

end
