(* ===== verification/Facilitator_Guards.thy ===== *)
theory Facilitator_Guards
  imports Rate_Limit Settlement_Evidence Js_Text
begin

text \<open>
  The decisions of the facilitator service that need no chain
  (\<^verbatim>\<open>apps/facilitator-erc7710/guards.ts\<close>, \<^verbatim>\<open>settlement.ts\<close>, \<^verbatim>\<open>metrics.ts\<close> and
  \<^verbatim>\<open>health.ts\<close>, with \<^verbatim>\<open>isRateLimitError\<close> of \<^verbatim>\<open>packages/delegation/src/rpc.ts\<close>): the
  classification of failures, the shared readiness probe, the answers on the wire and the
  operator's report.

  A thrown value is its chain of \<^verbatim>\<open>Error\<close> links, the thrown one first and each followed by
  its \<^verbatim>\<open>cause\<close>; the empty chain is a thrown value that is no \<^verbatim>\<open>Error\<close>. Walks read eight links
  at most, so a cyclic cause is a chain of eight.
\<close>

section \<open>Thrown values\<close>

datatype error_class =
    PlainError
  | ContractFunctionRevertedError
  | ExecutionRevertedError
  | HttpRequestError
  | TimeoutError
  | RpcUnreachableBeforeBroadcast
  | SettlementStorageUnavailable
  | SettlementPending string
  | PaymentValidationError string
  | BudgetExceeded string
  | RedemptionRejected

record error_link =
  el_class :: error_class
  el_message :: string
  el_details :: "string option"

type_synonym thrown = "error_link list"

definition link :: "error_class \<Rightarrow> string \<Rightarrow> error_link" where
  "link c m = \<lparr>el_class = c, el_message = m, el_details = None\<rparr>"

definition causeChain :: "thrown \<Rightarrow> thrown" where
  "causeChain e = take 8 e"

definition thrown_class :: "thrown \<Rightarrow> error_class option" where
  "thrown_class e = (case e of [] \<Rightarrow> None | l # _ \<Rightarrow> Some (el_class l))"

definition thrown_message :: "thrown \<Rightarrow> string" where
  "thrown_message e = (case e of [] \<Rightarrow> [] | l # _ \<Rightarrow> el_message l)"

section \<open>Rate limits in messages\<close>

text \<open>\<^verbatim>\<open>rate.?limit\<close> at the beginning of a text.\<close>

definition rate_limit_at :: "string \<Rightarrow> bool" where
  "rate_limit_at r \<longleftrightarrow> starts_with ''rate'' r \<and>
     (starts_with ''limit'' (drop 4 r) \<or>
      (drop 4 r \<noteq> [] \<and> \<not> is_newline (r ! 4) \<and> starts_with ''limit'' (drop 5 r)))"

text \<open>\<^verbatim>\<open>\s*:?\s*429\b\<close> after the word, where \<open>l\<close> is only asked for its last character.\<close>

definition code_429_at :: "string \<Rightarrow> bool" where
  "code_429_at r = (let a = dropWhile is_space r;
       b = dropWhile is_space (if starts_with '':'' a then drop 1 a else a)
     in starts_with ''429'' b \<and> word_boundary ''9'' (drop 3 b))"

definition status_429_at :: "string \<Rightarrow> string \<Rightarrow> bool" where
  "status_429_at l r \<longleftrightarrow> word_boundary l r \<and>
     list_ex (\<lambda>w. starts_with w r \<and> code_429_at (drop (length w) r)) [''http'', ''status'', ''code'']"

definition RATE_LIMIT_PATTERN :: "string \<Rightarrow> bool" where
  "RATE_LIMIT_PATTERN s = list_ex (\<lambda>(l, r).
     rate_limit_at r \<or> starts_with ''too many requests'' r \<or> status_429_at l r) (cuts (toLowerCase s))"

definition isRateLimitError :: "thrown \<Rightarrow> bool" where
  "isRateLimitError e = RATE_LIMIT_PATTERN (join_space (concat (map (\<lambda>l.
     el_message l # (case el_details l of None \<Rightarrow> [] | Some d \<Rightarrow> [d])) (causeChain e))))"

section \<open>Classification\<close>

definition is_revert_link :: "error_link \<Rightarrow> bool" where
  "is_revert_link l \<longleftrightarrow> el_class l = ContractFunctionRevertedError \<or> el_class l = ExecutionRevertedError"

definition is_transport_link :: "error_link \<Rightarrow> bool" where
  "is_transport_link l \<longleftrightarrow> el_class l = HttpRequestError \<or> el_class l = TimeoutError"

definition isRedemptionRevert :: "thrown \<Rightarrow> bool" where
  "isRedemptionRevert e = list_ex is_revert_link (causeChain e)"

definition isRpcUnreachable :: "thrown \<Rightarrow> bool" where
  "isRpcUnreachable e =
     (case find (\<lambda>l. is_revert_link l \<or> is_transport_link l) (causeChain e) of
        Some l \<Rightarrow> \<not> is_revert_link l
      | None \<Rightarrow> isRateLimitError e)"

definition beforeBroadcast :: "thrown + 'a \<Rightarrow> thrown + 'a" where
  "beforeBroadcast step = (case step of
     Inr a \<Rightarrow> Inr a
   | Inl e \<Rightarrow> Inl (if isRpcUnreachable e
       then link RpcUnreachableBeforeBroadcast ''RPC stopped answering before the redemption was broadcast'' # e
       else e))"

datatype route = RouteVerify | RouteSettle

datatype SettlementFailure =
    FailureNotReady
  | FailureRejected string
  | FailureError string

definition describeFailure :: "thrown \<Rightarrow> route \<Rightarrow> SettlementFailure" where
  "describeFailure e rt =
     (let unexpected = (if rt = RouteVerify then UNEXPECTED_VERIFY_ERROR else UNEXPECTED_SETTLE_ERROR);
          other = (if isRedemptionRevert e then FailureRejected DELEGATION_REJECTED else FailureRejected unexpected)
      in case thrown_class e of
        None \<Rightarrow> other
      | Some RpcUnreachableBeforeBroadcast \<Rightarrow> FailureNotReady
      | Some SettlementStorageUnavailable \<Rightarrow> FailureNotReady
      | Some (SettlementPending transaction) \<Rightarrow> FailureError transaction
      | Some (PaymentValidationError reason) \<Rightarrow> FailureRejected reason
      | Some (BudgetExceeded errorCode) \<Rightarrow> FailureRejected errorCode
      | Some RedemptionRejected \<Rightarrow> FailureRejected DELEGATION_REJECTED
      | Some _ \<Rightarrow> other)"

datatype FrameworkHealthError = FrameworkPaused | OwnerMismatch | RpcUnreachable | VerificationFailed

definition has_word :: "string \<Rightarrow> string \<Rightarrow> bool" where
  "has_word w s = list_ex (\<lambda>(l, r). word_boundary l r \<and> starts_with w r
     \<and> word_boundary (l @ w) (drop (length w) r)) (cuts s)"

definition classifyFrameworkError :: "thrown \<Rightarrow> FrameworkHealthError" where
  "classifyFrameworkError e =
     (if isRpcUnreachable e then RpcUnreachable
      else if has_word ''paused'' (thrown_message e) then FrameworkPaused
      else if contains ''owner mismatch'' (thrown_message e) \<or> contains ''admin identity mismatch'' (thrown_message e)
      then OwnerMismatch
      else VerificationFailed)"

definition frameworkPausedFrom :: "FrameworkHealthError option \<Rightarrow> bool option" where
  "frameworkPausedFrom e = (case e of
     None \<Rightarrow> Some False
   | Some FrameworkPaused \<Rightarrow> Some True
   | Some _ \<Rightarrow> None)"

section \<open>The shared probe\<close>

text \<open>\<^verbatim>\<open>#settled\<close> with its deadline, and whether \<^verbatim>\<open>#pending\<close> holds a promise.\<close>

record 'v CachedProbe =
  cp_settled :: "(int \<times> (thrown + 'v)) option"
  cp_pending :: bool
  cp_ttlMs :: int
  cp_cacheFailures :: bool

definition new_CachedProbe :: "int \<Rightarrow> bool \<Rightarrow> 'v CachedProbe result" where
  "new_CachedProbe ttlMs cacheFailures =
     (if ttlMs < 1 then Inl (Error ''ttlMs must be a positive integer'')
      else Inr \<lparr>cp_settled = None, cp_pending = False, cp_ttlMs = ttlMs, cp_cacheFailures = cacheFailures\<rparr>)"

definition prime :: "'v \<Rightarrow> int \<Rightarrow> 'v CachedProbe \<Rightarrow> 'v CachedProbe" where
  "prime v now p = p\<lparr>cp_settled := Some (now + cp_ttlMs p, Inr v)\<rparr>"

text \<open>What a caller of \<^verbatim>\<open>read\<close> gets: the window's answer, the probe in flight, or a probe of its own.\<close>

datatype 'v probe_answer = Cached "thrown + 'v" | Joined | Started

definition read_probe :: "int \<Rightarrow> 'v CachedProbe \<Rightarrow> 'v probe_answer \<times> 'v CachedProbe" where
  "read_probe now p =
     (let start = (if cp_pending p then (Joined, p) else (Started, p\<lparr>cp_pending := True\<rparr>)) in
      case cp_settled p of
        None \<Rightarrow> start
      | Some (until, out) \<Rightarrow> if now < until then (Cached out, p) else start)"

text \<open>\<^verbatim>\<open>#run\<close> once the probe answers.\<close>

definition finish_probe :: "int \<Rightarrow> thrown + 'v \<Rightarrow> 'v CachedProbe \<Rightarrow> 'v CachedProbe" where
  "finish_probe now out p =
     (let p' = (case out of
          Inr v \<Rightarrow> p\<lparr>cp_settled := Some (now + cp_ttlMs p, Inr v)\<rparr>
        | Inl e \<Rightarrow> if cp_cacheFailures p then p\<lparr>cp_settled := Some (now + cp_ttlMs p, Inl e)\<rparr> else p)
      in p'\<lparr>cp_pending := False\<rparr>)"

text \<open>\<^verbatim>\<open>requireReadiness\<close>: whether the request goes on.\<close>

definition requireReadiness :: "thrown + 'v \<Rightarrow> bool" where
  "requireReadiness reading = (case reading of Inr _ \<Rightarrow> True | Inl _ \<Rightarrow> False)"

section \<open>Answers\<close>

record http_answer =
  ans_status :: int
  ans_body :: js

definition VERIFY_RATE_LIMITED :: js where
  "VERIFY_RATE_LIMITED = JObject [(''isValid'', JBool False), (''invalidReason'', JString RATE_LIMITED)]"

definition SETTLE_RATE_LIMITED :: js where
  "SETTLE_RATE_LIMITED = JObject [(''success'', JBool False), (''transaction'', JString []),
     (''network'', JString GIWA_SEPOLIA_CAIP2), (''errorReason'', JString RATE_LIMITED)]"

definition VERIFY_NOT_READY :: http_answer where
  "VERIFY_NOT_READY = \<lparr>ans_status = 503, ans_body = JObject [(''isValid'', JBool False),
     (''invalidReason'', JString FACILITATOR_NOT_READY)]\<rparr>"

definition SETTLE_NOT_READY :: http_answer where
  "SETTLE_NOT_READY = \<lparr>ans_status = 200, ans_body = JObject [(''success'', JBool False),
     (''transaction'', JString []), (''network'', JString GIWA_SEPOLIA_CAIP2),
     (''errorReason'', JString FACILITATOR_NOT_READY)]\<rparr>"

text \<open>\<open>receipt_success\<close> is \<^verbatim>\<open>receipt.status === "success"\<close>.\<close>

definition receiptFailure ::
    "viem \<Rightarrow> bool \<Rightarrow> ReceiptLog list \<Rightarrow> string \<Rightarrow> string \<Rightarrow> string \<Rightarrow> int \<Rightarrow> string option" where
  "receiptFailure v receipt_success logs asset payer payTo amt =
     (if \<not> receipt_success then Some SETTLEMENT_REVERTED
      else if reconcileSettlementReceipt v logs asset payer payTo amt \<noteq> [] then Some VENDOR_NOT_CREDITED
      else None)"

text \<open>A recorded error word, when there is one and it is not empty (\<^verbatim>\<open>record.terminal?.errorCode\<close> as a condition).\<close>

definition recorded_failure :: "SettlementRecord \<Rightarrow> string option" where
  "recorded_failure rec = (case sr_terminal rec of
     None \<Rightarrow> None
   | Some e \<Rightarrow> (case ev_errorCode e of Some c \<Rightarrow> (if c = [] then None else Some c) | None \<Rightarrow> None))"

definition verifyKnownSettlement :: "SettlementRecord \<Rightarrow> thrown + unit" where
  "verifyKnownSettlement rec = (case recorded_failure rec of
     Some c \<Rightarrow> Inl [link (PaymentValidationError ''invalid_transaction_state'')
       (''settlement '' @ si_txHash rec @ '' already ended as '' @ c)]
   | None \<Rightarrow> Inr ())"

definition settlementResponse :: "SettlementRecord \<Rightarrow> bool \<Rightarrow> thrown + js" where
  "settlementResponse rec replayed = (case sr_terminal rec of
     None \<Rightarrow> Inl [link PlainError ''settlement is not terminal'']
   | Some e \<Rightarrow> Inr (JObject
       ([(''success'', JBool (ev_outcome e = Settled)), (''network'', JString GIWA_SEPOLIA_CAIP2),
         (''payer'', JString (si_payer rec)), (''transaction'', JString (si_txHash rec))]
        @ (case recorded_failure rec of Some c \<Rightarrow> [(''errorReason'', JString c)] | None \<Rightarrow> [])
        @ (if replayed then [(''replayed'', JBool True)] else []))))"

section \<open>The operator's report\<close>

definition REJECTED_SETTLEMENT_RETENTION_MS :: int where
  "REJECTED_SETTLEMENT_RETENTION_MS = 7 * DAY_MS"

definition REJECTED_SETTLEMENTS_KEPT :: int where
  "REJECTED_SETTLEMENTS_KEPT = 50000"

definition rejectedRetention :: "int \<Rightarrow> int \<times> int" where
  "rejectedRetention now = (max 0 (now - REJECTED_SETTLEMENT_RETENTION_MS), REJECTED_SETTLEMENTS_KEPT)"

definition readMetricsToken :: "string option \<Rightarrow> string option result" where
  "readMetricsToken env = (case map_option trim env of
     None \<Rightarrow> Inr None
   | Some token \<Rightarrow>
       if token = [] then Inr None
       else if length token < 16 then Inl (Error ''METRICS_TOKEN must be at least 16 characters'')
       else Inr (Some token))"

text \<open>\<^verbatim>\<open>/^Bearer\s+(\S+)\s*$/i\<close>.\<close>

definition bearer_value :: "string \<Rightarrow> string option" where
  "bearer_value h =
     (let r = drop 6 h; t = dropWhile is_space r;
          w = takeWhile (\<lambda>c. \<not> is_space c) t; z = dropWhile (\<lambda>c. \<not> is_space c) t
      in if toLowerCase (take 6 h) = ''bearer'' \<and> r \<noteq> [] \<and> is_space (hd r) \<and> w \<noteq> [] \<and> list_all is_space z
         then Some w else None)"

text \<open>\<^verbatim>\<open>sha256\<close> is node's digest.\<close>

definition bearerTokenMatches :: "(string \<Rightarrow> string) \<Rightarrow> string option \<Rightarrow> string \<Rightarrow> bool" where
  "bearerTokenMatches sha256 header token =
     (case bearer_value (case header of Some h \<Rightarrow> h | None \<Rightarrow> []) of
        None \<Rightarrow> False
      | Some presented \<Rightarrow> sha256 presented = sha256 token)"

record SummaryJson =
  sj_total :: int
  sj_succeeded :: int
  sj_failed :: int
  sj_volumeByPayTo :: "string \<rightharpoonup> string"
  sj_uniquePayers :: int

definition summaryJson :: "LedgerSummary \<Rightarrow> SummaryJson" where
  "summaryJson s = \<lparr>sj_total = sum_total s, sj_succeeded = sum_succeeded s, sj_failed = sum_failed s,
     sj_volumeByPayTo = (\<lambda>p. map_option String (sum_volumeByPayTo s p)), sj_uniquePayers = sum_uniquePayers s\<rparr>"

record BudgetJson =
  bj_day :: string
  bj_limitWei :: string
  bj_spentWei :: string
  bj_remainingWei :: string

record MetricsReport =
  mr_last24h :: SummaryJson
  mr_allTime :: SummaryJson
  mr_budget :: BudgetJson

text \<open>
  The gauge \<^verbatim>\<open>index.ts\<close> hands to the report: both readings come from the day's total in
  the store.
\<close>

definition gauge_spentToday :: "journal_db \<Rightarrow> int \<Rightarrow> int result" where
  "gauge_spentToday db now = ebind (budgetDay now) (\<lambda>d. budget_load (budget db) d)"

definition gauge_remaining :: "int \<Rightarrow> journal_db \<Rightarrow> int \<Rightarrow> int result" where
  "gauge_remaining limitWei db now = ebind (gauge_spentToday db now) (\<lambda>spent.
     let left = limitWei - spent in Inr (if 0 < left then left else 0))"

definition metricsReport :: "journal_db \<Rightarrow> int \<Rightarrow> int \<Rightarrow> MetricsReport result" where
  "metricsReport db now limitWei =
     ebind (ledger_summary (events db) (max 0 (now - DAY_MS))) (\<lambda>last24h.
     ebind (ledger_summary (events db) 0) (\<lambda>allTime.
     ebind (budgetDay now) (\<lambda>day.
     ebind (gauge_spentToday db now) (\<lambda>spent.
     ebind (gauge_remaining limitWei db now) (\<lambda>left.
       Inr \<lparr>mr_last24h = summaryJson last24h, mr_allTime = summaryJson allTime,
         mr_budget = \<lparr>bj_day = day, bj_limitWei = String limitWei, bj_spentWei = String spent,
           bj_remainingWei = String left\<rparr>\<rparr>)))))"

definition paymentReady :: "bool \<Rightarrow> bool \<Rightarrow> int option \<Rightarrow> int \<Rightarrow> bool" where
  "paymentReady framework database balance left \<longleftrightarrow>
     framework \<and> database \<and> (case balance of None \<Rightarrow> False | Some b \<Rightarrow> 0 < b) \<and> 0 < left"

text \<open>\<^verbatim>\<open>readPayerShare\<close>: a tenth of the day unless the operator sets it.\<close>

definition readPositiveInteger :: "string option \<Rightarrow> int \<Rightarrow> int result" where
  "readPositiveInteger env fallback =
     (let t = trim (case env of Some s \<Rightarrow> s | None \<Rightarrow> []); raw = (if t = [] then String fallback else t)
      in if raw \<noteq> [] \<and> is_digit (hd raw) \<and> hd raw \<noteq> CHR ''0'' \<and> list_all is_digit raw
         then Inr (BigInt raw) else Inl (Error ''must be a positive integer''))"

definition readPayerShare :: "string option \<Rightarrow> int \<Rightarrow> int result" where
  "readPayerShare env dailyWei =
     (let tenth = dailyWei div 10 in
      if tenth = 0 \<and> trim (case env of Some s \<Rightarrow> s | None \<Rightarrow> []) = []
      then Inl (Error ''RELAYER_DAILY_WEI under 10 wei leaves no default payer share'')
      else ebind (readPositiveInteger env tenth) (\<lambda>share.
        if dailyWei < share then Inl (Error ''RELAYER_PAYER_DAILY_WEI must not exceed RELAYER_DAILY_WEI'')
        else Inr share))"

section \<open>Properties of the classification\<close>

definition own_error :: "thrown \<Rightarrow> bool" where
  "own_error e \<longleftrightarrow> (case thrown_class e of
     None \<Rightarrow> False
   | Some c \<Rightarrow> c \<notin> {PlainError, ContractFunctionRevertedError, ExecutionRevertedError, HttpRequestError, TimeoutError})"

lemma describe_foreign:
  "\<not> own_error e \<Longrightarrow> describeFailure e rt = (if isRedemptionRevert e then FailureRejected DELEGATION_REJECTED
     else FailureRejected (if rt = RouteVerify then UNEXPECTED_VERIFY_ERROR else UNEXPECTED_SETTLE_ERROR))"
  by (auto simp: own_error_def describeFailure_def Let_def split: option.splits error_class.splits)

lemma find_first_revert:
  "find (\<lambda>l. is_revert_link l \<or> is_transport_link l) ls = Some l \<Longrightarrow> is_revert_link l \<Longrightarrow> list_ex is_revert_link ls"
  by (induction ls) (auto split: if_splits)

lemma find_none_revert:
  "find (\<lambda>l. is_revert_link l \<or> is_transport_link l) ls = None \<Longrightarrow> \<not> list_ex is_revert_link ls"
  by (induction ls) (auto split: if_splits)

text \<open>What a failure before the broadcast is called. For an error that is none of the service's
  own, the first link of its cause chain that is a revert or a transport failure decides: a
  revert is a rejected delegation whatever its text says, a transport failure is no verdict;
  without either, only a rate-limit text is no verdict and anything else is the route's
  unexpected error. On both routes alike.\<close>

theorem pre_broadcast_classification:
  assumes "\<not> own_error e" and "beforeBroadcast (Inl e :: thrown + 'a) = Inl e'"
  shows "describeFailure e' rt =
    (case find (\<lambda>l. is_revert_link l \<or> is_transport_link l) (causeChain e) of
       Some l \<Rightarrow> if is_revert_link l then FailureRejected DELEGATION_REJECTED else FailureNotReady
     | None \<Rightarrow> if isRateLimitError e then FailureNotReady
         else FailureRejected (if rt = RouteVerify then UNEXPECTED_VERIFY_ERROR else UNEXPECTED_SETTLE_ERROR))"
proof -
  have wrapped: "describeFailure (link RpcUnreachableBeforeBroadcast m # e) rt = FailureNotReady" for m
    by (simp add: describeFailure_def thrown_class_def link_def)
  have e': "e' = (if isRpcUnreachable e
      then link RpcUnreachableBeforeBroadcast ''RPC stopped answering before the redemption was broadcast'' # e else e)"
    using assms(2) by (simp add: beforeBroadcast_def del: append.simps)
  show ?thesis
  proof (cases "find (\<lambda>l. is_revert_link l \<or> is_transport_link l) (causeChain e)")
    case None
    have "\<not> isRedemptionRevert e" using find_none_revert [OF None] by (simp add: isRedemptionRevert_def)
    then show ?thesis unfolding e' using None wrapped describe_foreign [OF assms(1), of rt]
      by (simp add: isRpcUnreachable_def)
  next
    case (Some l)
    then have "is_revert_link l \<Longrightarrow> isRedemptionRevert e"
      using find_first_revert by (simp add: isRedemptionRevert_def)
    then show ?thesis unfolding e' using Some wrapped describe_foreign [OF assms(1), of rt]
      by (simp add: isRpcUnreachable_def)
  qed
qed

text \<open>A contract that reverts with the words of a rate limit is still a refusal.\<close>

definition sample_revert :: thrown where
  "sample_revert = [link PlainError ''rate limit exceeded'', link ContractFunctionRevertedError ''rate limit exceeded'']"

theorem pre_broadcast_classification_witness:
  "describeFailure sample_revert RouteSettle = FailureRejected DELEGATION_REJECTED"
proof -
  have f: "find (\<lambda>l. is_revert_link l \<or> is_transport_link l) (causeChain sample_revert)
      = Some (link ContractFunctionRevertedError ''rate limit exceeded'')"
    by (simp add: sample_revert_def causeChain_def is_revert_link_def is_transport_link_def link_def)
  have g: "\<not> isRpcUnreachable sample_revert"
    unfolding isRpcUnreachable_def f by (simp add: is_revert_link_def link_def)
  have "\<not> own_error sample_revert" by (simp add: own_error_def sample_revert_def thrown_class_def link_def)
  moreover have "beforeBroadcast (Inl sample_revert :: thrown + unit) = Inl sample_revert"
    using g by (simp add: beforeBroadcast_def)
  ultimately show ?thesis
    using pre_broadcast_classification [where 'a = unit, of sample_revert sample_revert RouteSettle] f
    by (simp add: is_revert_link_def link_def)
qed

section \<open>Properties of the probe\<close>

text \<open>What reaches a probe: a caller's read, or the answer of the probe in flight.\<close>

datatype 'v probe_op = Read int | Finish int "thrown + 'v"

fun probe_time :: "'v probe_op \<Rightarrow> int" where
  "probe_time (Read t) = t"
| "probe_time (Finish t _) = t"

fun probe_step :: "'v CachedProbe \<Rightarrow> 'v probe_op \<Rightarrow> 'v CachedProbe" where
  "probe_step p (Read t) = snd (read_probe t p)"
| "probe_step p (Finish t out) = (if cp_pending p then finish_probe t out p else p)"

fun probes_started :: "'v CachedProbe \<Rightarrow> 'v probe_op list \<Rightarrow> nat" where
  "probes_started p [] = 0"
| "probes_started p (a # as) =
     (case a of Read t \<Rightarrow> (case fst (read_probe t p) of Started \<Rightarrow> 1 | _ \<Rightarrow> 0) | Finish _ _ \<Rightarrow> 0)
       + probes_started (probe_step p a) as"

fun probes_failed :: "'v CachedProbe \<Rightarrow> 'v probe_op list \<Rightarrow> nat" where
  "probes_failed p [] = 0"
| "probes_failed p (a # as) =
     (case a of Read _ \<Rightarrow> 0 | Finish _ out \<Rightarrow> if cp_pending p \<and> (\<exists>e. out = Inl e) then 1 else 0)
       + probes_failed (probe_step p a) as"

lemma probe_step_params [simp]:
  "cp_ttlMs (probe_step p a) = cp_ttlMs p" "cp_cacheFailures (probe_step p a) = cp_cacheFailures p"
  by (cases a; auto simp: read_probe_def finish_probe_def Let_def split: option.splits sum.splits)+

text \<open>The window is closed: the settled answer outlives every time of the run.\<close>

definition answered_until :: "int \<Rightarrow> 'v CachedProbe \<Rightarrow> bool" where
  "answered_until hi p \<longleftrightarrow> (\<exists>until out. cp_settled p = Some (until, out) \<and> hi \<le> until)"

lemma answered_quiet:
  assumes "answered_until (lo + cp_ttlMs p) p" "\<forall>a \<in> set as. lo \<le> probe_time a \<and> probe_time a < lo + cp_ttlMs p"
  shows "probes_started p as = 0"
  using assms
proof (induction as arbitrary: p)
  case (Cons a as)
  obtain until out where s: "cp_settled p = Some (until, out)" "lo + cp_ttlMs p \<le> until"
    using Cons.prems(1) by (auto simp: answered_until_def)
  have t: "lo \<le> probe_time a" "probe_time a < until" using Cons.prems(2) s by auto
  have "answered_until (lo + cp_ttlMs p) (probe_step p a)"
    using s t by (cases a) (auto simp: answered_until_def read_probe_def finish_probe_def Let_def split: sum.splits)
  then have "probes_started (probe_step p a) as = 0" using Cons.IH [of "probe_step p a"] Cons.prems(2) by simp
  then show ?case using s t by (cases a) (simp_all add: read_probe_def)
qed simp

lemma read_probe_shape:
  "(\<exists>out. read_probe t p = (Cached out, p)) \<or> (cp_pending p \<and> read_probe t p = (Joined, p)) \<or>
   (\<not> cp_pending p \<and> read_probe t p = (Started, p\<lparr>cp_pending := True\<rparr>))"
  by (cases "cp_settled p") (auto simp: read_probe_def Let_def split: if_splits)

lemma probes_started_bound:
  assumes "\<forall>a \<in> set as. lo \<le> probe_time a \<and> probe_time a < lo + cp_ttlMs p"
  shows "probes_started p as \<le> (if cp_pending p then 0 else 1) + (if cp_cacheFailures p then 0 else probes_failed p as)"
  using assms
proof (induction as arbitrary: p)
  case (Cons a as)
  have rest: "\<forall>b \<in> set as. lo \<le> probe_time b \<and> probe_time b < lo + cp_ttlMs (probe_step p a)"
    using Cons.prems by simp
  note IH = Cons.IH [OF rest, unfolded probe_step_params]
  show ?case
  proof (cases a)
    case (Read t)
    consider (cached) out where "read_probe t p = (Cached out, p)" | (joined) "cp_pending p" "read_probe t p = (Joined, p)"
      | (started) "\<not> cp_pending p" "read_probe t p = (Started, p\<lparr>cp_pending := True\<rparr>)"
      using read_probe_shape [of t p] by blast
    then show ?thesis using IH Read by cases (simp_all split: if_splits)
  next
    case (Finish t out)
    show ?thesis
    proof (cases "cp_pending p \<and> (cp_cacheFailures p \<or> (\<exists>v. out = Inr v))")
      case True
      then have "answered_until (lo + cp_ttlMs (probe_step p a)) (probe_step p a)"
        using Cons.prems Finish by (auto simp: answered_until_def finish_probe_def Let_def split: sum.splits)
      then show ?thesis using answered_quiet [OF _ rest] Finish by simp
    next
      case False
      then show ?thesis using IH Finish by (cases out) (auto simp: finish_probe_def Let_def)
    qed
  qed
qed simp

text \<open>A flood of callers costs one probe. In any run of reads and answers within one window's
  length, however many callers there are, at most one probe is started beyond those in
  flight, plus, for a probe that does not cache failures, one for each probe that failed.\<close>

theorem probe_starts_bounded:
  assumes "\<forall>a \<in> set as. lo \<le> probe_time a \<and> probe_time a < lo + cp_ttlMs p"
  shows "probes_started p as \<le> (if cp_pending p then 0 else 1) + (if cp_cacheFailures p then 0 else probes_failed p as)"
  by (rule probes_started_bound [OF assms])

theorem probe_starts_bounded_witness:
  "probes_started \<lparr>cp_settled = None, cp_pending = False, cp_ttlMs = 5000, cp_cacheFailures = True\<rparr>
     [Read 0, Read 1, Finish 2 (Inl [] :: thrown + int), Read 3, Read 4000] \<le> 1"
  using probe_starts_bounded [of "[Read 0, Read 1, Finish 2 (Inl [] :: thrown + int), Read 3, Read 4000]" 0
      "\<lparr>cp_settled = None, cp_pending = False, cp_ttlMs = 5000, cp_cacheFailures = True\<rparr>"] by simp

section \<open>Properties of the configuration and the report\<close>

text \<open>The limits the service boots with are limits the journal accepts: a payer's share read
  from the environment is at least one wei and at most the day's ceiling.\<close>

theorem payer_share_valid:
  assumes "1 \<le> dailyWei" and "readPayerShare env dailyWei = Inr share"
  shows "1 \<le> share \<and> share \<le> dailyWei"
proof -
  have digits: "1 \<le> BigInt raw" if "raw \<noteq> []" "is_digit (hd raw)" "hd raw \<noteq> CHR ''0''" "list_all is_digit raw" for raw
  proof -
    obtain c cs where raw: "raw = c # cs" using \<open>raw \<noteq> []\<close> by (cases raw) auto
    have "c \<noteq> CHR ''-''" using that raw by (auto simp: is_digit_def char_between_def)
    moreover have "1 \<le> digit_value c"
    proof (rule ccontr)
      assume "\<not> 1 \<le> digit_value c"
      then have "digit_value c = 0" by simp
      then show False using digit_char_digit_value [of c] that raw by simp
    qed
    moreover have "dec_value (c # cs) \<ge> digit_value c"
    proof -
      have "x \<le> foldl (\<lambda>acc c. 10 * acc + digit_value c) x cs" for x :: nat
      proof (induction cs arbitrary: x)
        case (Cons d ds)
        then show ?case using order_trans [OF _ Cons [of "10 * x + digit_value d"], of x] by simp
      qed simp
      then show ?thesis by (simp add: dec_value_def)
    qed
    ultimately show ?thesis using raw by (simp add: BigInt_def)
  qed
  then show ?thesis
    using assms by (auto simp: readPayerShare_def readPositiveInteger_def Let_def result_simps split: if_splits)
qed

theorem payer_share_valid_witness: "1 \<le> (50 :: int) \<and> (50 :: int) \<le> 500"
proof -
  have "readPayerShare (Some ''50'') 500 = Inr 50" by code_simp
  then show ?thesis using payer_share_valid [of 500 "Some ''50''" 50] by simp
qed

end
