(* ===== verification/Write_Once.thy ===== *)
theory Write_Once
  imports Prelude
begin

text \<open>
  A contract several tables keep: once a key has a value, no operation of the component
  changes it. Whatever was done on the strength of a value read stays justified, across every
  later operation. The settlement journal keeps it for the transaction of an intent, the shop
  for the order of an intent.
\<close>

locale write_once =
  fixes val :: "'s \<Rightarrow> 'k \<Rightarrow> 'v option"
    and step :: "'s \<Rightarrow> 's \<Rightarrow> bool"
  assumes kept: "\<lbrakk>step s s'; val s k = Some v\<rbrakk> \<Longrightarrow> val s' k = Some v"
begin

lemma kept_steps: "step\<^sup>*\<^sup>* s s' \<Longrightarrow> val s k = Some v \<Longrightarrow> val s' k = Some v"
  by (induction rule: rtranclp_induct) (auto intro: kept)

lemma kept_list:
  assumes "step s s'" "\<forall>(k, v) \<in> set kvs. val s k = Some v"
  shows "\<forall>(k, v) \<in> set kvs. val s' k = Some v"
  using assms kept by blast

lemma agree: "val s k = Some v \<Longrightarrow> step\<^sup>*\<^sup>* s s' \<Longrightarrow> val s' k = Some v' \<Longrightarrow> v = v'"
  using kept_steps by fastforce

end

end
