(* ===== verification/Settlement_Recovery.thy ===== *)
theory Settlement_Recovery
  imports Facilitator_Guards Journal_Properties Write_Once
begin

text \<open>
  \<^verbatim>\<open>SettlementRecovery\<close> of \<^verbatim>\<open>apps/facilitator-erc7710/recovery.ts\<close> over the settlement
  journal. A call of \<^verbatim>\<open>settle\<close> has two stages, as in the code: the serialised preparation
  (look the intent up, allocate a nonce, sign, claim) and the resolution of a claim (look for
  its receipt, re-send its bytes, wait, account). Different calls interleave between the
  stages. What the node, the signer and the transaction codec answer during a call are
  parameters, and so is whether the disk fails at each use of the journal.
\<close>

section \<open>What a call depends on\<close>

record RecoveryReceipt =
  rcp_transactionHash :: string
  rcp_gasUsed :: js
  rcp_effectiveGasPrice :: js
  rcp_l1Fee :: js
  rcp_success :: bool
  rcp_logs :: "ReceiptLog list"

record RecoveryPayment =
  pay_paymentIntentId :: string
  pay_payer :: string
  pay_payTo :: string
  pay_amountBase :: int

text \<open>A parsed transaction; an absent field is \<open>None\<close>.\<close>

record parsed_transaction =
  tx_eip1559 :: bool
  tx_chainId :: "int option"
  tx_nonce :: "int option"
  tx_gas :: "int option"
  tx_maxFeePerGas :: "int option"
  tx_maxPriorityFeePerGas :: "int option"

record RecoveryOperations =
  op_pendingNonce :: "thrown + int"
  op_prepare :: "int \<Rightarrow> thrown + string"
  op_restore :: "SettlementRecord \<Rightarrow> thrown + string"
  op_receipt :: "string \<Rightarrow> thrown + RecoveryReceipt option"
  op_send :: "string \<Rightarrow> thrown + string"
  op_wait :: "string \<Rightarrow> thrown + RecoveryReceipt"
  op_failure :: "RecoveryReceipt \<Rightarrow> string option"

text \<open>The coordinator's constructor arguments and, for one call, its clock and the disk's faults.\<close>

record recovery_env =
  rv_keccak256 :: "string \<Rightarrow> string"
  rv_parseTransaction :: "string \<Rightarrow> thrown + parsed_transaction"
  rv_signer :: string
  rv_chainId :: int
  rv_limits :: SettlementLimits
  rv_claim_now :: int
  rv_finish_now :: int
  rv_read_fault :: bool
  rv_nonce_fault :: bool
  rv_claim_fault :: bool
  rv_finish_fault :: bool

section \<open>The stages\<close>

definition storage_unavailable :: thrown where
  "storage_unavailable = [link SettlementStorageUnavailable ''settlement storage unavailable'']"

definition pending_error :: "string \<Rightarrow> thrown" where
  "pending_error h = [link (SettlementPending h) ''redemption broadcast but not confirmed'']"

definition known :: "recovery_env \<Rightarrow> journal_db \<Rightarrow> string \<Rightarrow> thrown + SettlementRecord option" where
  "known env db i = (if rv_read_fault env then Inl storage_unavailable
     else case journal_read db i of Inl _ \<Rightarrow> Inl storage_unavailable | Inr r \<Rightarrow> Inr r)"

definition allocate_nonce :: "recovery_env \<Rightarrow> journal_db \<Rightarrow> int \<Rightarrow> thrown + int" where
  "allocate_nonce env db pending = (if rv_nonce_fault env then Inl storage_unavailable
     else case nextNonce db (rv_signer env) (rv_chainId env) pending of
       Inl _ \<Rightarrow> Inl storage_unavailable | Inr n \<Rightarrow> Inr n)"

definition envelope_matches :: "recovery_env \<Rightarrow> int \<Rightarrow> parsed_transaction \<Rightarrow> bool" where
  "envelope_matches env nonce tx \<longleftrightarrow> tx_eip1559 tx \<and> tx_chainId tx = Some (rv_chainId env) \<and>
     tx_nonce tx = Some nonce \<and> tx_gas tx \<noteq> None \<and> tx_maxFeePerGas tx \<noteq> None \<and> tx_maxPriorityFeePerGas tx \<noteq> None"

definition claim_input :: "recovery_env \<Rightarrow> RecoveryPayment \<Rightarrow> int \<Rightarrow> string \<Rightarrow> parsed_transaction \<Rightarrow> SettlementInput" where
  "claim_input env pay nonce serialized tx = \<lparr>si_paymentIntentId = pay_paymentIntentId pay,
     si_txHash = rv_keccak256 env serialized, si_signer = rv_signer env, si_chainId = rv_chainId env,
     si_nonce = nonce, si_gas = the (tx_gas tx), si_maxFeePerGas = the (tx_maxFeePerGas tx),
     si_maxPriorityFeePerGas = the (tx_maxPriorityFeePerGas tx), si_payer = pay_payer pay,
     si_payTo = pay_payTo pay, si_amountBase = pay_amountBase pay, si_createdAt = rv_claim_now env\<rparr>"

definition claim_prepared ::
    "recovery_env \<Rightarrow> SettlementInput \<Rightarrow> journal_db \<Rightarrow> (thrown + SettlementRecord) \<times> journal_db" where
  "claim_prepared env input db =
     (if rv_claim_fault env then (Inl storage_unavailable, db)
      else case claim db input (rv_limits env) of
        Inr (rec, db') \<Rightarrow> (Inr rec, db')
      | Inl (SettlementBudgetExceeded c) \<Rightarrow> (Inl [link (BudgetExceeded c) c], db)
      | Inl _ \<Rightarrow> (Inl storage_unavailable, db))"

text \<open>The preparation: the record and whether it predates the call.\<close>

definition recovery_prepare ::
    "recovery_env \<Rightarrow> RecoveryOperations \<Rightarrow> RecoveryPayment \<Rightarrow> journal_db
      \<Rightarrow> (thrown + SettlementRecord \<times> bool) \<times> journal_db" where
  "recovery_prepare env ops pay db =
     (case known env db (pay_paymentIntentId pay) of
        Inl e \<Rightarrow> (Inl e, db)
      | Inr (Some existing) \<Rightarrow> (Inr (existing, True), db)
      | Inr None \<Rightarrow> (case op_pendingNonce ops of
          Inl e \<Rightarrow> (Inl e, db)
        | Inr pending \<Rightarrow> (case allocate_nonce env db pending of
            Inl e \<Rightarrow> (Inl e, db)
          | Inr nonce \<Rightarrow> (case op_prepare ops nonce of
              Inl e \<Rightarrow> (Inl e, db)
            | Inr serialized \<Rightarrow> (case rv_parseTransaction env serialized of
                Inl e \<Rightarrow> (Inl e, db)
              | Inr tx \<Rightarrow>
                  if \<not> envelope_matches env nonce tx
                  then (Inl [link PlainError ''prepared transaction does not match the allocated envelope''], db)
                  else (case claim_prepared env (claim_input env pay nonce serialized tx) db of
                      (Inl e, db') \<Rightarrow> (Inl e, db')
                    | (Inr rec, db') \<Rightarrow> (Inr (rec, False), db')))))))"

text \<open>The receipt of a claim and the bytes handed to the node to get it. The answer of \<^verbatim>\<open>send\<close> is dropped.\<close>

definition obtain_receipt ::
    "recovery_env \<Rightarrow> RecoveryOperations \<Rightarrow> SettlementRecord \<Rightarrow> (thrown + RecoveryReceipt) \<times> string list" where
  "obtain_receipt env ops rec =
     (case op_receipt ops (si_txHash rec) of
        Inl e \<Rightarrow> (Inl e, [])
      | Inr (Some rcp) \<Rightarrow> (Inr rcp, [])
      | Inr None \<Rightarrow> (case op_restore ops rec of
          Inl e \<Rightarrow> (Inl e, [])
        | Inr serialized \<Rightarrow>
            if rv_keccak256 env serialized \<noteq> si_txHash rec
            then (Inl [link PlainError ''reconstructed transaction hash mismatch''], [])
            else (op_wait ops (si_txHash rec), [serialized])))"

text \<open>The checks on the receipt and \<^verbatim>\<open>actualCost\<close>.\<close>

definition receipt_cost :: "SettlementRecord \<Rightarrow> RecoveryReceipt \<Rightarrow> (int \<times> int) result" where
  "receipt_cost rec rcp =
     ebind (ensure (toLowerCase (rcp_transactionHash rcp) = si_txHash rec) (Error ''receipt hash mismatch'')) (\<lambda>_.
     case (rcp_gasUsed rcp, rcp_effectiveGasPrice rcp) of
       (JBigint gasUsed, JBigint price) \<Rightarrow>
         if gasUsed \<le> 0 then Inl (Error ''missing receipt fees'')
         else ebind (readReceiptFeeField (JBigint gasUsed)) (\<lambda>g.
              ebind (readReceiptFeeField (JBigint price)) (\<lambda>p.
              ebind (readReceiptFeeField (rcp_l1Fee rcp)) (\<lambda>l1.
                Inr (gasUsed, g * p + l1))))
     | _ \<Rightarrow> Inl (Error ''missing receipt fees''))"

definition recovery_resolve ::
    "recovery_env \<Rightarrow> RecoveryOperations \<Rightarrow> SettlementRecord \<Rightarrow> journal_db
      \<Rightarrow> (thrown + SettlementRecord) \<times> journal_db \<times> string list" where
  "recovery_resolve env ops rec db =
     (if sr_terminal rec \<noteq> None then (Inr rec, db, [])
      else case obtain_receipt env ops rec of
        (Inl _, sent) \<Rightarrow> (Inl (pending_error (si_txHash rec)), db, sent)
      | (Inr rcp, sent) \<Rightarrow> (case receipt_cost rec rcp of
          Inl _ \<Rightarrow> (Inl (pending_error (si_txHash rec)), db, sent)
        | Inr (gasUsed, actualCost) \<Rightarrow>
            if rv_finish_fault env then (Inl (pending_error (si_txHash rec)), db, sent)
            else (case finish db (si_paymentIntentId rec) \<lparr>fin_at = rv_finish_now env, fin_gasUsed = gasUsed,
                fin_actualCost = actualCost, fin_errorCode = op_failure ops rcp\<rparr> of
              Inl _ \<Rightarrow> (Inl (pending_error (si_txHash rec)), db, sent)
            | Inr (finished, db') \<Rightarrow> (Inr finished, db', sent))))"

text \<open>One call with nothing between its stages.\<close>

definition recovery_settle ::
    "recovery_env \<Rightarrow> RecoveryOperations \<Rightarrow> RecoveryPayment \<Rightarrow> journal_db
      \<Rightarrow> (thrown + SettlementRecord \<times> bool) \<times> journal_db \<times> string list" where
  "recovery_settle env ops pay db =
     (case recovery_prepare env ops pay db of
        (Inl e, db') \<Rightarrow> (Inl e, db', [])
      | (Inr (rec, replayed), db') \<Rightarrow> (case recovery_resolve env ops rec db' of
          (Inl e, db'', sent) \<Rightarrow> (Inl e, db'', sent)
        | (Inr rec', db'', sent) \<Rightarrow> (Inr (rec', replayed), db'', sent)))"

text \<open>A call coalesced into another's operation is handed that operation's answer, marked.\<close>

definition coalesced :: "thrown + SettlementRecord \<times> bool \<Rightarrow> thrown + SettlementRecord \<times> bool" where
  "coalesced result = (case result of Inl e \<Rightarrow> Inl e | Inr (rec, _) \<Rightarrow> Inr (rec, True))"

section \<open>The journal as a record of hashes\<close>

text \<open>What recovery relies on: the hash recorded for an intent is written once.\<close>

definition hash_of :: "journal_db \<Rightarrow> string \<Rightarrow> string option" where
  "hash_of db i = map_option ir_tx_hash (select_intent db (toLowerCase i))"

inductive journal_step :: "journal_db \<Rightarrow> journal_db \<Rightarrow> bool" where
  step_claim: "claim db input L = Inr (rec, db') \<Longrightarrow> journal_step db db'"
| step_finish: "finish db i res = Inr (rec, db') \<Longrightarrow> journal_step db db'"
| step_ledger: "journal_step db (db\<lparr>events := evs\<rparr>)"
| step_none: "journal_step db db"

lemma find_append_Some: "find p xs = Some r \<Longrightarrow> find p (xs @ ys) = Some r"
  by (induction xs) auto

lemma claim_keeps_hash:
  assumes "claim db input L = Inr (rec, db')" "hash_of db i = Some h"
  shows "hash_of db' i = Some h"
  using assms(1)
proof (cases rule: claim_cases)
  case (known r)
  then show ?thesis using assms(2) by simp
next
  case (fresh r)
  obtain q where "intents db' = intents db @ [q]" using fresh(2) by (rule claim_newE)
  then show ?thesis using assms(2) by (auto simp: hash_of_def select_intent_def intro: find_append_Some)
qed

lemma finish_keeps_hash:
  assumes "finish db i res = Inr (rec, db')"
  shows "hash_of db' k = hash_of db k"
  using assms
proof (cases rule: finish_cases)
  case (replay r)
  then show ?thesis by simp
next
  case (fresh r e)
  have "select_intent db' (toLowerCase k) = map_option
     (\<lambda>q. if ir_payment_intent_id q = ir_payment_intent_id r
       then q\<lparr>ir_terminal_event_id := Some (row_id e), ir_actual_cost := Some (String (fin_actualCost res))\<rparr> else q)
     (select_intent db (toLowerCase k))"
    unfolding select_intent_def fresh(11) by (simp add: finish_intent_def find_update_where)
  then show ?thesis by (cases "select_intent db (toLowerCase k)") (simp_all add: hash_of_def)
qed

lemma hash_of_events [simp]: "hash_of (db\<lparr>events := evs\<rparr>) i = hash_of db i"
  by (simp add: hash_of_def select_intent_def)

interpretation journal: write_once hash_of journal_step
proof
  fix s s' k v
  assume "journal_step s s'" "hash_of s k = Some v"
  then show "hash_of s' k = Some v"
    by (cases rule: journal_step.cases) (auto simp: claim_keeps_hash finish_keeps_hash)
qed

section \<open>What the stages do to the journal\<close>

lemma record_facts [simp]:
  "si_txHash (record_of_row evs r) = ir_tx_hash r"
  "si_paymentIntentId (record_of_row evs r) = ir_payment_intent_id r"
  by (simp_all add: record_of_row_def)

text \<open>A record is a ticket for its intent: the journal holds its hash under its identifier.\<close>

definition ticket :: "journal_db \<Rightarrow> SettlementRecord \<Rightarrow> bool" where
  "ticket db rec \<longleftrightarrow> hash_of db (si_paymentIntentId rec) = Some (si_txHash rec)
     \<and> toLowerCase (si_paymentIntentId rec) = si_paymentIntentId rec"

lemma ticket_of_row:
  "select_intent db (toLowerCase i) = Some r \<Longrightarrow> rec = record_of_row evs r
    \<Longrightarrow> ticket db rec \<and> si_paymentIntentId rec = toLowerCase i"
  using select_intent_Some [of db "toLowerCase i" r] by (simp add: ticket_def hash_of_def)

lemma knownE:
  assumes "known env db i = Inr found"
  shows "journal_read db i = Inr found" "\<not> rv_read_fault env"
  using assms by (auto simp: known_def split: if_splits sum.splits)

definition no_pending :: "thrown \<Rightarrow> bool" where
  "no_pending e \<longleftrightarrow> (\<forall>h. thrown_class e \<noteq> Some (SettlementPending h))"

text \<open>The operations' own failures are never the pending error, which only recovery raises.\<close>

definition plain_operations :: "recovery_env \<Rightarrow> RecoveryOperations \<Rightarrow> bool" where
  "plain_operations env ops \<longleftrightarrow> (\<forall>e. op_pendingNonce ops = Inl e \<longrightarrow> no_pending e) \<and>
     (\<forall>n e. op_prepare ops n = Inl e \<longrightarrow> no_pending e) \<and>
     (\<forall>s e. rv_parseTransaction env s = Inl e \<longrightarrow> no_pending e)"

lemma no_pending_describe: "no_pending e \<Longrightarrow> describeFailure e rt \<noteq> FailureError h"
  by (auto simp: no_pending_def describeFailure_def Let_def split: option.splits error_class.splits)

lemma describe_pending: "describeFailure (pending_error h) rt = FailureError h"
  by (simp add: describeFailure_def pending_error_def thrown_class_def link_def)

lemma known_error: "known env db i = Inl e \<Longrightarrow> e = storage_unavailable"
  by (auto simp: known_def split: if_splits sum.splits)

lemma allocate_error: "allocate_nonce env db n = Inl e \<Longrightarrow> e = storage_unavailable"
  by (auto simp: allocate_nonce_def split: if_splits sum.splits)

lemma storage_not_pending: "no_pending storage_unavailable"
  by (simp add: no_pending_def storage_unavailable_def thrown_class_def link_def)

lemma claim_prepared_cases:
  assumes "claim_prepared env input db = (r, db')"
  obtains (claimed) rec where "r = Inr rec" "claim db input (rv_limits env) = Inr (rec, db')"
  | (refused) e where "r = Inl e" "db' = db" "describeFailure e RouteSettle \<noteq> FailureError h"
proof (cases "rv_claim_fault env \<or> (\<exists>e. claim db input (rv_limits env) = Inl e)")
  case False
  then obtain rec db1 where "claim db input (rv_limits env) = Inr (rec, db1)" "\<not> rv_claim_fault env"
    by (cases "claim db input (rv_limits env)") auto
  then show ?thesis using assms by (intro claimed) (simp_all add: claim_prepared_def)
next
  case True
  then have "\<exists>e. r = Inl e \<and> db' = db \<and> (e = storage_unavailable \<or> (\<exists>c. e = [link (BudgetExceeded c) c]))"
    using assms by (fastforce simp: claim_prepared_def split: if_splits js_error.splits)
  then obtain e where e: "r = Inl e" "db' = db" "e = storage_unavailable \<or> (\<exists>c. e = [link (BudgetExceeded c) c])"
    by blast
  then have "no_pending e" using storage_not_pending by (auto simp: no_pending_def thrown_class_def link_def)
  then show ?thesis using e no_pending_describe by (intro refused [of e]) auto
qed

lemma recovery_prepare_cases:
  assumes "recovery_prepare env ops pay db = (r, db')"
  obtains (existing) rec where "r = Inr (rec, True)" "db' = db"
      "journal_read db (pay_paymentIntentId pay) = Inr (Some rec)"
  | (claimed) rec nonce s tx where "r = Inr (rec, False)"
      "journal_read db (pay_paymentIntentId pay) = Inr None"
      "claim db (claim_input env pay nonce s tx) (rv_limits env) = Inr (rec, db')"
  | (failed) e where "r = Inl e" "db' = db" "plain_operations env ops \<Longrightarrow> describeFailure e RouteSettle \<noteq> FailureError h"
proof (cases "known env db (pay_paymentIntentId pay)")
  case (Inl e)
  then show ?thesis using assms known_error [OF Inl] no_pending_describe [OF storage_not_pending]
    by (intro failed [of e]) (auto simp: recovery_prepare_def)
next
  case kn: (Inr found)
  show ?thesis
  proof (cases found)
    case (Some rec)
    then show ?thesis using assms kn knownE(1) [OF kn] by (intro existing) (simp_all add: recovery_prepare_def)
  next
    case None
    show ?thesis
    proof (cases "op_pendingNonce ops")
      case (Inl e)
      then show ?thesis using assms kn None no_pending_describe
        by (intro failed [of e]) (auto simp: recovery_prepare_def plain_operations_def)
    next
      case pn: (Inr pending)
      show ?thesis
      proof (cases "allocate_nonce env db pending")
        case (Inl e)
        then show ?thesis using assms kn None pn allocate_error [OF Inl] no_pending_describe [OF storage_not_pending]
          by (intro failed [of e]) (auto simp: recovery_prepare_def)
      next
        case al: (Inr nonce)
        show ?thesis
        proof (cases "op_prepare ops nonce")
          case (Inl e)
          then show ?thesis using assms kn None pn al no_pending_describe
            by (intro failed [of e]) (auto simp: recovery_prepare_def plain_operations_def)
        next
          case pr: (Inr s)
          show ?thesis
          proof (cases "rv_parseTransaction env s")
            case (Inl e)
            then show ?thesis using assms kn None pn al pr no_pending_describe
              by (intro failed [of e]) (auto simp: recovery_prepare_def plain_operations_def)
          next
            case ps: (Inr tx)
            let ?mismatch = "[link PlainError ''prepared transaction does not match the allocated envelope'']"
            have eq: "recovery_prepare env ops pay db = (if \<not> envelope_matches env nonce tx then (Inl ?mismatch, db)
              else case claim_prepared env (claim_input env pay nonce s tx) db of
                  (Inl e, db') \<Rightarrow> (Inl e, db') | (Inr rec, db') \<Rightarrow> (Inr (rec, False), db'))"
              by (simp add: recovery_prepare_def kn None pn al pr ps)
            show ?thesis
            proof (cases "envelope_matches env nonce tx")
              case False
              have "no_pending ?mismatch" by (simp add: no_pending_def thrown_class_def link_def)
              then show ?thesis using eq False assms no_pending_describe
                by (intro failed [of ?mismatch]) auto
            next
              case True
              obtain r1 db1 where cp: "claim_prepared env (claim_input env pay nonce s tx) db = (r1, db1)"
                by (cases "claim_prepared env (claim_input env pay nonce s tx) db") auto
              from cp show ?thesis
              proof (cases rule: claim_prepared_cases [where h = h])
                case got: (claimed rec)
                then show ?thesis using eq True cp knownE(1) [OF kn] None assms
                  by (intro claimed) simp_all
              next
                case (refused e)
                then show ?thesis using eq True cp assms by (intro failed [of e]) simp_all
              qed
            qed
          qed
        qed
      qed
    qed
  qed
qed

lemma obtain_receipt_sent:
  assumes "obtain_receipt env ops rec = (r, sent)"
  shows "length sent \<le> 1 \<and> (\<forall>s \<in> set sent. rv_keccak256 env s = si_txHash rec)"
  using assms by (auto simp: obtain_receipt_def split: sum.splits option.splits if_splits)

lemma recovery_resolve_cases:
  assumes "recovery_resolve env ops rec db = (r, db', sent)"
  obtains (already) "r = Inr rec" "db' = db" "sent = []" "sr_terminal rec \<noteq> None"
  | (pending) "r = Inl (pending_error (si_txHash rec))" "db' = db" "sr_terminal rec = None"
      "length sent \<le> 1" "\<forall>s \<in> set sent. rv_keccak256 env s = si_txHash rec"
  | (finished) rec' res where "r = Inr rec'" "finish db (si_paymentIntentId rec) res = Inr (rec', db')"
      "sr_terminal rec = None" "length sent \<le> 1" "\<forall>s \<in> set sent. rv_keccak256 env s = si_txHash rec"
proof (cases "sr_terminal rec = None")
  case False
  then show ?thesis using assms by (intro already) (simp_all add: recovery_resolve_def)
next
  case unresolved: True
  obtain q out where o: "obtain_receipt env ops rec = (q, out)" by (cases "obtain_receipt env ops rec") auto
  note sent = obtain_receipt_sent [OF o]
  show ?thesis
  proof (cases "\<exists>rcp g c. q = Inr rcp \<and> receipt_cost rec rcp = Inr (g, c)")
    case False
    then have "recovery_resolve env ops rec db = (Inl (pending_error (si_txHash rec)), db, out)"
      using unresolved o by (auto simp: recovery_resolve_def split: sum.splits)
    then show ?thesis using assms sent unresolved by (intro pending) auto
  next
    case True
    then obtain rcp g c where q: "q = Inr rcp" "receipt_cost rec rcp = Inr (g, c)" by blast
    define res where "res = \<lparr>fin_at = rv_finish_now env, fin_gasUsed = g, fin_actualCost = c, fin_errorCode = op_failure ops rcp\<rparr>"
    show ?thesis
    proof (cases "rv_finish_fault env \<or> (\<exists>e. finish db (si_paymentIntentId rec) res = Inl e)")
      case True
      then have "recovery_resolve env ops rec db = (Inl (pending_error (si_txHash rec)), db, out)"
        using unresolved o q by (auto simp: recovery_resolve_def res_def)
      then show ?thesis using assms sent unresolved by (intro pending) auto
    next
      case False
      then obtain rec' db1 where "finish db (si_paymentIntentId rec) res = Inr (rec', db1)" "\<not> rv_finish_fault env"
        by (cases "finish db (si_paymentIntentId rec) res") auto
      moreover from this have "recovery_resolve env ops rec db = (Inr rec', db1, out)"
        using unresolved o q by (simp add: recovery_resolve_def res_def)
      ultimately show ?thesis using assms sent unresolved by (intro finished) auto
    qed
  qed
qed

lemma hash_keeps:
  "recovery_resolve env ops rec db = (r, db', sent) \<Longrightarrow> hash_of db' k = hash_of db k"
  by (erule recovery_resolve_cases) (auto simp: finish_keeps_hash)

text \<open>The record a preparation returns is a ticket.\<close>

lemma prepare_ticket:
  assumes "recovery_prepare env ops pay db = (Inr (rec, rep), db')"
  shows "ticket db' rec \<and> si_paymentIntentId rec = toLowerCase (pay_paymentIntentId pay)"
  using assms
proof (cases rule: recovery_prepare_cases [where h = "[]"])
  case (existing rec')
  then have eq: "rec = rec'" "db' = db" by simp_all
  obtain q where "select_intent db (toLowerCase (pay_paymentIntentId pay)) = Some q" "rec' = record_of_row (events db) q"
    using journal_readE(2) [OF existing(3), symmetric] by auto
  then show ?thesis using eq ticket_of_row by blast
next
  case (claimed rec' nonce s tx)
  then have eq: "rec = rec'" by simp
  from claimed(3) show ?thesis
  proof (cases rule: claim_cases)
    case (known r)
    then show ?thesis using eq journal_readE(2) [OF claimed(2)] by (simp add: claim_input_def)
  next
    case (fresh r)
    then show ?thesis using eq ticket_of_row [OF fresh(4) fresh(5)] by (simp add: claim_input_def)
  qed
qed simp

section \<open>Interleaved calls\<close>

text \<open>
  One signer's coordinator over time: the journal, the records that calls in progress hold,
  and every transaction ever handed to the node, with the intent it was sent for. Calls of any
  payments, with any answers of the node and any faults, are cut at the journal's operations.
\<close>

inductive recovery_run :: "(string \<Rightarrow> string) \<Rightarrow> SettlementLimits \<Rightarrow> journal_db \<Rightarrow> SettlementRecord list
    \<Rightarrow> (string \<times> string) list \<Rightarrow> bool"
  for K L where
  rec_start: "recovery_run K L empty_journal [] []"
| rec_prepared: "\<lbrakk>recovery_run K L db ts out; recovery_prepare env ops pay db = (Inr (rec, rep), db');
      rv_keccak256 env = K; rv_limits env = L\<rbrakk> \<Longrightarrow> recovery_run K L db' (rec # ts) out"
| rec_refused: "\<lbrakk>recovery_run K L db ts out; recovery_prepare env ops pay db = (Inl e, db')\<rbrakk>
    \<Longrightarrow> recovery_run K L db' ts out"
| rec_resolved: "\<lbrakk>recovery_run K L db ts out; rec \<in> set ts; rv_keccak256 env = K;
      recovery_resolve env ops rec db = (r, db', sent)\<rbrakk>
    \<Longrightarrow> recovery_run K L db' ts (map (Pair (si_paymentIntentId rec)) sent @ out)"
| rec_rejection: "\<lbrakk>recovery_run K L db ts out; evi_outcome ev = Rejected; ledger_record (events db) ev = Inr (e, evs)\<rbrakk>
    \<Longrightarrow> recovery_run K L (db\<lparr>events := evs\<rparr>) ts out"
| rec_pruned: "\<lbrakk>recovery_run K L db ts out; ledger_prune (events db) before keep = Inr (n, evs)\<rbrakk>
    \<Longrightarrow> recovery_run K L (db\<lparr>events := evs\<rparr>) ts out"

lemma prepare_keeps:
  assumes "recovery_prepare env ops pay db = (r, db')" "hash_of db k = Some v"
  shows "hash_of db' k = Some v"
  using assms(1) by (cases rule: recovery_prepare_cases [where h = "[]"]) (use assms(2) claim_keeps_hash in auto)

lemma ticket_hash_kept:
  "ticket db rec \<Longrightarrow> (\<And>k v. hash_of db k = Some v \<Longrightarrow> hash_of db' k = Some v) \<Longrightarrow> ticket db' rec"
  by (simp add: ticket_def)

text \<open>The invariant: tickets stay valid and everything sent is the transaction recorded for its intent.\<close>

definition sends_ok :: "(string \<Rightarrow> string) \<Rightarrow> journal_db \<Rightarrow> SettlementRecord list \<Rightarrow> (string \<times> string) list \<Rightarrow> bool" where
  "sends_ok K db ts out \<longleftrightarrow> (\<forall>rec \<in> set ts. ticket db rec) \<and>
     (\<forall>(i, s) \<in> set out. hash_of db i = Some (K s) \<and> toLowerCase i = i)"

lemma sends_ok_kept:
  assumes "sends_ok K db ts out" "\<And>k v. hash_of db k = Some v \<Longrightarrow> hash_of db' k = Some v"
  shows "sends_ok K db' ts out"
  using assms ticket_hash_kept [of db _ db'] by (fastforce simp: sends_ok_def)

lemma recovery_run_sends: "recovery_run K L db ts out \<Longrightarrow> sends_ok K db ts out"
proof (induction rule: recovery_run.induct)
  case rec_start
  then show ?case by (simp add: sends_ok_def)
next
  case (rec_prepared db ts out env ops pay rec rep db')
  then show ?case using sends_ok_kept [of K db ts out db'] prepare_keeps prepare_ticket
    by (fastforce simp: sends_ok_def)
next
  case (rec_refused db ts out env ops pay e db')
  then show ?case using sends_ok_kept [of K db ts out db'] prepare_keeps by blast
next
  case (rec_resolved db ts out rec env ops r db' sent)
  have ok: "sends_ok K db' ts out"
    by (rule sends_ok_kept [OF rec_resolved.IH]) (simp add: hash_keeps [OF rec_resolved.hyps(4)])
  have "ticket db' rec" using ok rec_resolved.hyps(2) by (auto simp: sends_ok_def)
  moreover have "\<forall>s \<in> set sent. K s = si_txHash rec"
    using rec_resolved.hyps(3,4) by (auto elim!: recovery_resolve_cases)
  ultimately show ?case using ok by (auto simp: sends_ok_def ticket_def)
next
  case (rec_rejection db ts out ev e evs)
  then show ?case using sends_ok_kept [of K db ts out "db\<lparr>events := evs\<rparr>"] by simp
next
  case (rec_pruned db ts out before keep n evs)
  then show ?case using sends_ok_kept [of K db ts out "db\<lparr>events := evs\<rparr>"] by simp
qed

lemma recovery_run_store: "recovery_run K L db ts out \<Longrightarrow> store_run (\<lambda>_ _. True) L db"
proof (induction rule: recovery_run.induct)
  case (rec_prepared db ts out env ops pay rec rep db')
  from rec_prepared.hyps(2) show ?case
    by (cases rule: recovery_prepare_cases [where h = "[]"]) (use rec_prepared store_run.run_claim in blast)+
next
  case (rec_refused db ts out env ops pay e db')
  from rec_refused.hyps(2) show ?case
    by (cases rule: recovery_prepare_cases [where h = "[]"]) (use rec_refused in auto)
next
  case (rec_resolved db ts out rec env ops r db' sent)
  from rec_resolved.hyps(4) show ?case
    by (cases rule: recovery_resolve_cases) (use rec_resolved.IH store_run.run_finish in blast)+
qed (blast intro: store_run.intros)+

lemma hash_of_row: "hash_of db i = Some h \<Longrightarrow>
  \<exists>r \<in> set (intents db). ir_payment_intent_id r = toLowerCase i \<and> ir_tx_hash r = h"
  by (auto simp: hash_of_def dest: select_intent_Some)

text \<open>C21: one transaction per payment, for ever. However the calls of all payments interleave,
  fail, are retried or meet faults of the node and the disk, every transaction handed to the
  node for an intent has the hash the journal recorded for that intent before it was sent; so
  two transactions sent for one intent have the same hash, and transactions sent for different
  intents never do.\<close>

theorem one_transaction_per_intent:
  assumes "recovery_run K L db ts out" and "(i, s) \<in> set out" and "(j, s') \<in> set out"
  shows "hash_of db i = Some (K s) \<and> (i = j \<longleftrightarrow> K s = K s')"
proof -
  have ok: "hash_of db i = Some (K s)" "toLowerCase i = i" "hash_of db j = Some (K s')" "toLowerCase j = j"
    using recovery_run_sends [OF assms(1)] assms(2,3) by (auto simp: sends_ok_def)
  have d: "distinct (map ir_tx_hash (intents db))"
    using store_run_ok [OF recovery_run_store [OF assms(1)]] by (simp add: journal_ok_def)
  have "i = j" if "K s = K s'"
  proof -
    obtain r where r: "r \<in> set (intents db)" "ir_payment_intent_id r = i" "ir_tx_hash r = K s"
      using hash_of_row [OF ok(1)] ok(2) by auto
    obtain q where q: "q \<in> set (intents db)" "ir_payment_intent_id q = j" "ir_tx_hash q = K s'"
      using hash_of_row [OF ok(3)] ok(4) by auto
    have "r = q" using d r q that by (auto simp: distinct_map inj_on_def)
    then show ?thesis using r q by simp
  qed
  then show ?thesis using ok by auto
qed

section \<open>A sample call\<close>

definition sample_receipt :: RecoveryReceipt where
  "sample_receipt = \<lparr>rcp_transactionHash = sample_hex 64 CHR ''2'', rcp_gasUsed = JBigint 2,
     rcp_effectiveGasPrice = JBigint 2, rcp_l1Fee = JUndefined, rcp_success = True, rcp_logs = []\<rparr>"

definition sample_env :: recovery_env where
  "sample_env = \<lparr>rv_keccak256 = (\<lambda>s. s),
     rv_parseTransaction = (\<lambda>_. Inr \<lparr>tx_eip1559 = True, tx_chainId = Some 91342, tx_nonce = Some 0, tx_gas = Some 2,
       tx_maxFeePerGas = Some 3, tx_maxPriorityFeePerGas = Some 1\<rparr>),
     rv_signer = sample_hex 40 CHR ''1'', rv_chainId = 91342, rv_limits = sample_limits, rv_claim_now = 0,
     rv_finish_now = 1, rv_read_fault = False, rv_nonce_fault = False, rv_claim_fault = False, rv_finish_fault = False\<rparr>"

text \<open>A node that loses the answer of the broadcast, and the same node once the receipt is there.\<close>

definition lost_operations :: RecoveryOperations where
  "lost_operations = \<lparr>op_pendingNonce = Inr 0, op_prepare = (\<lambda>_. Inr (sample_hex 64 CHR ''2'')),
     op_restore = (\<lambda>_. Inr (sample_hex 64 CHR ''2'')), op_receipt = (\<lambda>_. Inr None),
     op_send = (\<lambda>_. Inl [link TimeoutError ''timeout'']), op_wait = (\<lambda>_. Inl [link TimeoutError ''timeout'']),
     op_failure = (\<lambda>_. None)\<rparr>"

definition found_operations :: RecoveryOperations where
  "found_operations = lost_operations\<lparr>op_receipt := \<lambda>_. Inr (Some sample_receipt)\<rparr>"

definition sample_payment :: RecoveryPayment where
  "sample_payment = \<lparr>pay_paymentIntentId = sample_hex 64 CHR ''1'', pay_payer = sample_hex 40 CHR ''1'',
     pay_payTo = sample_hex 40 CHR ''2'', pay_amountBase = 5\<rparr>"

lemma sample_env_fields [simp]:
  "rv_keccak256 sample_env = (\<lambda>s. s)" "rv_limits sample_env = sample_limits" "rv_finish_now sample_env = 1"
  "\<not> rv_read_fault sample_env" "\<not> rv_nonce_fault sample_env" "\<not> rv_claim_fault sample_env" "\<not> rv_finish_fault sample_env"
  by (simp_all add: sample_env_def)

lemma sample_payment_id [simp]: "pay_paymentIntentId sample_payment = sample_hex 64 CHR ''1''"
  by (simp add: sample_payment_def)

lemma sample_prepare:
  "\<exists>rec. recovery_prepare sample_env lost_operations sample_payment empty_journal = (Inr (rec, False), sample_db)"
proof -
  have id: "hex_literal is_hex (32 * 2) (sample_hex 64 CHR ''1'')" "hex_literal is_hex (20 * 2) (sample_hex 40 CHR ''1'')"
    using sample_hex_simps by simp_all
  have read: "journal_read empty_journal (sample_hex 64 CHR ''1'') = Inr None"
    using id by (simp add: journal_read_def hex_def select_intent_def empty_journal_def)
  have nonce: "nextNonce empty_journal (sample_hex 40 CHR ''1'') 91342 0 = Inr 0"
    using id by (simp add: nextNonce_def hex_def uint_def max_nonce_def empty_journal_def isSafeInteger_def
        MAX_SAFE_INTEGER_def Let_def)
  obtain rec where c: "claim empty_journal sample_input sample_limits = Inr (rec, sample_db)"
    using sample_claim by blast
  let ?tx = "\<lparr>tx_eip1559 = True, tx_chainId = Some 91342, tx_nonce = Some 0, tx_gas = Some 2,
       tx_maxFeePerGas = Some 3, tx_maxPriorityFeePerGas = Some 1\<rparr>"
  have "known sample_env empty_journal (sample_hex 64 CHR ''1'') = Inr None" by (simp add: known_def read)
  moreover have "allocate_nonce sample_env empty_journal 0 = Inr 0"
    using nonce by (simp add: allocate_nonce_def) (simp add: sample_env_def)
  moreover have "rv_parseTransaction sample_env (sample_hex 64 CHR ''2'') = Inr ?tx" by (simp add: sample_env_def)
  moreover have "envelope_matches sample_env 0 ?tx" by (simp add: envelope_matches_def sample_env_def)
  moreover have "claim_input sample_env sample_payment 0 (sample_hex 64 CHR ''2'') ?tx = sample_input"
    by (simp add: claim_input_def sample_input_def sample_payment_def sample_env_def)
  moreover have "claim_prepared sample_env sample_input empty_journal = (Inr rec, sample_db)"
    by (simp add: claim_prepared_def c)
  ultimately show ?thesis
    by (intro exI [of _ rec]) (simp add: recovery_prepare_def lost_operations_def)
qed

lemma sample_record:
  assumes "recovery_prepare sample_env lost_operations sample_payment empty_journal = (Inr (rec, False), sample_db)"
  shows "si_txHash rec = sample_hex 64 CHR ''2''" "si_paymentIntentId rec = sample_hex 64 CHR ''1''" "sr_terminal rec = None"
    "journal_read sample_db (sample_hex 64 CHR ''1'') = Inr (Some rec)"
proof -
  from assms show "si_paymentIntentId rec = sample_hex 64 CHR ''1''" using prepare_ticket by fastforce
  from assms obtain nonce s tx where c: "claim empty_journal (claim_input sample_env sample_payment nonce s tx) sample_limits = Inr (rec, sample_db)"
    by (cases rule: recovery_prepare_cases [where h = "[]"]) auto
  obtain rec' where c': "claim empty_journal sample_input sample_limits = Inr (rec', sample_db)" using sample_claim by blast
  from c have sel: "\<exists>r. select_intent sample_db (sample_hex 64 CHR ''1'') = Some r \<and> rec = record_of_row (events sample_db) r"
    by (cases rule: claim_cases) (auto simp: claim_input_def empty_journal_def select_intent_def)
  from c' have "\<exists>r. select_intent sample_db (sample_hex 64 CHR ''1'') = Some r \<and> ir_tx_hash r = sample_hex 64 CHR ''2''
      \<and> ir_terminal_event_id r = None"
  proof (cases rule: claim_cases)
    case (known r)
    then show ?thesis by (simp add: empty_journal_def select_intent_def)
  next
    case (fresh r)
    obtain q where q: "intents sample_db = intents empty_journal @ [q]" "ir_tx_hash q = toLowerCase (si_txHash sample_input)"
        "ir_terminal_event_id q = None"
      using fresh(2) by (rule claim_newE) auto
    have "r = q" using q(1) select_intent_Some [OF fresh(4)] by (simp add: empty_journal_def)
    then show ?thesis using fresh q by (simp add: sample_input_def)
  qed
  then show "si_txHash rec = sample_hex 64 CHR ''2''" "sr_terminal rec = None"
    using sel by (auto simp: record_of_row_def)
  show "journal_read sample_db (sample_hex 64 CHR ''1'') = Inr (Some rec)"
    using sel sample_hex_simps by (auto simp: journal_read_def hex_def)
qed

lemma lost_resolve:
  assumes "si_txHash rec = sample_hex 64 CHR ''2''" "sr_terminal rec = None"
  shows "recovery_resolve sample_env lost_operations rec db
    = (Inl (pending_error (sample_hex 64 CHR ''2'')), db, [sample_hex 64 CHR ''2''])"
  using assms by (simp add: recovery_resolve_def obtain_receipt_def lost_operations_def)

text \<open>Two calls of one payment, both broadcasting: the same transaction twice.\<close>

lemma sample_recovery_run:
  "\<exists>ts. recovery_run (\<lambda>s. s) sample_limits sample_db ts
     [(sample_hex 64 CHR ''1'', sample_hex 64 CHR ''2''), (sample_hex 64 CHR ''1'', sample_hex 64 CHR ''2'')]"
proof -
  obtain rec where p: "recovery_prepare sample_env lost_operations sample_payment empty_journal = (Inr (rec, False), sample_db)"
    using sample_prepare by blast
  note r = sample_record [OF p]
  have 1: "recovery_run (\<lambda>s. s) sample_limits sample_db [rec] []"
    by (rule recovery_run.rec_prepared [OF recovery_run.rec_start p]) simp_all
  have 2: "recovery_run (\<lambda>s. s) sample_limits sample_db [rec] (map (Pair (si_paymentIntentId rec)) [sample_hex 64 CHR ''2''] @ [])"
    by (rule recovery_run.rec_resolved [OF 1 _ _ lost_resolve [OF r(1,3)]]) simp_all
  have "recovery_run (\<lambda>s. s) sample_limits sample_db [rec] (map (Pair (si_paymentIntentId rec)) [sample_hex 64 CHR ''2'']
      @ map (Pair (si_paymentIntentId rec)) [sample_hex 64 CHR ''2''] @ [])"
    by (rule recovery_run.rec_resolved [OF 2 _ _ lost_resolve [OF r(1,3)]]) simp_all
  then show ?thesis using r(2) by auto
qed

theorem one_transaction_per_intent_witness:
  "hash_of sample_db (sample_hex 64 CHR ''1'') = Some (sample_hex 64 CHR ''2'')"
proof -
  obtain ts where "recovery_run (\<lambda>s. s) sample_limits sample_db ts
     [(sample_hex 64 CHR ''1'', sample_hex 64 CHR ''2''), (sample_hex 64 CHR ''1'', sample_hex 64 CHR ''2'')]"
    using sample_recovery_run by blast
  from one_transaction_per_intent [OF this, of "sample_hex 64 CHR ''1''" "sample_hex 64 CHR ''2''"
      "sample_hex 64 CHR ''1''" "sample_hex 64 CHR ''2''"] show ?thesis by simp
qed

section \<open>What the answer of one call means\<close>

lemma describe_pending_word: "describeFailure (pending_error h) rt = FailureError h'  \<longleftrightarrow> h' = h"
  by (auto simp: describe_pending)

lemma recovery_settle_cases:
  assumes "recovery_settle env ops pay db = (r, db', sent)"
  obtains (refused) e where "r = Inl e" "recovery_prepare env ops pay db = (Inl e, db')" "sent = []"
  | (pending) rec rep where "recovery_prepare env ops pay db = (Inr (rec, rep), db')" "r = Inl (pending_error (si_txHash rec))"
      "\<forall>s \<in> set sent. rv_keccak256 env s = si_txHash rec" "length sent \<le> 1"
  | (answered) rec rep rec' db1 where "recovery_prepare env ops pay db = (Inr (rec, rep), db1)" "r = Inr (rec', rep)"
      "recovery_resolve env ops rec db1 = (Inr rec', db', sent)"
      "\<forall>s \<in> set sent. rv_keccak256 env s = si_txHash rec" "length sent \<le> 1"
proof -
  obtain p db1 where p: "recovery_prepare env ops pay db = (p, db1)" by (cases "recovery_prepare env ops pay db") auto
  show ?thesis
  proof (cases p)
    case (Inl e)
    then show ?thesis using assms p by (intro refused) (auto simp: recovery_settle_def)
  next
    case (Inr rr)
    obtain rec rep where rr: "rr = (rec, rep)" by (cases rr) auto
    obtain q db2 out where q: "recovery_resolve env ops rec db1 = (q, db2, out)"
      by (cases "recovery_resolve env ops rec db1") auto
    from q show ?thesis
    proof (cases rule: recovery_resolve_cases)
      case already
      then show ?thesis using assms p Inr rr q by (intro answered [of rec rep db1 rec]) (auto simp: recovery_settle_def)
    next
      case unresolved: pending
      then show ?thesis using assms p Inr rr q by (intro pending [of rec rep]) (auto simp: recovery_settle_def)
    next
      case (finished rec' res)
      then show ?thesis using assms p Inr rr q by (intro answered [of rec rep db1 rec']) (auto simp: recovery_settle_def)
    qed
  qed
qed

lemma resolved_record:
  assumes "journal_ok db1" "ticket db1 rec" "recovery_resolve env ops rec db1 = (Inr rec', db', sent)"
    "journal_read db1 i = Inr (Some rec)" "si_paymentIntentId rec = toLowerCase i"
  shows "sr_terminal rec' \<noteq> None \<and> journal_read db' i = Inr (Some rec') \<and> si_txHash rec' = si_txHash rec"
  using assms(3)
proof (cases rule: recovery_resolve_cases)
  case already
  then show ?thesis using assms(4) by simp
next
  case (finished rec1 res)
  have h: "hex_literal is_hex 64 i" using journal_readE(1) [OF assms(4)] .
  from finished(2) have fin: "finish db1 (toLowerCase i) res = Inr (rec', db')" using finished(1) assms(5) by simp
  have ok': "journal_ok db'" by (rule finish_ok [OF assms(1) fin])
  have hash: "hash_of db' i = Some (si_txHash rec)"
    using finish_keeps_hash [OF fin, of i] assms(2,5) by (simp add: ticket_def hash_of_def)
  have "\<exists>q. select_intent db' (toLowerCase i) = Some q \<and> rec' = record_of_row (events db') q \<and> sr_terminal rec' \<noteq> None"
    using fin
  proof (cases rule: finish_cases)
    case (replay q)
    then show ?thesis by auto
  next
    case (fresh q e)
    let ?q = "q\<lparr>ir_terminal_event_id := Some (row_id e), ir_actual_cost := Some (String (fin_actualCost res))\<rparr>"
    have "?q \<in> set (intents db')" using select_intent_Some [OF fresh(12)] by simp
    then have "intent_ok (events db') ?q" using ok' by (simp add: journal_ok_def)
    then have "sr_terminal (record_of_row (events db') ?q) \<noteq> None" using terminal_of_ok by simp
    then show ?thesis using fresh(12,13) by auto
  qed
  then show ?thesis using h hash by (auto simp: journal_read_def hex_def hash_of_def)
qed simp

lemma settle_answer:
  assumes "journal_ok db" and "plain_operations env ops"
    and "recovery_settle env ops pay db = (r, db', sent)"
  shows "case r of
      Inl e \<Rightarrow> (case describeFailure e RouteSettle of
          FailureError h \<Rightarrow> hash_of db' (pay_paymentIntentId pay) = Some h \<and> (\<forall>s \<in> set sent. rv_keccak256 env s = h)
        | _ \<Rightarrow> db' = db \<and> sent = [])
    | Inr (rec, replayed) \<Rightarrow> sr_terminal rec \<noteq> None \<and>
        journal_read db' (pay_paymentIntentId pay) = Inr (Some rec) \<and>
        (replayed \<longleftrightarrow> journal_read db (pay_paymentIntentId pay) \<noteq> Inr None) \<and>
        (\<forall>s \<in> set sent. rv_keccak256 env s = si_txHash rec)"
  using assms(3)
proof (cases rule: recovery_settle_cases)
  case (refused e)
  have "db' = db \<and> (\<forall>h. describeFailure e RouteSettle \<noteq> FailureError h)"
  proof (intro conjI allI)
    fix h
    from refused(2) show "describeFailure e RouteSettle \<noteq> FailureError h"
      by (cases rule: recovery_prepare_cases [where h = h]) (use assms(2) in auto)
    from refused(2) show "db' = db" by (cases rule: recovery_prepare_cases [where h = "[]"]) auto
  qed
  then show ?thesis using refused by (cases "describeFailure e RouteSettle") auto
next
  case (pending rec rep)
  have "hash_of db' (pay_paymentIntentId pay) = Some (si_txHash rec)"
    using prepare_ticket [OF pending(1)] by (auto simp: ticket_def hash_of_def)
  then show ?thesis using pending by (simp add: describe_pending)
next
  case (answered rec rep rec' db1)
  note t = prepare_ticket [OF answered(1)]
  have "journal_ok db1 \<and> journal_read db1 (pay_paymentIntentId pay) = Inr (Some rec) \<and>
      (rep \<longleftrightarrow> journal_read db (pay_paymentIntentId pay) \<noteq> Inr None)"
    using answered(1)
  proof (cases rule: recovery_prepare_cases [where h = "[]"])
    case (existing q)
    then show ?thesis using assms(1) by simp
  next
    case (claimed q nonce s tx)
    have ok: "journal_ok db1" using claim_ok [OF assms(1) claimed(3)] .
    have "\<exists>row. select_intent db1 (toLowerCase (pay_paymentIntentId pay)) = Some row \<and> q = record_of_row (events db1) row"
      using claimed(3) by (cases rule: claim_cases) (auto simp: claim_input_def)
    then show ?thesis using claimed ok journal_readE(1) [OF claimed(2)] by (auto simp: journal_read_def hex_def)
  qed simp
  then show ?thesis using resolved_record [OF _ _ answered(3), of "pay_paymentIntentId pay"] t answered by auto
qed

text \<open>C22: what a settle call's answer says about money. A failure that is described as a rejection
  or as not ready changed nothing and sent nothing: no claim, no budget, no broadcast. A
  failure described as pending names the hash under which the journal holds the intent, and
  whatever was sent has that hash. A success is the terminal record the journal now holds, and
  it is marked as replayed exactly when the journal held the intent before the call.\<close>

theorem settle_answer_meaning:
  assumes "journal_ok db" and "plain_operations env ops"
    and "recovery_settle env ops pay db = (r, db', sent)"
  shows "case r of
      Inl e \<Rightarrow> (case describeFailure e RouteSettle of
          FailureError h \<Rightarrow> hash_of db' (pay_paymentIntentId pay) = Some h \<and> (\<forall>s \<in> set sent. rv_keccak256 env s = h)
        | _ \<Rightarrow> db' = db \<and> sent = [])
    | Inr (rec, replayed) \<Rightarrow> sr_terminal rec \<noteq> None \<and>
        journal_read db' (pay_paymentIntentId pay) = Inr (Some rec) \<and>
        (replayed \<longleftrightarrow> journal_read db (pay_paymentIntentId pay) \<noteq> Inr None) \<and>
        (\<forall>s \<in> set sent. rv_keccak256 env s = si_txHash rec)"
  by (rule settle_answer [OF assms])

theorem settle_answer_meaning_witness:
  "\<exists>db' sent. recovery_settle sample_env lost_operations sample_payment empty_journal
      = (Inl (pending_error (sample_hex 64 CHR ''2'')), db', sent) \<and>
    hash_of db' (sample_hex 64 CHR ''1'') = Some (sample_hex 64 CHR ''2'')"
proof -
  obtain rec where p: "recovery_prepare sample_env lost_operations sample_payment empty_journal = (Inr (rec, False), sample_db)"
    using sample_prepare by blast
  have s: "recovery_settle sample_env lost_operations sample_payment empty_journal
      = (Inl (pending_error (sample_hex 64 CHR ''2'')), sample_db, [sample_hex 64 CHR ''2''])"
    using lost_resolve [OF sample_record(1,3) [OF p]] by (simp add: recovery_settle_def p)
  have "plain_operations sample_env lost_operations"
    by (simp add: plain_operations_def lost_operations_def sample_env_def)
  from settle_answer_meaning [OF empty_journal_ok this s] show ?thesis using s by (simp add: describe_pending)
qed

text \<open>A retry resumes, it never starts over. Once the journal holds an intent, any later call
  for it, with any answers of the node, leaves every recorded hash and the number of intents
  as they are, sends nothing but the recorded transaction and at most once, and its answer is
  marked as replayed and names the recorded hash.\<close>

theorem retry_resumes:
  assumes "hash_of db (pay_paymentIntentId pay) = Some h"
    and "recovery_settle env ops pay db = (r, db', sent)"
  shows "(\<forall>i. hash_of db' i = hash_of db i) \<and> length (intents db') = length (intents db) \<and>
    length sent \<le> 1 \<and> (\<forall>s \<in> set sent. rv_keccak256 env s = h) \<and>
    (\<forall>rec rep. r = Inr (rec, rep) \<longrightarrow> rep \<and> hash_of db' (si_paymentIntentId rec) = Some h)"
proof -
  have held: "journal_read db (pay_paymentIntentId pay) \<noteq> Inr None"
    using assms(1) by (auto simp: hash_of_def dest: journal_readE(2))
  have prep: "db1 = db \<and> rep \<and> si_txHash rec = h"
    if "recovery_prepare env ops pay db = (Inr (rec, rep), db1)" for rec rep db1
  proof -
    have "db1 = db \<and> rep"
      using that by (cases rule: recovery_prepare_cases [where h = "[]"]) (use held in auto)
    then show ?thesis using prepare_ticket [OF that] assms(1) by (auto simp: ticket_def hash_of_def)
  qed
  from assms(2) show ?thesis
  proof (cases rule: recovery_settle_cases)
    case (refused e)
    from refused(2) have "db' = db" by (cases rule: recovery_prepare_cases [where h = "[]"]) auto
    then show ?thesis using refused by simp
  next
    case (pending rec rep)
    then show ?thesis using prep [OF pending(1)] by auto
  next
    case (answered rec rep rec' db1)
    note p = prep [OF answered(1)] and t = prepare_ticket [OF answered(1)]
    have "(\<forall>i. hash_of db' i = hash_of db i) \<and> length (intents db') = length (intents db) \<and>
        si_paymentIntentId rec' = toLowerCase (pay_paymentIntentId pay)"
      using answered(3)
    proof (cases rule: recovery_resolve_cases)
      case already
      then show ?thesis using p t by simp
    next
      case (finished q res)
      have "finish db (si_paymentIntentId rec) res = Inr (rec', db')" using finished p by simp
      then show ?thesis using finish_keeps_hash [of db _ res rec' db']
      proof (cases rule: finish_cases)
        case (replay q)
        then show ?thesis using select_intent_Some [OF replay(1)] t by simp
      next
        case (fresh q e)
        then show ?thesis using select_intent_Some [OF fresh(1)] t finish_keeps_hash [OF \<open>finish db _ res = _\<close>]
          by (simp add: finish_intent_def)
      qed
    qed simp
    then show ?thesis using answered p assms(1) by (auto simp: hash_of_def)
  qed
qed

theorem retry_resumes_witness:
  "\<exists>r db' sent. recovery_settle sample_env lost_operations sample_payment sample_db = (r, db', sent) \<and>
     length (intents db') = 1 \<and> length sent \<le> 1"
proof -
  obtain rec where p: "recovery_prepare sample_env lost_operations sample_payment empty_journal = (Inr (rec, False), sample_db)"
    using sample_prepare by blast
  have h: "hash_of sample_db (pay_paymentIntentId sample_payment) = Some (si_txHash rec)"
    using prepare_ticket [OF p] by (auto simp: ticket_def hash_of_def)
  obtain r db' sent where s: "recovery_settle sample_env lost_operations sample_payment sample_db = (r, db', sent)"
    by (cases "recovery_settle sample_env lost_operations sample_payment sample_db") auto
  show ?thesis using retry_resumes [OF h s] s sample_row by auto
qed

text \<open>C23: an interrupted payment completes. When the journal holds an open claim and the node has
  its receipt, with the recorded hash and readable fees, the next call for the intent sends
  nothing, accounts the actual cost (gas times price plus the L1 fee) and returns the terminal
  record, marked as replayed.\<close>

theorem interrupted_payment_completes:
  assumes "journal_ok db" and "select_intent db (toLowerCase (pay_paymentIntentId pay)) = Some row"
    and "ir_terminal_event_id row = None" and "hex_literal is_hex 64 (pay_paymentIntentId pay)"
    and "\<not> rv_read_fault env" and "\<not> rv_finish_fault env"
    and "op_receipt ops (ir_tx_hash row) = Inr (Some rcp)"
    and "toLowerCase (rcp_transactionHash rcp) = ir_tx_hash row"
    and "rcp_gasUsed rcp = JBigint g" and "0 < g" and "rcp_effectiveGasPrice rcp = JBigint p" and "0 \<le> p"
    and "readReceiptFeeField (rcp_l1Fee rcp) = Inr l1"
    and "isSafeInteger (rv_finish_now env)" and "0 \<le> rv_finish_now env"
  shows "\<exists>rec db'. recovery_settle env ops pay db = (Inr (rec, True), db', []) \<and>
    sr_actualCost rec = Some (g * p + l1) \<and> sr_terminal rec \<noteq> None"
proof -
  let ?rec = "record_of_row (events db) row"
  have rin: "row \<in> set (intents db)" "ir_payment_intent_id row = toLowerCase (pay_paymentIntentId pay)"
    using select_intent_Some [OF assms(2)] by auto
  have "intent_ok (events db) row" using assms(1) rin by (simp add: journal_ok_def)
  then have nt: "sr_terminal ?rec = None" using terminal_of_ok assms(3) by simp
  have "journal_read db (pay_paymentIntentId pay) = Inr (Some ?rec)"
    using assms(2,4) by (simp add: journal_read_def hex_def)
  then have prep: "recovery_prepare env ops pay db = (Inr (?rec, True), db)"
    using assms(5) by (simp add: recovery_prepare_def known_def)
  have l1: "0 \<le> l1" using readReceiptFeeField_nonneg [OF assms(13)] .
  have cost: "receipt_cost ?rec rcp = Inr (g, g * p + l1)"
    using assms(8-13) by (simp add: receipt_cost_def readReceiptFeeField_def [of "JBigint g"] readReceiptFeeField_def [of "JBigint p"])
  define res where "res = \<lparr>fin_at = rv_finish_now env, fin_gasUsed = g, fin_actualCost = g * p + l1, fin_errorCode = op_failure ops rcp\<rparr>"
  have id: "toLowerCase (ir_payment_intent_id row) = ir_payment_intent_id row"
    "hex_literal is_hex 64 (ir_payment_intent_id row)"
    using \<open>intent_ok (events db) row\<close> by (simp_all add: intent_ok_def)
  have r: "0 \<le> fin_actualCost res" "0 \<le> fin_gasUsed res" "isSafeInteger (fin_at res)" "0 \<le> fin_at res"
    using assms(10,12,14,15) l1 by (simp_all add: res_def)
  obtain rec' db' ev where fin: "finish db (ir_payment_intent_id row) res = Inr (rec', db')" "sr_terminal rec' = Some ev"
      "sr_actualCost rec' = Some (fin_actualCost res)"
    using finish_recorded [OF assms(1) _ id(2) assms(3) r] assms(2) rin(2) id(1) by auto
  have "recovery_resolve env ops ?rec db = (Inr rec', db', [])"
    using nt assms(6,7) cost fin(1) by (simp add: recovery_resolve_def obtain_receipt_def res_def)
  then show ?thesis using prep fin by (simp add: recovery_settle_def res_def)
qed

theorem interrupted_payment_completes_witness:
  "\<exists>rec db'. recovery_settle sample_env found_operations sample_payment sample_db = (Inr (rec, True), db', []) \<and>
     sr_actualCost rec = Some 4"
proof -
  obtain rec where p: "recovery_prepare sample_env lost_operations sample_payment empty_journal = (Inr (rec, False), sample_db)"
    using sample_prepare by blast
  obtain row where row: "select_intent sample_db (sample_hex 64 CHR ''1'') = Some row" "ir_terminal_event_id row = None"
    using sample_select by blast
  have h: "ir_tx_hash row = sample_hex 64 CHR ''2''"
    using prepare_ticket [OF p] sample_record(1,2) [OF p] row by (auto simp: ticket_def hash_of_def)
  have "readReceiptFeeField (rcp_l1Fee sample_receipt) = Inr 0" by (simp add: sample_receipt_def readReceiptFeeField_def)
  then show ?thesis
    using interrupted_payment_completes [OF store_run_ok [OF sample_run], of sample_payment row sample_env found_operations
        sample_receipt 2 2 0] row h
    by (auto simp: found_operations_def sample_receipt_def isSafeInteger_def MAX_SAFE_INTEGER_def)
qed

end
