(* ===== verification/X402.thy ===== *)
theory X402
  imports Facilitator_Contract
begin

text \<open>
  The facilitator's trust boundary (\<^verbatim>\<open>packages/delegation/src/x402.ts\<close>):
  \<^verbatim>\<open>validateDelegatedPayment\<close> with its offer comparison, and the single flight that
  coalesces concurrent requests for one payment intent. The offer a seller builds
  (\<^verbatim>\<open>buildErc7710PaymentRequirements\<close> of \<^verbatim>\<open>packages/shared/src/x402.ts\<close>) is modelled here
  too, because the validator compares against it.

  A request body is a \<^typ>\<open>js\<close> value. A value that is not a string is no address and no hex text.
\<close>

section \<open>Offers\<close>

definition X402_VERSION :: int where
  "X402_VERSION = 2"

definition offer_extra :: "string list option \<Rightarrow> string option \<Rightarrow> js" where
  "offer_extra facilitatorAddresses delegationManager = JObject
     ([(''assetTransferMethod'', JString ''erc7710''), (''paymentFlow'', JString ''upfront'')]
      @ (case facilitatorAddresses of None \<Rightarrow> [] | Some xs \<Rightarrow> [(''facilitatorAddresses'', JArray (map JString xs))])
      @ (case delegationManager of None \<Rightarrow> [] | Some m \<Rightarrow>
           if m = [] then [] else [(''delegationManager'', JString m)]))"

definition buildErc7710PaymentRequirements ::
    "string \<Rightarrow> int \<Rightarrow> string list option \<Rightarrow> string option \<Rightarrow> int option \<Rightarrow> js" where
  "buildErc7710PaymentRequirements payTo amount facilitatorAddresses delegationManager maxTimeoutSeconds = JObject
     [(''scheme'', JString ''exact''), (''network'', JString GIWA_SEPOLIA_CAIP2),
      (''amount'', JString (String amount)), (''payTo'', JString payTo),
      (''maxTimeoutSeconds'', JNum (case maxTimeoutSeconds of None \<Rightarrow> 60 | Some t \<Rightarrow> t)),
      (''asset'', JString MOCK_USDC_address),
      (''extra'', offer_extra facilitatorAddresses delegationManager)]"

definition facilitator_request :: "js \<Rightarrow> js \<Rightarrow> js" where
  "facilitator_request payload requirements = JObject
     [(''x402Version'', JNum X402_VERSION), (''paymentPayload'', payload), (''paymentRequirements'', requirements)]"

section \<open>Comparisons\<close>

text \<open>\<^verbatim>\<open>===\<close>: two separately parsed objects are never the same object.\<close>

definition strict_eq :: "js \<Rightarrow> js \<Rightarrow> bool" where
  "strict_eq a b \<longleftrightarrow> a = b \<and> (case a of JArray _ \<Rightarrow> False | JObject _ \<Rightarrow> False | _ \<Rightarrow> True)"

definition js_isAddress :: "viem \<Rightarrow> js \<Rightarrow> bool" where
  "js_isAddress v x = (case x of JString s \<Rightarrow> v_isAddress v s | _ \<Rightarrow> False)"

definition js_getAddress :: "viem \<Rightarrow> js \<Rightarrow> string" where
  "js_getAddress v x = (case x of JString s \<Rightarrow> v_getAddress v s | _ \<Rightarrow> [])"

definition sameAddress :: "viem \<Rightarrow> js \<Rightarrow> js \<Rightarrow> bool" where
  "sameAddress v a b \<longleftrightarrow> js_isAddress v a \<and> js_isAddress v b \<and> js_getAddress v a = js_getAddress v b"

definition sameOptionalManager :: "viem \<Rightarrow> js \<Rightarrow> js \<Rightarrow> bool" where
  "sameOptionalManager v a b \<longleftrightarrow> (a = JUndefined \<and> b = JUndefined) \<or> sameAddress v a b"

text \<open>\<^verbatim>\<open>a ?? []\<close>.\<close>

definition or_empty :: "js \<Rightarrow> js" where
  "or_empty a = (if a = JUndefined \<or> a = JNull then JArray [] else a)"

definition sameAddressList :: "viem \<Rightarrow> js \<Rightarrow> js \<Rightarrow> bool" where
  "sameAddressList v a b = (case (or_empty a, or_empty b) of
     (JArray xs, JArray ys) \<Rightarrow> length xs = length ys \<and> list_all2 (sameAddress v) xs ys
   | _ \<Rightarrow> False)"

definition sameRequirement :: "viem \<Rightarrow> js \<Rightarrow> js \<Rightarrow> bool" where
  "sameRequirement v a b \<longleftrightarrow>
     strict_eq (js_get a ''scheme'') (js_get b ''scheme'') \<and>
     strict_eq (js_get a ''network'') (js_get b ''network'') \<and>
     strict_eq (js_get a ''amount'') (js_get b ''amount'') \<and>
     strict_eq (js_get a ''maxTimeoutSeconds'') (js_get b ''maxTimeoutSeconds'') \<and>
     sameAddress v (js_get a ''payTo'') (js_get b ''payTo'') \<and>
     sameAddress v (js_get a ''asset'') (js_get b ''asset'') \<and>
     strict_eq (js_get (js_get a ''extra'') ''assetTransferMethod'') (js_get (js_get b ''extra'') ''assetTransferMethod'') \<and>
     strict_eq (js_get (js_get a ''extra'') ''paymentFlow'') (js_get (js_get b ''extra'') ''paymentFlow'') \<and>
     sameOptionalManager v (js_get (js_get a ''extra'') ''delegationManager'') (js_get (js_get b ''extra'') ''delegationManager'') \<and>
     sameAddressList v (js_get (js_get a ''extra'') ''facilitatorAddresses'') (js_get (js_get b ''extra'') ''facilitatorAddresses'')"

section \<open>The validator\<close>

definition MAX_PERMISSION_CONTEXT_HEX_LENGTH :: nat where
  "MAX_PERMISSION_CONTEXT_HEX_LENGTH = 131074"

record ValidatedDelegatedPayment =
  vp_paymentPayload :: js
  vp_paymentRequirements :: js
  vp_amount :: int
  vp_payer :: string
  vp_paymentIntentId :: string

record ValidationOptions =
  vo_delegationManager :: string
  vo_facilitator :: string
  vo_maxAmount :: "int option"

text \<open>A refusal is its \<section>9 word; the log-only message is left out.\<close>

definition js_text :: "js \<Rightarrow> string" where
  "js_text x = (case x of JString s \<Rightarrow> s | _ \<Rightarrow> [])"

text \<open>The offer's own terms, up to the caps.\<close>

definition validate_terms :: "viem \<Rightarrow> js \<Rightarrow> ValidationOptions \<Rightarrow> string + int" where
  "validate_terms v requirements opts =
     ebind (ensure (js_get requirements ''scheme'' = JString ''exact'' \<and>
       js_get (js_get requirements ''extra'') ''assetTransferMethod'' = JString ''erc7710'') ''unsupported_scheme'') (\<lambda>_.
     ebind (ensure (js_get requirements ''network'' = JString GIWA_SEPOLIA_CAIP2) ''invalid_network'') (\<lambda>_.
     ebind (ensure (js_isAddress v (js_get requirements ''asset'') \<and>
       js_getAddress v (js_get requirements ''asset'') = MOCK_USDC_address) ''invalid_payment_requirements'') (\<lambda>_.
     ebind (ensure (js_isAddress v (js_get requirements ''payTo'')) ''invalid_payment_requirements'') (\<lambda>_.
     ebind (ensure (case js_get requirements ''maxTimeoutSeconds'' of JNum n \<Rightarrow> 1 \<le> n \<and> n \<le> 300 | _ \<Rightarrow> False)
       ''invalid_payment_requirements'') (\<lambda>_.
     ebind (ensure (case js_get requirements ''amount'' of JString s \<Rightarrow> canonical_whole s | _ \<Rightarrow> False)
       ''invalid_payment_requirements'') (\<lambda>_.
     ebind (ensure (js_get (js_get requirements ''extra'') ''paymentFlow''
       \<in> {JUndefined, JNull, JString ''upfront'', JString ''authorization''}) ''invalid_payment_requirements'') (\<lambda>_.
     let amount = BigInt (js_text (js_get requirements ''amount'')) in
     ebind (ensure (0 < amount) ''invalid_payment_requirements'') (\<lambda>_.
     ebind (ensure (case vo_maxAmount opts of None \<Rightarrow> True | Some m \<Rightarrow> amount \<le> m)
       ''invalid_payment_requirements'') (\<lambda>_. Inr amount)))))))))"

text \<open>The signed half: the manager, the context and the root delegator it decodes to.\<close>

definition validate_payload :: "viem \<Rightarrow> js \<Rightarrow> ValidationOptions \<Rightarrow> string + string" where
  "validate_payload v payload opts =
     ebind (ensure (js_isAddress v (js_get payload ''delegationManager'') \<and>
       js_getAddress v (js_get payload ''delegationManager'') = v_getAddress v (vo_delegationManager opts))
       ''invalid_payload'') (\<lambda>_.
     ebind (ensure (js_isAddress v (js_get payload ''delegator'')) ''invalid_payload'') (\<lambda>_.
     ebind (ensure (case js_get payload ''permissionContext'' of
         JString s \<Rightarrow> v_isHex v s \<and> 2 < length s \<and> length s \<le> MAX_PERMISSION_CONTEXT_HEX_LENGTH
       | _ \<Rightarrow> False) ''invalid_payload'') (\<lambda>_.
     case v_decodeDelegations v (js_text (js_get payload ''permissionContext'')) of
       None \<Rightarrow> Inl ''invalid_payload''
     | Some delegators \<Rightarrow>
       ebind (ensure (delegators \<noteq> [] \<and> v_isAddress v (last delegators)) ''invalid_payload'') (\<lambda>_.
       let payer = v_getAddress v (last delegators) in
       ebind (ensure (payer = js_getAddress v (js_get payload ''delegator'')) ''invalid_payload'') (\<lambda>_.
       Inr payer)))))"

definition advertises :: "viem \<Rightarrow> js \<Rightarrow> string \<Rightarrow> bool" where
  "advertises v facilitators facilitator = (case facilitators of
     JArray xs \<Rightarrow> \<exists>x \<in> set xs. js_isAddress v x \<and> js_getAddress v x = v_getAddress v facilitator
   | _ \<Rightarrow> True)"

definition validateDelegatedPayment ::
    "viem \<Rightarrow> js \<Rightarrow> ValidationOptions \<Rightarrow> string + ValidatedDelegatedPayment" where
  "validateDelegatedPayment v input opts =
     ebind (ensure (is_object_body input) ''invalid_payload'') (\<lambda>_.
     ebind (ensure (js_get input ''x402Version'' = JNum X402_VERSION) ''invalid_x402_version'') (\<lambda>_.
     let requirements = js_get input ''paymentRequirements''; payment = js_get input ''paymentPayload'' in
     ebind (ensure (is_object_body requirements \<and> is_object_body payment) ''invalid_payload'') (\<lambda>_.
     ebind (ensure (js_get payment ''x402Version'' = JNum X402_VERSION) ''invalid_x402_version'') (\<lambda>_.
     ebind (ensure (is_object_body (js_get payment ''accepted'') \<and> is_object_body (js_get payment ''payload''))
       ''invalid_payload'') (\<lambda>_.
     ebind (validate_terms v requirements opts) (\<lambda>amount.
     ebind (ensure (sameRequirement v (js_get payment ''accepted'') requirements) ''invalid_payload'') (\<lambda>_.
     ebind (validate_payload v (js_get payment ''payload'') opts) (\<lambda>payer.
     ebind (ensure (advertises v (js_get (js_get requirements ''extra'') ''facilitatorAddresses'') (vo_facilitator opts))
       ''invalid_payment_requirements'') (\<lambda>_.
     Inr \<lparr>vp_paymentPayload = payment, vp_paymentRequirements = requirements, vp_amount = amount, vp_payer = payer,
       vp_paymentIntentId = derivePaymentIntentId v
         \<lparr>pin_network = js_text (js_get requirements ''network''),
          pin_asset = js_getAddress v (js_get requirements ''asset''), pin_amount = amount,
          pin_payTo = js_getAddress v (js_get requirements ''payTo''),
          pin_delegationManager = js_getAddress v (js_get (js_get payment ''payload'') ''delegationManager''),
          pin_permissionContext = js_text (js_get (js_get payment ''payload'') ''permissionContext'')\<rparr>\<rparr>)))))))))"

section \<open>What a validated payment is\<close>

lemma js_get_JObject: "js_get (JObject fs) k = (case map_of (rev fs) k of None \<Rightarrow> JUndefined | Some x \<Rightarrow> x)"
  by (simp add: js_get_def)

lemma ensure_bind [result_simps]: "ebind (ensure b e) f = Inr x \<longleftrightarrow> b \<and> f () = Inr x"
  by (cases b) simp_all

lemma validate_terms_facts:
  assumes "validate_terms v r opts = Inr amount"
  shows "0 < amount" "\<forall>m. vo_maxAmount opts = Some m \<longrightarrow> amount \<le> m"
    "js_get r ''network'' = JString GIWA_SEPOLIA_CAIP2" "js_getAddress v (js_get r ''asset'') = MOCK_USDC_address"
    "js_isAddress v (js_get r ''payTo'')" "amount = BigInt (js_text (js_get r ''amount''))"
    "js_get r ''scheme'' = JString ''exact''" "js_get (js_get r ''extra'') ''assetTransferMethod'' = JString ''erc7710''"
    "\<exists>n. js_get r ''maxTimeoutSeconds'' = JNum n \<and> 1 \<le> n \<and> n \<le> 300"
    "\<exists>s. js_get r ''amount'' = JString s \<and> canonical_whole s"
    "js_get (js_get r ''extra'') ''paymentFlow'' \<in> {JUndefined, JNull, JString ''upfront'', JString ''authorization''}"
proof -
  note c = assms [unfolded validate_terms_def Let_def ensure_bind]
  show "0 < amount" using c by simp
  show "\<forall>m. vo_maxAmount opts = Some m \<longrightarrow> amount \<le> m" using c by (cases "vo_maxAmount opts") simp_all
  show "js_get r ''network'' = JString GIWA_SEPOLIA_CAIP2" using c by simp
  show "js_getAddress v (js_get r ''asset'') = MOCK_USDC_address" using c by simp
  show "js_isAddress v (js_get r ''payTo'')" using c by simp
  show "amount = BigInt (js_text (js_get r ''amount''))" using c by simp
  show "js_get r ''scheme'' = JString ''exact''" "js_get (js_get r ''extra'') ''assetTransferMethod'' = JString ''erc7710''"
    using c by simp_all
  show "\<exists>n. js_get r ''maxTimeoutSeconds'' = JNum n \<and> 1 \<le> n \<and> n \<le> 300"
    using c by (cases "js_get r ''maxTimeoutSeconds''") simp_all
  show "\<exists>s. js_get r ''amount'' = JString s \<and> canonical_whole s" using c by (cases "js_get r ''amount''") simp_all
  show "js_get (js_get r ''extra'') ''paymentFlow'' \<in> {JUndefined, JNull, JString ''upfront'', JString ''authorization''}"
    using c by blast
qed

lemma validate_payloadE:
  assumes "validate_payload v p opts = Inr payer"
  obtains delegators where
    "js_getAddress v (js_get p ''delegationManager'') = v_getAddress v (vo_delegationManager opts)"
    "js_isAddress v (js_get p ''delegator'')" "payer = js_getAddress v (js_get p ''delegator'')"
    "v_decodeDelegations v (js_text (js_get p ''permissionContext'')) = Some delegators" "delegators \<noteq> []"
    "payer = v_getAddress v (last delegators)" "v_isAddress v (last delegators)"
proof -
  note c = assms [unfolded validate_payload_def Let_def ensure_bind]
  then obtain ds where ds: "v_decodeDelegations v (js_text (js_get p ''permissionContext'')) = Some ds"
    by (cases "v_decodeDelegations v (js_text (js_get p ''permissionContext''))") simp_all
  show thesis using c ds by (intro that [OF _ _ _ ds]) (auto simp: ensure_bind)
qed

lemma validateE:
  assumes "validateDelegatedPayment v input opts = Inr p"
  defines "r \<equiv> js_get input ''paymentRequirements''"
    and "pl \<equiv> js_get (js_get input ''paymentPayload'') ''payload''"
  obtains "vp_paymentRequirements p = r" "vp_paymentPayload p = js_get input ''paymentPayload''"
    "validate_terms v r opts = Inr (vp_amount p)"
    "sameRequirement v (js_get (js_get input ''paymentPayload'') ''accepted'') r"
    "validate_payload v pl opts = Inr (vp_payer p)"
    "advertises v (js_get (js_get r ''extra'') ''facilitatorAddresses'') (vo_facilitator opts)"
    "vp_paymentIntentId p = derivePaymentIntentId v
         \<lparr>pin_network = js_text (js_get r ''network''), pin_asset = js_getAddress v (js_get r ''asset''),
          pin_amount = vp_amount p, pin_payTo = js_getAddress v (js_get r ''payTo''),
          pin_delegationManager = js_getAddress v (js_get pl ''delegationManager''),
          pin_permissionContext = js_text (js_get pl ''permissionContext'')\<rparr>"
proof -
  note c = assms(1) [unfolded validateDelegatedPayment_def Let_def ensure_bind ebind_Inr_iff]
  then show thesis by (intro that) (auto simp: r_def pl_def)
qed

lemma context_text_facts:
  assumes "validate_payload v p opts = Inr payer"
  shows "\<exists>s. js_get p ''permissionContext'' = JString s \<and> v_isHex v s \<and> 2 < length s \<and> length s \<le> MAX_PERMISSION_CONTEXT_HEX_LENGTH"
  using assms [unfolded validate_payload_def Let_def ensure_bind] by (cases "js_get p ''permissionContext''") simp_all

lemma validate_versions:
  assumes "validateDelegatedPayment v input opts = Inr p"
  shows "js_get input ''x402Version'' = JNum X402_VERSION"
    "js_get (js_get input ''paymentPayload'') ''x402Version'' = JNum X402_VERSION"
  using assms by (auto simp: validateDelegatedPayment_def Let_def result_simps)

lemma sameRequirement_texts:
  assumes "sameRequirement v a b"
  shows "js_get a ''scheme'' = js_get b ''scheme''" "js_get a ''network'' = js_get b ''network''"
    "js_get a ''amount'' = js_get b ''amount''" "js_get a ''maxTimeoutSeconds'' = js_get b ''maxTimeoutSeconds''"
    "js_getAddress v (js_get a ''asset'') = js_getAddress v (js_get b ''asset'')"
    "js_getAddress v (js_get a ''payTo'') = js_getAddress v (js_get b ''payTo'')" "js_isAddress v (js_get a ''payTo'')"
    "js_get (js_get a ''extra'') ''assetTransferMethod'' = js_get (js_get b ''extra'') ''assetTransferMethod''"
    "js_get (js_get a ''extra'') ''paymentFlow'' = js_get (js_get b ''extra'') ''paymentFlow''"
  using assms unfolding sameRequirement_def sameAddress_def strict_eq_def by simp_all

lemma validated_signed:
  assumes "validateDelegatedPayment v input opts = Inr p"
  defines "accepted \<equiv> js_get (js_get input ''paymentPayload'') ''accepted''"
    and "signed \<equiv> js_get (js_get input ''paymentPayload'') ''payload''"
  shows "\<exists>ctx delegators. js_get signed ''permissionContext'' = JString ctx \<and> v_isHex v ctx \<and>
       2 < length ctx \<and> length ctx \<le> 131074 \<and>
       v_decodeDelegations v ctx = Some delegators \<and> delegators \<noteq> [] \<and> vp_payer p = v_getAddress v (last delegators) \<and>
       js_getAddress v (js_get signed ''delegationManager'') = v_getAddress v (vo_delegationManager opts) \<and>
       vp_payer p = js_getAddress v (js_get signed ''delegator'') \<and>
       vp_paymentIntentId p = derivePaymentIntentId v \<lparr>pin_network = GIWA_SEPOLIA_CAIP2, pin_asset = MOCK_USDC_address,
         pin_amount = vp_amount p, pin_payTo = js_getAddress v (js_get accepted ''payTo''),
         pin_delegationManager = v_getAddress v (vo_delegationManager opts), pin_permissionContext = ctx\<rparr>"
  using assms(1)
proof (cases rule: validateE)
  case 1
  note terms = validate_terms_facts [OF 1(3)] and same = sameRequirement_texts [OF 1(4)]
  obtain ds where pl: "js_getAddress v (js_get signed ''delegationManager'') = v_getAddress v (vo_delegationManager opts)"
    "v_decodeDelegations v (js_text (js_get signed ''permissionContext'')) = Some ds" "ds \<noteq> []"
    "vp_payer p = v_getAddress v (last ds)" "vp_payer p = js_getAddress v (js_get signed ''delegator'')"
    using 1(5) unfolding signed_def by (rule validate_payloadE)
  obtain ctx where c: "js_get signed ''permissionContext'' = JString ctx" "v_isHex v ctx" "2 < length ctx"
    "length ctx \<le> 131074"
    using context_text_facts [OF 1(5)] unfolding signed_def MAX_PERMISSION_CONTEXT_HEX_LENGTH_def by blast
  have intent: "vp_paymentIntentId p = derivePaymentIntentId v \<lparr>pin_network = GIWA_SEPOLIA_CAIP2, pin_asset = MOCK_USDC_address,
      pin_amount = vp_amount p, pin_payTo = js_getAddress v (js_get accepted ''payTo''),
      pin_delegationManager = v_getAddress v (vo_delegationManager opts), pin_permissionContext = ctx\<rparr>"
    using 1(7) terms(3,4) same(6) pl(1) c(1) unfolding accepted_def signed_def by (simp add: js_text_def)
  have "v_decodeDelegations v ctx = Some ds" using pl(2) c(1) by (simp add: js_text_def)
  then show ?thesis using c pl intent by blast
qed

text \<open>C5: nothing unsigned and nothing off the rail reaches the chain. In a payment the validator
  accepts, both versions are 2 and the offer the payer accepted is an exact ERC-7710 offer on this
  network, for the token of this rail, with a canonical positive amount within the cap, a recipient
  that is an address, a timeout of 1 to 300 seconds and a known payment flow; it agrees with the
  requirements of the seller, which name this facilitator if they name any. The signed half goes to the
  allowlisted manager with a bounded hex context; the payer is the root delegator decoded from that
  context, not the claim beside it; and the intent is the one derived from exactly these facts.\<close>

theorem validated_payment_sound:
  assumes "validateDelegatedPayment v input opts = Inr p"
  defines "accepted \<equiv> js_get (js_get input ''paymentPayload'') ''accepted''"
    and "signed \<equiv> js_get (js_get input ''paymentPayload'') ''payload''"
    and "required \<equiv> js_get input ''paymentRequirements''"
  shows "(js_get input ''x402Version'' = JNum 2 \<and> js_get (js_get input ''paymentPayload'') ''x402Version'' = JNum 2) \<and>
    (js_get accepted ''scheme'' = JString ''exact'' \<and> js_get accepted ''network'' = JString GIWA_SEPOLIA_CAIP2 \<and>
     js_get (js_get accepted ''extra'') ''assetTransferMethod'' = JString ''erc7710'' \<and>
     js_get (js_get accepted ''extra'') ''paymentFlow'' \<in> {JUndefined, JNull, JString ''upfront'', JString ''authorization''} \<and>
     (\<exists>n. js_get accepted ''maxTimeoutSeconds'' = JNum n \<and> 1 \<le> n \<and> n \<le> 300) \<and>
     (\<exists>s. js_get accepted ''amount'' = JString s \<and> canonical_whole s \<and> BigInt s = vp_amount p) \<and>
     js_getAddress v (js_get accepted ''asset'') = MOCK_USDC_address \<and> js_isAddress v (js_get accepted ''payTo'')) \<and>
    (0 < vp_amount p \<and> (\<forall>m. vo_maxAmount opts = Some m \<longrightarrow> vp_amount p \<le> m)) \<and>
    (vp_paymentRequirements p = required \<and> vp_paymentPayload p = js_get input ''paymentPayload'' \<and>
     sameRequirement v accepted required \<and>
     advertises v (js_get (js_get required ''extra'') ''facilitatorAddresses'') (vo_facilitator opts)) \<and>
    (\<exists>ctx delegators. js_get signed ''permissionContext'' = JString ctx \<and> v_isHex v ctx \<and>
       2 < length ctx \<and> length ctx \<le> 131074 \<and>
       v_decodeDelegations v ctx = Some delegators \<and> delegators \<noteq> [] \<and> vp_payer p = v_getAddress v (last delegators) \<and>
       js_getAddress v (js_get signed ''delegationManager'') = v_getAddress v (vo_delegationManager opts) \<and>
       vp_payer p = js_getAddress v (js_get signed ''delegator'') \<and>
       vp_paymentIntentId p = derivePaymentIntentId v \<lparr>pin_network = GIWA_SEPOLIA_CAIP2, pin_asset = MOCK_USDC_address,
         pin_amount = vp_amount p, pin_payTo = js_getAddress v (js_get accepted ''payTo''),
         pin_delegationManager = v_getAddress v (vo_delegationManager opts), pin_permissionContext = ctx\<rparr>)"
  using assms(1)
proof (cases rule: validateE)
  case 1
  note terms = validate_terms_facts [OF 1(3)] and same = sameRequirement_texts [OF 1(4)]
  note vers = validate_versions [OF assms(1), unfolded X402_VERSION_def]
  have offer: "js_get accepted ''scheme'' = JString ''exact''" "js_get accepted ''network'' = JString GIWA_SEPOLIA_CAIP2"
    "js_get (js_get accepted ''extra'') ''assetTransferMethod'' = JString ''erc7710''"
    "js_get (js_get accepted ''extra'') ''paymentFlow'' \<in> {JUndefined, JNull, JString ''upfront'', JString ''authorization''}"
    "\<exists>n. js_get accepted ''maxTimeoutSeconds'' = JNum n \<and> 1 \<le> n \<and> n \<le> 300"
    "\<exists>s. js_get accepted ''amount'' = JString s \<and> canonical_whole s \<and> BigInt s = vp_amount p"
    "js_getAddress v (js_get accepted ''asset'') = MOCK_USDC_address" "js_isAddress v (js_get accepted ''payTo'')"
    using terms same unfolding accepted_def by (auto simp: js_text_def)
  show ?thesis using vers offer terms(1,2) 1(1,2,4,6) validated_signed [OF assms(1)]
    unfolding accepted_def required_def signed_def by (intro conjI) blast+
qed

text \<open>C11: one intent, one key. Two accepted requests for the same amount, the same recipient (in
  any spelling) and the same signed ctx have the same payment-intent id, whatever else
  differs between the two documents; so a retry is always recognised as the same payment.\<close>

theorem intent_key_canonical:
  assumes "viem_ok v"
    and "validateDelegatedPayment v input1 opts = Inr p1" and "validateDelegatedPayment v input2 opts = Inr p2"
    and "vp_amount p1 = vp_amount p2"
    and "toLowerCase (js_text (js_get (vp_paymentRequirements p1) ''payTo''))
       = toLowerCase (js_text (js_get (vp_paymentRequirements p2) ''payTo''))"
    and "js_text (js_get (js_get (vp_paymentPayload p1) ''payload'') ''permissionContext'')
       = js_text (js_get (js_get (vp_paymentPayload p2) ''payload'') ''permissionContext'')"
  shows "vp_paymentIntentId p1 = vp_paymentIntentId p2"
proof -
  have get: "js_getAddress v a = js_getAddress v b"
    if "js_isAddress v a" "js_isAddress v b" "toLowerCase (js_text a) = toLowerCase (js_text b)" for a b
    using that assms(1) by (auto simp: js_isAddress_def js_getAddress_def js_text_def viem_ok_def split: js.splits)
  show ?thesis
    using assms(2)
  proof (cases rule: validateE)
    case a: 1
    note ta = validate_terms_facts [OF a(3)]
    from assms(3) show ?thesis
    proof (cases rule: validateE)
      case b: 1
      note tb = validate_terms_facts [OF b(3)]
      have "js_getAddress v (js_get (js_get input1 ''paymentRequirements'') ''payTo'')
          = js_getAddress v (js_get (js_get input2 ''paymentRequirements'') ''payTo'')"
        using assms(5) a(1) b(1) ta(5) tb(5) by (intro get) simp_all
      moreover from a(5) have "js_getAddress v (js_get (js_get (js_get input1 ''paymentPayload'') ''payload'') ''delegationManager'')
          = v_getAddress v (vo_delegationManager opts)" by (rule validate_payloadE)
      moreover from b(5) have "js_getAddress v (js_get (js_get (js_get input2 ''paymentPayload'') ''payload'') ''delegationManager'')
          = v_getAddress v (vo_delegationManager opts)" by (rule validate_payloadE)
      ultimately show ?thesis
        using assms(4,6) a(2) b(2) ta(3,4) tb(3,4) unfolding a(7) b(7) by simp
    qed
  qed
qed

section \<open>An honest payment passes\<close>

definition buildErc7710PaymentPayload :: "js \<Rightarrow> string \<Rightarrow> string \<Rightarrow> string \<Rightarrow> js option \<Rightarrow> js" where
  "buildErc7710PaymentPayload accepted delegationManager permissionContext delegator extensions = JObject
     ([(''x402Version'', JNum X402_VERSION), (''accepted'', accepted),
       (''payload'', JObject [(''delegationManager'', JString delegationManager),
          (''permissionContext'', JString permissionContext), (''delegator'', JString delegator)])]
      @ (case extensions of None \<Rightarrow> [] | Some x \<Rightarrow> [(''extensions'', x)]))"

lemma canonical_String: "0 \<le> i \<Longrightarrow> canonical_whole (String i)"
  using canonical_nat_dec by (simp add: String_def)

lemma js_simps [simp]:
  "js_isAddress v (JString a) = v_isAddress v a" "js_getAddress v (JString a) = v_getAddress v a"
  "js_text (JString a) = a" "strict_eq (JString a) (JString b) = (a = b)" "strict_eq (JNum i) (JNum j) = (i = j)"
  "strict_eq JUndefined JUndefined"
  by (simp_all add: js_isAddress_def js_getAddress_def js_text_def strict_eq_def)

lemma offer_fields [simp]:
  "js_get (buildErc7710PaymentRequirements p a f m t) ''scheme'' = JString ''exact''"
  "js_get (buildErc7710PaymentRequirements p a f m t) ''network'' = JString GIWA_SEPOLIA_CAIP2"
  "js_get (buildErc7710PaymentRequirements p a f m t) ''amount'' = JString (String a)"
  "js_get (buildErc7710PaymentRequirements p a f m t) ''payTo'' = JString p"
  "js_get (buildErc7710PaymentRequirements p a f m t) ''maxTimeoutSeconds'' = JNum (case t of None \<Rightarrow> 60 | Some n \<Rightarrow> n)"
  "js_get (buildErc7710PaymentRequirements p a f m t) ''asset'' = JString MOCK_USDC_address"
  "js_get (buildErc7710PaymentRequirements p a f m t) ''extra'' = offer_extra f m"
  "is_object_body (buildErc7710PaymentRequirements p a f m t)"
  by (simp_all add: buildErc7710PaymentRequirements_def js_get_JObject is_object_body_def)

lemma offer_extra_fields [simp]:
  "js_get (offer_extra f m) ''assetTransferMethod'' = JString ''erc7710''"
  "js_get (offer_extra f m) ''paymentFlow'' = JString ''upfront''"
  "js_get (offer_extra f m) ''facilitatorAddresses'' = (case f of None \<Rightarrow> JUndefined | Some xs \<Rightarrow> JArray (map JString xs))"
  "js_get (offer_extra f m) ''delegationManager'' = (case m of None \<Rightarrow> JUndefined | Some a \<Rightarrow> if a = [] then JUndefined else JString a)"
  by (auto simp: offer_extra_def js_get_JObject split: option.splits)

lemma payload_fields [simp]:
  "js_get (buildErc7710PaymentPayload acc dm ctx d ext) ''x402Version'' = JNum X402_VERSION"
  "js_get (buildErc7710PaymentPayload acc dm ctx d ext) ''accepted'' = acc"
  "js_get (js_get (buildErc7710PaymentPayload acc dm ctx d ext) ''payload'') ''delegationManager'' = JString dm"
  "js_get (js_get (buildErc7710PaymentPayload acc dm ctx d ext) ''payload'') ''permissionContext'' = JString ctx"
  "js_get (js_get (buildErc7710PaymentPayload acc dm ctx d ext) ''payload'') ''delegator'' = JString d"
  "is_object_body (buildErc7710PaymentPayload acc dm ctx d ext)"
  "is_object_body (js_get (buildErc7710PaymentPayload acc dm ctx d ext) ''payload'')"
  by (auto simp: buildErc7710PaymentPayload_def js_get_JObject is_object_body_def split: option.splits)

lemma request_fields [simp]:
  "js_get (facilitator_request p r) ''x402Version'' = JNum X402_VERSION"
  "js_get (facilitator_request p r) ''paymentPayload'' = p"
  "js_get (facilitator_request p r) ''paymentRequirements'' = r"
  "is_object_body (facilitator_request p r)"
  by (simp_all add: facilitator_request_def js_get_JObject is_object_body_def)

lemma sameAddressList_refl:
  "\<forall>a \<in> set xs. v_isAddress v a \<Longrightarrow> sameAddressList v (JArray (map JString xs)) (JArray (map JString xs))"
  by (simp add: sameAddressList_def or_empty_def sameAddress_def list_all2_map1 list_all2_map2 list.rel_refl_strong)

lemma sameRequirement_refl:
  assumes "v_isAddress v payTo" "v_isAddress v MOCK_USDC_address"
    and "\<forall>xs. facs = Some xs \<longrightarrow> (\<forall>a \<in> set xs. v_isAddress v a)"
    and "\<forall>m. man = Some m \<longrightarrow> v_isAddress v m"
  shows "sameRequirement v (buildErc7710PaymentRequirements payTo amount facs man t)
     (buildErc7710PaymentRequirements payTo amount facs man t)"
proof -
  have "sameAddressList v JUndefined JUndefined" by (simp add: sameAddressList_def or_empty_def)
  then show ?thesis
    using assms sameAddressList_refl
    by (auto simp: sameRequirement_def sameAddress_def sameOptionalManager_def split: option.splits)
qed

definition signed_facts :: "viem \<Rightarrow> ValidationOptions \<Rightarrow> string \<Rightarrow> string \<Rightarrow> string \<Rightarrow> bool" where
  "signed_facts v opts dm ctx d \<longleftrightarrow>
     v_isAddress v dm \<and> v_getAddress v dm = v_getAddress v (vo_delegationManager opts) \<and>
     v_isAddress v d \<and> v_isHex v ctx \<and> 2 < length ctx \<and> length ctx \<le> MAX_PERMISSION_CONTEXT_HEX_LENGTH \<and>
     (\<exists>ds. v_decodeDelegations v ctx = Some ds \<and> ds \<noteq> [] \<and> v_isAddress v (last ds) \<and>
        v_getAddress v (last ds) = v_getAddress v d)"

text \<open>C10: an honest payment is accepted. A payload that echoes the seller's offer and carries a
  signed ctx for the allowlisted manager, whose root is the claimed delegator, validates at
  every facilitator the offer names, with the payer, the amount and the intent key the seller
  derives from the same header.\<close>

theorem honest_payment_validates:
  fixes amount :: int
  assumes "viem_ok v" and "v_isAddress v payTo" and "0 < amount" and "\<forall>m. vo_maxAmount opts = Some m \<longrightarrow> amount \<le> m"
    and "\<forall>a \<in> set facs. v_isAddress v a" and "vo_facilitator opts \<in> set facs"
    and "\<forall>m. manager = Some m \<longrightarrow> v_isAddress v m"
    and "signed_facts v opts dm ctx d"
  defines "offer \<equiv> buildErc7710PaymentRequirements payTo amount (Some facs) manager None"
  shows "\<exists>p. validateDelegatedPayment v (facilitator_request (buildErc7710PaymentPayload offer dm ctx d ext) offer) opts = Inr p \<and>
     vp_payer p = v_getAddress v d \<and> vp_amount p = amount \<and>
     vp_paymentIntentId p = derivePaymentIntentId v \<lparr>pin_network = GIWA_SEPOLIA_CAIP2, pin_asset = MOCK_USDC_address,
       pin_amount = amount, pin_payTo = v_getAddress v payTo, pin_delegationManager = v_getAddress v dm,
       pin_permissionContext = ctx\<rparr>"
proof -
  have usdc: "v_isAddress v MOCK_USDC_address" "v_getAddress v MOCK_USDC_address = MOCK_USDC_address"
    using assms(1) by (simp_all add: viem_ok_def)
  have terms: "validate_terms v offer opts = Inr amount"
    using usdc assms(2-4) canonical_String [of amount]
    by (cases "vo_maxAmount opts") (simp_all add: validate_terms_def offer_def)
  have same: "sameRequirement v offer offer"
    unfolding offer_def using assms(2,5,7) usdc(1) by (intro sameRequirement_refl) auto
  have adv: "advertises v (js_get (js_get offer ''extra'') ''facilitatorAddresses'') (vo_facilitator opts)"
    using assms(5,6) by (auto simp: offer_def advertises_def)
  have pl: "validate_payload v (js_get (buildErc7710PaymentPayload offer dm ctx d ext) ''payload'') opts = Inr (v_getAddress v d)"
    using assms(8) by (auto simp: signed_facts_def validate_payload_def)
  show ?thesis
    using terms same adv pl usdc by (simp add: validateDelegatedPayment_def) (simp add: offer_def)
qed

section \<open>A sample payment, for the witnesses\<close>

definition addr :: "char \<Rightarrow> string" where
  "addr c = ''0x'' @ replicate 40 c"

lemma addr_facts [simp]: "length (addr c) = 42" "take 42 (addr c) = addr c" "addr c \<noteq> []"
  by (simp_all add: addr_def)

lemma sample_addresses [simp]: "v_isAddress sample_viem (addr CHR ''1'')" "v_isAddress sample_viem (addr CHR ''2'')"
    "v_isAddress sample_viem (addr CHR ''3'')" "v_isHex sample_viem (addr CHR ''3'')"
    "v_decodeDelegations sample_viem (addr CHR ''3'') = Some [addr CHR ''3'']"
  by (simp_all add: sample_viem_def) (simp_all add: addr_def hex_literal_def char_class_defs list_all_iff)

definition sample_options :: ValidationOptions where
  "sample_options = \<lparr>vo_delegationManager = addr CHR ''2'', vo_facilitator = addr CHR ''1'', vo_maxAmount = Some 9\<rparr>"

definition sample_offer :: js where
  "sample_offer = buildErc7710PaymentRequirements (addr CHR ''1'') 5 (Some [addr CHR ''1'']) None None"

definition sample_payload :: js where
  "sample_payload = buildErc7710PaymentPayload sample_offer (addr CHR ''2'') (addr CHR ''3'') (addr CHR ''3'') None"

lemma sample_signed: "signed_facts sample_viem sample_options (addr CHR ''2'') (addr CHR ''3'') (addr CHR ''3'')"
  by (simp add: signed_facts_def sample_options_def MAX_PERMISSION_CONTEXT_HEX_LENGTH_def)

lemma sample_validates:
  "\<exists>p. validateDelegatedPayment sample_viem (facilitator_request sample_payload sample_offer) sample_options = Inr p"
proof -
  have "validate_terms sample_viem sample_offer sample_options = Inr 5"
    using sample_viem_ok canonical_String [of 5]
    by (simp add: validate_terms_def sample_offer_def sample_options_def viem_ok_def)
  moreover have "sameRequirement sample_viem sample_offer sample_offer"
    unfolding sample_offer_def using sample_viem_ok by (intro sameRequirement_refl) (simp_all add: viem_ok_def)
  moreover have "validate_payload sample_viem (js_get sample_payload ''payload'') sample_options
      = Inr (v_getAddress sample_viem (addr CHR ''3''))"
    using sample_signed by (auto simp: sample_payload_def signed_facts_def validate_payload_def)
  moreover have "advertises sample_viem (js_get (js_get sample_offer ''extra'') ''facilitatorAddresses'') (vo_facilitator sample_options)"
    by (simp add: sample_offer_def advertises_def sample_options_def)
  ultimately show ?thesis
    by (simp add: validateDelegatedPayment_def sample_payload_def) (simp add: sample_offer_def)
qed

theorem honest_payment_validates_witness:
  "\<exists>p. validateDelegatedPayment sample_viem (facilitator_request sample_payload sample_offer) sample_options = Inr p \<and>
     vp_amount p = 5"
  using honest_payment_validates [OF sample_viem_ok, of "addr CHR ''1''" 5 sample_options "[addr CHR ''1'']" None
      "addr CHR ''2''" "addr CHR ''3''" "addr CHR ''3''" None] sample_signed
  by (auto simp: sample_payload_def sample_offer_def) (auto simp: sample_options_def)

theorem validated_payment_sound_witness:
  "\<exists>p. validateDelegatedPayment sample_viem (facilitator_request sample_payload sample_offer) sample_options = Inr p \<and>
     0 < vp_amount p \<and> vp_amount p \<le> 9"
proof -
  obtain p where p: "validateDelegatedPayment sample_viem (facilitator_request sample_payload sample_offer) sample_options = Inr p"
    using sample_validates by blast
  then show ?thesis using validated_payment_sound [OF p] by (simp add: sample_options_def)
qed

theorem intent_key_canonical_witness:
  "\<exists>p q. validateDelegatedPayment sample_viem (facilitator_request sample_payload sample_offer) sample_options = Inr p \<and>
     validateDelegatedPayment sample_viem (facilitator_request sample_payload sample_offer) sample_options = Inr q \<and>
     vp_paymentIntentId p = vp_paymentIntentId q"
proof -
  obtain p where p: "validateDelegatedPayment sample_viem (facilitator_request sample_payload sample_offer) sample_options = Inr p"
    using sample_validates by blast
  have "vp_paymentIntentId p = vp_paymentIntentId p"
    by (rule intent_key_canonical [OF sample_viem_ok p p]) simp_all
  then show ?thesis using p by blast
qed

section \<open>Single flight\<close>

text \<open>
  \<^verbatim>\<open>PaymentIntentSingleFlight\<close>: the map of operations in flight. A call joins the operation
  registered under its intent or registers a new one; the operation's end (fulfilled or
  rejected) removes it, if it is still the registered one. Operations are numbered in the
  order they start; \<open>sf_log\<close> lists those started, newest first.
\<close>

record flight =
  sf_inflight :: "string \<rightharpoonup> nat"
  sf_next :: nat
  sf_log :: "(string \<times> nat) list"

definition empty_flight :: flight where
  "empty_flight = \<lparr>sf_inflight = Map.empty, sf_next = 0, sf_log = []\<rparr>"

text \<open>The operation a call is handed, and whether it is the one that executes.\<close>

definition sf_run :: "flight \<Rightarrow> string \<Rightarrow> (nat \<times> bool) \<times> flight" where
  "sf_run f intent = (case sf_inflight f intent of
     Some op \<Rightarrow> ((op, False), f)
   | None \<Rightarrow> ((sf_next f, True), \<lparr>sf_inflight = (sf_inflight f)(intent \<mapsto> sf_next f),
        sf_next = sf_next f + 1, sf_log = (intent, sf_next f) # sf_log f\<rparr>))"

definition sf_settle :: "flight \<Rightarrow> string \<Rightarrow> nat \<Rightarrow> flight" where
  "sf_settle f intent op = (if sf_inflight f intent = Some op
     then f\<lparr>sf_inflight := (sf_inflight f)(intent := None)\<rparr> else f)"

inductive flight_step :: "flight \<Rightarrow> flight \<Rightarrow> bool" where
  step_run: "flight_step f (snd (sf_run f intent))"
| step_settle: "flight_step f (sf_settle f intent op)"

inductive_cases flight_stepE: "flight_step f f'"

definition flight_ok :: "flight \<Rightarrow> bool" where
  "flight_ok f \<longleftrightarrow> (\<forall>i op. sf_inflight f i = Some op \<longrightarrow> (i, op) \<in> set (sf_log f)) \<and>
     (\<forall>(i, op) \<in> set (sf_log f). op < sf_next f) \<and> distinct (map snd (sf_log f))"

lemma flight_step_ok: "flight_step f f' \<Longrightarrow> flight_ok f \<Longrightarrow> flight_ok f'"
  by (erule flight_stepE) (auto simp: flight_ok_def sf_run_def sf_settle_def split: option.splits if_splits)

lemma flight_run_ok: "flight_step\<^sup>*\<^sup>* f f' \<Longrightarrow> flight_ok f \<Longrightarrow> flight_ok f'"
  by (induction rule: rtranclp_induct) (auto intro: flight_step_ok)

lemma empty_flight_ok: "flight_ok empty_flight"
  by (simp add: flight_ok_def empty_flight_def)

text \<open>Concurrent calls for one payment share one operation. In every reachable state, while
  an operation for an intent is in flight every further call joins exactly that operation and
  executes nothing, and no two operations of one intent are ever in flight together.\<close>

theorem single_flight_coalesces:
  assumes "flight_step\<^sup>*\<^sup>* empty_flight f" and "sf_run f intent = ((op, own), f')"
  shows "(sf_inflight f intent = None \<longrightarrow> own \<and> (\<forall>(i, o') \<in> set (sf_log f). o' \<noteq> op) \<and> sf_inflight f' intent = Some op) \<and>
    (\<forall>other. sf_inflight f intent = Some other \<longrightarrow> \<not> own \<and> op = other \<and> f' = f)"
proof -
  have "flight_ok f" using flight_run_ok [OF assms(1) empty_flight_ok] .
  then show ?thesis using assms(2) by (auto simp: sf_run_def flight_ok_def split: option.splits)
qed

theorem single_flight_coalesces_witness:
  "let f1 = snd (sf_run empty_flight ''i'') in sf_run f1 ''i'' = ((0, False), f1) \<and> sf_inflight f1 ''i'' = Some 0"
proof -
  let ?f = "snd (sf_run empty_flight ''i'')"
  have "flight_step empty_flight ?f" by (rule step_run)
  then have run: "flight_step\<^sup>*\<^sup>* empty_flight ?f" by simp
  have infl: "sf_inflight ?f ''i'' = Some 0" by (simp add: sf_run_def empty_flight_def)
  obtain op own f' where sf: "sf_run ?f ''i'' = ((op, own), f')" by (metis prod.exhaust)
  from single_flight_coalesces [OF run sf] infl have "op = 0 \<and> \<not> own \<and> f' = ?f" by blast
  then show ?thesis using sf infl by (simp add: Let_def)
qed

end
