(* ===== verification/Facilitator_Service.thy ===== *)
theory Facilitator_Service
  imports Settlement_Recovery X402
begin

text \<open>
  The facilitator's two payment routes from the request body to the answer
  (\<^verbatim>\<open>apps/facilitator-erc7710/routes.ts\<close> and the \<^verbatim>\<open>SettlementCoordinator\<close> of
  \<^verbatim>\<open>index.ts\<close>): validation, the known-settlement check, simulation and pricing, settlement
  through the recovery, the refusal row, and the answer. The chain client and the signer are
  parameters.
\<close>

section \<open>The chain as one request sees it\<close>

text \<open>
  The answers of the node and the signer. A missing receipt (the client's
  \<^verbatim>\<open>TransactionReceiptNotFoundError\<close>) is \<open>Inr None\<close>. \<open>ch_sign\<close> signs the redemption of the
  payment at hand with a nonce, a gas limit, a maximal and a priority fee.
\<close>

record chain_answers =
  ch_transactionCount :: "thrown + int"
  ch_simulate :: "thrown + unit"
  ch_estimateGas :: "thrown + int"
  ch_feesPerGas :: "thrown + int \<times> int"
  ch_sign :: "int \<Rightarrow> int \<Rightarrow> int \<Rightarrow> int \<Rightarrow> thrown + string"
  ch_receipt :: "string \<Rightarrow> thrown + RecoveryReceipt option"
  ch_sendRaw :: "string \<Rightarrow> thrown + string"
  ch_wait :: "string \<Rightarrow> thrown + RecoveryReceipt"

record service =
  svc_viem :: viem
  svc_options :: ValidationOptions
  svc_recovery :: recovery_env
  svc_max_redemption_gas :: int
  svc_now :: int
  svc_ledger_fault :: bool

section \<open>The coordinator\<close>

definition prepareRedemption :: "service \<Rightarrow> chain_answers \<Rightarrow> thrown + int" where
  "prepareRedemption svc ch = ebind (ch_simulate ch) (\<lambda>_. ebind (ch_estimateGas ch) (\<lambda>gas.
     if svc_max_redemption_gas svc < gas
     then Inl [link RedemptionRejected ''redemption gas exceeds configured cap''] else Inr gas))"

definition coordinator_simulate ::
    "service \<Rightarrow> chain_answers \<Rightarrow> ValidatedDelegatedPayment \<Rightarrow> journal_db \<Rightarrow> thrown + unit" where
  "coordinator_simulate svc ch payment db =
     ebind (known (svc_recovery svc) db (vp_paymentIntentId payment)) (\<lambda>found. case found of
       Some rec \<Rightarrow> verifyKnownSettlement rec
     | None \<Rightarrow> ebind (beforeBroadcast (prepareRedemption svc ch)) (\<lambda>_. Inr ()))"

definition settle_operations :: "service \<Rightarrow> chain_answers \<Rightarrow> ValidatedDelegatedPayment \<Rightarrow> RecoveryOperations" where
  "settle_operations svc ch payment = \<lparr>
     op_pendingNonce = beforeBroadcast (ch_transactionCount ch),
     op_prepare = (\<lambda>nonce. ebind (beforeBroadcast (prepareRedemption svc ch)) (\<lambda>gas.
       ebind (beforeBroadcast (ch_feesPerGas ch)) (\<lambda>(maxFee, priority). ch_sign ch nonce gas maxFee priority))),
     op_restore = (\<lambda>rec. ch_sign ch (si_nonce rec) (si_gas rec) (si_maxFeePerGas rec) (si_maxPriorityFeePerGas rec)),
     op_receipt = ch_receipt ch,
     op_send = ch_sendRaw ch,
     op_wait = ch_wait ch,
     op_failure = (\<lambda>rcp. receiptFailure (svc_viem svc) (rcp_success rcp) (rcp_logs rcp)
       (js_text (js_get (vp_paymentRequirements payment) ''asset'')) (vp_payer payment)
       (js_text (js_get (vp_paymentRequirements payment) ''payTo'')) (vp_amount payment))\<rparr>"

definition recovery_payment :: "ValidatedDelegatedPayment \<Rightarrow> RecoveryPayment" where
  "recovery_payment payment = \<lparr>pay_paymentIntentId = vp_paymentIntentId payment, pay_payer = vp_payer payment,
     pay_payTo = js_text (js_get (vp_paymentRequirements payment) ''payTo''), pay_amountBase = vp_amount payment\<rparr>"

text \<open>\<^verbatim>\<open>recordRejection\<close>: best effort.\<close>

definition recordRejection :: "service \<Rightarrow> ValidatedDelegatedPayment \<Rightarrow> string \<Rightarrow> journal_db \<Rightarrow> journal_db" where
  "recordRejection svc payment errorCode db =
     (if svc_ledger_fault svc then db
      else case ledger_record (events db) \<lparr>evi_at = svc_now svc, evi_kind = ''settle'', evi_payer = vp_payer payment,
          evi_payTo = js_text (js_get (vp_paymentRequirements payment) ''payTo''), evi_amountBase = vp_amount payment,
          evi_outcome = Rejected, evi_txHash = None, evi_gasUsed = None, evi_errorCode = Some errorCode\<rparr> of
        Inl _ \<Rightarrow> db
      | Inr (_, evs) \<Rightarrow> db\<lparr>events := evs\<rparr>)"

definition coordinator_settle ::
    "service \<Rightarrow> chain_answers \<Rightarrow> ValidatedDelegatedPayment \<Rightarrow> journal_db \<Rightarrow> (thrown + js) \<times> journal_db \<times> string list" where
  "coordinator_settle svc ch payment db =
     (let (r, db', sent) = recovery_settle (svc_recovery svc) (settle_operations svc ch payment) (recovery_payment payment) db;
          answer = ebind r (\<lambda>(rec, replayed). settlementResponse rec replayed)
      in case answer of
        Inr body \<Rightarrow> (Inr body, db', sent)
      | Inl e \<Rightarrow> (Inl e, (case describeFailure e RouteSettle of
          FailureRejected errorCode \<Rightarrow> recordRejection svc payment errorCode db' | _ \<Rightarrow> db'), sent))"

section \<open>The routes\<close>

definition validate_request :: "service \<Rightarrow> js \<Rightarrow> thrown + ValidatedDelegatedPayment" where
  "validate_request svc body = (case validateDelegatedPayment (svc_viem svc) body (svc_options svc) of
     Inl reason \<Rightarrow> Inl [link (PaymentValidationError reason) []] | Inr p \<Rightarrow> Inr p)"

text \<open>
  \<^verbatim>\<open>readJson\<close>: the content type, the numeric value of the content length when it is finite,
  the body text, and the JSON parser of the runtime.
\<close>

definition readJson :: "(string \<Rightarrow> js option) \<Rightarrow> string option \<Rightarrow> int option \<Rightarrow> string \<Rightarrow> thrown + js" where
  "readJson parse content_type content_length body_text =
     (let invalid = [link (PaymentValidationError INVALID_PAYLOAD) ''unreadable body''] in
      if \<not> (case content_type of None \<Rightarrow> False | Some c \<Rightarrow> starts_with ''application/json'' (toLowerCase c)) then Inl invalid
      else if (case content_length of None \<Rightarrow> False | Some n \<Rightarrow> 150000 < n) then Inl invalid
      else if body_text = [] \<or> 150000 < length body_text then Inl invalid
      else case parse body_text of None \<Rightarrow> Inl invalid | Some j \<Rightarrow> Inr j)"

definition verify_answer :: "thrown + ValidatedDelegatedPayment \<Rightarrow> http_answer" where
  "verify_answer r = (case r of
     Inr payment \<Rightarrow> \<lparr>ans_status = 200, ans_body = JObject [(''isValid'', JBool True), (''payer'', JString (vp_payer payment))]\<rparr>
   | Inl e \<Rightarrow> (case describeFailure e RouteVerify of
       FailureRejected errorCode \<Rightarrow> \<lparr>ans_status = 200,
         ans_body = JObject [(''isValid'', JBool False), (''invalidReason'', JString errorCode)]\<rparr>
     | _ \<Rightarrow> VERIFY_NOT_READY))"

definition verify_route :: "service \<Rightarrow> chain_answers \<Rightarrow> thrown + js \<Rightarrow> journal_db \<Rightarrow> http_answer" where
  "verify_route svc ch body db = verify_answer (ebind body (\<lambda>b. ebind (validate_request svc b) (\<lambda>payment.
     ebind (coordinator_simulate svc ch payment db) (\<lambda>_. Inr payment))))"

definition settle_failure_answer :: "thrown \<Rightarrow> http_answer" where
  "settle_failure_answer e = (case describeFailure e RouteSettle of
     FailureNotReady \<Rightarrow> SETTLE_NOT_READY
   | FailureRejected errorCode \<Rightarrow> \<lparr>ans_status = 200, ans_body = JObject [(''success'', JBool False),
       (''network'', JString GIWA_SEPOLIA_CAIP2), (''transaction'', JString []), (''errorReason'', JString errorCode)]\<rparr>
   | FailureError transaction \<Rightarrow> \<lparr>ans_status = 200, ans_body = JObject [(''success'', JBool False),
       (''network'', JString GIWA_SEPOLIA_CAIP2), (''transaction'', JString transaction),
       (''errorReason'', JString SETTLEMENT_PENDING)]\<rparr>)"

definition settle_route ::
    "service \<Rightarrow> chain_answers \<Rightarrow> thrown + js \<Rightarrow> journal_db \<Rightarrow> http_answer \<times> journal_db \<times> string list" where
  "settle_route svc ch body db =
     (case ebind body (validate_request svc) of
        Inl e \<Rightarrow> (settle_failure_answer e, db, [])
      | Inr payment \<Rightarrow> (case coordinator_settle svc ch payment db of
          (Inr result, db', sent) \<Rightarrow> (\<lparr>ans_status = 200, ans_body = result\<rparr>, db', sent)
        | (Inl e, db', sent) \<Rightarrow> (settle_failure_answer e, db', sent)))"

section \<open>How the seller reads an answer\<close>

text \<open>A non-2xx answer carries no body the seller's client reads.\<close>

definition seen_by_seller :: "http_answer \<Rightarrow> FacilitatorAnswer" where
  "seen_by_seller a = \<lparr>fa_reachable = (200 \<le> ans_status a \<and> ans_status a < 300), fa_body = ans_body a\<rparr>"

section \<open>Recorded hashes are hashes\<close>

definition hashes_hex :: "journal_db \<Rightarrow> bool" where
  "hashes_hex db \<longleftrightarrow> (\<forall>r \<in> set (intents db). hex_literal is_hex 64 (ir_tx_hash r))"

lemma claim_new_hash_hex:
  "claim_new db i input limits = Inr db' \<Longrightarrow> hex_literal is_hex 64 (si_txHash input)"
  unfolding claim_new_def Let_def ebind_Inr_iff by clarsimp

lemma claim_hashes_hex:
  assumes "claim db input L = Inr (rec, db')" "hashes_hex db"
  shows "hashes_hex db'"
  using assms(1)
proof (cases rule: claim_cases)
  case (known r)
  then show ?thesis using assms(2) by simp
next
  case (fresh r)
  obtain q where "intents db' = intents db @ [q]" "ir_tx_hash q = toLowerCase (si_txHash input)"
    using fresh(2) by (rule claim_newE)
  then show ?thesis using assms(2) hex_literal_lower [OF claim_new_hash_hex [OF fresh(2)]] by (auto simp: hashes_hex_def)
qed

lemma finish_hashes_hex:
  assumes "finish db i res = Inr (rec, db')" "hashes_hex db"
  shows "hashes_hex db'"
  using assms(1) by (cases rule: finish_cases) (use assms(2) in \<open>auto simp: hashes_hex_def finish_intent_def set_update_where\<close>)

lemma store_run_hashes: "store_run Q L db \<Longrightarrow> hashes_hex db"
  by (induction rule: store_run.induct)
    (auto simp: hashes_hex_def empty_journal_def dest: claim_hashes_hex finish_hashes_hex)

lemma hash_of_hex: "hashes_hex db \<Longrightarrow> hash_of db i = Some h \<Longrightarrow> hex_literal is_hex 64 h"
  using hash_of_row by (fastforce simp: hashes_hex_def)

section \<open>The operations raise no pending error\<close>

definition plain_chain :: "service \<Rightarrow> chain_answers \<Rightarrow> bool" where
  "plain_chain svc ch \<longleftrightarrow>
     (\<forall>e. ch_transactionCount ch = Inl e \<longrightarrow> no_pending e) \<and> (\<forall>e. ch_simulate ch = Inl e \<longrightarrow> no_pending e) \<and>
     (\<forall>e. ch_estimateGas ch = Inl e \<longrightarrow> no_pending e) \<and> (\<forall>e. ch_feesPerGas ch = Inl e \<longrightarrow> no_pending e) \<and>
     (\<forall>n g m p e. ch_sign ch n g m p = Inl e \<longrightarrow> no_pending e) \<and>
     (\<forall>s e. rv_parseTransaction (svc_recovery svc) s = Inl e \<longrightarrow> no_pending e)"

lemma beforeBroadcast_Inr [simp]: "beforeBroadcast m = Inr a \<longleftrightarrow> m = Inr a"
  by (cases m) (simp_all add: beforeBroadcast_def)

lemma beforeBroadcast_plain:
  assumes "beforeBroadcast m = Inl e'" "\<And>e. m = Inl e \<Longrightarrow> no_pending e"
  shows "no_pending e'"
proof (cases m)
  case (Inl e)
  then show ?thesis using assms by (auto simp: beforeBroadcast_def no_pending_def thrown_class_def link_def split: if_splits)
next
  case (Inr a)
  then show ?thesis using assms(1) by (simp add: beforeBroadcast_def)
qed

lemma prepareRedemption_plain: "plain_chain svc ch \<Longrightarrow> prepareRedemption svc ch = Inl e \<Longrightarrow> no_pending e"
  unfolding prepareRedemption_def ebind_Inl_iff
  by (auto simp: plain_chain_def no_pending_def thrown_class_def link_def split: if_splits)

lemma settle_operations_plain:
  assumes "plain_chain svc ch"
  shows "plain_operations (svc_recovery svc) (settle_operations svc ch payment)"
proof -
  have "no_pending e" if "op_prepare (settle_operations svc ch payment) n = Inl e" for n e
    using that assms beforeBroadcast_plain [of "prepareRedemption svc ch"] prepareRedemption_plain [OF assms]
      beforeBroadcast_plain [of "ch_feesPerGas ch"]
    unfolding settle_operations_def plain_chain_def by (auto simp: ebind_Inl_iff)
  moreover have "no_pending e" if "op_pendingNonce (settle_operations svc ch payment) = Inl e" for e
    using that assms beforeBroadcast_plain [of "ch_transactionCount ch"]
    unfolding settle_operations_def plain_chain_def by auto
  moreover have "no_pending e" if "rv_parseTransaction (svc_recovery svc) s = Inl e" for s e
    using that assms by (simp add: plain_chain_def)
  ultimately show ?thesis by (simp add: plain_operations_def)
qed

section \<open>The wire read back\<close>

text \<open>What the seller may conclude about the money, for each rung of its ladder.\<close>

definition same_books :: "journal_db \<Rightarrow> journal_db \<Rightarrow> bool" where
  "same_books db db' \<longleftrightarrow> intents db' = intents db \<and> budget db' = budget db"

lemma recordRejection_books [simp]:
  "same_books db (recordRejection svc p c db)" "hash_of (recordRejection svc p c db) i = hash_of db i"
  by (auto simp: recordRejection_def same_books_def split: sum.splits)

lemma same_books_refl [simp]: "same_books db db"
  by (simp add: same_books_def)

lemma read_failure:
  "fa_reachable (seen_by_seller (settle_failure_answer e))"
  "is_object_body (fa_body (seen_by_seller (settle_failure_answer e)))"
  "js_get (fa_body (seen_by_seller (settle_failure_answer e))) ''success'' = JBool False"
  "js_get (fa_body (seen_by_seller (settle_failure_answer e))) ''transaction''
    = JString (case describeFailure e RouteSettle of FailureError h \<Rightarrow> h | _ \<Rightarrow> [])"
  "js_get (fa_body (seen_by_seller (settle_failure_answer e))) ''errorReason'' = JString
    (case describeFailure e RouteSettle of FailureNotReady \<Rightarrow> FACILITATOR_NOT_READY
      | FailureRejected w \<Rightarrow> w | FailureError _ \<Rightarrow> SETTLEMENT_PENDING)"
  by (cases "describeFailure e RouteSettle";
    simp add: seen_by_seller_def settle_failure_answer_def SETTLE_NOT_READY_def is_object_body_def js_get_def)+

lemma readTransaction_empty [simp]: "readTransaction (JString []) = None"
  by (simp add: readTransaction_def hex_literal_def)

lemma readTransaction_hex: "hex_literal is_hex 64 h \<Longrightarrow> readTransaction (JString h) = Some h"
  by (simp add: readTransaction_def)

lemma ladder_of_failure:
  "decideSettlement v (seen_by_seller (settle_failure_answer e)) p =
    (case describeFailure e RouteSettle of
       FailureNotReady \<Rightarrow> LadderUnavailable FACILITATOR_NOT_READY
     | FailureError h \<Rightarrow> LadderUnknown (readTransaction (JString h))
     | FailureRejected w \<Rightarrow>
         if w = RATE_LIMITED \<or> w = FACILITATOR_NOT_READY then LadderUnavailable w
         else if w = SETTLEMENT_PENDING \<or> w = UNEXPECTED_SETTLE_ERROR then LadderUnknown None
         else LadderFailed (foldRefusalReason (JString w)) None)"
proof -
  have words: "FACILITATOR_NOT_READY \<noteq> RATE_LIMITED" "SETTLEMENT_PENDING \<noteq> RATE_LIMITED"
    "SETTLEMENT_PENDING \<noteq> FACILITATOR_NOT_READY"
    by (simp_all add: wire_words)
  show ?thesis
    using read_failure [of e] words
    by (cases "describeFailure e RouteSettle") (simp_all add: decideSettlement_def Let_def)
qed

section \<open>The books of the service\<close>

text \<open>Money events are settlements without a word or mined failures with one of the two mined words.\<close>

definition codes_ok :: "SettlementEventRow list \<Rightarrow> bool" where
  "codes_ok evs \<longleftrightarrow> (\<forall>e \<in> set evs. \<not> rejected_row e \<longrightarrow>
     row_outcome e = Settled \<and> row_error_code e = None \<or>
     row_outcome e = OutcomeError \<and> (\<exists>c \<in> set MINED_REFUSAL_REASONS. row_error_code e = Some c))"

definition books_ok :: "journal_db \<Rightarrow> bool" where
  "books_ok db \<longleftrightarrow> journal_ok db \<and> hashes_hex db \<and> codes_ok (events db)"

lemma empty_books_ok: "books_ok empty_journal"
  using empty_journal_ok by (simp add: books_ok_def hashes_hex_def codes_ok_def) (simp add: empty_journal_def)

lemma mined_nonempty: "c \<in> set MINED_REFUSAL_REASONS \<Longrightarrow> c \<noteq> []"
  by (auto simp: mined_words wire_words)

lemma receiptFailure_mined:
  "receiptFailure v ok logs a p t n = Some c \<Longrightarrow> c \<in> set MINED_REFUSAL_REASONS"
  by (auto simp: receiptFailure_def mined_words split: if_splits)

lemma terminal_event_ok:
  assumes "books_ok db" "journal_read db i = Inr (Some rec)" "sr_terminal rec = Some ev"
  shows "ev_outcome ev = Settled \<and> recorded_failure rec = None \<or>
    ev_outcome ev = OutcomeError \<and> (\<exists>c \<in> set MINED_REFUSAL_REASONS. recorded_failure rec = Some c)"
proof -
  obtain r where r: "select_intent db (toLowerCase i) = Some r" "rec = record_of_row (events db) r"
    using journal_readE(2) [OF assms(2), symmetric] by auto
  obtain k where k: "ir_terminal_event_id r = Some k" "map_option toSettlementEvent (find (\<lambda>e. row_id e = k) (events db)) = Some ev"
    using assms(3) r(2) by (cases "ir_terminal_event_id r") (auto simp: record_of_row_def)
  obtain e where e: "find (\<lambda>e. row_id e = k) (events db) = Some e" "ev = toSettlementEvent e" using k(2) by auto
  have "intent_ok (events db) r" using assms(1) select_intent_Some [OF r(1)] by (simp add: books_ok_def journal_ok_def)
  then obtain e' where e': "e' \<in> set (events db)" "event_of r e'" using k(1) by (auto simp: intent_ok_def)
  have d: "distinct (map row_id (events db))" using assms(1) by (simp add: books_ok_def journal_ok_def ledger_ok_def)
  have "row_id e' = k" "\<not> rejected_row e'" using e'(2) k(1) by (auto simp: event_of_def rejected_row_def)
  then have "e' = e" using find_distinct [OF d e'(1)] e(1) by simp
  then have "row_outcome e = Settled \<and> row_error_code e = None \<or>
     row_outcome e = OutcomeError \<and> (\<exists>c \<in> set MINED_REFUSAL_REASONS. row_error_code e = Some c)"
    using assms(1) e' \<open>\<not> rejected_row e'\<close> by (simp add: books_ok_def codes_ok_def)
  then show ?thesis
    using assms(3) e(2) mined_nonempty by (auto simp: recorded_failure_def toSettlementEvent_def)
qed

lemma finish_codes:
  assumes "finish db i res = Inr (rec, db')" "codes_ok (events db)"
    "\<And>c. fin_errorCode res = Some c \<Longrightarrow> c \<in> set MINED_REFUSAL_REASONS"
  shows "codes_ok (events db')"
  using assms(1)
proof (cases rule: finish_cases)
  case (replay r)
  then show ?thesis using assms(2) by simp
next
  case (fresh r e)
  have e: "row_outcome e = evi_outcome (terminal_event (record_of_row (events db) r) res)"
      "row_error_code e = fin_errorCode res"
    using fresh(9) by (auto elim!: ledger_recordE simp: terminal_event_def)
  have "row_outcome e = Settled \<and> row_error_code e = None \<or>
     row_outcome e = OutcomeError \<and> (\<exists>c \<in> set MINED_REFUSAL_REASONS. row_error_code e = Some c)"
    using e assms(3) mined_nonempty by (cases "fin_errorCode res") (auto simp: terminal_event_def)
  then show ?thesis using assms(2) fresh(10) by (simp add: codes_ok_def)
qed

lemma resolve_finish_code:
  assumes "recovery_resolve env (settle_operations svc ch p) rec db = (Inr rec', db', sent)" "books_ok db"
  shows "books_ok db'"
proof (cases "sr_terminal rec = None")
  case False
  then show ?thesis using assms by (simp add: recovery_resolve_def)
next
  case True
  let ?ops = "settle_operations svc ch p"
  obtain q out where q: "obtain_receipt env ?ops rec = (q, out)" by (cases "obtain_receipt env ?ops rec") auto
  obtain rcp where rcp: "q = Inr rcp" using assms(1) True q by (cases q) (auto simp: recovery_resolve_def)
  obtain g c where c: "receipt_cost rec rcp = Inr (g, c)"
    using assms(1) True q rcp by (cases "receipt_cost rec rcp") (auto simp: recovery_resolve_def)
  let ?res = "\<lparr>fin_at = rv_finish_now env, fin_gasUsed = g, fin_actualCost = c, fin_errorCode = op_failure ?ops rcp\<rparr>"
  have fin: "finish db (si_paymentIntentId rec) ?res = Inr (rec', db')"
    using assms(1) True q rcp c
    by (cases "finish db (si_paymentIntentId rec) ?res") (auto simp: recovery_resolve_def split: if_splits)
  have "d \<in> set MINED_REFUSAL_REASONS" if "fin_errorCode ?res = Some d" for d
    using that receiptFailure_mined by (auto simp: settle_operations_def)
  then show ?thesis
    using finish_codes [OF fin] finish_ok [OF _ fin] finish_hashes_hex [OF fin] assms(2) by (simp add: books_ok_def)
qed

lemma claim_books: "claim db input L = Inr (rec, db') \<Longrightarrow> books_ok db \<Longrightarrow> books_ok db'"
  using claim_ok [of db input L rec db'] claim_hashes_hex [of db input L rec db']
  by (auto simp: books_ok_def elim!: claim_cases claim_newE)

lemma prepare_books: "recovery_prepare env ops pay db = (r, db') \<Longrightarrow> books_ok db \<Longrightarrow> books_ok db'"
  by (erule recovery_prepare_cases [where h = "[]"]) (auto intro: claim_books)

lemma settle_books:
  assumes "recovery_settle env (settle_operations svc ch p) pay db = (r, db', sent)" "books_ok db"
  shows "books_ok db'"
  using assms(1)
proof (cases rule: recovery_settle_cases)
  case (refused e)
  then show ?thesis using prepare_books assms(2) by blast
next
  case (pending rec rep)
  then show ?thesis using prepare_books assms(2) by blast
next
  case (answered rec rep rec' db1)
  then show ?thesis using prepare_books [OF answered(1) assms(2)] resolve_finish_code by blast
qed

lemma rejection_books: "books_ok db \<Longrightarrow> books_ok (recordRejection svc p c db)"
proof -
  assume ok: "books_ok db"
  let ?ev = "\<lparr>evi_at = svc_now svc, evi_kind = ''settle'', evi_payer = vp_payer p,
          evi_payTo = js_text (js_get (vp_paymentRequirements p) ''payTo''), evi_amountBase = vp_amount p,
          evi_outcome = Rejected, evi_txHash = None, evi_gasUsed = None, evi_errorCode = Some c\<rparr>"
  show ?thesis
  proof (cases "svc_ledger_fault svc \<or> (\<exists>e. ledger_record (events db) ?ev = Inl e)")
    case True
    then have "recordRejection svc p c db = db" by (auto simp: recordRejection_def)
    then show ?thesis using ok by simp
  next
    case False
    then obtain e evs where l: "ledger_record (events db) ?ev = Inr (e, evs)" "\<not> svc_ledger_fault svc"
      by (cases "ledger_record (events db) ?ev") auto
    then have eq: "recordRejection svc p c db = db\<lparr>events := evs\<rparr>" by (simp add: recordRejection_def)
    have "journal_ok (db\<lparr>events := evs\<rparr>)" using reject_ok [OF _ _ l(1)] ok by (simp add: books_ok_def)
    moreover obtain row where "evs = events db @ [row]" "row_outcome row = Rejected"
      using l(1) by (auto elim!: ledger_recordE)
    ultimately show ?thesis using ok unfolding eq by (auto simp: books_ok_def hashes_hex_def codes_ok_def rejected_row_def)
  qed
qed

lemma settle_route_books:
  assumes "settle_route svc ch body db = (a, db', sent)" "books_ok db"
  shows "books_ok db'"
proof (cases "ebind body (validate_request svc)")
  case (Inl e)
  then show ?thesis using assms by (simp add: settle_route_def)
next
  case (Inr p)
  obtain r db1 out where s: "recovery_settle (svc_recovery svc) (settle_operations svc ch p) (recovery_payment p) db = (r, db1, out)"
    by (cases "recovery_settle (svc_recovery svc) (settle_operations svc ch p) (recovery_payment p) db") auto
  have ok: "books_ok db1" using settle_books [OF s assms(2)] .
  have "db' = db1 \<or> (\<exists>c. db' = recordRejection svc p c db1)"
    using assms(1) Inr s
    by (auto simp: settle_route_def coordinator_settle_def Let_def split: sum.splits SettlementFailure.splits)
  then show ?thesis using ok rejection_books by auto
qed

text \<open>The service over time: settle requests of any content under any configuration, and pruning.\<close>

inductive service_run :: "journal_db \<Rightarrow> bool" where
  service_start: "service_run empty_journal"
| service_settle: "service_run db \<Longrightarrow> settle_route svc ch body db = (a, db', sent) \<Longrightarrow> service_run db'"
| service_prune: "service_run db \<Longrightarrow> ledger_prune (events db) (fst (rejectedRetention now)) (snd (rejectedRetention now)) = Inr (n, evs)
    \<Longrightarrow> service_run (db\<lparr>events := evs\<rparr>)"

lemma prune_codes:
  assumes "ledger_prune rows b k = Inr (n, rows')" "codes_ok rows"
  shows "codes_ok rows'"
proof -
  have "set (filter (\<lambda>e. \<not> rejected_row e) rows') = set (filter (\<lambda>e. \<not> rejected_row e) rows)"
    using prune_kept [OF assms(1)] by simp
  then show ?thesis using assms(2) by (auto simp: codes_ok_def)
qed

lemma service_run_books: "service_run db \<Longrightarrow> books_ok db"
proof (induction rule: service_run.induct)
  case service_start
  then show ?case by (rule empty_books_ok)
next
  case (service_settle db svc ch body a db' sent)
  then show ?case using settle_route_books by blast
next
  case (service_prune db now n evs)
  then show ?case using prune_ok [of db] prune_codes by (auto simp: books_ok_def hashes_hex_def)
qed

lemma response_fields:
  assumes "settlementResponse rec rep = Inr body" "sr_terminal rec = Some ev"
  shows "is_object_body body" "js_get body ''success'' = JBool (ev_outcome ev = Settled)"
    "js_get body ''payer'' = JString (si_payer rec)" "js_get body ''transaction'' = JString (si_txHash rec)"
    "js_get body ''errorReason'' = (case recorded_failure rec of Some c \<Rightarrow> JString c | None \<Rightarrow> JUndefined)"
    "js_get body ''replayed'' = (if rep then JBool True else JUndefined)"
proof -
  have b: "body = JObject
       ([(''success'', JBool (ev_outcome ev = Settled)), (''network'', JString GIWA_SEPOLIA_CAIP2),
         (''payer'', JString (si_payer rec)), (''transaction'', JString (si_txHash rec))]
        @ (case recorded_failure rec of Some c \<Rightarrow> [(''errorReason'', JString c)] | None \<Rightarrow> [])
        @ (if rep then [(''replayed'', JBool True)] else []))"
    using assms by (simp add: settlementResponse_def)
  show "is_object_body body" by (simp add: b is_object_body_def)
  show "js_get body ''success'' = JBool (ev_outcome ev = Settled)"
    "js_get body ''payer'' = JString (si_payer rec)" "js_get body ''transaction'' = JString (si_txHash rec)"
    "js_get body ''errorReason'' = (case recorded_failure rec of Some c \<Rightarrow> JString c | None \<Rightarrow> JUndefined)"
    "js_get body ''replayed'' = (if rep then JBool True else JUndefined)"
    unfolding b by (cases "recorded_failure rec"; cases rep; simp add: js_get_def)+
qed

lemma mined_word_facts:
  "c \<in> set MINED_REFUSAL_REASONS \<Longrightarrow> foldRefusalReason (JString c) = c \<and> c \<noteq> RATE_LIMITED \<and> c \<noteq> FACILITATOR_NOT_READY
     \<and> c \<noteq> SETTLEMENT_PENDING \<and> c \<noteq> UNEXPECTED_SETTLE_ERROR"
  by (auto simp: mined_words foldRefusalReason_def KNOWN_REFUSAL_REASONS_def wire_words)

lemma ladder_of_response:
  assumes "settlementResponse rec rep = Inr body" "sr_terminal rec = Some ev" "hex_literal is_hex 64 (si_txHash rec)"
    "ev_outcome ev = Settled \<and> recorded_failure rec = None \<or>
     ev_outcome ev = OutcomeError \<and> (\<exists>c \<in> set MINED_REFUSAL_REASONS. recorded_failure rec = Some c)"
  shows "decideSettlement v (seen_by_seller \<lparr>ans_status = 200, ans_body = body\<rparr>) p =
    (case recorded_failure rec of
       Some c \<Rightarrow> LadderFailed c (Some (si_txHash rec))
     | None \<Rightarrow> if names_payer v (JString (si_payer rec)) p then LadderSettled (Some (si_txHash rec)) rep
         else LadderUnknown (Some (si_txHash rec)))"
  using assms(4)
proof
  assume "ev_outcome ev = Settled \<and> recorded_failure rec = None"
  then show ?thesis
    using response_fields [OF assms(1,2)] readTransaction_hex [OF assms(3)]
    by (simp add: decideSettlement_def seen_by_seller_def Let_def)
next
  assume "ev_outcome ev = OutcomeError \<and> (\<exists>c \<in> set MINED_REFUSAL_REASONS. recorded_failure rec = Some c)"
  then obtain c where c: "ev_outcome ev = OutcomeError" "c \<in> set MINED_REFUSAL_REASONS" "recorded_failure rec = Some c" by blast
  then show ?thesis
    using response_fields [OF assms(1,2)] readTransaction_hex [OF assms(3)] mined_word_facts [OF c(2)]
    by (simp add: decideSettlement_def seen_by_seller_def Let_def)
qed

text \<open>What a seller that reads an answer may conclude about the facilitator's journal.\<close>

definition ladder_truth ::
    "SettlementLadder \<Rightarrow> string \<Rightarrow> journal_db \<Rightarrow> journal_db \<Rightarrow> string list \<Rightarrow> bool" where
  "ladder_truth l i db db' sent \<longleftrightarrow> (case l of
     LadderUnavailable _ \<Rightarrow> same_books db db' \<and> sent = []
   | LadderFailed w None \<Rightarrow> same_books db db' \<and> sent = []
   | LadderFailed w (Some h) \<Rightarrow> \<exists>rec. journal_read db' i = Inr (Some rec) \<and> si_txHash rec = h \<and> recorded_failure rec = Some w
   | LadderUnknown None \<Rightarrow> same_books db db' \<and> sent = []
   | LadderUnknown (Some h) \<Rightarrow> hash_of db' i = Some h
   | LadderSettled t replayed \<Rightarrow> \<exists>rec ev. journal_read db' i = Inr (Some rec) \<and> t = Some (si_txHash rec) \<and>
       sr_terminal rec = Some ev \<and> ev_outcome ev = Settled \<and> (replayed \<longleftrightarrow> journal_read db i \<noteq> Inr None))"

lemma failure_truth:
  assumes "case describeFailure e RouteSettle of FailureError h \<Rightarrow> hex_literal is_hex 64 h \<and> hash_of db' i = Some h
      | _ \<Rightarrow> same_books db db' \<and> sent = []"
  shows "ladder_truth (decideSettlement v (seen_by_seller (settle_failure_answer e)) p) i db db' sent"
  using assms by (cases "describeFailure e RouteSettle")
    (auto simp: ladder_of_failure ladder_truth_def readTransaction_hex)

lemma settle_route_truth:
  assumes "books_ok db" and "plain_chain svc ch" and "ebind body (validate_request svc) = Inr payment"
    and "settle_route svc ch body db = (a, db', sent)"
  shows "ladder_truth (decideSettlement (svc_viem svc) (seen_by_seller a) (vp_payer payment))
    (vp_paymentIntentId payment) db db' sent"
proof -
  let ?pay = "recovery_payment payment" and ?i = "vp_paymentIntentId payment"
  obtain r db1 out where s: "recovery_settle (svc_recovery svc) (settle_operations svc ch payment) ?pay db = (r, db1, out)"
    by (cases "recovery_settle (svc_recovery svc) (settle_operations svc ch payment) ?pay db") auto
  have i: "pay_paymentIntentId ?pay = ?i" by (simp add: recovery_payment_def)
  have ok1: "books_ok db1" using settle_books [OF s assms(1)] .
  have j: "journal_ok db" using assms(1) by (simp add: books_ok_def)
  note m = settle_answer [OF j settle_operations_plain [OF assms(2)] s, unfolded i]
  show ?thesis
  proof (cases r)
    case (Inl e)
    let ?db = "case describeFailure e RouteSettle of FailureRejected c \<Rightarrow> recordRejection svc payment c db1 | _ \<Rightarrow> db1"
    have out: "a = settle_failure_answer e" "db' = ?db" "sent = out"
      using assms(3,4) s Inl by (simp_all add: settle_route_def coordinator_settle_def)
    have "case describeFailure e RouteSettle of FailureError h \<Rightarrow> hex_literal is_hex 64 h \<and> hash_of db' ?i = Some h
        | _ \<Rightarrow> same_books db db' \<and> sent = []"
      using m Inl out hash_of_hex [of db1 ?i] ok1
      by (cases "describeFailure e RouteSettle") (auto simp: books_ok_def)
    then show ?thesis unfolding out(1) by (rule failure_truth)
  next
    case (Inr rr)
    obtain rec rep where rr: "rr = (rec, rep)" by (cases rr) auto
    from m Inr rr have rec: "sr_terminal rec \<noteq> None" "journal_read db1 ?i = Inr (Some rec)"
        "rep \<longleftrightarrow> journal_read db ?i \<noteq> Inr None" by auto
    obtain ev where ev: "sr_terminal rec = Some ev" using rec(1) by auto
    obtain b where b: "settlementResponse rec rep = Inr b" by (simp add: settlementResponse_def ev)
    have out: "a = \<lparr>ans_status = 200, ans_body = b\<rparr>" "db' = db1" "sent = out"
      using assms(3,4) s Inr rr b by (simp_all add: settle_route_def coordinator_settle_def)
    have hash: "hash_of db1 ?i = Some (si_txHash rec)"
      using journal_readE(2) [OF rec(2), symmetric] by (auto simp: hash_of_def)
    then have hex: "hex_literal is_hex 64 (si_txHash rec)" using hash_of_hex ok1 by (auto simp: books_ok_def)
    note t = terminal_event_ok [OF ok1 rec(2) ev]
    show ?thesis
      unfolding out ladder_of_response [OF b ev hex t] using t rec ev hash
      by (cases "recorded_failure rec") (auto simp: ladder_truth_def)
  qed
qed

text \<open>C20: the wire tells the seller the truth about the money. In every state the service can
  reach and for every validated payment, whatever the chain answers: when the seller's ladder
  says unavailable, failed without a hash or unknown without a hash, no claim was made, no gas
  budget was touched and nothing was broadcast; unknown with a hash and failed with a hash name
  the transaction the journal recorded for this payment; settled means the journal holds the
  settled record with that hash, and replayed says exactly whether it predates the call.\<close>

theorem settle_wire_truth:
  assumes "service_run db" and "plain_chain svc ch" and "ebind body (validate_request svc) = Inr payment"
    and "settle_route svc ch body db = (a, db', sent)"
  shows "ladder_truth (decideSettlement (svc_viem svc) (seen_by_seller a) (vp_payer payment))
    (vp_paymentIntentId payment) db db' sent"
  by (rule settle_route_truth [OF service_run_books [OF assms(1)] assms(2-4)])

text \<open>A sample: the sample offer and payload, and a chain whose simulation reverts.\<close>

definition sample_chain :: chain_answers where
  "sample_chain = \<lparr>ch_transactionCount = Inr 0, ch_simulate = Inl [link ContractFunctionRevertedError ''reverted''],
     ch_estimateGas = Inr 2, ch_feesPerGas = Inr (3, 1), ch_sign = (\<lambda>_ _ _ _. Inr (sample_hex 64 CHR ''2'')),
     ch_receipt = (\<lambda>_. Inr None), ch_sendRaw = (\<lambda>s. Inr s), ch_wait = (\<lambda>_. Inl [link TimeoutError ''timeout''])\<rparr>"

definition sample_service :: service where
  "sample_service = \<lparr>svc_viem = sample_viem, svc_options = sample_options, svc_recovery = sample_env,
     svc_max_redemption_gas = 1500000, svc_now = 0, svc_ledger_fault = False\<rparr>"

lemma sample_plain_chain: "plain_chain sample_service sample_chain"
  by (simp add: plain_chain_def sample_chain_def sample_service_def sample_env_def no_pending_def thrown_class_def link_def)

theorem settle_wire_truth_witness:
  "\<exists>(p :: ValidatedDelegatedPayment) a db' sent. settle_route sample_service sample_chain (Inr (facilitator_request sample_payload sample_offer)) empty_journal
      = (a, db', sent) \<and>
    ladder_truth (decideSettlement sample_viem (seen_by_seller a) (vp_payer p)) (vp_paymentIntentId p) empty_journal db' sent"
proof -
  let ?b = "Inr (facilitator_request sample_payload sample_offer)"
  obtain p where "validateDelegatedPayment sample_viem (facilitator_request sample_payload sample_offer) sample_options = Inr p"
    using sample_validates by blast
  then have p: "ebind ?b (validate_request sample_service) = Inr p" by (simp add: validate_request_def sample_service_def)
  obtain a db' sent where r: "settle_route sample_service sample_chain ?b empty_journal = (a, db', sent)"
    by (cases "settle_route sample_service sample_chain ?b empty_journal") auto
  have v: "svc_viem sample_service = sample_viem" by (simp add: sample_service_def)
  note w = settle_wire_truth [OF service_start sample_plain_chain p r, unfolded v]
  show ?thesis by (intro exI conjI) (rule r, rule w)
qed

text \<open>A request the facilitator cannot accept costs nothing. Whatever the body, the route
  answers (a 200 the seller can read, or not-ready), and when the body cannot be read or the
  payment does not validate, the answer carries the reason, an empty transaction, and the
  journal is untouched.\<close>

theorem settle_route_refuses_cleanly:
  assumes "ebind body (validate_request svc) = Inl [link (PaymentValidationError reason) m]"
  shows "\<exists>a. settle_route svc ch body db = (a, db, []) \<and> ans_status a = 200 \<and>
    js_get (ans_body a) ''success'' = JBool False \<and> js_get (ans_body a) ''transaction'' = JString [] \<and>
    js_get (ans_body a) ''errorReason'' = JString reason"
  using assms by (simp add: settle_route_def settle_failure_answer_def describeFailure_def thrown_class_def link_def js_get_def)

theorem settle_route_refuses_cleanly_witness:
  "\<exists>a. settle_route sample_service sample_chain (readJson (\<lambda>_. None) (Some ''text/plain'') None ''x'') empty_journal
      = (a, empty_journal, []) \<and> js_get (ans_body a) ''errorReason'' = JString INVALID_PAYLOAD"
proof -
  have "\<not> starts_with ''application/json'' (toLowerCase ''text/plain'')" by code_simp
  then have "readJson (\<lambda>_. None) (Some ''text/plain'') None ''x''
      = Inl [link (PaymentValidationError INVALID_PAYLOAD) ''unreadable body'']"
    by (simp add: readJson_def Let_def del: list.case)
  then have "ebind (readJson (\<lambda>_. None) (Some ''text/plain'') None ''x'') (validate_request sample_service)
      = Inl [link (PaymentValidationError INVALID_PAYLOAD) ''unreadable body'']" by (simp only: ebind_simps)
  from settle_route_refuses_cleanly [OF this] show ?thesis by blast
qed

text \<open>Verifying moves nothing and blames nobody wrongly. The verify route answers valid, with
  the payer of the signed root, exactly when the payment validates and either the journal
  knows the intent without a recorded failure or the simulation and the gas price pass; a
  recorded failure is answered \<^verbatim>\<open>invalid_transaction_state\<close> without asking the chain; and an
  unreadable journal or a chain that stopped answering is not ready, a 503.\<close>

theorem verify_route_verdict:
  assumes "validate_request svc b = Inr payment"
  shows "(case known (svc_recovery svc) db (vp_paymentIntentId payment) of
      Inl _ \<Rightarrow> verify_route svc ch (Inr b) db = VERIFY_NOT_READY
    | Inr (Some rec) \<Rightarrow> js_get (ans_body (verify_route svc ch (Inr b) db)) ''isValid'' = JBool (recorded_failure rec = None)
        \<and> (recorded_failure rec \<noteq> None \<longrightarrow> js_get (ans_body (verify_route svc ch (Inr b) db)) ''invalidReason''
            = JString ''invalid_transaction_state'')
    | Inr None \<Rightarrow> (case beforeBroadcast (prepareRedemption svc ch) of
        Inr _ \<Rightarrow> verify_route svc ch (Inr b) db = \<lparr>ans_status = 200,
          ans_body = JObject [(''isValid'', JBool True), (''payer'', JString (vp_payer payment))]\<rparr>
      | Inl e \<Rightarrow> verify_route svc ch (Inr b) db = verify_answer (Inl e)))"
proof (cases "known (svc_recovery svc) db (vp_paymentIntentId payment)")
  case (Inl e)
  then have "e = storage_unavailable" by (rule known_error)
  then show ?thesis using assms Inl
    by (simp add: verify_route_def coordinator_simulate_def verify_answer_def storage_unavailable_def
        describeFailure_def thrown_class_def link_def)
next
  case (Inr found)
  show ?thesis
  proof (cases found)
    case None
    then show ?thesis using assms Inr
      by (cases "beforeBroadcast (prepareRedemption svc ch)") (simp_all add: verify_route_def coordinator_simulate_def verify_answer_def del: beforeBroadcast_Inr)
  next
    case (Some rec)
    then show ?thesis using assms Inr
      by (cases "recorded_failure rec")
        (simp_all add: verify_route_def coordinator_simulate_def verify_answer_def verifyKnownSettlement_def
          describeFailure_def thrown_class_def link_def js_get_def)
  qed
qed

theorem verify_route_verdict_witness:
  "\<exists>p. validate_request sample_service (facilitator_request sample_payload sample_offer) = Inr p \<and>
     (known sample_env empty_journal (vp_paymentIntentId p) = Inl storage_unavailable \<longrightarrow>
       verify_route sample_service sample_chain (Inr (facilitator_request sample_payload sample_offer)) empty_journal = VERIFY_NOT_READY)"
proof -
  obtain p where "validateDelegatedPayment sample_viem (facilitator_request sample_payload sample_offer) sample_options = Inr p"
    using sample_validates by blast
  then have p: "validate_request sample_service (facilitator_request sample_payload sample_offer) = Inr p"
    by (simp add: validate_request_def sample_service_def)
  have "svc_recovery sample_service = sample_env" by (simp add: sample_service_def)
  with verify_route_verdict [OF p, of sample_chain empty_journal] p show ?thesis by auto
qed

end
