(* ===== verification/Payment_Identifiers.thy ===== *)
theory Payment_Identifiers
  imports Store_Ledger
begin

text \<open>
  The x402 \<^verbatim>\<open>payment-identifier\<close> bindings on disk (\<^verbatim>\<open>createPaymentIdentifiers\<close> of
  \<^verbatim>\<open>packages/store/src/index.ts\<close>): \<^verbatim>\<open>bind\<close>, \<^verbatim>\<open>record\<close> and \<^verbatim>\<open>prune\<close> over the table
  \<^verbatim>\<open>payment_identifiers\<close>. The contract the paywall relies on is the locale
  \<open>identifier_binding\<close>: a settled identifier answers every later attempt from its row, and
  nothing takes that answer back.
\<close>

section \<open>Keys\<close>

text \<open>\<^verbatim>\<open>/^[A-Za-z0-9_-]{16,128}$/\<close>.\<close>

definition is_identifier :: "string \<Rightarrow> bool" where
  "is_identifier s \<longleftrightarrow> 16 \<le> length s \<and> length s \<le> 128 \<and>
     list_all (\<lambda>c. is_digit c \<or> is_lower c \<or> is_upper c \<or> c = CHR ''_'' \<or> c = CHR ''-'') s"

definition identifierKey :: "string \<Rightarrow> string result" where
  "identifierKey value = (if is_identifier value then Inr value
     else Inl (TypeError ''id must be 16-128 characters of [A-Za-z0-9_-]''))"

text \<open>\<^verbatim>\<open>SHA256_HEX = /^[0-9a-f]{64}$/\<close>.\<close>

definition is_sha256_hex :: "string \<Rightarrow> bool" where
  "is_sha256_hex s \<longleftrightarrow> length s = 64 \<and> list_all is_lower_hex s"

definition fingerprintHex :: "string \<Rightarrow> string result" where
  "fingerprintHex value = (if is_sha256_hex value then Inr value
     else Inl (TypeError ''fingerprint must be 64 lowercase hex characters (sha256)''))"

lemma identifierKey_iff [simp]: "identifierKey v = Inr w \<longleftrightarrow> is_identifier v \<and> w = v"
  by (auto simp: identifierKey_def)

lemma fingerprintHex_iff [simp]: "fingerprintHex v = Inr w \<longleftrightarrow> is_sha256_hex v \<and> w = v"
  by (auto simp: fingerprintHex_def)

section \<open>Rows and answers\<close>

record PaymentIdentifierDbRow =
  pi_id :: string
  pi_fingerprint :: string
  pi_payment_intent_id :: string
  pi_bound_at :: int
  pi_payer :: "string option"
  pi_tx_hash :: "string option"
  pi_settled_at :: "int option"

datatype PaymentIdentifierConflict = ConflictFingerprint | ConflictPaymentIntent

record RecordedPayment =
  rp_payer :: string
  rp_txHash :: "string option"

datatype PaymentIdentifierBindResult =
    BindNew
  | BindSettled RecordedPayment
  | BindConflict PaymentIdentifierConflict "RecordedPayment option"

text \<open>A null payer in a settled row is excluded by the table's CHECK; the cast keeps what is there.\<close>

definition settledHalf :: "PaymentIdentifierDbRow \<Rightarrow> RecordedPayment option" where
  "settledHalf row = (case pi_settled_at row of
     None \<Rightarrow> None
   | Some _ \<Rightarrow> Some \<lparr>rp_payer = (case pi_payer row of Some p \<Rightarrow> p | None \<Rightarrow> ''null''),
       rp_txHash = pi_tx_hash row\<rparr>)"

section \<open>Operations\<close>

definition by_id :: "PaymentIdentifierDbRow list \<Rightarrow> string \<Rightarrow> PaymentIdentifierDbRow option" where
  "by_id rows key = find (\<lambda>r. pi_id r = key) rows"

text \<open>What \<^verbatim>\<open>bind\<close> answers for an identifier that is already on file.\<close>

definition bind_existing ::
    "PaymentIdentifierDbRow \<Rightarrow> string \<Rightarrow> string \<Rightarrow> PaymentIdentifierBindResult" where
  "bind_existing existing print paymentIntentId =
     (if pi_fingerprint existing \<noteq> print then BindConflict ConflictFingerprint (settledHalf existing)
      else if pi_payment_intent_id existing \<noteq> paymentIntentId
      then BindConflict ConflictPaymentIntent (settledHalf existing)
      else (case settledHalf existing of None \<Rightarrow> BindNew | Some p \<Rightarrow> BindSettled p))"

definition pid_bind ::
    "PaymentIdentifierDbRow list \<Rightarrow> string \<Rightarrow> string \<Rightarrow> string \<Rightarrow> int \<Rightarrow>
     (PaymentIdentifierBindResult \<times> PaymentIdentifierDbRow list) result" where
  "pid_bind rows i fingerprint paymentIntentId at_ms =
     ebind (identifierKey i) (\<lambda>key.
     ebind (fingerprintHex fingerprint) (\<lambda>print.
     ebind (millis (JNum at_ms) ''at'') (\<lambda>t.
     case by_id rows key of
       None \<Rightarrow> Inr (BindNew, rows @ [\<lparr>pi_id = key, pi_fingerprint = print,
          pi_payment_intent_id = paymentIntentId, pi_bound_at = t, pi_payer = None,
          pi_tx_hash = None, pi_settled_at = None\<rparr>])
     | Some existing \<Rightarrow> Inr (bind_existing existing print paymentIntentId, rows))))"

text \<open>\<^verbatim>\<open>WHERE id = $id AND settled_at IS NULL\<close>; no row changed is an error.\<close>

definition settle_where :: "string \<Rightarrow> PaymentIdentifierDbRow \<Rightarrow> bool" where
  "settle_where key r \<longleftrightarrow> pi_id r = key \<and> pi_settled_at r = None"

definition pid_record ::
    "PaymentIdentifierDbRow list \<Rightarrow> string \<Rightarrow> string \<Rightarrow> string option \<Rightarrow> int \<Rightarrow>
     PaymentIdentifierDbRow list result" where
  "pid_record rows i payer txHash at_ms =
     ebind (identifierKey i) (\<lambda>key.
     ebind (millis (JNum at_ms) ''at'') (\<lambda>t.
     if changes (settle_where key) rows = 0
     then Inl (Error (''payment_identifiers: '' @ i @ '' is not bound, or is already settled''))
     else Inr (update_where (settle_where key)
       (\<lambda>r. r\<lparr>pi_payer := Some payer, pi_tx_hash := txHash, pi_settled_at := Some t\<rparr>) rows)))"

definition unsettled :: "PaymentIdentifierDbRow \<Rightarrow> bool" where
  "unsettled r \<longleftrightarrow> pi_settled_at r = None"

definition pid_order :: "PaymentIdentifierDbRow \<Rightarrow> int \<times> string" where
  "pid_order r = (pi_bound_at r, pi_id r)"

definition dropUnsettledBefore :: "int \<Rightarrow> PaymentIdentifierDbRow list \<Rightarrow> PaymentIdentifierDbRow list" where
  "dropUnsettledBefore before rows = filter (\<lambda>r. \<not> (unsettled r \<and> pi_bound_at r < before)) rows"

definition dropUnsettledBeyond :: "nat \<Rightarrow> PaymentIdentifierDbRow list \<Rightarrow> PaymentIdentifierDbRow list" where
  "dropUnsettledBeyond keep rows = filter (\<lambda>r. \<not> (unsettled r \<and>
     pi_id r \<notin> pi_id ` set (take keep (order_desc pid_order (filter unsettled rows))))) rows"

definition pid_prune ::
    "PaymentIdentifierDbRow list \<Rightarrow> int \<Rightarrow> int \<Rightarrow> (int \<times> PaymentIdentifierDbRow list) result" where
  "pid_prune rows unsettledBefore keepUnsettled =
     ebind (millis (JNum unsettledBefore) ''unsettledBefore'') (\<lambda>before.
     ebind (positiveInteger (JNum keepUnsettled) ''keepUnsettled'') (\<lambda>keep.
       let rows1 = dropUnsettledBefore before rows;
           rows2 = dropUnsettledBeyond (nat keep) rows1
       in Inr (int (length rows - length rows1) + int (length rows1 - length rows2), rows2)))"

interpretation pid: retention unsettled pi_bound_at pid_order pi_id
    dropUnsettledBefore dropUnsettledBeyond
  by unfold_locales (simp_all add: dropUnsettledBefore_def dropUnsettledBeyond_def)

section \<open>The contract of a binding\<close>

text \<open>
  What the caller may do to a binding: claim an identifier, write the settled half, and let the
  retention run. A refused operation leaves the binding as it was.
\<close>

datatype binding_op =
    OpBind string string string int
  | OpRecord string string "string option" int
  | OpPrune int int

definition keep_state :: "'s \<Rightarrow> 's result \<Rightarrow> 's" where
  "keep_state s r = (case r of Inl _ \<Rightarrow> s | Inr s' \<Rightarrow> s')"

fun binding_step ::
    "('s \<Rightarrow> string \<Rightarrow> string \<Rightarrow> string \<Rightarrow> int \<Rightarrow> (PaymentIdentifierBindResult \<times> 's) result) \<Rightarrow>
     ('s \<Rightarrow> string \<Rightarrow> string \<Rightarrow> string option \<Rightarrow> int \<Rightarrow> 's result) \<Rightarrow>
     ('s \<Rightarrow> int \<Rightarrow> int \<Rightarrow> (int \<times> 's) result) \<Rightarrow> 's \<Rightarrow> binding_op \<Rightarrow> 's" where
  "binding_step B R P s (OpBind i f p t) = keep_state s (ebind (B s i f p t) (\<lambda>(r, s'). Inr s'))"
| "binding_step B R P s (OpRecord i payer tx t) = keep_state s (R s i payer tx t)"
| "binding_step B R P s (OpPrune b k) = keep_state s (ebind (P s b k) (\<lambda>(n, s'). Inr s'))"

locale identifier_binding =
  fixes ok :: "'s \<Rightarrow> bool"
    and do_bind :: "'s \<Rightarrow> string \<Rightarrow> string \<Rightarrow> string \<Rightarrow> int \<Rightarrow> (PaymentIdentifierBindResult \<times> 's) result"
    and do_record :: "'s \<Rightarrow> string \<Rightarrow> string \<Rightarrow> string option \<Rightarrow> int \<Rightarrow> 's result"
    and do_prune :: "'s \<Rightarrow> int \<Rightarrow> int \<Rightarrow> (int \<times> 's) result"
    and settled_as :: "'s \<Rightarrow> string \<Rightarrow> (string \<times> string \<times> RecordedPayment) option"
  assumes bind_ok: "ok s \<Longrightarrow> do_bind s i f p t = Inr (r, s') \<Longrightarrow> ok s'"
    and record_ok: "ok s \<Longrightarrow> do_record s i payer tx t = Inr s' \<Longrightarrow> ok s'"
    and prune_ok: "ok s \<Longrightarrow> do_prune s b k = Inr (n, s') \<Longrightarrow> ok s'"
    and bind_settled: "ok s \<Longrightarrow> settled_as s i = Some (f, p, rp) \<Longrightarrow> do_bind s i f' p' t = Inr (r, s') \<Longrightarrow>
      s' = s \<and> r = (if f' \<noteq> f then BindConflict ConflictFingerprint (Some rp)
        else if p' \<noteq> p then BindConflict ConflictPaymentIntent (Some rp) else BindSettled rp)"
    and bind_keeps: "ok s \<Longrightarrow> settled_as s j = Some x \<Longrightarrow> do_bind s i f p t = Inr (r, s') \<Longrightarrow> settled_as s' j = Some x"
    and record_keeps: "ok s \<Longrightarrow> settled_as s j = Some x \<Longrightarrow> do_record s i payer tx t = Inr s' \<Longrightarrow> settled_as s' j = Some x"
    and prune_keeps: "ok s \<Longrightarrow> settled_as s j = Some x \<Longrightarrow> do_prune s b k = Inr (n, s') \<Longrightarrow> settled_as s' j = Some x"
    and record_settles: "ok s \<Longrightarrow> do_record s i payer tx t = Inr s' \<Longrightarrow>
      settled_as s i = None \<and> (\<exists>f p. settled_as s' i = Some (f, p, \<lparr>rp_payer = payer, rp_txHash = tx\<rparr>))"
    and bind_claims: "ok s \<Longrightarrow> do_bind s i f p t = Inr (BindNew, s') \<Longrightarrow> 0 \<le> t' \<Longrightarrow> isSafeInteger t' \<Longrightarrow>
      \<exists>s''. do_record s' i payer tx t' = Inr s'' \<and> settled_as s'' i = Some (f, p, \<lparr>rp_payer = payer, rp_txHash = tx\<rparr>)"
begin

abbreviation step :: "'s \<Rightarrow> binding_op \<Rightarrow> 's" where
  "step \<equiv> binding_step do_bind do_record do_prune"

lemma step_ok: "ok s \<Longrightarrow> ok (step s a)"
  by (cases a) (auto simp: keep_state_def ebind_def split: sum.splits dest: bind_ok record_ok prune_ok)

lemma step_keeps: "ok s \<Longrightarrow> settled_as s j = Some x \<Longrightarrow> settled_as (step s a) j = Some x"
  by (cases a) (auto simp: keep_state_def ebind_def split: sum.splits dest: bind_keeps record_keeps prune_keeps)

lemma steps_ok: "ok s \<Longrightarrow> ok (foldl step s as)"
  by (induction as arbitrary: s) (auto simp: step_ok)

text \<open>Once settled, whatever happens to the binding, the answer is the settled payment or a conflict.\<close>

lemma settled_forever:
  "ok s \<Longrightarrow> settled_as s j = Some x \<Longrightarrow> settled_as (foldl step s as) j = Some x"
  by (induction as arbitrary: s) (auto simp: step_ok step_keeps)

lemma replay_answer:
  assumes "ok s" and "do_record s i payer tx t = Inr s'" and "do_bind (foldl step s' as) i f p t' = Inr (r, s'')"
  shows "r \<noteq> BindNew \<and> s'' = foldl step s' as"
proof -
  obtain f0 p0 where "settled_as s' i = Some (f0, p0, \<lparr>rp_payer = payer, rp_txHash = tx\<rparr>)"
    using record_settles [OF assms(1,2)] by blast
  then have "settled_as (foldl step s' as) i = Some (f0, p0, \<lparr>rp_payer = payer, rp_txHash = tx\<rparr>)"
    using settled_forever record_ok [OF assms(1,2)] by blast
  then show ?thesis
    using bind_settled [OF steps_ok [OF record_ok [OF assms(1,2)]] _ assms(3)] by auto
qed

lemma recorded_once:
  assumes "ok s" and "do_record s i payer tx t = Inr s'"
  shows "\<not> (\<exists>s''. do_record (foldl step s' as) i payer' tx' t' = Inr s'')"
proof
  assume "\<exists>s''. do_record (foldl step s' as) i payer' tx' t' = Inr s''"
  then have "settled_as (foldl step s' as) i = None"
    using record_settles [OF steps_ok [OF record_ok [OF assms]]] by blast
  then show False using record_settles [OF assms] settled_forever [OF record_ok [OF assms]] by fastforce
qed

end

section \<open>The table keeps the contract\<close>

definition pid_ok :: "PaymentIdentifierDbRow list \<Rightarrow> bool" where
  "pid_ok rows \<longleftrightarrow> distinct (map pi_id rows) \<and>
     (\<forall>r \<in> set rows. is_identifier (pi_id r) \<and> (pi_payer r = None \<longleftrightarrow> pi_settled_at r = None))"

definition pid_settled_as ::
    "PaymentIdentifierDbRow list \<Rightarrow> string \<Rightarrow> (string \<times> string \<times> RecordedPayment) option" where
  "pid_settled_as rows i = (case by_id rows i of
     None \<Rightarrow> None
   | Some r \<Rightarrow> map_option (\<lambda>rp. (pi_fingerprint r, pi_payment_intent_id r, rp)) (settledHalf r))"

lemma by_id_Some: "by_id rows i = Some r \<Longrightarrow> r \<in> set rows \<and> pi_id r = i"
  by (auto simp: by_id_def dest: find_Some_iff_ex)

lemma by_id_iff: "distinct (map pi_id rows) \<Longrightarrow> by_id rows i = Some r \<longleftrightarrow> r \<in> set rows \<and> pi_id r = i"
  using find_distinct [of pi_id rows r] by (auto simp: by_id_def dest: find_Some_iff_ex)

lemma by_id_None: "by_id rows i = None \<longleftrightarrow> i \<notin> pi_id ` set rows"
  by (auto simp: by_id_def find_None_iff)

lemma by_id_record: "by_id (update_where (settle_where i)
     (\<lambda>r. r\<lparr>pi_payer := P, pi_tx_hash := T, pi_settled_at := S\<rparr>) rows) j
   = map_option (\<lambda>r. if settle_where i r then r\<lparr>pi_payer := P, pi_tx_hash := T, pi_settled_at := S\<rparr> else r)
       (by_id rows j)"
  unfolding by_id_def by (rule find_update_where) simp

lemma by_id_append: "by_id (rows @ [r]) i =
   (case by_id rows i of Some y \<Rightarrow> Some y | None \<Rightarrow> if pi_id r = i then Some r else None)"
  by (simp add: by_id_def find_append_key)

lemma pid_bindE:
  assumes "pid_bind rows i f p t = Inr (r, rows')"
  obtains (fresh) "by_id rows i = None" "r = BindNew" "is_identifier i" "is_sha256_hex f"
      "rows' = rows @ [\<lparr>pi_id = i, pi_fingerprint = f, pi_payment_intent_id = p, pi_bound_at = t,
         pi_payer = None, pi_tx_hash = None, pi_settled_at = None\<rparr>]"
  | (known) e where "by_id rows i = Some e" "r = bind_existing e f p" "rows' = rows"
  using assms that by (auto simp: pid_bind_def result_simps split: option.splits)

lemma pid_recordE:
  assumes "pid_record rows i payer tx t = Inr rows'"
  obtains e where "e \<in> set rows" "pi_id e = i" "pi_settled_at e = None" "is_identifier i"
      "rows' = update_where (settle_where i)
         (\<lambda>r. r\<lparr>pi_payer := Some payer, pi_tx_hash := tx, pi_settled_at := Some t\<rparr>) rows"
proof -
  from assms have "filter (settle_where i) rows \<noteq> []"
    by (auto simp: pid_record_def result_simps changes_def)
  then obtain e where "e \<in> set rows" "settle_where i e" by (auto simp: filter_empty_conv)
  then show ?thesis using that assms by (auto simp: pid_record_def result_simps settle_where_def split: if_splits)
qed

lemma pid_pruneE:
  assumes "pid_prune rows b k = Inr (n, rows')"
  obtains "rows' = dropUnsettledBeyond (nat k) (dropUnsettledBefore b rows)" "1 \<le> k"
    "n = int (length rows) - int (length rows')"
  using assms that by (auto simp: pid_prune_def result_simps Let_def pid.removed_count)

lemma pid_bind_ok: "pid_ok rows \<Longrightarrow> pid_bind rows i f p t = Inr (r, rows') \<Longrightarrow> pid_ok rows'"
  by (erule pid_bindE) (auto simp: pid_ok_def by_id_None)

lemma pid_record_ok:
  assumes "pid_ok rows" "pid_record rows i payer tx t = Inr rows'"
  shows "pid_ok rows'"
proof -
  from assms(2) obtain e where "is_identifier i" and eq: "rows' = update_where (settle_where i)
       (\<lambda>r. r\<lparr>pi_payer := Some payer, pi_tx_hash := tx, pi_settled_at := Some t\<rparr>) rows"
    by (rule pid_recordE)
  have "map pi_id rows' = map pi_id rows" unfolding eq by (rule map_update_where_id) simp
  then show ?thesis using assms(1) unfolding eq by (auto simp: pid_ok_def set_update_where)
qed

lemma pid_prune_settled:
  assumes "pid_ok rows" "pid_prune rows b k = Inr (n, rows')" "by_id rows i = Some r" "pi_settled_at r \<noteq> None"
  shows "by_id rows' i = Some r"
proof -
  have "r \<in> set rows" "\<not> unsettled r" using by_id_Some [OF assms(3)] assms(4) by (simp_all add: unsettled_def)
  then have "r \<in> set rows'" using assms(2) by (auto elim!: pid_pruneE intro: pid.others_stay)
  moreover have "distinct (map pi_id rows')"
    using assms(1,2) by (auto elim!: pid_pruneE simp: pid_ok_def intro: pid.distinct_after)
  ultimately show ?thesis using by_id_Some [OF assms(3)] by (simp add: by_id_iff)
qed

lemma pid_prune_ok: "pid_ok rows \<Longrightarrow> pid_prune rows b k = Inr (n, rows') \<Longrightarrow> pid_ok rows'"
  using pid.subset pid.distinct_after by (fastforce elim!: pid_pruneE simp: pid_ok_def)

interpretation idb: identifier_binding pid_ok pid_bind pid_record pid_prune pid_settled_as
proof
  fix rows :: "PaymentIdentifierDbRow list" and i j f p f' p' payer tx t t' r rp x b k n rows'
  show "pid_ok rows \<Longrightarrow> pid_bind rows i f p t = Inr (r, rows') \<Longrightarrow> pid_ok rows'" by (rule pid_bind_ok)
  show "pid_ok rows \<Longrightarrow> pid_record rows i payer tx t = Inr rows' \<Longrightarrow> pid_ok rows'" by (rule pid_record_ok)
  show "pid_ok rows \<Longrightarrow> pid_prune rows b k = Inr (n, rows') \<Longrightarrow> pid_ok rows'" by (rule pid_prune_ok)
  show "pid_ok rows \<Longrightarrow> pid_settled_as rows i = Some (f, p, rp) \<Longrightarrow> pid_bind rows i f' p' t = Inr (r, rows') \<Longrightarrow>
      rows' = rows \<and> r = (if f' \<noteq> f then BindConflict ConflictFingerprint (Some rp)
        else if p' \<noteq> p then BindConflict ConflictPaymentIntent (Some rp) else BindSettled rp)"
    by (erule pid_bindE) (auto simp: pid_settled_as_def bind_existing_def)
  show "pid_ok rows \<Longrightarrow> pid_settled_as rows j = Some x \<Longrightarrow> pid_bind rows i f p t = Inr (r, rows') \<Longrightarrow>
      pid_settled_as rows' j = Some x"
    by (erule pid_bindE) (auto simp: pid_settled_as_def by_id_append split: option.splits)
  show "pid_ok rows \<Longrightarrow> pid_settled_as rows j = Some x \<Longrightarrow> pid_record rows i payer tx t = Inr rows' \<Longrightarrow>
      pid_settled_as rows' j = Some x"
    by (erule pid_recordE)
      (auto simp: pid_settled_as_def by_id_record settle_where_def settledHalf_def split: option.splits)
  show "pid_ok rows \<Longrightarrow> pid_settled_as rows j = Some x \<Longrightarrow> pid_prune rows b k = Inr (n, rows') \<Longrightarrow>
      pid_settled_as rows' j = Some x"
    by (auto simp: pid_settled_as_def settledHalf_def dest!: pid_prune_settled split: option.splits)
  show "pid_ok rows \<Longrightarrow> pid_record rows i payer tx t = Inr rows' \<Longrightarrow> pid_settled_as rows i = None \<and>
      (\<exists>f p. pid_settled_as rows' i = Some (f, p, \<lparr>rp_payer = payer, rp_txHash = tx\<rparr>))"
  proof -
    assume ok: "pid_ok rows" and "pid_record rows i payer tx t = Inr rows'"
    from this(2) obtain e where "e \<in> set rows" "pi_id e = i" "pi_settled_at e = None"
        "rows' = update_where (settle_where i)
         (\<lambda>r. r\<lparr>pi_payer := Some payer, pi_tx_hash := tx, pi_settled_at := Some t\<rparr>) rows"
      by (rule pid_recordE)
    moreover have "by_id rows i = Some e" using calculation ok by (simp add: by_id_iff pid_ok_def)
    ultimately show ?thesis
      by (simp add: pid_settled_as_def by_id_record settle_where_def settledHalf_def)
  qed
  show "pid_ok rows \<Longrightarrow> pid_bind rows i f p t = Inr (BindNew, rows') \<Longrightarrow> 0 \<le> t' \<Longrightarrow> isSafeInteger t' \<Longrightarrow>
      \<exists>s''. pid_record rows' i payer tx t' = Inr s'' \<and>
        pid_settled_as s'' i = Some (f, p, \<lparr>rp_payer = payer, rp_txHash = tx\<rparr>)"
  proof -
    assume ok: "pid_ok rows" and b: "pid_bind rows i f p t = Inr (BindNew, rows')"
      and t: "0 \<le> t'" "isSafeInteger t'"
    obtain e where e: "by_id rows' i = Some e" "pi_fingerprint e = f" "pi_payment_intent_id e = p"
      "pi_settled_at e = None" "is_identifier i"
      using b
    proof (cases rule: pid_bindE)
      case fresh
      then show ?thesis using that by (simp add: by_id_append)
    next
      case (known e)
      then show ?thesis using that [of e] by_id_Some [OF known(1)] ok
        by (auto simp: bind_existing_def settledHalf_def pid_ok_def split: if_splits option.splits)
    qed
    then have "settle_where i e" "e \<in> set rows'" using by_id_Some by (auto simp: settle_where_def)
    then have "changes (settle_where i) rows' \<noteq> 0" by (auto simp: changes_def filter_empty_conv)
    then show ?thesis
      using e t \<open>settle_where i e\<close>
      by (simp add: pid_record_def identifierKey_def pid_settled_as_def by_id_record settledHalf_def)
  qed
qed

section \<open>Properties\<close>

abbreviation pid_run :: "PaymentIdentifierDbRow list \<Rightarrow> binding_op list \<Rightarrow> PaymentIdentifierDbRow list" where
  "pid_run \<equiv> foldl (binding_step pid_bind pid_record pid_prune)"

definition sample_id :: string where
  "sample_id = replicate 16 CHR ''a''"

definition sample_print :: "char \<Rightarrow> string" where
  "sample_print c = replicate 64 c"

lemma sample_keys [simp]: "is_identifier sample_id" "is_sha256_hex (sample_print CHR ''0'')"
    "is_sha256_hex (sample_print CHR ''1'')"
  by (simp_all add: is_identifier_def is_sha256_hex_def sample_id_def sample_print_def char_class_defs
      list_all_iff)

lemma sample_print_neq: "sample_print CHR ''0'' \<noteq> sample_print CHR ''1''"
  by (simp add: sample_print_def)

definition sample_bound :: "PaymentIdentifierDbRow list" where
  "sample_bound = [\<lparr>pi_id = sample_id, pi_fingerprint = sample_print CHR ''0'', pi_payment_intent_id = ''0x1'',
     pi_bound_at = 5, pi_payer = None, pi_tx_hash = None, pi_settled_at = None\<rparr>]"

definition sample_settled :: "PaymentIdentifierDbRow list" where
  "sample_settled = [\<lparr>pi_id = sample_id, pi_fingerprint = sample_print CHR ''0'', pi_payment_intent_id = ''0x1'',
     pi_bound_at = 5, pi_payer = Some ''0xa'', pi_tx_hash = None, pi_settled_at = Some 6\<rparr>]"

lemma sample_pid: "pid_ok sample_bound"
  "pid_bind [] sample_id (sample_print CHR ''0'') ''0x1'' 5 = Inr (BindNew, sample_bound)"
  "pid_record sample_bound sample_id ''0xa'' None 6 = Inr sample_settled"
  by (simp_all add: pid_ok_def sample_bound_def sample_settled_def pid_bind_def by_id_def identifierKey_def
      fingerprintHex_def isSafeInteger_def MAX_SAFE_INTEGER_def pid_record_def changes_def settle_where_def
      update_where_def)

text \<open>C6: a settled identifier is never free again. Once a settlement is recorded under an
  identifier, every later \<^verbatim>\<open>bind\<close> of it, after any sequence of binds, records and prunes,
  is answered from the settled row or refused as a conflict; it is never \<^verbatim>\<open>new\<close>, so the
  paywall never asks for a second settlement under that name.\<close>

theorem settled_identifier_never_new:
  assumes "pid_ok rows" and "pid_record rows i payer txHash at_ms = Inr rows'"
    and "pid_bind (pid_run rows' ops) i fingerprint intent at_ms' = Inr (r, rows'')"
  shows "r \<noteq> BindNew \<and> rows'' = pid_run rows' ops"
  by (rule idb.replay_answer [OF assms])

theorem settled_identifier_never_new_witness:
  "pid_bind (pid_run sample_settled [OpPrune 100 1]) sample_id (sample_print CHR ''1'') ''0x1'' 9
     = Inr (BindConflict ConflictFingerprint (Some \<lparr>rp_payer = ''0xa'', rp_txHash = None\<rparr>), sample_settled) \<and>
   BindConflict ConflictFingerprint (Some \<lparr>rp_payer = ''0xa'', rp_txHash = None\<rparr>) \<noteq> BindNew"
proof -
  have "pid_bind (pid_run sample_settled [OpPrune 100 1]) sample_id (sample_print CHR ''1'') ''0x1'' 9
     = Inr (BindConflict ConflictFingerprint (Some \<lparr>rp_payer = ''0xa'', rp_txHash = None\<rparr>), sample_settled)"
    by (simp add: keep_state_def pid_prune_def isSafeInteger_def MAX_SAFE_INTEGER_def Let_def sample_settled_def
        dropUnsettledBefore_def dropUnsettledBeyond_def unsettled_def pid_bind_def identifierKey_def
        fingerprintHex_def by_id_def bind_existing_def settledHalf_def sample_print_neq)
  then show ?thesis
    using settled_identifier_never_new [OF sample_pid(1,3)] by simp
qed

text \<open>A binding that was granted can be completed, once. After \<^verbatim>\<open>bind\<close> answers \<^verbatim>\<open>new\<close>,
  \<^verbatim>\<open>record\<close> succeeds; from then on the same request with the same leaf is answered with
  exactly the payer and transaction recorded, whatever happens in between, and a second
  \<^verbatim>\<open>record\<close> is an error.\<close>

theorem bind_record_replay:
  assumes "pid_ok rows" and "pid_bind rows i fingerprint intent at_ms = Inr (BindNew, rows1)"
    and "0 \<le> t" and "isSafeInteger t" and "0 \<le> t'" and "isSafeInteger t'"
  shows "\<exists>rows2. pid_record rows1 i payer txHash t = Inr rows2 \<and>
    pid_bind (pid_run rows2 ops) i fingerprint intent t'
      = Inr (BindSettled \<lparr>rp_payer = payer, rp_txHash = txHash\<rparr>, pid_run rows2 ops) \<and>
    \<not> (\<exists>rows3. pid_record (pid_run rows2 ops) i payer' txHash' t' = Inr rows3)"
proof -
  have ok1: "pid_ok rows1" using pid_bind_ok [OF assms(1,2)] .
  obtain rows2 where r2: "pid_record rows1 i payer txHash t = Inr rows2"
    and s2: "pid_settled_as rows2 i = Some (fingerprint, intent, \<lparr>rp_payer = payer, rp_txHash = txHash\<rparr>)"
    using idb.bind_claims [OF assms(1,2,3,4)] by blast
  have ok2: "pid_ok rows2" using pid_record_ok [OF ok1 r2] .
  have s3: "pid_settled_as (pid_run rows2 ops) i = Some (fingerprint, intent, \<lparr>rp_payer = payer, rp_txHash = txHash\<rparr>)"
    using idb.settled_forever [OF ok2 s2] .
  have "is_identifier i" "is_sha256_hex fingerprint"
    using assms(2) by (auto simp: pid_bind_def result_simps)
  then obtain r s where b: "pid_bind (pid_run rows2 ops) i fingerprint intent t' = Inr (r, s)"
    using assms(5,6) by (cases "by_id (pid_run rows2 ops) i")
      (auto simp: pid_bind_def identifierKey_def fingerprintHex_def)
  then have "s = pid_run rows2 ops \<and> r = BindSettled \<lparr>rp_payer = payer, rp_txHash = txHash\<rparr>"
    using idb.bind_settled [OF idb.steps_ok [OF ok2] s3 b] by simp
  then show ?thesis using b idb.recorded_once [OF ok1 r2] r2 by blast
qed

theorem bind_record_replay_witness:
  "\<exists>rows2. pid_record sample_bound sample_id ''0xa'' None 6 = Inr rows2 \<and>
    pid_bind (pid_run rows2 [OpPrune 50 1, OpBind sample_id (sample_print CHR ''1'') ''0x2'' 8]) sample_id
      (sample_print CHR ''0'') ''0x1'' 9
    = Inr (BindSettled \<lparr>rp_payer = ''0xa'', rp_txHash = None\<rparr>,
       pid_run rows2 [OpPrune 50 1, OpBind sample_id (sample_print CHR ''1'') ''0x2'' 8])"
proof -
  have "pid_ok []" by (simp add: pid_ok_def)
  from bind_record_replay [OF this sample_pid(2), of 6 9 "''0xa''" None
      "[OpPrune 50 1, OpBind sample_id (sample_print CHR ''1'') ''0x2'' 8]" "''b''" None] show ?thesis
    by (simp add: isSafeInteger_def MAX_SAFE_INTEGER_def) blast
qed

end
