(* ===== verification/Shared_Net.thy ===== *)
theory Shared_Net
  imports Js_Text "HOL-Library.Sublist"
begin

text \<open>
  Network names and error texts (\<^verbatim>\<open>packages/shared/src/chain.ts\<close>, \<^verbatim>\<open>net.ts\<close> and
  \<^verbatim>\<open>errors.ts\<close>): which hosts are loopback, which endpoints a command may talk to, the
  rate-limit buckets of client addresses, the settlement error model, and the redaction every
  log line passes through. Texts are ASCII: a dash or an ellipsis of the source is written
  with ASCII characters.
\<close>

section \<open>Loopback\<close>

definition LOCALHOST_SUFFIX :: string where
  "LOCALHOST_SUFFIX = ''.localhost''"

definition V4_MAPPED :: string where
  "V4_MAPPED = ''::ffff:''"

text \<open>\<^verbatim>\<open>/^(\d{1,3})\.(\d{1,3})\.(\d{1,3})\.(\d{1,3})$/\<close> with the groups as numbers.\<close>

definition octets :: "string \<Rightarrow> nat list option" where
  "octets s = (let ws = split_char CHR ''.'' s in
     if length ws = 4 \<and> list_all (\<lambda>w. 1 \<le> length w \<and> length w \<le> 3 \<and> list_all is_digit w) ws
     then Some (map dec_value ws) else None)"

definition loopback_v4 :: "string \<Rightarrow> bool" where
  "loopback_v4 bare = (case octets bare of
     None \<Rightarrow> False
   | Some parts \<Rightarrow> list_all (\<lambda>n. n \<le> 255) parts \<and> (hd parts = 127 \<or> bare = ''0.0.0.0''))"

text \<open>\<^verbatim>\<open>host.startsWith("[") && host.endsWith("]") ? host.slice(1, -1) : host\<close>.\<close>

definition unbracket :: "string \<Rightarrow> string" where
  "unbracket host = (if starts_with ''['' host \<and> ends_with '']'' host then take (length host - 2) (drop 1 host) else host)"

lemma length_unbracket: "length (unbracket h) \<le> length h"
  by (simp add: unbracket_def)

function isLoopbackHost :: "string \<Rightarrow> bool" where
  "isLoopbackHost hostname =
     (let host = toLowerCase hostname; bare = unbracket host in
      if host = ''localhost'' \<or> ends_with LOCALHOST_SUFFIX host then True
      else if bare = ''::1'' then True
      else if starts_with V4_MAPPED bare \<and> 7 < length bare \<and> \<not> list_ex is_newline (drop 7 bare)
      then isLoopbackHost (drop 7 bare)
      else loopback_v4 bare)"
  by pat_completeness auto
termination
proof (relation "measure length", goal_cases)
  case (2 hostname host bare)
  then show ?case using length_unbracket [of host] by simp arith
qed simp

declare isLoopbackHost.simps [simp del]

section \<open>Endpoints\<close>

definition parseNodeRpcUrl :: "url_parser \<Rightarrow> string \<Rightarrow> string result" where
  "parseNodeRpcUrl parse value = (case parse value of
     None \<Rightarrow> Inl (TypeError ''Invalid URL'')
   | Some url \<Rightarrow>
       ebind (ensure (u_protocol url \<in> {''http:'', ''https:''} \<and> u_username url = [] \<and> u_password url = [])
         (Error ''RPC URL must be HTTP(S) without embedded credentials'')) (\<lambda>_.
       ebind (ensure (u_protocol url = ''https:'' \<or> isLoopbackHost (u_hostname url))
         (Error ''RPC URL must use HTTPS unless it is loopback'')) (\<lambda>_.
       Inr (u_href url))))"

datatype RpcTarget = TargetLoopback | TargetLive

definition assertRpcTarget :: "url_parser \<Rightarrow> string \<Rightarrow> RpcTarget \<Rightarrow> string \<Rightarrow> string result" where
  "assertRpcTarget parse value expect because =
     ebind (parseNodeRpcUrl parse value) (\<lambda>normalized.
     case parse normalized of
       None \<Rightarrow> Inl (TypeError ''Invalid URL'')
     | Some url \<Rightarrow>
       let loopback = isLoopbackHost (u_hostname url) in
       if expect = TargetLoopback \<and> \<not> loopback
       then Inl (Error (''refusing to run: '' @ u_hostname url @ '' is not loopback - '' @ because))
       else if expect = TargetLive \<and> loopback
       then Inl (Error (''refusing to run: '' @ u_hostname url @ '' is loopback - '' @ because))
       else Inr normalized)"

section \<open>Rate-limit buckets\<close>

definition v4Prefix :: "string \<Rightarrow> string" where
  "v4Prefix address = join_with ''.'' (take 3 (split_char CHR ''.'' address))"

text \<open>The two parts of \<^verbatim>\<open>address.split("::", 2)\<close>.\<close>

fun split_elision :: "string \<Rightarrow> string \<times> string option" where
  "split_elision [] = ([], None)"
| "split_elision [c] = ([c], None)"
| "split_elision (c # d # cs) =
     (if c = CHR '':'' \<and> d = CHR '':'' then ([], Some (fst (split_elision cs)))
      else (let (h, t) = split_elision (d # cs) in (c # h, t)))"

definition groups_of :: "string \<Rightarrow> string list" where
  "groups_of s = (if s = [] then [] else split_char CHR '':'' s)"

definition v6_groups :: "string \<Rightarrow> string list" where
  "v6_groups address =
     (let (head, tail) = split_elision address;
          headGroups = groups_of head;
          tailGroups = (case tail of None \<Rightarrow> [] | Some t \<Rightarrow> groups_of t);
          elided = (if tail = None then 0 else 8 - length headGroups - length tailGroups)
      in headGroups @ replicate elided ''0'' @ tailGroups)"

definition v6Prefix :: "string \<Rightarrow> nat \<Rightarrow> string" where
  "v6Prefix address groupCount =
     join_with '':'' (map (\<lambda>g. print_hex (parse_hex g)) (take groupCount (v6_groups address)))"

definition ipBucket :: "string \<Rightarrow> string" where
  "ipBucket address =
     (if CHR '':'' \<notin> set address \<or> CHR ''.'' \<in> set address then address
      else v6Prefix address 4 @ ''::/64'')"

text \<open>\<^verbatim>\<open>address.slice(address.lastIndexOf(":") + 1)\<close>.\<close>

definition after_last_colon :: "string \<Rightarrow> string" where
  "after_last_colon s = rev (takeWhile (\<lambda>c. c \<noteq> CHR '':'') (rev s))"

definition subnetBucket :: "string \<Rightarrow> string" where
  "subnetBucket address =
     (if CHR '':'' \<notin> set address then v4Prefix address @ ''.0/24''
      else if CHR ''.'' \<in> set address then V4_MAPPED @ v4Prefix (after_last_colon address) @ ''.0/24''
      else v6Prefix address 3 @ ''::/48'')"

section \<open>What loopback means\<close>

text \<open>
  The whole 127.0.0.0/8 block and its mapped spelling are loopback; a dotted host outside it,
  other than 0.0.0.0, is not.
\<close>

definition dotted :: "nat list \<Rightarrow> string" where
  "dotted ns = join_with ''.'' (map nat_dec ns)"

lemma nat_dec_no_dot: "CHR ''.'' \<notin> set (nat_dec n)"
proof
  assume "CHR ''.'' \<in> set (nat_dec n)"
  then have "is_digit CHR ''.''" using nat_dec_digits [of n] by (auto simp: list_all_iff)
  then show False by (simp add: is_digit_def char_between_def)
qed

lemma digit_facts: "is_digit c \<Longrightarrow> to_lower_char c = c \<and> c \<noteq> CHR ''['' \<and> c \<noteq> CHR '':'' \<and> c \<noteq> CHR ''.'' \<and> c \<noteq> CHR ''t'' \<and> c \<noteq> CHR ''l''"
  by (auto simp: to_lower_char_def is_upper_def is_digit_def char_between_def)

lemma hex_facts: "is_hex c \<Longrightarrow> c \<noteq> CHR '':'' \<and> c \<noteq> CHR ''.''  \<and> c \<noteq> CHR ''-'' \<and> c \<noteq> CHR ''+'' \<and> c \<noteq> CHR ''x'' \<and> c \<noteq> CHR ''X'' \<and> \<not> is_space c"
  by (auto simp: char_class_defs is_space_def)

definition plain_host :: "string \<Rightarrow> bool" where
  "plain_host s \<longleftrightarrow> s \<noteq> [] \<and> list_all (\<lambda>c. is_digit c \<or> c = CHR ''.'') s"

lemma not_digit_t [simp]: "\<not> is_digit CHR ''t''" "\<not> is_digit CHR ''.''"
  by (simp_all add: is_digit_def char_between_def)

lemma plain_host_steps:
  assumes "plain_host s"
  shows "toLowerCase s = s" "s \<noteq> ''localhost''" "\<not> ends_with LOCALHOST_SUFFIX s" "unbracket s = s"
    "s \<noteq> ''::1''" "\<not> starts_with V4_MAPPED s"
proof -
  obtain c t where s: "s = c # t" and c: "is_digit c \<or> c = CHR ''.''" using assms by (cases s) (auto simp: plain_host_def)
  have all: "\<forall>x \<in> set s. is_digit x \<or> x = CHR ''.''" using assms by (auto simp: plain_host_def list_all_iff)
  have low: "to_lower_char x = x" if "x \<in> set s" for x
  proof -
    from all that have "is_digit x \<or> x = CHR ''.''" by blast
    then show ?thesis using digit_facts [of x] by (auto simp: to_lower_char_def is_upper_def char_between_def)
  qed
  show "toLowerCase s = s" by (simp add: toLowerCase_def map_idI low)
  have nt: "CHR ''t'' \<notin> set s" using all by auto
  then show "s \<noteq> ''localhost''" by auto
  show "\<not> ends_with LOCALHOST_SUFFIX s"
  proof
    assume "ends_with LOCALHOST_SUFFIX s"
    then have "CHR ''t'' \<in> set (drop (length s - length LOCALHOST_SUFFIX) s)"
      by (simp add: ends_with_def LOCALHOST_SUFFIX_def)
    then show False using nt by (metis in_set_dropD)
  qed
  show "unbracket s = s" using c digit_facts [of c] by (auto simp: unbracket_def starts_with_def s)
  show "s \<noteq> ''::1''" "\<not> starts_with V4_MAPPED s"
    using c digit_facts [of c] by (auto simp: s starts_with_def V4_MAPPED_def)
qed

lemma loopback_plain: "plain_host s \<Longrightarrow> isLoopbackHost s = loopback_v4 s"
  using plain_host_steps [of s] by (simp add: isLoopbackHost.simps [of s] Let_def)

lemma loopback_mapped:
  assumes "plain_host s" shows "isLoopbackHost (V4_MAPPED @ s) = loopback_v4 s"
proof -
  have lower: "toLowerCase V4_MAPPED = V4_MAPPED" by code_simp
  have low: "toLowerCase (V4_MAPPED @ s) = V4_MAPPED @ s"
    using plain_host_steps(1) [OF assms] lower by (simp add: toLowerCase_def)
  have last: "last s \<noteq> CHR ''t''" "s \<noteq> []"
  proof -
    show "s \<noteq> []" using assms by (simp add: plain_host_def)
    then have "is_digit (last s) \<or> last s = CHR ''.''" using assms by (simp add: plain_host_def list_all_iff)
    then show "last s \<noteq> CHR ''t''" by auto
  qed
  have e: "\<not> ends_with LOCALHOST_SUFFIX (V4_MAPPED @ s)"
  proof
    assume "ends_with LOCALHOST_SUFFIX (V4_MAPPED @ s)"
    then obtain p where "V4_MAPPED @ s = p @ LOCALHOST_SUFFIX" unfolding ends_with_def by (metis append_take_drop_id)
    then have "last (V4_MAPPED @ s) = last (p @ LOCALHOST_SUFFIX)" by simp
    then show False using last by (simp add: LOCALHOST_SUFFIX_def)
  qed
  have nl: "\<not> list_ex is_newline s"
    using assms by (auto simp: plain_host_def list_all_iff list_ex_iff is_newline_def is_digit_def char_between_def)
  have h: "hd (V4_MAPPED @ s) = CHR '':''" "length V4_MAPPED = 7" by (simp_all add: V4_MAPPED_def)
  have u: "unbracket (V4_MAPPED @ s) = V4_MAPPED @ s" by (simp add: unbracket_def starts_with_def V4_MAPPED_def)
  have st: "starts_with V4_MAPPED (V4_MAPPED @ s)" by (simp add: starts_with_def)
  have n: "V4_MAPPED @ s \<noteq> ''localhost''" "V4_MAPPED @ s \<noteq> ''::1''" by (simp_all add: V4_MAPPED_def)
  have d: "drop 7 (V4_MAPPED @ s) = s" "7 < length (V4_MAPPED @ s)" using h(2) last(2) by simp_all
  show ?thesis
    by (subst isLoopbackHost.simps) (simp only: Let_def low e n u st d nl loopback_plain [OF assms], simp)
qed

lemma length_nat_dec_le3: "n \<le> 255 \<Longrightarrow> length (nat_dec n) \<le> 3"
  by (simp add: nat_dec.simps [of n] nat_dec.simps [of "n div 10"] nat_dec.simps [of "n div 10 div 10"])

lemma octets_dotted:
  assumes "length ns = 4" "\<forall>n \<in> set ns. n \<le> 255" shows "octets (dotted ns) = Some ns"
proof -
  have "split_char CHR ''.'' (dotted ns) = map nat_dec ns"
    unfolding dotted_def using assms(1) by (intro split_join) (auto simp: nat_dec_no_dot)
  moreover have "map (\<lambda>n. dec_value (nat_dec n)) ns = ns" by (simp add: map_idI)
  moreover have "1 \<le> length (nat_dec n)" for n using nat_dec_not_Nil [of n] by (cases "nat_dec n") simp_all
  ultimately show ?thesis using assms length_nat_dec_le3
    by (simp add: octets_def list_all_iff o_def nat_dec_digits [unfolded list_all_iff])
qed

lemma plain_dotted: "ns \<noteq> [] \<Longrightarrow> plain_host (dotted ns)"
proof (induction ns rule: induct_list012)
  case (3 a b ns)
  then show ?case using nat_dec_digits [of a] by (auto simp: dotted_def plain_host_def list_all_iff)
qed (auto simp: dotted_def plain_host_def list_all_iff nat_dec_digits [unfolded list_all_iff])

lemma dotted_inj: "dotted ms = dotted ns \<Longrightarrow> length ms = 4 \<Longrightarrow> length ns = 4 \<Longrightarrow>
    \<forall>n \<in> set ms. n \<le> 255 \<Longrightarrow> \<forall>n \<in> set ns. n \<le> 255 \<Longrightarrow> ms = ns"
  by (metis octets_dotted option.inject)

text \<open>Loopback is exactly the 127.0.0.0/8 block. An IPv4 host is classified as this machine,
  in its plain and in its IPv6-mapped spelling alike, precisely when its first octet is 127 or
  it is 0.0.0.0.\<close>

theorem loopback_exact:
  assumes "a \<le> 255" "b \<le> 255" "c \<le> 255" "d \<le> 255"
  shows "(isLoopbackHost (dotted [a, b, c, d]) \<longleftrightarrow> a = 127 \<or> [a, b, c, d] = [0, 0, 0, 0]) \<and>
    isLoopbackHost (V4_MAPPED @ dotted [a, b, c, d]) = isLoopbackHost (dotted [a, b, c, d])"
proof -
  let ?ns = "[a, b, c, d]"
  have o: "octets (dotted ?ns) = Some ?ns" using assms by (intro octets_dotted) simp_all
  have z: "dotted [0, 0, 0, 0] = ''0.0.0.0''" by code_simp
  have "dotted ?ns = ''0.0.0.0'' \<longleftrightarrow> ?ns = [0, 0, 0, 0]"
    using dotted_inj [of ?ns "[0, 0, 0, 0]"] assms by (auto simp: z)
  then have "loopback_v4 (dotted ?ns) \<longleftrightarrow> a = 127 \<or> ?ns = [0, 0, 0, 0]"
    using o assms by (simp add: loopback_v4_def)
  then show ?thesis using plain_dotted [of ?ns] loopback_plain loopback_mapped by simp
qed

theorem loopback_exact_witness:
  "isLoopbackHost (V4_MAPPED @ dotted [127, 0, 0, 53]) \<and> \<not> isLoopbackHost (dotted [10, 0, 0, 1])"
  using loopback_exact [of 127 0 0 53] loopback_exact [of 10 0 0 1] by simp

section \<open>What a bucket keeps\<close>

text \<open>A group of an IPv6 address as a person may write it: one to four digits, zeros and case free.\<close>

definition is_group :: "string \<Rightarrow> bool" where
  "is_group g \<longleftrightarrow> g \<noteq> [] \<and> list_all is_hex g"

abbreviation spell :: "string list \<Rightarrow> string" where
  "spell \<equiv> join_with '':''"

lemma group_chars: "is_group g \<Longrightarrow> c \<in> set g \<Longrightarrow> is_hex c"
  by (auto simp: is_group_def list_all_iff)

lemma group_no_colon: "is_group g \<Longrightarrow> CHR '':'' \<notin> set g \<and> CHR ''.'' \<notin> set g"
  using group_chars hex_facts by blast

lemma parse_group: "is_group g \<Longrightarrow> parse_hex g = Some (hex_value g)"
proof -
  assume g: "is_group g"
  then obtain c cs where c: "g = c # cs" "is_hex c" by (cases g) (auto simp: is_group_def)
  have t: "takeWhile is_hex g = g" using g by (auto simp: is_group_def takeWhile_eq_all_conv list_all_iff)
  have x: "\<not> starts_with ''0x'' g" "\<not> starts_with ''0X'' g"
  proof -
    have "CHR ''x'' \<notin> set g" "CHR ''X'' \<notin> set g" using group_chars [OF g] hex_facts by blast+
    then have "CHR ''x'' \<notin> set (take 2 g)" "CHR ''X'' \<notin> set (take 2 g)" using in_set_takeD by fast+
    then show "\<not> starts_with ''0x'' g" "\<not> starts_with ''0X'' g"
      unfolding starts_with_def by (metis length_Cons list.set_intros list.size(3) One_nat_def Suc_1)+
  qed
  have "dropWhile is_space g = g" "\<not> starts_with ''-'' g" "\<not> starts_with ''+'' g" "g \<noteq> []"
    using c hex_facts [of c] by (simp_all add: starts_with_def)
  then show ?thesis using x by (simp add: parse_hex_def Let_def t)
qed

fun no_double :: "string \<Rightarrow> bool" where
  "no_double (c # d # cs) \<longleftrightarrow> \<not> (c = CHR '':'' \<and> d = CHR '':'') \<and> no_double (d # cs)"
| "no_double _ \<longleftrightarrow> True"

lemma split_elision_none: "no_double s \<Longrightarrow> split_elision s = (s, None)"
  by (induction s rule: no_double.induct) auto

lemma split_elision_at:
  "no_double (s @ [CHR '':'']) \<Longrightarrow> split_elision (s @ CHR '':'' # CHR '':'' # t) = (s, Some (fst (split_elision t)))"
  by (induction s rule: no_double.induct) auto

lemma no_double_word: "CHR '':'' \<notin> set w \<Longrightarrow> no_double w"
  by (induction w rule: no_double.induct) auto

lemma no_double_Cons: "no_double (c # s) \<longleftrightarrow> \<not> (c = CHR '':'' \<and> s \<noteq> [] \<and> hd s = CHR '':'') \<and> no_double s"
  by (cases s) auto

lemma no_double_cons: "w \<noteq> [] \<Longrightarrow> CHR '':'' \<notin> set w \<Longrightarrow> no_double s \<Longrightarrow> s = [] \<or> hd s \<noteq> CHR '':'' \<Longrightarrow>
    no_double (w @ CHR '':'' # s)"
proof (induction w)
  case (Cons c w)
  then show ?case by (cases "w = []") (auto simp: no_double_Cons)
qed simp

lemma no_double_spell:
  "list_all is_group gs \<Longrightarrow> no_double (spell gs) \<and> (gs \<noteq> [] \<longrightarrow> spell gs \<noteq> [] \<and> hd (spell gs) \<noteq> CHR '':'') \<and>
     (gs \<noteq> [] \<longrightarrow> no_double (spell gs @ [CHR '':'']))"
proof (induction "'':''" gs rule: join_with.induct)
  case (2 g)
  then have g: "g \<noteq> []" "CHR '':'' \<notin> set g" using group_no_colon [of g] by (auto simp: is_group_def)
  then show ?case using no_double_word [of g] no_double_cons [of g "[]"] by (cases g) auto
next
  case (3 g h hs)
  then have g: "g \<noteq> []" "CHR '':'' \<notin> set g" using group_no_colon [of g] by (auto simp: is_group_def)
  have n: "no_double (spell (h # hs))" "spell (h # hs) \<noteq> []" "hd (spell (h # hs)) \<noteq> CHR '':''"
    "no_double (spell (h # hs) @ [CHR '':''])"
    using 3 by simp_all
  have "hd (spell (h # hs) @ [CHR '':'']) \<noteq> CHR '':''" using n by simp
  then show ?case using g n no_double_cons [OF g, of "spell (h # hs)"] no_double_cons [OF g, of "spell (h # hs) @ [CHR '':'']"]
    by (cases g) auto
qed simp

lemma groups_of_spell: "list_all is_group gs \<Longrightarrow> groups_of (spell gs) = gs"
proof (cases gs)
  case (Cons g hs)
  moreover assume "list_all is_group gs"
  ultimately show ?thesis using no_double_spell [of gs] split_join [of gs "CHR '':''"] group_no_colon
    by (auto simp: groups_of_def list_all_iff)
qed (simp add: groups_of_def)

lemma v6_groups_full: "list_all is_group gs \<Longrightarrow> v6_groups (spell gs) = gs"
  using no_double_spell [of gs] by (simp add: v6_groups_def split_elision_none groups_of_spell)

lemma v6_groups_elided:
  assumes "list_all is_group gs" "list_all is_group hs"
  shows "v6_groups (spell gs @ ''::'' @ spell hs) = gs @ replicate (8 - length gs - length hs) ''0'' @ hs"
proof -
  have "no_double (spell gs @ [CHR '':''])" using no_double_spell [OF assms(1)] by (cases gs) auto
  then have "split_elision (spell gs @ CHR '':'' # CHR '':'' # spell hs) = (spell gs, Some (spell hs))"
    using no_double_spell [OF assms(2)] by (simp add: split_elision_at split_elision_none)
  then show ?thesis using assms by (simp add: v6_groups_def groups_of_spell)
qed

lemma hex_value_pos: "0 \<le> hex_value g" by simp

lemma print_group: "is_group g \<Longrightarrow> print_hex (parse_hex g) = nat_hex (nat (hex_value g))"
  by (simp add: parse_group print_hex_def not_less)

lemma nat_hex_chars: "list_all is_hex (nat_hex n)" "nat_hex n \<noteq> []"
proof (induction n rule: nat_hex.induct)
  case (1 n)
  case 1
  show ?case using 1 \<open>\<not> n < 16 \<Longrightarrow> list_all is_hex (nat_hex (n div 16))\<close>
    by (cases "n < 16") (simp_all add: nat_hex.simps [of n] hex_char_facts)
  case 2
  show ?case by (simp add: nat_hex.simps [of n])
qed

lemma colon_in_spell: "2 \<le> length gs \<Longrightarrow> CHR '':'' \<in> set (spell gs)"
  by (cases gs rule: remdups_adj.cases) auto

lemma no_dot_spell: "list_all is_group gs \<Longrightarrow> CHR ''.'' \<notin> set (spell gs)"
  by (induction "'':''" gs rule: join_with.induct) (auto simp: group_no_colon)

lemma bucket_shape:
  assumes "CHR '':'' \<in> set a" "CHR ''.'' \<notin> set a" "list_all is_group (v6_groups a)"
  shows "ipBucket a = spell (map (\<lambda>g. nat_hex (nat (hex_value g))) (take 4 (v6_groups a))) @ ''::/64''"
    "subnetBucket a = spell (map (\<lambda>g. nat_hex (nat (hex_value g))) (take 3 (v6_groups a))) @ ''::/48''"
proof -
  have p: "map (\<lambda>g. print_hex (parse_hex g)) (take k (v6_groups a)) = map (\<lambda>g. nat_hex (nat (hex_value g))) (take k (v6_groups a))" for k
    using assms(3) in_set_takeD by (force simp: list_all_iff print_group)
  show "ipBucket a = spell (map (\<lambda>g. nat_hex (nat (hex_value g))) (take 4 (v6_groups a))) @ ''::/64''"
    "subnetBucket a = spell (map (\<lambda>g. nat_hex (nat (hex_value g))) (take 3 (v6_groups a))) @ ''::/48''"
    using assms by (simp_all add: ipBucket_def subnetBucket_def v6Prefix_def p)
qed

lemma spell_values_inj:
  assumes "spell (map (\<lambda>g. nat_hex (nat (hex_value g))) gs) = spell (map (\<lambda>g. nat_hex (nat (hex_value g))) hs)"
    and "gs \<noteq> []" "hs \<noteq> []"
  shows "map hex_value gs = map hex_value hs"
proof -
  have c: "CHR '':'' \<notin> set (nat_hex n)" for n
    using nat_hex_chars(1) [of n] hex_facts by (auto simp: list_all_iff)
  have "map (\<lambda>g. nat_hex (nat (hex_value g))) gs = map (\<lambda>g. nat_hex (nat (hex_value g))) hs"
    using assms c by (intro join_inj [OF assms(1)]) auto
  then have "map hex_value (map (\<lambda>g. nat_hex (nat (hex_value g))) gs) = map hex_value (map (\<lambda>g. nat_hex (nat (hex_value g))) hs)"
    by simp
  then show ?thesis by (simp add: o_def)
qed

text \<open>One site, one bucket. Two IPv6 addresses, each spelled in full or with the zeros
  elided and in any letter case or zero padding, fall in one /64 bucket exactly when their
  first four groups have the same values, so fresh addresses of one delegated /64 never
  present a fresh key.\<close>

theorem ip_bucket_spelling:
  assumes "list_all is_group (gs @ hs)" and "2 \<le> length full" and "list_all is_group full"
    and "length gs + length hs \<le> 8"
  shows "ipBucket (spell gs @ ''::'' @ spell hs) = ipBucket (spell full) \<longleftrightarrow>
    map hex_value (take 4 (gs @ replicate (8 - length gs - length hs) ''0'' @ hs)) = map hex_value (take 4 full)"
proof -
  let ?e = "gs @ replicate (8 - length gs - length hs) ''0'' @ hs"
  have z: "is_group ''0''" by (simp add: is_group_def char_class_defs)
  have ge: "v6_groups (spell gs @ ''::'' @ spell hs) = ?e" "v6_groups (spell full) = full"
    using assms v6_groups_elided [of gs hs] by (simp_all add: v6_groups_full)
  have ok: "list_all is_group ?e" using assms(1) z by (auto simp: list_all_iff)
  have ne: "take 4 ?e \<noteq> []" "take 4 full \<noteq> []" using assms(2,4) by auto
  have b: "ipBucket (spell gs @ ''::'' @ spell hs) = spell (map (\<lambda>g. nat_hex (nat (hex_value g))) (take 4 ?e)) @ ''::/64''"
    using bucket_shape(1) [of "spell gs @ ''::'' @ spell hs"] no_dot_spell assms(1) ok ge by simp
  have f: "ipBucket (spell full) = spell (map (\<lambda>g. nat_hex (nat (hex_value g))) (take 4 full)) @ ''::/64''"
    using bucket_shape(1) [of "spell full"] no_dot_spell [OF assms(3)] colon_in_spell [OF assms(2)] assms(3) ge by simp
  have "map (\<lambda>g. nat_hex (nat (hex_value g))) xs = map (\<lambda>v. nat_hex (nat v)) (map hex_value xs)" for xs by simp
  then show ?thesis unfolding b f using spell_values_inj [OF _ ne] by (metis append_same_eq)
qed

theorem ip_bucket_spelling_witness:
  "ipBucket (spell [''2001'', ''db8''] @ ''::'' @ spell [''1'']) = ipBucket (spell [''2001'', ''0DB8'', ''0'', ''000'', ''9''])"
proof -
  have g: "list_all is_group ([''2001'', ''db8''] @ [''1''])" "list_all is_group [''2001'', ''0DB8'', ''0'', ''000'', ''9'']"
    by (simp_all add: is_group_def char_class_defs)
  have "map hex_value (take 4 ([''2001'', ''db8''] @ replicate (8 - length [''2001'', ''db8''] - length [''1'']) ''0'' @ [''1'']))
      = map hex_value (take 4 [''2001'', ''0DB8'', ''0'', ''000'', ''9''])"
    by code_simp
  then show ?thesis using ip_bucket_spelling [OF g(1) _ g(2)] by simp
qed

section \<open>The settlement error model\<close>

datatype SettlementError =
    InvalidSignature string
  | AuthorizationExpired int int
  | AuthorizationNotYetValid int int
  | NonceAlreadyUsed string string
  | InsufficientBalance int int
  | LimitExceeded int int "int option"
  | DelegationRevoked string
  | RelayerOutOfGas string int
  | RpcUnavailable string
  | RpcRateLimited string "int option"
  | TxReverted "string option" "string option"
  | SettlementUnknown "string option"
  | DomainMismatch string string
  | MalformedPayload string "string option"

fun isOperational :: "SettlementError \<Rightarrow> bool" where
  "isOperational (RelayerOutOfGas _ _) = True"
| "isOperational (RpcUnavailable _) = True"
| "isOperational (RpcRateLimited _ _) = True"
| "isOperational _ = False"

definition httpStatusFor :: "SettlementError \<Rightarrow> int" where
  "httpStatusFor e =
     (if isOperational e then 503
      else case e of
        MalformedPayload _ _ \<Rightarrow> 400
      | DomainMismatch _ _ \<Rightarrow> 400
      | InvalidSignature _ \<Rightarrow> 401
      | DelegationRevoked _ \<Rightarrow> 403
      | LimitExceeded _ _ _ \<Rightarrow> 403
      | NonceAlreadyUsed _ _ \<Rightarrow> 409
      | SettlementUnknown _ \<Rightarrow> 504
      | _ \<Rightarrow> 422)"

section \<open>Redaction\<close>

text \<open>\<^verbatim>\<open>[^\s"'<>)\]}]\<close>.\<close>

definition is_url_char :: "char \<Rightarrow> bool" where
  "is_url_char c \<longleftrightarrow> \<not> is_space c \<and> of_char c \<notin> {34, 39, 60, 62, 41, 93, 125 :: nat}"

text \<open>The length of \<^verbatim>\<open>https?://\<close> at the beginning of a text, letter case ignored.\<close>

definition url_scheme :: "string \<Rightarrow> nat option" where
  "url_scheme s = (if starts_with ''http://'' (toLowerCase (take 7 s)) then Some 7
     else if starts_with ''https://'' (toLowerCase (take 8 s)) then Some 8 else None)"

definition redact_url :: "url_parser \<Rightarrow> string \<Rightarrow> string" where
  "redact_url parse match = (case parse match of
     None \<Rightarrow> match
   | Some url \<Rightarrow> let tail = drop (length (u_origin url)) match in
       if tail \<noteq> [] \<and> tail \<noteq> ''/'' then u_origin url @ ''/<redacted>'' else u_origin url)"

text \<open>
  \<^verbatim>\<open>text.replace(pattern, f)\<close> scans once from left to right; \<open>prev\<close> says whether the
  character before is a word character, for \<^verbatim>\<open>\b\<close>.
\<close>

function redact_urls_from :: "url_parser \<Rightarrow> bool \<Rightarrow> string \<Rightarrow> string" where
  "redact_urls_from parse prev s =
     (case s of
        [] \<Rightarrow> []
      | c # cs \<Rightarrow>
          (case (if prev then None else url_scheme s) of
             None \<Rightarrow> c # redact_urls_from parse (is_word c) cs
           | Some k \<Rightarrow>
               let rest = takeWhile is_url_char (drop k s) in
               if rest = [] then c # redact_urls_from parse (is_word c) cs
               else redact_url parse (take (k + length rest) s) @
                 redact_urls_from parse (is_word (last rest)) (drop (k + length rest) s)))"
  by pat_completeness auto
termination by (relation "measure (\<lambda>(_, _, s). length s)") auto

declare redact_urls_from.simps [simp del]

definition redactUrls :: "url_parser \<Rightarrow> string \<Rightarrow> string" where
  "redactUrls parse txt = redact_urls_from parse False txt"

text \<open>\<^verbatim>\<open>.replace(/0x[0-9a-fA-F]{65,}/g, ...)\<close>: a run of more than a hash's digits becomes its size.\<close>

definition bytes_text :: "nat \<Rightarrow> string" where
  "bytes_text n = nat_dec (n div 2) @ (if even n then [] else ''.5'')"

function scrub_hex :: "string \<Rightarrow> string" where
  "scrub_hex s =
     (case s of
        [] \<Rightarrow> []
      | c # cs \<Rightarrow>
          let n = (if starts_with ''0x'' s then length (takeWhile is_hex (drop 2 s)) else 0) in
          if 65 \<le> n then ''0x<'' @ bytes_text n @ '' bytes redacted>'' @ scrub_hex (drop (n + 2) s)
          else c # scrub_hex cs)"
  by pat_completeness auto
termination by (relation "measure length") auto

declare scrub_hex.simps [simp del]

text \<open>\<^verbatim>\<open>.replace(/\s+/g, " ")\<close>.\<close>

fun collapse_space :: "string \<Rightarrow> string" where
  "collapse_space [] = []"
| "collapse_space [c] = [if is_space c then CHR '' '' else c]"
| "collapse_space (c # d # cs) =
     (if is_space c \<and> is_space d then collapse_space (d # cs)
      else (if is_space c then CHR '' '' else c) # collapse_space (d # cs))"

text \<open>The ellipsis of a cut line, as its UTF-8 bytes.\<close>

definition ELLIPSIS :: string where
  "ELLIPSIS = [CHR 0xE2, CHR 0x80, CHR 0xA6]"

definition redactForLog :: "url_parser \<Rightarrow> string \<Rightarrow> nat \<Rightarrow> string" where
  "redactForLog parse raw maxLength =
     (let scrubbed = trim (collapse_space (scrub_hex (redactUrls parse raw)))
      in if maxLength < length scrubbed then take maxLength scrubbed @ ELLIPSIS else scrubbed)"

definition describe :: "url_parser \<Rightarrow> SettlementError \<Rightarrow> string" where
  "describe parse e = (case e of
     InvalidSignature expectedSigner \<Rightarrow> ''signature does not recover to '' @ expectedSigner
   | AuthorizationExpired validBefore now \<Rightarrow>
       ''authorization expired at '' @ String validBefore @ '' (now '' @ String now @ '')''
   | AuthorizationNotYetValid validAfter now \<Rightarrow>
       ''authorization not valid until '' @ String validAfter @ '' (now '' @ String now @ '')''
   | NonceAlreadyUsed authorizer nonce \<Rightarrow> ''nonce '' @ nonce @ '' already consumed by '' @ authorizer
   | InsufficientBalance available required \<Rightarrow> ''balance '' @ String available @ '' < required '' @ String required
   | LimitExceeded available requested _ \<Rightarrow>
       ''period allowance '' @ String available @ '' < requested '' @ String requested
   | DelegationRevoked delegationHash \<Rightarrow> ''delegation '' @ delegationHash @ '' was revoked''
   | RelayerOutOfGas signer balance \<Rightarrow>
       ''relayer '' @ signer @ '' has '' @ String balance @ '' wei - top up''
   | RpcUnavailable u \<Rightarrow> ''RPC '' @ redactUrls parse u @ '' unreachable''
   | RpcRateLimited u _ \<Rightarrow> ''RPC '' @ redactUrls parse u @ '' rate limited''
   | TxReverted _ reason \<Rightarrow> ''tx reverted'' @ (case reason of None \<Rightarrow> [] | Some t \<Rightarrow> if t = [] then [] else '': '' @ t)
   | SettlementUnknown transaction \<Rightarrow>
       ''settlement outcome unknown - the payment may have settled; do not re-sign'' @
         (case transaction of None \<Rightarrow> [] | Some t \<Rightarrow> if t = [] then [] else '' (tx '' @ t @ '')'')
   | DomainMismatch expected received \<Rightarrow> ''EIP-712 domain mismatch: expected '' @ expected @ '', got '' @ received
   | MalformedPayload field detail \<Rightarrow> ''malformed field '' @ [CHR 0x22] @ field @ [CHR 0x22] @
       (case detail of None \<Rightarrow> [] | Some d \<Rightarrow> if d = [] then [] else '': '' @ d))"

section \<open>What redaction removes\<close>

text \<open>Bearer material is a \<^verbatim>\<open>0x\<close> text with more digits than a 32-byte hash.\<close>

definition bearer_hex :: "string \<Rightarrow> bool" where
  "bearer_hex w \<longleftrightarrow> (\<exists>d. w = ''0x'' @ d \<and> length d = 65 \<and> list_all is_hex d)"

definition long_hex :: "string \<Rightarrow> bool" where
  "long_hex s \<longleftrightarrow> starts_with ''0x'' s \<and> 65 \<le> length (takeWhile is_hex (drop 2 s))"

lemma bearer_prefix: "bearer_hex w \<Longrightarrow> prefix w s \<Longrightarrow> long_hex s"
proof -
  assume "bearer_hex w" "prefix w s"
  then obtain d t where d: "s = ''0x'' @ d @ t" "length d = 65" "list_all is_hex d"
    by (auto simp: bearer_hex_def prefix_def)
  have "takeWhile is_hex (d @ t) = d @ takeWhile is_hex t"
    using d(3) by (simp add: takeWhile_append2 list_all_iff)
  then show ?thesis using d by (simp add: long_hex_def starts_with_def)
qed

lemma scrub_hex_Nil [simp]: "scrub_hex [] = []"
  by (simp add: scrub_hex.simps)

lemma scrub_hex_Cons: "scrub_hex (c # cs) = (if long_hex (c # cs)
   then ''0x<'' @ bytes_text (length (takeWhile is_hex (drop 2 (c # cs)))) @ '' bytes redacted>''
     @ scrub_hex (drop (length (takeWhile is_hex (drop 2 (c # cs))) + 2) (c # cs))
   else c # scrub_hex cs)"
  by (subst scrub_hex.simps) (auto simp: long_hex_def Let_def)

lemma not_hex_x [simp]: "\<not> is_hex CHR ''x''" by (simp add: char_class_defs)

lemma scrub_run: "length (takeWhile is_hex (scrub_hex s)) \<le> length (takeWhile is_hex s)"
proof (induction s)
  case (Cons c cs)
  show ?case
  proof (cases "long_hex (c # cs)")
    case True
    then have "c = CHR ''0''" by (simp add: long_hex_def starts_with_def)
    then show ?thesis using True by (simp add: scrub_hex_Cons char_class_defs)
  next
    case False
    then show ?thesis using Cons by (simp add: scrub_hex_Cons)
  qed
qed simp

lemma bytes_text_plain: "c \<in> set (bytes_text n) \<Longrightarrow> c \<noteq> CHR ''x''"
  using nat_dec_digits [of "n div 2"] by (auto simp: bytes_text_def list_all_iff is_digit_def char_between_def split: if_splits)

lemma long_hex_second: "long_hex (c # d # t) \<Longrightarrow> c = CHR ''0'' \<and> d = CHR ''x''" "\<not> long_hex [c]" "\<not> long_hex []"
  by (simp_all add: long_hex_def starts_with_def)

lemma no_long_append:
  assumes "CHR ''x'' \<notin> set w" and "w \<noteq> []" and "last w \<noteq> CHR ''0''" and "\<forall>k. \<not> long_hex (drop k s)"
  shows "\<not> long_hex (drop k (w @ s))"
proof -
  consider "length w \<le> k" | "drop k w = [last w]" | c d t where "drop k w = c # d # t"
  proof (cases "drop k w" rule: remdups_adj.cases)
    case (2 x)
    moreover from 2 have "last w = x" by (metis last_drop last_ConsL not_less drop_eq_Nil list.distinct(1))
    ultimately show thesis using that by simp
  qed (use that in auto)
  then show ?thesis
  proof cases
    case 1
    then show ?thesis using assms(4) by simp
  next
    case 2
    then have "k < length w" by (metis drop_eq_Nil list.distinct(1) not_less)
    then show ?thesis using 2 assms(3) long_hex_second(1) [of "last w" "hd s" "tl s"] long_hex_second(2) [of "last w"]
      by (cases s) auto
  next
    case 3
    then have "d \<in> set w" by (metis in_set_dropD list.set_intros(1) list.set_intros(2))
    moreover from 3 have "k < length w" by (metis drop_eq_Nil list.distinct(1) not_less)
    ultimately show ?thesis using 3 assms(1) long_hex_second(1) [of c d "t @ s"] by auto
  qed
qed

lemma scrub_hd: "scrub_hex s = [] \<or> s \<noteq> [] \<and> hd (scrub_hex s) = hd s"
  by (cases s) (auto simp: scrub_hex_Cons long_hex_def starts_with_def)

lemma scrub_step:
  assumes "\<not> long_hex (c # cs)" shows "\<not> long_hex (c # scrub_hex cs)"
proof
  assume l: "long_hex (c # scrub_hex cs)"
  then obtain r where r: "c = CHR ''0''" "scrub_hex cs = CHR ''x'' # r"
    using long_hex_second by (cases "scrub_hex cs") auto
  then obtain t where t: "cs = CHR ''x'' # t" using scrub_hd [of cs] by (cases cs) auto
  then have "r = scrub_hex t" using r by (simp add: scrub_hex_Cons long_hex_def starts_with_def)
  then have "length (takeWhile is_hex r) \<le> length (takeWhile is_hex t)" by (simp add: scrub_run)
  then show False using l assms r t by (simp add: long_hex_def starts_with_def)
qed

lemma scrub_clean: "\<not> long_hex (drop k (scrub_hex s))"
proof (induction s arbitrary: k rule: scrub_hex.induct)
  case (1 s)
  show ?case
  proof (cases s)
    case (Cons c cs)
    show ?thesis
    proof (cases "long_hex s")
      case True
      let ?n = "length (takeWhile is_hex (drop 2 s))"
      let ?w = "''0x<'' @ bytes_text ?n @ '' bytes redacted>''"
      let ?v = "CHR ''<'' # bytes_text ?n @ '' bytes redacted>''"
      have h: "starts_with ''0x'' s" "65 \<le> ?n" using True by (simp_all add: long_hex_def)
      then have rest: "\<forall>k. \<not> long_hex (drop k (scrub_hex (drop (?n + 2) s)))"
        using 1(1) [OF Cons refl] Cons by simp
      have v: "\<not> long_hex (drop j (?v @ scrub_hex (drop (?n + 2) s)))" for j
        using bytes_text_plain by (intro no_long_append rest) auto
      have e: "scrub_hex s = CHR ''0'' # CHR ''x'' # ?v @ scrub_hex (drop (?n + 2) s)"
        using True Cons by (simp add: scrub_hex_Cons)
      show ?thesis
      proof (cases k rule: nat.exhaust)
        case zero
        then show ?thesis unfolding e by (simp add: long_hex_def starts_with_def char_class_defs)
      next
        case (Suc j)
        then show ?thesis unfolding e using v [of "j - 1"] by (cases j) (simp_all add: long_hex_def starts_with_def)
      qed
    next
      case False
      then have "\<not> 65 \<le> (if starts_with ''0x'' s then length (takeWhile is_hex (drop 2 s)) else 0)"
        by (auto simp: long_hex_def)
      then have "\<not> long_hex (drop j (scrub_hex cs))" for j using 1(2) [OF Cons refl] by simp
      then show ?thesis using False Cons scrub_step [of c cs] by (cases k) (simp_all add: scrub_hex_Cons)
    qed
  qed (simp add: long_hex_def starts_with_def)
qed

lemma collapse_prefix: "prefix w (collapse_space s) \<Longrightarrow> \<forall>c \<in> set w. \<not> is_space c \<Longrightarrow> prefix w s"
proof (induction s arbitrary: w rule: collapse_space.induct)
  case (2 c)
  then show ?case by (cases w) (auto simp: is_space_def split: if_splits)
next
  case (3 c d cs)
  show ?case
  proof (cases w)
    case (Cons x v)
    have sp: "is_space CHR '' ''" by (simp add: is_space_def)
    show ?thesis
    proof (cases "is_space c")
      case True
      show ?thesis
      proof (cases "is_space d")
        case True
        then have "prefix w (d # cs)" using 3 \<open>is_space c\<close> by simp
        then show ?thesis using Cons 3(4) True by auto
      next
        case False
        then show ?thesis using 3(3,4) Cons sp True by auto
      qed
    next
      case False
      then show ?thesis using 3 Cons by auto
    qed
  qed simp
qed simp

lemma collapse_suffix: "\<exists>j. drop k (collapse_space s) = collapse_space (drop j s)"
proof (induction s arbitrary: k rule: collapse_space.induct)
  case (3 c d cs)
  show ?case
  proof (cases "is_space c \<and> is_space d")
    case True
    then obtain j where "drop k (collapse_space (d # cs)) = collapse_space (drop j (d # cs))" using 3 by blast
    then have "drop k (collapse_space (c # d # cs)) = collapse_space (drop (Suc j) (c # d # cs))" using True by simp
    then show ?thesis by blast
  next
    case False
    show ?thesis
    proof (cases k)
      case 0
      then have "drop k (collapse_space (c # d # cs)) = collapse_space (drop 0 (c # d # cs))" by simp
      then show ?thesis by blast
    next
      case (Suc l)
      obtain j where "drop l (collapse_space (d # cs)) = collapse_space (drop j (d # cs))" using 3(2) [OF False] by blast
      then have "drop k (collapse_space (c # d # cs)) = collapse_space (drop (Suc j) (c # d # cs))" using False Suc by auto
      then show ?thesis by blast
    qed
  qed
next
  case (2 c)
  show ?case
  proof (cases k)
    case 0 then show ?thesis by (intro exI [of _ 0]) simp
  next
    case (Suc l) then show ?thesis by (intro exI [of _ 1]) simp
  qed
qed simp

lemma sublist_drop: "sublist w s \<longleftrightarrow> (\<exists>k. prefix w (drop k s))"
proof
  assume "sublist w s"
  then obtain a b where "s = a @ w @ b" by (auto simp: sublist_def)
  then have "prefix w (drop (length a) s)" by simp
  then show "\<exists>k. prefix w (drop k s)" ..
next
  assume "\<exists>k. prefix w (drop k s)"
  then show "sublist w s" by (meson prefix_imp_sublist suffix_drop suffix_imp_sublist sublist_order.order_trans)
qed

lemma bearer_chars: "bearer_hex w \<Longrightarrow> c \<in> set w \<Longrightarrow> \<not> is_space c \<and> c \<notin> set ELLIPSIS"
proof -
  assume "bearer_hex w" "c \<in> set w"
  then have "c = CHR ''0'' \<or> c = CHR ''x'' \<or> is_hex c" by (auto simp: bearer_hex_def list_all_iff)
  then show ?thesis using hex_facts [of c] by (auto simp: is_space_def ELLIPSIS_def char_class_defs)
qed

lemma scrub_no_bearer: "bearer_hex w \<Longrightarrow> \<not> sublist w (scrub_hex s)"
  using bearer_prefix scrub_clean by (auto simp: sublist_drop)

lemma collapse_no_bearer: "bearer_hex w \<Longrightarrow> sublist w (collapse_space s) \<Longrightarrow> sublist w s"
  unfolding sublist_drop by (metis collapse_suffix collapse_prefix bearer_chars)

lemma trim_sublist: "sublist (trim s) s"
proof -
  have "suffix (dropWhile is_space s) s" by (metis suffix_dropWhile)
  moreover have "prefix (trim s) (dropWhile is_space s)"
    using suffix_dropWhile [of is_space "rev (dropWhile is_space s)"] by (simp add: trim_def suffix_to_prefix)
  ultimately show ?thesis by (meson prefix_imp_sublist suffix_imp_sublist sublist_order.order_trans)
qed

lemma ellipsis_no_bearer:
  assumes "bearer_hex w" and "sublist w (take n s @ ELLIPSIS)" shows "sublist w s"
proof -
  obtain k where k: "prefix w (drop k (take n s @ ELLIPSIS))" using assms(2) by (auto simp: sublist_drop)
  have dots: "set (drop j ELLIPSIS) \<subseteq> set ELLIPSIS" for j by (rule set_drop_subset)
  obtain d where w: "w = ''0x'' @ d" "length d = 65" using assms(1) by (auto simp: bearer_hex_def)
  have "prefix w (drop k (take n s))"
  proof -
    have "prefix w (drop k (take n s) @ drop (k - length (take n s)) ELLIPSIS)" using k by (simp add: drop_append)
    then obtain v where v: "w = drop k (take n s) @ v \<and> prefix v (drop (k - length (take n s)) ELLIPSIS) \<or> prefix w (drop k (take n s))"
      by (auto simp: prefix_append)
    moreover have "v = []" if "w = drop k (take n s) @ v" "prefix v (drop (k - length (take n s)) ELLIPSIS)"
    proof (rule ccontr)
      assume "v \<noteq> []"
      then have "hd v \<in> set w" "hd v \<in> set (drop (k - length (take n s)) ELLIPSIS)"
        using that set_mono_prefix by (fastforce, fastforce)
      then show False using dots bearer_chars [OF assms(1)] by fastforce
    qed
    ultimately show ?thesis by auto
  qed
  then have "sublist w (take n s)" by (auto simp: sublist_drop)
  then show ?thesis by (meson prefix_imp_sublist take_is_prefix sublist_order.order_trans)
qed

text \<open>C26: a log line carries no \<^verbatim>\<open>0x\<close> run longer than a hash. Whatever the thrown text and
  whatever the length limit, the line a redaction returns holds nowhere the characters \<^verbatim>\<open>0x\<close>
  followed by 65 hexadecimal digits, so no signed permission context and no calldata in the form the
  chain libraries print them; the later steps, collapsing white space, trimming and cutting, cannot put
  one together again. The same digits without \<^verbatim>\<open>0x\<close> are outside the pattern and pass
  (\<^verbatim>\<open>bare_hex_survives\<close>).\<close>

theorem redaction_hides_bearer:
  assumes "bearer_hex w"
  shows "\<not> sublist w (redactForLog parse raw maxLength)"
proof
  let ?t = "trim (collapse_space (scrub_hex (redactUrls parse raw)))"
  assume a: "sublist w (redactForLog parse raw maxLength)"
  have "sublist w ?t"
  proof (cases "maxLength < length ?t")
    case True
    then have "sublist w (take maxLength ?t @ ELLIPSIS)" using a by (simp only: redactForLog_def Let_def if_True)
    then show ?thesis by (rule ellipsis_no_bearer [OF assms])
  next
    case False
    then show ?thesis using a by (simp only: redactForLog_def Let_def if_False)
  qed
  then have "sublist w (collapse_space (scrub_hex (redactUrls parse raw)))"
    using trim_sublist sublist_order.order_trans by blast
  then show False using collapse_no_bearer [OF assms] scrub_no_bearer [OF assms] by blast
qed

lemma bearer_replicate: "n = 65 \<Longrightarrow> is_hex c \<Longrightarrow> bearer_hex (''0x'' @ replicate n c)"
  by (auto simp: bearer_hex_def list_all_iff)

theorem redaction_hides_bearer_witness:
  "\<not> sublist (''0x'' @ replicate 65 CHR ''7'') (redactForLog (\<lambda>_. None) (''0x'' @ replicate 100 CHR ''7'') 300)"
proof -
  have "bearer_hex (''0x'' @ replicate 65 CHR ''7'')"
    by (rule bearer_replicate) (simp_all add: char_class_defs)
  then show ?thesis by (rule redaction_hides_bearer)
qed

text \<open>A bare run of any length passes: the pattern wants the prefix.\<close>

lemma bare_hex_survives: "redactForLog (\<lambda>_. None) (replicate 200 CHR ''a'') 300 = replicate 200 CHR ''a''"
  by code_simp

end
