(* ===== verification/Json.thy ===== *)
theory Json
  imports Token Js_Text
begin

text \<open>
  \<^verbatim>\<open>JSON.stringify\<close> and \<^verbatim>\<open>JSON.parse\<close> of the language, as far as the sources use them: the
  header codec of \<^verbatim>\<open>packages/shared/src/x402.ts\<close>, the bodies the payment client reads and the
  redaction it runs over them. Text is held as its UTF-8 bytes, so an escape \<^verbatim>\<open>\uXXXX\<close> is read
  as the bytes of its code point; half of a surrogate pair on its own, which UTF-8 cannot hold,
  is read as U+FFFD. An object keeps the order of its properties.

  The spelling of a number that is no safe integer is the engine's: \<open>js_numbers\<close> holds it, and
  \<open>numbers_ok\<close> states what ECMAScript promises of it. A numeral too large for a double, which is
  read as \<^verbatim>\<open>Infinity\<close>, is outside the model.
\<close>

section \<open>Numbers\<close>

record js_numbers =
  num_ok :: "js \<Rightarrow> bool"
  num_text :: "js \<Rightarrow> string"
  num_read :: "string \<Rightarrow> js"

text \<open>\<^verbatim>\<open>-?(0|[1-9]\d*)(\.\d+)?([eE][+-]?\d+)?\<close>: the numeral a text begins with, and the rest.\<close>

definition scan_whole :: "string \<Rightarrow> (string \<times> string) option" where
  "scan_whole s = (case s of
     [] \<Rightarrow> None
   | c # t \<Rightarrow> if c = CHR ''0'' then Some ([c], t)
       else if is_digit c then Some (takeWhile is_digit s, dropWhile is_digit s) else None)"

definition scan_fraction :: "string \<Rightarrow> string \<times> string" where
  "scan_fraction s = (case s of
     [] \<Rightarrow> ([], s)
   | c # t \<Rightarrow> if c = CHR ''.'' \<and> takeWhile is_digit t \<noteq> [] then (c # takeWhile is_digit t, dropWhile is_digit t)
       else ([], s))"

definition scan_sign :: "string \<Rightarrow> string \<times> string" where
  "scan_sign s = (case s of [] \<Rightarrow> ([], s) | c # t \<Rightarrow> if c = CHR ''+'' \<or> c = CHR ''-'' then ([c], t) else ([], s))"

definition scan_exponent :: "string \<Rightarrow> string \<times> string" where
  "scan_exponent s = (case s of
     [] \<Rightarrow> ([], s)
   | c # t \<Rightarrow> if c = CHR ''e'' \<or> c = CHR ''E'' then
         (case scan_sign t of (g, u) \<Rightarrow>
            if takeWhile is_digit u \<noteq> [] then (c # g @ takeWhile is_digit u, dropWhile is_digit u) else ([], s))
       else ([], s))"

definition scan_minus :: "string \<Rightarrow> string \<times> string" where
  "scan_minus s = (case s of [] \<Rightarrow> ([], s) | c # t \<Rightarrow> if c = CHR ''-'' then ([c], t) else ([], s))"

definition scan_number :: "string \<Rightarrow> (string \<times> string) option" where
  "scan_number s =
     (case scan_minus s of (g, u) \<Rightarrow>
      case scan_whole u of
        None \<Rightarrow> None
      | Some (w, r) \<Rightarrow> (case scan_fraction r of (f, r1) \<Rightarrow> case scan_exponent r1 of (e, r2) \<Rightarrow> Some (g @ w @ f @ e, r2)))"

definition plain_integer :: "string \<Rightarrow> bool" where
  "plain_integer t \<longleftrightarrow> list_all (\<lambda>c. is_digit c \<or> c = CHR ''-'') t \<and> isSafeInteger (BigInt t)"

definition read_number :: "js_numbers \<Rightarrow> string \<Rightarrow> js" where
  "read_number nb t = (if plain_integer t then JNum (BigInt t) else num_read nb t)"

definition number_text :: "js_numbers \<Rightarrow> js \<Rightarrow> string" where
  "number_text nb x = (case x of JNum n \<Rightarrow> if isSafeInteger n then String n else num_text nb x | _ \<Rightarrow> num_text nb x)"

definition number_char :: "char \<Rightarrow> bool" where
  "number_char c \<longleftrightarrow> is_digit c \<or> c \<in> {CHR ''.'', CHR ''e'', CHR ''E'', CHR ''+'', CHR ''-''}"

definition numbers_ok :: "js_numbers \<Rightarrow> bool" where
  "numbers_ok nb \<longleftrightarrow> (\<forall>x. num_ok nb x \<longrightarrow>
     scan_number (num_text nb x) = Some (num_text nb x, []) \<and> \<not> plain_integer (num_text nb x) \<and>
     num_read nb (num_text nb x) = x) \<and>
   (\<forall>t. (\<exists>n. num_read nb t = JNum n \<and> (isSafeInteger n \<or> num_ok nb (JNum n))) \<or>
        (\<exists>q. num_read nb t = JFrac q \<and> num_ok nb (JFrac q)))"

section \<open>Strings\<close>

text \<open>A character as \<^verbatim>\<open>JSON.stringify\<close> quotes it.\<close>

definition BACKSLASH :: char where "BACKSLASH = CHR 0x5C"
definition QUOTE :: char where "QUOTE = CHR 0x22"

definition escape_char :: "char \<Rightarrow> string" where
  "escape_char c = (let n = of_char c :: nat in
     if c = QUOTE \<or> c = BACKSLASH then [BACKSLASH, c]
     else if 32 \<le> n then [c]
     else if n = 8 then [BACKSLASH, CHR ''b''] else if n = 9 then [BACKSLASH, CHR ''t'']
     else if n = 10 then [BACKSLASH, CHR ''n''] else if n = 12 then [BACKSLASH, CHR ''f'']
     else if n = 13 then [BACKSLASH, CHR ''r'']
     else [BACKSLASH, CHR ''u'', CHR ''0'', CHR ''0'', hex_char (n div 16), hex_char (n mod 16)])"

definition quote :: "string \<Rightarrow> string" where
  "quote s = QUOTE # concat (map escape_char s) @ [QUOTE]"

text \<open>The UTF-8 bytes of a code unit.\<close>

definition utf8_unit :: "nat \<Rightarrow> string" where
  "utf8_unit n =
     (if n < 0x80 then [char_of n]
      else if n < 0x800 then [char_of (0xC0 + n div 64), char_of (0x80 + n mod 64)]
      else if 0xD800 \<le> n \<and> n < 0xE000 then [CHR 0xEF, CHR 0xBF, CHR 0xBD]
      else if n < 0x10000 then [char_of (0xE0 + n div 4096), char_of (0x80 + n div 64 mod 64), char_of (0x80 + n mod 64)]
      else [char_of (0xF0 + n div 262144), char_of (0x80 + n div 4096 mod 64), char_of (0x80 + n div 64 mod 64),
            char_of (0x80 + n mod 64)])"

definition simple_escape :: "char \<Rightarrow> char option" where
  "simple_escape e = (if e = QUOTE \<or> e = BACKSLASH \<or> e = CHR ''/'' then Some e
     else if e = CHR ''b'' then Some (CHR 0x08) else if e = CHR ''f'' then Some (CHR 0x0C)
     else if e = CHR ''n'' then Some (CHR 0x0A) else if e = CHR ''r'' then Some (CHR 0x0D)
     else if e = CHR ''t'' then Some (CHR 0x09) else None)"

text \<open>\<^verbatim>\<open>XXXX\<close> after \<^verbatim>\<open>\u\<close>, and the low half that may follow a high one.\<close>

definition hex4 :: "string \<Rightarrow> nat option" where
  "hex4 s = (if 4 \<le> length s \<and> list_all is_hex (take 4 s) then Some (nat (hex_value (take 4 s))) else None)"

definition low_half :: "string \<Rightarrow> nat option" where
  "low_half s = (if starts_with [BACKSLASH, CHR ''u''] s
     then (case hex4 (drop 2 s) of Some n \<Rightarrow> if 0xDC00 \<le> n \<and> n < 0xE000 then Some n else None | None \<Rightarrow> None) else None)"

text \<open>A \<^verbatim>\<open>\u\<close> escape, read behind the \<^verbatim>\<open>u\<close>: its bytes and how many characters it took.\<close>

definition unicode_escape :: "string \<Rightarrow> (string \<times> nat) option" where
  "unicode_escape s = (case hex4 s of
     None \<Rightarrow> None
   | Some n \<Rightarrow>
       (if 0xD800 \<le> n \<and> n < 0xDC00 then
          (case low_half (drop 4 s) of
             Some m \<Rightarrow> Some (utf8_unit (0x10000 + (n - 0xD800) * 1024 + (m - 0xDC00)), 10)
           | None \<Rightarrow> Some (utf8_unit n, 4))
        else Some (utf8_unit n, 4)))"

text \<open>The characters of a string up to its closing quote, and the text behind it.\<close>

function json_chars :: "string \<Rightarrow> (string \<times> string) option" where
  "json_chars s = (case s of
     [] \<Rightarrow> None
   | c # t \<Rightarrow>
       if c = QUOTE then Some ([], t)
       else if c = BACKSLASH then
         (case t of
            [] \<Rightarrow> None
          | e # r \<Rightarrow>
              if e = CHR ''u'' then
                (case unicode_escape r of
                   None \<Rightarrow> None
                 | Some (b, n) \<Rightarrow> map_option (\<lambda>(w, z). (b @ w, z)) (json_chars (drop n r)))
              else (case simple_escape e of
                  None \<Rightarrow> None
                | Some x \<Rightarrow> map_option (\<lambda>(w, z). (x # w, z)) (json_chars r)))
       else if (of_char c :: nat) < 32 then None
       else map_option (\<lambda>(w, z). (c # w, z)) (json_chars t))"
  by pat_completeness auto
termination by (relation "measure length") auto

declare json_chars.simps [simp del]

section \<open>Printing\<close>

function json_text :: "js_numbers \<Rightarrow> js \<Rightarrow> string" where
  "json_text nb JUndefined = ''null''"
| "json_text nb JNull = ''null''"
| "json_text nb (JBool b) = (if b then ''true'' else ''false'')"
| "json_text nb (JNum n) = number_text nb (JNum n)"
| "json_text nb (JFrac q) = number_text nb (JFrac q)"
| "json_text nb (JBigint n) = []"
| "json_text nb (JString s) = quote s"
| "json_text nb (JArray xs) = ''['' @ join_with '','' (map (json_text nb) xs) @ '']''"
| "json_text nb (JObject fs) = ''{'' @ join_with '',''
     (map (\<lambda>(k, x). quote k @ '':'' @ json_text nb x) (filter (\<lambda>(k, x). x \<noteq> JUndefined) fs)) @ ''}''"
  by pat_completeness auto
termination
proof (relation "measure (\<lambda>(_, x). size x)", goal_cases)
  case (2 nb xs x)
  then show ?case by (simp add: size_list_estimation' less_Suc_eq_le)
next
  case (3 nb fs p k x)
  then have "(k, x) \<in> set fs" by auto
  then have "size x \<le> size_list (size_prod (\<lambda>_. 0) size) fs"
    by (intro size_list_estimation' [of "(k, x)"]) auto
  then show ?case by simp
qed auto

text \<open>\<^verbatim>\<open>JSON.stringify\<close> throws on a bigint wherever it stands.\<close>

fun serialisable :: "js \<Rightarrow> bool" where
  "serialisable (JBigint _) = False"
| "serialisable (JArray xs) = list_all serialisable xs"
| "serialisable (JObject fs) = list_all (\<lambda>(k, x). serialisable x) fs"
| "serialisable _ = True"

section \<open>Parsing\<close>

definition json_space :: "char \<Rightarrow> bool" where
  "json_space c \<longleftrightarrow> of_char c \<in> {32, 9, 10, 13 :: nat}"

abbreviation skip_ws :: "string \<Rightarrow> string" where
  "skip_ws \<equiv> dropWhile json_space"

definition eat :: "char \<Rightarrow> string \<Rightarrow> string option" where
  "eat c s = (case skip_ws s of [] \<Rightarrow> None | d # t \<Rightarrow> if d = c then Some t else None)"

text \<open>A property set again keeps its place and takes the new value.\<close>

fun put_field :: "string \<Rightarrow> js \<Rightarrow> (string \<times> js) list \<Rightarrow> (string \<times> js) list" where
  "put_field k x [] = [(k, x)]"
| "put_field k x (p # ps) = (if fst p = k then (k, x) # ps else p # put_field k x ps)"

text \<open>The literals and the numbers.\<close>

definition json_scalar :: "js_numbers \<Rightarrow> string \<Rightarrow> (js \<times> string) option" where
  "json_scalar nb s =
     (if starts_with ''true'' s then Some (JBool True, drop 4 s)
      else if starts_with ''false'' s then Some (JBool False, drop 5 s)
      else if starts_with ''null'' s then Some (JNull, drop 4 s)
      else (case scan_number s of None \<Rightarrow> None | Some (t, r) \<Rightarrow> Some (read_number nb t, r)))"

text \<open>
  The recursive descent, on fuel: every level and every element takes at most two units and at
  least one character.
\<close>

fun json_value :: "js_numbers \<Rightarrow> nat \<Rightarrow> string \<Rightarrow> (js \<times> string) option"
and json_items :: "js_numbers \<Rightarrow> nat \<Rightarrow> js list \<Rightarrow> string \<Rightarrow> (js list \<times> string) option"
and json_fields :: "js_numbers \<Rightarrow> nat \<Rightarrow> (string \<times> js) list \<Rightarrow> string \<Rightarrow> ((string \<times> js) list \<times> string) option" where
  "json_value nb 0 s = None"
| "json_value nb (Suc n) s =
     (case eat QUOTE s of
        Some t \<Rightarrow> map_option (\<lambda>(w, r). (JString w, r)) (json_chars t)
      | None \<Rightarrow> (case eat CHR ''['' s of
          Some t \<Rightarrow> (case eat CHR '']'' t of
              Some r \<Rightarrow> Some (JArray [], r)
            | None \<Rightarrow> map_option (\<lambda>(xs, r). (JArray xs, r)) (json_items nb n [] t))
        | None \<Rightarrow> (case eat CHR ''{'' s of
            Some t \<Rightarrow> (case eat CHR ''}'' t of
                Some r \<Rightarrow> Some (JObject [], r)
              | None \<Rightarrow> map_option (\<lambda>(fs, r). (JObject fs, r)) (json_fields nb n [] t))
          | None \<Rightarrow> json_scalar nb (skip_ws s))))"
| "json_items nb 0 acc s = None"
| "json_items nb (Suc n) acc s =
     (case json_value nb n s of
        None \<Rightarrow> None
      | Some (x, r) \<Rightarrow> (case eat CHR '','' r of
          Some t \<Rightarrow> json_items nb n (acc @ [x]) t
        | None \<Rightarrow> (case eat CHR '']'' r of Some t \<Rightarrow> Some (acc @ [x], t) | None \<Rightarrow> None)))"
| "json_fields nb 0 acc s = None"
| "json_fields nb (Suc n) acc s =
     (case eat QUOTE s of
        None \<Rightarrow> None
      | Some t \<Rightarrow> (case json_chars t of
          None \<Rightarrow> None
        | Some (k, r) \<Rightarrow> (case eat CHR '':'' r of
            None \<Rightarrow> None
          | Some u \<Rightarrow> (case json_value nb n u of
              None \<Rightarrow> None
            | Some (x, z) \<Rightarrow> (case eat CHR '','' z of
                Some z' \<Rightarrow> json_fields nb n (put_field k x acc) z'
              | None \<Rightarrow> (case eat CHR ''}'' z of Some z' \<Rightarrow> Some (put_field k x acc, z') | None \<Rightarrow> None))))))"

definition json_parse :: "js_numbers \<Rightarrow> string \<Rightarrow> js option" where
  "json_parse nb s = (case json_value nb (2 * length s + 1) s of
     Some (x, r) \<Rightarrow> if skip_ws r = [] then Some x else None
   | None \<Rightarrow> None)"

text \<open>What \<^verbatim>\<open>JSON.parse\<close> returns: no undefined, no bigint, every property once.\<close>

fun json_doc :: "js_numbers \<Rightarrow> js \<Rightarrow> bool" where
  "json_doc nb JUndefined = False"
| "json_doc nb JNull = True"
| "json_doc nb (JBool b) = True"
| "json_doc nb (JNum n) = (isSafeInteger n \<or> num_ok nb (JNum n))"
| "json_doc nb (JFrac q) = num_ok nb (JFrac q)"
| "json_doc nb (JBigint n) = False"
| "json_doc nb (JString s) = True"
| "json_doc nb (JArray xs) = list_all (json_doc nb) xs"
| "json_doc nb (JObject fs) = (distinct (map fst fs) \<and> list_all (\<lambda>(k, x). json_doc nb x) fs)"

section \<open>A printed value is read back\<close>

lemma BACKSLASH_facts [simp]: "BACKSLASH \<noteq> QUOTE" "QUOTE \<noteq> BACKSLASH"
    "QUOTE \<noteq> CHR ''u''" "BACKSLASH \<noteq> CHR ''u''"
  by (simp_all add: BACKSLASH_def QUOTE_def)

lemma json_chars_close [simp]: "json_chars (QUOTE # r) = Some ([], r)"
  by (simp add: json_chars.simps)

lemma json_chars_plain:
  assumes "c \<noteq> QUOTE" "c \<noteq> BACKSLASH" "32 \<le> (of_char c :: nat)"
  shows "json_chars (c # t) = map_option (\<lambda>(w, z). (c # w, z)) (json_chars t)"
  using assms by (subst json_chars.simps) simp

lemma json_chars_simple:
  assumes "simple_escape e = Some x" "e \<noteq> CHR ''u''"
  shows "json_chars (BACKSLASH # e # t) = map_option (\<lambda>(w, z). (x # w, z)) (json_chars t)"
  using assms by (subst json_chars.simps) simp

lemma json_chars_unicode:
  assumes "unicode_escape r = Some (b, n)"
  shows "json_chars (BACKSLASH # CHR ''u'' # r) = map_option (\<lambda>(w, z). (b @ w, z)) (json_chars (drop n r))"
  using assms by (subst json_chars.simps) simp

lemma hex4_control:
  assumes "n < 32"
  shows "hex4 (CHR ''0'' # CHR ''0'' # hex_char (n div 16) # hex_char (n mod 16) # r) = Some n"
proof -
  have z: "is_hex CHR ''0''" "hex_digit_value CHR ''0'' = 0" by (simp_all add: char_class_defs hex_digit_value_def)
  have h: "is_hex (hex_char (n div 16))" "is_hex (hex_char (n mod 16))"
    "hex_digit_value (hex_char (n div 16)) = n div 16" "hex_digit_value (hex_char (n mod 16)) = n mod 16"
    using assms by (auto intro!: hex_char_facts)
  show ?thesis by (simp add: hex4_def z h hex_value_def)
qed

lemma unicode_escape_control:
  "n < 32 \<Longrightarrow>
     unicode_escape (CHR ''0'' # CHR ''0'' # hex_char (n div 16) # hex_char (n mod 16) # r) = Some ([char_of n], 4)"
  by (simp add: unicode_escape_def utf8_unit_def hex4_control)

lemma json_chars_escape:
  "json_chars (escape_char c @ t) = map_option (\<lambda>(w, z). (c # w, z)) (json_chars t)"
proof -
  let ?n = "of_char c :: nat"
  have simple: "simple_escape QUOTE = Some QUOTE" "simple_escape BACKSLASH = Some BACKSLASH"
    "simple_escape CHR ''b'' = Some (CHR 0x08)" "simple_escape CHR ''t'' = Some (CHR 0x09)"
    "simple_escape CHR ''n'' = Some (CHR 0x0A)" "simple_escape CHR ''f'' = Some (CHR 0x0C)"
    "simple_escape CHR ''r'' = Some (CHR 0x0D)"
    by (simp_all add: simple_escape_def QUOTE_def BACKSLASH_def)
  consider "c = QUOTE \<or> c = BACKSLASH" | "c \<noteq> QUOTE" "c \<noteq> BACKSLASH" "32 \<le> ?n"
    | "?n \<in> {8, 9, 10, 12, 13}" | "?n < 32" "?n \<notin> {8, 9, 10, 12, 13}" "c \<noteq> QUOTE" "c \<noteq> BACKSLASH"
    by linarith
  then show ?thesis
  proof cases
    case 1
    then show ?thesis using simple by (auto simp: escape_char_def json_chars_simple)
  next
    case 2
    then show ?thesis by (simp add: escape_char_def json_chars_plain)
  next
    case 3
    then have "?n = of_char (CHR 0x08) \<or> ?n = of_char (CHR 0x09) \<or> ?n = of_char (CHR 0x0A) \<or>
        ?n = of_char (CHR 0x0C) \<or> ?n = of_char (CHR 0x0D)" by simp
    then have "c \<in> {CHR 0x08, CHR 0x09, CHR 0x0A, CHR 0x0C, CHR 0x0D}"
      by (simp only: of_char_eq_iff insert_iff) simp
    then have "c = CHR 0x08 \<and> escape_char c = [BACKSLASH, CHR ''b''] \<or> c = CHR 0x09 \<and> escape_char c = [BACKSLASH, CHR ''t''] \<or>
        c = CHR 0x0A \<and> escape_char c = [BACKSLASH, CHR ''n''] \<or> c = CHR 0x0C \<and> escape_char c = [BACKSLASH, CHR ''f''] \<or>
        c = CHR 0x0D \<and> escape_char c = [BACKSLASH, CHR ''r'']"
      by (auto simp: escape_char_def QUOTE_def BACKSLASH_def)
    then show ?thesis using simple by (auto simp: json_chars_simple)
  next
    case 4
    then have e: "escape_char c @ t = BACKSLASH # CHR ''u'' # CHR ''0'' # CHR ''0'' # hex_char (?n div 16) # hex_char (?n mod 16) # t"
      by (simp add: escape_char_def Let_def)
    show ?thesis unfolding e
      using json_chars_unicode [OF unicode_escape_control [OF 4(1)]] by simp
  qed
qed

lemma json_chars_quote: "json_chars (concat (map escape_char s) @ QUOTE # r) = Some (s, r)"
  by (induction s) (simp_all add: json_chars_escape)

text \<open>What may follow a numeral.\<close>

definition follow :: "string \<Rightarrow> bool" where
  "follow r \<longleftrightarrow> (case r of [] \<Rightarrow> True | c # _ \<Rightarrow> \<not> number_char c)"

lemma follow_digits:
  assumes "follow r"
  shows "takeWhile is_digit (u @ r) = takeWhile is_digit u" "dropWhile is_digit (u @ r) = dropWhile is_digit u @ r"
proof -
  have r: "takeWhile is_digit r = []" "dropWhile is_digit r = r"
    using assms by (cases r; simp add: follow_def number_char_def)+
  show "takeWhile is_digit (u @ r) = takeWhile is_digit u" by (induction u) (simp_all add: r)
  show "dropWhile is_digit (u @ r) = dropWhile is_digit u @ r" by (induction u) (simp_all add: r)
qed

lemma follow_scan:
  assumes "follow r"
  shows "scan_whole (u @ r) = map_option (\<lambda>(w, z). (w, z @ r)) (scan_whole u)"
    and "scan_fraction (u @ r) = (case scan_fraction u of (w, z) \<Rightarrow> (w, z @ r))"
    and "scan_sign (u @ r) = (case scan_sign u of (w, z) \<Rightarrow> (w, z @ r))"
    and "scan_exponent (u @ r) = (case scan_exponent u of (w, z) \<Rightarrow> (w, z @ r))"
proof -
  note digits = follow_digits [OF assms]
  have z: "is_digit CHR ''0''" by (simp add: char_class_defs)
  have hd: "\<not> number_char c" if "r = c # t" for c t using assms that by (simp add: follow_def)
  show "scan_whole (u @ r) = map_option (\<lambda>(w, z). (w, z @ r)) (scan_whole u)"
  proof (cases u)
    case Nil
    then show ?thesis using hd z by (cases r) (auto simp: scan_whole_def number_char_def)
  next
    case (Cons c t)
    then show ?thesis using digits [of t] by (simp add: scan_whole_def)
  qed
  show "scan_fraction (u @ r) = (case scan_fraction u of (w, z) \<Rightarrow> (w, z @ r))"
  proof (cases u)
    case Nil
    then show ?thesis using hd by (cases r) (auto simp: scan_fraction_def number_char_def)
  next
    case (Cons c t)
    then show ?thesis using digits [of t] by (simp add: scan_fraction_def)
  qed
  show sign: "scan_sign (u @ r) = (case scan_sign u of (w, z) \<Rightarrow> (w, z @ r))" for u
  proof (cases u)
    case Nil
    then show ?thesis using hd by (cases r) (auto simp: scan_sign_def number_char_def)
  next
    case (Cons c t)
    then show ?thesis by (simp add: scan_sign_def)
  qed
  show "scan_exponent (u @ r) = (case scan_exponent u of (w, z) \<Rightarrow> (w, z @ r))"
  proof (cases u)
    case Nil
    then show ?thesis using hd by (cases r) (auto simp: scan_exponent_def number_char_def)
  next
    case (Cons c t)
    obtain g w where "scan_sign t = (g, w)" by fastforce
    then show ?thesis using Cons sign [of t] digits [of w] by (simp add: scan_exponent_def)
  qed
qed

lemma scan_number_follow:
  assumes "follow r" "scan_number u = Some (t, z)"
  shows "scan_number (u @ r) = Some (t, z @ r)"
proof -
  have u: "u \<noteq> []" using assms(2) by (auto simp: scan_number_def scan_whole_def scan_minus_def)
  then have m: "scan_minus (u @ r) = (case scan_minus u of (g, v) \<Rightarrow> (g, v @ r))"
    by (cases u) (simp_all add: scan_minus_def)
  obtain g v where g: "scan_minus u = (g, v)" by fastforce
  obtain w r0 where w: "scan_whole v = Some (w, r0)" using assms(2) by (auto simp: scan_number_def g split: option.splits)
  obtain f r1 where f: "scan_fraction r0 = (f, r1)" by fastforce
  obtain e r2 where e: "scan_exponent r1 = (e, r2)" by fastforce
  show ?thesis using assms(2) by (simp add: scan_number_def m g w f e follow_scan [OF assms(1)])
qed

lemma scan_digits:
  assumes "list_all is_digit (c # s)" "c = CHR ''0'' \<longrightarrow> s = []"
  shows "scan_whole (c # s) = Some (c # s, [])"
proof -
  have "takeWhile is_digit s = s" "dropWhile is_digit s = []"
    using assms by (auto simp: takeWhile_eq_all_conv list_all_iff dropWhile_eq_Nil_conv)
  then show ?thesis using assms by (simp add: scan_whole_def)
qed

lemma scan_number_String: "scan_number (String i) = Some (String i, [])"
proof -
  have dec: "scan_whole (nat_dec n) = Some (nat_dec n, [])" for n
  proof (cases "nat_dec n")
    case Nil
    then show ?thesis by simp
  next
    case (Cons c s)
    have "list_all is_digit (c # s)" using nat_dec_digits [of n] Cons by simp
    moreover have "c = CHR ''0'' \<longrightarrow> s = []"
    proof (cases "n = 0")
      case True
      then show ?thesis using Cons by (simp add: nat_dec.simps)
    next
      case False
      then show ?thesis using hd_nat_dec_nonzero [of n] Cons by simp
    qed
    ultimately show ?thesis using Cons scan_digits by simp
  qed
  have nil: "scan_fraction [] = ([], [])" "scan_exponent [] = ([], [])"
    by (simp_all add: scan_fraction_def scan_exponent_def)
  obtain c s where c: "nat_dec (nat i) = c # s" by (cases "nat_dec (nat i)") auto
  have "c \<noteq> CHR ''-''" using hd_nat_dec_not_minus [of "nat i"] c by simp
  then show ?thesis using c dec [of "nat i"] dec [of "nat (- i)"]
    by (cases "i < 0") (simp_all add: scan_number_def scan_minus_def String_def nil)
qed

lemma String_number_chars: "list_all (\<lambda>c. is_digit c \<or> c = CHR ''-'') (String i)"
  using nat_dec_digits [of "nat i"] nat_dec_digits [of "nat (- i)"] by (auto simp: String_def list_all_iff)

lemma plain_String: "isSafeInteger i \<Longrightarrow> plain_integer (String i)"
  by (simp add: plain_integer_def String_number_chars)

text \<open>A number is read back, whatever follows it.\<close>

lemma scan_number_text:
  assumes "numbers_ok nb" "json_doc nb x" "follow r" "x = JNum n \<or> x = JFrac q"
  shows "scan_number (number_text nb x @ r) = Some (number_text nb x, r)" "read_number nb (number_text nb x) = x"
proof -
  have "scan_number (number_text nb x) = Some (number_text nb x, []) \<and> read_number nb (number_text nb x) = x"
  proof (cases "\<exists>n. x = JNum n \<and> isSafeInteger n")
    case True
    then show ?thesis by (auto simp: number_text_def scan_number_String read_number_def plain_String)
  next
    case False
    then have "num_ok nb x" "number_text nb x = num_text nb x" using assms by (auto simp: number_text_def)
    then show ?thesis using assms(1) by (simp add: numbers_ok_def read_number_def)
  qed
  then show "scan_number (number_text nb x @ r) = Some (number_text nb x, r)" "read_number nb (number_text nb x) = x"
    using scan_number_follow [OF assms(3)] by auto
qed

lemma scan_first:
  assumes "scan_number s = Some p" shows "s \<noteq> []" "is_digit (hd s) \<or> hd s = CHR ''-''"
  using assms by (cases s; auto simp: scan_number_def scan_minus_def scan_whole_def is_digit_def char_between_def split: if_splits)+

lemma eat_simps [simp]:
  "\<not> json_space c \<Longrightarrow> eat d (c # t) = (if c = d then Some t else None)"
  "eat d [] = None"
  by (simp_all add: eat_def)

lemma json_space_facts [simp]:
  "\<not> json_space CHR ''['' " "\<not> json_space CHR '']''" "\<not> json_space CHR ''{''" "\<not> json_space CHR ''}''"
  "\<not> json_space CHR '',''" "\<not> json_space CHR '':''" "\<not> json_space QUOTE" "\<not> json_space CHR ''t''"
  "\<not> json_space CHR ''f''" "\<not> json_space CHR ''n''" "\<not> json_space CHR ''-''" "is_digit c \<Longrightarrow> \<not> json_space c"
  by (auto simp: json_space_def QUOTE_def char_class_defs)

lemma quote_chars [simp]: "QUOTE \<noteq> CHR ''[''" "QUOTE \<noteq> CHR ''{''" "QUOTE \<noteq> CHR '']''" "QUOTE \<noteq> CHR ''}''"
  "CHR ''['' \<noteq> QUOTE" "CHR ''{'' \<noteq> QUOTE" "CHR '']'' \<noteq> QUOTE" "CHR ''}'' \<noteq> QUOTE" "CHR ''t'' \<noteq> QUOTE" "CHR ''f'' \<noteq> QUOTE" "CHR ''n'' \<noteq> QUOTE"
  "\<not> is_digit QUOTE" "CHR ''-'' \<noteq> QUOTE" "\<not> is_digit CHR ''[''" "\<not> is_digit CHR ''{''"
  by (simp_all add: QUOTE_def char_class_defs)

lemma value_number:
  assumes "numbers_ok nb" "json_doc nb x" "follow r" "x = JNum n \<or> x = JFrac q"
  shows "json_value nb (Suc m) (number_text nb x @ r) = Some (x, r)"
proof -
  note s = scan_number_text [OF assms]
  obtain c t where c: "number_text nb x @ r = c # t" "is_digit c \<or> c = CHR ''-''"
    using scan_first [OF s(1)] by (cases "number_text nb x @ r") auto
  then have "\<not> json_space c" "c \<noteq> QUOTE" "c \<noteq> CHR ''[''" "c \<noteq> CHR ''{''" "c \<noteq> CHR ''t''" "c \<noteq> CHR ''f''" "c \<noteq> CHR ''n''"
    by (auto simp: QUOTE_def char_class_defs)
  then show ?thesis using s c(1) by (simp add: json_scalar_def starts_with_def)
qed

text \<open>The literals.\<close>

lemma value_literals:
  "json_value nb (Suc m) (''null'' @ r) = Some (JNull, r)"
  "json_value nb (Suc m) (''true'' @ r) = Some (JBool True, r)"
  "json_value nb (Suc m) (''false'' @ r) = Some (JBool False, r)"
  by (simp_all add: json_scalar_def starts_with_def)

lemma value_string: "json_value nb (Suc m) (quote s @ r) = Some (JString s, r)"
  by (simp add: quote_def json_chars_quote)

lemma items_read:
  assumes "\<And>x m r. x \<in> set xs \<Longrightarrow> follow r \<Longrightarrow> 2 * length (json_text nb x) \<le> m \<Longrightarrow>
      json_value nb (Suc m) (json_text nb x @ r) = Some (x, r)"
    and "xs \<noteq> []" "2 * length (join_with '','' (map (json_text nb) xs)) + 2 \<le> m"
  shows "json_items nb m acc (join_with '','' (map (json_text nb) xs) @ CHR '']'' # r) = Some (acc @ xs, r)"
  using assms
proof (induction xs arbitrary: m acc)
  case Nil
  then show ?case by simp
next
  case (Cons x xs)
  have nc: "follow (CHR '','' # t)" "follow (CHR '']'' # t)" for t
    by (simp_all add: follow_def number_char_def char_class_defs)
  define k where "k = m - 2"
  then have k: "m = Suc (Suc k)" using Cons.prems(3) by simp
  show ?case
  proof (cases xs)
    case Nil
    have "json_value nb (Suc k) (json_text nb x @ CHR '']'' # r) = Some (x, CHR '']'' # r)"
      using Cons.prems k Nil nc by simp
    then show ?thesis using Nil k by simp
  next
    case (Cons y ys)
    let ?rest = "join_with '','' (map (json_text nb) xs)"
    have join: "join_with '','' (map (json_text nb) (x # xs)) = json_text nb x @ CHR '','' # ?rest"
      using Cons by simp
    have "json_value nb (Suc k) (json_text nb x @ CHR '','' # ?rest @ CHR '']'' # r) = Some (x, CHR '','' # ?rest @ CHR '']'' # r)"
      by (rule Cons.prems(1)) (use Cons.prems(3) k nc join in simp_all)
    moreover have "json_items nb (Suc k) (acc @ [x]) (?rest @ CHR '']'' # r) = Some ((acc @ [x]) @ xs, r)"
      by (rule Cons.IH) (use Cons.prems k join Cons in simp_all)
    ultimately show ?thesis using join k by simp
  qed
qed

lemma put_field_fresh: "k \<notin> fst ` set fs \<Longrightarrow> put_field k x fs = fs @ [(k, x)]"
  by (induction fs) auto

definition field_text :: "js_numbers \<Rightarrow> string \<times> js \<Rightarrow> string" where
  "field_text nb p = quote (fst p) @ CHR '':'' # json_text nb (snd p)"

lemma doc_defined: "json_doc nb x \<Longrightarrow> x \<noteq> JUndefined" by auto

lemma json_text_object:
  assumes "list_all (\<lambda>(k, x). json_doc nb x) fs"
  shows "json_text nb (JObject fs) = CHR ''{'' # join_with '','' (map (field_text nb) fs) @ ''}''"
proof -
  have "filter (\<lambda>(k, x). x \<noteq> JUndefined) fs = fs"
    using assms by (auto simp: filter_id_conv list_all_iff)
  moreover have "(\<lambda>(k, x). quote k @ '':'' @ json_text nb x) = field_text nb"
    by (auto simp: field_text_def fun_eq_iff)
  ultimately show ?thesis by simp
qed

lemma fields_read:
  assumes "\<And>p m r. p \<in> set fs \<Longrightarrow> follow r \<Longrightarrow> 2 * length (json_text nb (snd p)) \<le> m \<Longrightarrow>
      json_value nb (Suc m) (json_text nb (snd p) @ r) = Some (snd p, r)"
    and "fs \<noteq> []" "2 * length (join_with '','' (map (field_text nb) fs)) + 2 \<le> m"
    and "distinct (map fst (acc @ fs))"
  shows "json_fields nb m acc (join_with '','' (map (field_text nb) fs) @ CHR ''}'' # r) = Some (acc @ fs, r)"
  using assms
proof (induction fs arbitrary: m acc)
  case Nil
  then show ?case by simp
next
  case (Cons p fs)
  have nc: "follow (CHR '','' # t)" "follow (CHR ''}'' # t)" for t
    by (simp_all add: follow_def number_char_def char_class_defs)
  obtain kk x where p: "p = (kk, x)" by fastforce
  have put: "put_field kk x acc = acc @ [p]" using Cons.prems(4) p by (simp add: put_field_fresh)
  define k where "k = m - 2"
  then have k: "m = Suc (Suc k)" using Cons.prems(3) by simp
  have chars: "json_chars (concat (map escape_char kk) @ QUOTE # CHR '':'' # t) = Some (kk, CHR '':'' # t)" for t
    by (rule json_chars_quote)
  show ?case
  proof (cases fs)
    case Nil
    have "json_value nb (Suc k) (json_text nb x @ CHR ''}'' # r) = Some (x, CHR ''}'' # r)"
      using Cons.prems(1) [of p "CHR ''}'' # r" k] Cons.prems(3) k Nil nc p by (simp add: field_text_def)
    then show ?thesis using Nil k put p by (simp add: field_text_def quote_def chars)
  next
    case (Cons y ys)
    let ?rest = "join_with '','' (map (field_text nb) fs)"
    have join: "join_with '','' (map (field_text nb) (p # fs)) = quote kk @ CHR '':'' # json_text nb x @ CHR '','' # ?rest"
      using Cons p by (simp add: field_text_def)
    have "json_value nb (Suc k) (json_text nb x @ CHR '','' # ?rest @ CHR ''}'' # r) = Some (x, CHR '','' # ?rest @ CHR ''}'' # r)"
      using Cons.prems(1) [of p "CHR '','' # ?rest @ CHR ''}'' # r" k] Cons.prems(3) k nc join p by simp
    moreover have "json_fields nb (Suc k) (acc @ [p]) (?rest @ CHR ''}'' # r) = Some ((acc @ [p]) @ fs, r)"
      by (rule Cons.IH) (use Cons.prems k join Cons in simp_all)
    ultimately show ?thesis using join k put by (simp add: quote_def chars)
  qed
qed

lemma first_char:
  assumes "numbers_ok nb" "json_doc nb x"
  shows "\<exists>c t. json_text nb x = c # t \<and> \<not> json_space c \<and> c \<noteq> CHR '']''"
proof (cases x)
  case (JNum n)
  then show ?thesis using scan_first [OF scan_number_text(1) [OF assms, of "[]"]]
    by (cases "json_text nb x") (auto simp: follow_def char_class_defs)
next
  case (JFrac q)
  then show ?thesis using scan_first [OF scan_number_text(1) [OF assms, of "[]"]]
    by (cases "json_text nb x") (auto simp: follow_def char_class_defs)
next
  case (JObject fs)
  then show ?thesis using assms by (simp add: json_text_object)
qed (use assms in \<open>auto simp: quote_def\<close>)

lemma json_value_text:
  assumes "numbers_ok nb" "json_doc nb x" "follow r" "2 * length (json_text nb x) \<le> m"
  shows "json_value nb (Suc m) (json_text nb x @ r) = Some (x, r)"
  using assms(2-)
proof (induction x arbitrary: r m)
  case (JArray xs)
  show ?case
  proof (cases xs)
    case Nil
    then show ?thesis by simp
  next
    case (Cons y ys)
    obtain c t where c: "json_text nb y = c # t" "\<not> json_space c" "c \<noteq> CHR '']''"
      using first_char [OF assms(1), of y] JArray.prems(1) Cons by auto
    let ?j = "join_with '','' (map (json_text nb) xs)"
    obtain u where u: "?j = c # u" using c Cons by (cases ys) auto
    have "json_items nb m [] (?j @ CHR '']'' # r) = Some ([] @ xs, r)"
    proof (rule items_read)
      show "json_value nb (Suc k) (json_text nb z @ q) = Some (z, q)"
        if "z \<in> set xs" "follow q" "2 * length (json_text nb z) \<le> k" for z k q
        using JArray.IH [OF that(1) _ that(2,3)] JArray.prems(1) that(1) by (simp add: list_all_iff)
    qed (use JArray.prems Cons in simp_all)
    then show ?thesis using u c by simp
  qed
next
  case (JObject fs)
  show ?case
  proof (cases fs)
    case Nil
    then show ?thesis by simp
  next
    case (Cons y ys)
    let ?j = "join_with '','' (map (field_text nb) fs)"
    have l: "list_all (\<lambda>(k, x). json_doc nb x) fs" using JObject.prems(1) by simp
    obtain u where u: "?j = QUOTE # u" using Cons by (cases ys) (auto simp: field_text_def quote_def)
    have "json_fields nb m [] (?j @ CHR ''}'' # r) = Some ([] @ fs, r)"
    proof (rule fields_read)
      show "json_value nb (Suc k) (json_text nb (snd p) @ q) = Some (snd p, q)"
        if "p \<in> set fs" "follow q" "2 * length (json_text nb (snd p)) \<le> k" for p k q
        by (rule JObject.IH [of p]) (use that l in \<open>auto simp: list_all_iff snds.simps\<close>)
    qed (use JObject.prems json_text_object [OF l] Cons in simp_all)
    then show ?thesis using u json_text_object [OF l] by simp
  qed
next
  case (JNum n)
  then show ?case using value_number [OF assms(1), of "JNum n" r n _ m] by (simp del: json_value.simps)
next
  case (JFrac q)
  then show ?case using value_number [OF assms(1), of "JFrac q" r _ q m] by (simp del: json_value.simps)
qed (simp_all del: json_value.simps add: value_literals [simplified append.simps] value_string)

lemma json_roundtrip:
  assumes "numbers_ok nb" "json_doc nb x"
  shows "json_parse nb (json_text nb x) = Some x"
  using json_value_text [OF assms, of "[]" "2 * length (json_text nb x)"]
  by (simp add: json_parse_def follow_def)

text \<open>The fuel of \<open>json_parse\<close> is enough: more never changes the answer.\<close>

lemma eat_shorter: "eat c s = Some t \<Longrightarrow> length t < length s"
proof -
  assume "eat c s = Some t"
  then have "length t < length (skip_ws s)" by (auto simp: eat_def split: list.splits if_splits)
  then show ?thesis using length_dropWhile_le [of json_space s] by simp
qed

lemma json_chars_shorter: "json_chars s = Some (w, r) \<Longrightarrow> length r < length s"
proof (induction s arbitrary: w r rule: json_chars.induct)
  case (1 s)
  show ?case
  proof (cases s)
    case Nil
    then show ?thesis using 1(4) by (simp add: json_chars.simps)
  next
    case (Cons c t)
    consider "c = QUOTE" | "c = BACKSLASH" | "c \<noteq> QUOTE" "c \<noteq> BACKSLASH" by blast
    then show ?thesis
    proof cases
      case 1
      then show ?thesis using "1.prems" Cons by simp
    next
      case 2
      then obtain e t' where t: "t = e # t'" using "1.prems" Cons by (cases t) (simp_all add: json_chars.simps)
      show ?thesis
      proof (cases "e = CHR ''u''")
        case True
        then obtain b n where u: "unicode_escape t' = Some (b, n)"
          using "1.prems" Cons 2 t by (subst (asm) json_chars.simps) (auto split: option.splits)
        then obtain w' where "json_chars (drop n t') = Some (w', r)"
          using "1.prems" Cons 2 t True json_chars_unicode [OF u] by auto
        then have "length r < length (drop n t')" using "1.IH"(1) [OF Cons _ 2 t True u] 2 by simp
        then show ?thesis using Cons t by simp
      next
        case False
        then obtain x where x: "simple_escape e = Some x"
          using "1.prems" Cons 2 t by (subst (asm) json_chars.simps) (auto split: option.splits)
        then obtain w' where "json_chars t' = Some (w', r)"
          using "1.prems" Cons 2 t False json_chars_simple [OF x False] by auto
        then have "length r < length t'" using "1.IH"(2) [OF Cons _ 2 t False x] 2 by simp
        then show ?thesis using Cons t by simp
      qed
    next
      case 3
      then have code: "32 \<le> (of_char c :: nat)"
        using "1.prems" Cons by (subst (asm) json_chars.simps) (auto split: if_splits)
      then obtain w' where "json_chars t = Some (w', r)"
        using "1.prems" Cons 3 json_chars_plain [of c t] by auto
      then show ?thesis using "1.IH"(3) [OF Cons 3] code Cons by fastforce
    qed
  qed
qed

text \<open>A numeral is the front of the text it was read from, and has no escapes.\<close>

lemma scan_number_split:
  assumes "scan_number s = Some (t, r)" shows "s = t @ r \<and> list_all number_char t"
proof -
  have digits: "list_all number_char (takeWhile is_digit u)" for u
    by (auto simp: list_all_iff number_char_def dest: set_takeWhileD)
  have w: "u = w @ z \<and> list_all number_char w" if "scan_whole u = Some (w, z)" for u w z
    using that digits [of u] by (cases u) (auto simp: scan_whole_def number_char_def is_digit_def char_between_def split: if_splits)
  have f: "u = w @ z \<and> list_all number_char w" if "scan_fraction u = (w, z)" for u w z
    using that digits [of "tl u"] by (cases u) (auto simp: scan_fraction_def number_char_def split: if_splits)
  have g: "u = w @ z \<and> list_all number_char w" if "scan_sign u = (w, z)" for u w z
    using that by (cases u) (auto simp: scan_sign_def number_char_def split: if_splits)
  have e: "u = w @ z \<and> list_all number_char w" if "scan_exponent u = (w, z)" for u w z
  proof (cases u)
    case Nil
    then show ?thesis using that by (simp add: scan_exponent_def)
  next
    case (Cons c t)
    obtain a b where ab: "scan_sign t = (a, b)" by fastforce
    then show ?thesis using that Cons g [OF ab] digits [of b]
      by (auto simp: scan_exponent_def number_char_def split: if_splits)
  qed
  obtain g' u w' r0 f' r1 e' where p: "scan_minus s = (g', u)" "scan_whole u = Some (w', r0)"
      "scan_fraction r0 = (f', r1)" "scan_exponent r1 = (e', r)" "t = g' @ w' @ f' @ e'"
    using assms unfolding scan_number_def by (fastforce split: option.splits prod.splits)
  have "s = g' @ u \<and> list_all number_char g'" using p(1) by (cases s) (auto simp: scan_minus_def number_char_def split: if_splits)
  then show ?thesis using w [OF p(2)] f [OF p(3)] e [OF p(4)] p(5) by simp
qed

lemma scan_number_nonempty: "scan_number s = Some (t, r) \<Longrightarrow> t \<noteq> []"
  by (auto simp: scan_number_def scan_whole_def split: option.splits prod.splits list.splits if_splits)

lemma scan_number_shorter: "scan_number s = Some (t, r) \<Longrightarrow> length r < length s"
  using scan_number_split [of s t r] scan_number_nonempty [of s t r] by (cases t) auto

lemma json_scalar_shorter: "json_scalar nb s = Some (x, r) \<Longrightarrow> length r < length s"
  using scan_number_shorter [of s] 
  by (cases s) (auto simp: json_scalar_def starts_with_def split: if_splits option.splits)

lemma json_shorter:
  "json_value nb n s = Some (x, r) \<Longrightarrow> length r < length s"
  "json_items nb n acc s = Some (xs, r) \<Longrightarrow> length r < length s"
  "json_fields nb n fs s = Some (ys, r) \<Longrightarrow> length r < length s"
proof (induction nb n s and nb n acc s and nb n fs s arbitrary: x r and xs r and ys r
    rule: json_value_json_items_json_fields.induct)
  case (2 nb n s)
  have ws: "length (skip_ws s) \<le> length s" by (rule length_dropWhile_le)
  show ?case
  proof (cases "eat QUOTE s")
    case (Some t)
    then show ?thesis using 2(3) eat_shorter [OF Some] json_chars_shorter by fastforce
  next
    case q: None
    show ?thesis
    proof (cases "eat CHR ''['' s")
      case b: (Some t)
      show ?thesis
      proof (cases "eat CHR '']'' t")
        case None
        then show ?thesis using 2(3) q b eat_shorter [OF b] 2(2) [OF q b None] by fastforce
      next
        case (Some u)
        then show ?thesis using 2(3) q b eat_shorter [OF b] eat_shorter [OF Some] by simp
      qed
    next
      case b: None
      show ?thesis
      proof (cases "eat CHR ''{'' s")
        case c: (Some t)
        show ?thesis
        proof (cases "eat CHR ''}'' t")
          case None
          then show ?thesis using 2(3) q b c eat_shorter [OF c] 2(1) [OF q b c None] by fastforce
        next
          case (Some u)
          then show ?thesis using 2(3) q b c eat_shorter [OF c] eat_shorter [OF Some] by simp
        qed
      next
        case c: None
        then show ?thesis using 2(3) q b ws json_scalar_shorter by fastforce
      qed
    qed
  qed
next
  case (4 nb n acc s)
  then obtain y z where y: "json_value nb n s = Some (y, z)" by (auto split: option.splits)
  then have z: "length z < length s" using 4(1) by simp
  show ?case
  proof (cases "eat CHR '','' z")
    case (Some t)
    then show ?thesis using 4(3) y z eat_shorter [OF Some] 4(2) [OF y _ Some] by fastforce
  next
    case None
    then show ?thesis using 4(3) y z by (auto dest: eat_shorter split: option.splits)
  qed
next
  case (6 nb n fs s)
  then obtain t k z u where t: "eat QUOTE s = Some t" "json_chars t = Some (k, z)" "eat CHR '':'' z = Some u"
    by (auto split: option.splits)
  then obtain y v where y: "json_value nb n u = Some (y, v)" using 6(3) by (auto split: option.splits)
  then have z: "length v < length s"
    using 6(1) [OF t(1,2) _ t(3)] eat_shorter [OF t(1)] json_chars_shorter [OF t(2)] eat_shorter [OF t(3)] by fastforce
  show ?case
  proof (cases "eat CHR '','' v")
    case (Some w)
    then show ?thesis using 6(3) t y z eat_shorter [OF Some] 6(2) [OF t(1,2) _ t(3) y _ Some] by fastforce
  next
    case None
    then show ?thesis using 6(3) t y z by (auto dest: eat_shorter split: option.splits)
  qed
qed simp_all

lemma json_fuel:
  "2 * length s + 1 \<le> n \<Longrightarrow> 2 * length s + 1 \<le> m \<Longrightarrow> json_value nb n s = json_value nb m s"
  "2 * length s + 2 \<le> n \<Longrightarrow> 2 * length s + 2 \<le> m \<Longrightarrow> json_items nb n acc s = json_items nb m acc s"
  "2 * length s + 2 \<le> n \<Longrightarrow> 2 * length s + 2 \<le> m \<Longrightarrow> json_fields nb n fs s = json_fields nb m fs s"
proof (induction nb n s and nb n acc s and nb n fs s arbitrary: m and m and m
    rule: json_value_json_items_json_fields.induct)
  case (2 nb n s)
  obtain k where m: "m = Suc k" using 2(4) by (cases m) auto
  have items: "json_items nb n [] t = json_items nb k [] t" if "eat QUOTE s = None" "eat CHR ''['' s = Some t" "eat CHR '']'' t = None" for t
    by (rule 2(2) [OF that]) (use eat_shorter [OF that(2)] 2(3,4) m in simp_all)
  have fields: "json_fields nb n [] t = json_fields nb k [] t"
    if "eat QUOTE s = None" "eat CHR ''['' s = None" "eat CHR ''{'' s = Some t" "eat CHR ''}'' t = None" for t
    by (rule 2(1) [OF that]) (use eat_shorter [OF that(3)] 2(3,4) m in simp_all)
  show ?case
    using items fields by (simp add: m split: option.split)
next
  case (4 nb n acc s)
  obtain k where m: "m = Suc k" using 4(4) by (cases m) auto
  have v: "json_value nb n s = json_value nb k s" by (rule 4(1)) (use 4(3,4) m in simp_all)
  have rest: "json_items nb n (acc @ [x]) t = json_items nb k (acc @ [x]) t"
    if "json_value nb n s = Some (x, r)" "eat CHR '','' r = Some t" for x r t
    by (rule 4(2) [OF that(1) _ that(2)])
      (use json_shorter(1) [OF that(1)] eat_shorter [OF that(2)] 4(3,4) m in simp_all)
  show ?case
  proof (cases "json_value nb n s")
    case None
    then show ?thesis using v by (simp add: m)
  next
    case (Some p)
    then show ?thesis using v rest [of "fst p" "snd p"] by (cases p) (simp add: m split: option.split)
  qed
next
  case (6 nb n fs s)
  obtain k where m: "m = Suc k" using 6(4) by (cases m) auto
  have shorter: "length u + 2 < length s" if "eat QUOTE s = Some t" "json_chars t = Some (key, r)" "eat CHR '':'' r = Some u" for t key r u
    using eat_shorter [OF that(1)] json_chars_shorter [OF that(2)] eat_shorter [OF that(3)] by linarith
  have v: "json_value nb n u = json_value nb k u"
    if "eat QUOTE s = Some t" "json_chars t = Some (key, r)" "eat CHR '':'' r = Some u" for t key r u
    by (rule 6(1) [OF that(1,2) _ that(3)]) (use shorter [OF that] 6(3,4) m in simp_all)
  have rest: "json_fields nb n (put_field key x fs) z = json_fields nb k (put_field key x fs) z"
    if "eat QUOTE s = Some t" "json_chars t = Some (key, r)" "eat CHR '':'' r = Some u" "json_value nb n u = Some (x, w)"
      "eat CHR '','' w = Some z" for t key r u x w z
    by (rule 6(2) [OF that(1,2) _ that(3,4) _ that(5)])
      (use shorter [OF that(1-3)] json_shorter(1) [OF that(4)] eat_shorter [OF that(5)] 6(3,4) m in simp_all)
  show ?case
  proof (cases "\<exists>t key r u. eat QUOTE s = Some t \<and> json_chars t = Some (key, r) \<and> eat CHR '':'' r = Some u")
    case False
    then show ?thesis by (auto simp: m split: option.split)
  next
    case True
    then obtain t key r u where p: "eat QUOTE s = Some t" "json_chars t = Some (key, r)" "eat CHR '':'' r = Some u" by blast
    show ?thesis
    proof (cases "json_value nb n u")
      case None
      then show ?thesis using p v [OF p] by (simp add: m)
    next
      case (Some xw)
      then show ?thesis using p v [OF p] rest [OF p, of "fst xw" "snd xw"] by (cases xw) (simp add: m split: option.split)
    qed
  qed
qed simp_all

lemma json_parse_fuel:
  assumes "2 * length s + 1 \<le> n"
  shows "json_parse nb s = (case json_value nb n s of
     Some (x, r) \<Rightarrow> if skip_ws r = [] then Some x else None | None \<Rightarrow> None)"
  using json_fuel(1) [OF order_refl assms, of nb] by (simp add: json_parse_def)


section \<open>What the parser returns\<close>

lemma put_field_doc:
  assumes "distinct (map fst fs)" "list_all (\<lambda>(k, x). json_doc nb x) fs" "json_doc nb x"
  shows "distinct (map fst (put_field k x fs)) \<and> list_all (\<lambda>(k, x). json_doc nb x) (put_field k x fs)"
proof -
  have keys: "fst ` set (put_field k x fs) = insert k (fst ` set fs)" for fs by (induction fs) auto
  show ?thesis using assms by (induction fs) (auto simp: keys)
qed

lemma read_number_doc:
  assumes "numbers_ok nb" shows "json_doc nb (read_number nb t)"
proof (cases "plain_integer t")
  case True
  then show ?thesis by (simp add: read_number_def plain_integer_def)
next
  case False
  have "(\<exists>n. num_read nb t = JNum n \<and> (isSafeInteger n \<or> num_ok nb (JNum n))) \<or>
      (\<exists>q. num_read nb t = JFrac q \<and> num_ok nb (JFrac q))" using assms unfolding numbers_ok_def by blast
  then show ?thesis using False by (auto simp: read_number_def)
qed

lemma json_scalar_doc: "numbers_ok nb \<Longrightarrow> json_scalar nb s = Some (x, r) \<Longrightarrow> json_doc nb x"
  using read_number_doc by (auto simp: json_scalar_def split: if_splits option.splits)

lemma parsed_doc:
  shows "json_value nb n s = Some (x, r) \<Longrightarrow> numbers_ok nb \<Longrightarrow> json_doc nb x"
    and "json_items nb n acc s = Some (xs, r') \<Longrightarrow> numbers_ok nb \<Longrightarrow> list_all (json_doc nb) acc \<Longrightarrow> list_all (json_doc nb) xs"
    and "json_fields nb n fs s = Some (gs, r'') \<Longrightarrow> numbers_ok nb \<Longrightarrow> json_doc nb (JObject fs) \<Longrightarrow> json_doc nb (JObject gs)"
proof (induction nb n s and nb n acc s and nb n fs s arbitrary: x r and xs r' and gs r''
    rule: json_value_json_items_json_fields.induct)
  case (2 nb n s)
  show ?case
  proof (cases "eat QUOTE s")
    case (Some t)
    then show ?thesis using 2(3) by auto
  next
    case q: None
    show ?thesis
    proof (cases "eat CHR ''['' s")
      case b: (Some t)
      show ?thesis
      proof (cases "eat CHR '']'' t")
        case None
        then show ?thesis using 2(2) [OF q b None] 2(3,4) q b by auto
      next
        case (Some u)
        then show ?thesis using 2(3) q b by auto
      qed
    next
      case b: None
      show ?thesis
      proof (cases "eat CHR ''{'' s")
        case c: (Some t)
        show ?thesis
        proof (cases "eat CHR ''}'' t")
          case None
          then obtain gs where "json_fields nb n [] t = Some (gs, r)" "x = JObject gs" using 2(3) q b c by auto
          then show ?thesis using 2(1) [OF q b c None _ 2(4)] by simp
        next
          case (Some u)
          then show ?thesis using 2(3) q b c by auto
        qed
      next
        case c: None
        then show ?thesis using 2(3,4) q b json_scalar_doc by simp
      qed
    qed
  qed
next
  case (4 nb n acc s)
  obtain y z where y: "json_value nb n s = Some (y, z)" using 4(3) by (auto split: option.splits)
  then have d: "json_doc nb y" using 4(1,4) by blast
  show ?case
  proof (cases "eat CHR '','' z")
    case (Some t)
    then have "json_items nb n (acc @ [y]) t = Some (xs, r')" using 4(3) y by simp
    then show ?thesis using 4(2) [OF y refl Some _ 4(4)] 4(5) d by simp
  next
    case None
    then show ?thesis using 4(3,5) y d by (auto split: option.splits)
  qed
next
  case (6 nb n fs s)
  obtain t k z u where t: "eat QUOTE s = Some t" "json_chars t = Some (k, z)" "eat CHR '':'' z = Some u"
    using 6(3) by (auto split: option.splits)
  obtain y v where y: "json_value nb n u = Some (y, v)" using 6(3) t by (auto split: option.splits)
  have d: "json_doc nb y" using 6(1) [OF t(1,2) refl t(3) y 6(4)] .
  have put: "json_doc nb (JObject (put_field k y fs))" using put_field_doc [of fs nb y k] d 6(5) by simp
  show ?case
  proof (cases "eat CHR '','' v")
    case (Some w)
    then have "json_fields nb n (put_field k y fs) w = Some (gs, r'')" using 6(3) t y by simp
    then show ?thesis using 6(2) [OF t(1,2) refl t(3) y refl Some _ 6(4) put] by simp
  next
    case None
    then show ?thesis using 6(3) t y put by (auto split: option.splits)
  qed
qed simp_all

lemma json_parse_doc: "numbers_ok nb \<Longrightarrow> json_parse nb s = Some x \<Longrightarrow> json_doc nb x"
  using parsed_doc(1) by (fastforce simp: json_parse_def simp del: json_value.simps split: option.splits if_splits)

lemma json_doc_serialisable: "json_doc nb x \<Longrightarrow> serialisable x"
  by (induction x) (auto simp: list_all_iff snds.simps)

end
