(* ===== verification/Seller.thy ===== *)
theory Seller
  imports X402 Payment_Identifiers Shared_Net Json
begin

text \<open>
  The settle-before-serve paywall (\<^verbatim>\<open>packages/seller/src/index.ts\<close>, with the
  payment-identifier extension of \<^verbatim>\<open>packages/shared/src/x402.ts\<close>): what a paywall is
  configured with, what it reads from a request, the facilitator client, the answer ladder,
  delivery, and the manifest. The facilitator and the identifier binding are reached through
  their interfaces, each with a state of its own, so that one request is one function from the
  two states to an outcome, the new states and the calls it made.
\<close>

section \<open>The payment-identifier extension\<close>

definition PAYMENT_IDENTIFIER_EXTENSION :: string where
  "PAYMENT_IDENTIFIER_EXTENSION = ''payment-identifier''"

definition PAYMENT_IDENTIFIER_SCHEMA :: js where
  "PAYMENT_IDENTIFIER_SCHEMA = JObject
     [(''$schema'', JString ''https://json-schema.org/draft/2020-12/schema''), (''type'', JString ''object''),
      (''properties'', JObject
        [(''required'', JObject [(''type'', JString ''boolean'')]),
         (''id'', JObject [(''type'', JString ''string''), (''minLength'', JNum 16), (''maxLength'', JNum 128)])]),
      (''required'', JArray [JString ''required''])]"

definition buildPaymentIdentifierOffer :: js where
  "buildPaymentIdentifierOffer = JObject
     [(''info'', JObject [(''required'', JBool False)]), (''schema'', PAYMENT_IDENTIFIER_SCHEMA)]"

definition buildPaymentIdentifierEcho :: "string \<Rightarrow> js" where
  "buildPaymentIdentifierEcho i = JObject
     [(''info'', JObject [(''required'', JBool False), (''id'', JString i)]), (''schema'', PAYMENT_IDENTIFIER_SCHEMA)]"

datatype PaymentIdentifierRead = IdAbsent | IdMalformed | IdPresent string

text \<open>\<^verbatim>\<open>asRecord\<close>: any object; a property of a value that is none reads as undefined.\<close>

definition asRecord :: "js \<Rightarrow> js option" where
  "asRecord v = (if is_object_body v then Some v else None)"

text \<open>\<^verbatim>\<open>k in v\<close>.\<close>

definition js_has :: "js \<Rightarrow> string \<Rightarrow> bool" where
  "js_has v k = (case v of JObject fs \<Rightarrow> k \<in> fst ` set fs | _ \<Rightarrow> False)"

definition readPaymentIdentifier :: "js \<Rightarrow> PaymentIdentifierRead" where
  "readPaymentIdentifier payload =
     (case Option.bind (asRecord payload) (\<lambda>p. asRecord (js_get p ''extensions'')) of
        None \<Rightarrow> IdAbsent
      | Some extensions \<Rightarrow>
          if \<not> js_has extensions PAYMENT_IDENTIFIER_EXTENSION then IdAbsent
          else (case Option.bind (asRecord (js_get extensions PAYMENT_IDENTIFIER_EXTENSION))
              (\<lambda>e. asRecord (js_get e ''info'')) of
            None \<Rightarrow> IdMalformed
          | Some info \<Rightarrow> (case js_get info ''id'' of
              JUndefined \<Rightarrow> IdAbsent
            | JString i \<Rightarrow> if is_identifier i then IdPresent i else IdMalformed
            | _ \<Rightarrow> IdMalformed)))"

section \<open>Configuration\<close>

definition zeroAddress :: string where
  "zeroAddress = ''0x'' @ replicate 40 CHR ''0''"

definition parsePayTo :: "viem \<Rightarrow> string \<Rightarrow> string result" where
  "parsePayTo v value =
     (let trimmed = trim value in
      if \<not> v_isAddress v trimmed
      then Inl (Error ''payTo must be the public receiving address, never a private key'')
      else if v_getAddress v trimmed = zeroAddress then Inl (Error ''payTo must not be the zero address'')
      else Inr (v_getAddress v trimmed))"

definition parsePrice :: "string \<Rightarrow> int result" where
  "parsePrice value = ebind (toTokenAmount value) (\<lambda>amt.
     if amt \<le> 0 then Inl (Error ''price must be positive'') else Inr amt)"

text \<open>The checks on a URL that stop a configuration that would leak or mislead.\<close>

definition absolute_http :: "url \<Rightarrow> bool" where
  "absolute_http u \<longleftrightarrow> u_protocol u \<in> {''http:'', ''https:''} \<and> u_username u = [] \<and> u_password u = []"

definition drop_slash :: "string \<Rightarrow> string" where
  "drop_slash s = (if ends_with ''/'' s then take (length s - 1) s else s)"

definition parseFacilitatorUrl :: "url_parser \<Rightarrow> string \<Rightarrow> string result" where
  "parseFacilitatorUrl parse value = (case parse value of
     None \<Rightarrow> Inl (TypeError ''Invalid URL'')
   | Some u \<Rightarrow>
       ebind (ensure (absolute_http u) (Error ''facilitator must be an absolute HTTP(S) URL without credentials'')) (\<lambda>_.
       ebind (ensure (u_protocol u = ''https:'' \<or> isLoopbackHost (u_hostname u))
         (Error ''facilitator must use HTTPS unless it is loopback'')) (\<lambda>_.
       ebind (ensure (u_search u = [] \<and> u_hash u = [])
         (Error ''facilitator must be a base URL without query or fragment'')) (\<lambda>_.
       Inr (drop_slash (u_href u))))))"

definition parseBaseUrl :: "url_parser \<Rightarrow> string \<Rightarrow> string result" where
  "parseBaseUrl parse value = (case parse value of
     None \<Rightarrow> Inl (TypeError ''Invalid URL'')
   | Some u \<Rightarrow>
       ebind (ensure (absolute_http u) (Error ''baseUrl must be an absolute HTTP(S) origin without credentials'')) (\<lambda>_.
       ebind (ensure (u_pathname u = ''/'' \<and> u_search u = [] \<and> u_hash u = [])
         (Error ''baseUrl must be an origin'')) (\<lambda>_.
       Inr (u_origin u))))"

record PaywallOptions =
  po_payTo :: string
  po_price :: string
  po_description :: string
  po_extensions :: "(string \<times> js) list option"
  po_identifiers :: bool

text \<open>What \<^verbatim>\<open>buildPaywall\<close> closes over.\<close>

record Paywall =
  pw_payTo :: string
  pw_amount :: int
  pw_description :: string
  pw_advertised :: "js option"
  pw_identifiers :: bool
  pw_baseUrl :: "string option"
  pw_price :: string

definition buildPaywall :: "viem \<Rightarrow> string option \<Rightarrow> PaywallOptions \<Rightarrow> Paywall result" where
  "buildPaywall v baseUrl opts =
     ebind (parsePayTo v (po_payTo opts)) (\<lambda>payTo.
     ebind (parsePrice (po_price opts)) (\<lambda>amt.
     ebind (ensure (trim (po_description opts) \<noteq> []) (Error ''description must not be empty'')) (\<lambda>_.
     ebind (ensure (case po_extensions opts of None \<Rightarrow> True | Some fs \<Rightarrow> serialisable (JObject fs))
       (TypeError ''JSON.stringify cannot serialize BigInt.'')) (\<lambda>_.
     ebind (ensure (case po_extensions opts of None \<Rightarrow> True | Some fs \<Rightarrow> \<not> js_has (JObject fs) PAYMENT_IDENTIFIER_EXTENSION)
       (Error ''payment-identifier is published by the paywall itself'')) (\<lambda>_.
     Inr \<lparr>pw_payTo = payTo, pw_amount = amt, pw_description = po_description opts,
       pw_advertised = (if \<not> po_identifiers opts then map_option JObject (po_extensions opts)
         else Some (JObject ((case po_extensions opts of None \<Rightarrow> [] | Some fs \<Rightarrow> fs)
           @ [(PAYMENT_IDENTIFIER_EXTENSION, buildPaymentIdentifierOffer)]))),
       pw_identifiers = po_identifiers opts, pw_baseUrl = baseUrl, pw_price = trim (po_price opts)\<rparr>)))))"

section \<open>The facilitator's kind\<close>

record FacilitatorKind =
  fk_facilitatorAddresses :: "string list"
  fk_delegationManager :: "string option"

definition is_giwa_kind :: "js \<Rightarrow> bool" where
  "is_giwa_kind kind \<longleftrightarrow> js_get kind ''scheme'' = JString ''exact'' \<and>
     js_get kind ''network'' = JString GIWA_SEPOLIA_CAIP2 \<and>
     js_get (js_get kind ''extra'') ''assetTransferMethod'' = JString ''erc7710''"

definition read_kind_extra :: "viem \<Rightarrow> js \<Rightarrow> FacilitatorKind option" where
  "read_kind_extra v extra =
     (case js_get extra ''facilitatorAddresses'' of
        JArray addresses \<Rightarrow>
          if addresses = [] \<or> \<not> list_all (js_isAddress v) addresses then None
          else (case js_get extra ''delegationManager'' of
              JUndefined \<Rightarrow> Some \<lparr>fk_facilitatorAddresses = map (js_getAddress v) addresses, fk_delegationManager = None\<rparr>
            | JString m \<Rightarrow> if v_isAddress v m
                then Some \<lparr>fk_facilitatorAddresses = map (js_getAddress v) addresses,
                  fk_delegationManager = Some (v_getAddress v m)\<rparr>
                else None
            | _ \<Rightarrow> None)
      | _ \<Rightarrow> None)"

fun first_giwa_kind :: "viem \<Rightarrow> js list \<Rightarrow> FacilitatorKind option" where
  "first_giwa_kind v [] = None"
| "first_giwa_kind v (kind # kinds) =
     (if is_giwa_kind kind then read_kind_extra v (js_get kind ''extra'') else first_giwa_kind v kinds)"

definition readSupportedKind :: "viem \<Rightarrow> js \<Rightarrow> FacilitatorKind option" where
  "readSupportedKind v body = (case js_get body ''kinds'' of
     JArray kinds \<Rightarrow> first_giwa_kind v kinds | _ \<Rightarrow> None)"

text \<open>The document the facilitator serves (\<^verbatim>\<open>buildErc7710SupportedPayload\<close>).\<close>

definition buildErc7710SupportedPayload :: "string list \<Rightarrow> string option \<Rightarrow> js" where
  "buildErc7710SupportedPayload facilitatorAddresses delegationManager = JObject
     [(''kinds'', JArray [JObject
        [(''x402Version'', JNum X402_VERSION), (''scheme'', JString ''exact''),
         (''network'', JString GIWA_SEPOLIA_CAIP2),
         (''extra'', JObject
           ([(''assetTransferMethod'', JString ''erc7710''), (''paymentFlow'', JString ''upfront''),
             (''facilitatorAddresses'', JArray (map JString facilitatorAddresses))]
            @ (case delegationManager of None \<Rightarrow> [] | Some m \<Rightarrow>
                 if m = [] then [] else [(''delegationManager'', JString m)])))]]),
      (''extensions'', JArray []),
      (''signers'', JObject [(GIWA_SEPOLIA_CAIP2, JArray (map JString facilitatorAddresses))])]"

section \<open>The facilitator client\<close>

definition SUPPORTED_TTL_MS :: int where "SUPPORTED_TTL_MS = 5 * 60000"
definition SUPPORTED_RETRY_MS :: int where "SUPPORTED_RETRY_MS = 30000"
definition VERIFY_TIMEOUT_MS :: int where "VERIFY_TIMEOUT_MS = 15000"
definition SETTLE_TIMEOUT_MS :: int where "SETTLE_TIMEOUT_MS = 35000"
definition CLIENT_IP_HEADER :: string where "CLIENT_IP_HEADER = ''x-mapae-client-ip''"

record FacilitatorClient =
  fcl_cached :: "(FacilitatorKind \<times> int) option"
  fcl_discovering :: bool

datatype kind_read = KindCached FacilitatorKind | KindJoined | KindStarted

text \<open>\<^verbatim>\<open>kind()\<close>: the trusted answer, the discovery in flight, or a discovery of its own.\<close>

definition client_kind :: "int \<Rightarrow> FacilitatorClient \<Rightarrow> kind_read \<times> FacilitatorClient" where
  "client_kind now cl =
     (let start = (if fcl_discovering cl then (KindJoined, cl) else (KindStarted, cl\<lparr>fcl_discovering := True\<rparr>)) in
      case fcl_cached cl of
        Some (kind, expiresAt) \<Rightarrow> if now < expiresAt then (KindCached kind, cl) else start
      | None \<Rightarrow> start)"

text \<open>\<^verbatim>\<open>#discover()\<close> once \<^verbatim>\<open>/supported\<close> answered, and its \<^verbatim>\<open>finally\<close>.\<close>

definition client_discovered ::
    "viem \<Rightarrow> int \<Rightarrow> FacilitatorAnswer \<Rightarrow> FacilitatorClient \<Rightarrow> FacilitatorKind option \<times> FacilitatorClient" where
  "client_discovered v now answer cl =
     (case (if fa_reachable answer then readSupportedKind v (fa_body answer) else None) of
        Some kind \<Rightarrow> (Some kind, cl\<lparr>fcl_cached := Some (kind, now + SUPPORTED_TTL_MS), fcl_discovering := False\<rparr>)
      | None \<Rightarrow> (case fcl_cached cl of
          None \<Rightarrow> (None, cl\<lparr>fcl_discovering := False\<rparr>)
        | Some (kind, _) \<Rightarrow>
            (Some kind, cl\<lparr>fcl_cached := Some (kind, now + SUPPORTED_RETRY_MS), fcl_discovering := False\<rparr>)))"

text \<open>What a call sends, and how its result is read. A response body that is no JSON is \<open>None\<close>.\<close>

datatype client_path = PathSupported | PathVerify | PathSettle

record http_request =
  rq_post :: bool
  rq_headers :: "(string \<times> string) list"
  rq_body :: "js option"
  rq_timeout :: int

definition client_request :: "bool \<Rightarrow> client_path \<Rightarrow> (js \<times> string option) option \<Rightarrow> http_request" where
  "client_request namesBuyer path payment = \<lparr>rq_post = (payment \<noteq> None),
     rq_headers = (case payment of None \<Rightarrow> [] | Some (_, clientIp) \<Rightarrow>
       (''content-type'', ''application/json'') #
       (case clientIp of Some ip \<Rightarrow> if namesBuyer then [(CLIENT_IP_HEADER, ip)] else [] | None \<Rightarrow> [])),
     rq_body = map_option fst payment,
     rq_timeout = (if path = PathSettle then SETTLE_TIMEOUT_MS else VERIFY_TIMEOUT_MS)\<rparr>"

datatype fetched = FetchThrew | FetchAnswered bool "js option"

definition client_answer :: "fetched \<Rightarrow> FacilitatorAnswer" where
  "client_answer f = (case f of
     FetchAnswered True (Some body) \<Rightarrow> \<lparr>fa_reachable = True, fa_body = body\<rparr>
   | _ \<Rightarrow> \<lparr>fa_reachable = False, fa_body = JUndefined\<rparr>)"

section \<open>Reading a payment\<close>

definition MAX_PAYMENT_HEADER_LENGTH :: nat where "MAX_PAYMENT_HEADER_LENGTH = 150000"

definition delegation_payload_ok :: "viem \<Rightarrow> js \<Rightarrow> bool" where
  "delegation_payload_ok v payload \<longleftrightarrow>
     js_isAddress v (js_get payload ''delegationManager'') \<and>
     js_isAddress v (js_get payload ''delegator'') \<and>
     (case js_get payload ''permissionContext'' of JString s \<Rightarrow> v_isHex v s \<and> 2 < length s | _ \<Rightarrow> False)"

text \<open>\<^verbatim>\<open>decode\<close> is the header codec: base64, UTF-8 and JSON, or none when it throws.\<close>

definition readDelegatedPayment :: "viem \<Rightarrow> (string \<Rightarrow> js option) \<Rightarrow> string \<Rightarrow> string + js" where
  "readDelegatedPayment v decode header = (case decode header of
     None \<Rightarrow> Inl ''invalid base64 JSON''
   | Some candidate \<Rightarrow>
       if js_get (js_get (js_get candidate ''accepted'') ''extra'') ''assetTransferMethod'' \<noteq> JString ''erc7710''
       then Inl ''not an ERC-7710 payment''
       else if \<not> delegation_payload_ok v (js_get candidate ''payload'') then Inl ''invalid delegation payload''
       else Inr candidate)"

section \<open>Answers\<close>

definition failure_receipt :: "string \<Rightarrow> string option \<Rightarrow> string \<Rightarrow> js" where
  "failure_receipt errorReason payer transaction = JObject
     ([(''success'', JBool False), (''errorReason'', JString errorReason), (''network'', JString GIWA_SEPOLIA_CAIP2)]
      @ (case payer of None \<Rightarrow> [] | Some p \<Rightarrow> [(''payer'', JString p)])
      @ [(''transaction'', JString transaction)])"

record SettlementReceipt =
  rc_intent :: string
  rc_payer :: string
  rc_amount :: string
  rc_asset :: string
  rc_payTo :: string
  rc_network :: string
  rc_transaction :: "string option"
  rc_replayed :: bool

definition or_blank :: "string option \<Rightarrow> string" where
  "or_blank t = (case t of None \<Rightarrow> [] | Some h \<Rightarrow> h)"

definition success_receipt :: "SettlementReceipt \<Rightarrow> js" where
  "success_receipt r = JObject
     [(''success'', JBool True), (''network'', JString GIWA_SEPOLIA_CAIP2), (''payer'', JString (rc_payer r)),
      (''transaction'', JString (or_blank (rc_transaction r)))]"

text \<open>
  An answer of the paywall's own: the status, the body, the offer in \<^verbatim>\<open>Payment-Required\<close> and
  the receipt in \<^verbatim>\<open>Payment-Response\<close>. Every answer carries \<^verbatim>\<open>Cache-Control: no-store\<close> and
  \<^verbatim>\<open>Vary: Payment-Signature\<close>, set before the first branch.
\<close>

record seller_answer =
  sa_status :: int
  sa_body :: js
  sa_offer :: "js option"
  sa_receipt :: "js option"

datatype paywall_outcome =
    NotFound
  | Answer seller_answer
  | Deliver SettlementReceipt js

definition error_answer :: "int \<Rightarrow> string \<Rightarrow> js option \<Rightarrow> paywall_outcome" where
  "error_answer status error receipt = Answer \<lparr>sa_status = status, sa_body = JObject [(''error'', JString error)],
     sa_offer = None, sa_receipt = receipt\<rparr>"

definition deliver :: "SettlementReceipt \<Rightarrow> paywall_outcome" where
  "deliver receipt = Deliver receipt (success_receipt receipt)"

section \<open>The request\<close>

text \<open>
  \<open>req_last_route\<close> is \<^verbatim>\<open>c.req.routeIndex === matchedRoutes(c).length - 1\<close>; \<open>req_parsed\<close> is
  the runtime's \<^verbatim>\<open>new URL(c.req.url)\<close>.
\<close>

record seller_request =
  req_last_route :: bool
  req_payment_header :: "string option"
  req_url :: string
  req_parsed :: url
  req_method :: string
  req_client_ip :: "string option"

record read_payment =
  rd_payload :: js
  rd_payer :: string
  rd_identifier :: "string option"

text \<open>The 400 of a payment this side could not read; the en dash of the identifier rule as its UTF-8 bytes.\<close>

definition IDENTIFIER_RULE :: string where
  "IDENTIFIER_RULE = PAYMENT_IDENTIFIER_EXTENSION @ '' must be 16'' @ [CHR 0xE2, CHR 0x80, CHR 0x93] @ ''128 characters of [A-Za-z0-9_-]''"

definition malformed_answer :: "string \<Rightarrow> string option \<Rightarrow> paywall_outcome" where
  "malformed_answer detail payer = Answer \<lparr>sa_status = 400,
     sa_body = JObject [(''error'', JString ''malformed_payment''), (''detail'', JString detail)],
     sa_offer = None, sa_receipt = Some (failure_receipt INVALID_PAYLOAD payer [])\<rparr>"

text \<open>Everything that is wrong with the header itself is answered here.\<close>

definition read_header ::
    "viem \<Rightarrow> (string \<Rightarrow> js option) \<Rightarrow> Paywall \<Rightarrow> seller_request \<Rightarrow> paywall_outcome + read_payment option" where
  "read_header v decode pw req =
     (case req_payment_header req of
        None \<Rightarrow> Inr None
      | Some header \<Rightarrow>
          if MAX_PAYMENT_HEADER_LENGTH < length header then Inl (malformed_answer ''header too large'' None)
          else (case readDelegatedPayment v decode header of
              Inl detail \<Rightarrow> Inl (malformed_answer detail None)
            | Inr payload \<Rightarrow>
                let payer = js_getAddress v (js_get (js_get payload ''payload'') ''delegator'') in
                if \<not> pw_identifiers pw
                then Inr (Some \<lparr>rd_payload = payload, rd_payer = payer, rd_identifier = None\<rparr>)
                else (case readPaymentIdentifier payload of
                    IdMalformed \<Rightarrow> Inl (malformed_answer IDENTIFIER_RULE (Some payer))
                  | IdPresent i \<Rightarrow> Inr (Some \<lparr>rd_payload = payload, rd_payer = payer, rd_identifier = Some i\<rparr>)
                  | IdAbsent \<Rightarrow> Inr (Some \<lparr>rd_payload = payload, rd_payer = payer, rd_identifier = None\<rparr>))))"

definition requirements_of :: "Paywall \<Rightarrow> FacilitatorKind \<Rightarrow> js" where
  "requirements_of pw kind = buildErc7710PaymentRequirements (pw_payTo pw) (pw_amount pw)
     (Some (fk_facilitatorAddresses kind)) (fk_delegationManager kind) None"

text \<open>\<^verbatim>\<open>offer()\<close>; \<open>baseUrl ? ... : ...\<close> reads an empty base as none.\<close>

definition offer_body :: "Paywall \<Rightarrow> seller_request \<Rightarrow> js \<Rightarrow> js" where
  "offer_body pw req requirements =
     (let url = (case pw_baseUrl pw of
          Some b \<Rightarrow> if b = [] then req_url req else b @ u_pathname (req_parsed req)
        | None \<Rightarrow> req_url req) in
      JObject ([(''x402Version'', JNum X402_VERSION),
        (''resource'', JObject [(''url'', JString url), (''description'', JString (pw_description pw))]),
        (''accepts'', JArray [requirements])]
        @ (case pw_advertised pw of None \<Rightarrow> [] | Some x \<Rightarrow> [(''extensions'', x)])))"

definition offer :: "Paywall \<Rightarrow> seller_request \<Rightarrow> js \<Rightarrow> js option \<Rightarrow> paywall_outcome" where
  "offer pw req requirements receipt = Answer \<lparr>sa_status = 402, sa_body = offer_body pw req requirements,
     sa_offer = Some (offer_body pw req requirements), sa_receipt = receipt\<rparr>"

definition FINGERPRINT_VERSION :: string where
  "FINGERPRINT_VERSION = ''mapae.x402.payment-identifier.fingerprint.v2''"

definition NEWLINE :: char where "NEWLINE = CHR 0x0A"

definition fingerprint_fields :: "js \<Rightarrow> string \<Rightarrow> string \<Rightarrow> string list" where
  "fingerprint_fields requirements resource meth =
     [FINGERPRINT_VERSION, js_text (js_get requirements ''scheme''), js_text (js_get requirements ''network''),
      js_text (js_get requirements ''asset''), js_text (js_get requirements ''amount''),
      js_text (js_get requirements ''payTo''), resource, toUpperCase meth]"

text \<open>\<^verbatim>\<open>sha256\<close> prints \<^verbatim>\<open>0x\<close> and the digest of the text's bytes.\<close>

definition requestFingerprint :: "(string \<Rightarrow> string) \<Rightarrow> js \<Rightarrow> string \<Rightarrow> string \<Rightarrow> string" where
  "requestFingerprint sha256 requirements resource meth =
     drop 2 (sha256 (join_with [NEWLINE] (fingerprint_fields requirements resource meth)))"

definition resource_of :: "Paywall \<Rightarrow> seller_request \<Rightarrow> string" where
  "resource_of pw req = (case pw_baseUrl pw of Some b \<Rightarrow> b | None \<Rightarrow> u_origin (req_parsed req))
     @ u_pathname (req_parsed req) @ u_search (req_parsed req)"

definition intent_of :: "viem \<Rightarrow> Paywall \<Rightarrow> js \<Rightarrow> js \<Rightarrow> string" where
  "intent_of v pw requirements payload = derivePaymentIntentId v
     \<lparr>pin_network = js_text (js_get requirements ''network''), pin_asset = js_text (js_get requirements ''asset''),
      pin_amount = pw_amount pw, pin_payTo = pw_payTo pw,
      pin_delegationManager = js_getAddress v (js_get (js_get payload ''payload'') ''delegationManager''),
      pin_permissionContext = js_text (js_get (js_get payload ''payload'') ''permissionContext'')\<rparr>"

section \<open>The two services behind the paywall\<close>

record 's identifier_service =
  is_bind :: "'s \<Rightarrow> string \<Rightarrow> string \<Rightarrow> string \<Rightarrow> PaymentIdentifierBindResult result \<times> 's"
  is_record :: "'s \<Rightarrow> string \<Rightarrow> string \<Rightarrow> string option \<Rightarrow> 's result"

record 'f facilitator_service =
  fs_verify :: "'f \<Rightarrow> js \<Rightarrow> string option \<Rightarrow> FacilitatorAnswer \<times> 'f"
  fs_settle :: "'f \<Rightarrow> js \<Rightarrow> string option \<Rightarrow> FacilitatorAnswer \<times> 'f"

datatype seller_call = CalledVerify | CalledSettle

record ('s, 'f) seller_result =
  rs_outcome :: "paywall_outcome result"
  rs_ids :: 's
  rs_fac :: 'f
  rs_calls :: "seller_call list"

section \<open>The ladder\<close>

text \<open>The answers to a settlement; the receipt's transaction is blank when there is no hash.\<close>

definition settle_outcome ::
    "viem \<Rightarrow> Paywall \<Rightarrow> seller_request \<Rightarrow> js \<Rightarrow> string \<Rightarrow> string \<Rightarrow> SettlementLadder
      \<Rightarrow> paywall_outcome + SettlementReceipt" where
  "settle_outcome v pw req requirements intent payer outcome =
     (case outcome of
        LadderUnavailable w \<Rightarrow> Inl (error_answer 503 ''facilitator_unavailable'' (Some (failure_receipt w (Some payer) [])))
      | LadderUnknown t \<Rightarrow> Inl (error_answer 504 ''settlement_unknown''
          (Some (failure_receipt SETTLEMENT_PENDING (Some payer) (or_blank t))))
      | LadderFailed w t \<Rightarrow>
          let receipt = Some (failure_receipt w (Some payer) (or_blank t)) in
          if w = VENDOR_NOT_CREDITED then Inl (error_answer 502 ''settlement_misdirected'' receipt)
          else Inl (offer pw req requirements receipt)
      | LadderSettled t replayed \<Rightarrow> Inr \<lparr>rc_intent = intent, rc_payer = payer, rc_amount = fromTokenAmount (pw_amount pw),
          rc_asset = js_text (js_get requirements ''asset''), rc_payTo = pw_payTo pw, rc_network = GIWA_SEPOLIA_CAIP2,
          rc_transaction = t, rc_replayed = replayed\<rparr>)"

text \<open>The record after a settlement; a record that throws is logged and the state stays.\<close>

definition record_settled :: "'s identifier_service \<Rightarrow> string option \<Rightarrow> SettlementReceipt \<Rightarrow> 's \<Rightarrow> 's" where
  "record_settled ids identifier receipt s = (case identifier of
     None \<Rightarrow> s
   | Some i \<Rightarrow> (case is_record ids s i (rc_payer receipt) (rc_transaction receipt) of Inl _ \<Rightarrow> s | Inr s' \<Rightarrow> s'))"

definition charge_payment ::
    "viem \<Rightarrow> Paywall \<Rightarrow> 's identifier_service \<Rightarrow> 'f facilitator_service \<Rightarrow> seller_request \<Rightarrow> js \<Rightarrow> string
      \<Rightarrow> read_payment \<Rightarrow> 's \<Rightarrow> 'f \<Rightarrow> ('s, 'f) seller_result" where
  "charge_payment v pw ids fac req requirements intent pay s f =
     (let payer = rd_payer pay;
          request = facilitator_request (rd_payload pay) requirements;
          (va, f1) = fs_verify fac f request (req_client_ip req) in
      case decideVerification v va payer of
        VerifyUnavailable w \<Rightarrow> \<lparr>rs_outcome = Inr (error_answer 503 ''facilitator_unavailable''
            (Some (failure_receipt w (Some payer) []))), rs_ids = s, rs_fac = f1, rs_calls = [CalledVerify]\<rparr>
      | VerifyRejected w \<Rightarrow> \<lparr>rs_outcome = Inr (offer pw req requirements (Some (failure_receipt w (Some payer) []))),
            rs_ids = s, rs_fac = f1, rs_calls = [CalledVerify]\<rparr>
      | VerifyAccepted _ \<Rightarrow>
          let (sa, f2) = fs_settle fac f1 request (req_client_ip req) in
          (case settle_outcome v pw req requirements intent payer (decideSettlement v sa payer) of
             Inl out \<Rightarrow> \<lparr>rs_outcome = Inr out, rs_ids = s, rs_fac = f2, rs_calls = [CalledVerify, CalledSettle]\<rparr>
           | Inr receipt \<Rightarrow> \<lparr>rs_outcome = Inr (deliver receipt), rs_ids = record_settled ids (rd_identifier pay) receipt s,
               rs_fac = f2, rs_calls = [CalledVerify, CalledSettle]\<rparr>))"

text \<open>The 409 and the replay out of the binding.\<close>

definition conflict_word :: "PaymentIdentifierConflict \<Rightarrow> string" where
  "conflict_word c = (case c of ConflictFingerprint \<Rightarrow> ''fingerprint'' | ConflictPaymentIntent \<Rightarrow> ''payment_intent'')"

definition conflict_answer :: "string \<Rightarrow> PaymentIdentifierConflict \<Rightarrow> RecordedPayment option \<Rightarrow> paywall_outcome" where
  "conflict_answer payer reason settled =
     (let charged = (if reason = ConflictPaymentIntent then settled else None);
          word = (if charged = None then PAYMENT_IDENTIFIER_CONFLICT else PAYMENT_IDENTIFIER_SETTLED);
          receipt = (case charged of
              None \<Rightarrow> failure_receipt word (Some payer) []
            | Some p \<Rightarrow> failure_receipt word (Some (rp_payer p)) (or_blank (rp_txHash p)))
      in Answer \<lparr>sa_status = 409, sa_body = JObject [(''error'', JString word), (''detail'', JString (conflict_word reason))],
           sa_offer = None, sa_receipt = Some receipt\<rparr>)"

definition stored_receipt :: "Paywall \<Rightarrow> js \<Rightarrow> string \<Rightarrow> RecordedPayment \<Rightarrow> SettlementReceipt" where
  "stored_receipt pw requirements intent p = \<lparr>rc_intent = intent, rc_payer = rp_payer p,
     rc_amount = fromTokenAmount (pw_amount pw), rc_asset = js_text (js_get requirements ''asset''),
     rc_payTo = pw_payTo pw, rc_network = GIWA_SEPOLIA_CAIP2, rc_transaction = rp_txHash p, rc_replayed = True\<rparr>"

definition serve_payment ::
    "viem \<Rightarrow> (string \<Rightarrow> string) \<Rightarrow> Paywall \<Rightarrow> 's identifier_service \<Rightarrow> 'f facilitator_service \<Rightarrow> seller_request
      \<Rightarrow> js \<Rightarrow> read_payment \<Rightarrow> 's \<Rightarrow> 'f \<Rightarrow> ('s, 'f) seller_result" where
  "serve_payment v sha256 pw ids fac req requirements pay s f =
     (let intent = intent_of v pw requirements (rd_payload pay) in
      case rd_identifier pay of
        None \<Rightarrow> charge_payment v pw ids fac req requirements intent pay s f
      | Some i \<Rightarrow> (case is_bind ids s i (requestFingerprint sha256 requirements (resource_of pw req) (req_method req)) intent of
          (Inl e, s') \<Rightarrow> \<lparr>rs_outcome = Inl e, rs_ids = s', rs_fac = f, rs_calls = []\<rparr>
        | (Inr (BindConflict reason settled), s') \<Rightarrow>
            \<lparr>rs_outcome = Inr (conflict_answer (rd_payer pay) reason settled), rs_ids = s', rs_fac = f, rs_calls = []\<rparr>
        | (Inr (BindSettled p), s') \<Rightarrow>
            \<lparr>rs_outcome = Inr (deliver (stored_receipt pw requirements intent p)), rs_ids = s', rs_fac = f, rs_calls = []\<rparr>
        | (Inr BindNew, s') \<Rightarrow> charge_payment v pw ids fac req requirements intent pay s' f))"

text \<open>The middleware. \<open>kind\<close> is what the facilitator client's discovery answered this request.\<close>

definition paywall ::
    "viem \<Rightarrow> (string \<Rightarrow> string) \<Rightarrow> (string \<Rightarrow> js option) \<Rightarrow> Paywall \<Rightarrow> 's identifier_service \<Rightarrow> 'f facilitator_service
      \<Rightarrow> FacilitatorKind option \<Rightarrow> seller_request \<Rightarrow> 's \<Rightarrow> 'f \<Rightarrow> ('s, 'f) seller_result" where
  "paywall v sha256 decode pw ids fac kind req s f =
     (let quiet = (\<lambda>out. \<lparr>rs_outcome = Inr out, rs_ids = s, rs_fac = f, rs_calls = []\<rparr>) in
      if req_last_route req then quiet NotFound
      else (case read_header v decode pw req of
          Inl out \<Rightarrow> quiet out
        | Inr payment \<Rightarrow> (case kind of
            None \<Rightarrow> quiet (error_answer 503 ''facilitator_unavailable''
              (map_option (\<lambda>p. failure_receipt FACILITATOR_NOT_READY (Some (rd_payer p)) []) payment))
          | Some k \<Rightarrow>
              let requirements = requirements_of pw k in
              (case payment of
                 None \<Rightarrow> quiet (offer pw req requirements None)
               | Some pay \<Rightarrow> serve_payment v sha256 pw ids fac req requirements pay s f))))"

section \<open>The manifest\<close>

record MapaeManifestEndpoint =
  me_method :: string
  me_path :: string
  me_price :: string
  me_description :: string
  me_payTo :: string

text \<open>A mounted route, with the paywall its handler is or wraps, if any (\<^verbatim>\<open>paywallDescriptor\<close>).\<close>

datatype route_handler =
    PlainHandler
  | PaywallHandler Paywall
  | ComposedHandler route_handler

fun paywallDescriptor :: "route_handler \<Rightarrow> Paywall option" where
  "paywallDescriptor PlainHandler = None"
| "paywallDescriptor (PaywallHandler pw) = Some pw"
| "paywallDescriptor (ComposedHandler h) = paywallDescriptor h"

record router_route =
  rt_method :: string
  rt_path :: string
  rt_handler :: route_handler

definition endpoint_of :: "router_route \<Rightarrow> MapaeManifestEndpoint option" where
  "endpoint_of r = (case paywallDescriptor (rt_handler r) of
     None \<Rightarrow> None
   | Some pw \<Rightarrow> Some \<lparr>me_method = rt_method r, me_path = rt_path r, me_price = pw_price pw,
       me_description = pw_description pw, me_payTo = pw_payTo pw\<rparr>)"

text \<open>Path first, then method, in code-unit order.\<close>

definition compareEndpoints :: "MapaeManifestEndpoint \<Rightarrow> MapaeManifestEndpoint \<Rightarrow> int" where
  "compareEndpoints a b =
     (if me_path a \<noteq> me_path b then (if me_path a < me_path b then -1 else 1)
      else if me_method a \<noteq> me_method b then (if me_method a < me_method b then -1 else 1)
      else 0)"

text \<open>\<^verbatim>\<open>endpoints.sort(compareEndpoints)\<close>, a stable sort.\<close>

fun insert_endpoint :: "MapaeManifestEndpoint \<Rightarrow> MapaeManifestEndpoint list \<Rightarrow> MapaeManifestEndpoint list" where
  "insert_endpoint e [] = [e]"
| "insert_endpoint e (x # xs) = (if compareEndpoints e x \<le> 0 then e # x # xs else x # insert_endpoint e xs)"

definition describeRoutes :: "router_route list \<Rightarrow> MapaeManifestEndpoint list" where
  "describeRoutes routes = foldr insert_endpoint (List.map_filter endpoint_of routes) []"

record MapaeManifest =
  mm_name :: string
  mm_chain :: string
  mm_asset :: string
  mm_facilitator :: string
  mm_endpoints :: "MapaeManifestEndpoint list"

definition manifest_name :: "string \<Rightarrow> string result" where
  "manifest_name name = (if trim name = [] then Inl (Error ''manifest name must not be empty'') else Inr (trim name))"

text \<open>The handler: the first request reads the routes, every later one repeats the document.\<close>

definition buildManifest ::
    "string \<Rightarrow> string \<Rightarrow> router_route list \<Rightarrow> MapaeManifest option \<Rightarrow> MapaeManifest" where
  "buildManifest name facilitator routes document = (case document of
     Some d \<Rightarrow> d
   | None \<Rightarrow> \<lparr>mm_name = name, mm_chain = GIWA_SEPOLIA_CAIP2, mm_asset = MOCK_USDC_address,
       mm_facilitator = facilitator, mm_endpoints = describeRoutes routes\<rparr>)"

section \<open>What the manifest lists\<close>

lemma compare_key: "compareEndpoints a b \<le> 0 \<longleftrightarrow> (me_path a, me_method a) \<le> (me_path b, me_method b)"
  by (auto simp: compareEndpoints_def less_eq_prod_def)

lemma insert_endpoint_insort: "insert_endpoint = insort_key (\<lambda>e. (me_path e, me_method e))"
proof (intro ext)
  show "insert_endpoint e xs = insort_key (\<lambda>e. (me_path e, me_method e)) e xs" for e xs
    by (induction xs) (simp_all add: compare_key)
qed

lemma describeRoutes_sort: "describeRoutes routes = sort_key (\<lambda>e. (me_path e, me_method e)) (List.map_filter endpoint_of routes)"
  by (simp add: describeRoutes_def insert_endpoint_insort sort_key_def)

lemma describeRoutes_facts:
  "sorted (map (\<lambda>e. (me_path e, me_method e)) (describeRoutes routes))"
  "set (describeRoutes routes) = {e. \<exists>r \<in> set routes. endpoint_of r = Some e}"
  "length (describeRoutes routes) = length (filter (\<lambda>r. paywallDescriptor (rt_handler r) \<noteq> None) routes)"
proof -
  show "sorted (map (\<lambda>e. (me_path e, me_method e)) (describeRoutes routes))" by (simp add: describeRoutes_sort)
  show "set (describeRoutes routes) = {e. \<exists>r \<in> set routes. endpoint_of r = Some e}"
    by (force simp: describeRoutes_sort map_filter_def)
  have "length (List.map_filter endpoint_of rs) = length (filter (\<lambda>r. paywallDescriptor (rt_handler r) \<noteq> None) rs)" for rs
    by (induction rs) (auto simp: List.map_filter_simps endpoint_of_def)
  then show "length (describeRoutes routes) = length (filter (\<lambda>r. paywallDescriptor (rt_handler r) \<noteq> None) routes)"
    by (simp add: describeRoutes_sort)
qed

section \<open>Reading the fingerprint and the header\<close>

lemma String_chars: "c \<in> set (String i) \<Longrightarrow> is_digit c \<or> c = CHR ''-''"
  using nat_dec_digits by (auto simp: String_def list_all_iff split: if_splits)

lemma requirements_fields [simp]:
  "js_get (requirements_of pw k) ''asset'' = JString MOCK_USDC_address"
  "js_get (requirements_of pw k) ''network'' = JString GIWA_SEPOLIA_CAIP2"
  "js_get (requirements_of pw k) ''amount'' = JString (String (pw_amount pw))"
  "js_get (requirements_of pw k) ''payTo'' = JString (pw_payTo pw)"
  "js_get (requirements_of pw k) ''scheme'' = JString ''exact''"
  by (simp_all add: requirements_of_def)

definition no_newline :: "string \<Rightarrow> bool" where
  "no_newline s \<longleftrightarrow> NEWLINE \<notin> set s"

text \<open>The canonical text of a request keeps its fields apart.\<close>

lemma fingerprint_text_inj:
  assumes "join_with [NEWLINE] (fingerprint_fields r1 u1 m1) = join_with [NEWLINE] (fingerprint_fields r2 u2 m2)"
    and "\<forall>w \<in> set (fingerprint_fields r1 u1 m1) \<union> set (fingerprint_fields r2 u2 m2). no_newline w"
  shows "fingerprint_fields r1 u1 m1 = fingerprint_fields r2 u2 m2"
  using assms by (intro join_inj [OF assms(1)]) (auto simp: fingerprint_fields_def no_newline_def)

lemma fixed_no_newline: "no_newline FINGERPRINT_VERSION" "no_newline GIWA_SEPOLIA_CAIP2" "no_newline MOCK_USDC_address"
    "no_newline ''exact''" "no_newline (String i)"
proof -
  show "no_newline FINGERPRINT_VERSION" "no_newline GIWA_SEPOLIA_CAIP2" "no_newline MOCK_USDC_address" "no_newline ''exact''"
    by (simp_all add: no_newline_def NEWLINE_def FINGERPRINT_VERSION_def GIWA_SEPOLIA_CAIP2_def MOCK_USDC_address_def)
  show "no_newline (String i)"
    using String_chars [of NEWLINE i] by (auto simp: no_newline_def NEWLINE_def is_digit_def char_between_def)
qed

section \<open>The shape of an outcome\<close>

lemma receipt_fields [simp]:
  "js_get (failure_receipt w p t) ''success'' = JBool False"
  "js_get (failure_receipt w p t) ''errorReason'' = JString w"
  "js_get (failure_receipt w p t) ''transaction'' = JString t"
  "js_get (failure_receipt w (Some q) t) ''payer'' = JString q"
  "js_get (failure_receipt w None t) ''payer'' = JUndefined"
  by (auto simp: failure_receipt_def js_get_JObject split: option.splits)

text \<open>Every way a request ends, with what it did to the two services.\<close>

lemma settle_outcome_cases:
  obtains (refused) a where "settle_outcome v pw req r i p l = Inl (Answer a)" "sa_receipt a \<noteq> None"
      "sa_offer a \<noteq> None \<Longrightarrow> sa_status a = 402 \<and> (\<exists>w t. l = LadderFailed w t \<and> w \<noteq> VENDOR_NOT_CREDITED \<and>
         sa_receipt a = Some (failure_receipt w (Some p) (or_blank t)))"
      "\<forall>t rep. l \<noteq> LadderSettled t rep"
  | (settled) t rep where "l = LadderSettled t rep"
      "settle_outcome v pw req r i p l = Inr \<lparr>rc_intent = i, rc_payer = p, rc_amount = fromTokenAmount (pw_amount pw),
          rc_asset = js_text (js_get r ''asset''), rc_payTo = pw_payTo pw, rc_network = GIWA_SEPOLIA_CAIP2,
          rc_transaction = t, rc_replayed = rep\<rparr>"
proof (cases l)
  case (LadderFailed w t)
  show thesis
  proof (cases "w = VENDOR_NOT_CREDITED")
    case True
    then show ?thesis using LadderFailed by (intro refused) (auto simp: settle_outcome_def error_answer_def Let_def)
  next
    case False
    then show ?thesis using LadderFailed by (intro refused) (auto simp: settle_outcome_def offer_def Let_def)
  qed
next
  case (LadderUnavailable w)
  then show thesis by (intro refused) (auto simp: settle_outcome_def error_answer_def)
next
  case (LadderUnknown t)
  then show thesis by (intro refused) (auto simp: settle_outcome_def error_answer_def)
next
  case (LadderSettled t rep)
  then show thesis by (intro settled) (auto simp: settle_outcome_def)
qed

definition settle_answer_of ::
    "viem \<Rightarrow> 'f facilitator_service \<Rightarrow> seller_request \<Rightarrow> js \<Rightarrow> read_payment \<Rightarrow> 'f \<Rightarrow> SettlementLadder \<times> 'f" where
  "settle_answer_of v fac req requirements pay f =
     (let request = facilitator_request (rd_payload pay) requirements;
          (va, f1) = fs_verify fac f request (req_client_ip req);
          (sa, f2) = fs_settle fac f1 request (req_client_ip req)
      in (decideSettlement v sa (rd_payer pay), f2))"

lemma charge_cases:
  obtains (verify_refused) a where "charge_payment v pw ids fac req r i pay s f = \<lparr>rs_outcome = Inr (Answer a), rs_ids = s,
        rs_fac = snd (fs_verify fac f (facilitator_request (rd_payload pay) r) (req_client_ip req)), rs_calls = [CalledVerify]\<rparr>"
      "sa_receipt a \<noteq> None" "sa_offer a \<noteq> None \<Longrightarrow> sa_status a = 402 \<and> (\<exists>w. sa_receipt a = Some (failure_receipt w (Some (rd_payer pay)) []))"
  | (settle_refused) a l f2 where "charge_payment v pw ids fac req r i pay s f = \<lparr>rs_outcome = Inr (Answer a), rs_ids = s,
        rs_fac = f2, rs_calls = [CalledVerify, CalledSettle]\<rparr>"
      "settle_answer_of v fac req r pay f = (l, f2)" "\<forall>t rep. l \<noteq> LadderSettled t rep"
      "sa_receipt a \<noteq> None"
      "sa_offer a \<noteq> None \<Longrightarrow> sa_status a = 402 \<and> (\<exists>w t. l = LadderFailed w t \<and> w \<noteq> VENDOR_NOT_CREDITED \<and>
         sa_receipt a = Some (failure_receipt w (Some (rd_payer pay)) (or_blank t)))"
  | (settled) t rep f2 receipt where "settle_answer_of v fac req r pay f = (LadderSettled t rep, f2)"
      "receipt = \<lparr>rc_intent = i, rc_payer = rd_payer pay, rc_amount = fromTokenAmount (pw_amount pw),
          rc_asset = js_text (js_get r ''asset''), rc_payTo = pw_payTo pw, rc_network = GIWA_SEPOLIA_CAIP2,
          rc_transaction = t, rc_replayed = rep\<rparr>"
      "charge_payment v pw ids fac req r i pay s f = \<lparr>rs_outcome = Inr (deliver receipt),
         rs_ids = record_settled ids (rd_identifier pay) receipt s, rs_fac = f2, rs_calls = [CalledVerify, CalledSettle]\<rparr>"
proof -
  let ?q = "facilitator_request (rd_payload pay) r"
  obtain va f1 where va: "fs_verify fac f ?q (req_client_ip req) = (va, f1)" by fastforce
  obtain sa f2 where sa: "fs_settle fac f1 ?q (req_client_ip req) = (sa, f2)" by fastforce
  have l: "settle_answer_of v fac req r pay f = (decideSettlement v sa (rd_payer pay), f2)"
    by (simp add: settle_answer_of_def va sa)
  show thesis
  proof (cases "decideVerification v va (rd_payer pay)")
    case (VerifyUnavailable w)
    then show ?thesis by (intro verify_refused) (auto simp: charge_payment_def Let_def va error_answer_def)
  next
    case (VerifyRejected w)
    then show ?thesis by (intro verify_refused) (auto simp: charge_payment_def Let_def va offer_def)
  next
    case (VerifyAccepted q)
    show ?thesis
    proof (cases rule: settle_outcome_cases [of v pw req r i "rd_payer pay" "decideSettlement v sa (rd_payer pay)"])
      case (refused a)
      show ?thesis
        by (rule settle_refused [OF _ l]) (use VerifyAccepted va sa refused in \<open>auto simp: charge_payment_def Let_def\<close>)
    next
      case (settled t rep)
      show ?thesis
        by (rule that(3) [OF l [unfolded settled(1)] refl]) (use VerifyAccepted va sa settled in \<open>auto simp: charge_payment_def Let_def\<close>)
    qed
  qed
qed

lemma serve_cases:
  fixes v :: viem and pw :: Paywall and r :: js and pay :: read_payment
    and sha :: "string \<Rightarrow> string" and req :: seller_request
  defines "intent \<equiv> intent_of v pw r (rd_payload pay)"
    and "print \<equiv> requestFingerprint sha r (resource_of pw req) (req_method req)"
  obtains (charged) s' where "serve_payment v sha pw ids fac req r pay s f = charge_payment v pw ids fac req r intent pay s' f"
      "case rd_identifier pay of None \<Rightarrow> s' = s | Some i \<Rightarrow> is_bind ids s i print intent = (Inr BindNew, s')"
  | (fault) e s' where "serve_payment v sha pw ids fac req r pay s f = \<lparr>rs_outcome = Inl e, rs_ids = s', rs_fac = f, rs_calls = []\<rparr>"
  | (conflict) i reason settled s' where "rd_identifier pay = Some i" "is_bind ids s i print intent = (Inr (BindConflict reason settled), s')"
      "serve_payment v sha pw ids fac req r pay s f =
         \<lparr>rs_outcome = Inr (conflict_answer (rd_payer pay) reason settled), rs_ids = s', rs_fac = f, rs_calls = []\<rparr>"
  | (replayed) i p s' where "rd_identifier pay = Some i" "is_bind ids s i print intent = (Inr (BindSettled p), s')"
      "serve_payment v sha pw ids fac req r pay s f =
         \<lparr>rs_outcome = Inr (deliver (stored_receipt pw r intent p)), rs_ids = s', rs_fac = f, rs_calls = []\<rparr>"
proof (cases "rd_identifier pay")
  case None
  then show thesis using charged [of s] intent_def print_def by (simp add: serve_payment_def Let_def)
next
  case (Some i)
  show thesis
  proof (cases "is_bind ids s i print intent")
    case b: (Pair r' s')
    show ?thesis
    proof (cases r')
      case (Inl e)
      then show ?thesis using fault Some b intent_def print_def by (simp add: serve_payment_def Let_def)
    next
      case r': (Inr w)
      show ?thesis
      proof (cases w)
        case BindNew
        then show ?thesis using charged [of s'] Some r' b intent_def print_def by (simp add: serve_payment_def Let_def)
      next
        case (BindSettled p)
        then show ?thesis using replayed [OF Some] r' b Some intent_def print_def by (simp add: serve_payment_def Let_def)
      next
        case (BindConflict reason settled)
        then show ?thesis using conflict [OF Some] r' b Some intent_def print_def by (simp add: serve_payment_def Let_def)
      qed
    qed
  qed
qed

lemma paywall_cases:
  obtains (not_found) "req_last_route req"
      "paywall v sha decode pw ids fac kind req s f = \<lparr>rs_outcome = Inr NotFound, rs_ids = s, rs_fac = f, rs_calls = []\<rparr>"
  | (malformed) a where "\<not> req_last_route req" "req_payment_header req \<noteq> None" "sa_offer a = None" "sa_receipt a \<noteq> None" "sa_status a = 400"
      "paywall v sha decode pw ids fac kind req s f = \<lparr>rs_outcome = Inr (Answer a), rs_ids = s, rs_fac = f, rs_calls = []\<rparr>"
  | (no_kind) a where "\<not> req_last_route req" "kind = None" "sa_offer a = None"
      "sa_receipt a = None \<longleftrightarrow> req_payment_header req = None"
      "paywall v sha decode pw ids fac kind req s f = \<lparr>rs_outcome = Inr (Answer a), rs_ids = s, rs_fac = f, rs_calls = []\<rparr>"
  | (unpaid) a k where "\<not> req_last_route req" "kind = Some k" "req_payment_header req = None" "sa_status a = 402" "sa_receipt a = None"
      "sa_offer a = Some (offer_body pw req (requirements_of pw k))"
      "paywall v sha decode pw ids fac kind req s f = \<lparr>rs_outcome = Inr (Answer a), rs_ids = s, rs_fac = f, rs_calls = []\<rparr>"
  | (paid) k pay where "\<not> req_last_route req" "kind = Some k" "req_payment_header req \<noteq> None" "read_header v decode pw req = Inr (Some pay)"
      "paywall v sha decode pw ids fac kind req s f = serve_payment v sha pw ids fac req (requirements_of pw k) pay s f"
proof (cases "req_last_route req")
  case True
  then show thesis using not_found by (simp add: paywall_def)
next
  case go: False
  show thesis
  proof (cases "req_payment_header req")
    case None
    then have h: "read_header v decode pw req = Inr None" by (simp add: read_header_def)
    show ?thesis
    proof (cases kind)
      case None
      then show ?thesis using go h \<open>req_payment_header req = None\<close>
        by (intro no_kind) (auto simp: paywall_def error_answer_def Let_def)
    next
      case (Some k)
      then show ?thesis using go h None by (intro unpaid) (auto simp: paywall_def offer_def Let_def)
    qed
  next
    case (Some header)
    show ?thesis
    proof (cases "read_header v decode pw req")
      case (Inl out)
      then obtain d p where "out = malformed_answer d p"
        using Some by (auto simp: read_header_def Let_def split: if_splits sum.splits PaymentIdentifierRead.splits)
      then show ?thesis using go Some Inl by (intro malformed) (auto simp: paywall_def malformed_answer_def)
    next
      case (Inr payment)
      then obtain pay where pay: "payment = Some pay"
        using Some by (auto simp: read_header_def Let_def split: if_splits sum.splits PaymentIdentifierRead.splits)
      show ?thesis
      proof (cases kind)
        case None
        then show ?thesis using go Some Inr pay
          by (intro no_kind) (auto simp: paywall_def error_answer_def Let_def)
      next
        case (Some k)
        then show ?thesis using go \<open>req_payment_header req = Some header\<close> Inr pay by (intro paid) (auto simp: paywall_def Let_def)
      qed
    qed
  qed
qed

section \<open>Properties\<close>

lemma failed_hash_mined:
  assumes "decideSettlement v sa p = LadderFailed w t" shows "t = None \<or> w \<in> set MINED_REFUSAL_REASONS"
  using assms by (cases rule: decideSettlement_cases [of v sa p]) auto

text \<open>The two answers a payment gets from the facilitator, and a refusal after which no money can have moved.\<close>

definition verify_body ::
    "'f facilitator_service \<Rightarrow> seller_request \<Rightarrow> js \<Rightarrow> read_payment \<Rightarrow> 'f \<Rightarrow> FacilitatorAnswer" where
  "verify_body fac req requirements pay f =
     fst (fs_verify fac f (facilitator_request (rd_payload pay) requirements) (req_client_ip req))"

definition settle_body ::
    "'f facilitator_service \<Rightarrow> seller_request \<Rightarrow> js \<Rightarrow> read_payment \<Rightarrow> 'f \<Rightarrow> FacilitatorAnswer" where
  "settle_body fac req requirements pay f =
     (let request = facilitator_request (rd_payload pay) requirements in
      fst (fs_settle fac (snd (fs_verify fac f request (req_client_ip req))) request (req_client_ip req)))"

definition clean_refusal :: "FacilitatorAnswer \<Rightarrow> string \<Rightarrow> string \<Rightarrow> bool" where
  "clean_refusal answer word transaction \<longleftrightarrow> fa_reachable answer \<and> js_get (fa_body answer) ''success'' \<noteq> JBool True \<and>
     js_get (fa_body answer) ''errorReason'' \<notin> {JString SETTLEMENT_PENDING, JString UNEXPECTED_SETTLE_ERROR,
       JString RATE_LIMITED, JString FACILITATOR_NOT_READY} \<and>
     word = foldRefusalReason (js_get (fa_body answer) ''errorReason'') \<and>
     (case readTransaction (js_get (fa_body answer) ''transaction'') of
        None \<Rightarrow> transaction = []
      | Some h \<Rightarrow> transaction = h \<and> word = SETTLEMENT_REVERTED)"

lemma failed_clean:
  assumes "decideSettlement v answer p = LadderFailed word t" "word \<noteq> VENDOR_NOT_CREDITED"
  shows "clean_refusal answer word (or_blank t)"
  using assms
  by (cases t; cases "readTransaction (js_get (fa_body answer) ''transaction'')")
    (use assms in \<open>simp_all add: decideSettlement_def clean_refusal_def mined_words or_blank_def Let_def split: if_splits\<close>)

lemma charge_receipt:
  assumes "rs_outcome (charge_payment v pw ids fac req r i pay s f) = Inr (Answer a)" shows "sa_receipt a \<noteq> None"
  by (cases rule: charge_cases [of v pw ids fac req r i pay s f]) (use assms in \<open>auto simp: deliver_def\<close>)

lemma charge_offer:
  assumes "rs_outcome (charge_payment v pw ids fac req r i pay s f) = Inr (Answer a)" "sa_offer a = Some x"
  shows "sa_status a = 402 \<and> x = offer_body pw req r \<and>
    (\<exists>w t. sa_receipt a = Some (failure_receipt w (Some (rd_payer pay)) t) \<and>
      (rs_calls (charge_payment v pw ids fac req r i pay s f) = [CalledVerify] \<and> t = [] \<and>
         decideVerification v (verify_body fac req r pay f) (rd_payer pay) = VerifyRejected w \<or>
       rs_calls (charge_payment v pw ids fac req r i pay s f) = [CalledVerify, CalledSettle] \<and>
         clean_refusal (settle_body fac req r pay f) w t))"
proof -
  let ?q = "facilitator_request (rd_payload pay) r"
  obtain va f1 where va: "fs_verify fac f ?q (req_client_ip req) = (va, f1)" by fastforce
  obtain sa f2 where sa: "fs_settle fac f1 ?q (req_client_ip req) = (sa, f2)" by fastforce
  have bodies: "verify_body fac req r pay f = va" "settle_body fac req r pay f = sa"
    by (simp_all add: verify_body_def settle_body_def va sa)
  show ?thesis
  proof (cases "decideVerification v va (rd_payer pay)")
    case (VerifyAccepted q)
    let ?l = "decideSettlement v sa (rd_payer pay)"
    have out: "settle_outcome v pw req r i (rd_payer pay) ?l = Inl (Answer a)"
        "rs_calls (charge_payment v pw ids fac req r i pay s f) = [CalledVerify, CalledSettle]"
      using assms(1) VerifyAccepted va sa by (auto simp: charge_payment_def Let_def deliver_def split: sum.splits)
    obtain w t where l: "?l = LadderFailed w t" "w \<noteq> VENDOR_NOT_CREDITED"
    proof (cases rule: settle_outcome_cases [of v pw req r i "rd_payer pay" ?l])
      case (refused b)
      then show ?thesis using that out(1) assms(2) by auto
    next
      case (settled t rep)
      then show ?thesis using out(1) by simp
    qed
    have "a = \<lparr>sa_status = 402, sa_body = offer_body pw req r, sa_offer = Some (offer_body pw req r),
        sa_receipt = Some (failure_receipt w (Some (rd_payer pay)) (or_blank t))\<rparr>"
      using out(1) l by (simp add: settle_outcome_def offer_def Let_def)
    then have "sa_status a = 402" "x = offer_body pw req r" "sa_receipt a = Some (failure_receipt w (Some (rd_payer pay)) (or_blank t))"
      using assms(2) by simp_all
    then show ?thesis using out(2) failed_clean [OF l(1,2)] bodies(2) by blast
  next
    case (VerifyUnavailable w)
    then have "sa_offer a = None" using assms(1) va by (auto simp: charge_payment_def error_answer_def Let_def)
    then show ?thesis using assms(2) by simp
  next
    case (VerifyRejected w)
    have r: "charge_payment v pw ids fac req r i pay s f = \<lparr>rs_outcome = Inr (offer pw req r (Some (failure_receipt w (Some (rd_payer pay)) []))),
        rs_ids = s, rs_fac = f1, rs_calls = [CalledVerify]\<rparr>"
      using VerifyRejected va by (simp add: charge_payment_def Let_def)
    then have "a = \<lparr>sa_status = 402, sa_body = offer_body pw req r, sa_offer = Some (offer_body pw req r),
        sa_receipt = Some (failure_receipt w (Some (rd_payer pay)) [])\<rparr>"
      using assms(1) by (simp add: offer_def Let_def)
    then show ?thesis using assms(2) r VerifyRejected bodies(1) by auto
  qed
qed

lemma conflict_answer_shape:
  "\<exists>a. conflict_answer p reason settled = Answer a \<and> sa_receipt a \<noteq> None \<and> sa_offer a = None \<and> sa_status a = 409"
  by (simp add: conflict_answer_def Let_def)

lemma answer_accounts:
  assumes "rs_outcome (paywall v sha decode pw ids fac kind req s f) = Inr (Answer a)"
  shows "sa_receipt a \<noteq> None \<longleftrightarrow> req_payment_header req \<noteq> None"
proof (cases rule: paywall_cases [of req v sha decode pw ids fac kind s f])
  case (paid k pay)
  show ?thesis
  proof (cases rule: serve_cases [where v = v and pw = pw and r = "requirements_of pw k" and pay = pay and sha = sha and req = req and ids = ids and fac = fac and s = s and f = f])
    case (charged s')
    then show ?thesis using charge_receipt [of v pw ids fac req] assms paid by simp
  next
    case (conflict i reason settled s')
    then show ?thesis using assms paid conflict_answer_shape [of "rd_payer pay" reason settled] by auto
  next
    case (replayed i p s')
    then show ?thesis using assms paid by (simp add: deliver_def)
  qed (use assms paid in simp)
qed (use assms in auto)

lemma offer_accounts:
  assumes "rs_outcome (paywall v sha decode pw ids fac kind req s f) = Inr (Answer a)" "sa_offer a = Some x"
  shows "sa_status a = 402 \<and> (\<exists>k. kind = Some k \<and> x = offer_body pw req (requirements_of pw k) \<and>
    (req_payment_header req = None \<and> rs_calls (paywall v sha decode pw ids fac kind req s f) = [] \<or>
     (\<exists>pay w t. read_header v decode pw req = Inr (Some pay) \<and> sa_receipt a = Some (failure_receipt w (Some (rd_payer pay)) t) \<and>
       (rs_calls (paywall v sha decode pw ids fac kind req s f) = [CalledVerify] \<and> t = [] \<and>
          decideVerification v (verify_body fac req (requirements_of pw k) pay f) (rd_payer pay) = VerifyRejected w \<or>
        rs_calls (paywall v sha decode pw ids fac kind req s f) = [CalledVerify, CalledSettle] \<and>
          clean_refusal (settle_body fac req (requirements_of pw k) pay f) w t))))"
proof (cases rule: paywall_cases [of req v sha decode pw ids fac kind s f])
  case (paid k pay)
  show ?thesis
  proof (cases rule: serve_cases [where v = v and pw = pw and r = "requirements_of pw k" and pay = pay and sha = sha and req = req and ids = ids and fac = fac and s = s and f = f])
    case (charged s')
    then show ?thesis using charge_offer [of v pw ids fac req] assms paid by fastforce
  next
    case (conflict i reason settled s')
    then show ?thesis using assms paid conflict_answer_shape [of "rd_payer pay" reason settled] by auto
  next
    case (replayed i p s')
    then show ?thesis using assms paid by (simp add: deliver_def)
  qed (use assms paid in simp)
qed (use assms in auto)

section \<open>A sample sale, for the witnesses\<close>

definition sample_url :: url where
  "sample_url = \<lparr>u_protocol = ''https:'', u_username = [], u_password = [], u_hostname = ''shop.example'',
     u_origin = ''https://shop.example'', u_pathname = ''/report'', u_search = [], u_hash = [], u_href = ''https://shop.example/report''\<rparr>"

definition sample_paywall :: Paywall where
  "sample_paywall = \<lparr>pw_payTo = addr CHR ''1'', pw_amount = 5, pw_description = ''report'', pw_advertised = None,
     pw_identifiers = False, pw_baseUrl = None, pw_price = ''0.000005''\<rparr>"

definition sample_request :: seller_request where
  "sample_request = \<lparr>req_last_route = False, req_payment_header = Some ''x'', req_url = ''https://shop.example/report'',
     req_parsed = sample_url, req_method = ''get'', req_client_ip = None\<rparr>"

definition sample_kind :: FacilitatorKind where
  "sample_kind = \<lparr>fk_facilitatorAddresses = [addr CHR ''1''], fk_delegationManager = None\<rparr>"

definition sample_payer :: string where
  "sample_payer = v_getAddress sample_viem (addr CHR ''3'')"

definition paying_facilitator :: "nat facilitator_service" where
  "paying_facilitator = \<lparr>
     fs_verify = (\<lambda>f _ _. (\<lparr>fa_reachable = True, fa_body = JObject [(''isValid'', JBool True), (''payer'', JString sample_payer)]\<rparr>, f)),
     fs_settle = (\<lambda>f _ _. (\<lparr>fa_reachable = True, fa_body = JObject [(''success'', JBool True), (''payer'', JString sample_payer)]\<rparr>, f))\<rparr>"

definition no_identifiers :: "nat identifier_service" where
  "no_identifiers = \<lparr>is_bind = (\<lambda>s _ _ _. (Inr BindNew, s)), is_record = (\<lambda>s _ _ _. Inr s)\<rparr>"

lemma sample_payer_named: "names_payer sample_viem (JString sample_payer) sample_payer"
  using viem_isAddress_get [OF sample_viem_ok, of "addr CHR ''3''"] viem_getAddress_idem [OF sample_viem_ok, of "addr CHR ''3''"]
  by (simp add: names_payer_def sample_payer_def)

lemma sample_verified: "decideVerification sample_viem (fst (fs_verify paying_facilitator u q ip)) sample_payer = VerifyAccepted sample_payer"
  using sample_payer_named
  by (simp add: decideVerification_def paying_facilitator_def isVerificationAccepted_def is_object_body_def js_get_def Let_def)

lemma sample_settled: "decideSettlement sample_viem (fst (fs_settle paying_facilitator u q ip)) sample_payer = LadderSettled None False"
  using sample_payer_named
  by (simp add: decideSettlement_def paying_facilitator_def is_object_body_def js_get_def Let_def readTransaction_def)

lemma sample_unnamed: "readPaymentIdentifier sample_payload = IdAbsent"
proof -
  have "js_get sample_payload ''extensions'' = JUndefined"
    by (simp add: sample_payload_def buildErc7710PaymentPayload_def js_get_JObject)
  then show ?thesis by (simp add: readPaymentIdentifier_def asRecord_def is_object_body_def split: option.split)
qed

lemma sample_read:
  "read_header sample_viem (\<lambda>_. Some sample_payload) pw sample_request
     = Inr (Some \<lparr>rd_payload = sample_payload, rd_payer = sample_payer, rd_identifier = None\<rparr>)"
proof -
  have "js_get sample_payload ''accepted'' = sample_offer" "js_get (js_get sample_payload ''payload'') ''delegationManager'' = JString (addr CHR ''2'')"
    "js_get (js_get sample_payload ''payload'') ''permissionContext'' = JString (addr CHR ''3'')"
    "js_get (js_get sample_payload ''payload'') ''delegator'' = JString (addr CHR ''3'')"
    by (simp_all add: sample_payload_def)
  moreover have "js_get (js_get sample_offer ''extra'') ''assetTransferMethod'' = JString ''erc7710''"
    by (simp add: sample_offer_def)
  ultimately show ?thesis
    by (simp add: read_header_def sample_request_def readDelegatedPayment_def delegation_payload_ok_def sample_unnamed
        sample_payer_def MAX_PAYMENT_HEADER_LENGTH_def Let_def)
qed

lemma sample_sale:
  "\<exists>receipt. rs_outcome (paywall sample_viem id (\<lambda>_. Some sample_payload) sample_paywall no_identifiers paying_facilitator
     (Some sample_kind) sample_request 0 0) = Inr (Deliver receipt (success_receipt receipt))"
proof -
  let ?r = "requirements_of sample_paywall sample_kind" and ?ip = "req_client_ip sample_request"
  obtain va u1 where va: "fs_verify paying_facilitator 0 (facilitator_request sample_payload ?r) ?ip = (va, u1)" by (rule prod.exhaust)
  obtain sa u2 where sa: "fs_settle paying_facilitator u1 (facilitator_request sample_payload ?r) ?ip = (sa, u2)" by (rule prod.exhaust)
  have d: "decideVerification sample_viem va sample_payer = VerifyAccepted sample_payer"
    "decideSettlement sample_viem sa sample_payer = LadderSettled None False"
    using sample_verified [of 0 "facilitator_request sample_payload ?r" ?ip]
      sample_settled [of u1 "facilitator_request sample_payload ?r" ?ip] va sa by simp_all
  have l: "\<not> req_last_route sample_request" by (simp add: sample_request_def)
  show ?thesis
    by (simp add: paywall_def l sample_read serve_payment_def charge_payment_def va sa d settle_outcome_def deliver_def Let_def)
qed

text \<open>C24: the paywall never asks for a second payment while the first is in doubt. An answer
  carries a settlement receipt exactly when the request carried a payment. An offer goes out only as
  a 402 and only in three cases: no payment was presented; the facilitator rejected the payment at
  \<^verbatim>\<open>/verify\<close> and was never asked to settle; or its settle answer arrived, claimed no success, said
  none of pending, unexpected, rate limited and not ready, and either names no hash (the receipt is
  then blank) or names one, with the word for a mined and reverted redemption, and the receipt carries
  that hash. A lost answer, a pending settlement, a hash under any other word, a misdirected credit, a
  conflict and an unreadable header never re-issue it. (The comment in the code goes further: it
  says no offer ever stands beside a hash; the reverted redemption is the exception.)\<close>

theorem offer_only_when_uncharged:
  assumes "rs_outcome (paywall v sha decode pw ids fac kind req s f) = Inr (Answer a)"
  shows "(sa_receipt a \<noteq> None \<longleftrightarrow> req_payment_header req \<noteq> None) \<and>
    (\<forall>x. sa_offer a = Some x \<longrightarrow> sa_status a = 402 \<and> (\<exists>k. kind = Some k \<and> x = offer_body pw req (requirements_of pw k) \<and>
      (req_payment_header req = None \<and> rs_calls (paywall v sha decode pw ids fac kind req s f) = [] \<or>
       (\<exists>pay w t. read_header v decode pw req = Inr (Some pay) \<and> sa_receipt a = Some (failure_receipt w (Some (rd_payer pay)) t) \<and>
         (rs_calls (paywall v sha decode pw ids fac kind req s f) = [CalledVerify] \<and> t = [] \<and>
            decideVerification v (verify_body fac req (requirements_of pw k) pay f) (rd_payer pay) = VerifyRejected w \<or>
          rs_calls (paywall v sha decode pw ids fac kind req s f) = [CalledVerify, CalledSettle] \<and>
            clean_refusal (settle_body fac req (requirements_of pw k) pay f) w t)))))"
  using answer_accounts [OF assms] offer_accounts [OF assms] by blast

text \<open>A facilitator that accepts and then refuses the sample payment with a word and perhaps a hash.\<close>

definition refusing_facilitator :: "string \<Rightarrow> string \<Rightarrow> nat facilitator_service" where
  "refusing_facilitator word hash = paying_facilitator\<lparr>
     fs_settle := (\<lambda>f _ _. (\<lparr>fa_reachable = True, fa_body = JObject [(''success'', JBool False),
       (''errorReason'', JString word), (''transaction'', JString hash)]\<rparr>, f))\<rparr>"

lemma refused_sale:
  "\<exists>a. rs_outcome (paywall sample_viem id (\<lambda>_. Some sample_payload) sample_paywall no_identifiers (refusing_facilitator DELEGATION_REJECTED [])
     (Some sample_kind) sample_request 0 0) = Inr (Answer a) \<and> sa_offer a \<noteq> None"
proof -
  let ?r = "requirements_of sample_paywall sample_kind" and ?ip = "req_client_ip sample_request"
  have va: "fs_verify (refusing_facilitator w h) = fs_verify paying_facilitator" for w h by (simp add: refusing_facilitator_def)
  obtain va u1 where v: "fs_verify paying_facilitator 0 (facilitator_request sample_payload ?r) ?ip = (va, u1)" by (rule prod.exhaust)
  have d: "decideVerification sample_viem va sample_payer = VerifyAccepted sample_payer"
    using sample_verified [of 0 "facilitator_request sample_payload ?r" ?ip] v by simp
  have "decideSettlement sample_viem \<lparr>fa_reachable = True, fa_body = JObject [(''success'', JBool False),
       (''errorReason'', JString DELEGATION_REJECTED), (''transaction'', JString [])]\<rparr> sample_payer = LadderFailed DELEGATION_REJECTED None"
    by (simp add: decideSettlement_def is_object_body_def js_get_def wire_words foldRefusalReason_def KNOWN_REFUSAL_REASONS_def
        readTransaction_def hex_literal_def Let_def)
  moreover have "\<not> req_last_route sample_request" by (simp add: sample_request_def)
  ultimately show ?thesis
    by (simp add: paywall_def sample_read serve_payment_def charge_payment_def va v d settle_outcome_def offer_def Let_def wire_words)
      (simp add: refusing_facilitator_def offer_def wire_words)
qed

theorem offer_only_when_uncharged_witness:
  "\<exists>a w t. rs_outcome (paywall sample_viem id (\<lambda>_. Some sample_payload) sample_paywall no_identifiers (refusing_facilitator DELEGATION_REJECTED [])
     (Some sample_kind) sample_request 0 0) = Inr (Answer a) \<and> sa_offer a \<noteq> None \<and>
     sa_receipt a = Some (failure_receipt w (Some sample_payer) t)"
proof -
  obtain a where a: "rs_outcome (paywall sample_viem id (\<lambda>_. Some sample_payload) sample_paywall no_identifiers (refusing_facilitator DELEGATION_REJECTED [])
     (Some sample_kind) sample_request 0 0) = Inr (Answer a)" "sa_offer a \<noteq> None" using refused_sale by blast
  moreover have "req_payment_header sample_request \<noteq> None" by (simp add: sample_request_def)
  moreover obtain x where "sa_offer a = Some x" using a(2) by blast
  moreover note offer_only_when_uncharged [OF a(1), THEN conjunct2, rule_format, of x]
  ultimately obtain pay w t where "read_header sample_viem (\<lambda>_. Some sample_payload) sample_paywall sample_request = Inr (Some pay)"
      "sa_receipt a = Some (failure_receipt w (Some (rd_payer pay)) t)"
    by metis
  then have "sa_receipt a = Some (failure_receipt w (Some sample_payer) t)" by (auto simp: sample_read)
  then show ?thesis using a by blast
qed

lemma delivery_accounts:
  assumes "rs_outcome (paywall v sha decode pw ids fac kind req s f) = Inr (Deliver receipt doc)"
  shows "\<exists>k pay. kind = Some k \<and> read_header v decode pw req = Inr (Some pay) \<and>
    rc_intent receipt = intent_of v pw (requirements_of pw k) (rd_payload pay) \<and>
    rc_payTo receipt = pw_payTo pw \<and> rc_amount receipt = fromTokenAmount (pw_amount pw) \<and>
    ((rs_calls (paywall v sha decode pw ids fac kind req s f) = [CalledVerify, CalledSettle] \<and>
      rc_payer receipt = rd_payer pay \<and>
      (\<exists>s'. settle_answer_of v fac req (requirements_of pw k) pay f
         = (LadderSettled (rc_transaction receipt) (rc_replayed receipt), rs_fac (paywall v sha decode pw ids fac kind req s f)) \<and>
         rs_ids (paywall v sha decode pw ids fac kind req s f) = record_settled ids (rd_identifier pay) receipt s')) \<or>
     (rs_calls (paywall v sha decode pw ids fac kind req s f) = [] \<and> rs_fac (paywall v sha decode pw ids fac kind req s f) = f \<and>
      rc_replayed receipt \<and> (\<exists>i s'. rd_identifier pay = Some i \<and>
        is_bind ids s i (requestFingerprint sha (requirements_of pw k) (resource_of pw req) (req_method req)) (rc_intent receipt)
          = (Inr (BindSettled \<lparr>rp_payer = rc_payer receipt, rp_txHash = rc_transaction receipt\<rparr>), s'))))"
proof (cases rule: paywall_cases [of req v sha decode pw ids fac kind s f])
  case (paid k pay)
  show ?thesis
  proof (cases rule: serve_cases [where v = v and pw = pw and r = "requirements_of pw k" and pay = pay and sha = sha and req = req and ids = ids and fac = fac and s = s and f = f])
    case (charged s')
    show ?thesis
    proof (cases rule: charge_cases [of v pw ids fac req "requirements_of pw k" "intent_of v pw (requirements_of pw k) (rd_payload pay)" pay s' f])
      case (settled t rep f2 rc)
      then have "receipt = rc" using assms paid charged by (simp add: deliver_def)
      then show ?thesis using settled paid charged by (intro exI [of _ k] exI [of _ pay]) auto
    qed (use assms paid charged in auto)
  next
    case (conflict i reason settled s')
    then show ?thesis using assms paid conflict_answer_shape [of "rd_payer pay" reason settled] by auto
  next
    case (replayed i p s')
    then have "receipt = stored_receipt pw (requirements_of pw k) (intent_of v pw (requirements_of pw k) (rd_payload pay)) p"
      using assms paid by (simp add: deliver_def)
    then show ?thesis using replayed paid
      by (intro exI [of _ k] exI [of _ pay]) (auto simp: stored_receipt_def)
  qed (use assms paid in simp)
qed (use assms in auto)

text \<open>C25: nothing is delivered unpaid. The protected handler runs only for a readable payment
  that either settled in this call, by a facilitator answer whose payer is the payment's own,
  or was bound earlier under the same identifier, fingerprint and intent with a stored
  settlement, in which case the facilitator is not called and its state does not change. The
  receipt names this paywall's recipient and price and the intent of this very payment.\<close>

theorem delivery_is_paid:
  assumes "rs_outcome (paywall v sha decode pw ids fac kind req s f) = Inr (Deliver receipt doc)"
  shows "\<exists>k pay. kind = Some k \<and> read_header v decode pw req = Inr (Some pay) \<and>
    rc_intent receipt = intent_of v pw (requirements_of pw k) (rd_payload pay) \<and>
    rc_payTo receipt = pw_payTo pw \<and> rc_amount receipt = fromTokenAmount (pw_amount pw) \<and>
    ((rs_calls (paywall v sha decode pw ids fac kind req s f) = [CalledVerify, CalledSettle] \<and>
      rc_payer receipt = rd_payer pay \<and>
      (\<exists>s'. settle_answer_of v fac req (requirements_of pw k) pay f
         = (LadderSettled (rc_transaction receipt) (rc_replayed receipt), rs_fac (paywall v sha decode pw ids fac kind req s f)) \<and>
         rs_ids (paywall v sha decode pw ids fac kind req s f) = record_settled ids (rd_identifier pay) receipt s')) \<or>
     (rs_calls (paywall v sha decode pw ids fac kind req s f) = [] \<and> rs_fac (paywall v sha decode pw ids fac kind req s f) = f \<and>
      rc_replayed receipt \<and> (\<exists>i s'. rd_identifier pay = Some i \<and>
        is_bind ids s i (requestFingerprint sha (requirements_of pw k) (resource_of pw req) (req_method req)) (rc_intent receipt)
          = (Inr (BindSettled \<lparr>rp_payer = rc_payer receipt, rp_txHash = rc_transaction receipt\<rparr>), s'))))"
  by (rule delivery_accounts [OF assms])

theorem delivery_is_paid_witness:
  "\<exists>receipt doc. rs_outcome (paywall sample_viem id (\<lambda>_. Some sample_payload) sample_paywall no_identifiers paying_facilitator
     (Some sample_kind) sample_request 0 0) = Inr (Deliver receipt doc) \<and> rc_payTo receipt = addr CHR ''1''"
proof -
  obtain receipt where r: "rs_outcome (paywall sample_viem id (\<lambda>_. Some sample_payload) sample_paywall no_identifiers
     paying_facilitator (Some sample_kind) sample_request 0 0) = Inr (Deliver receipt (success_receipt receipt))"
    using sample_sale by blast
  from delivery_is_paid [OF r] have "rc_payTo receipt = addr CHR ''1''" by (auto simp: sample_paywall_def)
  with r show ?thesis by blast
qed

end
