(* ===== verification/Store_Shop.thy ===== *)
theory Store_Shop
  imports Store_Ledger Payment_Identifiers Write_Once "HOL-Library.Word"
begin

unbundle bit_operations_syntax

text \<open>
  The hosted shop's tables (\<^verbatim>\<open>createSellers\<close>, \<^verbatim>\<open>createItems\<close> and \<^verbatim>\<open>createOrders\<close> of
  \<^verbatim>\<open>packages/store/src/index.ts\<close>, with their schema): who sells, what is sold, and what was
  bought with which payment. A statement that breaks a constraint of the schema throws and
  leaves the tables as they were. Two orders whose freshly drawn tickets collide are such a
  breach.
\<close>

section \<open>Validators\<close>

definition slug_char :: "char \<Rightarrow> bool" where
  "slug_char c \<longleftrightarrow> is_lower c \<or> is_digit c"

definition is_slug :: "string \<Rightarrow> bool" where
  "is_slug s \<longleftrightarrow> s \<noteq> [] \<and> length s \<le> 64 \<and> slug_char (hd s) \<and> list_all (\<lambda>c. slug_char c \<or> c = CHR ''-'') s"

definition slugKey :: "string \<Rightarrow> string \<Rightarrow> string result" where
  "slugKey value name = (if is_slug value then Inr value
     else Inl (TypeError (name @ '' must be 1-64 lowercase letters, digits or hyphens'')))"

definition flag :: "bool \<Rightarrow> int" where
  "flag value = (if value then 1 else 0)"

definition tokenHash :: "string \<Rightarrow> string result" where
  "tokenHash value = (if is_sha256_hex value then Inr value
     else Inl (TypeError ''manageTokenHash must be 64 lowercase hex characters (sha256)''))"

definition optionalTokenHash :: "string option \<Rightarrow> string option result" where
  "optionalTokenHash value = (case value of
     None \<Rightarrow> Inr None | Some h \<Rightarrow> ebind (tokenHash h) (\<lambda>t. Inr (Some t)))"

section \<open>Rows\<close>

datatype SellerKind = Hosted | External

record SellerInput =
  sli_slug :: string
  sli_kind :: SellerKind
  sli_name :: string
  sli_pay_to :: string
  sli_base_url :: "string option"
  sli_token_hash :: "string option"
  sli_contact :: "string option"
  sli_internal :: bool
  sli_created :: int

record SellerRow =
  sl_slug :: string
  sl_kind :: SellerKind
  sl_name :: string
  sl_pay_to :: string
  sl_base_url :: "string option"
  sl_manage_token_hash :: "string option"
  sl_contact :: "string option"
  sl_internal :: int
  sl_created_at :: int

record Seller =
  se_slug :: string
  se_kind :: SellerKind
  se_name :: string
  se_payTo :: string
  se_baseUrl :: "string option"
  se_manageTokenHash :: "string option"
  se_contact :: "string option"
  se_internal :: bool
  se_createdAt :: int

definition toSeller :: "SellerRow \<Rightarrow> Seller" where
  "toSeller r = \<lparr>se_slug = sl_slug r, se_kind = sl_kind r, se_name = sl_name r, se_payTo = sl_pay_to r,
     se_baseUrl = sl_base_url r, se_manageTokenHash = sl_manage_token_hash r, se_contact = sl_contact r,
     se_internal = (sl_internal r = 1), se_createdAt = sl_created_at r\<rparr>"

record ItemInput =
  ii_sellerSlug :: string
  ii_key :: string
  ii_name :: string
  ii_description :: string
  ii_priceBase :: int
  ii_resourceUrl :: "string option"
  ii_createdAt :: int

record ItemRow =
  it_id :: int
  it_seller_slug :: string
  it_key :: string
  it_name :: string
  it_description :: string
  it_price_base :: string
  it_resource_url :: "string option"
  it_created_at :: int

record Item =
  im_id :: int
  im_sellerSlug :: string
  im_key :: string
  im_name :: string
  im_description :: string
  im_priceBase :: int
  im_resourceUrl :: "string option"
  im_createdAt :: int

definition toItem :: "ItemRow \<Rightarrow> Item" where
  "toItem r = \<lparr>im_id = it_id r, im_sellerSlug = it_seller_slug r, im_key = it_key r, im_name = it_name r,
     im_description = it_description r, im_priceBase = BigInt (it_price_base r),
     im_resourceUrl = it_resource_url r, im_createdAt = it_created_at r\<rparr>"

record OrderInput =
  oi_sellerSlug :: string
  oi_itemKey :: string
  oi_paymentIntentId :: string
  oi_payer :: string
  oi_amountBase :: int
  oi_txHash :: "string option"
  oi_status :: string
  oi_createdAt :: int

record OrderRow =
  or_id :: int
  or_seller_slug :: string
  or_item_key :: string
  or_payment_intent_id :: string
  or_ticket :: string
  or_payer :: string
  or_amount_base :: string
  or_tx_hash :: "string option"
  or_status :: string
  or_created_at :: int

record Order =
  od_id :: int
  od_sellerSlug :: string
  od_itemKey :: string
  od_paymentIntentId :: string
  od_ticket :: string
  od_payer :: string
  od_amountBase :: int
  od_txHash :: "string option"
  od_status :: string
  od_createdAt :: int

definition toOrder :: "OrderRow \<Rightarrow> Order" where
  "toOrder r = \<lparr>od_id = or_id r, od_sellerSlug = or_seller_slug r, od_itemKey = or_item_key r,
     od_paymentIntentId = or_payment_intent_id r, od_ticket = or_ticket r, od_payer = or_payer r,
     od_amountBase = BigInt (or_amount_base r), od_txHash = or_tx_hash r, od_status = or_status r,
     od_createdAt = or_created_at r\<rparr>"

record shop_db =
  sh_sellers :: "SellerRow list"
  sh_items :: "ItemRow list"
  sh_orders :: "OrderRow list"

definition empty_shop :: shop_db where
  "empty_shop = \<lparr>sh_sellers = [], sh_items = [], sh_orders = []\<rparr>"

section \<open>Sellers\<close>

text \<open>The constraints a row of \<^verbatim>\<open>sellers\<close> must meet beside the others.\<close>

definition seller_constraints :: "SellerRow list \<Rightarrow> SellerRow \<Rightarrow> js_error + unit" where
  "seller_constraints others r =
     ebind (ensure ((sl_kind r = External) = (sl_base_url r \<noteq> None)) (ConstraintFailed ''sellers_base_url'')) (\<lambda>_.
     ensure (sl_manage_token_hash r = None \<or> sl_manage_token_hash r \<notin> sl_manage_token_hash ` set others)
       (ConstraintFailed ''sellers.manage_token_hash''))"

definition seller_row :: "SellerInput \<Rightarrow> string \<Rightarrow> string option \<Rightarrow> int \<Rightarrow> SellerRow" where
  "seller_row s slug token createdAt = \<lparr>sl_slug = slug, sl_kind = sli_kind s, sl_name = sli_name s,
     sl_pay_to = sli_pay_to s, sl_base_url = sli_base_url s, sl_manage_token_hash = token,
     sl_contact = sli_contact s, sl_internal = flag (sli_internal s), sl_created_at = createdAt\<rparr>"

definition seller_find :: "shop_db \<Rightarrow> string \<Rightarrow> SellerRow option" where
  "seller_find db slug = find (\<lambda>r. sl_slug r = slug) (sh_sellers db)"

definition seller_upsert :: "shop_db \<Rightarrow> SellerInput \<Rightarrow> (Seller \<times> shop_db) result" where
  "seller_upsert db s =
     ebind (slugKey (sli_slug s) ''slug'') (\<lambda>slug.
     ebind (optionalTokenHash (sli_token_hash s)) (\<lambda>token.
     ebind (millis (JNum (sli_created s)) ''createdAt'') (\<lambda>createdAt.
     let others = filter (\<lambda>r. sl_slug r \<noteq> slug) (sh_sellers db) in
     case seller_find db slug of
       None \<Rightarrow>
         let r = seller_row s slug token createdAt in
         ebind (seller_constraints others r) (\<lambda>_.
           Inr (toSeller r, db\<lparr>sh_sellers := sh_sellers db @ [r]\<rparr>))
     | Some old \<Rightarrow>
         let r = seller_row s slug token (sl_created_at old) in
         ebind (seller_constraints others r) (\<lambda>_.
           Inr (toSeller r, db\<lparr>sh_sellers := update_where (\<lambda>x. sl_slug x = slug) (\<lambda>_. r) (sh_sellers db)\<rparr>)))))"

definition seller_get :: "shop_db \<Rightarrow> string \<Rightarrow> Seller option result" where
  "seller_get db slug = ebind (slugKey slug ''slug'') (\<lambda>k. Inr (map_option toSeller (seller_find db k)))"

definition getByManageTokenHash :: "shop_db \<Rightarrow> string \<Rightarrow> Seller option result" where
  "getByManageTokenHash db hash = ebind (tokenHash hash) (\<lambda>h.
     Inr (map_option toSeller (find (\<lambda>r. sl_manage_token_hash r = Some h) (sh_sellers db))))"

definition seller_list :: "shop_db \<Rightarrow> bool \<Rightarrow> Seller list" where
  "seller_list db includeInternal = map toSeller (sort_key (\<lambda>r. (sl_created_at r, sl_slug r))
     (if includeInternal then sh_sellers db else filter (\<lambda>r. sl_internal r = 0) (sh_sellers db)))"

section \<open>Items\<close>

definition item_find :: "shop_db \<Rightarrow> string \<Rightarrow> string \<Rightarrow> ItemRow option" where
  "item_find db slug key = find (\<lambda>r. (it_seller_slug r, it_key r) = (slug, key)) (sh_items db)"

definition item_upsert :: "shop_db \<Rightarrow> ItemInput \<Rightarrow> (Item \<times> shop_db) result" where
  "item_upsert db i =
     ebind (slugKey (ii_sellerSlug i) ''sellerSlug'') (\<lambda>slug.
     ebind (slugKey (ii_key i) ''key'') (\<lambda>key.
     ebind (amountText (JBigint (ii_priceBase i)) ''priceBase'') (\<lambda>price.
     ebind (millis (JNum (ii_createdAt i)) ''createdAt'') (\<lambda>createdAt.
     case item_find db slug key of
       None \<Rightarrow>
         ebind (ensure (seller_find db slug \<noteq> None) (ConstraintFailed ''FOREIGN KEY'')) (\<lambda>_.
         let r = \<lparr>it_id = next_rowid it_id (sh_items db), it_seller_slug = slug, it_key = key, it_name = ii_name i,
           it_description = ii_description i, it_price_base = price, it_resource_url = ii_resourceUrl i,
           it_created_at = createdAt\<rparr> in
         Inr (toItem r, db\<lparr>sh_items := sh_items db @ [r]\<rparr>))
     | Some old \<Rightarrow>
         let r = old\<lparr>it_name := ii_name i, it_description := ii_description i, it_price_base := price,
           it_resource_url := ii_resourceUrl i\<rparr> in
         Inr (toItem r, db\<lparr>sh_items := update_where (\<lambda>x. (it_seller_slug x, it_key x) = (slug, key)) (\<lambda>_. r) (sh_items db)\<rparr>)))))"

definition item_get :: "shop_db \<Rightarrow> string \<Rightarrow> string \<Rightarrow> Item option result" where
  "item_get db sellerSlug key =
     ebind (slugKey sellerSlug ''sellerSlug'') (\<lambda>s. ebind (slugKey key ''key'') (\<lambda>k.
       Inr (map_option toItem (item_find db s k))))"

definition item_listBySeller :: "shop_db \<Rightarrow> string \<Rightarrow> Item list result" where
  "item_listBySeller db slug = ebind (slugKey slug ''slug'') (\<lambda>s.
     Inr (map toItem (sort_key it_id (filter (\<lambda>r. it_seller_slug r = s) (sh_items db)))))"

section \<open>Tickets\<close>

definition TICKET_ALPHABET :: string where
  "TICKET_ALPHABET = ''0123456789abcdefghjkmnpqrstvwxyz''"

definition TICKET_BYTES :: nat where
  "TICKET_BYTES = 10"

text \<open>
  The loop of \<^verbatim>\<open>mintTicket\<close>: \<open>buffered\<close> is a 32-bit integer, as JavaScript's bitwise
  operators make it; \<open>bits\<close> counts the bits not yet emitted.
\<close>

fun emit_digits :: "nat \<Rightarrow> 32 word \<Rightarrow> nat \<Rightarrow> nat list \<Rightarrow> nat \<times> nat list" where
  "emit_digits 0 buffered bits out = (bits, out)"
| "emit_digits (Suc fuel) buffered bits out =
     (if 5 \<le> bits
      then emit_digits fuel buffered (bits - 5) (out @ [unat (signed_drop_bit (bits - 5) buffered AND 31)])
      else (bits, out))"

definition mint_step :: "32 word \<times> nat \<times> nat list \<Rightarrow> 8 word \<Rightarrow> 32 word \<times> nat \<times> nat list" where
  "mint_step st b = (let (buffered, bits, out) = st;
       buffered' = push_bit 8 buffered OR ucast b;
       (bits', out') = emit_digits 3 buffered' (bits + 8) out
     in (buffered', bits', out'))"

definition mint_digits :: "8 word list \<Rightarrow> nat list" where
  "mint_digits bytes = snd (snd (foldl mint_step (0, 0, []) bytes))"

text \<open>\<^verbatim>\<open>randomBytes(TICKET_BYTES)\<close> is the argument.\<close>

definition mintTicket :: "8 word list \<Rightarrow> string" where
  "mintTicket bytes = map (\<lambda>d. TICKET_ALPHABET ! d) (mint_digits bytes)"

text \<open>\<^verbatim>\<open>/^[0-9a-hjkmnp-tv-z]{16}$/\<close>.\<close>

definition is_ticket :: "string \<Rightarrow> bool" where
  "is_ticket s \<longleftrightarrow> length s = 16 \<and> list_all (\<lambda>c. is_digit c \<or> char_between CHR ''a'' CHR ''h'' c \<or>
     c = CHR ''j'' \<or> c = CHR ''k'' \<or> c = CHR ''m'' \<or> c = CHR ''n'' \<or>
     char_between CHR ''p'' CHR ''t'' c \<or> char_between CHR ''v'' CHR ''z'' c) s"

definition ticketKey :: "string \<Rightarrow> string result" where
  "ticketKey value = (if is_ticket value then Inr value
     else Inl (TypeError ''ticket must be 16 lowercase Crockford base32 characters''))"

section \<open>Orders\<close>

definition order_find :: "shop_db \<Rightarrow> string \<Rightarrow> OrderRow option" where
  "order_find db intent = find (\<lambda>r. or_payment_intent_id r = intent) (sh_orders db)"

definition createOnce :: "shop_db \<Rightarrow> OrderInput \<Rightarrow> 8 word list \<Rightarrow> (Order \<times> shop_db) result" where
  "createOnce db i bytes =
     ebind (slugKey (oi_sellerSlug i) ''sellerSlug'') (\<lambda>slug.
     ebind (slugKey (oi_itemKey i) ''itemKey'') (\<lambda>key.
     ebind (amountText (JBigint (oi_amountBase i)) ''amountBase'') (\<lambda>amt.
     ebind (millis (JNum (oi_createdAt i)) ''createdAt'') (\<lambda>createdAt.
     case order_find db (oi_paymentIntentId i) of
       Some existing \<Rightarrow> Inr (toOrder existing, db)
     | None \<Rightarrow>
         let ticket = mintTicket bytes in
         ebind (ensure (ticket \<notin> or_ticket ` set (sh_orders db)) (ConstraintFailed ''orders.ticket'')) (\<lambda>_.
         ebind (ensure (item_find db slug key \<noteq> None) (ConstraintFailed ''FOREIGN KEY'')) (\<lambda>_.
         let r = \<lparr>or_id = next_rowid or_id (sh_orders db), or_seller_slug = slug, or_item_key = key,
           or_payment_intent_id = oi_paymentIntentId i, or_ticket = ticket, or_payer = oi_payer i,
           or_amount_base = amt, or_tx_hash = oi_txHash i, or_status = oi_status i, or_created_at = createdAt\<rparr> in
         Inr (toOrder r, db\<lparr>sh_orders := sh_orders db @ [r]\<rparr>)))))))"

definition getByIntent :: "shop_db \<Rightarrow> string \<Rightarrow> Order option" where
  "getByIntent db paymentIntentId = map_option toOrder (order_find db paymentIntentId)"

definition getByTicket :: "shop_db \<Rightarrow> string \<Rightarrow> string \<Rightarrow> Order option result" where
  "getByTicket db sellerSlug ticket =
     ebind (slugKey sellerSlug ''sellerSlug'') (\<lambda>s. ebind (ticketKey ticket) (\<lambda>t.
       Inr (map_option toOrder (find (\<lambda>r. or_seller_slug r = s \<and> or_ticket r = t) (sh_orders db)))))"

definition order_listBySeller :: "shop_db \<Rightarrow> string \<Rightarrow> int \<Rightarrow> Order list result" where
  "order_listBySeller db slug limit =
     ebind (slugKey slug ''slug'') (\<lambda>s. ebind (positiveInteger (JNum limit) ''limit'') (\<lambda>n.
       Inr (map toOrder (take (nat n) (order_desc (\<lambda>r. (or_created_at r, or_id r))
         (filter (\<lambda>r. or_seller_slug r = s) (sh_orders db)))))))"

record OrderSummary =
  os_total :: nat
  os_bySeller :: "(string \<times> nat) list"

definition order_summary :: "shop_db \<Rightarrow> int \<Rightarrow> OrderSummary result" where
  "order_summary db sinceMs = ebind (millis (JNum sinceMs) ''sinceMs'') (\<lambda>since.
     let rows = filter (\<lambda>r. since \<le> or_created_at r) (sh_orders db);
         slugs = sort (remdups (map or_seller_slug rows));
         counts = map (\<lambda>s. (s, length (filter (\<lambda>r. or_seller_slug r = s) rows))) slugs
     in Inr \<lparr>os_total = sum_list (map snd counts), os_bySeller = counts\<rparr>)"

section \<open>A ticket is its 80 bits\<close>

definition value_in :: "nat \<Rightarrow> nat list \<Rightarrow> nat" where
  "value_in base ds = foldl (\<lambda>acc d. base * acc + d) 0 ds"

lemma value_in_snoc [simp]: "value_in base (ds @ [d]) = base * value_in base ds + d"
  by (simp add: value_in_def)

lemma value_in_Nil [simp]: "value_in base [] = 0"
  by (simp add: value_in_def)

lemma value_in_inj:
  "value_in base xs = value_in base ys \<Longrightarrow> length xs = length ys \<Longrightarrow> \<forall>d \<in> set xs \<union> set ys. d < base \<Longrightarrow> xs = ys"
proof (induction xs arbitrary: ys rule: rev_induct)
  case (snoc x xs)
  then obtain y zs where ys: "ys = zs @ [y]" by (cases ys rule: rev_cases) auto
  have b: "x < base" "y < base" using snoc.prems ys by simp_all
  have e: "base * value_in base xs + x = base * value_in base zs + y" using snoc.prems(1) ys by simp
  have "x = y" using arg_cong [OF e, of "\<lambda>n. n mod base"] b by simp
  moreover have "value_in base xs = value_in base zs" using e b calculation by auto
  ultimately show ?case using snoc ys by auto
qed simp

lemma emitted_digit:
  fixes w :: "32 word" assumes "n + 5 \<le> 32"
  shows "unat (signed_drop_bit n w AND 31) = unat w div 2 ^ n mod 32"
proof -
  have "(31 :: 32 word) = mask 5" by (simp add: mask_eq_exp_minus_1)
  then have "signed_drop_bit n w AND 31 = take_bit 5 (signed_drop_bit n w)" by (simp only: take_bit_eq_mask)
  also have "\<dots> = take_bit 5 (drop_bit n w)"
    using assms by (intro bit_word_eqI) (auto simp: bit_signed_drop_bit_iff bit_take_bit_iff bit_drop_bit_eq)
  finally have "unat (signed_drop_bit n w AND 31) = unat (take_bit 5 (drop_bit n w))" by (rule arg_cong)
  also have "\<dots> = take_bit 5 (drop_bit n (take_bit 32 (unat w)))"
    by (simp only: unsigned_take_bit_eq unsigned_drop_bit_eq len_num1 len_bit0) simp
  also have "take_bit 32 (unat w) = unat w" using unsigned_less [of w] by (intro take_bit_nat_eq_self) simp
  finally show ?thesis by (simp add: take_bit_eq_mod drop_bit_eq_div)
qed

lemma shifted_in:
  fixes w :: "32 word" and b :: "8 word" assumes "n + 8 \<le> 32"
  shows "unat (push_bit 8 w OR ucast b) mod 2 ^ (n + 8) = unat w mod 2 ^ n * 256 + unat b"
proof -
  have m: "unat b < 256" using unsigned_less [of b] by simp
  have "unat (push_bit 8 w OR ucast b) = take_bit 32 (push_bit 8 (unat w)) OR unat b"
    using m by (simp add: unsigned_or_eq unsigned_push_bit_eq unsigned_ucast_eq take_bit_nat_eq_self)
  then have "unat (push_bit 8 w OR ucast b) mod 2 ^ (n + 8) = take_bit (n + 8) (push_bit 8 (unat w)) OR take_bit (n + 8) (unat b)"
    using assms by (simp add: take_bit_eq_mod [symmetric] take_bit_or min_def)
  also have "\<dots> = push_bit 8 (take_bit n (unat w)) OR unat b"
  proof -
    have "256 \<le> (2 :: nat) ^ (n + 8)" using power_increasing [of 8 "n + 8" "2 :: nat"] by simp
    then have "take_bit (n + 8) (unat b) = unat b" using m by (intro take_bit_nat_eq_self) simp
    then show ?thesis by (simp add: take_bit_push_bit)
  qed
  also have "\<dots> = push_bit 8 (take_bit n (unat w)) + unat b"
  proof (rule disjunctive_add [symmetric])
    fix i
    have "\<not> bit (unat b) i" if "8 \<le> i"
      using that by (auto simp: bit_unsigned_iff dest: bit_imp_le_length)
    then show "\<not> bit (push_bit 8 (take_bit n (unat w))) i \<or> \<not> bit (unat b) i"
      by (auto simp: bit_push_bit_iff)
  qed
  finally show ?thesis by (simp add: push_bit_eq_mult take_bit_eq_mod mult.commute)
qed

text \<open>What is emitted so far and the bits still buffered are the bytes read so far.\<close>

definition mint_inv :: "nat \<Rightarrow> 32 word \<Rightarrow> nat \<Rightarrow> nat list \<Rightarrow> bool" where
  "mint_inv V buffered bits out \<longleftrightarrow> value_in 32 out * 2 ^ bits + unat buffered mod 2 ^ bits = V \<and> (\<forall>d \<in> set out. d < 32)"

lemma mint_inv_emit:
  assumes "mint_inv V w bits out" "5 \<le> bits" "bits \<le> 32"
  shows "mint_inv V w (bits - 5) (out @ [unat (signed_drop_bit (bits - 5) w AND 31)])"
proof -
  let ?m = "bits - 5"
  have b: "bits = ?m + 5" using assms(2) by simp
  have e: "(2 :: nat) ^ bits = 2 ^ ?m * 32" by (subst b) (simp add: power_add)
  have d: "unat (signed_drop_bit ?m w AND 31) = unat w div 2 ^ ?m mod 32" using assms by (intro emitted_digit) simp
  have "unat w mod 2 ^ bits = 2 ^ ?m * (unat w div 2 ^ ?m mod 32) + unat w mod 2 ^ ?m"
    unfolding e by (rule mod_mult2_eq)
  then show ?thesis using assms(1) unfolding mint_inv_def d e by (simp add: algebra_simps)
qed

lemma emit_digits_inv:
  assumes "mint_inv V w bits out" "bits \<le> 12" "emit_digits 3 w bits out = (bits', out')"
  shows "mint_inv V w bits' out'" "bits' < 5" "5 * length out' + bits' = 5 * length out + bits"
proof -
  note d = mint_inv_emit [OF assms(1)] and run = assms(3) [unfolded numeral_3_eq_3]
  consider "bits < 5" | "5 \<le> bits" "bits < 10" | "10 \<le> bits" "bits \<le> 12" using assms(2) by linarith
  then have "mint_inv V w bits' out' \<and> bits' < 5 \<and> 5 * length out' + bits' = 5 * length out + bits"
  proof cases
    case 1
    then show ?thesis using assms(1) run by simp
  next
    case 2
    then have "\<not> 5 \<le> bits - 5" by simp
    then have "bits' = bits - 5" "out' = out @ [unat (signed_drop_bit (bits - 5) w AND 31)]" using 2 run by auto
    then show ?thesis using 2 d by simp
  next
    case 3
    have "mint_inv V w (bits - 5 - 5) ((out @ [unat (signed_drop_bit (bits - 5) w AND 31)])
        @ [unat (signed_drop_bit (bits - 5 - 5) w AND 31)])"
      using 3 by (intro mint_inv_emit d) simp_all
    moreover have "5 \<le> bits" "5 \<le> bits - 5" "\<not> 5 \<le> bits - 5 - 5" using 3 by simp_all
    then have "bits' = bits - 5 - 5" "out' = (out @ [unat (signed_drop_bit (bits - 5) w AND 31)])
        @ [unat (signed_drop_bit (bits - 5 - 5) w AND 31)]" using run by auto
    ultimately show ?thesis using 3 by simp
  qed
  then show "mint_inv V w bits' out'" "bits' < 5" "5 * length out' + bits' = 5 * length out + bits" by auto
qed

lemma mint_step_inv:
  assumes "mint_inv V w bits out" "bits < 5" "mint_step (w, bits, out) b = (w', bits', out')"
  shows "mint_inv (256 * V + unat b) w' bits' out' \<and> bits' < 5 \<and> 5 * length out' + bits' = 5 * length out + bits + 8"
proof -
  let ?w = "push_bit 8 w OR ucast b"
  from assms(3) have e: "w' = ?w" "emit_digits 3 ?w (bits + 8) out = (bits', out')"
    by (auto simp: mint_step_def Let_def split: prod.splits)
  have "unat ?w mod 2 ^ (bits + 8) = unat w mod 2 ^ bits * 256 + unat b" using assms(2) by (intro shifted_in) simp
  then have "mint_inv (256 * V + unat b) ?w (bits + 8) out"
    using assms(1) by (auto simp: mint_inv_def power_add algebra_simps)
  from emit_digits_inv [OF this _ e(2)] show ?thesis using e(1) assms(2) by simp
qed

lemma mint_fold:
  "\<exists>w bits out. foldl mint_step (0, 0, []) bytes = (w, bits, out) \<and> mint_inv (value_in 256 (map unat bytes)) w bits out \<and>
     bits < 5 \<and> 5 * length out + bits = 8 * length bytes"
proof (induction bytes rule: rev_induct)
  case Nil
  then show ?case by (simp add: mint_inv_def)
next
  case (snoc b bs)
  then obtain w bits out where i: "foldl mint_step (0, 0, []) bs = (w, bits, out)"
    "mint_inv (value_in 256 (map unat bs)) w bits out" "bits < 5" "5 * length out + bits = 8 * length bs" by blast
  obtain w' bits' out' where "mint_step (w, bits, out) b = (w', bits', out')" by (cases "mint_step (w, bits, out) b") auto
  with mint_step_inv [OF i(2,3) this] i(1,4) show ?case by auto
qed

lemma mint_digits_value:
  assumes "length bytes = TICKET_BYTES"
  shows "length (mint_digits bytes) = 16" "value_in 32 (mint_digits bytes) = value_in 256 (map unat bytes)"
    "\<forall>d \<in> set (mint_digits bytes). d < 32"
proof -
  obtain w bits out where f: "foldl mint_step (0, 0, []) bytes = (w, bits, out)"
    "mint_inv (value_in 256 (map unat bytes)) w bits out" "bits < 5" "5 * length out + bits = 8 * length bytes"
    using mint_fold by blast
  have "bits = 0" "length out = 16" using f(3,4) assms by (simp_all add: TICKET_BYTES_def) presburger+
  then show "length (mint_digits bytes) = 16" "value_in 32 (mint_digits bytes) = value_in 256 (map unat bytes)"
    "\<forall>d \<in> set (mint_digits bytes). d < 32"
    using f(1,2) by (auto simp: mint_digits_def mint_inv_def)
qed

lemma alphabet_facts: "distinct TICKET_ALPHABET" "length TICKET_ALPHABET = 32"
  by (simp_all add: TICKET_ALPHABET_def)

lemma ticket_char: "c \<in> set TICKET_ALPHABET \<Longrightarrow> is_digit c \<or> char_between CHR ''a'' CHR ''h'' c \<or>
     c = CHR ''j'' \<or> c = CHR ''k'' \<or> c = CHR ''m'' \<or> c = CHR ''n'' \<or>
     char_between CHR ''p'' CHR ''t'' c \<or> char_between CHR ''v'' CHR ''z'' c"
proof -
  have "list_all (\<lambda>c. is_digit c \<or> char_between CHR ''a'' CHR ''h'' c \<or>
     c = CHR ''j'' \<or> c = CHR ''k'' \<or> c = CHR ''m'' \<or> c = CHR ''n'' \<or>
     char_between CHR ''p'' CHR ''t'' c \<or> char_between CHR ''v'' CHR ''z'' c) TICKET_ALPHABET" by code_simp
  then show "c \<in> set TICKET_ALPHABET \<Longrightarrow> ?thesis" by (auto simp only: list_all_iff)
qed

text \<open>A ticket carries all its random bits. For ten random bytes \<^verbatim>\<open>mintTicket\<close> returns a
  code the lookup accepts, and two codes are equal only when all eighty bits are, although
  the loop keeps them in a 32-bit integer that overflows on the way.\<close>

theorem ticket_keeps_its_bits:
  assumes "length bytes = TICKET_BYTES" "length bytes' = TICKET_BYTES"
  shows "is_ticket (mintTicket bytes) \<and> (mintTicket bytes = mintTicket bytes' \<longleftrightarrow> bytes = bytes')"
proof -
  note a = mint_digits_value [OF assms(1)] and b = mint_digits_value [OF assms(2)]
  have "list_all (\<lambda>c. c \<in> set TICKET_ALPHABET) (mintTicket bytes)"
    using a(3) alphabet_facts(2) by (auto simp: mintTicket_def list_all_iff intro!: nth_mem)
  then have t: "is_ticket (mintTicket bytes)"
    using a(1) ticket_char by (auto simp: is_ticket_def list_all_iff mintTicket_def)
  have "bytes = bytes'" if "mintTicket bytes = mintTicket bytes'"
  proof -
    have "inj_on (\<lambda>d. TICKET_ALPHABET ! d) {..<32}"
      using alphabet_facts by (auto simp: inj_on_def nth_eq_iff_index_eq)
    then have "mint_digits bytes = mint_digits bytes'"
      using that a(3) b(3) by (intro map_inj_on [of "\<lambda>d. TICKET_ALPHABET ! d"]) (auto simp: mintTicket_def inj_on_def)
    then have "value_in 256 (map unat bytes) = value_in 256 (map unat bytes')" using a(2) b(2) by simp
    then have "map unat bytes = map unat bytes'"
    proof (rule value_in_inj)
      show "\<forall>d \<in> set (map unat bytes) \<union> set (map unat bytes'). d < 256"
        using unsigned_less [where 'b = 8 and 'a = nat] by auto
    qed (use assms in simp)
    then show ?thesis by (simp add: inj_map_eq_map [OF inj_unsigned])
  qed
  with t show ?thesis by blast
qed

theorem ticket_keeps_its_bits_witness:
  "is_ticket (mintTicket [1, 2, 3, 4, 5, 6, 7, 8, 9, 255]) \<and>
   mintTicket [1, 2, 3, 4, 5, 6, 7, 8, 9, 255] \<noteq> mintTicket [1, 2, 3, 4, 5, 6, 7, 8, 9, 254]"
  using ticket_keeps_its_bits [of "[1, 2, 3, 4, 5, 6, 7, 8, 9, 255]" "[1, 2, 3, 4, 5, 6, 7, 8, 9, 254]"]
  by (simp add: TICKET_BYTES_def)

section \<open>The shop's invariant\<close>

inductive shop_step :: "shop_db \<Rightarrow> shop_db \<Rightarrow> bool" where
  by_seller: "seller_upsert db s = Inr (seller, db') \<Longrightarrow> shop_step db db'"
| by_item: "item_upsert db i = Inr (item, db') \<Longrightarrow> shop_step db db'"
| by_order: "createOnce db o' bytes = Inr (order, db') \<Longrightarrow> shop_step db db'"

inductive_cases shop_stepE: "shop_step db db'"

definition tokens :: "SellerRow list \<Rightarrow> string list" where
  "tokens rs = List.map_filter sl_manage_token_hash rs"

lemma tokens_simps [simp]:
  "tokens [] = []"
  "tokens (x # xs) = (case sl_manage_token_hash x of None \<Rightarrow> tokens xs | Some h \<Rightarrow> h # tokens xs)"
  by (simp_all add: tokens_def map_filter_simps split: option.split)

lemma set_tokens: "h \<in> set (tokens rs) \<longleftrightarrow> Some h \<in> sl_manage_token_hash ` set rs"
  by (induction rs) (auto split: option.splits)

lemma tokens_snoc: "tokens (rs @ [r]) = tokens rs @ (case sl_manage_token_hash r of None \<Rightarrow> [] | Some h \<Rightarrow> [h])"
  by (induction rs) (auto split: option.splits)

definition shop_ok :: "shop_db \<Rightarrow> bool" where
  "shop_ok db \<longleftrightarrow>
     distinct (map sl_slug (sh_sellers db)) \<and> distinct (tokens (sh_sellers db)) \<and>
     (\<forall>r \<in> set (sh_sellers db). is_slug (sl_slug r) \<and> ((sl_kind r = External) = (sl_base_url r \<noteq> None))) \<and>
     distinct (map (\<lambda>r. (it_seller_slug r, it_key r)) (sh_items db)) \<and>
     (\<forall>r \<in> set (sh_items db). it_seller_slug r \<in> sl_slug ` set (sh_sellers db) \<and> is_slug (it_key r) \<and> 0 \<le> BigInt (it_price_base r)) \<and>
     distinct (map or_payment_intent_id (sh_orders db)) \<and> distinct (map or_ticket (sh_orders db)) \<and>
     (\<forall>r \<in> set (sh_orders db). (or_seller_slug r, or_item_key r) \<in> (\<lambda>x. (it_seller_slug x, it_key x)) ` set (sh_items db))"

lemma slugKey_iff [simp]: "slugKey v n = Inr w \<longleftrightarrow> is_slug v \<and> w = v"
  by (auto simp: slugKey_def)

lemma ticketKey_iff [simp]: "ticketKey v = Inr w \<longleftrightarrow> is_ticket v \<and> w = v"
  by (auto simp: ticketKey_def)

lemma seller_find_Some: "seller_find db s = Some r \<Longrightarrow> r \<in> set (sh_sellers db) \<and> sl_slug r = s"
  by (auto simp: seller_find_def dest: find_Some_iff_ex)

lemma seller_find_None: "seller_find db s = None \<longleftrightarrow> s \<notin> sl_slug ` set (sh_sellers db)"
  by (auto simp: seller_find_def find_None_iff)

lemma item_find_Some: "item_find db s k = Some r \<Longrightarrow> r \<in> set (sh_items db) \<and> it_seller_slug r = s \<and> it_key r = k"
  by (auto simp: item_find_def dest: find_Some_iff_ex)

lemma item_find_None: "item_find db s k = None \<longleftrightarrow> (s, k) \<notin> (\<lambda>x. (it_seller_slug x, it_key x)) ` set (sh_items db)"
  by (auto simp: item_find_def find_None_iff image_iff)

lemma order_find_Some: "order_find db i = Some r \<Longrightarrow> r \<in> set (sh_orders db) \<and> or_payment_intent_id r = i"
  by (auto simp: order_find_def dest: find_Some_iff_ex)

lemma order_find_None: "order_find db i = None \<longleftrightarrow> i \<notin> or_payment_intent_id ` set (sh_orders db)"
  by (auto simp: order_find_def find_None_iff)

text \<open>Each write as the row it adds or replaces.\<close>

lemma seller_upsertE:
  assumes "seller_upsert db s = Inr (seller, db')"
  obtains (insert) r where "seller_find db (sli_slug s) = None" "sl_slug r = sli_slug s" "is_slug (sli_slug s)" "seller = toSeller r"
      "seller_constraints (filter (\<lambda>x. sl_slug x \<noteq> sli_slug s) (sh_sellers db)) r = Inr ()"
      "db' = db\<lparr>sh_sellers := sh_sellers db @ [r]\<rparr>"
  | (replace) r old where "seller_find db (sli_slug s) = Some old" "sl_slug r = sli_slug s" "is_slug (sli_slug s)" "seller = toSeller r"
      "sl_created_at r = sl_created_at old"
      "seller_constraints (filter (\<lambda>x. sl_slug x \<noteq> sli_slug s) (sh_sellers db)) r = Inr ()"
      "db' = db\<lparr>sh_sellers := update_where (\<lambda>x. sl_slug x = sli_slug s) (\<lambda>_. r) (sh_sellers db)\<rparr>"
proof -
  obtain token where p: "is_slug (sli_slug s)" "optionalTokenHash (sli_token_hash s) = Inr token"
    using assms by (auto simp: seller_upsert_def result_simps)
  have n: "sl_slug (seller_row s (sli_slug s) token c) = sli_slug s" "sl_created_at (seller_row s (sli_slug s) token c) = c" for c
    by (simp_all add: seller_row_def)
  show thesis
  proof (cases "seller_find db (sli_slug s)")
    case None
    then show thesis using assms p n by (intro insert [of "seller_row s (sli_slug s) token (sli_created s)"])
      (auto simp: seller_upsert_def result_simps Let_def)
  next
    case (Some old)
    then show thesis using assms p n by (intro replace [of old "seller_row s (sli_slug s) token (sl_created_at old)"])
      (auto simp: seller_upsert_def result_simps Let_def)
  qed
qed

lemma amountText_nonneg: "amountText (JBigint a) n = Inr t \<Longrightarrow> 0 \<le> BigInt t"
  by (auto simp: amountText_def split: if_splits)

lemma item_upsertE:
  assumes "item_upsert db i = Inr (item, db')"
  obtains (insert) r where "item_find db (ii_sellerSlug i) (ii_key i) = None" "seller_find db (ii_sellerSlug i) \<noteq> None"
      "it_seller_slug r = ii_sellerSlug i" "it_key r = ii_key i" "is_slug (it_key r) \<and> 0 \<le> BigInt (it_price_base r)" "db' = db\<lparr>sh_items := sh_items db @ [r]\<rparr>"
  | (replace) r old where "item_find db (ii_sellerSlug i) (ii_key i) = Some old"
      "it_seller_slug r = it_seller_slug old" "it_key r = it_key old" "0 \<le> BigInt (it_price_base r)"
      "db' = db\<lparr>sh_items := update_where (\<lambda>x. (it_seller_slug x, it_key x) = (ii_sellerSlug i, ii_key i)) (\<lambda>_. r) (sh_items db)\<rparr>"
proof (cases "item_find db (ii_sellerSlug i) (ii_key i)")
  case None
  then show ?thesis using assms amountText_nonneg
    by (auto simp: item_upsert_def result_simps Let_def intro!: insert)
next
  case (Some old)
  then obtain price where p: "amountText (JBigint (ii_priceBase i)) ''priceBase'' = Inr price"
    "db' = db\<lparr>sh_items := update_where (\<lambda>x. (it_seller_slug x, it_key x) = (ii_sellerSlug i, ii_key i))
       (\<lambda>_. old\<lparr>it_name := ii_name i, it_description := ii_description i, it_price_base := price,
           it_resource_url := ii_resourceUrl i\<rparr>) (sh_items db)\<rparr>"
    using assms by (auto simp: item_upsert_def result_simps Let_def)
  then have "0 \<le> BigInt price" by (blast dest: amountText_nonneg)
  with Some p show ?thesis by (intro replace) simp_all
qed

lemma createOnceE:
  assumes "createOnce db i bytes = Inr (order, db')"
  obtains (known) r where "order_find db (oi_paymentIntentId i) = Some r" "order = toOrder r" "db' = db"
  | (insert) r where "order_find db (oi_paymentIntentId i) = None" "order = toOrder r"
      "or_payment_intent_id r = oi_paymentIntentId i" "or_ticket r = mintTicket bytes" "or_ticket r \<notin> or_ticket ` set (sh_orders db)"
      "item_find db (or_seller_slug r) (or_item_key r) \<noteq> None" "or_seller_slug r = oi_sellerSlug i" "or_item_key r = oi_itemKey i"
      "BigInt (or_amount_base r) = oi_amountBase i" "or_payer r = oi_payer i" "or_tx_hash r = oi_txHash i"
      "db' = db\<lparr>sh_orders := sh_orders db @ [r]\<rparr>"
  using assms that by (auto simp: createOnce_def result_simps Let_def split: option.splits)

lemma slugs_update: "sl_slug r = k \<Longrightarrow> map sl_slug (update_where (\<lambda>x. sl_slug x = k) (\<lambda>_. r) rs) = map sl_slug rs"
  by (simp add: update_where_def)

lemma keys_update: "it_seller_slug r = a \<Longrightarrow> it_key r = b \<Longrightarrow>
    map (\<lambda>x. (it_seller_slug x, it_key x)) (update_where (\<lambda>x. (it_seller_slug x, it_key x) = (a, b)) (\<lambda>_. r) rs)
      = map (\<lambda>x. (it_seller_slug x, it_key x)) rs"
  by (simp add: update_where_def)

lemma tokens_update:
  assumes "distinct (tokens rs)" "distinct (map sl_slug rs)"
    and "sl_manage_token_hash r = None \<or> sl_manage_token_hash r \<notin> sl_manage_token_hash ` set (filter (\<lambda>x. sl_slug x \<noteq> k) rs)"
  shows "distinct (tokens (update_where (\<lambda>x. sl_slug x = k) (\<lambda>_. r) rs))"
  using assms
proof (induction rs)
  case (Cons x xs)
  show ?case
  proof (cases "sl_slug x = k")
    case True
    then have "update_where (\<lambda>x. sl_slug x = k) (\<lambda>_. r) xs = xs" "filter (\<lambda>x. sl_slug x \<noteq> k) xs = xs"
      using Cons.prems(2) by (auto intro!: update_where_absent filter_True simp: image_iff)
    then show ?thesis using Cons.prems True by (auto simp: update_where_Cons set_tokens split: option.splits)
  next
    case False
    have "h \<notin> set (tokens (update_where (\<lambda>x. sl_slug x = k) (\<lambda>_. r) xs))" if "sl_manage_token_hash x = Some h" for h
      using Cons.prems False that by (auto simp: set_tokens set_update_where image_iff)
    moreover have "distinct (tokens (update_where (\<lambda>x. sl_slug x = k) (\<lambda>_. r) xs))"
      using Cons.prems False by (intro Cons.IH) (auto split: option.splits)
    ultimately show ?thesis using False by (simp add: update_where_Cons split: option.split)
  qed
qed (simp add: update_where_def)

lemma in_update_where: "x \<in> set (update_where p (\<lambda>_. r) rows) \<Longrightarrow> x \<in> set rows \<or> x = r"
  by (auto simp: update_where_def split: if_splits)

lemma seller_upsert_ok:
  assumes "seller_upsert db s = Inr (seller, db')" "shop_ok db"
  shows "shop_ok db'"
  using assms(1)
proof (cases rule: seller_upsertE)
  case (insert r)
  have c: "(sl_kind r = External) = (sl_base_url r \<noteq> None)"
    "sl_manage_token_hash r = None \<or> sl_manage_token_hash r \<notin> sl_manage_token_hash ` set (filter (\<lambda>x. sl_slug x \<noteq> sli_slug s) (sh_sellers db))"
    using insert(5) by (auto simp: seller_constraints_def result_simps)
  have f: "filter (\<lambda>x. sl_slug x \<noteq> sli_slug s) (sh_sellers db) = sh_sellers db"
    using insert(1) by (auto simp: seller_find_None image_iff intro!: filter_True)
  have t: "distinct (tokens (sh_sellers db @ [r]))"
    using assms(2) c(2) unfolding f by (auto simp: shop_ok_def tokens_snoc set_tokens split: option.split)
  have "distinct (map sl_slug (sh_sellers db @ [r]))"
    using assms(2) insert(1,2) by (auto simp: shop_ok_def seller_find_None)
  then show ?thesis using assms(2) t c(1) insert(2,3,6) by (simp add: shop_ok_def)
next
  case (replace r old)
  have c: "(sl_kind r = External) = (sl_base_url r \<noteq> None)"
    "sl_manage_token_hash r = None \<or> sl_manage_token_hash r \<notin> sl_manage_token_hash ` set (filter (\<lambda>x. sl_slug x \<noteq> sli_slug s) (sh_sellers db))"
    using replace(6) by (auto simp: seller_constraints_def result_simps)
  let ?u = "update_where (\<lambda>x. sl_slug x = sli_slug s) (\<lambda>_. r) (sh_sellers db)"
  have m: "map sl_slug ?u = map sl_slug (sh_sellers db)" using replace(2) by (rule slugs_update)
  then have i: "sl_slug ` set ?u = sl_slug ` set (sh_sellers db)" by (metis set_map)
  have t: "distinct (tokens ?u)" using assms(2) c(2) by (intro tokens_update) (auto simp: shop_ok_def)
  have "\<forall>x \<in> set ?u. is_slug (sl_slug x) \<and> ((sl_kind x = External) = (sl_base_url x \<noteq> None))"
    using assms(2) replace(2,3) c(1) by (auto simp: shop_ok_def dest!: in_update_where)
  then show ?thesis using assms(2) replace(7) m i t by (simp add: shop_ok_def)
qed

lemma item_upsert_ok:
  assumes "item_upsert db i = Inr (item, db')" "shop_ok db"
  shows "shop_ok db'"
  using assms(1)
proof (cases rule: item_upsertE)
  case (insert r)
  then have "(ii_sellerSlug i, ii_key i) \<notin> (\<lambda>x. (it_seller_slug x, it_key x)) ` set (sh_items db)"
    "ii_sellerSlug i \<in> sl_slug ` set (sh_sellers db)" by (simp_all only: item_find_None seller_find_None not_not simp_thms)
  then show ?thesis using assms(2) insert(3-6) by (simp add: shop_ok_def)
next
  case (replace r old)
  note o = item_find_Some [OF replace(1)]
  let ?u = "update_where (\<lambda>x. (it_seller_slug x, it_key x) = (ii_sellerSlug i, ii_key i)) (\<lambda>_. r) (sh_items db)"
  have m: "map (\<lambda>x. (it_seller_slug x, it_key x)) ?u = map (\<lambda>x. (it_seller_slug x, it_key x)) (sh_items db)"
    using o replace(2,3) by (intro keys_update) simp_all
  then have "(\<lambda>x. (it_seller_slug x, it_key x)) ` set ?u = (\<lambda>x. (it_seller_slug x, it_key x)) ` set (sh_items db)"
    unfolding set_map [symmetric] by (rule arg_cong)
  moreover have "it_seller_slug r \<in> sl_slug ` set (sh_sellers db) \<and> is_slug (it_key r)"
    using assms(2) o unfolding replace(2,3) shop_ok_def by blast
  then have "\<forall>x \<in> set ?u. it_seller_slug x \<in> sl_slug ` set (sh_sellers db) \<and> is_slug (it_key x) \<and> 0 \<le> BigInt (it_price_base x)"
    using assms(2) replace(4) unfolding shop_ok_def by (blast dest: in_update_where)
  ultimately show ?thesis using assms(2) m unfolding replace(5) shop_ok_def by simp
qed

lemma createOnce_ok:
  assumes "createOnce db i bytes = Inr (order, db')" "shop_ok db"
  shows "shop_ok db'"
  using assms(1)
proof (cases rule: createOnceE)
  case (insert r)
  then show ?thesis using assms(2) by (auto simp: shop_ok_def order_find_None item_find_None)
qed (use assms(2) in simp)

lemma shop_step_ok: "shop_step db db' \<Longrightarrow> shop_ok db \<Longrightarrow> shop_ok db'"
  by (erule shop_stepE) (blast intro: seller_upsert_ok item_upsert_ok createOnce_ok)+

lemma empty_shop_ok: "shop_ok empty_shop"
  by (simp add: shop_ok_def empty_shop_def)

lemma reach_ok: "shop_step\<^sup>*\<^sup>* empty_shop db \<Longrightarrow> shop_ok db"
  by (induction rule: rtranclp_induct) (blast intro: empty_shop_ok shop_step_ok)+

section \<open>One order for a payment\<close>

lemma getByIntent_createOnce:
  "createOnce db i bytes = Inr (order, db') \<Longrightarrow> getByIntent db' (oi_paymentIntentId i) = Some order"
  by (erule createOnceE) (auto simp: getByIntent_def order_find_def find_append_key)

lemma sh_orders_unchanged [simp]:
  "getByIntent (db\<lparr>sh_sellers := a\<rparr>) i = getByIntent db i" "getByIntent (db\<lparr>sh_items := b\<rparr>) i = getByIntent db i"
  by (simp_all add: getByIntent_def order_find_def)

lemma getByIntent_kept:
  assumes "shop_step db db'" "getByIntent db i = Some order"
  shows "getByIntent db' i = Some order"
  using assms
proof (induction rule: shop_step.induct)
  case (by_seller db s seller db')
  then show ?case by (cases rule: seller_upsertE) simp_all
next
  case (by_item db it item db')
  then show ?case by (cases rule: item_upsertE) simp_all
next
  case (by_order db o' bytes order' db')
  then show ?case
    by (cases rule: createOnceE) (auto simp: getByIntent_def order_find_def find_append_key split: option.splits)
qed

interpretation orders: write_once getByIntent shop_step
  by unfold_locales (rule getByIntent_kept)

lemma createOnce_known:
  assumes "getByIntent db (oi_paymentIntentId i) = Some order"
    and "is_slug (oi_sellerSlug i)" "is_slug (oi_itemKey i)" "0 \<le> oi_amountBase i" "0 \<le> oi_createdAt i" "isSafeInteger (oi_createdAt i)"
  shows "createOnce db i bytes = Inr (order, db)"
  using assms by (auto simp: createOnce_def result_simps getByIntent_def amountText_def)

lemma createOnce_valid:
  assumes "createOnce db i bytes = Inr r"
  shows "is_slug (oi_sellerSlug i)" "is_slug (oi_itemKey i)" "0 \<le> oi_amountBase i" "0 \<le> oi_createdAt i" "isSafeInteger (oi_createdAt i)"
  using assms by (auto simp: createOnce_def result_simps amountText_def split: if_splits)

text \<open>C27: a payment buys one ticket. Once \<^verbatim>\<open>createOnce\<close> answered an order for a payment
  intent, repeating it later, after any writes to the shop and whatever bytes the ticket would
  now be drawn from, answers that same order and writes nothing.\<close>

theorem one_order_per_payment:
  assumes "createOnce db i bytes = Inr (order, db1)" "shop_step\<^sup>*\<^sup>* db1 db2"
  shows "createOnce db2 i bytes' = Inr (order, db2)"
  by (rule createOnce_known [OF orders.kept_steps [OF assms(2) getByIntent_createOnce [OF assms(1)]] createOnce_valid [OF assms(1)]])

definition demo_shop :: shop_db where
  "demo_shop = \<lparr>sh_sellers = [\<lparr>sl_slug = ''cafe'', sl_kind = Hosted, sl_name = ''Cafe'', sl_pay_to = ''0xaa'', sl_base_url = None,
      sl_manage_token_hash = None, sl_contact = None, sl_internal = 0, sl_created_at = 1\<rparr>],
    sh_items = [\<lparr>it_id = 1, it_seller_slug = ''cafe'', it_key = ''latte'', it_name = ''Latte'', it_description = '''',
      it_price_base = ''5000'', it_resource_url = None, it_created_at = 1\<rparr>], sh_orders = []\<rparr>"

definition demo_order :: OrderInput where
  "demo_order = \<lparr>oi_sellerSlug = ''cafe'', oi_itemKey = ''latte'', oi_paymentIntentId = ''pay-1'', oi_payer = ''0xbb'',
     oi_amountBase = 5000, oi_txHash = None, oi_status = ''settled'', oi_createdAt = 10\<rparr>"

lemma demo_order_runs:
  "\<exists>order db1. createOnce demo_shop demo_order [1, 2, 3, 4, 5, 6, 7, 8, 9, 10] = Inr (order, db1) \<and> sh_orders db1 \<noteq> []"
  by (simp add: createOnce_def demo_order_def demo_shop_def result_simps amountText_def item_find_def order_find_def Let_def
      is_slug_def slug_char_def is_lower_def is_digit_def char_between_def isSafeInteger_def MAX_SAFE_INTEGER_def)

theorem one_order_per_payment_witness:
  "\<exists>order db1. createOnce demo_shop demo_order [1, 2, 3, 4, 5, 6, 7, 8, 9, 10] = Inr (order, db1) \<and> db1 \<noteq> demo_shop \<and>
     createOnce db1 demo_order [7, 7, 7, 7, 7, 7, 7, 7, 7, 7] = Inr (order, db1)"
proof -
  obtain order db1 where c: "createOnce demo_shop demo_order [1, 2, 3, 4, 5, 6, 7, 8, 9, 10] = Inr (order, db1)" "sh_orders db1 \<noteq> []"
    using demo_order_runs by blast
  have "db1 \<noteq> demo_shop" using c(2) by (auto simp: demo_shop_def)
  with c one_order_per_payment [OF c(1) rtranclp.rtrancl_refl] show ?thesis by blast
qed

text \<open>C30: the shop's tables stay consistent. After any sequence of registrations, menu edits and
  orders, successful or refused: slugs, management tokens, item keys within a shop, payment
  intents and tickets are unique; exactly the external sellers have a base URL; every item
  belongs to a seller and every order names an item of the shop it was bought at.\<close>

theorem shop_tables_consistent:
  assumes "shop_step\<^sup>*\<^sup>* empty_shop db"
  shows "distinct (map sl_slug (sh_sellers db)) \<and> distinct (tokens (sh_sellers db)) \<and>
     (\<forall>r \<in> set (sh_sellers db). (sl_kind r = External) = (sl_base_url r \<noteq> None)) \<and>
     distinct (map (\<lambda>r. (it_seller_slug r, it_key r)) (sh_items db)) \<and>
     (\<forall>r \<in> set (sh_items db). seller_find db (it_seller_slug r) \<noteq> None) \<and>
     distinct (map or_payment_intent_id (sh_orders db)) \<and> distinct (map or_ticket (sh_orders db)) \<and>
     (\<forall>r \<in> set (sh_orders db). item_find db (or_seller_slug r) (or_item_key r) \<noteq> None)"
proof -
  have "shop_ok db" using assms by (rule reach_ok)
  then show ?thesis unfolding shop_ok_def item_find_None seller_find_None by simp
qed

definition demo_seller :: SellerInput where
  "demo_seller = \<lparr>sli_slug = ''cafe'', sli_kind = External, sli_name = ''Cafe'', sli_pay_to = ''0xaa'',
     sli_base_url = Some ''https://cafe.example'', sli_token_hash = None, sli_contact = None, sli_internal = False, sli_created = 1\<rparr>"

lemma demo_seller_runs: "\<exists>r. seller_upsert empty_shop demo_seller = Inr (toSeller r, empty_shop\<lparr>sh_sellers := [r]\<rparr>)"
  by (simp add: seller_upsert_def demo_seller_def empty_shop_def result_simps seller_find_def Let_def seller_row_def seller_constraints_def
      optionalTokenHash_def is_slug_def slug_char_def is_lower_def is_digit_def char_between_def isSafeInteger_def MAX_SAFE_INTEGER_def)

theorem shop_tables_consistent_witness:
  "\<exists>db. db \<noteq> empty_shop \<and> (\<forall>r \<in> set (sh_sellers db). (sl_kind r = External) = (sl_base_url r \<noteq> None))"
proof -
  obtain r where u: "seller_upsert empty_shop demo_seller = Inr (toSeller r, empty_shop\<lparr>sh_sellers := [r]\<rparr>)"
    using demo_seller_runs by blast
  have "shop_step\<^sup>*\<^sup>* empty_shop (empty_shop\<lparr>sh_sellers := [r]\<rparr>)" using by_seller [OF u] by (rule r_into_rtranclp)
  from shop_tables_consistent [OF this] have "\<forall>x \<in> set (sh_sellers (empty_shop\<lparr>sh_sellers := [r]\<rparr>)). (sl_kind x = External) = (sl_base_url x \<noteq> None)"
    by blast
  moreover have "empty_shop\<lparr>sh_sellers := [r]\<rparr> \<noteq> empty_shop" by (simp add: empty_shop_def)
  ultimately show ?thesis by blast
qed

end
