(* ===== verification/Shop_App.thy ===== *)
theory Shop_App
  imports Seller Store_Shop Facilitator_Guards Js_Date
begin

text \<open>
  The hosted shop (\<^verbatim>\<open>apps/delegated-seller/app.ts\<close>): the route of an item, which answers a
  header that already bought something out of the orders table and sends every other one through
  the seller's paywall; the binding of payment identifiers with its periodic prune; tickets,
  settlements, the manifest of a shop and the operator's metrics. What a page looks like in HTML
  is not modelled: each route is modelled by what its JSON answer says.
\<close>

section \<open>Constants and prices\<close>

definition UNSETTLED_BINDING_TTL_MS :: int where "UNSETTLED_BINDING_TTL_MS = 3600000"
definition UNSETTLED_BINDINGS_KEPT :: int where "UNSETTLED_BINDINGS_KEPT = 5000"
definition BINDING_PRUNE_EVERY :: nat where "BINDING_PRUNE_EVERY = 256"
definition MOCK_USDC_symbol :: string where "MOCK_USDC_symbol = ''mUSDC''"

text \<open>\<^verbatim>\<open>split(".")\<close> of a printed amount: the whole part and what follows the first dot.\<close>

definition displayAmount :: "int \<Rightarrow> string" where
  "displayAmount amountBase =
     (case split_char CHR ''.'' (fromTokenAmount amountBase) of
        [] \<Rightarrow> ''[]''
      | [w] \<Rightarrow> w @ ''.'' @ padEnd0 2 ''0''
      | w # fraction # _ \<Rightarrow> w @ ''.'' @ padEnd0 2 fraction)"

definition shop_bearerTokenMatches :: "(string \<Rightarrow> string) \<Rightarrow> string option \<Rightarrow> string \<Rightarrow> bool" where
  "shop_bearerTokenMatches sha256 header token =
     (case bearer_value (case header of Some h \<Rightarrow> h | None \<Rightarrow> []) of
        None \<Rightarrow> False
      | Some presented \<Rightarrow> sha256 presented = sha256 token)"

definition itemUrl :: "string \<Rightarrow> Seller \<Rightarrow> Item \<Rightarrow> string" where
  "itemUrl baseUrl seller item = baseUrl @ ''/s/'' @ se_slug seller @ ''/'' @ im_key item"

record ShopManifestItem =
  mi_key :: string
  mi_name :: string
  mi_description :: string
  mi_price :: string
  mi_url :: string

record ShopManifest =
  sm_slug :: string
  sm_name :: string
  sm_payTo :: string
  sm_network :: string
  sm_asset :: string
  sm_facilitator :: string
  sm_items :: "ShopManifestItem list"

definition shopManifest :: "string \<Rightarrow> string \<Rightarrow> Seller \<Rightarrow> Item list \<Rightarrow> ShopManifest" where
  "shopManifest baseUrl facilitator seller items = \<lparr>sm_slug = se_slug seller, sm_name = se_name seller,
     sm_payTo = se_payTo seller, sm_network = GIWA_SEPOLIA_CAIP2, sm_asset = MOCK_USDC_address,
     sm_facilitator = facilitator,
     sm_items = map (\<lambda>item. \<lparr>mi_key = im_key item, mi_name = im_name item, mi_description = im_description item,
       mi_price = displayAmount (im_priceBase item), mi_url = itemUrl baseUrl seller item\<rparr>) items\<rparr>"

record TicketFields =
  tf_code :: string
  tf_shop :: "string \<times> string"
  tf_item :: "string \<times> string"
  tf_amount :: string
  tf_transaction :: "string option"
  tf_issuedAt :: string

definition ticketFields :: "Order \<Rightarrow> Seller \<Rightarrow> Item \<Rightarrow> TicketFields result" where
  "ticketFields order seller item = ebind (toISOString (od_createdAt order)) (\<lambda>issuedAt.
     Inr \<lparr>tf_code = od_ticket order, tf_shop = (se_slug seller, se_name seller),
       tf_item = (im_key item, im_name item), tf_amount = displayAmount (od_amountBase order) @ '' '' @ MOCK_USDC_symbol,
       tf_transaction = od_txHash order, tf_issuedAt = issuedAt\<rparr>)"

record TicketResponse =
  tr_ticket :: TicketFields
  tr_receipt :: SettlementReceipt

definition ticketResponse :: "Order \<Rightarrow> Seller \<Rightarrow> Item \<Rightarrow> SettlementReceipt \<Rightarrow> TicketResponse result" where
  "ticketResponse order seller item receipt = ebind (ticketFields order seller item) (\<lambda>t.
     Inr \<lparr>tr_ticket = t, tr_receipt = receipt\<rparr>)"

definition recordedReceipt :: "Order \<Rightarrow> string \<Rightarrow> SettlementReceipt" where
  "recordedReceipt order payTo = \<lparr>rc_intent = od_paymentIntentId order, rc_payer = od_payer order,
     rc_amount = fromTokenAmount (od_amountBase order), rc_asset = MOCK_USDC_address, rc_payTo = payTo,
     rc_network = GIWA_SEPOLIA_CAIP2, rc_transaction = od_txHash order, rc_replayed = True\<rparr>"

section \<open>The header a buyer presents again\<close>

record Delegation =
  dl_delegationManager :: string
  dl_permissionContext :: string

definition readDelegation :: "viem \<Rightarrow> (string \<Rightarrow> js option) \<Rightarrow> string \<Rightarrow> Delegation option" where
  "readDelegation v decode header = (case decode header of
     None \<Rightarrow> None
   | Some candidate \<Rightarrow>
       if js_get (js_get (js_get candidate ''accepted'') ''extra'') ''assetTransferMethod'' \<noteq> JString ''erc7710'' then None
       else let payload = js_get candidate ''payload'' in
         if \<not> js_isAddress v (js_get payload ''delegationManager'') then None
         else if \<not> js_isAddress v (js_get payload ''delegator'') then None
         else (case js_get payload ''permissionContext'' of
             JString context \<Rightarrow>
               if \<not> v_isHex v context \<or> length context \<le> 2 then None
               else Some \<lparr>dl_delegationManager = js_getAddress v (js_get payload ''delegationManager''),
                 dl_permissionContext = context\<rparr>
           | _ \<Rightarrow> None))"

text \<open>The shop's state: its tables, the identifier rows and the count of bindings since it started.\<close>

record shop_state =
  ss_db :: shop_db
  ss_ids :: "PaymentIdentifierDbRow list"
  ss_bindings :: nat

text \<open>
  What a request sees: the functions of third-party packages, the configuration, and the clock and
  random bytes at the places that read them.
\<close>

record shop_env =
  sv_viem :: viem
  sv_sha256 :: "string \<Rightarrow> string"
  sv_decode :: "string \<Rightarrow> js option"
  sv_baseUrl :: string
  sv_facilitatorUrl :: string
  sv_bind_now :: int
  sv_record_now :: int
  sv_order_now :: int
  sv_bytes :: "8 word list"

definition offered_intent :: "viem \<Rightarrow> Seller \<Rightarrow> Item \<Rightarrow> Delegation \<Rightarrow> string" where
  "offered_intent v seller item d = derivePaymentIntentId v
     \<lparr>pin_network = GIWA_SEPOLIA_CAIP2, pin_asset = MOCK_USDC_address, pin_amount = im_priceBase item,
      pin_payTo = se_payTo seller, pin_delegationManager = dl_delegationManager d,
      pin_permissionContext = dl_permissionContext d\<rparr>"

definition paidOrder :: "shop_env \<Rightarrow> shop_db \<Rightarrow> string option \<Rightarrow> Seller \<Rightarrow> Item \<Rightarrow> Order option" where
  "paidOrder env db header seller item =
     (case header of
        None \<Rightarrow> None
      | Some h \<Rightarrow> (case readDelegation (sv_viem env) (sv_decode env) h of
          None \<Rightarrow> None
        | Some d \<Rightarrow> getByIntent db (offered_intent (sv_viem env) seller item d)))"

section \<open>The binding of payment identifiers\<close>

definition pruneBindings :: "int \<Rightarrow> PaymentIdentifierDbRow list \<Rightarrow> PaymentIdentifierDbRow list" where
  "pruneBindings now rows = (case pid_prune rows (now - UNSETTLED_BINDING_TTL_MS) UNSETTLED_BINDINGS_KEPT of
     Inl _ \<Rightarrow> rows | Inr (_, rows') \<Rightarrow> rows')"

text \<open>\<^verbatim>\<open>getAddress\<close> throws on a text that is no address.\<close>

definition recorded :: "viem \<Rightarrow> RecordedPayment \<Rightarrow> RecordedPayment result" where
  "recorded v settled = (if v_isAddress v (rp_payer settled)
     then Inr \<lparr>rp_payer = v_getAddress v (rp_payer settled), rp_txHash = rp_txHash settled\<rparr>
     else Inl (Error ''InvalidAddressError''))"

definition binding_answer :: "viem \<Rightarrow> PaymentIdentifierBindResult \<Rightarrow> PaymentIdentifierBindResult result" where
  "binding_answer v bound = (case bound of
     BindNew \<Rightarrow> Inr BindNew
   | BindSettled p \<Rightarrow> ebind (recorded v p) (\<lambda>p'. Inr (BindSettled p'))
   | BindConflict reason settled \<Rightarrow> (case settled of
       None \<Rightarrow> Inr (BindConflict reason None)
     | Some p \<Rightarrow> ebind (recorded v p) (\<lambda>p'. Inr (BindConflict reason (Some p')))))"

type_synonym binding_state = "PaymentIdentifierDbRow list \<times> nat"

definition shop_bind ::
    "viem \<Rightarrow> int \<Rightarrow> binding_state \<Rightarrow> string \<Rightarrow> string \<Rightarrow> string \<Rightarrow> PaymentIdentifierBindResult result \<times> binding_state" where
  "shop_bind v now s i fingerprint intent =
     (let (rows, n) = s;
          rows1 = (if n mod BINDING_PRUNE_EVERY = 0 then pruneBindings now rows else rows)
      in case pid_bind rows1 i fingerprint intent now of
           Inl e \<Rightarrow> (Inl e, (rows1, n + 1))
         | Inr (bound, rows2) \<Rightarrow> (binding_answer v bound, (rows2, n + 1)))"

definition shop_record :: "int \<Rightarrow> binding_state \<Rightarrow> string \<Rightarrow> string \<Rightarrow> string option \<Rightarrow> binding_state result" where
  "shop_record now s i payer transaction =
     ebind (pid_record (fst s) i payer transaction now) (\<lambda>rows. Inr (rows, snd s))"

definition shop_identifiers :: "shop_env \<Rightarrow> binding_state identifier_service" where
  "shop_identifiers env = \<lparr>is_bind = shop_bind (sv_viem env) (sv_bind_now env), is_record = shop_record (sv_record_now env)\<rparr>"

section \<open>The routes\<close>

definition findShop :: "shop_db \<Rightarrow> string \<Rightarrow> Seller option" where
  "findShop db slug = (if \<not> is_slug slug then None
     else (case map_option toSeller (seller_find db slug) of
         Some seller \<Rightarrow> if se_kind seller = Hosted then Some seller else None
       | None \<Rightarrow> None))"

record OrderSettlement =
  ot_intent :: string
  ot_game :: string
  ot_payer :: string
  ot_transaction :: string
  ot_network :: string
  ot_amount :: string
  ot_asset :: string
  ot_payTo :: string

datatype shop_reply =
    ReplyError int string
  | ReplyThrew js_error
  | ReplyPaywall paywall_outcome
  | ReplyTicket TicketResponse
  | ReplyManifest ShopManifest
  | ReplyVerified TicketFields string
  | ReplySettlement OrderSettlement
  | ReplyMetrics OrderSummary OrderSummary

definition reply_of :: "('a \<Rightarrow> shop_reply) \<Rightarrow> 'a result \<Rightarrow> shop_reply" where
  "reply_of f r = (case r of Inl e \<Rightarrow> ReplyThrew e | Inr a \<Rightarrow> f a)"

text \<open>\<^verbatim>\<open>lookup\<close>: what the path names, before any price is quoted.\<close>

definition lookup :: "shop_db \<Rightarrow> string \<Rightarrow> string \<Rightarrow> shop_reply + Seller \<times> Item" where
  "lookup db slug key = (case findShop db slug of
     None \<Rightarrow> Inl (ReplyError 404 ''unknown_shop'')
   | Some seller \<Rightarrow>
       (case (if is_slug key then item_get db (se_slug seller) key else Inr None) of
          Inl e \<Rightarrow> Inl (ReplyThrew e)
        | Inr None \<Rightarrow> Inl (ReplyError 404 ''unknown_item'')
        | Inr (Some item) \<Rightarrow> Inr (seller, item)))"

text \<open>The handler behind the paywall: deliver what was bought, and only that.\<close>

definition item_handler :: "shop_db \<Rightarrow> Order option \<Rightarrow> Seller \<Rightarrow> Item \<Rightarrow> SettlementReceipt \<Rightarrow> shop_reply" where
  "item_handler db order seller item receipt = (case order of
     None \<Rightarrow> ReplyError 500 ''order_not_recorded''
   | Some o' \<Rightarrow>
       let sameItem = (od_sellerSlug o' = se_slug seller \<and> od_itemKey o' = im_key item) in
       reply_of (\<lambda>shop. reply_of (\<lambda>bought.
           case (shop, bought) of
             (Some s, Some b) \<Rightarrow> reply_of ReplyTicket (ticketResponse o' s b receipt)
           | _ \<Rightarrow> ReplyError 500 ''order_item_missing'')
         (if sameItem then Inr (Some item) else item_get db (od_sellerSlug o') (od_itemKey o')))
         (if sameItem then Inr (Some seller) else seller_get db (od_sellerSlug o')))"

definition seller_extension :: "string \<Rightarrow> Seller \<Rightarrow> (string \<times> js) list" where
  "seller_extension baseUrl seller = [(''mapae'', JObject [(''info'', JObject
     [(''seller'', JObject [(''slug'', JString (se_slug seller)), (''name'', JString (se_name seller))]),
      (''manifest'', JString (baseUrl @ ''/s/'' @ se_slug seller))])])]"

definition EM_DASH :: string where "EM_DASH = map char_of [0xE2 :: nat, 0x80, 0x94]"

definition item_options :: "string \<Rightarrow> Seller \<Rightarrow> Item \<Rightarrow> PaywallOptions" where
  "item_options baseUrl seller item = \<lparr>po_payTo = se_payTo seller, po_price = fromTokenAmount (im_priceBase item),
     po_description = se_name seller @ '' '' @ EM_DASH @ '' '' @ im_name item,
     po_extensions = Some (seller_extension baseUrl seller), po_identifiers = True\<rparr>"

text \<open>\<^verbatim>\<open>onSettled\<close>: the one place an order is written. What it throws is logged by the paywall.\<close>

definition onSettled :: "shop_env \<Rightarrow> shop_db \<Rightarrow> Seller \<Rightarrow> Item \<Rightarrow> SettlementReceipt \<Rightarrow> Order option \<times> shop_db" where
  "onSettled env db seller item receipt =
     (case ebind (toTokenAmount (rc_amount receipt)) (\<lambda>amt. createOnce db
         \<lparr>oi_sellerSlug = se_slug seller, oi_itemKey = im_key item, oi_paymentIntentId = rc_intent receipt,
          oi_payer = rc_payer receipt, oi_amountBase = amt, oi_txHash = rc_transaction receipt,
          oi_status = ''paid'', oi_createdAt = sv_order_now env\<rparr> (sv_bytes env)) of
        Inl _ \<Rightarrow> (None, db)
      | Inr (order, db') \<Rightarrow> (Some order, db'))"

text \<open>An answer, the \<^verbatim>\<open>Payment-Response\<close> it carries, and what the request did.\<close>

record 'f shop_result =
  sr_reply :: shop_reply
  sr_receipt :: "js option"
  sr_state :: shop_state
  sr_fac :: 'f
  sr_calls :: "seller_call list"

definition item_paywall ::
    "shop_env \<Rightarrow> 'f facilitator_service \<Rightarrow> FacilitatorKind option \<Rightarrow> seller_request \<Rightarrow> Seller \<Rightarrow> Item
      \<Rightarrow> shop_state \<Rightarrow> 'f \<Rightarrow> 'f shop_result" where
  "item_paywall env fac kind req seller item st f =
     (case paidOrder env (ss_db st) (req_payment_header req) seller item of
        Some paid \<Rightarrow> \<lparr>sr_reply = (if \<not> v_isAddress (sv_viem env) (se_payTo seller) then ReplyThrew (Error ''InvalidAddressError'')
            else item_handler (ss_db st) (Some paid) seller item
              (recordedReceipt paid (v_getAddress (sv_viem env) (se_payTo seller)))),
          sr_receipt = None, sr_state = st, sr_fac = f, sr_calls = []\<rparr>
      | None \<Rightarrow> (case buildPaywall (sv_viem env) (Some (sv_baseUrl env)) (item_options (sv_baseUrl env) seller item) of
          Inl e \<Rightarrow> \<lparr>sr_reply = ReplyThrew e, sr_receipt = None, sr_state = st, sr_fac = f, sr_calls = []\<rparr>
        | Inr pw \<Rightarrow>
            let r = paywall (sv_viem env) (sv_sha256 env) (sv_decode env) pw (shop_identifiers env) fac kind req
                  (ss_ids st, ss_bindings st) f;
                st1 = st\<lparr>ss_ids := fst (rs_ids r), ss_bindings := snd (rs_ids r)\<rparr> in
            (case rs_outcome r of
               Inl e \<Rightarrow> \<lparr>sr_reply = ReplyThrew e, sr_receipt = None, sr_state = st1, sr_fac = rs_fac r, sr_calls = rs_calls r\<rparr>
             | Inr (Deliver receipt doc) \<Rightarrow>
                 let (order, db') = onSettled env (ss_db st) seller item receipt in
                 \<lparr>sr_reply = item_handler db' order seller item receipt, sr_receipt = Some doc,
                  sr_state = st1\<lparr>ss_db := db'\<rparr>, sr_fac = rs_fac r, sr_calls = rs_calls r\<rparr>
             | Inr out \<Rightarrow> \<lparr>sr_reply = ReplyPaywall out, sr_receipt = None, sr_state = st1,
                 sr_fac = rs_fac r, sr_calls = rs_calls r\<rparr>)))"

text \<open>\<^verbatim>\<open>GET /s/:slug/:key\<close>.\<close>

definition item_route ::
    "shop_env \<Rightarrow> 'f facilitator_service \<Rightarrow> FacilitatorKind option \<Rightarrow> string \<Rightarrow> string \<Rightarrow> seller_request
      \<Rightarrow> shop_state \<Rightarrow> 'f \<Rightarrow> 'f shop_result" where
  "item_route env fac kind slug key req st f =
     (case lookup (ss_db st) slug key of
        Inl reply \<Rightarrow> \<lparr>sr_reply = reply, sr_receipt = None, sr_state = st, sr_fac = f, sr_calls = []\<rparr>
      | Inr (seller, item) \<Rightarrow> item_paywall env fac kind req seller item st f)"

text \<open>\<^verbatim>\<open>GET /s/:slug\<close>, \<^verbatim>\<open>GET /s/:slug/tickets/:code\<close>, the settlement lookup and \<^verbatim>\<open>GET /metrics\<close>.\<close>

definition shop_route :: "shop_env \<Rightarrow> shop_db \<Rightarrow> string \<Rightarrow> shop_reply" where
  "shop_route env db slug = (case findShop db slug of
     None \<Rightarrow> ReplyError 404 ''unknown_shop''
   | Some seller \<Rightarrow> reply_of (\<lambda>items. ReplyManifest (shopManifest (sv_baseUrl env) (sv_facilitatorUrl env) seller items))
       (item_listBySeller db (se_slug seller)))"

definition ticketOrder :: "shop_db \<Rightarrow> Seller \<Rightarrow> string \<Rightarrow> Order option result" where
  "ticketOrder db seller code = (case getByTicket db (se_slug seller) code of
     Inl (TypeError _) \<Rightarrow> Inr None
   | r \<Rightarrow> r)"

definition ticket_route :: "shop_db \<Rightarrow> string \<Rightarrow> string \<Rightarrow> shop_reply" where
  "ticket_route db slug code = (case findShop db slug of
     None \<Rightarrow> ReplyError 404 ''unknown_shop''
   | Some seller \<Rightarrow> reply_of (\<lambda>order. case order of
         None \<Rightarrow> ReplyError 404 ''unknown_ticket''
       | Some o' \<Rightarrow> reply_of (\<lambda>item. case item of
             None \<Rightarrow> ReplyError 500 ''order_item_missing''
           | Some i \<Rightarrow> reply_of (\<lambda>t. ReplyVerified t (od_status o')) (ticketFields o' seller i))
         (item_get db (od_sellerSlug o') (od_itemKey o')))
       (ticketOrder db seller code))"

definition ARCADE_SLUG :: string where "ARCADE_SLUG = ''mapae-arcade''"

definition settlement_route :: "shop_env \<Rightarrow> string option \<Rightarrow> shop_db \<Rightarrow> string option \<Rightarrow> string \<Rightarrow> shop_reply" where
  "settlement_route env arcadeReceiptToken db authorization intent =
     (case arcadeReceiptToken of
        None \<Rightarrow> ReplyError 503 ''recovery_unavailable''
      | Some token \<Rightarrow>
          if token = [] then ReplyError 503 ''recovery_unavailable''
          else if \<not> shop_bearerTokenMatches (sv_sha256 env) authorization token then ReplyError 401 ''unauthorized''
          else if \<not> hex_literal is_hex 64 intent then ReplyError 400 ''invalid_intent''
          else (case (getByIntent db intent, findShop db ARCADE_SLUG) of
              (Some order, Some seller) \<Rightarrow>
                (case od_txHash order of
                   Some tx \<Rightarrow> if od_sellerSlug order \<noteq> se_slug seller \<or> od_status order \<noteq> ''paid'' \<or> tx = []
                     then ReplyError 404 ''not_found''
                     else ReplySettlement \<lparr>ot_intent = od_paymentIntentId order, ot_game = od_itemKey order,
                       ot_payer = toLowerCase (od_payer order), ot_transaction = tx, ot_network = GIWA_SEPOLIA_CAIP2,
                       ot_amount = String (od_amountBase order), ot_asset = toLowerCase MOCK_USDC_address,
                       ot_payTo = toLowerCase (se_payTo seller)\<rparr>
                 | None \<Rightarrow> ReplyError 404 ''not_found'')
            | _ \<Rightarrow> ReplyError 404 ''not_found''))"

definition metrics_route :: "shop_env \<Rightarrow> string option \<Rightarrow> shop_db \<Rightarrow> string option \<Rightarrow> int \<Rightarrow> shop_reply" where
  "metrics_route env metricsToken db authorization now =
     (case metricsToken of
        None \<Rightarrow> ReplyError 503 ''metrics_disabled''
      | Some token \<Rightarrow>
          if \<not> shop_bearerTokenMatches (sv_sha256 env) authorization token then ReplyError 401 ''unauthorized''
          else reply_of (\<lambda>allTime. reply_of (\<lambda>last24h. ReplyMetrics allTime last24h)
                 (order_summary db (now - 24 * 60 * 60000)))
               (order_summary db 0))"

section \<open>The two gates read the same payments\<close>

text \<open>
  The shop's own reading of a header admits the payments the paywall's does, and takes the same
  delegation manager and signed context from them. What the comment on \<^verbatim>\<open>readDelegation\<close> asks for
  holds of the shape; the paywall's two further refusals, of a header too long and of a malformed
  payment identifier, are not part of it.
\<close>

lemma delegation_iff_payment:
  "readDelegation v decode header = Some d \<longleftrightarrow>
     (\<exists>payload. readDelegatedPayment v decode header = Inr payload \<and>
        dl_delegationManager d = js_getAddress v (js_get (js_get payload ''payload'') ''delegationManager'') \<and>
        js_get (js_get payload ''payload'') ''permissionContext'' = JString (dl_permissionContext d))"
proof (cases "decode header")
  case None
  then show ?thesis by (simp add: readDelegation_def readDelegatedPayment_def)
next
  case (Some c)
  show ?thesis
  proof (cases "js_get (js_get (js_get c ''accepted'') ''extra'') ''assetTransferMethod'' = JString ''erc7710''")
    case False
    then show ?thesis using Some by (simp add: readDelegation_def readDelegatedPayment_def)
  next
    case True
    then show ?thesis using Some
      by (cases d, cases "js_get (js_get c ''payload'') ''permissionContext''")
        (auto simp: readDelegation_def readDelegatedPayment_def delegation_payload_ok_def Let_def)
  qed
qed

section \<open>What a delivered ticket rests on\<close>

lemma read_header_payment:
  "read_header v decode pw req = Inr (Some pay) \<Longrightarrow>
   \<exists>h. req_payment_header req = Some h \<and> readDelegatedPayment v decode h = Inr (rd_payload pay)"
  by (auto simp: read_header_def Let_def split: option.splits sum.splits if_splits PaymentIdentifierRead.splits)

lemma buildPaywall_fields:
  assumes "buildPaywall v b (item_options u seller item) = Inr pw" "0 \<le> im_priceBase item"
  shows "parsePayTo v (se_payTo seller) = Inr (pw_payTo pw)" "pw_amount pw = im_priceBase item"
  using assms by (auto simp: buildPaywall_def result_simps item_options_def parsePrice_def printed_amount_parses split: if_splits)

lemma offered_intent_paywall:
  assumes "readDelegatedPayment v decode h = Inr payload" "readDelegation v decode h = Some d"
    and "pw_payTo pw = se_payTo seller" "pw_amount pw = im_priceBase item"
  shows "intent_of v pw (requirements_of pw k) payload = offered_intent v seller item d"
  using assms(1,2) by (auto simp: delegation_iff_payment intent_of_def offered_intent_def assms(3,4) js_text_def)

lemma item_handler_ticket:
  assumes "item_handler db order seller item rc = ReplyTicket t"
  obtains o' s b where "order = Some o'" "ticketResponse o' s b rc = Inr t" "se_slug s = od_sellerSlug o'" "im_key b = od_itemKey o'"
proof -
  obtain o' where o': "order = Some o'" using assms by (cases order) (auto simp: item_handler_def)
  show thesis
  proof (cases "od_sellerSlug o' = se_slug seller \<and> od_itemKey o' = im_key item")
    case True
    then show ?thesis using that [of o' seller item] o' assms by (auto simp: item_handler_def reply_of_def Let_def split: sum.splits)
  next
    case False
    then obtain s b where "seller_get db (od_sellerSlug o') = Inr (Some s)" "item_get db (od_sellerSlug o') (od_itemKey o') = Inr (Some b)"
      "ticketResponse o' s b rc = Inr t"
      using o' assms by (auto simp: item_handler_def reply_of_def Let_def split: sum.splits option.splits)
    moreover from this have "se_slug s = od_sellerSlug o'" "im_key b = od_itemKey o'"
      by (auto simp: seller_get_def item_get_def result_simps toSeller_def toItem_def dest: seller_find_Some item_find_Some)
    ultimately show ?thesis using that o' by blast
  qed
qed

lemma ticket_facts:
  assumes "ticketResponse o' s b rc = Inr t"
  shows "tf_code (tr_ticket t) = od_ticket o'" "fst (tf_shop (tr_ticket t)) = se_slug s" "fst (tf_item (tr_ticket t)) = im_key b"
    "toISOString (od_createdAt o') \<noteq> Inl e" "tr_receipt t = rc"
  using assms by (auto simp: ticketResponse_def ticketFields_def result_simps)

text \<open>An order of a consistent shop can always be delivered, whatever item was asked for.\<close>

lemma item_handler_delivers:
  assumes "shop_ok db" "getByIntent db i = Some o'" "toISOString (od_createdAt o') = Inr stamp"
  shows "\<exists>t. item_handler db (Some o') seller item rc = ReplyTicket t \<and> tf_code (tr_ticket t) = od_ticket o' \<and>
    fst (tf_shop (tr_ticket t)) = od_sellerSlug o' \<and> fst (tf_item (tr_ticket t)) = od_itemKey o' \<and> tr_receipt t = rc"
proof (cases "od_sellerSlug o' = se_slug seller \<and> od_itemKey o' = im_key item")
  case True
  then show ?thesis using assms(3) by (simp add: item_handler_def reply_of_def ticketResponse_def ticketFields_def ebind_def)
next
  case False
  obtain r where r: "r \<in> set (sh_orders db)" "o' = toOrder r"
    using assms(2) by (auto simp: getByIntent_def dest: order_find_Some)
  then have "(od_sellerSlug o', od_itemKey o') \<in> (\<lambda>x. (it_seller_slug x, it_key x)) ` set (sh_items db)"
    using assms(1) by (auto simp: shop_ok_def toOrder_def)
  then obtain x where x: "x \<in> set (sh_items db)" "it_seller_slug x = od_sellerSlug o'" "it_key x = od_itemKey o'" by force
  obtain y where y: "y \<in> set (sh_sellers db)" "sl_slug y = od_sellerSlug o'" using assms(1) x by (fastforce simp: shop_ok_def)
  have k: "is_slug (od_itemKey o')" "is_slug (od_sellerSlug o')" using assms(1) x y unfolding shop_ok_def by auto
  have "item_find db (od_sellerSlug o') (od_itemKey o') \<noteq> None" unfolding item_find_None using x by force
  then obtain b where b: "item_find db (od_sellerSlug o') (od_itemKey o') = Some b" by blast
  have "seller_find db (od_sellerSlug o') \<noteq> None" unfolding seller_find_None using y by force
  then obtain s where s: "seller_find db (od_sellerSlug o') = Some s" by blast
  have "seller_get db (od_sellerSlug o') = Inr (Some (toSeller s))" "item_get db (od_sellerSlug o') (od_itemKey o') = Inr (Some (toItem b))"
    "se_slug (toSeller s) = od_sellerSlug o'" "im_key (toItem b) = od_itemKey o'"
    using k s b seller_find_Some [OF s] item_find_Some [OF b]
    by (simp_all add: seller_get_def item_get_def slugKey_def ebind_def toSeller_def toItem_def)
  then show ?thesis using False assms(3) by (simp add: item_handler_def reply_of_def ticketResponse_def ticketFields_def ebind_def Let_def)
qed

lemma lookup_facts:
  assumes "lookup db slug key = Inr (seller, item)" "shop_ok db"
  shows "0 \<le> im_priceBase item"
  using assms by (auto simp: lookup_def item_get_def result_simps toItem_def shop_ok_def split: option.splits sum.splits if_splits dest!: item_find_Some)

lemma onSettledE:
  assumes "onSettled env db seller item receipt = (order, db')"
  obtains (lost) "order = None" "db' = db"
  | (written) o' i where "order = Some o'" "createOnce db i (sv_bytes env) = Inr (o', db')" "oi_paymentIntentId i = rc_intent receipt"
  using assms by (auto simp: onSettled_def ebind_def split: sum.splits)

text \<open>What a ticket of the item route proves, whichever way it was answered.\<close>

lemma item_ticket:
  assumes "sr_reply (item_paywall env fac kind req seller item st f) = ReplyTicket t"
    and "0 \<le> im_priceBase item" "parsePayTo (sv_viem env) (se_payTo seller) = Inr (se_payTo seller)"
  shows "\<exists>h d o' s b. req_payment_header req = Some h \<and> readDelegation (sv_viem env) (sv_decode env) h = Some d \<and>
    getByIntent (ss_db (sr_state (item_paywall env fac kind req seller item st f))) (offered_intent (sv_viem env) seller item d) = Some o' \<and>
    ticketResponse o' s b (tr_receipt t) = Inr t \<and> se_slug s = od_sellerSlug o' \<and> im_key b = od_itemKey o' \<and>
    shop_step\<^sup>*\<^sup>* (ss_db st) (ss_db (sr_state (item_paywall env fac kind req seller item st f)))"
proof (cases "paidOrder env (ss_db st) (req_payment_header req) seller item")
  let ?R = "item_paywall env fac kind req seller item st f"
  case (Some paid)
  then have R: "?R = \<lparr>sr_reply = ReplyTicket t, sr_receipt = None, sr_state = st, sr_fac = f, sr_calls = []\<rparr>"
    "item_handler (ss_db st) (Some paid) seller item (recordedReceipt paid (v_getAddress (sv_viem env) (se_payTo seller))) = ReplyTicket t"
    using assms(1) by (auto simp: item_paywall_def split: if_splits)
  obtain h d where "req_payment_header req = Some h" "readDelegation (sv_viem env) (sv_decode env) h = Some d"
    "getByIntent (ss_db st) (offered_intent (sv_viem env) seller item d) = Some paid"
    using Some by (auto simp: paidOrder_def split: option.splits)
  moreover obtain s b where "ticketResponse paid s b (tr_receipt t) = Inr t" "se_slug s = od_sellerSlug paid" "im_key b = od_itemKey paid"
    using item_handler_ticket [OF R(2)] ticket_facts(5) by (metis option.inject)
  ultimately show ?thesis unfolding R(1) by auto
next
  let ?R = "item_paywall env fac kind req seller item st f"
  case None
  show ?thesis
  proof (cases "buildPaywall (sv_viem env) (Some (sv_baseUrl env)) (item_options (sv_baseUrl env) seller item)")
    case (Inl e)
    then show ?thesis using None assms(1) by (simp add: item_paywall_def)
  next
    case pw: (Inr pw)
    define r where "r = paywall (sv_viem env) (sv_sha256 env) (sv_decode env) pw (shop_identifiers env) fac kind req (ss_ids st, ss_bindings st) f"
    have "\<exists>receipt doc. rs_outcome r = Inr (Deliver receipt doc)"
      using None pw assms(1) by (auto simp: item_paywall_def Let_def r_def split: sum.splits paywall_outcome.splits)
    then obtain receipt doc where del: "rs_outcome r = Inr (Deliver receipt doc)" by blast
    obtain order db' where os: "onSettled env (ss_db st) seller item receipt = (order, db')" by fastforce
    have h: "item_handler db' order seller item receipt = ReplyTicket t" and st': "ss_db (sr_state ?R) = db'"
      using None pw assms(1) del os by (auto simp: item_paywall_def Let_def r_def)
    obtain k pay where k: "read_header (sv_viem env) (sv_decode env) pw req = Inr (Some pay)"
      "rc_intent receipt = intent_of (sv_viem env) pw (requirements_of pw k) (rd_payload pay)"
      using delivery_accounts [OF del [unfolded r_def]] by blast
    obtain hd where hd: "req_payment_header req = Some hd" "readDelegatedPayment (sv_viem env) (sv_decode env) hd = Inr (rd_payload pay)"
      using read_header_payment [OF k(1)] by blast
    obtain d where d: "readDelegation (sv_viem env) (sv_decode env) hd = Some d"
    proof -
      obtain c where "js_get (js_get (rd_payload pay) ''payload'') ''permissionContext'' = JString c"
        using hd(2) by (auto simp: readDelegatedPayment_def delegation_payload_ok_def split: option.splits if_splits js.splits)
      then have "readDelegation (sv_viem env) (sv_decode env) hd = Some \<lparr>dl_delegationManager =
          js_getAddress (sv_viem env) (js_get (js_get (rd_payload pay) ''payload'') ''delegationManager''), dl_permissionContext = c\<rparr>"
        using hd(2) unfolding delegation_iff_payment by auto
      then show thesis by (rule that)
    qed
    have i: "rc_intent receipt = offered_intent (sv_viem env) seller item d"
      using offered_intent_paywall [OF hd(2) d, of pw seller item k] buildPaywall_fields [OF pw assms(2)] assms(3) k(2) by simp
    from os show ?thesis
    proof (cases rule: onSettledE)
      case lost
      then show ?thesis using h by (simp add: item_handler_def)
    next
      case (written o' i')
      obtain s b where "ticketResponse o' s b (tr_receipt t) = Inr t" "se_slug s = od_sellerSlug o'" "im_key b = od_itemKey o'"
        using item_handler_ticket [OF h] ticket_facts(5) written(1) by (metis option.inject)
      moreover have "getByIntent db' (offered_intent (sv_viem env) seller item d) = Some o'"
        using getByIntent_createOnce [OF written(2)] written(3) i by simp
      moreover have "shop_step\<^sup>*\<^sup>* (ss_db st) db'" using by_order [OF written(2)] by (rule r_into_rtranclp)
      ultimately show ?thesis unfolding st' using hd(1) d by blast
    qed
  qed
qed

lemma canonical_payTo: "viem_ok v \<Longrightarrow> parsePayTo v p = Inr p \<Longrightarrow> v_isAddress v p"
  by (auto simp: parsePayTo_def Let_def split: if_splits dest: viem_isAddress_get)

section \<open>A sample purchase, for the witness\<close>

definition cafe_input :: SellerInput where
  "cafe_input = \<lparr>sli_slug = ''cafe'', sli_kind = Hosted, sli_name = ''Cafe'', sli_pay_to = addr CHR ''1'', sli_base_url = None,
     sli_token_hash = None, sli_contact = None, sli_internal = False, sli_created = 1\<rparr>"

definition latte_input :: ItemInput where
  "latte_input = \<lparr>ii_sellerSlug = ''cafe'', ii_key = ''latte'', ii_name = ''Latte'', ii_description = '''', ii_priceBase = 5000,
     ii_resourceUrl = None, ii_createdAt = 1\<rparr>"

definition cafe_row :: SellerRow where
  "cafe_row = seller_row cafe_input ''cafe'' None 1"

definition latte_row :: ItemRow where
  "latte_row = \<lparr>it_id = next_rowid it_id ([] :: ItemRow list), it_seller_slug = ''cafe'', it_key = ''latte'', it_name = ''Latte'', it_description = '''',
     it_price_base = String 5000, it_resource_url = None, it_created_at = 1\<rparr>"

definition cafe_db :: shop_db where
  "cafe_db = \<lparr>sh_sellers = [cafe_row], sh_items = [latte_row], sh_orders = []\<rparr>"

lemma sample_slugs: "is_slug ''cafe''" "is_slug ''latte''"
  by (simp_all add: is_slug_def slug_char_def is_lower_def is_digit_def char_between_def)

lemma cafe_reached: "shop_step\<^sup>*\<^sup>* empty_shop cafe_db"
proof -
  have "seller_upsert empty_shop cafe_input = Inr (toSeller cafe_row, empty_shop\<lparr>sh_sellers := [cafe_row]\<rparr>)"
    by (simp add: seller_upsert_def cafe_row_def seller_row_def cafe_input_def empty_shop_def result_simps seller_find_def Let_def
        seller_constraints_def optionalTokenHash_def sample_slugs isSafeInteger_def MAX_SAFE_INTEGER_def)
  moreover have "item_upsert (empty_shop\<lparr>sh_sellers := [cafe_row]\<rparr>) latte_input = Inr (toItem latte_row, cafe_db)"
    by (simp add: item_upsert_def latte_input_def latte_row_def cafe_db_def empty_shop_def result_simps Let_def amountText_def
        item_find_def seller_find_def cafe_row_def seller_row_def sample_slugs isSafeInteger_def MAX_SAFE_INTEGER_def)
  ultimately have "shop_step empty_shop (empty_shop\<lparr>sh_sellers := [cafe_row]\<rparr>)" "shop_step (empty_shop\<lparr>sh_sellers := [cafe_row]\<rparr>) cafe_db"
    by (blast intro: by_seller by_item)+
  then show ?thesis by (rule converse_rtranclp_into_rtranclp [OF _ r_into_rtranclp])
qed

definition shop_sample_env :: shop_env where
  "shop_sample_env = \<lparr>sv_viem = sample_viem, sv_sha256 = id, sv_decode = (\<lambda>_. Some sample_payload), sv_baseUrl = ''https://shop.example'',
     sv_facilitatorUrl = ''https://f.example'', sv_bind_now = 10, sv_record_now = 10, sv_order_now = 10,
     sv_bytes = [1, 2, 3, 4, 5, 6, 7, 8, 9, 10]\<rparr>"

definition cafe_state :: shop_state where
  "cafe_state = \<lparr>ss_db = cafe_db, ss_ids = [], ss_bindings = 0\<rparr>"

lemma cafe_lookup: "lookup cafe_db ''cafe'' ''latte'' = Inr (toSeller cafe_row, toItem latte_row)"
  by (simp add: lookup_def findShop_def sample_slugs seller_find_def cafe_db_def item_get_def slugKey_def item_find_def
      toSeller_def cafe_row_def seller_row_def cafe_input_def latte_row_def)

lemma cafe_fields: "se_payTo (toSeller cafe_row) = addr CHR ''1''" "im_priceBase (toItem latte_row) = 5000"
    "se_slug (toSeller cafe_row) = ''cafe''" "im_key (toItem latte_row) = ''latte''"
  by (simp_all add: toSeller_def toItem_def cafe_row_def seller_row_def cafe_input_def latte_row_def)

lemma cafe_payTo: "parsePayTo sample_viem (addr CHR ''1'') = Inr (addr CHR ''1'')"
proof -
  have "trim (addr CHR ''1'') = addr CHR ''1''" by (simp add: addr_def trim_def is_space_def)
  moreover have "v_getAddress sample_viem (addr CHR ''1'') = addr CHR ''1''" by code_simp
  moreover have "addr CHR ''1'' \<noteq> zeroAddress" by code_simp
  ultimately show ?thesis by (simp add: parsePayTo_def)
qed

lemma cafe_paywall:
  "\<exists>pw. buildPaywall sample_viem (Some ''https://shop.example'') (item_options ''https://shop.example'' (toSeller cafe_row) (toItem latte_row)) = Inr pw \<and>
     pw_payTo pw = addr CHR ''1'' \<and> pw_amount pw = 5000 \<and> pw_identifiers pw"
proof -
  have "trim (se_name (toSeller cafe_row) @ '' '' @ EM_DASH @ '' '' @ im_name (toItem latte_row)) \<noteq> []"
    by (simp add: toSeller_def cafe_row_def seller_row_def cafe_input_def trim_def is_space_def)
  then have "ensure (trim (se_name (toSeller cafe_row) @ '' '' @ EM_DASH @ '' '' @ im_name (toItem latte_row)) \<noteq> []) e = Inr ()" for e :: js_error
    by simp
  note d = this [unfolded append_Cons append_Nil]
  show ?thesis
    by (simp add: buildPaywall_def item_options_def cafe_fields cafe_payTo parsePrice_def printed_amount_parses d
        seller_extension_def PAYMENT_IDENTIFIER_EXTENSION_def js_has_def Let_def)
qed

lemma cafe_order:
  assumes "rc_amount receipt = fromTokenAmount 5000"
  shows "\<exists>o' db'. onSettled shop_sample_env cafe_db (toSeller cafe_row) (toItem latte_row) receipt = (Some o', db') \<and>
     od_sellerSlug o' = ''cafe'' \<and> od_itemKey o' = ''latte'' \<and> od_createdAt o' = 10"
  by (simp add: onSettled_def assms printed_amount_parses createOnce_def cafe_fields slugKey_def sample_slugs amountText_def millis_def
      ebind_def order_find_def cafe_db_def item_find_def latte_row_def toItem_def Let_def toOrder_def shop_sample_env_def
      isSafeInteger_def MAX_SAFE_INTEGER_def ensure_def)

lemma lookup_orders: "lookup (db\<lparr>sh_orders := os\<rparr>) slug key = lookup db slug key"
proof -
  have "findShop (db\<lparr>sh_orders := os\<rparr>) slug = findShop db slug" by (simp add: findShop_def seller_find_def)
  moreover have "item_get (db\<lparr>sh_orders := os\<rparr>) k i = item_get db k i" for k i by (simp add: item_get_def item_find_def)
  ultimately show ?thesis by (cases "findShop db slug"; cases "is_slug key") (simp_all add: lookup_def)
qed

lemma createOnce_orders: "createOnce db i bytes = Inr (order, db') \<Longrightarrow> \<exists>os. db' = db\<lparr>sh_orders := os\<rparr>"
  by (erule createOnceE) (auto intro: exI [of _ "sh_orders db"])

lemma item_paywall_orders: "\<exists>os. ss_db (sr_state (item_paywall env fac kind req seller item st f)) = ss_db st\<lparr>sh_orders := os\<rparr>"
proof -
  have same: "\<exists>os. db = db\<lparr>sh_orders := os\<rparr>" for db by (rule exI [of _ "sh_orders db"]) simp
  have "\<exists>os. snd (onSettled env (ss_db st) seller item receipt) = ss_db st\<lparr>sh_orders := os\<rparr>" for receipt
  proof -
    obtain order db' where o': "onSettled env (ss_db st) seller item receipt = (order, db')" by fastforce
    then have "\<exists>os. db' = ss_db st\<lparr>sh_orders := os\<rparr>"
      by (cases rule: onSettledE) (use same [of "ss_db st"] createOnce_orders in blast)+
    then show ?thesis using o' by simp
  qed
  then show ?thesis using same [of "ss_db st"]
    by (auto simp: item_paywall_def Let_def case_prod_beta split: option.split sum.split paywall_outcome.split)
qed

lemma cafe_sale:
  "\<exists>t. sr_reply (item_route shop_sample_env paying_facilitator (Some sample_kind) ''cafe'' ''latte'' sample_request cafe_state 0) = ReplyTicket t"
proof -
  obtain pw where pw: "buildPaywall sample_viem (Some ''https://shop.example'') (item_options ''https://shop.example'' (toSeller cafe_row) (toItem latte_row)) = Inr pw"
    "pw_payTo pw = addr CHR ''1''" "pw_amount pw = 5000" "pw_identifiers pw" using cafe_paywall by blast
  let ?r = "requirements_of pw sample_kind" and ?ip = "req_client_ip sample_request"
  obtain va u1 where va: "fs_verify paying_facilitator 0 (facilitator_request sample_payload ?r) ?ip = (va, u1)" by (rule prod.exhaust)
  obtain sa u2 where sa: "fs_settle paying_facilitator u1 (facilitator_request sample_payload ?r) ?ip = (sa, u2)" by (rule prod.exhaust)
  have d: "decideVerification sample_viem va sample_payer = VerifyAccepted sample_payer"
    "decideSettlement sample_viem sa sample_payer = LadderSettled None False"
    using sample_verified [of 0 "facilitator_request sample_payload ?r" ?ip]
      sample_settled [of u1 "facilitator_request sample_payload ?r" ?ip] va sa by simp_all
  have l: "\<not> req_last_route sample_request" by (simp add: sample_request_def)
  define receipt where "receipt = \<lparr>rc_intent = intent_of sample_viem pw ?r sample_payload, rc_payer = sample_payer, rc_amount = fromTokenAmount 5000,
     rc_asset = MOCK_USDC_address, rc_payTo = addr CHR ''1'', rc_network = GIWA_SEPOLIA_CAIP2, rc_transaction = None, rc_replayed = False\<rparr>"
  have p: "rs_outcome (paywall sample_viem id (\<lambda>_. Some sample_payload) pw (shop_identifiers shop_sample_env) paying_facilitator
     (Some sample_kind) sample_request ([], 0) 0) = Inr (Deliver receipt (success_receipt receipt))"
    by (simp add: paywall_def l sample_read serve_payment_def charge_payment_def va sa d settle_outcome_def deliver_def Let_def receipt_def pw)
  obtain o' db' where o': "onSettled shop_sample_env cafe_db (toSeller cafe_row) (toItem latte_row) receipt = (Some o', db')"
    "od_sellerSlug o' = ''cafe''" "od_itemKey o' = ''latte''" "od_createdAt o' = 10"
    using cafe_order [of receipt] by (auto simp: receipt_def)
  have n: "paidOrder shop_sample_env cafe_db (req_payment_header sample_request) (toSeller cafe_row) (toItem latte_row) = None"
    by (auto simp: paidOrder_def getByIntent_def order_find_def cafe_db_def split: option.split)
  have "toISOString 10 = Inr (isoDate 10 @ ''T'' @ isoTime 10)" by (simp add: toISOString_def MAX_TIME_def)
  then have "\<exists>t. item_handler db' (Some o') (toSeller cafe_row) (toItem latte_row) receipt = ReplyTicket t"
    using o' by (simp add: item_handler_def cafe_fields reply_of_def ticketResponse_def ticketFields_def ebind_def)
  then show ?thesis using cafe_lookup n pw(1) p o'(1)
    by (auto simp: item_route_def item_paywall_def cafe_state_def shop_sample_env_def Let_def)
qed

lemma cafe_kept: "lookup (ss_db (sr_state (item_route shop_sample_env paying_facilitator (Some sample_kind) ''cafe'' ''latte''
    sample_request cafe_state 0))) ''cafe'' ''latte'' = Inr (toSeller cafe_row, toItem latte_row)"
proof -
  have db: "ss_db cafe_state = cafe_db" by (simp add: cafe_state_def)
  obtain os where "ss_db (sr_state (item_route shop_sample_env paying_facilitator (Some sample_kind) ''cafe'' ''latte'' sample_request cafe_state 0))
      = cafe_db\<lparr>sh_orders := os\<rparr>"
    using item_paywall_orders [of shop_sample_env paying_facilitator "Some sample_kind" sample_request "toSeller cafe_row" "toItem latte_row" cafe_state 0]
    by (auto simp: item_route_def db cafe_lookup)
  then show ?thesis using cafe_lookup by (simp add: lookup_orders)
qed

text \<open>C28: a payment whose answer was lost is not lost, as long as the offer keeps its terms. Once a
  header was answered a ticket, the same header presented again, at an offer with the same price
  and the same receiving address as the one it paid, is answered the same ticket for the item first
  bought, whatever else was written to the shop in between: the facilitator is not called and
  nothing is written. At an offer with another price or another receiving address the header
  derives another intent, and this says nothing of it.\<close>

theorem lost_ticket_is_shown_again:
  assumes v: "viem_ok (sv_viem env)" and reach: "shop_step\<^sup>*\<^sup>* empty_shop (ss_db st)"
    and first: "sr_reply (item_route env fac kind slug key req st f) = ReplyTicket t"
    and offered: "lookup (ss_db st) slug key = Inr (seller, item)" "parsePayTo (sv_viem env) (se_payTo seller) = Inr (se_payTo seller)"
    and later: "shop_step\<^sup>*\<^sup>* (ss_db (sr_state (item_route env fac kind slug key req st f))) (ss_db st2)"
    and again: "lookup (ss_db st2) slug2 key2 = Inr (seller2, item2)" "se_payTo seller2 = se_payTo seller" "im_priceBase item2 = im_priceBase item"
    and same: "sv_viem env2 = sv_viem env" "sv_decode env2 = sv_decode env" "req_payment_header req2 = req_payment_header req"
  shows "\<exists>t2. item_route env2 fac2 kind2 slug2 key2 req2 st2 f2 =
      \<lparr>sr_reply = ReplyTicket t2, sr_receipt = None, sr_state = st2, sr_fac = f2, sr_calls = []\<rparr> \<and>
    tf_code (tr_ticket t2) = tf_code (tr_ticket t) \<and> fst (tf_shop (tr_ticket t2)) = fst (tf_shop (tr_ticket t)) \<and>
    fst (tf_item (tr_ticket t2)) = fst (tf_item (tr_ticket t))"
proof -
  have R: "item_route env fac kind slug key req st f = item_paywall env fac kind req seller item st f"
    using offered(1) by (simp add: item_route_def)
  obtain h d o' s b where p: "req_payment_header req = Some h" "readDelegation (sv_viem env) (sv_decode env) h = Some d"
    "getByIntent (ss_db (sr_state (item_route env fac kind slug key req st f))) (offered_intent (sv_viem env) seller item d) = Some o'"
    "ticketResponse o' s b (tr_receipt t) = Inr t" "se_slug s = od_sellerSlug o'" "im_key b = od_itemKey o'"
    "shop_step\<^sup>*\<^sup>* (ss_db st) (ss_db (sr_state (item_route env fac kind slug key req st f)))"
    using item_ticket [OF first [unfolded R] lookup_facts [OF offered(1) reach_ok [OF reach]] offered(2)] unfolding R by blast
  have kept: "getByIntent (ss_db st2) (offered_intent (sv_viem env) seller item d) = Some o'"
    using orders.kept_steps [OF later p(3)] .
  have ok: "shop_ok (ss_db st2)" using reach p(7) later by (intro reach_ok) (metis rtranclp_trans)
  have paid: "paidOrder env2 (ss_db st2) (req_payment_header req2) seller2 item2 = Some o'"
    using kept p(1,2) same again(2,3) by (simp add: paidOrder_def offered_intent_def)
  obtain stamp where "toISOString (od_createdAt o') = Inr stamp" using ticket_facts(4) [OF p(4)] by (cases "toISOString (od_createdAt o')") auto
  from item_handler_delivers [OF ok kept this, of seller2 item2 "recordedReceipt o' (v_getAddress (sv_viem env2) (se_payTo seller2))"]
  obtain t2 where t2: "item_handler (ss_db st2) (Some o') seller2 item2 (recordedReceipt o' (v_getAddress (sv_viem env2) (se_payTo seller2))) = ReplyTicket t2"
    "tf_code (tr_ticket t2) = od_ticket o'" "fst (tf_shop (tr_ticket t2)) = od_sellerSlug o'" "fst (tf_item (tr_ticket t2)) = od_itemKey o'" by blast
  have "item_route env2 fac2 kind2 slug2 key2 req2 st2 f2 =
      \<lparr>sr_reply = ReplyTicket t2, sr_receipt = None, sr_state = st2, sr_fac = f2, sr_calls = []\<rparr>"
    using again paid t2(1) canonical_payTo [OF v offered(2)] same(1) by (simp add: item_route_def item_paywall_def)
  then show ?thesis using t2(2-4) ticket_facts [OF p(4)] p(5,6) by simp
qed

theorem lost_ticket_is_shown_again_witness:
  "\<exists>t t2 st1. sr_reply (item_route shop_sample_env paying_facilitator (Some sample_kind) ''cafe'' ''latte'' sample_request cafe_state (0 :: nat))
       = ReplyTicket t \<and>
     item_route shop_sample_env paying_facilitator None ''cafe'' ''latte'' sample_request st1 7
       = \<lparr>sr_reply = ReplyTicket t2, sr_receipt = None, sr_state = st1, sr_fac = 7, sr_calls = []\<rparr> \<and>
     tf_code (tr_ticket t2) = tf_code (tr_ticket t)"
proof -
  obtain t where t: "sr_reply (item_route shop_sample_env paying_facilitator (Some sample_kind) ''cafe'' ''latte'' sample_request cafe_state (0 :: nat))
       = ReplyTicket t" using cafe_sale by blast
  let ?st = "sr_state (item_route shop_sample_env paying_facilitator (Some sample_kind) ''cafe'' ''latte'' sample_request cafe_state (0 :: nat))"
  have db: "ss_db cafe_state = cafe_db" "sv_viem shop_sample_env = sample_viem" by (simp_all add: cafe_state_def shop_sample_env_def)
  have again: "lookup (ss_db ?st) ''cafe'' ''latte'' = Inr (toSeller cafe_row, toItem latte_row)" by (rule cafe_kept)
  have "\<exists>t2. item_route shop_sample_env paying_facilitator None ''cafe'' ''latte'' sample_request ?st 7 =
      \<lparr>sr_reply = ReplyTicket t2, sr_receipt = None, sr_state = ?st, sr_fac = 7, sr_calls = []\<rparr> \<and>
    tf_code (tr_ticket t2) = tf_code (tr_ticket t) \<and> fst (tf_shop (tr_ticket t2)) = fst (tf_shop (tr_ticket t)) \<and>
    fst (tf_item (tr_ticket t2)) = fst (tf_item (tr_ticket t))"
    by (rule lost_ticket_is_shown_again [OF _ _ t cafe_lookup [folded db(1)] _ rtranclp.rtrancl_refl again])
      (simp_all add: db sample_viem_ok cafe_reached cafe_lookup cafe_fields cafe_payTo)
  with t show ?thesis by blast
qed

section \<open>The identifier table stays bounded\<close>

inductive binding_run :: "viem \<Rightarrow> binding_state \<Rightarrow> binding_state \<Rightarrow> bool" for v where
  run_none: "binding_run v s s"
| run_bind: "binding_run v s s1 \<Longrightarrow> UNSETTLED_BINDING_TTL_MS \<le> now \<Longrightarrow> isSafeInteger now \<Longrightarrow>
    binding_run v s (snd (shop_bind v now s1 i print intent))"
| run_record: "binding_run v s s1 \<Longrightarrow> shop_record now s1 i payer tx = Inr s2 \<Longrightarrow> binding_run v s s2"

definition unsettled_count :: "PaymentIdentifierDbRow list \<Rightarrow> nat" where
  "unsettled_count rows = length (filter unsettled rows)"

text \<open>Open bindings after \<open>n\<close> calls: what the last prune kept and one for each call since.\<close>

definition binding_bounded :: "binding_state \<Rightarrow> bool" where
  "binding_bounded s \<longleftrightarrow> pid_ok (fst s) \<and>
     (0 < snd s \<longrightarrow> unsettled_count (fst s) \<le> nat UNSETTLED_BINDINGS_KEPT + ((snd s - 1) mod BINDING_PRUNE_EVERY + 1))"

lemma pruned_count:
  assumes "pid_ok rows" "UNSETTLED_BINDING_TTL_MS \<le> now" "isSafeInteger now"
  shows "unsettled_count (pruneBindings now rows) \<le> nat UNSETTLED_BINDINGS_KEPT" "pid_ok (pruneBindings now rows)"
proof -
  have s: "isSafeInteger (now - UNSETTLED_BINDING_TTL_MS)" "isSafeInteger UNSETTLED_BINDINGS_KEPT"
    using assms(2,3) by (auto simp: isSafeInteger_def UNSETTLED_BINDING_TTL_MS_def UNSETTLED_BINDINGS_KEPT_def MAX_SAFE_INTEGER_def)
  then obtain n rows' where p: "pid_prune rows (now - UNSETTLED_BINDING_TTL_MS) UNSETTLED_BINDINGS_KEPT = Inr (n, rows')"
    using assms(2) by (fastforce simp: pid_prune_def millis_def positiveInteger_def ebind_def Let_def UNSETTLED_BINDINGS_KEPT_def)
  then have e: "pruneBindings now rows = rows'" by (simp add: pruneBindings_def)
  show "pid_ok (pruneBindings now rows)" using pid_prune_ok [OF assms(1) p] e by simp
  from p have r: "rows' = dropUnsettledBeyond (nat UNSETTLED_BINDINGS_KEPT) (dropUnsettledBefore (now - UNSETTLED_BINDING_TTL_MS) rows)"
    by (rule pid_pruneE)
  have "distinct (map pi_id rows)" using assms(1) by (simp add: pid_ok_def)
  then show "unsettled_count (pruneBindings now rows) \<le> nat UNSETTLED_BINDINGS_KEPT"
    unfolding e r unsettled_count_def by (simp add: pid.pass(2))
qed

lemma bind_count: "pid_bind rows i f p t = Inr (r, rows') \<Longrightarrow> unsettled_count rows' \<le> unsettled_count rows + 1"
  by (erule pid_bindE) (auto simp: unsettled_count_def unsettled_def)

lemma record_count: "pid_record rows i payer tx t = Inr rows' \<Longrightarrow> unsettled_count rows' \<le> unsettled_count rows"
proof (erule pid_recordE)
  fix e assume r: "rows' = update_where (settle_where i) (\<lambda>r. r\<lparr>pi_payer := Some payer, pi_tx_hash := tx, pi_settled_at := Some t\<rparr>) rows"
  show ?thesis unfolding r unsettled_count_def update_where_def by (induction rows) (auto simp: unsettled_def)
qed

lemma binding_bounded_bind:
  assumes "binding_bounded s" "UNSETTLED_BINDING_TTL_MS \<le> now" "isSafeInteger now"
  shows "binding_bounded (snd (shop_bind v now s i print intent))"
proof -
  obtain rows n where s: "s = (rows, n)" by fastforce
  define rows1 where "rows1 = (if n mod BINDING_PRUNE_EVERY = 0 then pruneBindings now rows else rows)"
  have ok: "pid_ok rows1" using assms pruned_count(2) s by (simp add: rows1_def binding_bounded_def)
  have c: "unsettled_count rows1 \<le> nat UNSETTLED_BINDINGS_KEPT + n mod BINDING_PRUNE_EVERY"
  proof (cases "n mod BINDING_PRUNE_EVERY = 0")
    case True
    then show ?thesis using pruned_count(1) [OF _ assms(2,3)] assms(1) s by (simp add: rows1_def binding_bounded_def)
  next
    case False
    then have "0 < n" by (cases n) auto
    then have "(n - 1) mod BINDING_PRUNE_EVERY + 1 = n mod BINDING_PRUNE_EVERY"
      using False mod_Suc [of "n - 1" BINDING_PRUNE_EVERY] by (auto split: if_splits)
    then show ?thesis using False assms(1) s \<open>0 < n\<close> by (simp add: rows1_def binding_bounded_def)
  qed
  have "pid_ok rows' \<and> unsettled_count rows' \<le> nat UNSETTLED_BINDINGS_KEPT + (n mod BINDING_PRUNE_EVERY + 1)"
    if "snd (shop_bind v now s i print intent) = (rows', m)" for rows' m
    using that s ok c bind_count pid_bind_ok [OF ok]
    by (fastforce simp: shop_bind_def rows1_def [symmetric] Let_def split: sum.splits prod.splits)
  moreover have "snd (snd (shop_bind v now s i print intent)) = n + 1"
    by (auto simp: s shop_bind_def Let_def split: sum.split prod.split)
  ultimately show ?thesis by (cases "snd (shop_bind v now s i print intent)") (auto simp: binding_bounded_def)
qed

lemma binding_run_bounded: "binding_run v s s' \<Longrightarrow> binding_bounded s \<Longrightarrow> binding_bounded s'"
proof (induction rule: binding_run.induct)
  case (run_bind s s1 now i print intent)
  then show ?case using binding_bounded_bind by blast
next
  case (run_record s s1 now i payer tx s2)
  then obtain rows where r: "pid_record (fst s1) i payer tx now = Inr rows" "s2 = (rows, snd s1)"
    by (auto simp: shop_record_def result_simps)
  then show ?case using run_record record_count [OF r(1)] pid_record_ok [OF _ r(1)] by (auto simp: binding_bounded_def)
qed

text \<open>C29: the table of payment identifiers cannot be flooded. From any table the shop starts with,
  once one payment has been bound, no sequence of bindings and settlements leaves more open
  bindings than the prune keeps and one round of calls between two prunes, as the comment on
  \<^verbatim>\<open>pruneBindings\<close> states.\<close>

theorem open_bindings_bounded:
  assumes "binding_run v (rows, 0) (rows', n)" "pid_ok rows" "0 < n"
  shows "unsettled_count rows' \<le> 5000 + BINDING_PRUNE_EVERY"
proof -
  have "binding_bounded (rows', n)" using binding_run_bounded [OF assms(1)] assms(2) by (simp add: binding_bounded_def)
  moreover have "(n - 1) mod BINDING_PRUNE_EVERY < BINDING_PRUNE_EVERY" by (simp add: BINDING_PRUNE_EVERY_def)
  ultimately show ?thesis using assms(3) by (auto simp: binding_bounded_def UNSETTLED_BINDINGS_KEPT_def)
qed

theorem open_bindings_bounded_witness:
  "unsettled_count (fst (snd (shop_bind sample_viem 3600000 ([], 0) (replicate 16 CHR ''a'') (replicate 64 CHR ''0'') ''i''))) \<le> 5256"
proof -
  let ?s = "snd (shop_bind sample_viem 3600000 ([], 0) (replicate 16 CHR ''a'') (replicate 64 CHR ''0'') ''i'')"
  have "binding_run sample_viem ([], 0) ?s"
    by (intro run_bind run_none) (simp_all add: UNSETTLED_BINDING_TTL_MS_def isSafeInteger_def MAX_SAFE_INTEGER_def)
  moreover have "snd ?s = 1" by (auto simp: shop_bind_def Let_def split: sum.split prod.split)
  ultimately show ?thesis using open_bindings_bounded [of sample_viem "[]" "fst ?s" 1]
    by (simp add: pid_ok_def BINDING_PRUNE_EVERY_def prod_eq_iff)
      (metis prod.collapse)
qed

end
