(* ===== verification/Faucet_Ledger.thy ===== *)
theory Faucet_Ledger
  imports Store_Ledger Js_Date Write_Once
begin

text \<open>
  The faucet's claim ledger (\<^verbatim>\<open>packages/store/src/faucet.ts\<close>): its tables with their
  constraints, the admission checks, the reservation, the state machine of a claim, what is in
  flight, and the prune. A statement that breaks a constraint of the schema throws and leaves the
  tables as they were. The row's random identifier is an argument.
\<close>

section \<open>Rows\<close>

datatype FaucetClaimKind = Musdc | Eth

datatype FaucetClaimState = StReserved | StSigned | StSent | StConfirmed | StFailed | StSkipped

record FaucetClaimRow =
  fc_id :: string
  fc_kind :: FaucetClaimKind
  fc_owner :: string
  fc_recipient :: string
  fc_ip_key :: string
  fc_subnet_key :: string
  fc_amount :: string
  fc_state :: FaucetClaimState
  fc_nonce :: "int option"
  fc_tx_hash :: "string option"
  fc_raw_tx :: "string option"
  fc_created_at :: int
  fc_updated_at :: int

record FaucetReserveInput =
  fi_kind :: FaucetClaimKind
  fi_owner :: string
  fi_recipient :: string
  fi_ipKey :: string
  fi_subnetKey :: string
  fi_amount :: int

record FaucetReserveLimits =
  fl_windowMs :: int
  fl_dayMs :: int
  fl_perIp :: int
  fl_perSubnet :: int
  fl_perDay :: "int option"
  fl_dailyAmount :: "int option"

datatype FaucetRefused = Cooldown int | RateLimited | BudgetExhausted

datatype FaucetAdmission = Inflight FaucetClaimRow | Refused FaucetRefused

datatype FaucetReservation = ReservedClaim FaucetClaimRow bool | NotReserved FaucetRefused

record faucet_refusal =
  rf_day :: int
  rf_kind :: FaucetClaimKind
  rf_reason :: string
  rf_count :: int

record faucet_db =
  fd_claims :: "FaucetClaimRow list"
  fd_refusals :: "faucet_refusal list"

definition empty_faucet :: faucet_db where
  "empty_faucet = \<lparr>fd_claims = [], fd_refusals = []\<rparr>"

text \<open>\<^verbatim>\<open>ACTIVE\<close> and \<^verbatim>\<open>INFLIGHT\<close>.\<close>

definition ACTIVE :: "FaucetClaimState set" where
  "ACTIVE = {StReserved, StSigned, StSent, StConfirmed}"

definition INFLIGHT :: "FaucetClaimState set" where
  "INFLIGHT = {StReserved, StSigned, StSent}"

section \<open>Validation\<close>

definition faucet_address :: "string \<Rightarrow> bool" where
  "faucet_address s \<longleftrightarrow> hex_literal is_lower_hex 40 s"

definition network_key :: "string \<Rightarrow> bool" where
  "network_key s \<longleftrightarrow> length s = 64 \<and> list_all is_lower_hex s"

definition assertReserveInput :: "FaucetReserveInput \<Rightarrow> int \<Rightarrow> unit result" where
  "assertReserveInput input now =
     ebind (ensure (faucet_address (fi_owner input) \<and> faucet_address (fi_recipient input))
       (TypeError ''owner and recipient must be lowercase addresses'')) (\<lambda>_.
     ebind (ensure (network_key (fi_ipKey input) \<and> network_key (fi_subnetKey input))
       (TypeError ''network keys must be 32-byte lowercase hex digests'')) (\<lambda>_.
     ebind (ensure (0 \<le> fi_amount input) (TypeError ''amount must be non-negative'')) (\<lambda>_.
     ensure (isSafeInteger now \<and> 0 \<le> now) (TypeError ''now must be a non-negative integer''))))"

section \<open>Admission\<close>

definition claim_by_id :: "faucet_db \<Rightarrow> string \<Rightarrow> FaucetClaimRow option" where
  "claim_by_id db i = find (\<lambda>r. fc_id r = i) (fd_claims db)"

definition inflight_claim :: "faucet_db \<Rightarrow> FaucetClaimKind \<Rightarrow> string \<Rightarrow> FaucetClaimRow option" where
  "inflight_claim db k own = find (\<lambda>r. fc_kind r = k \<and> fc_owner r = own \<and> fc_state r \<in> INFLIGHT) (fd_claims db)"

definition counted :: "FaucetClaimKind \<Rightarrow> (FaucetClaimRow \<Rightarrow> bool) \<Rightarrow> int \<Rightarrow> faucet_db \<Rightarrow> FaucetClaimRow list" where
  "counted k p since db = filter (\<lambda>r. p r \<and> fc_kind r = k \<and> since < fc_created_at r \<and> fc_state r \<in> ACTIVE) (fd_claims db)"

definition lastActive :: "faucet_db \<Rightarrow> FaucetClaimKind \<Rightarrow> string \<Rightarrow> int \<Rightarrow> int option" where
  "lastActive db k own after = (case order_desc fc_created_at (counted k (\<lambda>r. fc_owner r = own) after db) of
     [] \<Rightarrow> None | r # _ \<Rightarrow> Some (fc_created_at r))"

definition committed :: "FaucetClaimRow list \<Rightarrow> int" where
  "committed rows = sum_list (map (\<lambda>r. BigInt (fc_amount r)) rows)"

definition admission :: "faucet_db \<Rightarrow> FaucetReserveInput \<Rightarrow> int \<Rightarrow> FaucetReserveLimits \<Rightarrow> FaucetAdmission option" where
  "admission db input now limits =
     (case inflight_claim db (fi_kind input) (fi_owner input) of
        Some existing \<Rightarrow> Some (Inflight existing)
      | None \<Rightarrow> (case lastActive db (fi_kind input) (fi_owner input) (now - fl_windowMs limits) of
          Some created \<Rightarrow> Some (Refused (Cooldown (created + fl_windowMs limits)))
        | None \<Rightarrow>
            let since = now - fl_dayMs limits; rows = counted (fi_kind input) (\<lambda>_. True) since db in
            if fl_perIp limits \<le> int (length (counted (fi_kind input) (\<lambda>r. fc_ip_key r = fi_ipKey input) since db))
            then Some (Refused RateLimited)
            else if fl_perSubnet limits \<le> int (length (counted (fi_kind input) (\<lambda>r. fc_subnet_key r = fi_subnetKey input) since db))
            then Some (Refused RateLimited)
            else if (case fl_perDay limits of None \<Rightarrow> False | Some n \<Rightarrow> n \<le> int (length rows))
            then Some (Refused BudgetExhausted)
            else if (case fl_dailyAmount limits of None \<Rightarrow> False | Some n \<Rightarrow> n < committed rows + fi_amount input)
            then Some (Refused BudgetExhausted)
            else None))"

definition faucet_admission ::
    "faucet_db \<Rightarrow> FaucetReserveInput \<Rightarrow> int \<Rightarrow> FaucetReserveLimits \<Rightarrow> FaucetAdmission option result" where
  "faucet_admission db input now limits = ebind (assertReserveInput input now) (\<lambda>_. Inr (admission db input now limits))"

section \<open>Reservation\<close>

definition claim_row :: "string \<Rightarrow> FaucetReserveInput \<Rightarrow> int \<Rightarrow> FaucetClaimRow" where
  "claim_row uuid input now = \<lparr>fc_id = uuid, fc_kind = fi_kind input, fc_owner = fi_owner input,
     fc_recipient = fi_recipient input, fc_ip_key = fi_ipKey input, fc_subnet_key = fi_subnetKey input,
     fc_amount = String (fi_amount input), fc_state = StReserved, fc_nonce = None, fc_tx_hash = None,
     fc_raw_tx = None, fc_created_at = now, fc_updated_at = now\<rparr>"

definition insert_claim :: "faucet_db \<Rightarrow> FaucetClaimRow \<Rightarrow> faucet_db result" where
  "insert_claim db row =
     ebind (ensure (claim_by_id db (fc_id row) = None) (ConstraintFailed ''faucet_claims.id'')) (\<lambda>_.
     ebind (ensure (inflight_claim db (fc_kind row) (fc_owner row) = None) (ConstraintFailed ''faucet_claims_one_inflight'')) (\<lambda>_.
     Inr (db\<lparr>fd_claims := fd_claims db @ [row]\<rparr>)))"

definition reserveTx ::
    "faucet_db \<Rightarrow> string \<Rightarrow> FaucetReserveInput \<Rightarrow> int \<Rightarrow> FaucetReserveLimits \<Rightarrow> (FaucetReservation \<times> faucet_db) result" where
  "reserveTx db uuid input now limits =
     (case admission db input now limits of
        Some (Inflight existing) \<Rightarrow> Inr (ReservedClaim existing False, db)
      | Some (Refused refusal) \<Rightarrow> Inr (NotReserved refusal, db)
      | None \<Rightarrow> ebind (insert_claim db (claim_row uuid input now)) (\<lambda>db'.
          case claim_by_id db' uuid of
            Some row \<Rightarrow> Inr (ReservedClaim row True, db')
          | None \<Rightarrow> Inl (TypeError ''null'')))"

definition faucet_reserve ::
    "faucet_db \<Rightarrow> string \<Rightarrow> FaucetReserveInput \<Rightarrow> int \<Rightarrow> FaucetReserveLimits \<Rightarrow> (FaucetReservation \<times> faucet_db) result" where
  "faucet_reserve db uuid input now limits =
     ebind (assertReserveInput input now) (\<lambda>_. reserveTx db uuid input now limits)"

section \<open>The state machine of a claim\<close>

definition at_claim :: "string \<Rightarrow> FaucetClaimState set \<Rightarrow> FaucetClaimRow \<Rightarrow> bool" where
  "at_claim i from_states r \<longleftrightarrow> fc_id r = i \<and> fc_state r \<in> from_states"

definition transition ::
    "faucet_db \<Rightarrow> string \<Rightarrow> FaucetClaimState set \<Rightarrow> FaucetClaimState \<Rightarrow> int \<Rightarrow> (FaucetClaimRow \<Rightarrow> FaucetClaimRow)
      \<Rightarrow> bool \<times> faucet_db" where
  "transition db i from_states target now upd =
     (length (filter (at_claim i from_states) (fd_claims db)) = 1,
      db\<lparr>fd_claims := update_where (at_claim i from_states)
         (\<lambda>r. (upd r)\<lparr>fc_state := target, fc_updated_at := now\<rparr>) (fd_claims db)\<rparr>)"

record signed_claim =
  sg_amount :: int
  sg_nonce :: int
  sg_txHash :: string
  sg_rawTx :: string

definition raw_hex :: "string \<Rightarrow> bool" where
  "raw_hex s \<longleftrightarrow> take 2 s = ''0x'' \<and> drop 2 s \<noteq> [] \<and> list_all is_lower_hex (drop 2 s)"

definition write_signed :: "signed_claim \<Rightarrow> FaucetClaimRow \<Rightarrow> FaucetClaimRow" where
  "write_signed sg r = r\<lparr>fc_amount := String (sg_amount sg), fc_nonce := Some (sg_nonce sg),
     fc_tx_hash := Some (sg_txHash sg), fc_raw_tx := Some (sg_rawTx sg)\<rparr>"

definition markSigned :: "faucet_db \<Rightarrow> string \<Rightarrow> signed_claim \<Rightarrow> int \<Rightarrow> (bool \<times> faucet_db) result" where
  "markSigned db i sg now =
     ebind (ensure (0 < sg_amount sg \<and> isSafeInteger (sg_nonce sg) \<and> 0 \<le> sg_nonce sg)
       (TypeError ''a signed claim needs a positive amount and a nonce'')) (\<lambda>_.
     ebind (ensure (hex_literal is_lower_hex 64 (sg_txHash sg) \<and> raw_hex (sg_rawTx sg))
       (TypeError ''a signed claim needs its lowercase hash and raw bytes'')) (\<lambda>_.
     Inr (transition db i {StReserved} StSigned now (write_signed sg))))"

definition markSent :: "faucet_db \<Rightarrow> string \<Rightarrow> int \<Rightarrow> bool \<times> faucet_db" where
  "markSent db i now = transition db i {StSigned, StSent} StSent now id"

definition markConfirmed :: "faucet_db \<Rightarrow> string \<Rightarrow> int \<Rightarrow> bool \<times> faucet_db" where
  "markConfirmed db i now = transition db i {StSigned, StSent} StConfirmed now id"

definition markFailed :: "faucet_db \<Rightarrow> string \<Rightarrow> int \<Rightarrow> bool \<times> faucet_db" where
  "markFailed db i now = transition db i {StReserved, StSigned, StSent} StFailed now id"

definition markSkipped :: "faucet_db \<Rightarrow> string \<Rightarrow> int \<Rightarrow> bool \<times> faucet_db" where
  "markSkipped db i now = transition db i {StReserved} StSkipped now (\<lambda>r. r\<lparr>fc_amount := ''0''\<rparr>)"

section \<open>What is in flight\<close>

text \<open>The newest row, later insertions first among equals.\<close>

definition latest :: "faucet_db \<Rightarrow> FaucetClaimKind \<Rightarrow> string \<Rightarrow> FaucetClaimRow option" where
  "latest db k own = (case order_desc fc_created_at (filter (\<lambda>r. fc_kind r = k \<and> fc_owner r = own) (fd_claims db)) of
     [] \<Rightarrow> None | r # _ \<Rightarrow> Some r)"

definition faucet_inflight :: "faucet_db \<Rightarrow> int \<times> int" where
  "faucet_inflight db = (let rows = filter (\<lambda>r. fc_state r \<in> {StSigned, StSent}) (fd_claims db) in
     (committed (filter (\<lambda>r. fc_kind r = Eth) rows), int (length rows)))"

text \<open>\<^verbatim>\<open>ORDER BY nonce, created_at\<close>; a missing nonce comes first.\<close>

definition faucet_unsettled :: "faucet_db \<Rightarrow> FaucetClaimRow list" where
  "faucet_unsettled db = sort_key (\<lambda>r. (fc_nonce r \<noteq> None, case fc_nonce r of None \<Rightarrow> 0 | Some n \<Rightarrow> n, fc_created_at r))
     (filter (\<lambda>r. fc_state r \<in> INFLIGHT) (fd_claims db))"

definition live_nonces :: "faucet_db \<Rightarrow> int list" where
  "live_nonces db = List.map_filter fc_nonce (filter (\<lambda>r. fc_state r \<in> {StSigned, StSent, StConfirmed}) (fd_claims db))"

definition faucet_nextNonce :: "faucet_db \<Rightarrow> int" where
  "faucet_nextNonce db = (case live_nonces db of [] \<Rightarrow> 0 | n # ns \<Rightarrow> foldr max ns n + 1)"

section \<open>Refusals, outcomes and the prune\<close>

definition refusal_reason :: "string \<Rightarrow> bool" where
  "refusal_reason s \<longleftrightarrow> s \<noteq> [] \<and> length s \<le> 40 \<and> list_all (\<lambda>c. is_lower c \<or> c = CHR ''_'') s"

definition same_refusal :: "int \<Rightarrow> FaucetClaimKind \<Rightarrow> string \<Rightarrow> faucet_refusal \<Rightarrow> bool" where
  "same_refusal day k reason r \<longleftrightarrow> rf_day r = day \<and> rf_kind r = k \<and> rf_reason r = reason"

definition countRefusal :: "faucet_db \<Rightarrow> FaucetClaimKind \<Rightarrow> string \<Rightarrow> int \<Rightarrow> faucet_db result" where
  "countRefusal db k reason now =
     ebind (ensure (refusal_reason reason) (TypeError ''reason must be a lowercase refusal code'')) (\<lambda>_.
     ebind (ensure (isSafeInteger now \<and> 0 \<le> now) (TypeError ''now must be a non-negative integer'')) (\<lambda>_.
     let day = now div DAY_MS in
     Inr (if \<exists>r \<in> set (fd_refusals db). same_refusal day k reason r
       then db\<lparr>fd_refusals := update_where (same_refusal day k reason) (\<lambda>r. r\<lparr>rf_count := rf_count r + 1\<rparr>) (fd_refusals db)\<rparr>
       else db\<lparr>fd_refusals := fd_refusals db @ [\<lparr>rf_day = day, rf_kind = k, rf_reason = reason, rf_count = 1\<rparr>]\<rparr>)))"

text \<open>The names the tables hold; the statement groups and sorts by them.\<close>

definition kind_text :: "FaucetClaimKind \<Rightarrow> string" where
  "kind_text k = (case k of Musdc \<Rightarrow> ''musdc'' | Eth \<Rightarrow> ''eth'')"

definition state_text :: "FaucetClaimState \<Rightarrow> string" where
  "state_text st = (case st of StReserved \<Rightarrow> ''reserved'' | StSigned \<Rightarrow> ''signed'' | StSent \<Rightarrow> ''sent''
     | StConfirmed \<Rightarrow> ''confirmed'' | StFailed \<Rightarrow> ''failed'' | StSkipped \<Rightarrow> ''skipped'')"

record FaucetOutcomeCounts =
  oc_claims :: "(FaucetClaimKind \<times> FaucetClaimState \<times> int) list"
  oc_refusals :: "(string \<times> FaucetClaimKind \<times> string \<times> int) list"

fun refusal_days :: "faucet_refusal list \<Rightarrow> (string \<times> FaucetClaimKind \<times> string \<times> int) list result" where
  "refusal_days [] = Inr []"
| "refusal_days (r # rs) = ebind (toISOString_day (rf_day r * DAY_MS)) (\<lambda>day.
     ebind (refusal_days rs) (\<lambda>rest. Inr ((day, rf_kind r, rf_reason r, rf_count r) # rest)))"

definition faucet_outcomes :: "faucet_db \<Rightarrow> int \<Rightarrow> FaucetOutcomeCounts result" where
  "faucet_outcomes db since =
     (let rows = filter (\<lambda>r. since \<le> fc_created_at r) (fd_claims db);
          groups = sort_key (\<lambda>(k, st). (kind_text k, state_text st)) (remdups (map (\<lambda>r. (fc_kind r, fc_state r)) rows));
          refusals = sort_key (\<lambda>r. (rf_day r, kind_text (rf_kind r), rf_reason r))
            (filter (\<lambda>r. since div DAY_MS \<le> rf_day r) (fd_refusals db))
      in ebind (refusal_days refusals) (\<lambda>rs.
           Inr \<lparr>oc_claims = map (\<lambda>(k, st). (k, st, int (length (filter (\<lambda>r. fc_kind r = k \<and> fc_state r = st) rows)))) groups,
                oc_refusals = rs\<rparr>))"

definition faucet_prune :: "faucet_db \<Rightarrow> int \<Rightarrow> int \<times> faucet_db" where
  "faucet_prune db before =
     (let claims = filter (\<lambda>r. \<not> (fc_created_at r < before \<and> fc_state r \<in> {StConfirmed, StFailed, StSkipped})) (fd_claims db);
          refusals = filter (\<lambda>r. \<not> rf_day r < before div DAY_MS) (fd_refusals db)
      in (int (length (fd_claims db) - length claims) + int (length (fd_refusals db) - length refusals),
          \<lparr>fd_claims = claims, fd_refusals = refusals\<rparr>))"

section \<open>Rolling limits\<close>

text \<open>
  A rolling limit bounds a weighted count of the counted rows of every stretch of \<open>D\<close>
  milliseconds. Admission looks back from now; the rows are added in the order of the clock.
\<close>

definition tally :: "(FaucetClaimRow \<Rightarrow> bool) \<Rightarrow> (FaucetClaimRow \<Rightarrow> int) \<Rightarrow> int \<Rightarrow> int \<Rightarrow> FaucetClaimRow list \<Rightarrow> int" where
  "tally p g D t rows = sum_list (map (\<lambda>r. if p r \<and> fc_state r \<in> ACTIVE \<and> t - D < fc_created_at r \<and> fc_created_at r \<le> t
     then g r else 0) rows)"

definition limited :: "(FaucetClaimRow \<Rightarrow> bool) \<Rightarrow> (FaucetClaimRow \<Rightarrow> int) \<Rightarrow> int \<Rightarrow> int \<Rightarrow> FaucetClaimRow list \<Rightarrow> bool" where
  "limited p g D cap rows \<longleftrightarrow> (\<forall>t. tally p g D t rows \<le> cap)"

lemma tally_since:
  assumes "now \<le> t" "\<forall>r \<in> set rows. 0 \<le> g r"
  shows "tally p g D t rows \<le> sum_list (map g (filter (\<lambda>r. p r \<and> now - D < fc_created_at r \<and> fc_state r \<in> ACTIVE) rows))"
  unfolding tally_def sum_list_map_filter' using assms by (intro sum_list_mono) auto

lemma limited_insert:
  assumes "limited p g D cap rows" "\<forall>r \<in> set rows. 0 \<le> g r" "0 \<le> g row"
    and "p row \<Longrightarrow> sum_list (map g (filter (\<lambda>r. p r \<and> fc_created_at row - D < fc_created_at r \<and> fc_state r \<in> ACTIVE) rows)) + g row \<le> cap"
  shows "limited p g D cap (rows @ [row])"
  unfolding limited_def
proof
  fix t
  have app: "tally p g D t (rows @ [row]) = tally p g D t rows + tally p g D t [row]" by (simp add: tally_def)
  show "tally p g D t (rows @ [row]) \<le> cap"
  proof (cases "p row \<and> fc_created_at row \<le> t")
    case True
    then show ?thesis using tally_since [of "fc_created_at row" t rows g p D] assms(2,3,4) app by (auto simp: tally_def)
  next
    case False
    then show ?thesis using assms(1) app by (auto simp: limited_def tally_def)
  qed
qed

lemma limited_update:
  assumes "limited p g D cap rows" "\<forall>r \<in> set rows. 0 \<le> g r"
    and "\<And>r. r \<in> set rows \<Longrightarrow> q r \<Longrightarrow> fc_created_at (f r) = fc_created_at r \<and> p (f r) = p r \<and>
      (fc_state (f r) \<in> ACTIVE \<longrightarrow> fc_state r \<in> ACTIVE \<and> g (f r) \<le> g r)"
  shows "limited p g D cap (update_where q f rows)"
  unfolding limited_def
proof
  fix t
  have "tally p g D t (update_where q f rows) \<le> tally p g D t rows"
    unfolding tally_def update_where_def map_map using assms(2,3) by (intro sum_list_mono) (auto simp: comp_def)
  then show "tally p g D t (update_where q f rows) \<le> cap" using assms(1) by (auto simp: limited_def intro: order_trans)
qed

lemma limited_filter:
  assumes "limited p g D cap rows" "\<forall>r \<in> set rows. 0 \<le> g r"
  shows "limited p g D cap (filter q rows)"
  unfolding limited_def
proof
  fix t
  have "tally p g D t (filter q rows) \<le> tally p g D t rows"
    unfolding tally_def sum_list_map_filter' using assms(2) by (intro sum_list_mono) auto
  then show "tally p g D t (filter q rows) \<le> cap" using assms(1) by (auto simp: limited_def intro: order_trans)
qed

section \<open>The ledger over time\<close>

text \<open>The writes to claims, at any clock. A signature never raises the amount of a claim whose kind
  has a daily amount (it was decided when the claim was reserved), and takes a nonce above
  every live one.\<close>

inductive claim_write :: "(FaucetClaimKind \<Rightarrow> FaucetReserveLimits) \<Rightarrow> faucet_db \<Rightarrow> faucet_db \<Rightarrow> bool" for lims where
  do_reserve: "faucet_reserve db uuid input now (lims (fi_kind input)) = Inr (r, db') \<Longrightarrow> claim_write lims db db'"
| do_sign: "markSigned db i sg now = Inr (b, db') \<Longrightarrow> (\<forall>n \<in> set (live_nonces db). n < sg_nonce sg) \<Longrightarrow>
    (\<forall>r \<in> set (fd_claims db). at_claim i {StReserved} r \<and> fl_dailyAmount (lims (fc_kind r)) \<noteq> None \<longrightarrow> sg_amount sg \<le> BigInt (fc_amount r)) \<Longrightarrow>
    claim_write lims db db'"
| do_send: "claim_write lims db (snd (markSent db i now))"
| do_confirm: "claim_write lims db (snd (markConfirmed db i now))"
| do_fail: "claim_write lims db (snd (markFailed db i now))"
| do_skip: "claim_write lims db (snd (markSkipped db i now))"

inductive ledger_step :: "(FaucetClaimKind \<Rightarrow> FaucetReserveLimits) \<Rightarrow> faucet_db \<Rightarrow> faucet_db \<Rightarrow> bool" for lims where
  do_write: "claim_write lims db db' \<Longrightarrow> ledger_step lims db db'"
| do_count: "countRefusal db k reason now = Inr db' \<Longrightarrow> ledger_step lims db db'"
| do_prune: "ledger_step lims db (snd (faucet_prune db before))"

inductive_cases ledger_stepE: "ledger_step lims db db'"

definition limits_wf :: "FaucetReserveLimits \<Rightarrow> bool" where
  "limits_wf l \<longleftrightarrow> 0 \<le> fl_perIp l \<and> 0 \<le> fl_perSubnet l \<and> (\<forall>n. fl_perDay l = Some n \<longrightarrow> 0 \<le> n) \<and> (\<forall>n. fl_dailyAmount l = Some n \<longrightarrow> 0 \<le> n)"

text \<open>What a limit counts.\<close>

abbreviation amount_of :: "FaucetClaimRow \<Rightarrow> int" where
  "amount_of r \<equiv> BigInt (fc_amount r)"

definition within_limits :: "(FaucetClaimKind \<Rightarrow> FaucetReserveLimits) \<Rightarrow> FaucetClaimRow list \<Rightarrow> bool" where
  "within_limits lims rows \<longleftrightarrow>
     (\<forall>k own. limited (\<lambda>r. fc_owner r = own \<and> fc_kind r = k) (\<lambda>_. 1) (fl_windowMs (lims k)) 1 rows) \<and>
     (\<forall>k ip. limited (\<lambda>r. fc_ip_key r = ip \<and> fc_kind r = k) (\<lambda>_. 1) (fl_dayMs (lims k)) (fl_perIp (lims k)) rows) \<and>
     (\<forall>k net. limited (\<lambda>r. fc_subnet_key r = net \<and> fc_kind r = k) (\<lambda>_. 1) (fl_dayMs (lims k)) (fl_perSubnet (lims k)) rows) \<and>
     (\<forall>k n. fl_perDay (lims k) = Some n \<longrightarrow> limited (\<lambda>r. fc_kind r = k) (\<lambda>_. 1) (fl_dayMs (lims k)) n rows) \<and>
     (\<forall>k n. fl_dailyAmount (lims k) = Some n \<longrightarrow> limited (\<lambda>r. fc_kind r = k) amount_of (fl_dayMs (lims k)) n rows)"

text \<open>A row is as its state says: signed bytes from the signature on, a nonce that no other live
  claim has, at most one claim of an owner in flight.\<close>

definition is_signed :: "FaucetClaimState \<Rightarrow> bool" where
  "is_signed st \<longleftrightarrow> st \<in> {StSigned, StSent, StConfirmed}"

definition row_wf :: "FaucetClaimRow \<Rightarrow> bool" where
  "row_wf r \<longleftrightarrow> 0 \<le> amount_of r \<and>
     (is_signed (fc_state r) \<longrightarrow> fc_nonce r \<noteq> None \<and> fc_tx_hash r \<noteq> None \<and> fc_raw_tx r \<noteq> None \<and> 0 < amount_of r) \<and>
     (fc_state r \<in> {StReserved, StSkipped} \<longrightarrow> fc_nonce r = None \<and> fc_tx_hash r = None \<and> fc_raw_tx r = None)"

definition claims_wf :: "FaucetClaimRow list \<Rightarrow> bool" where
  "claims_wf rows \<longleftrightarrow> (\<forall>r \<in> set rows. row_wf r) \<and> distinct (map fc_id rows) \<and>
     distinct (map (\<lambda>r. (fc_kind r, fc_owner r)) (filter (\<lambda>r. fc_state r \<in> INFLIGHT) rows)) \<and>
     distinct (map fc_nonce (filter (\<lambda>r. is_signed (fc_state r)) rows))"

lemma within_limits_update:
  assumes "within_limits lims rows" "\<forall>r \<in> set rows. 0 \<le> amount_of r"
    and u: "\<And>r. r \<in> set rows \<Longrightarrow> q r \<Longrightarrow> fc_created_at (f r) = fc_created_at r \<and> fc_kind (f r) = fc_kind r \<and> fc_owner (f r) = fc_owner r \<and>
      fc_ip_key (f r) = fc_ip_key r \<and> fc_subnet_key (f r) = fc_subnet_key r \<and> (fc_state (f r) \<in> ACTIVE \<longrightarrow> fc_state r \<in> ACTIVE)"
    and m: "\<And>r. r \<in> set rows \<Longrightarrow> q r \<Longrightarrow> fl_dailyAmount (lims (fc_kind r)) \<noteq> None \<Longrightarrow> fc_state (f r) \<in> ACTIVE \<Longrightarrow> amount_of (f r) \<le> amount_of r"
  shows "within_limits lims (update_where q f rows)"
proof -
  have one: "limited (\<lambda>r. h (key r) (fc_kind r)) (\<lambda>_. 1) D cap (update_where q f rows)"
    if "limited (\<lambda>r. h (key r) (fc_kind r)) (\<lambda>_. 1) D cap rows" "\<And>r. r \<in> set rows \<Longrightarrow> q r \<Longrightarrow> key (f r) = key r"
    for h :: "string \<Rightarrow> FaucetClaimKind \<Rightarrow> bool" and key D cap
    using that(1) by (rule limited_update) (use that(2) u in auto)
  have daily: "limited (\<lambda>r. fc_kind r = k) amount_of D n (update_where q f rows)"
    if "limited (\<lambda>r. fc_kind r = k) amount_of D n rows" "fl_dailyAmount (lims k) = Some n'" for k D n n'
  proof -
    have e: "limited p g D n xs = limited p (\<lambda>r. if p r then g r else 0) D n xs" for p g xs
      by (simp add: limited_def tally_def if_distrib cong: if_cong)
    have "limited (\<lambda>r. fc_kind r = k) (\<lambda>r. if fc_kind r = k then amount_of r else 0) D n (update_where q f rows)"
      by (rule limited_update [OF e [THEN iffD1, OF that(1)]]) (use assms(2) u m that(2) in auto)
    then show ?thesis by (rule e [THEN iffD2])
  qed
  show ?thesis unfolding within_limits_def
  proof (intro conjI allI impI)
    fix k own
    show "limited (\<lambda>r. fc_owner r = own \<and> fc_kind r = k) (\<lambda>_. 1) (fl_windowMs (lims k)) 1 (update_where q f rows)"
      using assms(1) u by (intro one [where key = fc_owner and h = "\<lambda>x y. x = own \<and> y = k"]) (auto simp: within_limits_def)
  next
    fix k ip
    show "limited (\<lambda>r. fc_ip_key r = ip \<and> fc_kind r = k) (\<lambda>_. 1) (fl_dayMs (lims k)) (fl_perIp (lims k)) (update_where q f rows)"
      using assms(1) u by (intro one [where key = fc_ip_key and h = "\<lambda>x y. x = ip \<and> y = k"]) (auto simp: within_limits_def)
  next
    fix k net
    show "limited (\<lambda>r. fc_subnet_key r = net \<and> fc_kind r = k) (\<lambda>_. 1) (fl_dayMs (lims k)) (fl_perSubnet (lims k)) (update_where q f rows)"
      using assms(1) u by (intro one [where key = fc_subnet_key and h = "\<lambda>x y. x = net \<and> y = k"]) (auto simp: within_limits_def)
  next
    fix k n assume "fl_perDay (lims k) = Some n"
    then show "limited (\<lambda>r. fc_kind r = k) (\<lambda>_. 1) (fl_dayMs (lims k)) n (update_where q f rows)"
      using assms(1) u by (intro one [where key = fc_owner and h = "\<lambda>_ y. y = k"]) (auto simp: within_limits_def)
  next
    fix k n assume n: "fl_dailyAmount (lims k) = Some n"
    then show "limited (\<lambda>r. fc_kind r = k) amount_of (fl_dayMs (lims k)) n (update_where q f rows)"
      using assms(1) by (intro daily [OF _ n]) (auto simp: within_limits_def)
  qed
qed

lemma within_limits_filter:
  "within_limits lims rows \<Longrightarrow> \<forall>r \<in> set rows. 0 \<le> amount_of r \<Longrightarrow> within_limits lims (filter q rows)"
  unfolding within_limits_def by (intro conjI allI impI limited_filter) auto

text \<open>What admission found when it let a claim in.\<close>

lemma admission_None:
  assumes "admission db input now l = None"
  shows "counted (fi_kind input) (\<lambda>r. fc_owner r = fi_owner input) (now - fl_windowMs l) db = []"
    "int (length (counted (fi_kind input) (\<lambda>r. fc_ip_key r = fi_ipKey input) (now - fl_dayMs l) db)) < fl_perIp l"
    "int (length (counted (fi_kind input) (\<lambda>r. fc_subnet_key r = fi_subnetKey input) (now - fl_dayMs l) db)) < fl_perSubnet l"
    "fl_perDay l = Some n \<Longrightarrow> int (length (counted (fi_kind input) (\<lambda>_. True) (now - fl_dayMs l) db)) < n"
    "fl_dailyAmount l = Some n \<Longrightarrow> committed (counted (fi_kind input) (\<lambda>_. True) (now - fl_dayMs l) db) + fi_amount input \<le> n"
    "inflight_claim db (fi_kind input) (fi_owner input) = None"
proof -
  have "order_desc fc_created_at (counted (fi_kind input) (\<lambda>r. fc_owner r = fi_owner input) (now - fl_windowMs l) db) = []"
    using assms by (auto simp: admission_def lastActive_def split: option.splits list.splits)
  then have "set (counted (fi_kind input) (\<lambda>r. fc_owner r = fi_owner input) (now - fl_windowMs l) db) = {}"
    by (metis set_order_desc set_empty)
  then show "counted (fi_kind input) (\<lambda>r. fc_owner r = fi_owner input) (now - fl_windowMs l) db = []" by simp
qed (use assms in \<open>auto simp: admission_def Let_def split: option.splits if_splits\<close>)

lemma faucet_reserveE:
  assumes "faucet_reserve db uuid input now l = Inr (r, db')"
  obtains (same) "db' = db"
  | (fresh) "admission db input now l = None" "0 \<le> fi_amount input" "claim_by_id db uuid = None"
      "db' = db\<lparr>fd_claims := fd_claims db @ [claim_row uuid input now]\<rparr>"
  using assms that
  by (auto simp: faucet_reserve_def reserveTx_def assertReserveInput_def insert_claim_def result_simps claim_row_def
      split: option.splits FaucetAdmission.splits)

lemma within_limits_reserve:
  assumes "faucet_reserve db uuid input now (lims (fi_kind input)) = Inr (r, db')"
    and "within_limits lims (fd_claims db)" "\<forall>r \<in> set (fd_claims db). 0 \<le> amount_of r"
  shows "within_limits lims (fd_claims db')"
  using assms(1)
proof (cases rule: faucet_reserveE)
  case fresh
  let ?k = "fi_kind input" and ?row = "claim_row uuid input now"
  note a = admission_None [OF fresh(1), unfolded counted_def]
  have f: "fc_kind ?row = ?k" "fc_owner ?row = fi_owner input" "fc_ip_key ?row = fi_ipKey input" "fc_subnet_key ?row = fi_subnetKey input"
    "fc_created_at ?row = now" "amount_of ?row = fi_amount input"
    by (simp_all add: claim_row_def)
  have len: "sum_list (map (\<lambda>_. 1) xs) = int (length xs)" for xs :: "FaucetClaimRow list" by (induction xs) auto
  have since: "filter (\<lambda>r. p r \<and> fc_kind r = ?k \<and> now - D < fc_created_at r \<and> fc_state r \<in> ACTIVE) (fd_claims db)
      = filter (\<lambda>r. (p r \<and> fc_kind r = ?k) \<and> now - D < fc_created_at r \<and> fc_state r \<in> ACTIVE) (fd_claims db)" for p D
    by (rule filter_cong) auto
  note a' = a [unfolded since]
  have rows: "fd_claims db' = fd_claims db @ [?row]" by (simp add: fresh(4))
  show ?thesis unfolding within_limits_def rows
  proof (intro conjI allI impI)
    fix k own
    show "limited (\<lambda>r. fc_owner r = own \<and> fc_kind r = k) (\<lambda>_. 1) (fl_windowMs (lims k)) 1 (fd_claims db @ [?row])"
      using assms(2) a'(1) by (intro limited_insert) (auto simp: within_limits_def f)
  next
    fix k ip
    show "limited (\<lambda>r. fc_ip_key r = ip \<and> fc_kind r = k) (\<lambda>_. 1) (fl_dayMs (lims k)) (fl_perIp (lims k)) (fd_claims db @ [?row])"
      using assms(2) a'(2) by (intro limited_insert) (auto simp: within_limits_def f len simp del: sum_list_triv)
  next
    fix k net
    show "limited (\<lambda>r. fc_subnet_key r = net \<and> fc_kind r = k) (\<lambda>_. 1) (fl_dayMs (lims k)) (fl_perSubnet (lims k)) (fd_claims db @ [?row])"
      using assms(2) a'(3) by (intro limited_insert) (auto simp: within_limits_def f len simp del: sum_list_triv)
  next
    fix k n assume n: "fl_perDay (lims k) = Some n"
    show "limited (\<lambda>r. fc_kind r = k) (\<lambda>_. 1) (fl_dayMs (lims k)) n (fd_claims db @ [?row])"
      using assms(2) a'(4) n by (intro limited_insert) (auto simp: within_limits_def f len simp del: sum_list_triv)
  next
    fix k n assume n: "fl_dailyAmount (lims k) = Some n"
    show "limited (\<lambda>r. fc_kind r = k) amount_of (fl_dayMs (lims k)) n (fd_claims db @ [?row])"
      using assms(2,3) fresh(2) a'(5) n by (intro limited_insert) (auto simp: within_limits_def f committed_def)
  qed
qed (use assms(2) in simp)

section \<open>Every write keeps the rows well-formed\<close>

text \<open>Rewriting rows in place so that selected rows stay or leave keeps a key distinct.\<close>

lemma distinct_key_update:
  assumes "distinct (map key (filter p rows))" "\<And>r. r \<in> set rows \<Longrightarrow> q r \<Longrightarrow> p (f r) \<Longrightarrow> p r \<and> key (f r) = key r"
  shows "distinct (map key (filter p (update_where q f rows)))"
  using assms
proof (induction rows)
  case (Cons x xs)
  have sub: "key ` set (filter p (update_where q f xs)) \<subseteq> key ` set (filter p xs)"
    using Cons.prems(2) by (auto simp: set_update_where)
  have ih: "distinct (map key (filter p (update_where q f xs)))"
    using Cons.prems by (intro Cons.IH) (auto split: if_splits)
  show ?case
  proof (cases "p x")
    case True
    then have "key x \<notin> key ` set (filter p (update_where q f xs))" using Cons.prems(1) sub by auto
    then show ?thesis using ih Cons.prems(2) [of x] by (auto simp: update_where_Cons)
  next
    case False
    then have "\<not> p (if q x then f x else x)" using Cons.prems(2) [of x] by auto
    then show ?thesis using ih by (simp add: update_where_Cons)
  qed
qed (simp add: update_where_def)

text \<open>Rewriting the one row with an identifier may give it a key that no selected row has.\<close>

lemma distinct_key_fresh:
  assumes "distinct (map key (filter p rows))" "distinct (map ident rows)"
    and "\<And>r. r \<in> set rows \<Longrightarrow> q r \<Longrightarrow> ident r = a \<and> key (f r) = v" "\<forall>r \<in> set rows. p r \<longrightarrow> key r \<noteq> v"
  shows "distinct (map key (filter p (update_where q f rows)))"
  using assms
proof (induction rows)
  case (Cons x xs)
  have d: "distinct (map key (filter p xs))" and new: "\<forall>r \<in> set xs. p r \<longrightarrow> key r \<noteq> v"
    using Cons.prems(1,4) by (simp_all split: if_splits)
  have ih: "distinct (map key (filter p (update_where q f xs)))"
    by (rule Cons.IH [OF d]) (use Cons.prems in auto)
  show ?case
  proof (cases "q x")
    case True
    then have "\<not> q r" if "r \<in> set xs" for r
      using Cons.prems(2) Cons.prems(3) [of x] Cons.prems(3) [of r] that by (auto simp: image_iff)
    then have "update_where q f xs = xs" by (simp add: update_where_def map_idI)
    moreover have "v \<notin> key ` set (filter p xs)" using new by auto
    moreover have "key (f x) = v" using True Cons.prems(3) by simp
    ultimately show ?thesis using True d by (simp add: update_where_Cons)
  next
    case False
    have "key x \<noteq> v" "key x \<notin> key ` set (filter p xs)" if "p x" using Cons.prems(1,4) that by auto
    moreover have "key ` set (filter p (update_where q f xs)) \<subseteq> insert v (key ` set (filter p xs))"
      using Cons.prems(3) by (auto simp: set_update_where)
    ultimately show ?thesis using False ih by (auto simp: update_where_Cons)
  qed
qed (simp add: update_where_def)

lemma transition_rows [simp]:
  "fd_claims (snd (transition db i S target now upd)) =
     update_where (at_claim i S) (\<lambda>r. (upd r)\<lparr>fc_state := target, fc_updated_at := now\<rparr>) (fd_claims db)"
  by (simp add: transition_def)

lemma claims_wf_transition:
  assumes "claims_wf (fd_claims db)" "S \<subseteq> INFLIGHT"
    and "\<And>r. r \<in> set (fd_claims db) \<Longrightarrow> at_claim i S r \<Longrightarrow> row_wf ((upd r)\<lparr>fc_state := target, fc_updated_at := now\<rparr>)"
    and "\<And>r. fc_id (upd r) = fc_id r \<and> fc_kind (upd r) = fc_kind r \<and> fc_owner (upd r) = fc_owner r"
    and "is_signed target \<Longrightarrow> S \<subseteq> {StSigned, StSent}" "is_signed target \<Longrightarrow> (\<And>r. fc_nonce (upd r) = fc_nonce r)"
  shows "claims_wf (fd_claims (snd (transition db i S target now upd)))"
  unfolding claims_wf_def transition_rows
proof (intro conjI ballI)
  let ?f = "\<lambda>r. (upd r)\<lparr>fc_state := target, fc_updated_at := now\<rparr>"
  fix r assume "r \<in> set (update_where (at_claim i S) ?f (fd_claims db))"
  then show "row_wf r" using assms(1,3) by (auto simp: set_update_where claims_wf_def)
next
  show "distinct (map fc_id (update_where (at_claim i S) (\<lambda>r. (upd r)\<lparr>fc_state := target, fc_updated_at := now\<rparr>) (fd_claims db)))"
    using assms(1,4) by (subst map_update_where_id) (auto simp: claims_wf_def)
next
  show "distinct (map (\<lambda>r. (fc_kind r, fc_owner r)) (filter (\<lambda>r. fc_state r \<in> INFLIGHT)
      (update_where (at_claim i S) (\<lambda>r. (upd r)\<lparr>fc_state := target, fc_updated_at := now\<rparr>) (fd_claims db))))"
    using assms(1,2,4) by (intro distinct_key_update) (auto simp: claims_wf_def at_claim_def)
next
  show "distinct (map fc_nonce (filter (\<lambda>r. is_signed (fc_state r))
      (update_where (at_claim i S) (\<lambda>r. (upd r)\<lparr>fc_state := target, fc_updated_at := now\<rparr>) (fd_claims db))))"
    using assms(1,5,6) by (intro distinct_key_update) (auto simp: claims_wf_def at_claim_def is_signed_def)
qed

lemma live_nonce_iff:
  "n \<in> set (live_nonces db) \<longleftrightarrow> (\<exists>r \<in> set (fd_claims db). is_signed (fc_state r) \<and> fc_nonce r = Some n)"
  by (force simp: live_nonces_def is_signed_def List.map_filter_def)

lemma nextNonce_above:
  assumes "n \<in> set (live_nonces db)"
  shows "n < faucet_nextNonce db"
proof -
  obtain m ms where l: "live_nonces db = m # ms" using assms by (cases "live_nonces db") auto
  have "n \<le> foldr max ms m" using assms unfolding l by (induction ms) (auto simp: max_def)
  then show ?thesis by (simp add: faucet_nextNonce_def l)
qed

lemma claims_wf_sign:
  assumes "claims_wf (fd_claims db)" "markSigned db i sg now = Inr (b, db')" "\<forall>n \<in> set (live_nonces db). n < sg_nonce sg"
  shows "claims_wf (fd_claims db')"
proof -
  let ?f = "\<lambda>r. (write_signed sg r)\<lparr>fc_state := StSigned, fc_updated_at := now\<rparr>" and ?q = "at_claim i {StReserved}"
  have v: "0 < sg_amount sg" and rows: "fd_claims db' = update_where ?q ?f (fd_claims db)"
    using assms(2) transition_rows [of db i "{StReserved}" StSigned now "write_signed sg"]
    by (auto simp: markSigned_def result_simps)
  have "\<forall>r \<in> set (fd_claims db). is_signed (fc_state r) \<longrightarrow> fc_nonce r \<noteq> Some (sg_nonce sg)"
    using assms(3) live_nonce_iff [of "sg_nonce sg" db] by (metis less_irrefl)
  then have n: "distinct (map fc_nonce (filter (\<lambda>r. is_signed (fc_state r)) (fd_claims db')))"
    unfolding rows using assms(1)
    by (intro distinct_key_fresh [where ident = fc_id and a = i and v = "Some (sg_nonce sg)"])
      (auto simp: claims_wf_def at_claim_def write_signed_def)
  have "row_wf (?f r)" for r using v by (simp add: row_wf_def is_signed_def write_signed_def)
  then have "\<forall>r \<in> set (fd_claims db'). row_wf r"
    unfolding rows set_update_where using assms(1) unfolding claims_wf_def by blast
  moreover have "distinct (map fc_id (fd_claims db'))"
    unfolding rows using assms(1) by (subst map_update_where_id) (auto simp: claims_wf_def write_signed_def)
  moreover have "distinct (map (\<lambda>r. (fc_kind r, fc_owner r)) (filter (\<lambda>r. fc_state r \<in> INFLIGHT) (fd_claims db')))"
    unfolding rows using assms(1) by (intro distinct_key_update) (auto simp: claims_wf_def at_claim_def INFLIGHT_def write_signed_def)
  ultimately show ?thesis using n by (simp add: claims_wf_def)
qed

lemma claims_wf_mark:
  assumes "claims_wf (fd_claims db)"
  shows "claims_wf (fd_claims (snd (markSent db i now)))" "claims_wf (fd_claims (snd (markConfirmed db i now)))"
    "claims_wf (fd_claims (snd (markFailed db i now)))" "claims_wf (fd_claims (snd (markSkipped db i now)))"
proof -
  have wf: "row_wf r" if "r \<in> set (fd_claims db)" for r using assms that by (simp add: claims_wf_def)
  have "row_wf (r\<lparr>fc_state := st, fc_updated_at := now\<rparr>)"
    if "r \<in> set (fd_claims db)" "at_claim i {StSigned, StSent} r" "is_signed st" for r st
    using wf [OF that(1)] that(2,3) by (auto simp: row_wf_def at_claim_def is_signed_def)
  then show "claims_wf (fd_claims (snd (markSent db i now)))" "claims_wf (fd_claims (snd (markConfirmed db i now)))"
    unfolding markSent_def markConfirmed_def
    by (intro claims_wf_transition assms; simp add: INFLIGHT_def is_signed_def)+
  have "row_wf (r\<lparr>fc_state := StFailed, fc_updated_at := now\<rparr>)" if "r \<in> set (fd_claims db)" for r
    using wf [OF that] by (simp add: row_wf_def is_signed_def)
  then show "claims_wf (fd_claims (snd (markFailed db i now)))"
    unfolding markFailed_def by (intro claims_wf_transition assms; simp add: INFLIGHT_def is_signed_def)
  have "row_wf (r\<lparr>fc_amount := ''0'', fc_state := StSkipped, fc_updated_at := now\<rparr>)"
    if "r \<in> set (fd_claims db)" "at_claim i {StReserved} r" for r
    using wf [OF that(1)] that(2) by (simp add: row_wf_def is_signed_def at_claim_def)
  then show "claims_wf (fd_claims (snd (markSkipped db i now)))"
    unfolding markSkipped_def by (intro claims_wf_transition assms; simp add: INFLIGHT_def is_signed_def)
qed

lemma claims_wf_reserve:
  assumes "faucet_reserve db uuid input now l = Inr (r, db')" "claims_wf (fd_claims db)"
  shows "claims_wf (fd_claims db')"
  using assms(1)
proof (cases rule: faucet_reserveE)
  case fresh
  let ?row = "claim_row uuid input now"
  have row: "fc_id ?row = uuid" "fc_state ?row = StReserved" "fc_kind ?row = fi_kind input" "fc_owner ?row = fi_owner input" "row_wf ?row"
    using fresh(2) by (simp_all add: claim_row_def row_wf_def is_signed_def)
  have "uuid \<notin> fc_id ` set (fd_claims db)"
    using fresh(3) by (auto simp: claim_by_id_def find_None_iff)
  moreover have "(fi_kind input, fi_owner input) \<notin> (\<lambda>r. (fc_kind r, fc_owner r)) ` set (filter (\<lambda>r. fc_state r \<in> INFLIGHT) (fd_claims db))"
    using admission_None(6) [OF fresh(1)] by (auto simp: inflight_claim_def find_None_iff)
  ultimately show ?thesis
    using assms(2) row by (simp add: fresh(4) claims_wf_def is_signed_def)
qed (use assms(2) in simp)

lemma claims_wf_filter: "claims_wf rows \<Longrightarrow> claims_wf (filter q rows)"
proof -
  have sub: "distinct (map key (filter p (filter q rows)))" if "distinct (map key (filter p rows))" for key :: "FaucetClaimRow \<Rightarrow> 'k" and p
    using that by (induction rows) (auto split: if_splits)
  assume "claims_wf rows"
  then show ?thesis
    using sub [of fc_id "\<lambda>_. True"] sub [of "\<lambda>r. (fc_kind r, fc_owner r)" "\<lambda>r. fc_state r \<in> INFLIGHT"]
      sub [of fc_nonce "\<lambda>r. is_signed (fc_state r)"]
    by (simp add: claims_wf_def)
qed

lemma within_limits_mark:
  assumes "within_limits lims (fd_claims db)" "\<forall>r \<in> set (fd_claims db). 0 \<le> amount_of r"
  shows "within_limits lims (fd_claims (snd (markSent db i now)))" "within_limits lims (fd_claims (snd (markConfirmed db i now)))"
    "within_limits lims (fd_claims (snd (markFailed db i now)))" "within_limits lims (fd_claims (snd (markSkipped db i now)))"
  unfolding markSent_def markConfirmed_def markFailed_def markSkipped_def transition_rows
  using assms by (intro within_limits_update; auto simp: at_claim_def ACTIVE_def)+

text \<open>A write leaves a claim it finds as it is, or takes it through one transition.\<close>

definition moved :: "FaucetClaimRow \<Rightarrow> FaucetClaimRow \<Rightarrow> bool" where
  "moved r r' \<longleftrightarrow> r' = r \<or>
     (fc_state r \<in> INFLIGHT \<and> fc_id r' = fc_id r \<and>
      (fc_state r \<noteq> StReserved \<longrightarrow> fc_nonce r' = fc_nonce r \<and> fc_tx_hash r' = fc_tx_hash r \<and> fc_raw_tx r' = fc_raw_tx r \<and>
        fc_amount r' = fc_amount r \<and> fc_state r' \<in> {StSent, StConfirmed, StFailed}))"

lemma claim_by_id_transition:
  assumes "\<And>r. fc_id (upd r) = fc_id r"
  shows "claim_by_id (snd (transition db i S target now upd)) j =
    map_option (\<lambda>r. if at_claim i S r then (upd r)\<lparr>fc_state := target, fc_updated_at := now\<rparr> else r) (claim_by_id db j)"
  unfolding claim_by_id_def transition_rows update_where_def using assms by (subst find_map_pred) auto

lemma claim_write_moved:
  assumes "claim_write lims db db'" "claim_by_id db j = Some r"
  obtains r' where "claim_by_id db' j = Some r'" "moved r r'"
proof -
  have "\<exists>r'. claim_by_id db' j = Some r' \<and> moved r r'"
    using assms
  proof (induction rule: claim_write.induct)
    case (do_reserve db uuid input now res db')
    from do_reserve(1) show ?case
    proof (cases rule: faucet_reserveE)
      case fresh
      have "find P (xs @ ys) = find P xs" if "find P xs = Some x" for P :: "FaucetClaimRow \<Rightarrow> bool" and xs ys x
        using that by (induction xs) (auto split: if_splits)
      then show ?thesis using do_reserve(2) by (simp add: fresh(4) claim_by_id_def moved_def)
    qed (use do_reserve(2) in \<open>simp add: moved_def\<close>)
  next
    case (do_sign db i sg now b db')
    then have db': "db' = snd (transition db i {StReserved} StSigned now (write_signed sg))"
      by (auto simp: markSigned_def result_simps)
    show ?case using do_sign(4) unfolding db'
      by (subst claim_by_id_transition) (auto simp: write_signed_def moved_def at_claim_def INFLIGHT_def)
  next
    case (do_send db i now)
    then show ?case unfolding markSent_def
      by (subst claim_by_id_transition) (auto simp: moved_def at_claim_def INFLIGHT_def)
  next
    case (do_confirm db i now)
    then show ?case unfolding markConfirmed_def
      by (subst claim_by_id_transition) (auto simp: moved_def at_claim_def INFLIGHT_def)
  next
    case (do_fail db i now)
    then show ?case unfolding markFailed_def
      by (subst claim_by_id_transition) (auto simp: moved_def at_claim_def INFLIGHT_def)
  next
    case (do_skip db i now)
    then show ?case unfolding markSkipped_def
      by (subst claim_by_id_transition) (auto simp: moved_def at_claim_def INFLIGHT_def)
  qed
  then show ?thesis using that by blast
qed

text \<open>The signed transaction of a claim, and the row of a finished one.\<close>

definition claim_bytes :: "faucet_db \<Rightarrow> string \<Rightarrow> (int option \<times> string option \<times> string) option" where
  "claim_bytes db i = (case claim_by_id db i of
     None \<Rightarrow> None
   | Some r \<Rightarrow> if fc_state r = StReserved then None
       else map_option (\<lambda>raw. (fc_nonce r, fc_tx_hash r, raw)) (fc_raw_tx r))"

definition finished_claim :: "faucet_db \<Rightarrow> string \<Rightarrow> FaucetClaimRow option" where
  "finished_claim db i = (case claim_by_id db i of
     None \<Rightarrow> None | Some r \<Rightarrow> if fc_state r \<in> INFLIGHT then None else Some r)"

interpretation claim_signature: write_once claim_bytes "claim_write lims" for lims
proof unfold_locales
  fix db db' i v assume w: "claim_write lims db db'" and v: "claim_bytes db i = Some v"
  then obtain r raw where r: "claim_by_id db i = Some r" "fc_state r \<noteq> StReserved" "fc_raw_tx r = Some raw"
    "v = (fc_nonce r, fc_tx_hash r, raw)"
    by (auto simp: claim_bytes_def split: option.splits if_splits)
  from w r(1) obtain r' where "claim_by_id db' i = Some r'" "moved r r'" by (rule claim_write_moved)
  then show "claim_bytes db' i = Some v" using r by (auto simp: claim_bytes_def moved_def)
qed

interpretation claim_outcome: write_once finished_claim "claim_write lims" for lims
proof unfold_locales
  fix db db' i v assume w: "claim_write lims db db'" and v: "finished_claim db i = Some v"
  then have r: "claim_by_id db i = Some v" "fc_state v \<notin> INFLIGHT"
    by (auto simp: finished_claim_def split: option.splits if_splits)
  from w r(1) obtain r' where "claim_by_id db' i = Some r'" "moved v r'" by (rule claim_write_moved)
  then show "finished_claim db' i = Some v" using r by (auto simp: finished_claim_def moved_def)
qed

section \<open>Writes of the other requests\<close>

text \<open>What can happen to the ledger while no one else may sign: everything but a signature.\<close>

inductive quiet_step :: "(FaucetClaimKind \<Rightarrow> FaucetReserveLimits) \<Rightarrow> faucet_db \<Rightarrow> faucet_db \<Rightarrow> bool" for lims where
  q_reserve: "faucet_reserve db uuid input now (lims (fi_kind input)) = Inr (r, db') \<Longrightarrow> quiet_step lims db db'"
| q_send: "quiet_step lims db (snd (markSent db i now))"
| q_confirm: "quiet_step lims db (snd (markConfirmed db i now))"
| q_fail: "quiet_step lims db (snd (markFailed db i now))"
| q_skip: "quiet_step lims db (snd (markSkipped db i now))"
| q_count: "countRefusal db k reason now = Inr db' \<Longrightarrow> quiet_step lims db db'"
| q_prune: "quiet_step lims db (snd (faucet_prune db before))"

lemma quiet_is_step: "quiet_step lims db db' \<Longrightarrow> ledger_step lims db db'"
  by (induction rule: quiet_step.induct) (blast intro: ledger_step.intros claim_write.intros)+

lemma quiet_are_steps: "(quiet_step lims)\<^sup>*\<^sup>* db db' \<Longrightarrow> (ledger_step lims)\<^sup>*\<^sup>* db db'"
  by (erule rtranclp_mono [THEN predicate2D, rotated]) (blast intro: quiet_is_step)

text \<open>Then signed claims only come to their end: no live nonce appears.\<close>

lemma countRefusal_claims: "countRefusal db k reason now = Inr db' \<Longrightarrow> fd_claims db' = fd_claims db"
  by (auto simp: countRefusal_def result_simps Let_def)

lemma quiet_signed:
  assumes "quiet_step lims db db'" "r' \<in> set (fd_claims db')" "is_signed (fc_state r')"
  shows "\<exists>r \<in> set (fd_claims db). is_signed (fc_state r) \<and> (fc_state r' \<in> {StSigned, StSent} \<longrightarrow> fc_state r \<in> {StSigned, StSent}) \<and>
    fc_kind r' = fc_kind r \<and> fc_nonce r' = fc_nonce r \<and> fc_amount r' = fc_amount r"
  using assms
proof (induction rule: quiet_step.induct)
  case (q_reserve db uuid input now res db')
  from q_reserve(1) show ?case
  proof (cases rule: faucet_reserveE)
    case fresh
    then show ?thesis using q_reserve(2,3) by (auto simp: claim_row_def is_signed_def)
  qed (use q_reserve(2,3) in blast)
next
  case (q_count db k reason now db')
  then show ?case using countRefusal_claims [OF q_count(1)] by auto
next
  case (q_prune db before)
  then show ?case by (auto simp: faucet_prune_def Let_def)
qed (auto simp: markSent_def markConfirmed_def markFailed_def markSkipped_def set_update_where at_claim_def is_signed_def)

lemma quiet_live_nonces: "quiet_step lims db db' \<Longrightarrow> set (live_nonces db') \<subseteq> set (live_nonces db)"
  using quiet_signed unfolding live_nonce_iff subset_iff by metis

lemma quiet_inflight:
  assumes "quiet_step lims db db'" "\<forall>r \<in> set (fd_claims db). 0 \<le> amount_of r"
  shows "fst (faucet_inflight db') \<le> fst (faucet_inflight db) \<and> snd (faucet_inflight db') \<le> snd (faucet_inflight db)"
proof -
  let ?p = "\<lambda>r. fc_state r \<in> {StSigned, StSent}"
  have sum: "fst (faucet_inflight d) = sum_list (map (\<lambda>r. if ?p r \<and> fc_kind r = Eth then amount_of r else 0) (fd_claims d))"
    "snd (faucet_inflight d) = sum_list (map (\<lambda>r. if ?p r then 1 else 0) (fd_claims d))" for d
  proof -
    have "committed (filter (\<lambda>r. fc_kind r = Eth) (filter ?p xs)) = sum_list (map (\<lambda>r. if ?p r \<and> fc_kind r = Eth then amount_of r else 0) xs)"
      "int (length (filter ?p xs)) = sum_list (map (\<lambda>r. if ?p r then 1 else 0) xs)" for xs
      by (induction xs) (auto simp: committed_def)
    then show "fst (faucet_inflight d) = sum_list (map (\<lambda>r. if ?p r \<and> fc_kind r = Eth then amount_of r else 0) (fd_claims d))"
      "snd (faucet_inflight d) = sum_list (map (\<lambda>r. if ?p r then 1 else 0) (fd_claims d))"
      by (simp_all add: faucet_inflight_def Let_def)
  qed
  have upd: "sum_list (map g (update_where q f rows)) \<le> sum_list (map g rows)"
    if "\<And>r. r \<in> set rows \<Longrightarrow> q r \<Longrightarrow> g (f r) \<le> g r" for q f and g :: "FaucetClaimRow \<Rightarrow> int" and rows
    unfolding update_where_def map_map using that by (intro sum_list_mono) auto
  have sub: "sum_list (map g (filter q rows)) \<le> sum_list (map g rows)"
    if "\<And>r. r \<in> set rows \<Longrightarrow> 0 \<le> g r" for q and g :: "FaucetClaimRow \<Rightarrow> int" and rows
    unfolding sum_list_map_filter' using that by (intro sum_list_mono) auto
  from assms show ?thesis unfolding sum
  proof (induction rule: quiet_step.induct)
    case (q_reserve db uuid input now res db')
    from q_reserve(1) show ?case by (cases rule: faucet_reserveE) (auto simp: claim_row_def)
  next
    case (q_count db k reason now db')
    then show ?case using countRefusal_claims [OF q_count(1)] by simp
  next
    case (q_prune db before)
    have "fd_claims (snd (faucet_prune db before)) =
        filter (\<lambda>r. \<not> (fc_created_at r < before \<and> fc_state r \<in> {StConfirmed, StFailed, StSkipped})) (fd_claims db)"
      by (simp add: faucet_prune_def Let_def)
    then show ?case using q_prune by (auto intro!: sub)
  qed (auto simp: markSent_def markConfirmed_def markFailed_def markSkipped_def at_claim_def intro!: upd)
qed

lemma quiet_steps_live_nonces: "(quiet_step lims)\<^sup>*\<^sup>* db db' \<Longrightarrow> set (live_nonces db') \<subseteq> set (live_nonces db)"
  by (induction rule: rtranclp_induct) (use quiet_live_nonces in blast)+

section \<open>Every reachable ledger\<close>

definition ledger_ok :: "(FaucetClaimKind \<Rightarrow> FaucetReserveLimits) \<Rightarrow> faucet_db \<Rightarrow> bool" where
  "ledger_ok lims db \<longleftrightarrow> claims_wf (fd_claims db) \<and> within_limits lims (fd_claims db)"

lemma ledger_ok_write:
  assumes "claim_write lims db db'" "ledger_ok lims db"
  shows "ledger_ok lims db'"
proof -
  have pos: "\<forall>r \<in> set (fd_claims db). 0 \<le> amount_of r" and wf: "claims_wf (fd_claims db)" and lim: "within_limits lims (fd_claims db)"
    using assms(2) by (auto simp: ledger_ok_def claims_wf_def row_wf_def)
  from assms(1) have "within_limits lims (fd_claims db') \<and> claims_wf (fd_claims db')"
  proof cases
    case (do_reserve uuid input now r)
    then show ?thesis using within_limits_reserve [OF _ lim pos] claims_wf_reserve [OF _ wf] by blast
  next
    case (do_sign i sg now b)
    have rows: "fd_claims db' = update_where (at_claim i {StReserved})
        (\<lambda>r. (write_signed sg r)\<lparr>fc_state := StSigned, fc_updated_at := now\<rparr>) (fd_claims db)"
      using do_sign(1) transition_rows [of db i "{StReserved}" StSigned now "write_signed sg"]
      by (auto simp: markSigned_def result_simps)
    have "within_limits lims (fd_claims db')"
      unfolding rows using lim pos do_sign(3)
      by (intro within_limits_update) (auto simp: write_signed_def at_claim_def ACTIVE_def)
    then show ?thesis using claims_wf_sign [OF wf do_sign(1,2)] by blast
  qed (use claims_wf_mark [OF wf] within_limits_mark [OF lim pos] in simp_all)
  then show ?thesis by (simp add: ledger_ok_def)
qed

lemma ledger_ok_step:
  assumes "ledger_step lims db db'" "ledger_ok lims db"
  shows "ledger_ok lims db'"
  using assms(1)
proof cases
  case do_write
  then show ?thesis using assms(2) by (rule ledger_ok_write)
next
  case (do_count k reason now)
  then have "fd_claims db' = fd_claims db" by (rule countRefusal_claims)
  then show ?thesis using assms(2) by (simp add: ledger_ok_def)
next
  case (do_prune before)
  obtain q where q: "fd_claims db' = filter q (fd_claims db)" by (simp add: do_prune faucet_prune_def Let_def)
  have "\<forall>r \<in> set (fd_claims db). 0 \<le> amount_of r" using assms(2) by (simp add: ledger_ok_def claims_wf_def row_wf_def)
  then show ?thesis using assms(2) claims_wf_filter within_limits_filter unfolding ledger_ok_def q by blast
qed

lemma ledger_ok_reach:
  assumes "\<And>k. limits_wf (lims k)" "(ledger_step lims)\<^sup>*\<^sup>* empty_faucet db"
  shows "ledger_ok lims db"
  using assms(2)
proof (induction rule: rtranclp_induct)
  case base
  have "limited p g D cap []" if "0 \<le> cap" for p g D cap using that by (simp add: limited_def tally_def)
  then show ?case using assms(1) by (auto simp: ledger_ok_def empty_faucet_def claims_wf_def within_limits_def limits_wf_def)
qed (rule ledger_ok_step)

lemma list_all_replicate [simp]: "list_all p (replicate n c) \<longleftrightarrow> n = 0 \<or> p c"
  by (induction n) auto

definition demo_limits :: "FaucetClaimKind \<Rightarrow> FaucetReserveLimits" where
  "demo_limits k = \<lparr>fl_windowMs = 3600000, fl_dayMs = 86400000, fl_perIp = 5, fl_perSubnet = 20, fl_perDay = Some 100,
     fl_dailyAmount = None\<rparr>"

definition demo_claim :: FaucetReserveInput where
  "demo_claim = \<lparr>fi_kind = Musdc, fi_owner = ''0x'' @ replicate 40 CHR ''a'', fi_recipient = ''0x'' @ replicate 40 CHR ''b'',
     fi_ipKey = replicate 64 CHR ''1'', fi_subnetKey = replicate 64 CHR ''2'', fi_amount = 0\<rparr>"

lemma demo_claim_valid: "assertReserveInput demo_claim 1000000 = Inr ()"
  by (simp add: assertReserveInput_def demo_claim_def result_simps faucet_address_def hex_literal_def network_key_def
      char_class_defs isSafeInteger_def MAX_SAFE_INTEGER_def)

definition demo_ledger :: faucet_db where
  "demo_ledger = \<lparr>fd_claims = [claim_row ''claim-1'' demo_claim 1000000], fd_refusals = []\<rparr>"

lemma demo_reserve:
  "faucet_reserve empty_faucet ''claim-1'' demo_claim 1000000 (demo_limits Musdc) =
     Inr (ReservedClaim (claim_row ''claim-1'' demo_claim 1000000) True, demo_ledger)"
  unfolding faucet_reserve_def demo_claim_valid
  by (simp add: reserveTx_def admission_def empty_faucet_def inflight_claim_def lastActive_def counted_def order_desc_def Let_def
      demo_limits_def insert_claim_def claim_by_id_def claim_row_def demo_ledger_def)

lemma demo_limits_wf: "limits_wf (demo_limits k)"
  by (simp add: limits_wf_def demo_limits_def)

lemma demo_ledger_reached: "(ledger_step demo_limits)\<^sup>*\<^sup>* empty_faucet demo_ledger"
  using demo_reserve by (intro r_into_rtranclp ledger_step.do_write claim_write.do_reserve) (auto simp: demo_claim_def demo_limits_def)

lemma ledger_limits_hold:
  assumes "\<And>k. limits_wf (lims k)" "(ledger_step lims)\<^sup>*\<^sup>* empty_faucet db"
  shows "tally (\<lambda>r. fc_owner r = own \<and> fc_kind r = k) (\<lambda>_. 1) (fl_windowMs (lims k)) t (fd_claims db) \<le> 1"
    "tally (\<lambda>r. fc_ip_key r = ip \<and> fc_kind r = k) (\<lambda>_. 1) (fl_dayMs (lims k)) t (fd_claims db) \<le> fl_perIp (lims k)"
    "tally (\<lambda>r. fc_subnet_key r = net \<and> fc_kind r = k) (\<lambda>_. 1) (fl_dayMs (lims k)) t (fd_claims db) \<le> fl_perSubnet (lims k)"
    "fl_perDay (lims k) = Some n \<Longrightarrow> tally (\<lambda>r. fc_kind r = k) (\<lambda>_. 1) (fl_dayMs (lims k)) t (fd_claims db) \<le> n"
    "fl_dailyAmount (lims k) = Some n \<Longrightarrow> tally (\<lambda>r. fc_kind r = k) (\<lambda>r. BigInt (fc_amount r)) (fl_dayMs (lims k)) t (fd_claims db) \<le> n"
  using ledger_ok_reach [OF assms] by (simp_all add: ledger_ok_def within_limits_def limited_def)

text \<open>C33: every reachable ledger is well-formed. A signed, sent or confirmed claim carries its
  nonce, hash and raw bytes and a positive amount, and a reserved or skipped one none of them;
  an owner has at most one claim of a kind in flight; and no two claims that were signed and did
  not fail carry the same nonce, so no transaction of the faucet displaces another.\<close>

theorem faucet_rows_consistent:
  assumes "\<And>k. limits_wf (lims k)" "(ledger_step lims)\<^sup>*\<^sup>* empty_faucet db"
  shows "(\<forall>r \<in> set (fd_claims db).
       (fc_state r \<in> {StSigned, StSent, StConfirmed} \<longrightarrow>
          fc_nonce r \<noteq> None \<and> fc_tx_hash r \<noteq> None \<and> fc_raw_tx r \<noteq> None \<and> 0 < BigInt (fc_amount r)) \<and>
       (fc_state r \<in> {StReserved, StSkipped} \<longrightarrow> fc_nonce r = None \<and> fc_tx_hash r = None \<and> fc_raw_tx r = None)) \<and>
     distinct (map fc_id (fd_claims db)) \<and>
     distinct (map (\<lambda>r. (fc_kind r, fc_owner r)) (filter (\<lambda>r. fc_state r \<in> INFLIGHT) (fd_claims db))) \<and>
     distinct (map fc_nonce (filter (\<lambda>r. fc_state r \<in> {StSigned, StSent, StConfirmed}) (fd_claims db)))"
  using ledger_ok_reach [OF assms] by (simp add: ledger_ok_def claims_wf_def row_wf_def is_signed_def)

theorem faucet_rows_consistent_witness:
  "fd_claims demo_ledger \<noteq> [] \<and> distinct (map fc_id (fd_claims demo_ledger))"
  using faucet_rows_consistent [OF demo_limits_wf demo_ledger_reached] by (simp add: demo_ledger_def)

text \<open>C34: a claim's signature is written once and its outcome is final. Whatever writes follow,
  a claim that carries signed bytes carries the same nonce, hash and bytes, so a rebroadcast can
  only repeat the first transaction; and the row of a confirmed, failed or skipped claim never
  changes again.\<close>

theorem faucet_bytes_final:
  assumes "(claim_write lims)\<^sup>*\<^sup>* db db'"
  shows "(claim_bytes db i = Some b \<longrightarrow> claim_bytes db' i = Some b) \<and> (finished_claim db i = Some r \<longrightarrow> finished_claim db' i = Some r)"
  using claim_signature.kept_steps [OF assms] claim_outcome.kept_steps [OF assms] by blast

definition demo_signature :: signed_claim where
  "demo_signature = \<lparr>sg_amount = 5000000, sg_nonce = 7, sg_txHash = ''0x'' @ replicate 64 CHR ''c'', sg_rawTx = ''0x02f8''\<rparr>"

lemma demo_sign_runs:
  "\<exists>db. markSigned demo_ledger ''claim-1'' demo_signature 1000100 = Inr (True, db) \<and>
     claim_bytes db ''claim-1'' = Some (Some 7, Some (sg_txHash demo_signature), ''0x02f8'')"
  by (simp add: markSigned_def demo_signature_def demo_ledger_def ensure_def ebind_def isSafeInteger_def MAX_SAFE_INTEGER_def
      hex_literal_def raw_hex_def char_class_defs transition_def at_claim_def claim_row_def update_where_def write_signed_def
      claim_bytes_def claim_by_id_def)

theorem faucet_bytes_final_witness:
  "\<exists>db. claim_bytes db ''claim-1'' = Some (Some 7, Some (sg_txHash demo_signature), ''0x02f8'') \<and>
     claim_bytes (snd (markSent db ''claim-1'' 1000200)) ''claim-1'' = Some (Some 7, Some (sg_txHash demo_signature), ''0x02f8'')"
proof -
  obtain db where db: "claim_bytes db ''claim-1'' = Some (Some 7, Some (sg_txHash demo_signature), ''0x02f8'')"
    using demo_sign_runs by blast
  have "(claim_write demo_limits)\<^sup>*\<^sup>* db (snd (markSent db ''claim-1'' 1000200))"
    by (intro r_into_rtranclp claim_write.do_send)
  from faucet_bytes_final [OF this] db show ?thesis by blast
qed

end
