(* ===== verification/Faucet_Policy.thy ===== *)
theory Faucet_Policy
  imports Faucet_Ledger Js_Text
begin

text \<open>
  The faucet's published policy (\<^verbatim>\<open>packages/delegation/src/faucet-policy.ts\<close>): the amounts,
  windows and limits, the top-up rule, the missions, and the parsers with which the page and the
  Worker read what the service answers. A JSON value is a \<^typ>\<open>js\<close>; a parser either throws or
  returns a value of the promised shape. The printers state what \<^verbatim>\<open>c.json\<close> makes of a value: an
  absent field is left out.
\<close>

type_synonym FaucetKind = FaucetClaimKind

section \<open>Numbers\<close>

definition FAUCET_TARGET_BASE :: int where "FAUCET_TARGET_BASE = 1000000000"

definition FAUCET_WINDOW_MS :: int where "FAUCET_WINDOW_MS = 86400000"

definition FAUCET_ETH_AMOUNT_WEI :: int where "FAUCET_ETH_AMOUNT_WEI = 500000000000000"

definition FAUCET_ETH_WINDOW_MS :: int where "FAUCET_ETH_WINDOW_MS = 7 * FAUCET_WINDOW_MS"

definition FAUCET_LIMIT_WINDOW_MS :: int where "FAUCET_LIMIT_WINDOW_MS = FAUCET_WINDOW_MS"

text \<open>\<^verbatim>\<open>FAUCET_LIMITS\<close>: per address, per subnet, per day.\<close>

definition FAUCET_LIMITS :: "FaucetKind \<Rightarrow> int \<times> int \<times> int option" where
  "FAUCET_LIMITS k = (case k of Musdc \<Rightarrow> (5, 20, Some 1000) | Eth \<Rightarrow> (1, 3, None))"

definition planTopUp :: "int \<Rightarrow> int \<Rightarrow> int result" where
  "planTopUp balance target =
     (if balance < 0 \<or> target < 0 then Inl (Error ''balance and target must be non-negative base amounts'')
      else Inr (if balance < target then target - balance else 0))"

lemma planTopUp_reaches:
  "planTopUp balance target = Inr v \<Longrightarrow> 0 \<le> v \<and> v \<le> target \<and> balance + v = max balance target"
  by (auto simp: planTopUp_def split: if_splits)

section \<open>Missions\<close>

datatype FaucetMissionKind = Honour | Verified

datatype FaucetMissionId = XFollowMapae

definition mission_text :: "FaucetMissionId \<Rightarrow> string" where
  "mission_text m = (case m of XFollowMapae \<Rightarrow> ''x_follow_mapae'')"

definition FAUCET_MISSIONS :: "FaucetMissionId \<Rightarrow> FaucetMissionKind" where
  "FAUCET_MISSIONS m = (case m of XFollowMapae \<Rightarrow> Honour)"

definition FAUCET_MUSDC_MISSIONS :: "FaucetMissionId list" where
  "FAUCET_MUSDC_MISSIONS = [XFollowMapae]"

text \<open>\<^verbatim>\<open>isFaucetMissionId\<close>, with the mission the value names.\<close>

definition mission_of_text :: "string \<Rightarrow> FaucetMissionId option" where
  "mission_of_text s = (if s = ''x_follow_mapae'' then Some XFollowMapae else None)"

definition isFaucetMissionId :: "js \<Rightarrow> FaucetMissionId option" where
  "isFaucetMissionId v = (case v of JString s \<Rightarrow> mission_of_text s | _ \<Rightarrow> None)"

lemma mission_of_text [simp]: "mission_of_text (mission_text m) = Some m"
  by (cases m) (simp add: mission_of_text_def mission_text_def)

lemma mission_of_text_Some: "mission_of_text s = Some m \<Longrightarrow> s = mission_text m"
  by (cases m) (simp add: mission_of_text_def mission_text_def split: if_splits)

fun known_missions :: "string list \<Rightarrow> FaucetMissionId list result" where
  "known_missions [] = Inr []"
| "known_missions (s # ss) = (case mission_of_text s of
     None \<Rightarrow> Inl (Error (''unknown faucet mission: '' @ s))
   | Some m \<Rightarrow> ebind (known_missions ss) (\<lambda>ms. Inr (m # ms)))"

text \<open>\<^verbatim>\<open>[...new Set(ids)]\<close> keeps the first of equal ids.\<close>

fun first_of_each :: "'a list \<Rightarrow> 'a list" where
  "first_of_each [] = []"
| "first_of_each (x # xs) = x # filter (\<lambda>y. y \<noteq> x) (first_of_each xs)"

lemma set_first_of_each [simp]: "set (first_of_each xs) = set xs"
  by (induction xs) auto

lemma distinct_first_of_each [simp]: "distinct (first_of_each xs)"
  by (induction xs) auto

definition parseFaucetMissionList :: "string option \<Rightarrow> FaucetMissionId list result" where
  "parseFaucetMissionList raw =
     ebind (known_missions (filter (\<lambda>s. s \<noteq> []) (map trim (split_char CHR '','' (case raw of None \<Rightarrow> [] | Some s \<Rightarrow> s)))))
       (\<lambda>ms. Inr (first_of_each ms))"

section \<open>What the service answers\<close>

datatype FaucetRefusal =
    FaucetOff | LoginRequired | MissionIncomplete | TurnstileFailed | RateLimitedClaim | CooldownClaim | NotEligible
  | EligibilityUnavailable | BudgetExhaustedClaim | FaucetEmpty | FeeTooHigh | MalformedRequest | Unavailable

definition refusal_text :: "FaucetRefusal \<Rightarrow> string" where
  "refusal_text r = (case r of FaucetOff \<Rightarrow> ''faucet_off'' | LoginRequired \<Rightarrow> ''login_required''
     | MissionIncomplete \<Rightarrow> ''mission_incomplete'' | TurnstileFailed \<Rightarrow> ''turnstile_failed''
     | RateLimitedClaim \<Rightarrow> ''rate_limited'' | CooldownClaim \<Rightarrow> ''cooldown'' | NotEligible \<Rightarrow> ''not_eligible''
     | EligibilityUnavailable \<Rightarrow> ''eligibility_unavailable'' | BudgetExhaustedClaim \<Rightarrow> ''budget_exhausted''
     | FaucetEmpty \<Rightarrow> ''faucet_empty'' | FeeTooHigh \<Rightarrow> ''fee_too_high'' | MalformedRequest \<Rightarrow> ''malformed_request''
     | Unavailable \<Rightarrow> ''unavailable'')"

definition FAUCET_REFUSALS :: "FaucetRefusal list" where
  "FAUCET_REFUSALS = [FaucetOff, LoginRequired, MissionIncomplete, TurnstileFailed, RateLimitedClaim, CooldownClaim,
     NotEligible, EligibilityUnavailable, BudgetExhaustedClaim, FaucetEmpty, FeeTooHigh, MalformedRequest, Unavailable]"

datatype claim_view_state = Pending | Confirmed | Failed | AlreadyEnough

definition view_state_text :: "claim_view_state \<Rightarrow> string" where
  "view_state_text s = (case s of Pending \<Rightarrow> ''pending'' | Confirmed \<Rightarrow> ''confirmed'' | Failed \<Rightarrow> ''failed''
     | AlreadyEnough \<Rightarrow> ''already_enough'')"

definition CLAIM_STATES :: "claim_view_state list" where
  "CLAIM_STATES = [Pending, Confirmed, Failed, AlreadyEnough]"

definition FAUCET_KINDS :: "FaucetKind list" where
  "FAUCET_KINDS = [Musdc, Eth]"

record FaucetTab =
  ft_enabled :: bool
  ft_amount :: string
  ft_windowMs :: int
  ft_missions :: "FaucetMissionId list"

record FaucetStatus =
  fst_musdc :: FaucetTab
  fst_eth :: FaucetTab

record FaucetClaimView =
  cv_kind :: FaucetKind
  cv_state :: claim_view_state
  cv_amount :: string
  cv_recipient :: string
  cv_transaction :: "string option"
  cv_nextAt :: "int option"

record FaucetAccount =
  fa_owner :: string
  fa_recipient_musdc :: string
  fa_recipient_eth :: string
  fa_musdc :: "FaucetClaimView option"
  fa_eth :: "FaucetClaimView option"

record FaucetRefusalBody =
  rb_reason :: FaucetRefusal
  rb_nextAt :: "int option"

section \<open>Parsers\<close>

text \<open>\<^verbatim>\<open>record\<close>, \<^verbatim>\<open>decimal\<close>, \<^verbatim>\<open>instant\<close>, \<^verbatim>\<open>windowLength\<close>, \<^verbatim>\<open>address\<close> and \<^verbatim>\<open>txHash\<close>.\<close>

definition js_record :: "js \<Rightarrow> bool" where
  "js_record v = (case v of JObject _ \<Rightarrow> True | _ \<Rightarrow> False)"

definition is_decimal :: "string \<Rightarrow> bool" where
  "is_decimal s \<longleftrightarrow> s = ''0'' \<or> (s \<noteq> [] \<and> list_all is_digit s \<and> hd s \<noteq> CHR ''0'' \<and> length s \<le> 78)"

definition js_decimal :: "js \<Rightarrow> string option" where
  "js_decimal v = (case v of JString s \<Rightarrow> if is_decimal s then Some s else None | _ \<Rightarrow> None)"

definition js_instant :: "js \<Rightarrow> int option" where
  "js_instant v = (case v of JNum n \<Rightarrow> if isSafeInteger n \<and> 0 < n \<and> n \<le> 8640000000000000 then Some n else None | _ \<Rightarrow> None)"

definition js_windowLength :: "js \<Rightarrow> int option" where
  "js_windowLength v = (case v of JNum n \<Rightarrow> if isSafeInteger n \<and> 0 < n then Some n else None | _ \<Rightarrow> None)"

definition js_hex :: "nat \<Rightarrow> js \<Rightarrow> string option" where
  "js_hex n v = (case v of JString s \<Rightarrow> if hex_literal is_hex n s then Some s else None | _ \<Rightarrow> None)"

fun every_mission :: "js list \<Rightarrow> FaucetMissionId list option" where
  "every_mission [] = Some []"
| "every_mission (v # vs) = (case isFaucetMissionId v of None \<Rightarrow> None
     | Some m \<Rightarrow> map_option ((#) m) (every_mission vs))"

definition missionList :: "js \<Rightarrow> FaucetMissionId list result" where
  "missionList v = (case v of
     JArray vs \<Rightarrow> if 16 < length vs then Inl (Error ''faucet missions must be known mission ids'')
       else (case every_mission vs of None \<Rightarrow> Inl (Error ''faucet missions must be known mission ids'') | Some ms \<Rightarrow> Inr ms)
   | _ \<Rightarrow> Inl (Error ''faucet missions must be known mission ids''))"

text \<open>The two tabs of a status differ in the name of the amount.\<close>

definition tab_fields :: "string \<Rightarrow> js \<Rightarrow> (bool \<times> string \<times> int) option" where
  "tab_fields amount_key v = (case (js_get v ''enabled'', js_decimal (js_get v amount_key), js_windowLength (js_get v ''windowMs'')) of
     (JBool b, Some a, Some w) \<Rightarrow> Some (b, a, w) | _ \<Rightarrow> None)"

definition tab_of :: "bool \<times> string \<times> int \<Rightarrow> FaucetMissionId list \<Rightarrow> FaucetTab" where
  "tab_of t ms = (case t of (b, a, w) \<Rightarrow> \<lparr>ft_enabled = b, ft_amount = a, ft_windowMs = w, ft_missions = ms\<rparr>)"

definition parseFaucetStatus :: "js \<Rightarrow> FaucetStatus result" where
  "parseFaucetStatus v =
     (let bad = Error ''faucet status is malformed''; m = js_get v ''musdc''; e = js_get v ''eth'' in
      ebind (ensure (js_record v \<and> js_record m \<and> js_record e) bad) (\<lambda>_.
      case tab_fields ''targetBase'' m of None \<Rightarrow> Inl bad | Some mt \<Rightarrow>
      (case tab_fields ''amountWei'' e of None \<Rightarrow> Inl bad | Some et \<Rightarrow>
        ebind (missionList (js_get m ''missions'')) (\<lambda>mm.
        ebind (missionList (js_get e ''missions'')) (\<lambda>em.
        Inr \<lparr>fst_musdc = tab_of mt mm, fst_eth = tab_of et em\<rparr>)))))"

text \<open>\<^verbatim>\<open>LIST.includes(value)\<close>, with the element found.\<close>

definition included :: "('a \<Rightarrow> string) \<Rightarrow> 'a list \<Rightarrow> js \<Rightarrow> 'a option" where
  "included txt xs v = (case v of JString s \<Rightarrow> find (\<lambda>x. txt x = s) xs | _ \<Rightarrow> None)"

text \<open>An optional field: absent, well-formed, or malformed.\<close>

definition optional_field :: "(js \<Rightarrow> 'a option) \<Rightarrow> js \<Rightarrow> 'a option option" where
  "optional_field p v = (if v = JUndefined then Some None else map_option Some (p v))"

definition parseFaucetClaimView :: "js \<Rightarrow> FaucetKind option \<Rightarrow> FaucetClaimView result" where
  "parseFaucetClaimView v kind =
     (case (included kind_text FAUCET_KINDS (js_get v ''kind''), included view_state_text CLAIM_STATES (js_get v ''state''),
            js_decimal (js_get v ''amount''), js_hex 40 (js_get v ''recipient''),
            optional_field (js_hex 64) (js_get v ''transaction''), optional_field js_instant (js_get v ''nextAt'')) of
        (Some k, Some st, Some a, Some r, Some tx, Some nx) \<Rightarrow>
          if js_record v \<and> (kind = None \<or> kind = Some k)
          then Inr \<lparr>cv_kind = k, cv_state = st, cv_amount = a, cv_recipient = r, cv_transaction = tx, cv_nextAt = nx\<rparr>
          else Inl (Error ''faucet claim is malformed'')
      | _ \<Rightarrow> Inl (Error ''faucet claim is malformed''))"

definition parse_claim_or_null :: "js \<Rightarrow> FaucetKind \<Rightarrow> FaucetClaimView option result" where
  "parse_claim_or_null v kind = (if v = JNull then Inr None else ebind (parseFaucetClaimView v (Some kind)) (\<lambda>c. Inr (Some c)))"

definition parseFaucetAccount :: "js \<Rightarrow> FaucetAccount result" where
  "parseFaucetAccount v =
     (case (js_hex 40 (js_get v ''owner''), js_record v \<and> js_record (js_get v ''recipients''),
            js_hex 40 (js_get (js_get v ''recipients'') ''musdc''), js_hex 40 (js_get (js_get v ''recipients'') ''eth'')) of
        (Some own, True, Some rm, Some re) \<Rightarrow>
          if toLowerCase re \<noteq> toLowerCase own then Inl (Error ''faucet account is malformed'')
          else ebind (parse_claim_or_null (js_get v ''musdc'') Musdc) (\<lambda>m.
            ebind (parse_claim_or_null (js_get v ''eth'') Eth) (\<lambda>e.
            Inr \<lparr>fa_owner = own, fa_recipient_musdc = rm, fa_recipient_eth = re, fa_musdc = m, fa_eth = e\<rparr>))
      | _ \<Rightarrow> Inl (Error ''faucet account is malformed''))"

definition parseFaucetRefusal :: "js \<Rightarrow> FaucetRefusalBody option" where
  "parseFaucetRefusal v =
     (if \<not> js_record v then None
      else (case (included refusal_text FAUCET_REFUSALS (js_get v ''reason''), optional_field js_instant (js_get v ''nextAt'')) of
        (Some r, Some nx) \<Rightarrow> Some \<lparr>rb_reason = r, rb_nextAt = nx\<rparr>
      | _ \<Rightarrow> None))"

section \<open>Printing, and what parsing promises\<close>

text \<open>\<^verbatim>\<open>c.json(value)\<close>: a field whose value is undefined is left out.\<close>

definition opt_field :: "string \<Rightarrow> ('a \<Rightarrow> js) \<Rightarrow> 'a option \<Rightarrow> (string \<times> js) list" where
  "opt_field k p v = (case v of None \<Rightarrow> [] | Some x \<Rightarrow> [(k, p x)])"

definition claim_view_json :: "FaucetClaimView \<Rightarrow> js" where
  "claim_view_json c = JObject ([(''kind'', JString (kind_text (cv_kind c))), (''state'', JString (view_state_text (cv_state c))),
     (''amount'', JString (cv_amount c)), (''recipient'', JString (cv_recipient c))]
     @ opt_field ''transaction'' JString (cv_transaction c) @ opt_field ''nextAt'' JNum (cv_nextAt c))"

definition view_or_null :: "FaucetClaimView option \<Rightarrow> js" where
  "view_or_null c = (case c of None \<Rightarrow> JNull | Some v \<Rightarrow> claim_view_json v)"

definition account_json :: "FaucetAccount \<Rightarrow> js" where
  "account_json a = JObject [(''owner'', JString (fa_owner a)),
     (''recipients'', JObject [(''musdc'', JString (fa_recipient_musdc a)), (''eth'', JString (fa_recipient_eth a))]),
     (''musdc'', view_or_null (fa_musdc a)), (''eth'', view_or_null (fa_eth a))]"

definition tab_json :: "string \<Rightarrow> FaucetTab \<Rightarrow> js" where
  "tab_json amount_key t = JObject [(''enabled'', JBool (ft_enabled t)), (amount_key, JString (ft_amount t)),
     (''windowMs'', JNum (ft_windowMs t)), (''missions'', JArray (map (\<lambda>m. JString (mission_text m)) (ft_missions t)))]"

definition status_json :: "FaucetStatus \<Rightarrow> js" where
  "status_json s = JObject [(''musdc'', tab_json ''targetBase'' (fst_musdc s)), (''eth'', tab_json ''amountWei'' (fst_eth s))]"

definition refusal_json :: "FaucetRefusal \<Rightarrow> int option \<Rightarrow> js" where
  "refusal_json r nx = JObject ((''reason'', JString (refusal_text r)) # opt_field ''nextAt'' JNum nx)"

definition instant :: "int \<Rightarrow> bool" where
  "instant n \<longleftrightarrow> isSafeInteger n \<and> 0 < n \<and> n \<le> 8640000000000000"

definition view_shape :: "FaucetClaimView \<Rightarrow> bool" where
  "view_shape c \<longleftrightarrow> is_decimal (cv_amount c) \<and> hex_literal is_hex 40 (cv_recipient c) \<and>
     (\<forall>h. cv_transaction c = Some h \<longrightarrow> hex_literal is_hex 64 h) \<and> (\<forall>n. cv_nextAt c = Some n \<longrightarrow> instant n)"

definition account_shape :: "FaucetAccount \<Rightarrow> bool" where
  "account_shape a \<longleftrightarrow> hex_literal is_hex 40 (fa_owner a) \<and> hex_literal is_hex 40 (fa_recipient_musdc a) \<and>
     hex_literal is_hex 40 (fa_recipient_eth a) \<and> toLowerCase (fa_recipient_eth a) = toLowerCase (fa_owner a) \<and>
     (\<forall>c. fa_musdc a = Some c \<longrightarrow> view_shape c \<and> cv_kind c = Musdc) \<and> (\<forall>c. fa_eth a = Some c \<longrightarrow> view_shape c \<and> cv_kind c = Eth)"

definition tab_shape :: "FaucetTab \<Rightarrow> bool" where
  "tab_shape t \<longleftrightarrow> is_decimal (ft_amount t) \<and> isSafeInteger (ft_windowMs t) \<and> 0 < ft_windowMs t \<and> length (ft_missions t) \<le> 16"

lemma field_SomeD:
  "js_decimal v = Some s \<Longrightarrow> v = JString s \<and> is_decimal s"
  "js_hex n v = Some s \<Longrightarrow> v = JString s \<and> hex_literal is_hex n s"
  "js_instant v = Some i \<Longrightarrow> v = JNum i \<and> instant i"
  "js_windowLength v = Some i \<Longrightarrow> v = JNum i \<and> isSafeInteger i \<and> 0 < i"
  by (auto simp: js_decimal_def js_hex_def js_instant_def js_windowLength_def instant_def split: js.splits if_splits)

lemma field_ok [simp]:
  "is_decimal s \<Longrightarrow> js_decimal (JString s) = Some s"
  "hex_literal is_hex n s \<Longrightarrow> js_hex n (JString s) = Some s"
  "instant i \<Longrightarrow> js_instant (JNum i) = Some i"
  "isSafeInteger i \<Longrightarrow> 0 < i \<Longrightarrow> js_windowLength (JNum i) = Some i"
  by (simp_all add: js_decimal_def js_hex_def js_instant_def js_windowLength_def instant_def)

lemma optional_SomeD: "optional_field p v = Some (Some x) \<Longrightarrow> p v = Some x"
  by (auto simp: optional_field_def split: if_splits)

lemma included_text [simp]:
  "included kind_text FAUCET_KINDS (JString (kind_text k)) = Some k"
  "included view_state_text CLAIM_STATES (JString (view_state_text s)) = Some s"
  "included refusal_text FAUCET_REFUSALS (JString (refusal_text r)) = Some r"
proof -
  show "included kind_text FAUCET_KINDS (JString (kind_text k)) = Some k"
    by (cases k) (simp_all add: included_def FAUCET_KINDS_def kind_text_def)
  show "included view_state_text CLAIM_STATES (JString (view_state_text s)) = Some s"
    by (cases s) (simp_all add: included_def CLAIM_STATES_def view_state_text_def)
  show "included refusal_text FAUCET_REFUSALS (JString (refusal_text r)) = Some r"
    by (cases r) (simp_all add: included_def FAUCET_REFUSALS_def refusal_text_def)
qed

lemma every_mission_texts [simp]: "every_mission (map (\<lambda>m. JString (mission_text m)) ms) = Some ms"
  by (induction ms) (auto simp: isFaucetMissionId_def)

lemma every_mission_length: "every_mission vs = Some ms \<Longrightarrow> length ms = length vs"
  by (induction vs arbitrary: ms) (auto split: option.splits)

lemma missionList_length: "missionList v = Inr ms \<Longrightarrow> length ms \<le> 16"
  by (auto simp: missionList_def split: js.splits if_splits option.splits dest: every_mission_length)

lemma parse_view_shape:
  assumes "parseFaucetClaimView v kind = Inr c"
  shows "view_shape c" "kind = Some k \<Longrightarrow> cv_kind c = k"
proof -
  obtain k' st a r tx nx where p: "js_decimal (js_get v ''amount'') = Some a" "js_hex 40 (js_get v ''recipient'') = Some r"
      "optional_field (js_hex 64) (js_get v ''transaction'') = Some tx" "optional_field js_instant (js_get v ''nextAt'') = Some nx"
    and c: "kind = None \<or> kind = Some k'"
      "c = \<lparr>cv_kind = k', cv_state = st, cv_amount = a, cv_recipient = r, cv_transaction = tx, cv_nextAt = nx\<rparr>"
    using assms by (auto simp: parseFaucetClaimView_def split: option.splits if_splits)
  show "view_shape c"
    using p(3,4) field_SomeD(1) [OF p(1)] field_SomeD(2) [OF p(2)]
    by (auto simp: view_shape_def c(2) dest!: optional_SomeD field_SomeD)
  show "kind = Some k \<Longrightarrow> cv_kind c = k" using c by auto
qed

lemma parse_view_print:
  assumes "view_shape c"
  shows "parseFaucetClaimView (claim_view_json c) (Some (cv_kind c)) = Inr c"
proof -
  have g: "js_get (claim_view_json c) ''kind'' = JString (kind_text (cv_kind c))"
    "js_get (claim_view_json c) ''state'' = JString (view_state_text (cv_state c))"
    "js_get (claim_view_json c) ''amount'' = JString (cv_amount c)" "js_get (claim_view_json c) ''recipient'' = JString (cv_recipient c)"
    "js_get (claim_view_json c) ''transaction'' = (case cv_transaction c of None \<Rightarrow> JUndefined | Some h \<Rightarrow> JString h)"
    "js_get (claim_view_json c) ''nextAt'' = (case cv_nextAt c of None \<Rightarrow> JUndefined | Some n \<Rightarrow> JNum n)"
    by (simp_all add: js_get_def claim_view_json_def opt_field_def split: option.splits)
  have o: "optional_field (js_hex 64) (case cv_transaction c of None \<Rightarrow> JUndefined | Some h \<Rightarrow> JString h) = Some (cv_transaction c)"
    "optional_field js_instant (case cv_nextAt c of None \<Rightarrow> JUndefined | Some n \<Rightarrow> JNum n) = Some (cv_nextAt c)"
    using assms by (auto simp: optional_field_def view_shape_def split: option.splits)
  show ?thesis
    unfolding parseFaucetClaimView_def g o
    using assms by (simp add: view_shape_def js_record_def claim_view_json_def)
qed

lemma parse_account_shape:
  assumes "parseFaucetAccount v = Inr a"
  shows "account_shape a"
proof -
  have f: "js_hex 40 x = Some s \<Longrightarrow> hex_literal is_hex 40 s" for x s by (drule field_SomeD) simp
  have sub: "w = Some c \<Longrightarrow> view_shape c \<and> cv_kind c = k" if "parse_claim_or_null x k = Inr w" for x k w c
    using that parse_view_shape [of x "Some k"] by (auto simp: parse_claim_or_null_def result_simps split: if_splits)
  show ?thesis
    using assms by (auto simp: parseFaucetAccount_def result_simps account_shape_def split: option.splits bool.splits if_splits dest: f sub)
qed

lemma parse_account_print:
  assumes "account_shape a"
  shows "parseFaucetAccount (account_json a) = Inr a"
proof -
  have sub: "parse_claim_or_null (view_or_null w) k = Inr w" if "\<forall>c. w = Some c \<longrightarrow> view_shape c \<and> cv_kind c = k" for w k
  proof (cases w)
    case (Some c)
    then show ?thesis using that parse_view_print [of c] by (auto simp: parse_claim_or_null_def view_or_null_def claim_view_json_def)
  qed (simp add: parse_claim_or_null_def view_or_null_def)
  have g: "js_get (account_json a) ''owner'' = JString (fa_owner a)" "js_get (account_json a) ''musdc'' = view_or_null (fa_musdc a)"
    "js_get (account_json a) ''eth'' = view_or_null (fa_eth a)"
    "js_get (account_json a) ''recipients'' = JObject [(''musdc'', JString (fa_recipient_musdc a)), (''eth'', JString (fa_recipient_eth a))]"
    "js_get (JObject [(''musdc'', x), (''eth'', y)]) ''musdc'' = x" "js_get (JObject [(''musdc'', x), (''eth'', y)]) ''eth'' = y"
    "js_record (account_json a)" "js_record (JObject fs)" for x y fs
    by (simp_all add: js_get_def account_json_def js_record_def)
  show ?thesis
    unfolding parseFaucetAccount_def g using assms by (simp add: account_shape_def sub g)
qed

lemma parse_tab_shape:
  assumes "tab_fields key v = Some t" "missionList x = Inr ms"
  shows "tab_shape (tab_of t ms)"
  using assms missionList_length [OF assms(2)]
  by (auto simp: tab_fields_def tab_shape_def tab_of_def split: js.splits option.splits dest: field_SomeD)

lemma parse_status_shape:
  assumes "parseFaucetStatus v = Inr s"
  shows "tab_shape (fst_musdc s) \<and> tab_shape (fst_eth s)"
  using assms by (auto simp: parseFaucetStatus_def Let_def result_simps split: option.splits intro: parse_tab_shape)

lemma parse_status_print:
  assumes "tab_shape (fst_musdc s)" "tab_shape (fst_eth s)"
  shows "parseFaucetStatus (status_json s) = Inr s"
proof -
  have t: "tab_fields key (tab_json key t) = Some (ft_enabled t, ft_amount t, ft_windowMs t)"
      "missionList (js_get (tab_json key t) ''missions'') = Inr (ft_missions t)"
    if "tab_shape t" "key \<in> {''targetBase'', ''amountWei''}" for t key
    using that by (auto simp: tab_fields_def tab_json_def js_get_def tab_shape_def missionList_def)
  have g: "js_get (status_json s) ''musdc'' = tab_json ''targetBase'' (fst_musdc s)" "js_get (status_json s) ''eth'' = tab_json ''amountWei'' (fst_eth s)"
    "js_record (status_json s)" "js_record (tab_json key t)" for key t
    by (simp_all add: js_get_def status_json_def js_record_def tab_json_def)
  show ?thesis unfolding parseFaucetStatus_def Let_def g(1,2) using assms by (simp add: t g(3,4) tab_of_def)
qed

lemma parse_refusal_print:
  assumes "\<forall>n. nx = Some n \<longrightarrow> instant n"
  shows "parseFaucetRefusal (refusal_json r nx) = Some \<lparr>rb_reason = r, rb_nextAt = nx\<rparr>"
proof -
  have g: "js_get (refusal_json r nx) ''reason'' = JString (refusal_text r)"
    "js_get (refusal_json r nx) ''nextAt'' = (case nx of None \<Rightarrow> JUndefined | Some n \<Rightarrow> JNum n)" "js_record (refusal_json r nx)"
    by (simp_all add: js_get_def refusal_json_def opt_field_def js_record_def split: option.splits)
  have "optional_field js_instant (case nx of None \<Rightarrow> JUndefined | Some n \<Rightarrow> JNum n) = Some nx"
    using assms by (auto simp: optional_field_def split: option.splits)
  then show ?thesis by (simp add: parseFaucetRefusal_def g)
qed

lemma parse_refusal_shape: "parseFaucetRefusal v = Some b \<Longrightarrow> rb_nextAt b = Some n \<Longrightarrow> instant n"
  by (auto simp: parseFaucetRefusal_def split: option.splits if_splits dest!: optional_SomeD field_SomeD)

text \<open>C40: the page never renders a field of the wrong shape. Whatever JSON a response carries, a
  parser of the faucet's contract either refuses it or returns a value of the promised shape:
  amounts are canonical decimals, recipients and hashes well-formed, instants within the range of
  a date, windows positive, each claim under its own kind, and the ETH recipient the owner itself.\<close>

theorem parsers_return_promised_shapes:
  "(\<forall>c k. parseFaucetClaimView v (Some k) = Inr c \<longrightarrow> view_shape c \<and> cv_kind c = k) \<and>
   (\<forall>a. parseFaucetAccount v = Inr a \<longrightarrow> account_shape a) \<and>
   (\<forall>s. parseFaucetStatus v = Inr s \<longrightarrow> tab_shape (fst_musdc s) \<and> tab_shape (fst_eth s)) \<and>
   (\<forall>b n. parseFaucetRefusal v = Some b \<and> rb_nextAt b = Some n \<longrightarrow> instant n)"
  using parse_view_shape parse_account_shape parse_status_shape parse_refusal_shape by blast

definition demo_view :: FaucetClaimView where
  "demo_view = \<lparr>cv_kind = Eth, cv_state = Confirmed, cv_amount = ''500000000000000'', cv_recipient = ''0x'' @ replicate 40 CHR ''a'',
     cv_transaction = Some (''0x'' @ replicate 64 CHR ''b''), cv_nextAt = Some 1700000000000\<rparr>"

lemma demo_view_shape: "view_shape demo_view"
  by (simp add: view_shape_def demo_view_def is_decimal_def hex_literal_def char_class_defs instant_def isSafeInteger_def MAX_SAFE_INTEGER_def)

theorem parsers_return_promised_shapes_witness:
  "\<exists>c. parseFaucetClaimView (claim_view_json demo_view) (Some (cv_kind demo_view)) = Inr c \<and> view_shape c"
  using parse_view_print [OF demo_view_shape] parsers_return_promised_shapes [of "claim_view_json demo_view"] by blast

end
