(* ===== verification/Faucet_Service.thy ===== *)
theory Faucet_Service
  imports Faucet_Policy "HOL-Library.Word"
begin

text \<open>
  The faucet's decisions (\<^verbatim>\<open>apps/faucet/claims.ts\<close>): whether, what and how much to send, the
  broadcast under its mutex, the reconciler and the request boundary.

  Everything the code awaits is an argument: the chain's and the signer's answers, each a value or
  a thrown error, the clock's readings, and what the other requests wrote to the ledger during the
  \<open>n\<close>-th await. The state is the ledger, the cached balance and, as a record of what was done, every
  transaction handed to the node for a claim with the ledger at that moment; the fillers of nonce
  gaps belong to no claim, and the reconciler returns them apart.
\<close>

section \<open>Constants and the injected parts\<close>

definition MINT_GAS :: int where "MINT_GAS = 100000"

definition TRANSFER_GAS :: int where "TRANSFER_GAS = 50000"

definition FILL_GAS :: int where "FILL_GAS = 21000"

definition MAX_FEE_PER_GAS :: int where "MAX_FEE_PER_GAS = 50000000"

definition PRIORITY_FEE_PER_GAS :: int where "PRIORITY_FEE_PER_GAS = 1000000"

definition STALE_RESERVATION_MS :: int where "STALE_RESERVATION_MS = 120000"

definition REBROADCAST_AFTER_MS :: int where "REBROADCAST_AFTER_MS = 120000"

definition LEDGER_RETENTION_MS :: int where "LEDGER_RETENTION_MS = 30 * 24 * 60 * 60 * 1000"

definition STATUS_TTL_MS :: int where "STATUS_TTL_MS = 15000"

datatype BroadcastResult = NodeAccepted | NodeRejected

datatype ReceiptStatus = ReceiptSuccess | ReceiptReverted

record FaucetTransaction =
  ftx_to :: string
  ftx_data :: "string option"
  ftx_value :: int
  ftx_gas :: int
  ftx_nonce :: int
  ftx_maxFeePerGas :: int
  ftx_maxPriorityFeePerGas :: int

record FaucetConfig =
  cfg_enabled :: bool
  cfg_ethMissions :: "FaucetMissionId list"
  cfg_ethDailyWei :: int
  cfg_minBalanceWei :: int
  cfg_verifiers :: "FaucetMissionId \<Rightarrow> (string \<Rightarrow> bool result) option"

text \<open>The configuration with the library's functions the code calls: the checksum spelling of an
  address, the hash, the encoding of a mint call, and the addresses of the wallet and the token.\<close>

record faucet_fixed =
  fx_config :: FaucetConfig
  fx_getAddress :: "string \<Rightarrow> string"
  fx_keccak256 :: "string \<Rightarrow> string"
  fx_encodeMint :: "string \<Rightarrow> int \<Rightarrow> string"
  fx_signer :: string
  fx_token :: string

text \<open>What one claim request meets.\<close>

record claim_turns =
  ev_now :: "nat \<Rightarrow> int"
  ev_turn :: "nat \<Rightarrow> faucet_db \<Rightarrow> faucet_db"
  ev_uuid :: string
  ev_payer :: "string \<Rightarrow> string result"
  ev_code :: "string \<Rightarrow> string option result"
  ev_tokenBalance :: "string \<Rightarrow> int result"
  ev_balance :: "string \<Rightarrow> int result"
  ev_baseFee :: "int option result"
  ev_pending :: "int result"
  ev_sign :: "FaucetTransaction \<Rightarrow> string result"
  ev_sendRaw :: "string \<Rightarrow> BroadcastResult result"
  ev_wait :: "string \<Rightarrow> ReceiptStatus option result"

record ClaimRequest =
  cr_kind :: FaucetKind
  cr_owner :: string
  cr_ipKey :: string
  cr_subnetKey :: string
  cr_missions :: "string list"

datatype ClaimOutcome = ClaimOk FaucetClaimView | ClaimRefused FaucetRefusal int "int option"

record faucet_state =
  fs_db :: faucet_db
  fs_cache :: "(int \<times> int option) option"
  fs_sent :: "(string \<times> faucet_db) list"

section \<open>Refusals and limits\<close>

definition STATUS :: "FaucetRefusal \<Rightarrow> int" where
  "STATUS r = (case r of FaucetOff \<Rightarrow> 503 | LoginRequired \<Rightarrow> 403 | MissionIncomplete \<Rightarrow> 403 | TurnstileFailed \<Rightarrow> 403
     | RateLimitedClaim \<Rightarrow> 429 | CooldownClaim \<Rightarrow> 429 | NotEligible \<Rightarrow> 403 | EligibilityUnavailable \<Rightarrow> 503
     | BudgetExhaustedClaim \<Rightarrow> 503 | FaucetEmpty \<Rightarrow> 503 | FeeTooHigh \<Rightarrow> 503 | MalformedRequest \<Rightarrow> 400 | Unavailable \<Rightarrow> 503)"

definition refuse :: "FaucetRefusal \<Rightarrow> int option \<Rightarrow> ClaimOutcome" where
  "refuse r nextAt = ClaimRefused r (STATUS r) nextAt"

definition kindOn :: "faucet_fixed \<Rightarrow> FaucetKind \<Rightarrow> bool" where
  "kindOn fx k \<longleftrightarrow> cfg_enabled (fx_config fx) \<and> (k = Musdc \<or> cfg_ethMissions (fx_config fx) \<noteq> [])"

definition missionsOf :: "faucet_fixed \<Rightarrow> FaucetKind \<Rightarrow> FaucetMissionId list" where
  "missionsOf fx k = (case k of Musdc \<Rightarrow> FAUCET_MUSDC_MISSIONS | Eth \<Rightarrow> cfg_ethMissions (fx_config fx))"

definition windowOf :: "FaucetKind \<Rightarrow> int" where
  "windowOf k = (case k of Musdc \<Rightarrow> FAUCET_WINDOW_MS | Eth \<Rightarrow> FAUCET_ETH_WINDOW_MS)"

definition limitsOf :: "faucet_fixed \<Rightarrow> FaucetKind \<Rightarrow> FaucetReserveLimits" where
  "limitsOf fx k = (case FAUCET_LIMITS k of (ip, net, per_day) \<Rightarrow>
     \<lparr>fl_windowMs = windowOf k, fl_dayMs = FAUCET_LIMIT_WINDOW_MS, fl_perIp = ip, fl_perSubnet = net, fl_perDay = per_day,
      fl_dailyAmount = (if k = Eth then Some (cfg_ethDailyWei (fx_config fx)) else None)\<rparr>)"

definition need :: "faucet_fixed \<Rightarrow> FaucetKind \<Rightarrow> int" where
  "need fx k = (case k of Musdc \<Rightarrow> MINT_GAS * MAX_FEE_PER_GAS
     | Eth \<Rightarrow> cfg_minBalanceWei (fx_config fx) + FAUCET_ETH_AMOUNT_WEI + TRANSFER_GAS * MAX_FEE_PER_GAS)"

text \<open>The check at construction: every verified mission has its verifier.\<close>

definition createFaucet_checks :: "faucet_fixed \<Rightarrow> unit result" where
  "createFaucet_checks fx =
     (case find (\<lambda>m. FAUCET_MISSIONS m = Verified \<and> cfg_verifiers (fx_config fx) m = None)
         (FAUCET_MUSDC_MISSIONS @ cfg_ethMissions (fx_config fx)) of
        None \<Rightarrow> Inr ()
      | Some m \<Rightarrow> Inl (Error (''mission '' @ mission_text m @ '' is verified but has no verifier'')))"

section \<open>Views, status and account\<close>

definition view_state :: "FaucetClaimState \<Rightarrow> claim_view_state" where
  "view_state st = (case st of StConfirmed \<Rightarrow> Confirmed | StFailed \<Rightarrow> Failed | StSkipped \<Rightarrow> AlreadyEnough | _ \<Rightarrow> Pending)"

definition claim_view :: "faucet_fixed \<Rightarrow> int \<Rightarrow> FaucetClaimRow \<Rightarrow> FaucetClaimView" where
  "claim_view fx at_ms row =
     (let state = view_state (fc_state row); nextAt = fc_created_at row + windowOf (fc_kind row) in
      \<lparr>cv_kind = fc_kind row, cv_state = state, cv_amount = fc_amount row, cv_recipient = fx_getAddress fx (fc_recipient row),
       cv_transaction = (case fc_tx_hash row of None \<Rightarrow> None | Some h \<Rightarrow> if h = [] then None else Some h),
       cv_nextAt = (if (state = Pending \<or> state = Confirmed) \<and> at_ms < nextAt then Some nextAt else None)\<rparr>)"

text \<open>The balance read, at most once an interval; a failed read is cached too.\<close>

definition faucetBalance :: "faucet_state \<Rightarrow> int \<Rightarrow> int result \<Rightarrow> int option \<times> faucet_state" where
  "faucetBalance st at_ms answer =
     (case fs_cache st of
        Some (t, balance) \<Rightarrow>
          if at_ms - t < STATUS_TTL_MS then (balance, st)
          else let b = (case answer of Inr v \<Rightarrow> Some v | Inl _ \<Rightarrow> None) in (b, st\<lparr>fs_cache := Some (at_ms, b)\<rparr>)
      | None \<Rightarrow> let b = (case answer of Inr v \<Rightarrow> Some v | Inl _ \<Rightarrow> None) in (b, st\<lparr>fs_cache := Some (at_ms, b)\<rparr>))"

definition faucet_status :: "faucet_fixed \<Rightarrow> faucet_state \<Rightarrow> int \<Rightarrow> int result \<Rightarrow> FaucetStatus \<times> faucet_state" where
  "faucet_status fx st at_ms answer =
     (case faucetBalance st at_ms answer of (balance, st') \<Rightarrow>
        let funded = (\<lambda>k. case balance of None \<Rightarrow> True | Some b \<Rightarrow> need fx k \<le> b) in
        (\<lparr>fst_musdc = \<lparr>ft_enabled = (kindOn fx Musdc \<and> funded Musdc), ft_amount = String FAUCET_TARGET_BASE,
             ft_windowMs = FAUCET_WINDOW_MS, ft_missions = FAUCET_MUSDC_MISSIONS\<rparr>,
          fst_eth = \<lparr>ft_enabled = (kindOn fx Eth \<and> funded Eth), ft_amount = String FAUCET_ETH_AMOUNT_WEI,
             ft_windowMs = FAUCET_ETH_WINDOW_MS, ft_missions = cfg_ethMissions (fx_config fx)\<rparr>\<rparr>, st'))"

definition faucet_account ::
    "faucet_fixed \<Rightarrow> faucet_db \<Rightarrow> int \<Rightarrow> (string \<Rightarrow> string result) \<Rightarrow> string \<Rightarrow> FaucetAccount result" where
  "faucet_account fx db at_ms payer own =
     ebind (payer own) (\<lambda>p. Inr \<lparr>fa_owner = fx_getAddress fx own, fa_recipient_musdc = p, fa_recipient_eth = fx_getAddress fx own,
       fa_musdc = map_option (claim_view fx at_ms) (latest db Musdc (toLowerCase own)),
       fa_eth = map_option (claim_view fx at_ms) (latest db Eth (toLowerCase own))\<rparr>)"

section \<open>Eligibility and amount\<close>

fun verify_missions :: "faucet_fixed \<Rightarrow> string \<Rightarrow> FaucetMissionId list \<Rightarrow> FaucetRefusal option" where
  "verify_missions fx own [] = None"
| "verify_missions fx own (m # ms) =
     (if FAUCET_MISSIONS m \<noteq> Verified then verify_missions fx own ms
      else (case cfg_verifiers (fx_config fx) m of
        None \<Rightarrow> Some EligibilityUnavailable
      | Some verifier \<Rightarrow> (case verifier own of
          Inl _ \<Rightarrow> Some EligibilityUnavailable
        | Inr ok \<Rightarrow> if ok then verify_missions fx own ms else Some MissionIncomplete)))"

text \<open>\<^verbatim>\<open>/^0xef0100[0-9a-fA-F]{40}$/\<close>.\<close>

definition delegated_eoa :: "string \<Rightarrow> bool" where
  "delegated_eoa c \<longleftrightarrow> take 8 c = ''0xef0100'' \<and> length c = 48 \<and> list_all is_hex (drop 8 c)"

definition eligibility :: "faucet_fixed \<Rightarrow> claim_turns \<Rightarrow> FaucetKind \<Rightarrow> string \<Rightarrow> FaucetRefusal option" where
  "eligibility fx ev k own =
     (case verify_missions fx own (missionsOf fx k) of
        Some r \<Rightarrow> Some r
      | None \<Rightarrow>
          if k \<noteq> Eth then None
          else (case ev_code ev own of
            Inl _ \<Rightarrow> Some EligibilityUnavailable
          | Inr None \<Rightarrow> None
          | Inr (Some c) \<Rightarrow> if c = [] \<or> c = ''0x'' \<or> delegated_eoa c then None else Some NotEligible))"

definition plan :: "claim_turns \<Rightarrow> FaucetKind \<Rightarrow> string \<Rightarrow> int result" where
  "plan ev k recipient = (case k of
     Musdc \<Rightarrow> ebind (ev_tokenBalance ev recipient) (\<lambda>b. planTopUp b FAUCET_TARGET_BASE)
   | Eth \<Rightarrow> ebind (ev_balance ev recipient) (\<lambda>b. Inr (if FAUCET_ETH_AMOUNT_WEI \<le> b then 0 else FAUCET_ETH_AMOUNT_WEI)))"

definition affordable :: "faucet_fixed \<Rightarrow> claim_turns \<Rightarrow> FaucetKind \<Rightarrow> faucet_db \<Rightarrow> FaucetRefusal option result" where
  "affordable fx ev k db =
     ebind (ev_balance ev (fx_signer fx)) (\<lambda>balance.
     ebind (ev_baseFee ev) (\<lambda>fee. Inr (case fee of
        None \<Rightarrow> Some Unavailable
      | Some f \<Rightarrow>
          if MAX_FEE_PER_GAS < f then Some FeeTooHigh
          else if balance - fst (faucet_inflight db) - snd (faucet_inflight db) * MINT_GAS * MAX_FEE_PER_GAS < need fx k
          then Some FaucetEmpty
          else None)))"

section \<open>The broadcast\<close>

datatype broadcast_end = SentAs string | Stopped ClaimOutcome

definition claim_tx :: "faucet_fixed \<Rightarrow> FaucetKind \<Rightarrow> string \<Rightarrow> int \<Rightarrow> int \<Rightarrow> FaucetTransaction" where
  "claim_tx fx k recipient v nonce = (case k of
     Musdc \<Rightarrow> \<lparr>ftx_to = fx_token fx, ftx_data = Some (fx_encodeMint fx recipient v), ftx_value = 0, ftx_gas = MINT_GAS,
       ftx_nonce = nonce, ftx_maxFeePerGas = MAX_FEE_PER_GAS, ftx_maxPriorityFeePerGas = PRIORITY_FEE_PER_GAS\<rparr>
   | Eth \<Rightarrow> \<lparr>ftx_to = recipient, ftx_data = None, ftx_value = v, ftx_gas = TRANSFER_GAS,
       ftx_nonce = nonce, ftx_maxFeePerGas = MAX_FEE_PER_GAS, ftx_maxPriorityFeePerGas = PRIORITY_FEE_PER_GAS\<rparr>)"

definition take_turn :: "claim_turns \<Rightarrow> nat \<Rightarrow> faucet_state \<Rightarrow> faucet_state" where
  "take_turn ev n st = st\<lparr>fs_db := ev_turn ev n (fs_db st)\<rparr>"

definition with_db :: "(faucet_db \<Rightarrow> bool \<times> faucet_db) \<Rightarrow> faucet_state \<Rightarrow> faucet_state" where
  "with_db f st = st\<lparr>fs_db := snd (f (fs_db st))\<rparr>"

definition signed_as :: "faucet_fixed \<Rightarrow> int \<Rightarrow> int \<Rightarrow> string \<Rightarrow> signed_claim" where
  "signed_as fx v nonce raw = \<lparr>sg_amount = v, sg_nonce = nonce, sg_txHash = toLowerCase (fx_keccak256 fx raw), sg_rawTx = toLowerCase raw\<rparr>"

text \<open>Signing, persisting and sending, from the pending count on.\<close>

definition sign_and_send ::
    "faucet_fixed \<Rightarrow> claim_turns \<Rightarrow> faucet_state \<Rightarrow> string \<Rightarrow> FaucetKind \<Rightarrow> string \<Rightarrow> int \<Rightarrow> int
      \<Rightarrow> broadcast_end result \<times> faucet_state" where
  "sign_and_send fx ev st i k recipient v nonce =
     (let st3 = take_turn ev 5 st in
      case ev_sign ev (claim_tx fx k recipient v nonce) of
        Inl e \<Rightarrow> (Inl e, st3)
      | Inr raw \<Rightarrow> (case markSigned (fs_db st3) i (signed_as fx v nonce raw) (ev_now ev 4) of
          Inl e \<Rightarrow> (Inl e, st3)
        | Inr (ok, db) \<Rightarrow>
            if \<not> ok then (Inr (Stopped (ClaimRefused Unavailable 503 None)), st3\<lparr>fs_db := db\<rparr>)
            else let st4 = take_turn ev 6 (st3\<lparr>fs_db := db, fs_sent := (raw, db) # fs_sent st3\<rparr>) in
              (case ev_sendRaw ev raw of
                 Inl _ \<Rightarrow> (Inr (SentAs (fx_keccak256 fx raw)), st4)
               | Inr NodeRejected \<Rightarrow>
                   (Inl (Error ''the node rejected the transaction''), with_db (\<lambda>d. markFailed d i (ev_now ev 5)) st4)
               | Inr NodeAccepted \<Rightarrow>
                   (Inr (SentAs (fx_keccak256 fx raw)), with_db (\<lambda>d. markSent d i (ev_now ev 5)) st4))))"

definition broadcast ::
    "faucet_fixed \<Rightarrow> claim_turns \<Rightarrow> faucet_state \<Rightarrow> string \<Rightarrow> FaucetKind \<Rightarrow> string \<Rightarrow> int \<Rightarrow> broadcast_end result \<times> faucet_state" where
  "broadcast fx ev st i k recipient v =
     (let st1 = take_turn ev 3 st in
      case affordable fx ev k (fs_db st1) of
        Inl e \<Rightarrow> (Inl e, st1)
      | Inr (Some r) \<Rightarrow>
          (Inr (Stopped (refuse r None)),
           with_db (\<lambda>d. markFailed d i (ev_now ev 3)) (if r = FaucetEmpty then st1\<lparr>fs_cache := None\<rparr> else st1))
      | Inr None \<Rightarrow>
          let st2 = take_turn ev 4 st1 in
          (case ev_pending ev of
             Inl e \<Rightarrow> (Inl e, st2)
           | Inr pending \<Rightarrow> sign_and_send fx ev st2 i k recipient v (max pending (faucet_nextNonce (fs_db st2)))))"

section \<open>A claim\<close>

definition view_of :: "faucet_fixed \<Rightarrow> int \<Rightarrow> faucet_db \<Rightarrow> string \<Rightarrow> ClaimOutcome result" where
  "view_of fx at_ms db i = (case claim_by_id db i of
     None \<Rightarrow> Inl (TypeError ''undefined is not an object'') | Some row \<Rightarrow> Inr (ClaimOk (claim_view fx at_ms row)))"

text \<open>The \<^verbatim>\<open>catch\<close> after planning and broadcasting: only an unsigned claim is failed here.\<close>

definition claim_caught :: "faucet_fixed \<Rightarrow> claim_turns \<Rightarrow> faucet_state \<Rightarrow> string \<Rightarrow> ClaimOutcome result \<times> faucet_state" where
  "claim_caught fx ev st i =
     (let st' = (if map_option fc_state (claim_by_id (fs_db st) i) = Some StReserved
                 then with_db (\<lambda>d. markFailed d i (ev_now ev 6)) st else st) in
      (if map_option fc_state (claim_by_id (fs_db st') i) = Some StFailed then Inr (refuse Unavailable None)
       else view_of fx (ev_now ev 7) (fs_db st') i, st'))"

definition await_receipt :: "claim_turns \<Rightarrow> faucet_state \<Rightarrow> string \<Rightarrow> string \<Rightarrow> faucet_state" where
  "await_receipt ev st i h =
     (let st' = take_turn ev 7 st in
      case ev_wait ev h of
        Inr (Some ReceiptSuccess) \<Rightarrow> with_db (\<lambda>d. markConfirmed d i (ev_now ev 8)) st'
      | Inr (Some ReceiptReverted) \<Rightarrow> with_db (\<lambda>d. markFailed d i (ev_now ev 8)) st'
      | _ \<Rightarrow> st')"

definition pay :: "faucet_fixed \<Rightarrow> claim_turns \<Rightarrow> faucet_state \<Rightarrow> string \<Rightarrow> FaucetKind \<Rightarrow> string
      \<Rightarrow> ClaimOutcome result \<times> faucet_state" where
  "pay fx ev st i k recipient =
     (let st2 = take_turn ev 2 st in
      case plan ev k recipient of
        Inl _ \<Rightarrow> claim_caught fx ev st2 i
      | Inr v \<Rightarrow>
          if v = 0 then let st3 = with_db (\<lambda>d. markSkipped d i (ev_now ev 2)) st2 in (view_of fx (ev_now ev 9) (fs_db st3) i, st3)
          else (case broadcast fx ev st2 i k recipient v of
            (Inl _, st3) \<Rightarrow> claim_caught fx ev st3 i
          | (Inr (Stopped out), st3) \<Rightarrow> (Inr out, st3)
          | (Inr (SentAs h), st3) \<Rightarrow> let st4 = await_receipt ev st3 i h in (view_of fx (ev_now ev 9) (fs_db st4) i, st4)))"

definition admissionRefusal :: "FaucetRefused \<Rightarrow> ClaimOutcome" where
  "admissionRefusal r = (case r of Cooldown nextAt \<Rightarrow> refuse CooldownClaim (Some nextAt)
     | RateLimited \<Rightarrow> refuse RateLimitedClaim None | BudgetExhausted \<Rightarrow> refuse BudgetExhaustedClaim None)"

definition reserve_input :: "ClaimRequest \<Rightarrow> string \<Rightarrow> string \<Rightarrow> FaucetReserveInput" where
  "reserve_input req own recipient = \<lparr>fi_kind = cr_kind req, fi_owner = toLowerCase own, fi_recipient = toLowerCase recipient,
     fi_ipKey = cr_ipKey req, fi_subnetKey = cr_subnetKey req,
     fi_amount = (if cr_kind req = Eth then FAUCET_ETH_AMOUNT_WEI else 0)\<rparr>"

text \<open>From the reservation on, and the whole decision.\<close>

definition reserve_and_pay :: "faucet_fixed \<Rightarrow> claim_turns \<Rightarrow> faucet_state \<Rightarrow> FaucetReserveInput \<Rightarrow> string
      \<Rightarrow> ClaimOutcome result \<times> faucet_state" where
  "reserve_and_pay fx ev st input recipient =
     (case faucet_reserve (fs_db st) (ev_uuid ev) input (ev_now ev 1) (limitsOf fx (fi_kind input)) of
        Inl e \<Rightarrow> (Inl e, st)
      | Inr (NotReserved r, db) \<Rightarrow> (Inr (admissionRefusal r), st\<lparr>fs_db := db\<rparr>)
      | Inr (ReservedClaim c created, db) \<Rightarrow>
          if \<not> created then (Inr (ClaimOk (claim_view fx (ev_now ev 9) c)), st\<lparr>fs_db := db\<rparr>)
          else pay fx ev (st\<lparr>fs_db := db\<rparr>) (fc_id c) (fi_kind input) recipient)"

definition admit :: "faucet_fixed \<Rightarrow> claim_turns \<Rightarrow> faucet_state \<Rightarrow> FaucetReserveInput \<Rightarrow> string \<Rightarrow> string
      \<Rightarrow> ClaimOutcome result \<times> faucet_state" where
  "admit fx ev st input own recipient =
     (case faucet_admission (fs_db st) input (ev_now ev 0) (limitsOf fx (fi_kind input)) of
        Inl e \<Rightarrow> (Inl e, st)
      | Inr (Some (Inflight c)) \<Rightarrow> (Inr (ClaimOk (claim_view fx (ev_now ev 9) c)), st)
      | Inr (Some (Refused r)) \<Rightarrow> (Inr (admissionRefusal r), st)
      | Inr None \<Rightarrow>
          let st1 = take_turn ev 1 st in
          (case eligibility fx ev (fi_kind input) own of
             Some r \<Rightarrow> (Inr (refuse r None), st1)
           | None \<Rightarrow> reserve_and_pay fx ev st1 input recipient))"

definition decide :: "faucet_fixed \<Rightarrow> claim_turns \<Rightarrow> faucet_state \<Rightarrow> ClaimRequest \<Rightarrow> ClaimOutcome result \<times> faucet_state" where
  "decide fx ev st req =
     (if \<not> kindOn fx (cr_kind req) then (Inr (refuse FaucetOff None), st)
      else if \<not> list_all (\<lambda>m. mission_text m \<in> set (cr_missions req)) (missionsOf fx (cr_kind req))
      then (Inr (refuse MissionIncomplete None), st)
      else let own = fx_getAddress fx (cr_owner req) in
        (case cr_kind req of
           Eth \<Rightarrow> admit fx ev st (reserve_input req own own) own own
         | Musdc \<Rightarrow> (case ev_payer ev own of
             Inl e \<Rightarrow> (Inl e, take_turn ev 0 st)
           | Inr recipient \<Rightarrow> admit fx ev (take_turn ev 0 st) (reserve_input req own recipient) own recipient)))"

definition claim :: "faucet_fixed \<Rightarrow> claim_turns \<Rightarrow> faucet_state \<Rightarrow> ClaimRequest \<Rightarrow> ClaimOutcome result \<times> faucet_state" where
  "claim fx ev st req =
     (case decide fx ev st req of
        (Inr (ClaimRefused r status nextAt), st') \<Rightarrow>
          (Inr (ClaimRefused r status nextAt),
           (case countRefusal (fs_db st') (cr_kind req) (refusal_text r) (ev_now ev 10) of
              Inl _ \<Rightarrow> st' | Inr db \<Rightarrow> st'\<lparr>fs_db := db\<rparr>))
      | (out, st') \<Rightarrow> (out, st'))"

section \<open>The reconciler\<close>

text \<open>What one run of the reconciler meets: the answers for a row by its identifier, the receipt by
  the number of the read, and what the other requests wrote during the \<open>n\<close>-th await for that row.\<close>

record reconcile_turns =
  rc_at :: int
  rc_now :: "string \<Rightarrow> int"
  rc_turn :: "string \<Rightarrow> nat \<Rightarrow> faucet_db \<Rightarrow> faucet_db"
  rc_receipt :: "nat \<Rightarrow> string \<Rightarrow> ReceiptStatus option result"
  rc_latest :: "string \<Rightarrow> int result"
  rc_sendRaw :: "string \<Rightarrow> BroadcastResult result"

definition rc_take :: "reconcile_turns \<Rightarrow> string \<Rightarrow> nat \<Rightarrow> faucet_state \<Rightarrow> faucet_state" where
  "rc_take rc i n st = st\<lparr>fs_db := rc_turn rc i n (fs_db st)\<rparr>"

definition finish_claim :: "reconcile_turns \<Rightarrow> string \<Rightarrow> bool \<Rightarrow> faucet_state \<Rightarrow> faucet_state" where
  "finish_claim rc i success st =
     with_db (\<lambda>d. if success then markConfirmed d i (rc_now rc i) else markFailed d i (rc_now rc i)) st"

text \<open>Reading the receipt once more decides; a read that throws leaves the row for the next run.\<close>

definition read_again :: "reconcile_turns \<Rightarrow> FaucetClaimRow \<Rightarrow> nat \<Rightarrow> faucet_state \<Rightarrow> faucet_state" where
  "read_again rc row n st =
     (let i = fc_id row; st' = rc_take rc i n st in
      case rc_receipt rc n (the (fc_tx_hash row)) of
        Inl _ \<Rightarrow> st'
      | Inr r \<Rightarrow> finish_claim rc i (r = Some ReceiptSuccess) st')"

definition resend :: "reconcile_turns \<Rightarrow> FaucetClaimRow \<Rightarrow> faucet_state \<Rightarrow> faucet_state" where
  "resend rc row st =
     (let i = fc_id row; raw = the (fc_raw_tx row);
          st' = rc_take rc i 2 (st\<lparr>fs_sent := (raw, fs_db st) # fs_sent st\<rparr>) in
      case rc_sendRaw rc raw of
        Inl _ \<Rightarrow> st'
      | Inr NodeAccepted \<Rightarrow> with_db (\<lambda>d. markSent d i (rc_now rc i)) st'
      | Inr NodeRejected \<Rightarrow> read_again rc row 3 st')"

text \<open>One row; \<open>mined\<close> is the mined nonce once some row has read it.\<close>

definition reconcile_row ::
    "reconcile_turns \<Rightarrow> FaucetClaimRow \<Rightarrow> int option \<times> faucet_state \<Rightarrow> int option \<times> faucet_state" where
  "reconcile_row rc row acc =
     (case acc of (mined, st) \<Rightarrow>
        let i = fc_id row in
        if fc_state row = StReserved
        then (mined, if STALE_RESERVATION_MS < rc_at rc - fc_created_at row
          then with_db (\<lambda>d. markFailed d i (rc_at rc)) st else st)
        else let st1 = rc_take rc i 0 st in
          (case rc_receipt rc 0 (the (fc_tx_hash row)) of
             Inl _ \<Rightarrow> (mined, st1)
           | Inr (Some r) \<Rightarrow> (mined, finish_claim rc i (r = ReceiptSuccess) st1)
           | Inr None \<Rightarrow>
               (case (case mined of Some m \<Rightarrow> Inr m | None \<Rightarrow> rc_latest rc i) of
                  Inl _ \<Rightarrow> (None, rc_take rc i 1 st1)
                | Inr m \<Rightarrow>
                    let st2 = (if mined = None then rc_take rc i 1 st1 else st1) in
                    (Some m,
                     if the (fc_nonce row) < m then read_again rc row 4 st2
                     else if rc_at rc - fc_updated_at row < REBROADCAST_AFTER_MS then st2
                     else resend rc row st2))))"

fun reconcile_rows ::
    "reconcile_turns \<Rightarrow> FaucetClaimRow list \<Rightarrow> int option \<times> faucet_state \<Rightarrow> int option \<times> faucet_state" where
  "reconcile_rows rc [] acc = acc"
| "reconcile_rows rc (row # rows) acc = reconcile_rows rc rows (reconcile_row rc row acc)"

text \<open>Filling gaps: the loop counts from the pending nonce up to the highest one in flight. What it
  sends is collected, oldest first.\<close>

definition fill_tx :: "faucet_fixed \<Rightarrow> int \<Rightarrow> FaucetTransaction" where
  "fill_tx fx nonce = \<lparr>ftx_to = fx_signer fx, ftx_data = None, ftx_value = 0, ftx_gas = FILL_GAS, ftx_nonce = nonce,
     ftx_maxFeePerGas = MAX_FEE_PER_GAS, ftx_maxPriorityFeePerGas = PRIORITY_FEE_PER_GAS\<rparr>"

type_synonym node = "(FaucetTransaction \<Rightarrow> string result) \<times> (string \<Rightarrow> BroadcastResult result)"

function fill_from :: "faucet_fixed \<Rightarrow> node \<Rightarrow> int set \<Rightarrow> int \<Rightarrow> int \<Rightarrow> unit result \<times> FaucetTransaction list" where
  "fill_from fx nd taken highest nonce =
     (if highest \<le> nonce then (Inr (), [])
      else if nonce \<in> taken then fill_from fx nd taken highest (nonce + 1)
      else (case fst nd (fill_tx fx nonce) of
        Inl e \<Rightarrow> (Inl e, [])
      | Inr raw \<Rightarrow> (case snd nd raw of
          Inl e \<Rightarrow> (Inl e, [fill_tx fx nonce])
        | Inr NodeRejected \<Rightarrow> (Inr (), [fill_tx fx nonce])
        | Inr NodeAccepted \<Rightarrow> (case fill_from fx nd taken highest (nonce + 1) of (r, txs) \<Rightarrow> (r, fill_tx fx nonce # txs)))))"
  by pat_completeness auto
termination
  by (relation "measure (\<lambda>(fx, nd, taken, highest, nonce). nat (highest - nonce))") auto

declare fill_from.simps [simp del]

definition held_nonces :: "faucet_db \<Rightarrow> int list" where
  "held_nonces db = List.map_filter (\<lambda>r. if fc_state r = StReserved then None else fc_nonce r) (faucet_unsettled db)"

definition fillGaps :: "faucet_fixed \<Rightarrow> node \<Rightarrow> int result \<Rightarrow> faucet_db \<Rightarrow> unit result \<times> FaucetTransaction list" where
  "fillGaps fx nd pending db = (case held_nonces db of
     [] \<Rightarrow> (Inr (), [])
   | n # ns \<Rightarrow> (case pending of
       Inl e \<Rightarrow> (Inl e, [])
     | Inr p \<Rightarrow> fill_from fx nd (set (n # ns)) (foldr max ns n) p))"

definition reconcile ::
    "faucet_fixed \<Rightarrow> reconcile_turns \<Rightarrow> node \<Rightarrow> int result \<Rightarrow> faucet_state \<Rightarrow> (unit result \<times> FaucetTransaction list) \<times> faucet_state" where
  "reconcile fx rc nd pending st =
     (let st0 = st\<lparr>fs_db := snd (faucet_prune (fs_db st) (rc_at rc - LEDGER_RETENTION_MS))\<rparr>;
          rows = faucet_unsettled (fs_db st0) in
      if rows = [] then ((Inr (), []), st0)
      else let st1 = rc_take rc '''' 5 (snd (reconcile_rows rc rows (None, st0))) in
        (fillGaps fx nd pending (fs_db st1), st1))"

section \<open>The request boundary\<close>

definition mission_id_text :: "string \<Rightarrow> bool" where
  "mission_id_text s \<longleftrightarrow> s \<noteq> [] \<and> length s \<le> 64 \<and> list_all (\<lambda>c. is_lower c \<or> is_digit c \<or> c = CHR ''_'') s"

fun mission_texts :: "js list \<Rightarrow> string list option" where
  "mission_texts [] = Some []"
| "mission_texts (JString s # vs) = (if mission_id_text s then map_option ((#) s) (mission_texts vs) else None)"
| "mission_texts (_ # vs) = None"

definition parseClaimRequest :: "faucet_fixed \<Rightarrow> js \<Rightarrow> ClaimRequest option" where
  "parseClaimRequest fx v =
     (case (js_record v, included kind_text FAUCET_KINDS (js_get v ''kind''), js_hex 40 (js_get v ''owner''),
            js_get v ''ipKey'', js_get v ''subnetKey'', js_get v ''missions'') of
        (True, Some k, Some own, JString ip, JString net, JArray ms) \<Rightarrow>
          if network_key ip \<and> network_key net \<and> length ms \<le> 16
          then map_option (\<lambda>texts. \<lparr>cr_kind = k, cr_owner = fx_getAddress fx own, cr_ipKey = ip, cr_subnetKey = net, cr_missions = texts\<rparr>)
            (mission_texts ms)
          else None
      | _ \<Rightarrow> None)"

text \<open>The constant-time comparison of two digests, byte by byte of the expected one.\<close>

definition difference :: "8 word list \<Rightarrow> 8 word list \<Rightarrow> 8 word" where
  "difference given expected = foldl (\<lambda>d (g, e). or d (xor g e)) 0 (zip given expected)"

definition bearerMatches :: "(string \<Rightarrow> 8 word list) \<Rightarrow> string option \<Rightarrow> string \<Rightarrow> bool" where
  "bearerMatches sha256 header token = (case header of
     None \<Rightarrow> False
   | Some h \<Rightarrow> starts_with ''Bearer '' h \<and> difference (sha256 (drop 7 h)) (sha256 token) = 0)"

section \<open>The service keeps to the ledger's rules\<close>

text \<open>
  What the other requests may write while this one awaits: any step of the ledger, except under
  this request's random identifier; and inside the mutex (awaits 4 to 6) nothing is signed.
\<close>

definition others :: "(faucet_db \<Rightarrow> faucet_db \<Rightarrow> bool) \<Rightarrow> string \<Rightarrow> faucet_db \<Rightarrow> faucet_db \<Rightarrow> bool" where
  "others R i db db' \<longleftrightarrow> R db db' \<and> (claim_by_id db i = None \<longrightarrow> claim_by_id db' i = None)"

definition in_mutex :: "nat \<Rightarrow> bool" where
  "in_mutex n \<longleftrightarrow> n \<in> {4, 5, 6}"

definition fair_turns :: "faucet_fixed \<Rightarrow> claim_turns \<Rightarrow> bool" where
  "fair_turns fx ev \<longleftrightarrow> (\<forall>n db. (others (if in_mutex n then quiet_step (limitsOf fx) else ledger_step (limitsOf fx)) (ev_uuid ev))\<^sup>*\<^sup>*
     db (ev_turn ev n db))"

definition fair_reconcile :: "faucet_fixed \<Rightarrow> reconcile_turns \<Rightarrow> bool" where
  "fair_reconcile fx rc \<longleftrightarrow> (\<forall>i n db. (ledger_step (limitsOf fx))\<^sup>*\<^sup>* db (rc_turn rc i n db))"

abbreviation leads :: "faucet_fixed \<Rightarrow> faucet_db \<Rightarrow> faucet_db \<Rightarrow> bool" where
  "leads fx \<equiv> (ledger_step (limitsOf fx))\<^sup>*\<^sup>*"

text \<open>The one reserved row under an identifier.\<close>

definition only_reserved :: "string \<Rightarrow> FaucetClaimRow \<Rightarrow> faucet_db \<Rightarrow> bool" where
  "only_reserved i row db \<longleftrightarrow> (\<forall>r \<in> set (fd_claims db). fc_id r = i \<and> fc_state r = StReserved \<longrightarrow> r = row)"

lemma step_reserved:
  assumes "ledger_step lims db db'" "r \<in> set (fd_claims db')" "fc_state r = StReserved"
  shows "r \<in> set (fd_claims db) \<or> claim_by_id db (fc_id r) = None"
  using assms(1)
proof cases
  case do_write
  from do_write assms(2,3) show ?thesis
  proof (induction rule: claim_write.induct)
    case (do_reserve db uuid input now res db')
    from do_reserve(1) show ?case
      by (cases rule: faucet_reserveE) (use do_reserve(2,3) in \<open>auto simp: claim_row_def\<close>)
  next
    case (do_sign db i sg now b db')
    then have db': "db' = snd (transition db i {StReserved} StSigned now (write_signed sg))"
      by (auto simp: markSigned_def result_simps)
    show ?case using do_sign(4,5) unfolding db' by (auto simp: set_update_where)
  qed (auto simp: markSent_def markConfirmed_def markFailed_def markSkipped_def set_update_where)
next
  case (do_count k reason now)
  then show ?thesis using assms(2) countRefusal_claims by metis
next
  case (do_prune before)
  then show ?thesis using assms(2) by (auto simp: faucet_prune_def Let_def)
qed

lemma only_reserved_others:
  assumes "others R i db db'" "\<And>db db'. R db db' \<Longrightarrow> ledger_step lims db db'" "only_reserved i row db"
  shows "only_reserved i row db'"
  unfolding only_reserved_def
proof (intro ballI impI)
  fix r assume r: "r \<in> set (fd_claims db')" "fc_id r = i \<and> fc_state r = StReserved"
  have s: "ledger_step lims db db'" using assms(1,2) by (simp add: others_def)
  have "claim_by_id db' i \<noteq> None" using r by (auto simp: claim_by_id_def find_None_iff)
  then have "claim_by_id db (fc_id r) \<noteq> None" using assms(1) r(2) by (auto simp: others_def)
  then have "r \<in> set (fd_claims db)" using step_reserved [OF s r(1)] r(2) by auto
  then show "r = row" using assms(3) r(2) by (simp add: only_reserved_def)
qed

lemma turn_facts:
  assumes "fair_turns fx ev"
  shows "leads fx (fs_db st) (fs_db (take_turn ev n st))"
    and "in_mutex n \<Longrightarrow> (quiet_step (limitsOf fx))\<^sup>*\<^sup>* (fs_db st) (fs_db (take_turn ev n st))"
    and "only_reserved (ev_uuid ev) row (fs_db st) \<Longrightarrow> only_reserved (ev_uuid ev) row (fs_db (take_turn ev n st))"
proof -
  let ?R = "if in_mutex n then quiet_step (limitsOf fx) else ledger_step (limitsOf fx)"
  have steps: "(others ?R (ev_uuid ev))\<^sup>*\<^sup>* (fs_db st) (fs_db (take_turn ev n st))"
    using assms by (simp add: fair_turns_def take_turn_def)
  have sub: "?R a b \<Longrightarrow> ledger_step (limitsOf fx) a b" for a b using quiet_is_step by (auto split: if_splits)
  have R: "?R\<^sup>*\<^sup>* (fs_db st) (fs_db (take_turn ev n st))"
    using steps by (rule rtranclp_mono [THEN predicate2D, rotated]) (auto simp: others_def)
  then show "in_mutex n \<Longrightarrow> (quiet_step (limitsOf fx))\<^sup>*\<^sup>* (fs_db st) (fs_db (take_turn ev n st))" by simp
  show "leads fx (fs_db st) (fs_db (take_turn ev n st))"
    using R by (rule rtranclp_mono [THEN predicate2D, rotated]) (use sub in blast)
  show "only_reserved (ev_uuid ev) row (fs_db (take_turn ev n st))" if "only_reserved (ev_uuid ev) row (fs_db st)"
    using steps that by (induction rule: rtranclp_induct) (use only_reserved_others sub in blast)+
qed

lemma mark_leads:
  "leads fx (fs_db st) (fs_db (with_db (\<lambda>d. markFailed d i t) st))" "leads fx (fs_db st) (fs_db (with_db (\<lambda>d. markSent d i t) st))"
  "leads fx (fs_db st) (fs_db (with_db (\<lambda>d. markConfirmed d i t) st))" "leads fx (fs_db st) (fs_db (with_db (\<lambda>d. markSkipped d i t) st))"
  by (auto simp: with_db_def intro!: r_into_rtranclp ledger_step.do_write intro: claim_write.intros)

lemma leads_trans: "leads fx a b \<Longrightarrow> leads fx b c \<Longrightarrow> leads fx a c"
  by (rule rtranclp_trans)

text \<open>Signing takes a nonce no live claim has and, for ETH, spends what was reserved.\<close>

lemma sign_and_send_leads:
  assumes fair: "fair_turns fx ev" and i: "i = ev_uuid ev" and row: "only_reserved i row (fs_db st)"
    and v: "fl_dailyAmount (limitsOf fx (fc_kind row)) \<noteq> None \<longrightarrow> v \<le> BigInt (fc_amount row)"
    and nonce: "faucet_nextNonce (fs_db st) \<le> nonce"
  shows "leads fx (fs_db st) (fs_db (snd (sign_and_send fx ev st i k recipient v nonce)))"
proof -
  define st3 where "st3 = take_turn ev 5 st"
  have a: "leads fx (fs_db st) (fs_db st3)" "only_reserved i row (fs_db st3)"
    using turn_facts [OF fair] row i by (auto simp: st3_def)
  have "set (live_nonces (fs_db st3)) \<subseteq> set (live_nonces (fs_db st))"
    using quiet_steps_live_nonces [OF turn_facts(2) [OF fair, of 5 st]] by (simp add: st3_def in_mutex_def)
  then have above: "\<forall>n \<in> set (live_nonces (fs_db st3)). n < nonce" using nextNonce_above nonce by fastforce
  show ?thesis
  proof (cases "ev_sign ev (claim_tx fx k recipient v nonce)")
    case (Inl e)
    then show ?thesis using a(1) by (simp add: sign_and_send_def st3_def)
  next
    case (Inr raw)
    show ?thesis
    proof (cases "markSigned (fs_db st3) i (signed_as fx v nonce raw) (ev_now ev 4)")
      case (Inl e)
      then show ?thesis using a(1) Inr by (simp add: sign_and_send_def st3_def)
    next
      case mk: (Inr w)
      obtain ok db where w: "w = (ok, db)" by (cases w)
      have "ledger_step (limitsOf fx) (fs_db st3) db"
        using mk above a(2) v
        by (intro ledger_step.do_write claim_write.do_sign [OF mk [unfolded w]])
          (auto simp: signed_as_def at_claim_def only_reserved_def)
      then have b: "leads fx (fs_db st) db" using a(1) by (rule rtranclp.rtrancl_into_rtrancl [rotated])
      define st4 where "st4 = take_turn ev 6 (st3\<lparr>fs_db := db, fs_sent := (raw, db) # fs_sent st3\<rparr>)"
      have c: "leads fx (fs_db st) (fs_db st4)"
        using leads_trans [OF b] turn_facts(1) [OF fair, of "st3\<lparr>fs_db := db, fs_sent := (raw, db) # fs_sent st3\<rparr>" 6] by (simp add: st4_def)
      have d: "leads fx (fs_db st) (fs_db (with_db (\<lambda>d. markFailed d i t) st4))" "leads fx (fs_db st) (fs_db (with_db (\<lambda>d. markSent d i t) st4))" for t
        using leads_trans [OF c] mark_leads(1,2) by blast+
      have "sign_and_send fx ev st i k recipient v nonce =
          (if \<not> ok then (Inr (Stopped (ClaimRefused Unavailable 503 None)), st3\<lparr>fs_db := db\<rparr>)
           else (case ev_sendRaw ev raw of
               Inl _ \<Rightarrow> (Inr (SentAs (fx_keccak256 fx raw)), st4)
             | Inr NodeRejected \<Rightarrow> (Inl (Error ''the node rejected the transaction''), with_db (\<lambda>d. markFailed d i (ev_now ev 5)) st4)
             | Inr NodeAccepted \<Rightarrow> (Inr (SentAs (fx_keccak256 fx raw)), with_db (\<lambda>d. markSent d i (ev_now ev 5)) st4)))"
        unfolding sign_and_send_def Let_def st4_def st3_def [symmetric] using Inr mk by (simp add: w)
      then show ?thesis using b c d by (simp split: sum.split BroadcastResult.split)
    qed
  qed
qed

lemma broadcast_leads:
  assumes fair: "fair_turns fx ev" and i: "i = ev_uuid ev" and row: "only_reserved i row (fs_db st)"
    and v: "fl_dailyAmount (limitsOf fx (fc_kind row)) \<noteq> None \<longrightarrow> v \<le> BigInt (fc_amount row)"
  shows "leads fx (fs_db st) (fs_db (snd (broadcast fx ev st i k recipient v)))"
proof -
  define st1 where "st1 = take_turn ev 3 st"
  define st2 where "st2 = take_turn ev 4 st1"
  have a: "leads fx (fs_db st) (fs_db st1)" "only_reserved i row (fs_db st1)"
    using turn_facts [OF fair] row i by (auto simp: st1_def)
  have b: "leads fx (fs_db st) (fs_db st2)" "only_reserved i row (fs_db st2)"
    using leads_trans [OF a(1)] turn_facts [OF fair] a(2) i by (auto simp: st2_def)
  have c: "leads fx (fs_db st) (fs_db (snd (sign_and_send fx ev st2 i k recipient v (max p (faucet_nextNonce (fs_db st2))))))" for p
    using leads_trans [OF b(1)] sign_and_send_leads [OF fair i b(2) v] by simp
  have d: "leads fx (fs_db st) (fs_db (with_db (\<lambda>d. markFailed d i t) (if r then st1\<lparr>fs_cache := None\<rparr> else st1)))" for t r
    using leads_trans [OF a(1)] mark_leads(1) [of fx "if r then st1\<lparr>fs_cache := None\<rparr> else st1" i t] by (simp split: if_splits)
  have "broadcast fx ev st i k recipient v = (case affordable fx ev k (fs_db st1) of
        Inl e \<Rightarrow> (Inl e, st1)
      | Inr (Some r) \<Rightarrow>
          (Inr (Stopped (refuse r None)),
           with_db (\<lambda>d. markFailed d i (ev_now ev 3)) (if r = FaucetEmpty then st1\<lparr>fs_cache := None\<rparr> else st1))
      | Inr None \<Rightarrow> (case ev_pending ev of
             Inl e \<Rightarrow> (Inl e, st2)
           | Inr pending \<Rightarrow> sign_and_send fx ev st2 i k recipient v (max pending (faucet_nextNonce (fs_db st2)))))"
    by (simp only: broadcast_def Let_def st1_def st2_def)
  then show ?thesis using a b c d by (simp split: sum.split option.split)
qed

lemma claim_caught_leads: "leads fx (fs_db st) (fs_db (snd (claim_caught fx ev st i)))"
  using mark_leads(1) [of fx st i "ev_now ev 6"]
  unfolding claim_caught_def Let_def snd_conv by simp

lemma await_receipt_leads:
  assumes "fair_turns fx ev"
  shows "leads fx (fs_db st) (fs_db (await_receipt ev st i h))"
proof -
  define st' where "st' = take_turn ev 7 st"
  have a: "leads fx (fs_db st) (fs_db st')" using turn_facts(1) [OF assms] by (simp add: st'_def)
  have "await_receipt ev st i h \<in> {st', with_db (\<lambda>d. markConfirmed d i (ev_now ev 8)) st', with_db (\<lambda>d. markFailed d i (ev_now ev 8)) st'}"
    by (simp add: await_receipt_def Let_def st'_def split: sum.split option.split ReceiptStatus.split)
  then show ?thesis using a leads_trans [OF a mark_leads(1)] leads_trans [OF a mark_leads(3)] by auto
qed

lemma plan_amount: "plan ev Eth recipient = Inr v \<Longrightarrow> v \<le> FAUCET_ETH_AMOUNT_WEI"
  by (auto simp: plan_def result_simps FAUCET_ETH_AMOUNT_WEI_def split: if_splits)

lemma pay_leads:
  assumes fair: "fair_turns fx ev" and i: "i = ev_uuid ev" and row: "only_reserved i row (fs_db st)" "fc_kind row = k"
    and eth: "k = Eth \<longrightarrow> BigInt (fc_amount row) = FAUCET_ETH_AMOUNT_WEI"
  shows "leads fx (fs_db st) (fs_db (snd (pay fx ev st i k recipient)))"
proof -
  define st2 where "st2 = take_turn ev 2 st"
  have a: "leads fx (fs_db st) (fs_db st2)" "only_reserved i row (fs_db st2)"
    using turn_facts [OF fair] row i by (auto simp: st2_def)
  show ?thesis
  proof (cases "plan ev k recipient")
    case (Inl e)
    then show ?thesis using leads_trans [OF a(1)] claim_caught_leads by (simp add: pay_def st2_def)
  next
    case (Inr v)
    have "k = Eth \<longrightarrow> v \<le> BigInt (fc_amount row)" using plan_amount Inr eth by auto
    then have v: "fl_dailyAmount (limitsOf fx (fc_kind row)) \<noteq> None \<longrightarrow> v \<le> BigInt (fc_amount row)"
      using row(2) by (cases k) (simp_all add: limitsOf_def FAUCET_LIMITS_def)
    obtain out st3 where br: "broadcast fx ev st2 i k recipient v = (out, st3)" by (cases "broadcast fx ev st2 i k recipient v")
    have b: "leads fx (fs_db st) (fs_db st3)"
      using leads_trans [OF a(1) broadcast_leads [OF fair i a(2) v]] br by (metis snd_conv)
    have c: "leads fx (fs_db st) (fs_db (snd (claim_caught fx ev st3 i)))" "leads fx (fs_db st) (fs_db (await_receipt ev st3 i h))" for h
      using leads_trans [OF b] claim_caught_leads await_receipt_leads [OF fair] by blast+
    have d: "leads fx (fs_db st) (fs_db (with_db (\<lambda>d. markSkipped d i t) st2))" for t
      using leads_trans [OF a(1)] mark_leads(4) by blast
    show ?thesis using Inr br b c d
      by (simp add: pay_def Let_def st2_def [symmetric] split: sum.split broadcast_end.split)
  qed
qed

lemma reserve_created:
  assumes "faucet_reserve db uuid input now l = Inr (ReservedClaim c True, db')"
  shows "c = claim_row uuid input now" "claim_by_id db uuid = None" "db' = db\<lparr>fd_claims := fd_claims db @ [c]\<rparr>"
    "admission db input now l = None"
proof -
  have new: "claim_by_id (db\<lparr>fd_claims := fd_claims db @ [claim_row uuid input now]\<rparr>) uuid = Some (claim_row uuid input now)"
    if "claim_by_id db uuid = None"
  proof -
    have "find P (xs @ [y]) = Some y" if "find P xs = None" "P y" for P and xs :: "FaucetClaimRow list" and y
      using that by (induction xs) (auto split: if_splits)
    then show ?thesis using that by (simp add: claim_by_id_def claim_row_def)
  qed
  have "admission db input now l = None \<and> claim_by_id db uuid = None \<and> c = claim_row uuid input now \<and>
    db' = db\<lparr>fd_claims := fd_claims db @ [claim_row uuid input now]\<rparr>"
    using assms new
    by (auto simp: faucet_reserve_def reserveTx_def insert_claim_def result_simps claim_row_def
      split: option.splits FaucetAdmission.splits)
  then show "c = claim_row uuid input now" "claim_by_id db uuid = None" "db' = db\<lparr>fd_claims := fd_claims db @ [c]\<rparr>"
    "admission db input now l = None" by simp_all
qed

lemma reserve_and_pay_leads:
  assumes fair: "fair_turns fx ev" and eth: "fi_kind input = Eth \<longrightarrow> fi_amount input = FAUCET_ETH_AMOUNT_WEI"
  shows "leads fx (fs_db st) (fs_db (snd (reserve_and_pay fx ev st input recipient)))"
proof (cases "faucet_reserve (fs_db st) (ev_uuid ev) input (ev_now ev 1) (limitsOf fx (fi_kind input))")
  case (Inr w)
  obtain res db where w: "w = (res, db)" by (cases w)
  have s: "leads fx (fs_db st) db"
    using Inr unfolding w by (intro r_into_rtranclp ledger_step.do_write claim_write.do_reserve)
  show ?thesis
  proof (cases res)
    case (ReservedClaim c created)
    show ?thesis
    proof (cases created)
      case True
      have "faucet_reserve (fs_db st) (ev_uuid ev) input (ev_now ev 1) (limitsOf fx (fi_kind input)) = Inr (ReservedClaim c True, db)"
        using Inr True by (simp add: w ReservedClaim)
      note c = reserve_created [OF this]
      have f: "fc_id c = ev_uuid ev" "fc_kind c = fi_kind input" "fc_amount c = String (fi_amount input)"
        by (simp_all add: c(1) claim_row_def)
      have "only_reserved (ev_uuid ev) c db"
        using c(2) by (auto simp: only_reserved_def c(3) claim_by_id_def find_None_iff)
      then have "leads fx db (fs_db (snd (pay fx ev (st\<lparr>fs_db := db\<rparr>) (fc_id c) (fi_kind input) recipient)))"
        using pay_leads [OF fair f(1), of c "st\<lparr>fs_db := db\<rparr>" "fi_kind input" recipient] eth f by simp
      with s have "leads fx (fs_db st) (fs_db (snd (pay fx ev (st\<lparr>fs_db := db\<rparr>) (fc_id c) (fi_kind input) recipient)))"
        by (rule leads_trans)
      then show ?thesis using Inr True by (simp add: reserve_and_pay_def w ReservedClaim)
    next
      case False
      then show ?thesis using Inr s by (simp add: reserve_and_pay_def w ReservedClaim)
    qed
  qed (use Inr s in \<open>simp add: reserve_and_pay_def w\<close>)
qed (simp add: reserve_and_pay_def)

lemma admit_leads:
  assumes fair: "fair_turns fx ev" and eth: "fi_kind input = Eth \<longrightarrow> fi_amount input = FAUCET_ETH_AMOUNT_WEI"
  shows "leads fx (fs_db st) (fs_db (snd (admit fx ev st input own recipient)))"
proof -
  define st1 where "st1 = take_turn ev 1 st"
  have a: "leads fx (fs_db st) (fs_db st1)" using turn_facts(1) [OF fair] by (simp add: st1_def)
  have b: "leads fx (fs_db st) (fs_db (snd (reserve_and_pay fx ev st1 input recipient)))"
    using leads_trans [OF a] reserve_and_pay_leads [OF fair eth] by blast
  have "snd (admit fx ev st input own recipient) \<in> {st, st1, snd (reserve_and_pay fx ev st1 input recipient)}"
    by (simp add: admit_def Let_def st1_def split: sum.split option.split FaucetAdmission.split)
  then show ?thesis using a b by auto
qed

lemma decide_leads:
  assumes fair: "fair_turns fx ev"
  shows "leads fx (fs_db st) (fs_db (snd (decide fx ev st req)))"
proof -
  define st0 where "st0 = take_turn ev 0 st"
  have a: "leads fx (fs_db st) (fs_db st0)" using turn_facts(1) [OF fair] by (simp add: st0_def)
  have b: "leads fx (fs_db s) (fs_db (snd (admit fx ev s (reserve_input req own recipient) own recipient)))" for s own recipient
    by (rule admit_leads [OF fair]) (simp add: reserve_input_def)
  note c = leads_trans [OF a b]
  show ?thesis
    using a b c by (simp add: decide_def Let_def st0_def [symmetric] split: FaucetClaimKind.split sum.split)
qed

lemma count_leads: "countRefusal db k reason now = Inr db' \<Longrightarrow> leads fx db db'"
  by (intro r_into_rtranclp ledger_step.do_count)

lemma claim_leads:
  assumes "fair_turns fx ev"
  shows "leads fx (fs_db st) (fs_db (snd (claim fx ev st req)))"
proof -
  obtain out st' where d: "decide fx ev st req = (out, st')" by (cases "decide fx ev st req")
  have a: "leads fx (fs_db st) (fs_db st')" using decide_leads [OF assms, of st req] d by simp
  have "leads fx (fs_db st) db" if "countRefusal (fs_db st') k reason now = Inr db" for k reason now db
    using leads_trans [OF a count_leads [OF that]] .
  then show ?thesis using a by (auto simp: claim_def d split: sum.split ClaimOutcome.split)
qed

lemma leads_db: "fs_db st' = fs_db st \<Longrightarrow> leads fx (fs_db st) (fs_db st')"
  by simp

lemma rc_take_leads: "fair_reconcile fx rc \<Longrightarrow> leads fx (fs_db st) (fs_db (rc_take rc i n st))"
  by (simp add: fair_reconcile_def rc_take_def)

lemma finish_claim_leads: "leads fx (fs_db st) (fs_db (finish_claim rc i b st))"
  using mark_leads(1) [of fx st i "rc_now rc i"] mark_leads(3) [of fx st i "rc_now rc i"] by (cases b) (simp_all add: finish_claim_def)

lemma read_again_leads:
  assumes "fair_reconcile fx rc"
  shows "leads fx (fs_db st) (fs_db (read_again rc row n st))"
proof -
  define st' where "st' = rc_take rc (fc_id row) n st"
  have a: "leads fx (fs_db st) (fs_db st')" using rc_take_leads [OF assms] by (simp add: st'_def)
  have "leads fx (fs_db st) (fs_db (finish_claim rc (fc_id row) b st'))" for b using leads_trans [OF a finish_claim_leads] .
  then show ?thesis using a by (simp add: read_again_def Let_def st'_def [symmetric] split: sum.split)
qed

lemma resend_leads:
  assumes "fair_reconcile fx rc"
  shows "leads fx (fs_db st) (fs_db (resend rc row st))"
proof -
  define st' where "st' = rc_take rc (fc_id row) 2 (st\<lparr>fs_sent := (the (fc_raw_tx row), fs_db st) # fs_sent st\<rparr>)"
  have a: "leads fx (fs_db st) (fs_db st')"
    using rc_take_leads [OF assms, of "st\<lparr>fs_sent := (the (fc_raw_tx row), fs_db st) # fs_sent st\<rparr>"] by (simp add: st'_def)
  have "resend rc row st \<in> {st', with_db (\<lambda>d. markSent d (fc_id row) (rc_now rc (fc_id row))) st', read_again rc row 3 st'}"
    by (simp add: resend_def Let_def st'_def split: sum.split BroadcastResult.split)
  then show ?thesis using a leads_trans [OF a mark_leads(2)] leads_trans [OF a read_again_leads [OF assms]] by auto
qed

lemma reconcile_row_leads:
  assumes "fair_reconcile fx rc"
  shows "leads fx (fs_db st) (fs_db (snd (reconcile_row rc row (mined, st))))"
proof -
  let ?i = "fc_id row"
  define st1 where "st1 = rc_take rc ?i 0 st"
  define st2 where "st2 = rc_take rc ?i 1 st1"
  have a: "leads fx (fs_db st) (fs_db st1)" using rc_take_leads [OF assms] by (simp add: st1_def)
  have b: "leads fx (fs_db st) (fs_db st2)" using leads_trans [OF a] rc_take_leads [OF assms] by (simp add: st2_def)
  have c: "leads fx (fs_db st) (fs_db s)" if "s \<in> {read_again rc row 4 st1, resend rc row st1, read_again rc row 4 st2, resend rc row st2,
      finish_claim rc ?i True st1, finish_claim rc ?i False st1}" for s
    using that leads_trans [OF a read_again_leads [OF assms]] leads_trans [OF a resend_leads [OF assms]]
      leads_trans [OF b read_again_leads [OF assms]] leads_trans [OF b resend_leads [OF assms]] leads_trans [OF a finish_claim_leads]
    by auto
  have "snd (reconcile_row rc row (mined, st)) \<in> {st, with_db (\<lambda>d. markFailed d ?i (rc_at rc)) st, st1, st2,
      finish_claim rc ?i True st1, finish_claim rc ?i False st1,
      read_again rc row 4 st1, resend rc row st1, read_again rc row 4 st2, resend rc row st2}"
  proof (cases "fc_state row = StReserved")
    case True
    then show ?thesis by (simp add: reconcile_row_def Let_def)
  next
    case False
    show ?thesis
    proof (cases "rc_receipt rc 0 (the (fc_tx_hash row))")
      case (Inr r)
      show ?thesis
      proof (cases r)
        case None
        show ?thesis
          using False Inr None
          by (cases mined; cases "rc_latest rc ?i") (simp_all add: reconcile_row_def Let_def st1_def st2_def)
      next
        case (Some s)
        then show ?thesis using False Inr by (cases s) (simp_all add: reconcile_row_def Let_def st1_def)
      qed
    qed (use False in \<open>simp add: reconcile_row_def Let_def st1_def\<close>)
  qed
  then show ?thesis using a b c mark_leads(1) [of fx st ?i "rc_at rc"] by (elim insertE) simp_all
qed

lemma reconcile_rows_leads:
  assumes "fair_reconcile fx rc"
  shows "leads fx (fs_db st) (fs_db (snd (reconcile_rows rc rows (mined, st))))"
proof (induction rows arbitrary: mined st)
  case (Cons row rows)
  obtain m s where r: "reconcile_row rc row (mined, st) = (m, s)" by (cases "reconcile_row rc row (mined, st)")
  show ?case using leads_trans [OF reconcile_row_leads [OF assms, of st row mined, unfolded r snd_conv] Cons.IH [of s m]] by (simp add: r)
qed simp

lemma reconcile_leads:
  assumes "fair_reconcile fx rc"
  shows "leads fx (fs_db st) (fs_db (snd (reconcile fx rc nd pending st)))"
proof -
  define st0 where "st0 = st\<lparr>fs_db := snd (faucet_prune (fs_db st) (rc_at rc - LEDGER_RETENTION_MS))\<rparr>"
  define st1 where "st1 = rc_take rc '''' 5 (snd (reconcile_rows rc (faucet_unsettled (fs_db st0)) (None, st0)))"
  have a: "leads fx (fs_db st) (fs_db st0)" by (auto simp: st0_def intro: r_into_rtranclp ledger_step.do_prune)
  have b: "leads fx (fs_db st) (fs_db st1)"
    unfolding st1_def by (rule leads_trans [OF leads_trans [OF a reconcile_rows_leads [OF assms]] rc_take_leads [OF assms]])
  have "snd (reconcile fx rc nd pending st) \<in> {st0, st1}"
    by (simp add: reconcile_def Let_def st0_def [symmetric] st1_def [symmetric])
  then show ?thesis using a b by auto
qed

section \<open>Runs of the service\<close>

text \<open>Claims and reconciliations in any order, with any answers and any interleaving.\<close>

inductive service_step :: "faucet_fixed \<Rightarrow> faucet_state \<Rightarrow> faucet_state \<Rightarrow> bool" for fx where
  by_claim: "fair_turns fx ev \<Longrightarrow> service_step fx st (snd (claim fx ev st req))"
| by_reconcile: "fair_reconcile fx rc \<Longrightarrow> service_step fx st (snd (reconcile fx rc nd pending st))"

lemma service_leads:
  assumes "(service_step fx)\<^sup>*\<^sup>* st st'"
  shows "leads fx (fs_db st) (fs_db st')"
  using assms
proof (induction rule: rtranclp_induct)
  case (step s s')
  from step(2) have "leads fx (fs_db s) (fs_db s')" by cases (simp_all add: claim_leads reconcile_leads)
  with step(3) show ?case by (rule leads_trans)
qed simp

lemma service_limits_wf: "0 \<le> cfg_ethDailyWei (fx_config fx) \<Longrightarrow> limits_wf (limitsOf fx k)"
  by (cases k) (simp_all add: limits_wf_def limitsOf_def FAUCET_LIMITS_def)

end
