(* ===== verification/Faucet_Runs.thy ===== *)
theory Faucet_Runs
  imports Faucet_Service
begin

text \<open>
  What holds of every run of the faucet service: its published limits, the order of disk and
  network, refusals that cost nothing, the reconciler's verdicts, the gaps it fills, the floor it
  keeps, and answers the page can read.
\<close>

section \<open>A run, evaluated\<close>

definition demo_fx :: faucet_fixed where
  "demo_fx = \<lparr>fx_config = \<lparr>cfg_enabled = True, cfg_ethMissions = [XFollowMapae], cfg_ethDailyWei = 50000000000000000,
       cfg_minBalanceWei = 20000000000000000, cfg_verifiers = (\<lambda>_. None)\<rparr>,
     fx_getAddress = (\<lambda>s. s), fx_keccak256 = (\<lambda>_. ''0x'' @ replicate 64 CHR ''c''), fx_encodeMint = (\<lambda>_ _. ''0x40c1''),
     fx_signer = ''0xfa'', fx_token = ''0x70''\<rparr>"

definition demo_ev :: claim_turns where
  "demo_ev = \<lparr>ev_now = (\<lambda>_. 1000000), ev_turn = (\<lambda>_ d. d), ev_uuid = ''claim-1'', ev_payer = (\<lambda>_. Inr (fi_recipient demo_claim)),
     ev_code = (\<lambda>_. Inr None), ev_tokenBalance = (\<lambda>_. Inr 0), ev_balance = (\<lambda>_. Inr 1000000000000000000),
     ev_baseFee = Inr (Some 1000266), ev_pending = Inr 7, ev_sign = (\<lambda>_. Inr ''0x02f8''),
     ev_sendRaw = (\<lambda>_. Inr NodeAccepted), ev_wait = (\<lambda>_. Inr None)\<rparr>"

definition demo_request :: ClaimRequest where
  "demo_request = \<lparr>cr_kind = Musdc, cr_owner = fi_owner demo_claim, cr_ipKey = fi_ipKey demo_claim,
     cr_subnetKey = fi_subnetKey demo_claim, cr_missions = [''x_follow_mapae'']\<rparr>"

definition no_claims :: faucet_state where
  "no_claims = \<lparr>fs_db = empty_faucet, fs_cache = None, fs_sent = []\<rparr>"

definition demo_row :: FaucetClaimRow where
  "demo_row = claim_row ''claim-1'' demo_claim 1000000"

definition demo_signed :: faucet_db where
  "demo_signed = \<lparr>fd_claims = [demo_row\<lparr>fc_amount := String 1000000000, fc_nonce := Some 7,
     fc_tx_hash := Some (''0x'' @ replicate 64 CHR ''c''), fc_raw_tx := Some ''0x02f8'', fc_state := StSigned\<rparr>], fd_refusals = []\<rparr>"

lemma demo_input: "reserve_input demo_request (fi_owner demo_claim) (fi_recipient demo_claim) = demo_claim"
proof -
  have l: "toLowerCase (''0x'' @ replicate 40 c) = ''0x'' @ replicate 40 c" if "\<not> is_upper c" for c
  proof -
    have "to_lower_char c = c" using that by (simp add: to_lower_char_def)
    moreover have "to_lower_char CHR ''0'' = CHR ''0''" "to_lower_char CHR ''x'' = CHR ''x''"
      by (simp_all add: to_lower_char_def is_upper_def char_between_def)
    ultimately show ?thesis by (simp add: toLowerCase_def)
  qed
  show ?thesis
    using l [of "CHR ''a''"] l [of "CHR ''b''"]
    by (simp add: reserve_input_def demo_request_def demo_claim_def is_upper_def char_between_def)
qed

lemma demo_db: "fs_db no_claims = empty_faucet" by (simp add: no_claims_def)

lemma demo_admitted: "faucet_admission empty_faucet demo_claim 1000000 (limitsOf demo_fx Musdc) = Inr None"
  unfolding faucet_admission_def demo_claim_valid
  by (simp add: admission_def empty_faucet_def inflight_claim_def lastActive_def counted_def order_desc_def
      limitsOf_def FAUCET_LIMITS_def)

lemma demo_reserved:
  "faucet_reserve empty_faucet ''claim-1'' demo_claim 1000000 (limitsOf demo_fx Musdc) = Inr (ReservedClaim demo_row True, demo_ledger)"
proof -
  have "admission empty_faucet demo_claim 1000000 (limitsOf demo_fx Musdc) = None"
    using demo_admitted by (simp add: faucet_admission_def demo_claim_valid)
  then show ?thesis
    by (simp add: faucet_reserve_def demo_claim_valid reserveTx_def insert_claim_def claim_by_id_def inflight_claim_def
        empty_faucet_def claim_row_def demo_ledger_def demo_row_def)
qed

lemma demo_sign:
  "markSigned demo_ledger ''claim-1'' (signed_as demo_fx 1000000000 7 ''0x02f8'') 1000000 = Inr (True, demo_signed)"
proof -
  have "toLowerCase (''0x'' @ replicate 64 CHR ''c'') = ''0x'' @ replicate 64 CHR ''c''" "toLowerCase ''0x02f8'' = ''0x02f8''"
    by (simp_all add: toLowerCase_def to_lower_char_def is_upper_def char_between_def)
  then have s: "signed_as demo_fx 1000000000 7 ''0x02f8'' = \<lparr>sg_amount = 1000000000, sg_nonce = 7,
      sg_txHash = ''0x'' @ replicate 64 CHR ''c'', sg_rawTx = ''0x02f8''\<rparr>"
    by (simp add: signed_as_def demo_fx_def)
  show ?thesis unfolding s
    by (simp add: markSigned_def ensure_def ebind_def isSafeInteger_def MAX_SAFE_INTEGER_def demo_ledger_def demo_row_def
        hex_literal_def raw_hex_def char_class_defs transition_def at_claim_def claim_row_def update_where_def write_signed_def
        demo_signed_def)
qed

lemma demo_sent:
  "sign_and_send demo_fx demo_ev \<lparr>fs_db = demo_ledger, fs_cache = None, fs_sent = []\<rparr> ''claim-1'' Musdc (fi_recipient demo_claim) 1000000000 7 =
     (Inr (SentAs (''0x'' @ replicate 64 CHR ''c'')),
      \<lparr>fs_db = snd (markSent demo_signed ''claim-1'' 1000000), fs_cache = None, fs_sent = [(''0x02f8'', demo_signed)]\<rparr>)"
  using demo_sign by (simp add: sign_and_send_def take_turn_def demo_ev_def with_db_def) (simp add: demo_fx_def)

definition demo_end :: faucet_state where
  "demo_end = \<lparr>fs_db = snd (markSent demo_signed ''claim-1'' 1000000), fs_cache = None, fs_sent = [(''0x02f8'', demo_signed)]\<rparr>"

lemma demo_end_claims: "fd_claims (fs_db demo_end) =
    [demo_row\<lparr>fc_amount := String 1000000000, fc_nonce := Some 7,
     fc_tx_hash := Some (''0x'' @ replicate 64 CHR ''c''), fc_raw_tx := Some ''0x02f8'', fc_state := StSent, fc_updated_at := 1000000\<rparr>]"
  by (simp add: demo_end_def markSent_def demo_signed_def update_where_def at_claim_def demo_row_def claim_row_def)

text \<open>The same request when the fee has risen above the cap.\<close>

definition demo_spike :: claim_turns where
  "demo_spike = demo_ev\<lparr>ev_baseFee := Inr (Some 1000000000)\<rparr>"

lemma demo_turn: "take_turn demo_ev n s = s" "take_turn demo_spike n s = s"
  by (simp_all add: take_turn_def demo_spike_def demo_ev_def)

lemma demo_inflight: "faucet_inflight demo_ledger = (0, 0)" "faucet_nextNonce demo_ledger = 0"
  by (simp_all add: faucet_inflight_def faucet_nextNonce_def live_nonces_def demo_ledger_def claim_row_def committed_def List.map_filter_def)

abbreviation demo_reserved_state :: faucet_state where
  "demo_reserved_state \<equiv> \<lparr>fs_db = demo_ledger, fs_cache = None, fs_sent = []\<rparr>"

lemma demo_plan: "ev \<in> {demo_ev, demo_spike} \<Longrightarrow> plan ev Musdc r = Inr 1000000000"
  by (auto simp: plan_def demo_spike_def demo_ev_def planTopUp_def FAUCET_TARGET_BASE_def)

lemma demo_decide:
  assumes ev: "ev \<in> {demo_ev, demo_spike}"
    and pay: "pay demo_fx ev demo_reserved_state ''claim-1'' Musdc (fi_recipient demo_claim) = out"
  shows "decide demo_fx ev no_claims demo_request = out"
proof -
  have i: "fc_id demo_row = ''claim-1''" by (simp add: demo_row_def claim_row_def)
  have k: "fi_kind demo_claim = Musdc" by (simp add: demo_claim_def)
  have e: "ev_now ev n = 1000000" "ev_uuid ev = ''claim-1''" "ev_payer ev a = Inr (fi_recipient demo_claim)" "take_turn ev n s = s" for n a s
    using ev demo_turn by (auto simp: demo_spike_def demo_ev_def)
  have f: "kindOn demo_fx Musdc" "fx_getAddress demo_fx a = a" "cr_kind demo_request = Musdc" "cr_owner demo_request = fi_owner demo_claim"
    "list_all (\<lambda>m. mission_text m \<in> set (cr_missions demo_request)) (missionsOf demo_fx Musdc)" for a
    by (simp_all add: demo_fx_def kindOn_def demo_request_def missionsOf_def FAUCET_MUSDC_MISSIONS_def mission_text_def)
  have "reserve_and_pay demo_fx ev no_claims demo_claim (fi_recipient demo_claim) = out"
    using demo_reserved pay by (simp add: reserve_and_pay_def demo_db e k i) (simp add: no_claims_def)
  then have "admit demo_fx ev no_claims demo_claim (fi_owner demo_claim) (fi_recipient demo_claim) = out"
    using demo_admitted by (simp add: admit_def demo_db e k eligibility_def missionsOf_def FAUCET_MUSDC_MISSIONS_def FAUCET_MISSIONS_def)
  then show ?thesis using demo_input f by (simp add: decide_def e)
qed

lemma demo_runs: "\<exists>v. claim demo_fx demo_ev no_claims demo_request = (Inr (ClaimOk v), demo_end)"
proof -
  have aff: "affordable demo_fx demo_ev Musdc demo_ledger = Inr None"
    by (simp add: affordable_def demo_inflight demo_ev_def demo_fx_def need_def MINT_GAS_def MAX_FEE_PER_GAS_def)
  have br: "broadcast demo_fx demo_ev demo_reserved_state ''claim-1'' Musdc (fi_recipient demo_claim) 1000000000 =
      (Inr (SentAs (''0x'' @ replicate 64 CHR ''c'')), demo_end)"
    using demo_sent by (simp add: broadcast_def demo_turn aff demo_inflight demo_end_def) (simp add: demo_ev_def demo_inflight)
  have w: "await_receipt demo_ev s i h = s" for s i h by (simp add: await_receipt_def demo_turn) (simp add: demo_ev_def)
  have "fc_id demo_row = ''claim-1''" by (simp add: demo_row_def claim_row_def)
  then have "\<exists>row. claim_by_id (fs_db demo_end) ''claim-1'' = Some row" by (simp add: claim_by_id_def demo_end_claims)
  then obtain v where v: "view_of demo_fx (ev_now demo_ev 9) (fs_db demo_end) ''claim-1'' = Inr (ClaimOk v)" by (auto simp: view_of_def)
  have "pay demo_fx demo_ev demo_reserved_state ''claim-1'' Musdc (fi_recipient demo_claim) = (Inr (ClaimOk v), demo_end)"
    using br v demo_plan by (simp add: pay_def demo_turn w)
  then have "decide demo_fx demo_ev no_claims demo_request = (Inr (ClaimOk v), demo_end)" by (intro demo_decide) simp
  then show ?thesis by (simp add: claim_def)
qed

lemma demo_refused: "\<exists>st'. claim demo_fx demo_spike no_claims demo_request = (Inr (ClaimRefused FeeTooHigh 503 None), st') \<and>
    map fc_state (fd_claims (fs_db st')) = [StFailed]"
proof -
  let ?st = "with_db (\<lambda>d. markFailed d ''claim-1'' (ev_now demo_spike 3)) demo_reserved_state"
  have "affordable demo_fx demo_spike Musdc demo_ledger = Inr (Some FeeTooHigh)"
    by (simp add: affordable_def demo_spike_def demo_ev_def MAX_FEE_PER_GAS_def)
  then have "broadcast demo_fx demo_spike demo_reserved_state ''claim-1'' Musdc (fi_recipient demo_claim) 1000000000 =
      (Inr (Stopped (ClaimRefused FeeTooHigh 503 None)), ?st)"
    by (simp add: broadcast_def demo_turn refuse_def STATUS_def)
  then have "pay demo_fx demo_spike demo_reserved_state ''claim-1'' Musdc (fi_recipient demo_claim) = (Inr (ClaimRefused FeeTooHigh 503 None), ?st)"
    using demo_plan by (simp add: pay_def demo_turn)
  then have d: "decide demo_fx demo_spike no_claims demo_request = (Inr (ClaimRefused FeeTooHigh 503 None), ?st)" by (intro demo_decide) simp
  have "map fc_state (fd_claims (fs_db ?st)) = [StFailed]"
    by (simp add: with_db_def markFailed_def demo_ledger_def update_where_def at_claim_def claim_row_def)
  then show ?thesis using d by (auto simp: claim_def countRefusal_claims split: sum.split)
qed

section \<open>The limits hold for the service\<close>

text \<open>C31: the faucet gives away no more than its policy says, however its requests interleave. After
  any sequence of claims and reconciliations, with any answers of the chain, any clock and other
  requests writing to the ledger during every await: over any 24 hours an owner has at most one
  counted stablecoin claim, an address 5, a subnet 20 and everyone 1000; an owner has at most one
  counted ETH claim in any week, an address one and a subnet three in any day; and the ETH
  committed in any day is at most the configured amount.\<close>

theorem faucet_limits_hold:
  assumes "0 \<le> cfg_ethDailyWei (fx_config fx)" "(service_step fx)\<^sup>*\<^sup>* no_claims st"
  shows "tally (\<lambda>r. fc_owner r = own \<and> fc_kind r = Musdc) (\<lambda>_. 1) 86400000 t (fd_claims (fs_db st)) \<le> 1 \<and>
    tally (\<lambda>r. fc_ip_key r = ip \<and> fc_kind r = Musdc) (\<lambda>_. 1) 86400000 t (fd_claims (fs_db st)) \<le> 5 \<and>
    tally (\<lambda>r. fc_subnet_key r = net \<and> fc_kind r = Musdc) (\<lambda>_. 1) 86400000 t (fd_claims (fs_db st)) \<le> 20 \<and>
    tally (\<lambda>r. fc_kind r = Musdc) (\<lambda>_. 1) 86400000 t (fd_claims (fs_db st)) \<le> 1000 \<and>
    tally (\<lambda>r. fc_owner r = own \<and> fc_kind r = Eth) (\<lambda>_. 1) 604800000 t (fd_claims (fs_db st)) \<le> 1 \<and>
    tally (\<lambda>r. fc_ip_key r = ip \<and> fc_kind r = Eth) (\<lambda>_. 1) 86400000 t (fd_claims (fs_db st)) \<le> 1 \<and>
    tally (\<lambda>r. fc_subnet_key r = net \<and> fc_kind r = Eth) (\<lambda>_. 1) 86400000 t (fd_claims (fs_db st)) \<le> 3 \<and>
    tally (\<lambda>r. fc_kind r = Eth) (\<lambda>r. BigInt (fc_amount r)) 86400000 t (fd_claims (fs_db st)) \<le> cfg_ethDailyWei (fx_config fx)"
proof -
  have r: "leads fx empty_faucet (fs_db st)" using service_leads [OF assms(2)] by (simp add: no_claims_def)
  note h = ledger_limits_hold [OF service_limits_wf [OF assms(1)] r]
  have m: "fl_windowMs (limitsOf fx Musdc) = 86400000" "fl_dayMs (limitsOf fx Musdc) = 86400000" "fl_perIp (limitsOf fx Musdc) = 5"
    "fl_perSubnet (limitsOf fx Musdc) = 20" "fl_perDay (limitsOf fx Musdc) = Some 1000"
    "fl_windowMs (limitsOf fx Eth) = 604800000" "fl_dayMs (limitsOf fx Eth) = 86400000" "fl_perIp (limitsOf fx Eth) = 1"
    "fl_perSubnet (limitsOf fx Eth) = 3" "fl_dailyAmount (limitsOf fx Eth) = Some (cfg_ethDailyWei (fx_config fx))"
    by (simp_all add: limitsOf_def FAUCET_LIMITS_def windowOf_def FAUCET_WINDOW_MS_def FAUCET_ETH_WINDOW_MS_def FAUCET_LIMIT_WINDOW_MS_def)
  show ?thesis
    using h(1) [of own Musdc t] h(2) [of ip Musdc t] h(3) [of net Musdc t] h(4) [of Musdc 1000 t]
      h(1) [of own Eth t] h(2) [of ip Eth t] h(3) [of net Eth t] h(5) [of Eth "cfg_ethDailyWei (fx_config fx)" t]
    unfolding m by simp
qed

lemma demo_fair: "fair_turns demo_fx demo_ev"
  by (simp add: fair_turns_def demo_ev_def)

lemma demo_reached: "(service_step demo_fx)\<^sup>*\<^sup>* no_claims demo_end"
proof -
  obtain v where "claim demo_fx demo_ev no_claims demo_request = (Inr (ClaimOk v), demo_end)" using demo_runs by blast
  then show ?thesis using service_step.by_claim [OF demo_fair, of no_claims demo_request] by (simp add: r_into_rtranclp)
qed

lemma demo_daily: "0 \<le> cfg_ethDailyWei (fx_config demo_fx)"
  by (simp add: demo_fx_def)

theorem faucet_limits_hold_witness:
  "map fc_state (fd_claims (fs_db demo_end)) = [StSent] \<and>
   tally (\<lambda>r. fc_kind r = Musdc) (\<lambda>_. 1) 86400000 1000000 (fd_claims (fs_db demo_end)) \<le> 1000"
  using faucet_limits_hold [OF demo_daily demo_reached, of "''''" 1000000 "''''" "''''"] by (simp add: demo_end_claims)

section \<open>Bytes reach disk before the network\<close>

lemma sent_unchanged [simp]:
  "fs_sent (take_turn ev n st) = fs_sent st" "fs_sent (with_db f st) = fs_sent st" "fs_sent (rc_take rc i n st) = fs_sent st"
  by (simp_all add: take_turn_def with_db_def rc_take_def)

lemma finish_sent [simp]: "fs_sent (finish_claim rc i b st) = fs_sent st" "fs_sent (read_again rc row n st) = fs_sent st"
  by (simp_all add: finish_claim_def read_again_def Let_def split: sum.split)

lemma caught_sent [simp]: "fs_sent (snd (claim_caught fx ev st i)) = fs_sent st" "fs_sent (await_receipt ev st i h) = fs_sent st"
  by (simp_all add: claim_caught_def await_receipt_def Let_def split: sum.split option.split ReceiptStatus.split)

definition persisted :: "faucet_fixed \<Rightarrow> string \<Rightarrow> string \<times> faucet_db \<Rightarrow> bool" where
  "persisted fx i e \<longleftrightarrow> (\<exists>r \<in> set (fd_claims (snd e)). fc_id r = i \<and> fc_state r = StSigned \<and>
     fc_raw_tx r = Some (toLowerCase (fst e)) \<and> fc_tx_hash r = Some (toLowerCase (fx_keccak256 fx (fst e))))"

lemma sign_sent: "set (fs_sent (snd (sign_and_send fx ev st i k recipient v nonce))) \<subseteq> set (fs_sent st) \<union> {e. persisted fx i e}"
proof (cases "ev_sign ev (claim_tx fx k recipient v nonce)")
  case (Inr raw)
  let ?st3 = "take_turn ev 5 st"
  show ?thesis
  proof (cases "markSigned (fs_db ?st3) i (signed_as fx v nonce raw) (ev_now ev 4)")
    case mk: (Inr w)
    obtain ok db where w: "w = (ok, db)" by (cases w)
    have "persisted fx i (raw, db)" if k: ok
    proof -
      obtain r where r: "filter (at_claim i {StReserved}) (fd_claims (fs_db ?st3)) = [r]"
        using mk k by (auto simp: w markSigned_def result_simps transition_def length_Suc_conv)
      then have rs: "r \<in> set (fd_claims (fs_db ?st3))" "at_claim i {StReserved} r"
        using filter_set [of "at_claim i {StReserved}" "fd_claims (fs_db ?st3)"] by auto
      have rows: "fd_claims db = update_where (at_claim i {StReserved})
          (\<lambda>r. (write_signed (signed_as fx v nonce raw) r)\<lparr>fc_state := StSigned, fc_updated_at := ev_now ev 4\<rparr>) (fd_claims (fs_db ?st3))"
        using mk transition_rows [of "fs_db ?st3" i "{StReserved}" StSigned "ev_now ev 4" "write_signed (signed_as fx v nonce raw)"]
        by (auto simp: w markSigned_def result_simps)
      have "(write_signed (signed_as fx v nonce raw) r)\<lparr>fc_state := StSigned, fc_updated_at := ev_now ev 4\<rparr> \<in> set (fd_claims db)"
        unfolding rows set_update_where using rs by blast
      with \<open>at_claim i {StReserved} r\<close> show ?thesis
        unfolding persisted_def by (intro bexI) (auto simp: write_signed_def signed_as_def at_claim_def)
    qed
    then show ?thesis using Inr mk
      by (cases "ev_sendRaw ev raw"; cases ok) (auto simp: sign_and_send_def Let_def w split: BroadcastResult.split)
  qed (use Inr in \<open>simp add: sign_and_send_def\<close>)
qed (simp add: sign_and_send_def)

lemma broadcast_sent: "set (fs_sent (snd (broadcast fx ev st i k recipient v))) \<subseteq> set (fs_sent st) \<union> {e. persisted fx i e}"
proof -
  let ?st2 = "take_turn ev 4 (take_turn ev 3 st)"
  have "set (fs_sent (snd (sign_and_send fx ev ?st2 i k recipient v n))) \<subseteq> set (fs_sent st) \<union> {e. persisted fx i e}" for n
    using sign_sent [of fx ev ?st2 i k recipient v n] by simp
  then show ?thesis by (simp add: broadcast_def Let_def split: sum.split option.split)
qed

lemma pay_sent: "set (fs_sent (snd (pay fx ev st i k recipient))) \<subseteq> set (fs_sent st) \<union> {e. persisted fx i e}"
proof (cases "plan ev k recipient")
  case (Inr v)
  obtain out st3 where br: "broadcast fx ev (take_turn ev 2 st) i k recipient v = (out, st3)"
    by (cases "broadcast fx ev (take_turn ev 2 st) i k recipient v")
  have "set (fs_sent st3) \<subseteq> set (fs_sent st) \<union> {e. persisted fx i e}"
    using broadcast_sent [of fx ev "take_turn ev 2 st" i k recipient v] br by simp
  then show ?thesis using Inr br by (simp add: pay_def Let_def split: sum.split broadcast_end.split)
qed (simp add: pay_def)

lemma claim_sent: "set (fs_sent (snd (claim fx ev st req))) \<subseteq> set (fs_sent st) \<union> {e. persisted fx (ev_uuid ev) e}"
proof -
  have r: "set (fs_sent (snd (reserve_and_pay fx ev s input recipient))) \<subseteq> set (fs_sent s) \<union> {e. persisted fx (ev_uuid ev) e}" for s input recipient
  proof (cases "faucet_reserve (fs_db s) (ev_uuid ev) input (ev_now ev 1) (limitsOf fx (fi_kind input))")
    case (Inr w)
    obtain res db where w: "w = (res, db)" by (cases w)
    show ?thesis
    proof (cases res)
      case (ReservedClaim c created)
      have "fc_id c = ev_uuid ev" if created
        using reserve_created(1) [of "fs_db s" "ev_uuid ev" input "ev_now ev 1" "limitsOf fx (fi_kind input)" c db] Inr that
        by (simp add: w ReservedClaim claim_row_def)
      then show ?thesis using Inr pay_sent [of fx ev "s\<lparr>fs_db := db\<rparr>" "ev_uuid ev" "fi_kind input" recipient]
        by (cases created) (simp_all add: reserve_and_pay_def w ReservedClaim)
    qed (use Inr in \<open>simp add: reserve_and_pay_def w\<close>)
  qed (simp add: reserve_and_pay_def)
  have a: "set (fs_sent (snd (admit fx ev s input own recipient))) \<subseteq> set (fs_sent s) \<union> {e. persisted fx (ev_uuid ev) e}" for s input own recipient
    using r [of "take_turn ev 1 s"] by (simp add: admit_def Let_def split: sum.split option.split FaucetAdmission.split)
  have d: "set (fs_sent (snd (decide fx ev st req))) \<subseteq> set (fs_sent st) \<union> {e. persisted fx (ev_uuid ev) e}"
    using a [of st] a [of "take_turn ev 0 st"] by (simp add: decide_def Let_def split: FaucetClaimKind.split sum.split)
  obtain out st' where "decide fx ev st req = (out, st')" by (cases "decide fx ev st req")
  with d show ?thesis by (auto simp: claim_def split: sum.split ClaimOutcome.split)
qed

lemma reconcile_rows_sent:
  "set (fs_sent (snd (reconcile_rows rc rows (mined, st)))) \<subseteq>
     set (fs_sent st) \<union> {(raw, db). \<exists>r \<in> set rows. fc_state r \<noteq> StReserved \<and> raw = the (fc_raw_tx r)}"
proof (induction rows arbitrary: mined st)
  case (Cons row rows)
  have re: "set (fs_sent (resend rc row s)) \<subseteq> insert (the (fc_raw_tx row), fs_db s) (set (fs_sent s))" for s
    by (simp add: resend_def Let_def split: sum.split BroadcastResult.split)
  have one: "set (fs_sent (snd (reconcile_row rc row (mined, st)))) \<subseteq>
      set (fs_sent st) \<union> {(raw, db). fc_state row \<noteq> StReserved \<and> raw = the (fc_raw_tx row)}"
  proof (cases "fc_state row = StReserved")
    case True
    then show ?thesis by (simp add: reconcile_row_def Let_def)
  next
    case False
    note r1 = re [of "rc_take rc (fc_id row) 0 st"] and r2 = re [of "rc_take rc (fc_id row) 1 (rc_take rc (fc_id row) 0 st)"]
    show ?thesis
    proof (cases "rc_receipt rc 0 (the (fc_tx_hash row))")
      case (Inr r)
      then show ?thesis using False r1 r2
        by (cases r; cases mined; cases "rc_latest rc (fc_id row)") (auto simp: reconcile_row_def Let_def)
    qed (use False in \<open>simp add: reconcile_row_def Let_def\<close>)
  qed
  obtain m s where r: "reconcile_row rc row (mined, st) = (m, s)" by (cases "reconcile_row rc row (mined, st)")
  have "set (fs_sent (snd (reconcile_rows rc rows (m, s)))) \<subseteq>
      set (fs_sent s) \<union> {(raw, db). \<exists>r \<in> set rows. fc_state r \<noteq> StReserved \<and> raw = the (fc_raw_tx r)}" by (rule Cons.IH)
  with one show ?case unfolding r by (auto simp: r)
qed simp

lemma service_reach_ok:
  assumes "0 \<le> cfg_ethDailyWei (fx_config fx)" "(service_step fx)\<^sup>*\<^sup>* no_claims st"
  shows "ledger_ok (limitsOf fx) (fs_db st)"
  using ledger_ok_reach [OF service_limits_wf [OF assms(1)]] service_leads [OF assms(2)] by (simp add: no_claims_def)

lemma reconcile_sent:
  assumes "claims_wf (fd_claims (fs_db st))" "(raw, db) \<in> set (fs_sent (snd (reconcile fx rc nd pending st)))" "(raw, db) \<notin> set (fs_sent st)"
  shows "\<exists>r \<in> set (fd_claims (fs_db st)). fc_state r \<in> {StSigned, StSent} \<and> fc_raw_tx r = Some raw"
proof -
  define st0 where "st0 = st\<lparr>fs_db := snd (faucet_prune (fs_db st) (rc_at rc - LEDGER_RETENTION_MS))\<rparr>"
  have "fs_sent st0 = fs_sent st" by (simp add: st0_def)
  moreover have "fs_sent (snd (reconcile fx rc nd pending st)) \<in> {fs_sent st0, fs_sent (snd (reconcile_rows rc (faucet_unsettled (fs_db st0)) (None, st0)))}"
    by (simp add: reconcile_def Let_def st0_def)
  ultimately obtain r where r: "r \<in> set (faucet_unsettled (fs_db st0))" "fc_state r \<noteq> StReserved" "raw = the (fc_raw_tx r)"
    using assms(2,3) reconcile_rows_sent [of rc "faucet_unsettled (fs_db st0)" None st0] by auto
  then have s: "r \<in> set (fd_claims (fs_db st))" "fc_state r \<in> {StSigned, StSent}"
    by (auto simp: faucet_unsettled_def st0_def faucet_prune_def Let_def INFLIGHT_def)
  then have "fc_raw_tx r \<noteq> None" using assms(1) by (auto simp: claims_wf_def row_wf_def is_signed_def)
  then show ?thesis using s r(3) by auto
qed

section \<open>Filling gaps\<close>

text \<open>The loop over nonces is a loop over the list of the gaps; what it does at one of them.\<close>

fun fill_all :: "faucet_fixed \<Rightarrow> node \<Rightarrow> int list \<Rightarrow> unit result \<times> FaucetTransaction list" where
  "fill_all fx nd [] = (Inr (), [])"
| "fill_all fx nd (n # ns) = (case fst nd (fill_tx fx n) of
     Inl e \<Rightarrow> (Inl e, [])
   | Inr raw \<Rightarrow> (case snd nd raw of
       Inl e \<Rightarrow> (Inl e, [fill_tx fx n])
     | Inr NodeRejected \<Rightarrow> (Inr (), [fill_tx fx n])
     | Inr NodeAccepted \<Rightarrow> (case fill_all fx nd ns of (r, txs) \<Rightarrow> (r, fill_tx fx n # txs))))"

definition gap_taken :: "faucet_fixed \<Rightarrow> node \<Rightarrow> int \<Rightarrow> bool" where
  "gap_taken fx nd n \<longleftrightarrow> (\<exists>raw. fst nd (fill_tx fx n) = Inr raw \<and> snd nd raw = Inr NodeAccepted)"

lemma fill_from_list:
  "fill_from fx nd taken highest p = fill_all fx nd (filter (\<lambda>n. n \<notin> taken) [p..highest - 1])"
proof (induction fx nd taken highest p rule: fill_from.induct)
  case (1 fx nd taken highest p)
  note unfold = fill_from.simps [of fx nd taken highest p]
  consider "highest \<le> p" | "\<not> highest \<le> p" "p \<in> taken" | "\<not> highest \<le> p" "p \<notin> taken" by blast
  then show ?case
  proof cases
    case 2
    have up: "[p..highest - 1] = p # [p + 1..highest - 1]" using 2 by (subst upto.simps) simp
    show ?thesis using "1.IH"(1) [OF 2] 2 unfolding up unfold by simp
  next
    case 3
    have up: "[p..highest - 1] = p # [p + 1..highest - 1]" using 3 by (subst upto.simps) simp
    show ?thesis using "1.IH"(2) [OF 3] 3 unfolding up unfold by (simp split: sum.split BroadcastResult.split)
  qed (simp add: unfold)
qed

lemma fill_all_prefix: "\<exists>k. snd (fill_all fx nd ns) = map (fill_tx fx) (take k ns)"
proof (induction ns)
  case (Cons n ns)
  then obtain k where k: "snd (fill_all fx nd ns) = map (fill_tx fx) (take k ns)" by blast
  have none: "\<exists>k. [] = map (fill_tx fx) (take k (n # ns))" by (rule exI [of _ 0]) simp
  have one: "\<exists>k. [fill_tx fx n] = map (fill_tx fx) (take k (n # ns))" by (rule exI [of _ 1]) simp
  have more: "\<exists>j. fill_tx fx n # map (fill_tx fx) (take k ns) = map (fill_tx fx) (take j (n # ns))"
    by (rule exI [of _ "Suc k"]) simp
  show ?case using none one more k by (simp add: split_beta split: sum.split BroadcastResult.split)
qed simp

text \<open>Every filler taken, or the first one that is not.\<close>

lemma fill_all_taken: "\<forall>n \<in> set ns. gap_taken fx nd n \<Longrightarrow> fill_all fx nd ns = (Inr (), map (fill_tx fx) ns)"
  by (induction ns) (auto simp: gap_taken_def)

lemma fill_all_stops:
  assumes "\<forall>n \<in> set before. gap_taken fx nd n" "\<not> gap_taken fx nd m"
  shows "fill_all fx nd (before @ m # rest) = (case fst nd (fill_tx fx m) of
     Inl e \<Rightarrow> (Inl e, map (fill_tx fx) before)
   | Inr raw \<Rightarrow> (case snd nd raw of Inl e \<Rightarrow> Inl e | Inr _ \<Rightarrow> Inr (), map (fill_tx fx) (before @ [m])))"
  using assms(1)
proof (induction before)
  case Nil
  show ?case using assms(2) by (auto simp: gap_taken_def split: sum.split BroadcastResult.split)
next
  case (Cons n before)
  then obtain raw where "fst nd (fill_tx fx n) = Inr raw" "snd nd raw = Inr NodeAccepted" by (auto simp: gap_taken_def)
  then show ?case using Cons by (simp split: sum.split)
qed

text \<open>A gap: a nonce from the pending count up, below the highest in flight, held by no claim in
  flight. In order, they are what the loop goes through.\<close>

definition is_gap :: "faucet_db \<Rightarrow> int \<Rightarrow> int \<Rightarrow> bool" where
  "is_gap db p n \<longleftrightarrow> p \<le> n \<and> n < Max (set (held_nonces db)) \<and> n \<notin> set (held_nonces db)"

definition gap_list :: "faucet_db \<Rightarrow> int \<Rightarrow> int list" where
  "gap_list db p = filter (\<lambda>n. n \<notin> set (held_nonces db)) [p..Max (set (held_nonces db)) - 1]"

lemma gap_list_facts: "set (gap_list db p) = {n. is_gap db p n}" "sorted (gap_list db p)" "distinct (gap_list db p)"
  "length (gap_list db p) = card {n. is_gap db p n}"
proof -
  show s: "set (gap_list db p) = {n. is_gap db p n}" by (auto simp: gap_list_def is_gap_def)
  show "sorted (gap_list db p)" by (simp add: gap_list_def sorted_wrt_filter)
  show d: "distinct (gap_list db p)" by (simp add: gap_list_def)
  show "length (gap_list db p) = card {n. is_gap db p n}" using distinct_card [OF d] s by simp
qed

lemma foldr_max_ge: "x \<in> set (n # ns) \<Longrightarrow> (x :: int) \<le> foldr max ns n"
  by (induction ns) (auto simp: max_def)

lemma foldr_max_in: "foldr max ns (n :: int) \<in> set (n # ns)"
  by (induction ns) (auto simp: max_def)

lemma fillGaps_list:
  assumes "held_nonces db \<noteq> []"
  shows "fillGaps fx nd (Inr p) db = fill_all fx nd (gap_list db p)"
proof -
  obtain h hs where h: "held_nonces db = h # hs" using assms by (cases "held_nonces db") auto
  have "foldr max hs h = Max (set (h # hs))"
    using foldr_max_ge [of _ h hs] foldr_max_in [of hs h] by (intro Max_eqI [symmetric]) auto
  then show ?thesis by (simp add: fillGaps_def h gap_list_def fill_from_list)
qed

lemma fill_tx_fields [simp]:
  "ftx_nonce (fill_tx fx n) = n" "ftx_to (fill_tx fx n) = fx_signer fx" "ftx_value (fill_tx fx n) = 0" "ftx_data (fill_tx fx n) = None"
  by (simp_all add: fill_tx_def)

lemma fill_all_nonces:
  "\<exists>k. map ftx_nonce (snd (fill_all fx nd ns)) = take k ns"
  "tx \<in> set (snd (fill_all fx nd ns)) \<Longrightarrow> tx = fill_tx fx (ftx_nonce tx) \<and> ftx_nonce tx \<in> set ns"
proof -
  obtain k where k: "snd (fill_all fx nd ns) = map (fill_tx fx) (take k ns)" using fill_all_prefix by blast
  show "\<exists>k. map ftx_nonce (snd (fill_all fx nd ns)) = take k ns" by (rule exI [of _ k]) (simp add: k comp_def)
  show "tx \<in> set (snd (fill_all fx nd ns)) \<Longrightarrow> tx = fill_tx fx (ftx_nonce tx) \<and> ftx_nonce tx \<in> set ns"
    by (auto simp: k dest: in_set_takeD)
qed

text \<open>Whatever the node answers, the reconciler's fillers move nothing and touch no nonce a claim holds.\<close>

lemma fillGaps_harmless:
  assumes "tx \<in> set (snd (fillGaps fx nd pending db))"
  shows "ftx_to tx = fx_signer fx \<and> ftx_value tx = 0 \<and> ftx_data tx = None \<and> ftx_nonce tx \<notin> set (held_nonces db)"
proof -
  have ne: "held_nonces db \<noteq> []" using assms by (auto simp: fillGaps_def)
  then obtain p where p: "pending = Inr p" using assms by (cases pending; cases "held_nonces db") (auto simp: fillGaps_def)
  have "tx \<in> set (snd (fill_all fx nd (gap_list db p)))" using assms unfolding p fillGaps_list [OF ne] .
  then have "tx = fill_tx fx (ftx_nonce tx)" "ftx_nonce tx \<in> set (gap_list db p)" using fill_all_nonces(2) by blast+
  moreover have "ftx_to (fill_tx fx (ftx_nonce tx)) = fx_signer fx \<and> ftx_value (fill_tx fx (ftx_nonce tx)) = 0 \<and>
      ftx_data (fill_tx fx (ftx_nonce tx)) = None" by simp
  ultimately show ?thesis by (simp add: gap_list_facts is_gap_def)
qed

lemma stop_splits:
  assumes "is_gap db p m"
  obtains before rest where "gap_list db p = before @ m # rest" "set before = {n. is_gap db p n \<and> n < m}"
proof -
  have "m \<in> set (gap_list db p)" using assms by (simp add: gap_list_facts)
  then obtain before rest where l: "gap_list db p = before @ m # rest" by (meson split_list)
  have "sorted (before @ m # rest)" "distinct (before @ m # rest)" using gap_list_facts(2,3) [of db p] by (simp_all add: l)
  moreover have "set (before @ m # rest) = {n. is_gap db p n}" using gap_list_facts(1) [of db p] by (simp add: l)
  ultimately have "set before = {n. is_gap db p n \<and> n < m}" by (fastforce simp: sorted_append)
  with l show ?thesis by (rule that)
qed

text \<open>C36: filling gaps ends, sends only to gaps, and stops only where the signer or the node stops
  it. From the pending count \<open>p\<close> the loop sends zero-value transactions of the faucet to itself, in
  increasing order of their nonces, each at a gap: a nonce from \<open>p\<close> up, below the highest in flight
  and held by no claim in flight; never more of them than there are gaps. If the signer signs and
  the node takes a filler for every gap, it returns with every gap filled. Otherwise, at the first
  gap whose filler is not signed and taken, every gap before it has been filled, no later one is
  tried, and the result is what happened there: the signer's error with nothing sent, the error of
  the send, or a plain return when the node rejected it, with that gap still open.\<close>

theorem gaps_are_filled:
  assumes "held_nonces db \<noteq> []" "fillGaps fx nd (Inr p) db = (res, txs)"
  shows "length txs \<le> card {n. is_gap db p n} \<and> sorted (map ftx_nonce txs) \<and> distinct (map ftx_nonce txs) \<and>
    (\<forall>tx \<in> set txs. ftx_to tx = fx_signer fx \<and> ftx_value tx = 0 \<and> is_gap db p (ftx_nonce tx)) \<and>
    ((\<forall>n. is_gap db p n \<longrightarrow> gap_taken fx nd n) \<longrightarrow> res = Inr () \<and> ftx_nonce ` set txs = {n. is_gap db p n}) \<and>
    (\<forall>m. is_gap db p m \<and> \<not> gap_taken fx nd m \<and> (\<forall>n. is_gap db p n \<and> n < m \<longrightarrow> gap_taken fx nd n) \<longrightarrow>
       (case fst nd (fill_tx fx m) of
          Inl e \<Rightarrow> res = Inl e \<and> ftx_nonce ` set txs = {n. is_gap db p n \<and> n < m}
        | Inr raw \<Rightarrow> res = (case snd nd raw of Inl e \<Rightarrow> Inl e | Inr _ \<Rightarrow> Inr ()) \<and>
            ftx_nonce ` set txs = insert m {n. is_gap db p n \<and> n < m}))"
proof -
  have f: "fill_all fx nd (gap_list db p) = (res, txs)" using assms(2) fillGaps_list [OF assms(1)] by simp
  note g = gap_list_facts [of db p]
  obtain k where k: "map ftx_nonce txs = take k (gap_list db p)" using fill_all_nonces(1) [of fx nd "gap_list db p"] f by auto
  have order: "sorted (map ftx_nonce txs) \<and> distinct (map ftx_nonce txs)"
    unfolding k using g(2,3) by (simp add: sorted_wrt_take)
  have "length txs = length (take k (gap_list db p))" using k by (metis length_map)
  then have bound: "length txs \<le> card {n. is_gap db p n}" using g(4) by simp
  have each: "\<forall>tx \<in> set txs. ftx_to tx = fx_signer fx \<and> ftx_value tx = 0 \<and> is_gap db p (ftx_nonce tx)"
  proof
    fix tx assume "tx \<in> set txs"
    then have "tx = fill_tx fx (ftx_nonce tx)" "ftx_nonce tx \<in> set (gap_list db p)" using fill_all_nonces(2) [of tx fx nd "gap_list db p"] f by auto
    then show "ftx_to tx = fx_signer fx \<and> ftx_value tx = 0 \<and> is_gap db p (ftx_nonce tx)"
      using g(1) fill_tx_fields [of fx "ftx_nonce tx"] by (metis mem_Collect_eq)
  qed
  have all: "res = Inr () \<and> ftx_nonce ` set txs = {n. is_gap db p n}" if "\<forall>n. is_gap db p n \<longrightarrow> gap_taken fx nd n"
    using fill_all_taken [of "gap_list db p" fx nd] f that by (simp add: g(1) image_image)
  have stop: "case fst nd (fill_tx fx m) of
          Inl e \<Rightarrow> res = Inl e \<and> ftx_nonce ` set txs = {n. is_gap db p n \<and> n < m}
        | Inr raw \<Rightarrow> res = (case snd nd raw of Inl e \<Rightarrow> Inl e | Inr _ \<Rightarrow> Inr ()) \<and>
            ftx_nonce ` set txs = insert m {n. is_gap db p n \<and> n < m}"
    if m: "is_gap db p m" "\<not> gap_taken fx nd m" "\<forall>n. is_gap db p n \<and> n < m \<longrightarrow> gap_taken fx nd n" for m
  proof -
    obtain before rest where l: "gap_list db p = before @ m # rest" "set before = {n. is_gap db p n \<and> n < m}" by (rule stop_splits [OF m(1)])
    have b: "\<forall>n \<in> set before. gap_taken fx nd n" using m(3) l(2) by blast
    show ?thesis using fill_all_stops [OF b m(2), of rest] f unfolding l(1)
      by (cases "fst nd (fill_tx fx m)") (auto simp: image_image simp flip: l(2))
  qed
  show ?thesis using bound order each all stop by blast
qed

definition demo_node :: node where
  "demo_node = ((\<lambda>tx. Inr (if ftx_nonce tx = 6 then ''0x02'' else ''0x03'')), (\<lambda>raw. Inr (if raw = ''0x02'' then NodeRejected else NodeAccepted)))"

lemma demo_held: "held_nonces (fs_db demo_end) = [7]"
  by (simp add: held_nonces_def faucet_unsettled_def demo_end_claims INFLIGHT_def List.map_filter_def)

text \<open>Pending 4, nonce 7 in flight: 4, 5 and 6 are gaps, the node takes 4 and 5 and rejects 6.\<close>

theorem gaps_are_filled_witness:
  "\<exists>txs. fillGaps demo_fx demo_node (Inr 4) (fs_db demo_end) = (Inr (), txs) \<and> ftx_nonce ` set txs = {4, 5, 6} \<and> length txs \<le> 3"
proof -
  obtain res txs where f: "fillGaps demo_fx demo_node (Inr 4) (fs_db demo_end) = (res, txs)"
    by (cases "fillGaps demo_fx demo_node (Inr 4) (fs_db demo_end)")
  have ne: "held_nonces (fs_db demo_end) \<noteq> []" by (simp add: demo_held)
  have gap: "is_gap (fs_db demo_end) 4 n \<longleftrightarrow> n \<in> {4, 5, 6}" for n by (auto simp: is_gap_def demo_held)
  have took: "gap_taken demo_fx demo_node n \<longleftrightarrow> n \<noteq> 6" for n by (simp add: gap_taken_def demo_node_def)
  have lt: "{n. is_gap (fs_db demo_end) 4 n \<and> n < 6} = {4, 5}" by (auto simp: gap)
  note g = gaps_are_filled [OF ne f]
  have every: "{n. is_gap (fs_db demo_end) 4 n} = {4, 5, 6}" by (auto simp: gap)
  have "length txs \<le> card {n. is_gap (fs_db demo_end) 4 n}" using g by (rule conjunct1)
  moreover have "res = Inr () \<and> ftx_nonce ` set txs = insert 6 {4, 5}"
  proof -
    have "case fst demo_node (fill_tx demo_fx 6) of
          Inl e \<Rightarrow> res = Inl e \<and> ftx_nonce ` set txs = {n. is_gap (fs_db demo_end) 4 n \<and> n < 6}
        | Inr raw \<Rightarrow> res = (case snd demo_node raw of Inl e \<Rightarrow> Inl e | Inr _ \<Rightarrow> Inr ()) \<and>
            ftx_nonce ` set txs = insert 6 {n. is_gap (fs_db demo_end) 4 n \<and> n < 6}"
      using g gap took by blast
    then show ?thesis unfolding lt by (simp add: demo_node_def)
  qed
  ultimately show ?thesis using f by (auto simp: every)
qed

section \<open>What is sent is on disk\<close>

lemma reconcile_fillers:
  "tx \<in> set (snd (fst (reconcile fx rc nd pending st))) \<Longrightarrow>
     ftx_to tx = fx_signer fx \<and> ftx_value tx = 0 \<and> ftx_data tx = None \<and>
     ftx_nonce tx \<notin> set (held_nonces (fs_db (snd (reconcile fx rc nd pending st))))"
  by (auto simp: reconcile_def Let_def dest: fillGaps_harmless split: if_splits)

text \<open>C32: no payment goes to the network that is not on disk first. In every reachable state,
  whatever the other requests do meanwhile, a transaction a claim hands to the node is at that
  moment in the ledger, in a signed row under the claim's identifier with its hash and its bytes;
  and what the reconciler hands to the node for a claim is exactly the bytes of a signed or sent
  row. So a crash between the two steps is recovered by the same transaction, never by a second
  one. The only transactions outside the ledger are the reconciler's gap fillers, and they pay
  nobody: each goes from the faucet to itself, with no value and no data, at a nonce that no claim
  then in flight holds.\<close>

theorem sends_are_persisted:
  assumes "0 \<le> cfg_ethDailyWei (fx_config fx)" "(service_step fx)\<^sup>*\<^sup>* no_claims st"
  shows "(\<forall>(raw, db) \<in> set (fs_sent (snd (claim fx ev st req))) - set (fs_sent st).
       \<exists>r \<in> set (fd_claims db). fc_id r = ev_uuid ev \<and> fc_state r = StSigned \<and> fc_raw_tx r = Some (toLowerCase raw) \<and>
         fc_tx_hash r = Some (toLowerCase (fx_keccak256 fx raw))) \<and>
    (\<forall>(raw, db) \<in> set (fs_sent (snd (reconcile fx rc nd pending st))) - set (fs_sent st).
       \<exists>r \<in> set (fd_claims (fs_db st)). fc_state r \<in> {StSigned, StSent} \<and> fc_raw_tx r = Some raw) \<and>
    (\<forall>tx \<in> set (snd (fst (reconcile fx rc nd pending st))). ftx_to tx = fx_signer fx \<and> ftx_value tx = 0 \<and> ftx_data tx = None \<and>
       ftx_nonce tx \<notin> set (held_nonces (fs_db (snd (reconcile fx rc nd pending st)))))"
proof (intro conjI ballI)
  fix e assume "e \<in> set (fs_sent (snd (claim fx ev st req))) - set (fs_sent st)"
  then have "persisted fx (ev_uuid ev) e" using claim_sent [of fx ev st req] by blast
  then show "case e of (raw, db) \<Rightarrow> \<exists>r \<in> set (fd_claims db). fc_id r = ev_uuid ev \<and> fc_state r = StSigned \<and>
      fc_raw_tx r = Some (toLowerCase raw) \<and> fc_tx_hash r = Some (toLowerCase (fx_keccak256 fx raw))"
    by (simp add: persisted_def split_beta)
next
  fix e assume e: "e \<in> set (fs_sent (snd (reconcile fx rc nd pending st))) - set (fs_sent st)"
  have wf: "claims_wf (fd_claims (fs_db st))" using service_reach_ok [OF assms] by (simp add: ledger_ok_def)
  show "case e of (raw, db) \<Rightarrow> \<exists>r \<in> set (fd_claims (fs_db st)). fc_state r \<in> {StSigned, StSent} \<and> fc_raw_tx r = Some raw"
    using e reconcile_sent [OF wf, of "fst e" "snd e" fx rc nd pending] by (simp add: split_beta)
qed (blast dest: reconcile_fillers)+

theorem sends_are_persisted_witness:
  "fs_sent demo_end = [(''0x02f8'', demo_signed)] \<and>
   (\<exists>r \<in> set (fd_claims demo_signed). fc_id r = ''claim-1'' \<and> fc_raw_tx r = Some (toLowerCase ''0x02f8''))"
proof -
  obtain v where c: "claim demo_fx demo_ev no_claims demo_request = (Inr (ClaimOk v), demo_end)" using demo_runs by blast
  have "(''0x02f8'', demo_signed) \<in> set (fs_sent (snd (claim demo_fx demo_ev no_claims demo_request))) - set (fs_sent no_claims)"
    using c by (simp add: demo_end_def no_claims_def)
  then have "\<exists>r \<in> set (fd_claims demo_signed). fc_id r = ev_uuid demo_ev \<and> fc_raw_tx r = Some (toLowerCase ''0x02f8'')"
    using sends_are_persisted [OF demo_daily rtranclp.rtrancl_refl, of demo_ev demo_request] by blast
  then show ?thesis by (simp add: demo_end_def demo_ev_def)
qed

section \<open>Refusals cost nothing\<close>

text \<open>A transition of the last row.\<close>

definition last_row :: "FaucetClaimRow list \<Rightarrow> string \<Rightarrow> FaucetClaimRow \<Rightarrow> faucet_db \<Rightarrow> bool" where
  "last_row rows i c db \<longleftrightarrow> fd_claims db = rows @ [c] \<and> fc_id c = i \<and> (\<forall>r \<in> set rows. fc_id r \<noteq> i)"

lemma last_row_get: "last_row rows i c db \<Longrightarrow> claim_by_id db i = Some c"
proof -
  have "find P (xs @ [y]) = Some y" if "\<forall>x \<in> set xs. \<not> P x" "P y" for P and xs :: "FaucetClaimRow list" and y
    using that by (induction xs) auto
  then show "last_row rows i c db \<Longrightarrow> claim_by_id db i = Some c" by (auto simp: last_row_def claim_by_id_def)
qed

lemma last_row_transition:
  assumes "last_row rows i c db" "\<And>r. fc_id (upd r) = fc_id r"
  shows "last_row rows i (if fc_state c \<in> S then (upd c)\<lparr>fc_state := target, fc_updated_at := now\<rparr> else c) (snd (transition db i S target now upd))"
    "fst (transition db i S target now upd) = (fc_state c \<in> S)"
proof -
  have no: "\<not> at_claim i S r" if "r \<in> set rows" for r using assms(1) that by (auto simp: last_row_def at_claim_def)
  have "update_where (at_claim i S) f rows = rows" for f using no by (simp add: update_where_def map_idI)
  moreover have "filter (at_claim i S) rows = []" using no by (simp add: filter_empty_conv)
  ultimately show "last_row rows i (if fc_state c \<in> S then (upd c)\<lparr>fc_state := target, fc_updated_at := now\<rparr> else c) (snd (transition db i S target now upd))"
    "fst (transition db i S target now upd) = (fc_state c \<in> S)"
    using assms by (auto simp: last_row_def transition_rows transition_def at_claim_def update_where_def)
qed

lemma last_row_mark:
  assumes "last_row rows i c (fs_db st)"
  shows "\<exists>c'. last_row rows i c' (fs_db (with_db (\<lambda>d. markFailed d i t) st)) \<and> (fc_state c \<in> INFLIGHT \<longrightarrow> fc_state c' = StFailed)"
    "\<exists>c'. last_row rows i c' (fs_db (with_db (\<lambda>d. markSent d i t) st))"
proof -
  note f = last_row_transition(1) [OF assms, where upd = id and S = "{StReserved, StSigned, StSent}" and target = StFailed and now = t]
    and s = last_row_transition(1) [OF assms, where upd = id and S = "{StSigned, StSent}" and target = StSent and now = t]
  show "\<exists>c'. last_row rows i c' (fs_db (with_db (\<lambda>d. markFailed d i t) st)) \<and> (fc_state c \<in> INFLIGHT \<longrightarrow> fc_state c' = StFailed)"
    using f by (cases "fc_state c \<in> {StReserved, StSigned, StSent}") (auto simp: with_db_def markFailed_def INFLIGHT_def)
  show "\<exists>c'. last_row rows i c' (fs_db (with_db (\<lambda>d. markSent d i t) st))"
    using s by (auto simp: with_db_def markSent_def)
qed

lemma caught_refused:
  assumes "last_row rows i c (fs_db st)" "claim_caught fx ev st i = (Inr (ClaimRefused r s n), st')"
  shows "\<exists>c'. last_row rows i c' (fs_db st') \<and> fc_state c' = StFailed"
proof (cases "fc_state c = StReserved")
  case True
  then have "st' = with_db (\<lambda>d. markFailed d i (ev_now ev 6)) st"
    using assms(2) last_row_get [OF assms(1)] by (simp add: claim_caught_def Let_def)
  then show ?thesis using last_row_mark(1) [OF assms(1), of "ev_now ev 6"] True by (auto simp: INFLIGHT_def)
next
  case False
  then have "st' = st" "fc_state c = StFailed"
    using assms(2) last_row_get [OF assms(1)] by (auto simp: claim_caught_def Let_def view_of_def split: if_splits)
  then show ?thesis using assms(1) by blast
qed

lemma sign_and_send_alone:
  assumes "\<And>n d. ev_turn ev n d = d" "last_row rows i c (fs_db st)" "fc_state c = StReserved"
    and "sign_and_send fx ev st i k recipient v nonce = (out, st')"
  shows "(\<exists>c'. last_row rows i c' (fs_db st')) \<and> (\<forall>o'. out \<noteq> Inr (Stopped o'))"
proof -
  have turn: "take_turn ev n s = s" for n s using assms(1) by (simp add: take_turn_def)
  show ?thesis
  proof (cases "ev_sign ev (claim_tx fx k recipient v nonce)")
    case (Inl e)
    then show ?thesis using assms(2,4) by (auto simp: sign_and_send_def turn)
  next
    case (Inr raw)
    show ?thesis
    proof (cases "markSigned (fs_db st) i (signed_as fx v nonce raw) (ev_now ev 4)")
      case (Inl e)
      then show ?thesis using Inr assms(2,4) by (auto simp: sign_and_send_def turn)
    next
      case mk: (Inr w)
      then have w: "w = transition (fs_db st) i {StReserved} StSigned (ev_now ev 4) (write_signed (signed_as fx v nonce raw))"
        by (auto simp: markSigned_def result_simps)
      have u: "fc_id (write_signed sg r) = fc_id r" for sg r by (simp add: write_signed_def)
      obtain db where d: "w = (True, db)" "\<exists>c'. last_row rows i c' db"
        using last_row_transition [OF assms(2), where upd = "write_signed (signed_as fx v nonce raw)" and S = "{StReserved}"
          and target = StSigned and now = "ev_now ev 4"] u assms(3) w
        by (metis prod.collapse insertI1)
      let ?st4 = "st\<lparr>fs_db := db, fs_sent := (raw, db) # fs_sent st\<rparr>"
      have e: "sign_and_send fx ev st i k recipient v nonce = (case ev_sendRaw ev raw of
             Inl _ \<Rightarrow> (Inr (SentAs (fx_keccak256 fx raw)), ?st4)
           | Inr NodeRejected \<Rightarrow> (Inl (Error ''the node rejected the transaction''), with_db (\<lambda>d. markFailed d i (ev_now ev 5)) ?st4)
           | Inr NodeAccepted \<Rightarrow> (Inr (SentAs (fx_keccak256 fx raw)), with_db (\<lambda>d. markSent d i (ev_now ev 5)) ?st4))"
        using Inr mk by (simp add: sign_and_send_def turn d(1) Let_def)
      obtain c' where c': "last_row rows i c' (fs_db ?st4)" using d(2) by auto
      have "out \<noteq> Inr (Stopped o')" for o' using assms(4) unfolding e by (auto split: sum.splits BroadcastResult.splits)
      moreover have "st' \<in> {?st4, with_db (\<lambda>d. markFailed d i (ev_now ev 5)) ?st4, with_db (\<lambda>d. markSent d i (ev_now ev 5)) ?st4}"
        using assms(4) unfolding e by (auto split: sum.splits BroadcastResult.splits)
      ultimately show ?thesis using c' last_row_mark [OF c', of "ev_now ev 5"] by blast
    qed
  qed
qed

lemma broadcast_alone:
  assumes "\<And>n d. ev_turn ev n d = d" "last_row rows i c (fs_db st)" "fc_state c = StReserved"
    and "broadcast fx ev st i k recipient v = (out, st')"
  shows "\<exists>c'. last_row rows i c' (fs_db st') \<and> (\<forall>o'. out = Inr (Stopped o') \<longrightarrow> fc_state c' = StFailed)"
proof -
  have turn: "take_turn ev n s = s" for n s using assms(1) by (simp add: take_turn_def)
  show ?thesis
  proof (cases "affordable fx ev k (fs_db st)")
    case (Inl e)
    then show ?thesis using assms(2,4) by (auto simp: broadcast_def turn)
  next
    case (Inr blocked)
    show ?thesis
    proof (cases blocked)
      case None
      show ?thesis
      proof (cases "ev_pending ev")
        case (Inl e)
        then show ?thesis using assms(2,4) Inr None by (auto simp: broadcast_def turn)
      next
        case p: (Inr p)
        then have "sign_and_send fx ev st i k recipient v (max p (faucet_nextNonce (fs_db st))) = (out, st')"
          using assms(4) Inr None by (simp add: broadcast_def turn)
        from sign_and_send_alone [OF assms(1-3) this] show ?thesis by blast
      qed
    next
      case (Some r)
      let ?s = "if r = FaucetEmpty then st\<lparr>fs_cache := None\<rparr> else st"
      have "last_row rows i c (fs_db ?s)" using assms(2) by simp
      from last_row_mark(1) [OF this, of "ev_now ev 3"] assms(3,4) Inr Some show ?thesis
        by (auto simp: broadcast_def turn INFLIGHT_def)
    qed
  qed
qed

lemma pay_refused:
  assumes "\<And>n d. ev_turn ev n d = d" "last_row rows i c (fs_db st)" "fc_state c = StReserved"
    and "pay fx ev st i k recipient = (Inr (ClaimRefused r s n), st')"
  shows "\<exists>c'. last_row rows i c' (fs_db st') \<and> fc_state c' = StFailed"
proof -
  have turn: "take_turn ev n s = s" for n s using assms(1) by (simp add: take_turn_def)
  have view: "view_of fx t db i \<noteq> Inr (ClaimRefused r s n)" for t db by (simp add: view_of_def split: option.split)
  show ?thesis
  proof (cases "plan ev k recipient")
    case (Inl e)
    then show ?thesis using assms(4) by (intro caught_refused [OF assms(2)]) (simp add: pay_def turn)
  next
    case (Inr v)
    obtain out st3 where br: "broadcast fx ev st i k recipient v = (out, st3)" by (cases "broadcast fx ev st i k recipient v")
    obtain c' where c': "last_row rows i c' (fs_db st3)" "\<And>o'. out = Inr (Stopped o') \<Longrightarrow> fc_state c' = StFailed"
      using broadcast_alone [OF assms(1-3) br] by blast
    have nz: "v \<noteq> 0" using assms(4) Inr view by (auto simp: pay_def turn Let_def)
    show ?thesis
    proof (cases out)
      case (Inl e)
      then show ?thesis using assms(4) Inr br nz by (intro caught_refused [OF c'(1)]) (simp add: pay_def turn)
    next
      case o: (Inr b)
      then show ?thesis using assms(4) Inr br nz c' view by (cases b) (auto simp: pay_def turn Let_def)
    qed
  qed
qed

text \<open>C35: a refusal locks no one out. Whatever a claim is refused for (the tab is off, a mission, a
  limit, the wallet's code, an empty faucet, a fee spike, a failed read, a transaction the node
  rejects), when no other request writes meanwhile the rows every window and limit counts are the
  same before and after: the answer is recorded only as a count of the reason.\<close>

theorem refusal_costs_nothing:
  assumes "\<And>n d. ev_turn ev n d = d" "claim fx ev st req = (Inr (ClaimRefused r s n), st')"
  shows "filter (\<lambda>r. fc_state r \<in> ACTIVE) (fd_claims (fs_db st')) = filter (\<lambda>r. fc_state r \<in> ACTIVE) (fd_claims (fs_db st))"
proof -
  have turn: "take_turn ev n s = s" for n s using assms(1) by (simp add: take_turn_def)
  have failed: "filter (\<lambda>r. fc_state r \<in> ACTIVE) (fd_claims d) = filter (\<lambda>r. fc_state r \<in> ACTIVE) rows"
    if "last_row rows i c d" "fc_state c = StFailed" for rows i c d using that by (simp add: last_row_def ACTIVE_def)
  have res: "filter (\<lambda>r. fc_state r \<in> ACTIVE) (fd_claims (fs_db s')) = filter (\<lambda>r. fc_state r \<in> ACTIVE) (fd_claims (fs_db st))"
    if rp: "reserve_and_pay fx ev st input recipient = (Inr (ClaimRefused r s n), s')" for input recipient s'
  proof (cases "faucet_reserve (fs_db st) (ev_uuid ev) input (ev_now ev 1) (limitsOf fx (fi_kind input))")
    case (Inl e)
    then show ?thesis using rp by (simp add: reserve_and_pay_def)
  next
    case (Inr w)
    obtain rs db where w: "w = (rs, db)" by (cases w)
    show ?thesis
    proof (cases rs)
      case (NotReserved refused)
      then have "db = fs_db st" using Inr
        by (auto simp: w faucet_reserve_def reserveTx_def result_simps split: option.splits FaucetAdmission.splits)
      then show ?thesis using rp Inr NotReserved by (auto simp: reserve_and_pay_def w)
    next
      case (ReservedClaim c created)
      show ?thesis
      proof (cases created)
        case True
        then have "faucet_reserve (fs_db st) (ev_uuid ev) input (ev_now ev 1) (limitsOf fx (fi_kind input)) = Inr (ReservedClaim c True, db)"
          using Inr by (simp add: w ReservedClaim)
        note c = reserve_created [OF this]
        have "last_row (fd_claims (fs_db st)) (fc_id c) c (fs_db (st\<lparr>fs_db := db\<rparr>))" "fc_state c = StReserved"
          using c by (auto simp: last_row_def claim_by_id_def find_None_iff claim_row_def)
        moreover have "pay fx ev (st\<lparr>fs_db := db\<rparr>) (fc_id c) (fi_kind input) recipient = (Inr (ClaimRefused r s n), s')"
          using rp Inr True by (simp add: reserve_and_pay_def w ReservedClaim)
        ultimately show ?thesis using pay_refused [OF assms(1)] failed by blast
      next
        case False
        then show ?thesis using rp Inr by (simp add: reserve_and_pay_def w ReservedClaim)
      qed
    qed
  qed
  have adm: "filter (\<lambda>r. fc_state r \<in> ACTIVE) (fd_claims (fs_db s')) = filter (\<lambda>r. fc_state r \<in> ACTIVE) (fd_claims (fs_db st))"
    if "admit fx ev st input own recipient = (Inr (ClaimRefused r s n), s')" for input own recipient s'
    using that res by (auto simp: admit_def turn Let_def split: sum.splits option.splits FaucetAdmission.splits)
  obtain out s' where d: "decide fx ev st req = (out, s')" by (cases "decide fx ev st req")
  then have out: "out = Inr (ClaimRefused r s n)" and db: "fd_claims (fs_db st') = fd_claims (fs_db s')"
    using assms(2) by (auto simp: claim_def countRefusal_claims split: sum.splits ClaimOutcome.splits)
  have "filter (\<lambda>r. fc_state r \<in> ACTIVE) (fd_claims (fs_db s')) = filter (\<lambda>r. fc_state r \<in> ACTIVE) (fd_claims (fs_db st))"
    using d adm unfolding out by (auto simp: decide_def turn Let_def split: if_splits FaucetClaimKind.splits sum.splits)
  then show ?thesis unfolding db .
qed

theorem refusal_costs_nothing_witness:
  "\<exists>st'. claim demo_fx demo_spike no_claims demo_request = (Inr (ClaimRefused FeeTooHigh 503 None), st') \<and>
     fd_claims (fs_db st') \<noteq> [] \<and> filter (\<lambda>r. fc_state r \<in> ACTIVE) (fd_claims (fs_db st')) = []"
proof -
  obtain st' where "claim demo_fx demo_spike no_claims demo_request = (Inr (ClaimRefused FeeTooHigh 503 None), st') \<and>
      map fc_state (fd_claims (fs_db st')) = [StFailed]" using demo_refused by (rule exE)
  then have c: "claim demo_fx demo_spike no_claims demo_request = (Inr (ClaimRefused FeeTooHigh 503 None), st')"
    "map fc_state (fd_claims (fs_db st')) = [StFailed]" by simp_all
  have "ev_turn demo_spike n d = d" for n d by (simp add: demo_spike_def demo_ev_def)
  from refusal_costs_nothing [OF this c(1)] have "filter (\<lambda>r. fc_state r \<in> ACTIVE) (fd_claims (fs_db st')) = []"
    by (simp add: no_claims_def empty_faucet_def)
  moreover have "fd_claims (fs_db st') \<noteq> []" using c(2) by (metis list.simps(8) not_Cons_self2)
  ultimately show ?thesis using c(1) by (intro exI conjI)
qed

section \<open>The reconciler's verdicts\<close>

lemma claim_by_id_member:
  assumes "distinct (map fc_id (fd_claims db))" "row \<in> set (fd_claims db)"
  shows "claim_by_id db (fc_id row) = Some row"
proof -
  have "find (\<lambda>r. fc_id r = fc_id row) rows = Some row" if "distinct (map fc_id rows)" "row \<in> set rows" for rows
    using that by (induction rows) auto
  then show ?thesis using assms by (simp add: claim_by_id_def)
qed

lemma marks_one:
  assumes "claim_by_id db i = Some row" "fc_state row \<in> {StSigned, StSent}" "fc_id row = i"
  shows "claim_by_id (snd (markConfirmed db i t)) i = Some (row\<lparr>fc_state := StConfirmed, fc_updated_at := t\<rparr>)"
    "claim_by_id (snd (markFailed db i t)) i = Some (row\<lparr>fc_state := StFailed, fc_updated_at := t\<rparr>)"
    "claim_by_id (snd (markSent db i t)) i = Some (row\<lparr>fc_state := StSent, fc_updated_at := t\<rparr>)"
  using assms unfolding markConfirmed_def markFailed_def markSent_def
  by (subst claim_by_id_transition; auto simp: at_claim_def)+

lemma finish_claim_one:
  assumes "claim_by_id (fs_db st) i = Some row" "fc_state row \<in> {StSigned, StSent}" "fc_id row = i"
  shows "claim_by_id (fs_db (finish_claim rc i b st)) i =
    Some (row\<lparr>fc_state := if b then StConfirmed else StFailed, fc_updated_at := rc_now rc i\<rparr>)"
  using marks_one [OF assms] by (simp add: finish_claim_def with_db_def)

text \<open>C37: the reconciler's verdicts follow the chain. For a signed or sent claim, when no other
  request writes meanwhile: it is confirmed only if some reading of its receipt said success, and a
  first reading that says success or reverted decides; it is failed only if the receipt says
  reverted, or if there is no receipt and, read again, still no success after the mined nonce
  passed the claim's or the node refused the same bytes; a first reading that fails leaves the row
  as it was; and whatever the verdict, the claim's nonce, hash and bytes stay.\<close>

theorem reconcile_verdict:
  assumes "\<And>i n d. rc_turn rc i n d = d" "distinct (map fc_id (fd_claims (fs_db st)))" "row \<in> set (fd_claims (fs_db st))"
    and "fc_state row \<in> {StSigned, StSent}" "fc_tx_hash row = Some h" "fc_raw_tx row = Some raw" "fc_nonce row = Some n"
    and "reconcile_row rc row (mined, st) = (mined', st')"
  shows "\<exists>r'. claim_by_id (fs_db st') (fc_id row) = Some r' \<and>
     fc_nonce r' = Some n \<and> fc_tx_hash r' = Some h \<and> fc_raw_tx r' = Some raw \<and>
     (fc_state r' = StConfirmed \<longrightarrow> (\<exists>m. rc_receipt rc m h = Inr (Some ReceiptSuccess))) \<and>
     (fc_state r' = StFailed \<longrightarrow> rc_receipt rc 0 h = Inr (Some ReceiptReverted) \<or>
        (rc_receipt rc 0 h = Inr None \<and> (\<exists>m x. rc_receipt rc m h = Inr x \<and> x \<noteq> Some ReceiptSuccess \<and> m \<noteq> 0) \<and>
          ((\<exists>m. mined' = Some m \<and> n < m) \<or> rc_sendRaw rc raw = Inr NodeRejected))) \<and>
     (rc_receipt rc 0 h = Inr (Some ReceiptSuccess) \<longrightarrow> fc_state r' = StConfirmed) \<and>
     (rc_receipt rc 0 h = Inr (Some ReceiptReverted) \<longrightarrow> fc_state r' = StFailed) \<and>
     (\<forall>e. rc_receipt rc 0 h = Inl e \<longrightarrow> r' = row)"
proof -
  let ?i = "fc_id row"
  have take: "rc_take rc i m s = s" for i m s using assms(1) by (simp add: rc_take_def)
  have got: "claim_by_id (fs_db st) ?i = Some row" by (rule claim_by_id_member [OF assms(2,3)])
  note fin = finish_claim_one [OF got assms(4) refl]
  have res: "reconcile_row rc row (mined, st) = (case rc_receipt rc 0 h of
      Inl _ \<Rightarrow> (mined, st)
    | Inr (Some r) \<Rightarrow> (mined, finish_claim rc ?i (r = ReceiptSuccess) st)
    | Inr None \<Rightarrow> (case (case mined of Some m \<Rightarrow> Inr m | None \<Rightarrow> rc_latest rc ?i) of
        Inl _ \<Rightarrow> (None, st)
      | Inr m \<Rightarrow> (Some m, if n < m then read_again rc row 4 st
          else if rc_at rc - fc_updated_at row < REBROADCAST_AFTER_MS then st else resend rc row st)))"
    unfolding reconcile_row_def Let_def take prod.case if_cancel assms(5-7) option.sel using assms(4) by auto
  have again: "claim_by_id (fs_db (read_again rc row m s)) ?i = (case rc_receipt rc m h of Inl _ \<Rightarrow> Some row
      | Inr x \<Rightarrow> Some (row\<lparr>fc_state := if x = Some ReceiptSuccess then StConfirmed else StFailed, fc_updated_at := rc_now rc ?i\<rparr>))"
    if "fs_db s = fs_db st" for m s
    using that finish_claim_one [of s ?i row rc] got assms(4,5) by (simp add: read_again_def Let_def take split: sum.split)
  have rs: "claim_by_id (fs_db (resend rc row st)) ?i = (case rc_sendRaw rc raw of Inl _ \<Rightarrow> Some row
      | Inr NodeAccepted \<Rightarrow> Some (row\<lparr>fc_state := StSent, fc_updated_at := rc_now rc ?i\<rparr>)
      | Inr NodeRejected \<Rightarrow> (case rc_receipt rc 3 h of Inl _ \<Rightarrow> Some row
          | Inr x \<Rightarrow> Some (row\<lparr>fc_state := if x = Some ReceiptSuccess then StConfirmed else StFailed, fc_updated_at := rc_now rc ?i\<rparr>)))"
    using got assms(6) marks_one(3) [OF got assms(4) refl] again
    by (simp add: resend_def Let_def take with_db_def split: sum.split BroadcastResult.split)
  have st: "fc_state row \<noteq> StConfirmed" "fc_state row \<noteq> StFailed" using assms(4) by auto
  show ?thesis
  proof (cases "rc_receipt rc 0 h")
    case (Inl e)
    then show ?thesis using res assms(5-8) got st by simp
  next
    case first: (Inr r)
    show ?thesis
    proof (cases r)
      case (Some v)
      then have "st' = finish_claim rc ?i (v = ReceiptSuccess) st" using res assms(8) first by simp
      then show ?thesis using fin [of rc "v = ReceiptSuccess"] assms(5-7) first Some by (cases v) auto
    next
      case None
      show ?thesis
      proof (cases "case mined of Some m \<Rightarrow> Inr m | None \<Rightarrow> rc_latest rc ?i")
        case (Inl e)
        then have "st' = st" using res assms(8) first None by simp
        then show ?thesis using got assms(5-7) st first None by simp
      next
        case (Inr m)
        then have m: "mined' = Some m" and st': "st' = (if n < m then read_again rc row 4 st
            else if rc_at rc - fc_updated_at row < REBROADCAST_AFTER_MS then st else resend rc row st)"
          using res assms(8) first None by simp_all
        consider (passed) "n < m" | (young) "st' = st" | (old) "st' = resend rc row st" using st' by (auto split: if_splits)
        then show ?thesis
        proof cases
          case passed
          then show ?thesis using again [of st 4] assms(5-7) st first None m st' by (cases "rc_receipt rc 4 h") force+
        next
          case young
          then show ?thesis using got assms(5-7) st first None by simp
        next
          case old
          show ?thesis
          proof (cases "rc_sendRaw rc raw")
            case (Inl e)
            then show ?thesis using rs old assms(5-7) st first None by simp
          next
            case (Inr b)
            then show ?thesis using rs old assms(5-7) st first None by (cases b; cases "rc_receipt rc 3 h") force+
          qed
        qed
      qed
    qed
  qed
qed

definition demo_rc :: reconcile_turns where
  "demo_rc = \<lparr>rc_at = 2000000, rc_now = (\<lambda>_. 2000000), rc_turn = (\<lambda>_ _ d. d), rc_receipt = (\<lambda>_ _. Inr (Some ReceiptSuccess)),
     rc_latest = (\<lambda>_. Inr 8), rc_sendRaw = (\<lambda>_. Inr NodeAccepted)\<rparr>"

definition demo_sent_row :: FaucetClaimRow where
  "demo_sent_row = demo_row\<lparr>fc_amount := String 1000000000, fc_nonce := Some 7,
     fc_tx_hash := Some (''0x'' @ replicate 64 CHR ''c''), fc_raw_tx := Some ''0x02f8'', fc_state := StSent, fc_updated_at := 1000000\<rparr>"

theorem reconcile_verdict_witness:
  "\<exists>r'. claim_by_id (fs_db (snd (reconcile_row demo_rc demo_sent_row (None, demo_end)))) ''claim-1'' = Some r' \<and> fc_state r' = StConfirmed"
proof -
  obtain m st' where r: "reconcile_row demo_rc demo_sent_row (None, demo_end) = (m, st')" by (cases "reconcile_row demo_rc demo_sent_row (None, demo_end)")
  have c: "fd_claims (fs_db demo_end) = [demo_sent_row]" by (simp add: demo_end_claims demo_sent_row_def)
  have f: "rc_turn demo_rc i n d = d" "rc_receipt demo_rc k h = Inr (Some ReceiptSuccess)" for i n d k h by (simp_all add: demo_rc_def)
  have i: "fc_id demo_sent_row = ''claim-1''" by (simp add: demo_sent_row_def demo_row_def claim_row_def)
  have w: "distinct (map fc_id (fd_claims (fs_db demo_end)))" "demo_sent_row \<in> set (fd_claims (fs_db demo_end))"
    "fc_state demo_sent_row \<in> {StSigned, StSent}" "fc_tx_hash demo_sent_row = Some (''0x'' @ replicate 64 CHR ''c'')"
    "fc_raw_tx demo_sent_row = Some ''0x02f8''" "fc_nonce demo_sent_row = Some 7"
    unfolding c by (simp_all add: demo_sent_row_def)
  from reconcile_verdict [OF f(1) w r] f(2) i r show ?thesis by auto
qed

section \<open>The floor\<close>

lemma quiet_turn_inflight:
  assumes "fair_turns fx ev" "in_mutex n" "ledger_ok (limitsOf fx) (fs_db st)"
  shows "fst (faucet_inflight (fs_db (take_turn ev n st))) \<le> fst (faucet_inflight (fs_db st)) \<and>
    snd (faucet_inflight (fs_db (take_turn ev n st))) \<le> snd (faucet_inflight (fs_db st)) \<and> ledger_ok (limitsOf fx) (fs_db (take_turn ev n st))"
  using turn_facts(2) [OF assms(1,2), of st]
proof (induction rule: rtranclp_induct)
  case (step b c)
  have "\<forall>r \<in> set (fd_claims b). 0 \<le> BigInt (fc_amount r)" using step(3) by (auto simp: ledger_ok_def claims_wf_def row_wf_def)
  from quiet_inflight [OF step(2) this] ledger_ok_step [OF quiet_is_step [OF step(2)]] step(3) show ?case by auto
qed (use assms(3) in simp)

lemma ledger_ok_leads: "leads fx db db' \<Longrightarrow> ledger_ok (limitsOf fx) db \<Longrightarrow> ledger_ok (limitsOf fx) db'"
  by (induction rule: rtranclp_induct) (blast intro: ledger_ok_step)+

lemma sign_inflight:
  assumes "markSigned db i sg now = Inr (True, db')"
  shows "fst (faucet_inflight db') \<le> fst (faucet_inflight db) + sg_amount sg" "snd (faucet_inflight db') = snd (faucet_inflight db) + 1"
proof -
  let ?q = "at_claim i {StReserved}" and ?f = "\<lambda>r. (write_signed sg r)\<lparr>fc_state := StSigned, fc_updated_at := now\<rparr>"
  have pos: "0 < sg_amount sg" and rows: "fd_claims db' = update_where ?q ?f (fd_claims db)" and one: "length (filter ?q (fd_claims db)) = 1"
    using assms transition_rows [of db i "{StReserved}" StSigned now "write_signed sg"]
    by (auto simp: markSigned_def result_simps transition_def)
  let ?w = "\<lambda>rows. committed (filter (\<lambda>r. fc_kind r = Eth) (filter (\<lambda>r. fc_state r \<in> {StSigned, StSent}) rows))"
    and ?n = "\<lambda>rows. int (length (filter (\<lambda>r. fc_state r \<in> {StSigned, StSent}) rows))"
  have "?w (update_where ?q ?f rs) \<le> ?w rs + int (length (filter ?q rs)) * sg_amount sg \<and> ?n (update_where ?q ?f rs) = ?n rs + int (length (filter ?q rs))" for rs
  proof (induction rs)
    case (Cons x xs)
    show ?case
    proof (cases "?q x")
      case True
      then have "fc_state x = StReserved" by (simp add: at_claim_def)
      then show ?thesis using Cons True pos
        by (cases "fc_kind x") (simp_all add: update_where_Cons committed_def write_signed_def algebra_simps)
    next
      case False
      then show ?thesis using Cons by (simp add: update_where_Cons committed_def)
    qed
  qed (simp add: update_where_def)
  from this [of "fd_claims db"] one rows
  show "fst (faucet_inflight db') \<le> fst (faucet_inflight db) + sg_amount sg" "snd (faucet_inflight db') = snd (faucet_inflight db) + 1"
    by (simp_all add: faucet_inflight_def Let_def)
qed

text \<open>What an ETH claim leaves behind, with everything in flight at its worst-case fee.\<close>

definition above_floor :: "faucet_fixed \<Rightarrow> int \<Rightarrow> faucet_db \<Rightarrow> bool" where
  "above_floor fx balance db \<longleftrightarrow> cfg_minBalanceWei (fx_config fx) \<le>
     balance - fst (faucet_inflight db) - (snd (faucet_inflight db) - 1) * (MINT_GAS * MAX_FEE_PER_GAS) - TRANSFER_GAS * MAX_FEE_PER_GAS"

lemma broadcast_floor:
  assumes fair: "fair_turns fx ev" and ok: "ledger_ok (limitsOf fx) (fs_db st)" and bal: "ev_balance ev (fx_signer fx) = Inr balance"
    and v: "v \<le> FAUCET_ETH_AMOUNT_WEI"
    and new: "(raw, db) \<in> set (fs_sent (snd (broadcast fx ev st i Eth recipient v)))" "(raw, db) \<notin> set (fs_sent st)"
  shows "above_floor fx balance db"
proof -
  define st1 where "st1 = take_turn ev 3 st"
  define st2 where "st2 = take_turn ev 4 st1"
  define st3 where "st3 = take_turn ev 5 st2"
  have ok1: "ledger_ok (limitsOf fx) (fs_db st1)" using ledger_ok_leads [OF turn_facts(1) [OF fair]] ok by (simp add: st1_def)
  have m: "in_mutex 4" "in_mutex 5" by (simp_all add: in_mutex_def)
  have less: "fst (faucet_inflight (fs_db st3)) \<le> fst (faucet_inflight (fs_db st1))" "snd (faucet_inflight (fs_db st3)) \<le> snd (faucet_inflight (fs_db st1))"
    using quiet_turn_inflight [OF fair m(1) ok1] quiet_turn_inflight [OF fair m(2), of st2] by (auto simp: st2_def st3_def)
  have aff: "affordable fx ev Eth (fs_db st1) = Inr None"
    using new by (auto simp: broadcast_def Let_def st1_def split: sum.splits option.splits if_splits)
  then obtain p where p: "ev_pending ev = Inr p"
    using new by (auto simp: broadcast_def Let_def st1_def split: sum.splits)
  define nonce where "nonce = max p (faucet_nextNonce (fs_db st2))"
  have s: "(raw, db) \<in> set (fs_sent (snd (sign_and_send fx ev st2 i Eth recipient v nonce)))" "(raw, db) \<notin> set (fs_sent st2)"
    using new aff p by (auto simp: broadcast_def Let_def st1_def st2_def nonce_def)
  have mk: "markSigned (fs_db st3) i (signed_as fx v nonce raw) (ev_now ev 4) = Inr (True, db)"
    using s by (auto simp: sign_and_send_def Let_def st3_def split: sum.splits prod.splits if_splits BroadcastResult.splits)
  have a: "fst (faucet_inflight db) \<le> fst (faucet_inflight (fs_db st1)) + FAUCET_ETH_AMOUNT_WEI"
    "snd (faucet_inflight db) - 1 \<le> snd (faucet_inflight (fs_db st1))"
    using sign_inflight [OF mk] less v by (auto simp: signed_as_def)
  have "(snd (faucet_inflight db) - 1) * (MINT_GAS * MAX_FEE_PER_GAS) \<le> snd (faucet_inflight (fs_db st1)) * (MINT_GAS * MAX_FEE_PER_GAS)"
    using a(2) by (intro mult_right_mono) (simp_all add: MINT_GAS_def MAX_FEE_PER_GAS_def)
  moreover have "need fx Eth \<le> balance - fst (faucet_inflight (fs_db st1)) - snd (faucet_inflight (fs_db st1)) * MINT_GAS * MAX_FEE_PER_GAS"
    using aff bal by (auto simp: affordable_def result_simps split: option.splits if_splits)
  ultimately show ?thesis using a(1) by (simp add: above_floor_def need_def)
qed

lemma claim_floor:
  assumes fair: "fair_turns fx ev" and ok: "ledger_ok (limitsOf fx) (fs_db st)" and bal: "ev_balance ev (fx_signer fx) = Inr balance"
    and k: "cr_kind req = Eth"
    and new: "(raw, db) \<in> set (fs_sent (snd (claim fx ev st req)))" "(raw, db) \<notin> set (fs_sent st)"
  shows "above_floor fx balance db"
proof -
  have turn_ok: "ledger_ok (limitsOf fx) (fs_db (take_turn ev n s))" if "ledger_ok (limitsOf fx) (fs_db s)" for n s
    using ledger_ok_leads [OF turn_facts(1) [OF fair] that] .
  have pay: "above_floor fx balance db"
    if o: "ledger_ok (limitsOf fx) (fs_db s)" and e: "(raw, db) \<in> set (fs_sent (snd (pay fx ev s i Eth recipient)))" "(raw, db) \<notin> set (fs_sent s)"
    for s i recipient
  proof (cases "plan ev Eth recipient")
    case (Inl x)
    then show ?thesis using e by (simp add: pay_def)
  next
    case (Inr v)
    obtain out st3 where br: "broadcast fx ev (take_turn ev 2 s) i Eth recipient v = (out, st3)"
      by (cases "broadcast fx ev (take_turn ev 2 s) i Eth recipient v")
    have "(raw, db) \<in> set (fs_sent st3)"
      using e Inr br by (auto simp: pay_def Let_def split: if_splits sum.splits broadcast_end.splits)
    then have "(raw, db) \<in> set (fs_sent (snd (broadcast fx ev (take_turn ev 2 s) i Eth recipient v)))" "(raw, db) \<notin> set (fs_sent (take_turn ev 2 s))"
      using e(2) br by simp_all
    then show ?thesis by (rule broadcast_floor [OF fair turn_ok [OF o] bal plan_amount [OF Inr]])
  qed
  have rp: "above_floor fx balance db"
    if o: "ledger_ok (limitsOf fx) (fs_db s)" and kk: "fi_kind input = Eth"
      and e: "(raw, db) \<in> set (fs_sent (snd (reserve_and_pay fx ev s input recipient)))" "(raw, db) \<notin> set (fs_sent s)" for s input recipient
  proof (cases "faucet_reserve (fs_db s) (ev_uuid ev) input (ev_now ev 1) (limitsOf fx (fi_kind input))")
    case (Inl x)
    then show ?thesis using e by (simp add: reserve_and_pay_def)
  next
    case (Inr w)
    obtain r d where w: "w = (r, d)" by (cases w)
    have d: "ledger_ok (limitsOf fx) d"
      using Inr unfolding w by (intro ledger_ok_step [OF ledger_step.do_write o] claim_write.do_reserve)
    show ?thesis
    proof (cases r)
      case (ReservedClaim c created)
      have "ledger_ok (limitsOf fx) (fs_db (s\<lparr>fs_db := d\<rparr>))" using d by simp
      note pay [OF this]
      then show ?thesis using e Inr kk ReservedClaim
        by (cases created) (fastforce simp: reserve_and_pay_def w)+
    qed (use e Inr in \<open>simp add: reserve_and_pay_def w\<close>)
  qed
  have ad: "above_floor fx balance db"
    if "(raw, db) \<in> set (fs_sent (snd (admit fx ev st input own recipient)))" "fi_kind input = Eth" for input own recipient
  proof -
    have "(raw, db) \<in> set (fs_sent (snd (reserve_and_pay fx ev (take_turn ev 1 st) input recipient)))" "(raw, db) \<notin> set (fs_sent (take_turn ev 1 st))"
      using that new(2) by (auto simp: admit_def Let_def split: sum.splits option.splits FaucetAdmission.splits)
    then show ?thesis by (rule rp [OF turn_ok [OF ok] that(2)])
  qed
  obtain out st' where d: "decide fx ev st req = (out, st')" by (cases "decide fx ev st req")
  then have e: "(raw, db) \<in> set (fs_sent st')" using new(1) by (auto simp: claim_def split: sum.splits ClaimOutcome.splits)
  have "st' = st \<or> (\<exists>own. admit fx ev st (reserve_input req own own) own own = (out, st'))"
    using d k by (auto simp: decide_def Let_def split: if_splits)
  then obtain own where "admit fx ev st (reserve_input req own own) own own = (out, st')" using e new(2) by blast
  moreover have "fi_kind (reserve_input req own own) = Eth" by (simp add: reserve_input_def k)
  ultimately show ?thesis using e by (intro ad [where own = own and recipient = own and input = "reserve_input req own own"]) simp_all
qed

text \<open>C38: the ETH tab never spends the faucet below its floor. In every reachable state, whatever the
  other requests do during a claim's awaits, an ETH transaction is handed to the node only if the
  balance read covers everything the ledger has in flight, this claim included, each transaction at
  its worst-case fee, and still leaves the configured minimum.\<close>

theorem eth_floor_kept:
  assumes "0 \<le> cfg_ethDailyWei (fx_config fx)" "(service_step fx)\<^sup>*\<^sup>* no_claims st" "fair_turns fx ev"
    and "ev_balance ev (fx_signer fx) = Inr balance" "cr_kind req = Eth"
    and "(raw, db) \<in> set (fs_sent (snd (claim fx ev st req))) - set (fs_sent st)"
  shows "cfg_minBalanceWei (fx_config fx) \<le> balance - fst (faucet_inflight db)
    - (snd (faucet_inflight db) - 1) * (MINT_GAS * MAX_FEE_PER_GAS) - TRANSFER_GAS * MAX_FEE_PER_GAS"
  using claim_floor [OF assms(3) service_reach_ok [OF assms(1,2)] assms(4,5), of raw db] assms(6) by (simp add: above_floor_def)

text \<open>An ETH claim, evaluated up to the send.\<close>

definition demo_eth_ev :: claim_turns where
  "demo_eth_ev = demo_ev\<lparr>ev_balance := (\<lambda>a. Inr (if a = ''0xfa'' then 1000000000000000000 else 0))\<rparr>"

definition demo_eth_request :: ClaimRequest where
  "demo_eth_request = demo_request\<lparr>cr_kind := Eth\<rparr>"

definition demo_eth_input :: FaucetReserveInput where
  "demo_eth_input = demo_claim\<lparr>fi_kind := Eth, fi_recipient := fi_owner demo_claim, fi_amount := FAUCET_ETH_AMOUNT_WEI\<rparr>"

lemma demo_eth_input: "reserve_input demo_eth_request (fi_owner demo_claim) (fi_owner demo_claim) = demo_eth_input"
  using demo_input by (simp add: reserve_input_def demo_eth_request_def demo_eth_input_def demo_request_def demo_claim_def)

lemma demo_eth_valid: "assertReserveInput demo_eth_input 1000000 = Inr ()"
  using demo_claim_valid by (simp add: assertReserveInput_def demo_eth_input_def result_simps FAUCET_ETH_AMOUNT_WEI_def)

lemma demo_eth_reserved:
  "faucet_admission empty_faucet demo_eth_input 1000000 (limitsOf demo_fx Eth) = Inr None"
  "\<exists>c db. faucet_reserve empty_faucet ''claim-1'' demo_eth_input 1000000 (limitsOf demo_fx Eth) = Inr (ReservedClaim c True, db) \<and>
     db = \<lparr>fd_claims = [claim_row ''claim-1'' demo_eth_input 1000000], fd_refusals = []\<rparr> \<and> fc_id c = ''claim-1''"
proof -
  have a: "admission empty_faucet demo_eth_input 1000000 (limitsOf demo_fx Eth) = None"
    by (simp add: admission_def empty_faucet_def inflight_claim_def lastActive_def counted_def order_desc_def committed_def
        limitsOf_def FAUCET_LIMITS_def demo_fx_def demo_eth_input_def FAUCET_ETH_AMOUNT_WEI_def)
  then show "faucet_admission empty_faucet demo_eth_input 1000000 (limitsOf demo_fx Eth) = Inr None"
    by (simp add: faucet_admission_def demo_eth_valid)
  show "\<exists>c db. faucet_reserve empty_faucet ''claim-1'' demo_eth_input 1000000 (limitsOf demo_fx Eth) = Inr (ReservedClaim c True, db) \<and>
     db = \<lparr>fd_claims = [claim_row ''claim-1'' demo_eth_input 1000000], fd_refusals = []\<rparr> \<and> fc_id c = ''claim-1''"
    by (simp add: faucet_reserve_def demo_eth_valid reserveTx_def a [unfolded empty_faucet_def] insert_claim_def claim_by_id_def inflight_claim_def
        empty_faucet_def claim_row_def)
qed

lemma demo_eth_sent: "\<exists>db. (''0x02f8'', db) \<in> set (fs_sent (snd (claim demo_fx demo_eth_ev no_claims demo_eth_request)))"
proof -
  let ?db = "\<lparr>fd_claims = [claim_row ''claim-1'' demo_eth_input 1000000], fd_refusals = []\<rparr>"
  let ?st = "\<lparr>fs_db = ?db, fs_cache = None, fs_sent = []\<rparr>"
  obtain c where r: "faucet_reserve empty_faucet ''claim-1'' demo_eth_input 1000000 (limitsOf demo_fx Eth) = Inr (ReservedClaim c True, ?db)"
    "fc_id c = ''claim-1''" using demo_eth_reserved(2) by blast
  have t: "take_turn demo_eth_ev n s = s" for n s by (simp add: take_turn_def demo_eth_ev_def demo_ev_def)
  have e: "ev_now demo_eth_ev n = 1000000" "ev_uuid demo_eth_ev = ''claim-1''" "ev_pending demo_eth_ev = Inr 7"
    "ev_sign demo_eth_ev x = Inr ''0x02f8''" "ev_code demo_eth_ev a = Inr None" "ev_sendRaw demo_eth_ev w = Inr NodeAccepted" for n x a w
    by (simp_all add: demo_eth_ev_def demo_ev_def)
  have inf: "faucet_inflight ?db = (0, 0)" "faucet_nextNonce ?db = 0"
    by (simp_all add: faucet_inflight_def faucet_nextNonce_def live_nonces_def claim_row_def committed_def List.map_filter_def)
  have aff: "affordable demo_fx demo_eth_ev Eth ?db = Inr None"
    by (simp add: affordable_def inf demo_eth_ev_def demo_ev_def demo_fx_def need_def MINT_GAS_def MAX_FEE_PER_GAS_def
        TRANSFER_GAS_def FAUCET_ETH_AMOUNT_WEI_def)
  have pl: "plan demo_eth_ev Eth (fi_owner demo_claim) = Inr FAUCET_ETH_AMOUNT_WEI"
  proof -
    have "length (fi_owner demo_claim) \<noteq> length ''0xfa''" by (simp add: demo_claim_def)
    then have "fi_owner demo_claim \<noteq> ''0xfa''" by metis
    then show ?thesis by (simp add: plan_def demo_eth_ev_def FAUCET_ETH_AMOUNT_WEI_def)
  qed
  let ?sg = "signed_as demo_fx FAUCET_ETH_AMOUNT_WEI 7 ''0x02f8''"
  have "sg_txHash ?sg = sg_txHash (signed_as demo_fx 1000000000 7 ''0x02f8'')" "sg_rawTx ?sg = sg_rawTx (signed_as demo_fx 1000000000 7 ''0x02f8'')"
    "sg_nonce ?sg = 7" "sg_amount ?sg = FAUCET_ETH_AMOUNT_WEI" by (simp_all add: signed_as_def)
  moreover have "hex_literal is_lower_hex 64 (sg_txHash (signed_as demo_fx 1000000000 7 ''0x02f8''))" "raw_hex (sg_rawTx (signed_as demo_fx 1000000000 7 ''0x02f8''))"
    using demo_sign by (simp_all add: markSigned_def result_simps)
  ultimately obtain db where mk: "markSigned ?db ''claim-1'' ?sg 1000000 = Inr (True, db)"
    by (simp add: markSigned_def ensure_def isSafeInteger_def MAX_SAFE_INTEGER_def FAUCET_ETH_AMOUNT_WEI_def transition_def at_claim_def claim_row_def)
  define st' where "st' = with_db (\<lambda>d. markSent d ''claim-1'' 1000000) (?st\<lparr>fs_db := db, fs_sent := [(''0x02f8'', db)]\<rparr>)"
  have "sign_and_send demo_fx demo_eth_ev ?st ''claim-1'' Eth (fi_owner demo_claim) FAUCET_ETH_AMOUNT_WEI 7 =
      (Inr (SentAs (fx_keccak256 demo_fx ''0x02f8'')), st')"
    using mk by (simp add: sign_and_send_def t e Let_def st'_def)
  then have "broadcast demo_fx demo_eth_ev ?st ''claim-1'' Eth (fi_owner demo_claim) FAUCET_ETH_AMOUNT_WEI =
      (Inr (SentAs (fx_keccak256 demo_fx ''0x02f8'')), st')"
    by (simp add: broadcast_def t e aff inf)
  then have "fs_sent (snd (pay demo_fx demo_eth_ev ?st ''claim-1'' Eth (fi_owner demo_claim))) = [(''0x02f8'', db)]"
    by (simp add: pay_def t pl Let_def st'_def) (simp add: FAUCET_ETH_AMOUNT_WEI_def)
  moreover have k: "fi_kind demo_eth_input = Eth" by (simp add: demo_eth_input_def)
  ultimately have "fs_sent (snd (reserve_and_pay demo_fx demo_eth_ev no_claims demo_eth_input (fi_owner demo_claim))) = [(''0x02f8'', db)]"
    using r by (simp add: reserve_and_pay_def demo_db e) (simp add: no_claims_def)
  moreover have "eligibility demo_fx demo_eth_ev Eth (fi_owner demo_claim) = None"
    by (simp add: eligibility_def missionsOf_def demo_fx_def FAUCET_MISSIONS_def e)
  ultimately have "fs_sent (snd (admit demo_fx demo_eth_ev no_claims demo_eth_input (fi_owner demo_claim) (fi_owner demo_claim))) = [(''0x02f8'', db)]"
    using demo_eth_reserved(1) by (simp add: admit_def demo_db e k t)
  moreover have "kindOn demo_fx Eth" "fx_getAddress demo_fx a = a" "cr_kind demo_eth_request = Eth" "cr_owner demo_eth_request = fi_owner demo_claim"
    "list_all (\<lambda>m. mission_text m \<in> set (cr_missions demo_eth_request)) (missionsOf demo_fx Eth)" for a
    by (simp_all add: demo_fx_def kindOn_def demo_eth_request_def demo_request_def missionsOf_def mission_text_def)
  ultimately have "fs_sent (snd (decide demo_fx demo_eth_ev no_claims demo_eth_request)) = [(''0x02f8'', db)]"
    using demo_eth_input by (simp add: decide_def Let_def)
  moreover obtain out s where "decide demo_fx demo_eth_ev no_claims demo_eth_request = (out, s)"
    by (cases "decide demo_fx demo_eth_ev no_claims demo_eth_request")
  ultimately have "fs_sent (snd (claim demo_fx demo_eth_ev no_claims demo_eth_request)) = [(''0x02f8'', db)]"
    by (simp add: claim_def split: sum.split ClaimOutcome.split)
  then show ?thesis by auto
qed

theorem eth_floor_kept_witness:
  "\<exists>db. 20000000000000000 \<le> 1000000000000000000 - fst (faucet_inflight db)
     - (snd (faucet_inflight db) - 1) * (MINT_GAS * MAX_FEE_PER_GAS) - TRANSFER_GAS * MAX_FEE_PER_GAS"
proof -
  obtain db where "(''0x02f8'', db) \<in> set (fs_sent (snd (claim demo_fx demo_eth_ev no_claims demo_eth_request)))" using demo_eth_sent by blast
  then have new: "(''0x02f8'', db) \<in> set (fs_sent (snd (claim demo_fx demo_eth_ev no_claims demo_eth_request))) - set (fs_sent no_claims)"
    by (simp add: no_claims_def)
  have f: "fair_turns demo_fx demo_eth_ev" by (simp add: fair_turns_def demo_eth_ev_def demo_ev_def)
  have b: "ev_balance demo_eth_ev (fx_signer demo_fx) = Inr 1000000000000000000" "cr_kind demo_eth_request = Eth"
    by (simp_all add: demo_eth_ev_def demo_fx_def demo_eth_request_def)
  have m: "cfg_minBalanceWei (fx_config demo_fx) = 20000000000000000" by (simp add: demo_fx_def)
  show ?thesis using eth_floor_kept [OF demo_daily rtranclp.rtrancl_refl f b new] unfolding m by blast
qed

section \<open>The bearer\<close>

lemma difference_zero: "length given = length expected \<Longrightarrow> difference given expected = 0 \<longleftrightarrow> given = expected"
proof -
  have fold: "foldl (\<lambda>d (g, e). or d (xor g e)) d (zip gs es) = 0 \<longleftrightarrow> d = 0 \<and> (\<forall>(g, e) \<in> set (zip gs es). g = e)"
    for d :: "8 word" and gs es
  proof (induction gs es arbitrary: d rule: list_induct2')
    case (4 g gs e es)
    have "xor g e = 0 \<longleftrightarrow> g = e" by (metis bit.xor_self xor.left_commute xor.right_neutral)
    then show ?case using 4 by (auto simp: or_eq_0_iff)
  qed auto
  have "(\<forall>(g, e) \<in> set (zip gs es). g = e) \<longleftrightarrow> gs = es" if "length gs = length es" for gs es :: "8 word list"
    using that by (induction gs es rule: list_induct2) auto
  then show "length given = length expected \<Longrightarrow> difference given expected = 0 \<longleftrightarrow> given = expected"
    by (simp add: difference_def fold)
qed

lemma bearerMatches_iff:
  assumes "\<And>s. length (sha256 s) = 32"
  shows "bearerMatches sha256 header token \<longleftrightarrow> (\<exists>t. header = Some (''Bearer '' @ t) \<and> sha256 t = sha256 token)"
proof (cases header)
  case (Some h)
  have "starts_with ''Bearer '' h \<longleftrightarrow> (\<exists>t. h = ''Bearer '' @ t)"
    by (auto simp: starts_with_def) (metis append_take_drop_id append_Cons append_Nil)
  then show ?thesis using difference_zero assms by (auto simp: bearerMatches_def Some)
qed (simp add: bearerMatches_def)

end
