(* ===== verification/Faucet_Page.thy ===== *)
theory Faucet_Page
  imports Faucet_Runs Token
begin

text \<open>
  The contract between the faucet's service and its page: what the service prints is read back
  unchanged by the parsers of \<^verbatim>\<open>faucet-policy.ts\<close>.
\<close>

section \<open>Decimal text\<close>

lemma is_decimal_String:
  assumes "0 \<le> v" "v < 10 ^ 78"
  shows "is_decimal (String v)"
proof (cases "v = 0")
  case True
  then show ?thesis by (simp add: is_decimal_def String_def nat_dec.simps)
next
  case False
  have "nat v < 10 ^ 78" using assms by (simp add: nat_less_iff)
  then have "length (nat_dec (nat v)) \<le> 78" using length_nat_dec [of 78 "nat v"] by simp
  then show ?thesis using assms False hd_nat_dec_nonzero [of "nat v"] by (simp add: is_decimal_def String_def)
qed

section \<open>What a row of the ledger spells\<close>

definition row_text :: "FaucetClaimRow \<Rightarrow> bool" where
  "row_text r \<longleftrightarrow> faucet_address (fc_recipient r) \<and> (\<forall>h. fc_tx_hash r = Some h \<longrightarrow> hex_literal is_lower_hex 64 h) \<and>
     (\<exists>v \<ge> 0. fc_amount r = String v) \<and> 0 \<le> fc_created_at r \<and> isSafeInteger (fc_created_at r)"

lemma row_text_update:
  assumes "\<forall>r \<in> set rows. row_text r" "\<And>r. row_text r \<Longrightarrow> row_text (f r)"
  shows "\<forall>r \<in> set (update_where q f rows). row_text r"
  using assms by (auto simp: set_update_where)

lemma row_text_transition:
  assumes "\<forall>r \<in> set (fd_claims db). row_text r" "\<And>r. row_text r \<Longrightarrow> row_text ((upd r)\<lparr>fc_state := target, fc_updated_at := now\<rparr>)"
  shows "\<forall>r \<in> set (fd_claims (snd (transition db i S target now upd))). row_text r"
  unfolding transition_rows by (rule row_text_update [OF assms])

lemma row_text_step:
  assumes "ledger_step lims db db'" "\<forall>r \<in> set (fd_claims db). row_text r"
  shows "\<forall>r \<in> set (fd_claims db'). row_text r"
  using assms(1)
proof cases
  case do_write
  have keep: "row_text (r\<lparr>fc_state := st, fc_updated_at := t\<rparr>)" if "row_text r" for r st t using that by (simp add: row_text_def)
  from do_write assms(2) show ?thesis
  proof (induction rule: claim_write.induct)
    case (do_reserve db uuid input now res db')
    have v: "faucet_address (fi_recipient input)" "0 \<le> fi_amount input" "0 \<le> now" "isSafeInteger now"
      using do_reserve(1) by (auto simp: faucet_reserve_def assertReserveInput_def result_simps)
    from do_reserve(1) show ?case
      by (cases rule: faucet_reserveE) (use do_reserve(2) v in \<open>auto simp: row_text_def claim_row_def\<close>)
  next
    case (do_sign db i sg now b db')
    then have db': "db' = snd (transition db i {StReserved} StSigned now (write_signed sg))"
      and sg: "0 < sg_amount sg" "hex_literal is_lower_hex 64 (sg_txHash sg)"
      by (auto simp: markSigned_def result_simps)
    have "row_text ((write_signed sg r)\<lparr>fc_state := StSigned, fc_updated_at := now\<rparr>)" if "row_text r" for r
      using that sg by (auto simp: row_text_def write_signed_def intro!: exI [of _ "sg_amount sg"])
    then show ?case unfolding db' by (rule row_text_transition [OF do_sign(4)])
  next
    case (do_skip db i now)
    have "row_text (r\<lparr>fc_amount := ''0'', fc_state := StSkipped, fc_updated_at := now\<rparr>)" if "row_text r" for r
      using that by (auto simp: row_text_def String_def nat_dec.simps intro!: exI [of _ 0])
    then show ?case unfolding markSkipped_def by (intro row_text_transition [OF do_skip]) simp
  qed (unfold markSent_def markConfirmed_def markFailed_def, (rule row_text_transition; simp add: keep)+)
next
  case (do_count k reason now)
  then show ?thesis using assms(2) countRefusal_claims by metis
next
  case (do_prune before)
  then show ?thesis using assms(2) by (auto simp: faucet_prune_def Let_def)
qed

lemma row_text_reach: "(ledger_step lims)\<^sup>*\<^sup>* empty_faucet db \<Longrightarrow> \<forall>r \<in> set (fd_claims db). row_text r"
  by (induction rule: rtranclp_induct) (simp add: empty_faucet_def, blast dest: row_text_step)

lemma hex_lower_hex: "hex_literal is_lower_hex n s \<Longrightarrow> hex_literal is_hex n s"
  by (auto simp: hex_literal_def list_all_iff is_hex_def)

text \<open>\<^verbatim>\<open>getAddress\<close>: the checksum spelling differs from an address in letter case only.\<close>

definition checksum_spelling :: "(string \<Rightarrow> string) \<Rightarrow> bool" where
  "checksum_spelling f \<longleftrightarrow> (\<forall>a. hex_literal is_hex 40 a \<longrightarrow> hex_literal is_hex 40 (f a) \<and> toLowerCase (f a) = toLowerCase a)"

lemma view_shape_row:
  assumes "row_text row" "checksum_spelling (fx_getAddress fx)" "BigInt (fc_amount row) < 10 ^ 78"
    and "fc_created_at row + windowOf (fc_kind row) \<le> 8640000000000000"
  shows "view_shape (claim_view fx now row)" "cv_kind (claim_view fx now row) = fc_kind row"
proof -
  have rcpt: "hex_literal is_hex 40 (fx_getAddress fx (fc_recipient row))"
    using assms(1,2) hex_lower_hex by (auto simp: row_text_def faucet_address_def checksum_spelling_def)
  obtain v where v: "0 \<le> v" "fc_amount row = String v" using assms(1) by (auto simp: row_text_def)
  have dec: "is_decimal (fc_amount row)" using is_decimal_String [of v] v assms(3) by simp
  have w: "0 < windowOf (fc_kind row)"
    by (cases "fc_kind row") (simp_all add: windowOf_def FAUCET_WINDOW_MS_def FAUCET_ETH_WINDOW_MS_def)
  have nx: "instant (fc_created_at row + windowOf (fc_kind row))"
    using w assms(1,4) by (simp add: instant_def row_text_def isSafeInteger_def MAX_SAFE_INTEGER_def)
  have h: "hex_literal is_hex 64 h" if "fc_tx_hash row = Some h" for h using assms(1) that hex_lower_hex by (simp add: row_text_def)
  show "view_shape (claim_view fx now row)"
    using rcpt dec nx h by (auto simp: view_shape_def claim_view_def Let_def split: option.splits if_splits)
  show "cv_kind (claim_view fx now row) = fc_kind row" by (simp add: claim_view_def Let_def)
qed

lemma latest_member: "latest db k own = Some r \<Longrightarrow> r \<in> set (fd_claims db) \<and> fc_kind r = k"
proof -
  assume a: "latest db k own = Some r"
  then have "r \<in> set (order_desc fc_created_at (filter (\<lambda>r. fc_kind r = k \<and> fc_owner r = own) (fd_claims db)))"
    by (auto simp: latest_def simp del: set_order_desc split: list.splits)
  then show ?thesis by simp
qed

text \<open>C39: the page reads back exactly what the service answers. For every state the service reaches
  whose claims carry amounts of at most 78 digits and windows that end within the range of a date:
  the printed view of each claim, the printed account of any owner and the printed status are parsed
  by the page's parsers into the same values, whatever the clock and the balance read.\<close>

theorem page_reads_the_service:
  assumes "(service_step fx)\<^sup>*\<^sup>* no_claims st" "checksum_spelling (fx_getAddress fx)"
    and "\<And>r. r \<in> set (fd_claims (fs_db st)) \<Longrightarrow> BigInt (fc_amount r) < 10 ^ 78 \<and> fc_created_at r + windowOf (fc_kind r) \<le> 8640000000000000"
    and "hex_literal is_hex 40 own" "faucet_account fx (fs_db st) now payer own = Inr a" "hex_literal is_hex 40 (fa_recipient_musdc a)"
    and "length (cfg_ethMissions (fx_config fx)) \<le> 16"
  shows "parseFaucetAccount (account_json a) = Inr a \<and>
    parseFaucetStatus (status_json (fst (faucet_status fx st now balance))) = Inr (fst (faucet_status fx st now balance)) \<and>
    (\<forall>r \<in> set (fd_claims (fs_db st)). parseFaucetClaimView (claim_view_json (claim_view fx now r)) (Some (fc_kind r)) = Inr (claim_view fx now r))"
proof -
  have spelled: "\<forall>r \<in> set (fd_claims (fs_db st)). row_text r"
    using row_text_reach service_leads [OF assms(1)] by (simp add: no_claims_def)
  have view: "view_shape (claim_view fx now r) \<and> cv_kind (claim_view fx now r) = fc_kind r" if "r \<in> set (fd_claims (fs_db st))" for r
    using view_shape_row [of r fx now] assms(2,3) spelled that by simp
  obtain p where a: "a = \<lparr>fa_owner = fx_getAddress fx own, fa_recipient_musdc = p, fa_recipient_eth = fx_getAddress fx own,
       fa_musdc = map_option (claim_view fx now) (latest (fs_db st) Musdc (toLowerCase own)),
       fa_eth = map_option (claim_view fx now) (latest (fs_db st) Eth (toLowerCase own))\<rparr>"
    using assms(5) by (auto simp: faucet_account_def result_simps)
  have "account_shape a"
    using assms(2,4,6) view latest_member by (fastforce simp: account_shape_def a checksum_spelling_def)
  then have acc: "parseFaucetAccount (account_json a) = Inr a" by (rule parse_account_print)
  have amounts: "is_decimal (String FAUCET_TARGET_BASE)" "is_decimal (String FAUCET_ETH_AMOUNT_WEI)"
    by (rule is_decimal_String; simp add: FAUCET_TARGET_BASE_def FAUCET_ETH_AMOUNT_WEI_def)+
  obtain b st' where fb: "faucetBalance st now balance = (b, st')" by (cases "faucetBalance st now balance")
  have "tab_shape (fst_musdc (fst (faucet_status fx st now balance)))" "tab_shape (fst_eth (fst (faucet_status fx st now balance)))"
    using amounts assms(7) by (simp_all add: faucet_status_def fb Let_def tab_shape_def FAUCET_WINDOW_MS_def FAUCET_ETH_WINDOW_MS_def
        isSafeInteger_def MAX_SAFE_INTEGER_def FAUCET_MUSDC_MISSIONS_def)
  from acc parse_status_print [OF this] view show ?thesis using parse_view_print by metis
qed

theorem page_reads_the_service_witness:
  "\<exists>a. faucet_account demo_fx (fs_db demo_end) 2000000 (\<lambda>o'. Inr o') (fi_owner demo_claim) = Inr a \<and> fa_musdc a \<noteq> None \<and>
     parseFaucetAccount (account_json a) = Inr a"
proof -
  obtain a where a: "faucet_account demo_fx (fs_db demo_end) 2000000 (\<lambda>o'. Inr o') (fi_owner demo_claim) = Inr a"
    by (simp add: faucet_account_def)
  have own: "hex_literal is_hex 40 (fi_owner demo_claim)"
    by (simp add: demo_claim_def hex_literal_def char_class_defs)
  have chk: "checksum_spelling (fx_getAddress demo_fx)" by (simp add: checksum_spelling_def demo_fx_def)
  have lower: "toLowerCase (fi_owner demo_claim) = fi_owner demo_claim"
    using arg_cong [OF demo_input, of fi_owner] by (simp add: reserve_input_def)
  have rcpt: "fa_recipient_musdc a = fi_owner demo_claim" using a by (auto simp: faucet_account_def result_simps)
  have row: "fd_claims (fs_db demo_end) = [demo_sent_row]" by (simp add: demo_end_claims demo_sent_row_def)
  have f: "fc_kind demo_sent_row = Musdc" "fc_owner demo_sent_row = fi_owner demo_claim" "fc_created_at demo_sent_row = 1000000"
    "BigInt (fc_amount demo_sent_row) = 1000000000"
    by (simp_all add: demo_sent_row_def demo_row_def claim_row_def) (simp add: demo_claim_def)
  have b: "r \<in> set (fd_claims (fs_db demo_end)) \<Longrightarrow> BigInt (fc_amount r) < 10 ^ 78 \<and> fc_created_at r + windowOf (fc_kind r) \<le> 8640000000000000" for r
    by (simp add: row f windowOf_def FAUCET_WINDOW_MS_def)
  have m: "length (cfg_ethMissions (fx_config demo_fx)) \<le> 16" by (simp add: demo_fx_def)
  have "parseFaucetAccount (account_json a) = Inr a"
    using page_reads_the_service [OF demo_reached chk b own a _ m, of "Inr 0"] own rcpt by simp
  moreover have "fa_musdc a \<noteq> None"
    using a by (auto simp: faucet_account_def result_simps latest_def row f lower order_desc_def split: list.splits)
  ultimately show ?thesis using a by blast
qed

end
