(* ===== verification/Wire_Codec.thy ===== *)
theory Wire_Codec
  imports Json X402
begin

text \<open>
  The codec of the x402 headers (\<^verbatim>\<open>packages/shared/src/x402.ts\<close>, \<^verbatim>\<open>encodeBase64Json\<close> and
  \<^verbatim>\<open>decodeBase64Json\<close> with their six exported names): base64 over the UTF-8 bytes of the JSON
  text. \<^verbatim>\<open>btoa\<close>, \<^verbatim>\<open>atob\<close> and the fatal \<^verbatim>\<open>TextDecoder\<close> are the platform's and follow its
  definitions; a text is its bytes throughout, so \<^verbatim>\<open>TextEncoder\<close> is the identity.
\<close>

section \<open>Base64\<close>

definition b64_char :: "nat \<Rightarrow> char" where
  "b64_char n = (if n < 26 then char_of (65 + n) else if n < 52 then char_of (71 + n)
     else if n < 62 then char_of (n - 4) else if n = 62 then CHR ''+'' else CHR ''/'')"

definition b64_value :: "char \<Rightarrow> nat option" where
  "b64_value c = (let n = of_char c in
     if is_upper c then Some (n - 65) else if is_lower c then Some (n - 71)
     else if is_digit c then Some (n + 4) else if c = CHR ''+'' then Some 62 else if c = CHR ''/'' then Some 63 else None)"

fun btoa_groups :: "nat list \<Rightarrow> string" where
  "btoa_groups [] = []"
| "btoa_groups [a] = [b64_char (a div 4), b64_char (a mod 4 * 16), CHR ''='', CHR ''='']"
| "btoa_groups [a, b] = [b64_char (a div 4), b64_char (a mod 4 * 16 + b div 16), b64_char (b mod 16 * 4), CHR ''='']"
| "btoa_groups (a # b # c # r) = b64_char (a div 4) # b64_char (a mod 4 * 16 + b div 16)
     # b64_char (b mod 16 * 4 + c div 64) # b64_char (c mod 64) # btoa_groups r"

definition btoa :: "string \<Rightarrow> string" where
  "btoa s = btoa_groups (map of_char s)"

fun atob_groups :: "nat list \<Rightarrow> nat list" where
  "atob_groups (a # b # c # d # r) =
     (a * 4 + b div 16) # (b mod 16 * 16 + c div 4) # (c mod 4 * 64 + d) # atob_groups r"
| "atob_groups [a, b, c] = [a * 4 + b div 16, b mod 16 * 16 + c div 4]"
| "atob_groups [a, b] = [a * 4 + b div 16]"
| "atob_groups _ = []"

text \<open>The forgiving decoder: ASCII white space goes, up to two \<^verbatim>\<open>=\<close> end a text of whole groups.\<close>

definition ascii_space :: "char \<Rightarrow> bool" where
  "ascii_space c \<longleftrightarrow> of_char c \<in> {9, 10, 12, 13, 32 :: nat}"

definition unpad :: "string \<Rightarrow> string" where
  "unpad s = (if length s mod 4 \<noteq> 0 then s
     else if ends_with ''=='' s then take (length s - 2) s
     else if ends_with ''='' s then take (length s - 1) s else s)"

definition all_some :: "'a option list \<Rightarrow> 'a list option" where
  "all_some xs = (if None \<in> set xs then None else Some (map the xs))"

definition atob :: "string \<Rightarrow> string option" where
  "atob t = (let s = unpad (filter (\<lambda>c. \<not> ascii_space c) t) in
     if length s mod 4 = 1 then None
     else map_option (\<lambda>vs. map char_of (atob_groups vs)) (all_some (map b64_value s)))"

section \<open>UTF-8\<close>

definition in_range :: "nat \<Rightarrow> nat \<Rightarrow> char \<Rightarrow> bool" where
  "in_range a b c \<longleftrightarrow> a \<le> of_char c \<and> of_char c \<le> b"

abbreviation continues :: "char \<Rightarrow> bool" where
  "continues \<equiv> in_range 0x80 0xBF"

text \<open>The bytes behind the first one of a code point.\<close>

definition second_in :: "nat \<Rightarrow> nat \<Rightarrow> string \<Rightarrow> bool" where
  "second_in lo hi t \<longleftrightarrow> (case t of b # _ \<Rightarrow> in_range lo hi b | _ \<Rightarrow> False)"

definition third_continues :: "string \<Rightarrow> bool" where
  "third_continues t \<longleftrightarrow> (case t of _ # c # _ \<Rightarrow> continues c | _ \<Rightarrow> False)"

definition fourth_continues :: "string \<Rightarrow> bool" where
  "fourth_continues t \<longleftrightarrow> (case t of _ # _ # d # _ \<Rightarrow> continues d | _ \<Rightarrow> False)"

text \<open>How many bytes the code point takes that a text begins with; none when it is malformed.\<close>

definition utf8_point :: "string \<Rightarrow> nat option" where
  "utf8_point s = (case s of
     [] \<Rightarrow> None
   | a # t \<Rightarrow>
       if in_range 0 0x7F a then Some 1
       else if in_range 0xC2 0xDF a then (if second_in 0x80 0xBF t then Some 2 else None)
       else if in_range 0xE0 0xE0 a then (if second_in 0xA0 0xBF t \<and> third_continues t then Some 3 else None)
       else if in_range 0xED 0xED a then (if second_in 0x80 0x9F t \<and> third_continues t then Some 3 else None)
       else if in_range 0xE1 0xEF a then (if second_in 0x80 0xBF t \<and> third_continues t then Some 3 else None)
       else if in_range 0xF0 0xF0 a then (if second_in 0x90 0xBF t \<and> third_continues t \<and> fourth_continues t then Some 4 else None)
       else if in_range 0xF1 0xF3 a then (if second_in 0x80 0xBF t \<and> third_continues t \<and> fourth_continues t then Some 4 else None)
       else if in_range 0xF4 0xF4 a then (if second_in 0x80 0x8F t \<and> third_continues t \<and> fourth_continues t then Some 4 else None)
       else None)"

function utf8_valid :: "string \<Rightarrow> bool" where
  "utf8_valid s = (if s = [] then True
     else (case utf8_point s of None \<Rightarrow> False | Some n \<Rightarrow> utf8_valid (drop (max 1 n) s)))"
  by pat_completeness auto
termination by (relation "measure length") auto

declare utf8_valid.simps [simp del]

definition BOM :: string where "BOM = [CHR 0xEF, CHR 0xBB, CHR 0xBF]"

text \<open>\<^verbatim>\<open>new TextDecoder("utf-8", {fatal: true}).decode(bytes)\<close>; none when it throws.\<close>

definition decode_fatal :: "string \<Rightarrow> string option" where
  "decode_fatal s = (if \<not> utf8_valid s then None else if starts_with BOM s then Some (drop 3 s) else Some s)"

section \<open>The codec\<close>

definition encodeBase64Json :: "js_numbers \<Rightarrow> js \<Rightarrow> string result" where
  "encodeBase64Json nb v =
     (if \<not> serialisable v then Inl (TypeError ''Do not know how to serialize a BigInt'')
      else Inr (btoa (if v = JUndefined then [] else json_text nb v)))"

definition decodeBase64Json :: "js_numbers \<Rightarrow> string \<Rightarrow> js option" where
  "decodeBase64Json nb t = (case atob t of
     None \<Rightarrow> None
   | Some bytes \<Rightarrow> (case decode_fatal bytes of None \<Rightarrow> None | Some u \<Rightarrow> json_parse nb u))"

definition encodePaymentRequiredHeader :: "js_numbers \<Rightarrow> js \<Rightarrow> string result" where
  "encodePaymentRequiredHeader nb body = encodeBase64Json nb body"

definition decodePaymentRequiredHeader :: "js_numbers \<Rightarrow> string \<Rightarrow> js option" where
  "decodePaymentRequiredHeader nb header = decodeBase64Json nb header"

definition encodePaymentHeader :: "js_numbers \<Rightarrow> js \<Rightarrow> string result" where
  "encodePaymentHeader nb payload = encodeBase64Json nb payload"

definition decodePaymentHeader :: "js_numbers \<Rightarrow> string \<Rightarrow> js option" where
  "decodePaymentHeader nb header = decodeBase64Json nb header"

definition encodePaymentResponseHeader :: "js_numbers \<Rightarrow> js \<Rightarrow> string result" where
  "encodePaymentResponseHeader nb receipt = encodeBase64Json nb receipt"

definition decodePaymentResponseHeader :: "js_numbers \<Rightarrow> string \<Rightarrow> js option" where
  "decodePaymentResponseHeader nb header = decodeBase64Json nb header"

section \<open>Base64 reads back what it wrote\<close>

text \<open>The sextets behind the characters, without the padding.\<close>

fun sextets :: "nat list \<Rightarrow> nat list" where
  "sextets [] = []"
| "sextets [a] = [a div 4, a mod 4 * 16]"
| "sextets [a, b] = [a div 4, a mod 4 * 16 + b div 16, b mod 16 * 4]"
| "sextets (a # b # c # r) = [a div 4, a mod 4 * 16 + b div 16, b mod 16 * 4 + c div 64, c mod 64] @ sextets r"

lemma b64_char_code:
  "n < 26 \<Longrightarrow> of_char (b64_char n) = 65 + n" "26 \<le> n \<Longrightarrow> n < 52 \<Longrightarrow> of_char (b64_char n) = 71 + n"
  "52 \<le> n \<Longrightarrow> n < 62 \<Longrightarrow> of_char (b64_char n) = n - 4" "b64_char 62 = CHR ''+''" "b64_char 63 = CHR ''/''"
  by (simp_all add: b64_char_def)

lemma b64_char_facts:
  assumes "n < 64"
  shows "b64_value (b64_char n) = Some n" "\<not> ascii_space (b64_char n)" "b64_char n \<noteq> CHR ''=''"
proof -
  consider "n < 26" | "26 \<le> n" "n < 52" | "52 \<le> n" "n < 62" | "n = 62" | "n = 63" using assms by linarith
  then show v: "b64_value (b64_char n) = Some n"
    by cases (simp_all add: b64_value_def Let_def b64_char_code char_class_defs, linarith)
  have none: "ascii_space c \<Longrightarrow> b64_value c = None" "b64_value CHR ''='' = None" for c
    by (auto simp: ascii_space_def b64_value_def char_class_defs Let_def)
  show "\<not> ascii_space (b64_char n)" "b64_char n \<noteq> CHR ''=''" using v none by auto
qed

lemma div_bounds: "(a :: nat) < 256 \<Longrightarrow> a div 4 < 64" "(a :: nat) < 256 \<Longrightarrow> a div 16 < 16" "(a :: nat) < 256 \<Longrightarrow> a div 64 < 4"
  by linarith+

lemma sextet_bounds:
  "(b :: nat) < 256 \<Longrightarrow> a mod 4 * 16 + b div 16 < 64" "(b :: nat) < 256 \<Longrightarrow> a mod 16 * 4 + b div 64 < 64"
  "a mod 4 * 16 < (64 :: nat)" "a mod 16 * 4 < (64 :: nat)"
  by linarith+

lemma sextets_small: "list_all (\<lambda>a. a < 256) xs \<Longrightarrow> list_all (\<lambda>n. n < 64) (sextets xs)"
proof (induction xs rule: sextets.induct)
  case (4 a b c r)
  then have "a < 256" "b < 256" "c < 256" by simp_all
  then show ?case using 4 by (simp add: div_bounds sextet_bounds)
qed (auto simp: div_bounds sextet_bounds)

lemma sextet_parts:
  assumes "(b :: nat) < 256" "(c :: nat) < 256"
  shows "(a mod 4 * 16 + b div 16) mod 16 = b div 16" "(a mod 16 * 4 + c div 64) mod 4 = c div 64"
    "(a mod 4 * 16 + b div 16) div 16 = a mod 4" "(a mod 16 * 4 + c div 64) div 4 = a mod 16"
proof -
  have "b div 16 < 16" "c div 64 < 4" using assms div_bounds by auto
  then show "(a mod 4 * 16 + b div 16) mod 16 = b div 16" "(a mod 16 * 4 + c div 64) mod 4 = c div 64"
    "(a mod 4 * 16 + b div 16) div 16 = a mod 4" "(a mod 16 * 4 + c div 64) div 4 = a mod 16" by simp_all
qed

lemma byte_parts: "(a :: nat) div 4 * 4 + a mod 4 = a" "(a :: nat) div 16 * 16 + a mod 16 = a" "(a :: nat) div 64 * 64 + a mod 64 = a"
  by simp_all

lemma atob_sextets: "list_all (\<lambda>a. a < 256) xs \<Longrightarrow> atob_groups (sextets xs) = xs"
proof (induction xs rule: sextets.induct)
  case (4 a b c r)
  then have "a < 256" "b < 256" "c < 256" by simp_all
  moreover have "list_all (\<lambda>a. a < 256) r" using 4(2) by simp
  ultimately show ?case using 4(1) by (simp only: sextets.simps append.simps atob_groups.simps sextet_parts byte_parts simp_thms)
next
  case (3 a b)
  then have "b < 256" by simp
  then show ?case by (simp only: sextets.simps atob_groups.simps sextet_parts byte_parts) simp
qed auto

lemma btoa_sextets: "btoa_groups xs = map b64_char (sextets xs) @ replicate ((3 - length xs mod 3) mod 3) CHR ''=''"
  by (induction xs rule: sextets.induct) (simp_all add: numeral_2_eq_2)

lemma length_sextets: "length (sextets xs) = 4 * (length xs div 3) + (if length xs mod 3 = 0 then 0 else length xs mod 3 + 1)"
proof (induction xs rule: sextets.induct)
  case (4 a b c r)
  have "length (a # b # c # r) = length r + 3" by simp
  then have "length (a # b # c # r) div 3 = length r div 3 + 1" "length (a # b # c # r) mod 3 = length r mod 3" by simp_all
  then show ?case using 4 by simp
qed simp_all

lemma unpad_core:
  assumes "list_all (\<lambda>c. c \<noteq> CHR ''='') s" "(length s + k) mod 4 = 0" "k < 3"
  shows "unpad (s @ replicate k CHR ''='') = s"
proof -
  have last: "s \<noteq> [] \<Longrightarrow> last s \<noteq> CHR ''=''" using assms(1) by (simp add: list_all_iff)
  have one: "\<not> ends_with ''='' s" and two: "\<not> ends_with ''=='' s" and three: "\<not> ends_with ''=='' (s @ ''='')"
    using last by (cases s rule: rev_cases; auto simp: ends_with_def drop_Cons' split: if_splits)+
  have four: "ends_with ''='' (s @ ''='')" "ends_with ''=='' (s @ ''=='')" by (simp_all add: ends_with_def)
  consider "k = 0" | "k = 1" | "k = 2" using assms(3) by linarith
  then show ?thesis
  proof cases
    case 1
    then show ?thesis using assms(2) one two by (simp add: unpad_def)
  next
    case 2
    then show ?thesis using assms(2) three four(1) by (simp add: unpad_def)
  next
    case 3
    then have "s @ replicate k CHR ''='' = s @ ''==''" by (simp add: numeral_2_eq_2)
    then show ?thesis using assms(2) 3 four(2) by (simp add: unpad_def)
  qed
qed

lemma all_some_map: "\<forall>x \<in> set xs. f x = Some (g x) \<Longrightarrow> all_some (map f xs) = Some (map g xs)"
  by (auto simp: all_some_def)

lemma atob_btoa [simp]: "atob (btoa s) = Some s"
proof -
  let ?xs = "map of_char s :: nat list"
  let ?k = "(3 - length s mod 3) mod 3"
  let ?core = "map b64_char (sextets ?xs)"
  have small: "list_all (\<lambda>a. a < 256) ?xs" by (simp add: list_all_iff)
  then have six: "list_all (\<lambda>n. n < 64) (sextets ?xs)" by (rule sextets_small)
  have t: "btoa s = ?core @ replicate ?k CHR ''=''" by (simp add: btoa_def btoa_sextets)
  have clean: "filter (\<lambda>c. \<not> ascii_space c) (btoa s) = btoa s"
    unfolding t using six b64_char_facts by (auto simp: filter_id_conv list_all_iff ascii_space_def)
  have len: "length ?core = 4 * (length s div 3) + (if length s mod 3 = 0 then 0 else length s mod 3 + 1)"
    by (simp add: length_sextets)
  have m: "length s mod 3 = 0 \<or> length s mod 3 = 1 \<or> length s mod 3 = 2" by linarith
  have "unpad (btoa s) = ?core" unfolding t
  proof (rule unpad_core)
    show "list_all (\<lambda>c. c \<noteq> CHR ''='') ?core" using six b64_char_facts by (auto simp: list_all_iff)
    show "(length ?core + ?k) mod 4 = 0" unfolding len using m by auto
  qed simp
  moreover have "length ?core mod 4 \<noteq> 1" unfolding len using m by auto
  moreover have "all_some (map b64_value ?core) = Some (map id (sextets ?xs))"
    unfolding map_map by (rule all_some_map) (use six b64_char_facts in \<open>auto simp: list_all_iff\<close>)
  ultimately show ?thesis using atob_sextets [OF small] by (simp add: atob_def clean Let_def o_def)
qed

section \<open>UTF-8 of JSON text\<close>

lemma utf8_behind:
  "second_in lo hi t \<Longrightarrow> second_in lo hi (t @ u)" "third_continues t \<Longrightarrow> third_continues (t @ u)"
  "fourth_continues t \<Longrightarrow> fourth_continues (t @ u)"
  "second_in lo hi t \<Longrightarrow> 1 \<le> length t" "third_continues t \<Longrightarrow> 2 \<le> length t" "fourth_continues t \<Longrightarrow> 3 \<le> length t"
  by (auto simp: second_in_def third_continues_def fourth_continues_def split: list.splits)

lemma utf8_point_append: "utf8_point s = Some n \<Longrightarrow> utf8_point (s @ t) = Some n"
  by (cases s) (auto simp: utf8_point_def utf8_behind(1-3) split: if_splits)

lemma utf8_point_bounds: "utf8_point s = Some n \<Longrightarrow> 0 < n \<and> n \<le> length s"
  by (cases s) (auto simp: utf8_point_def dest!: utf8_behind(4-6) split: if_splits)

lemma utf8_valid_append: "utf8_valid s \<Longrightarrow> utf8_valid t \<Longrightarrow> utf8_valid (s @ t)"
proof (induction s rule: utf8_valid.induct)
  case (1 s)
  show ?case
  proof (cases "s = []")
    case True
    then show ?thesis using 1 by simp
  next
    case False
    then obtain n where n: "utf8_point s = Some n" "utf8_valid (drop (max 1 n) s)"
      using 1(2) by (subst (asm) utf8_valid.simps) (auto split: option.splits)
    then have "utf8_valid (drop (max 1 n) s @ t)" using 1 False by blast
    moreover have "max 1 n \<le> length s" using utf8_point_bounds [OF n(1)] by simp
    ultimately show ?thesis using False utf8_point_append [OF n(1), of t]
      by (subst utf8_valid.simps) simp
  qed
qed

lemma utf8_ascii: "list_all (in_range 0 0x7F) s \<Longrightarrow> utf8_valid s"
proof (induction s)
  case Nil
  then show ?case by (simp add: utf8_valid.simps)
next
  case (Cons c s)
  then have "utf8_point (c # s) = Some 1" by (simp add: utf8_point_def)
  then show ?case using Cons by (subst utf8_valid.simps) simp
qed

lemma utf8_behind_simps [simp]:
  "second_in lo hi (b # t) = in_range lo hi b" "third_continues (b # c # t) = continues c" "fourth_continues (b # c # d # t) = continues d"
  "\<not> second_in lo hi []" "\<not> third_continues []" "\<not> third_continues [b]" "\<not> fourth_continues []" "\<not> fourth_continues [b]" "\<not> fourth_continues [b, c]"
  by (simp_all add: second_in_def third_continues_def fourth_continues_def)

text \<open>A code point on its own: an ASCII character, or bytes of the upper half.\<close>

definition upper :: "char \<Rightarrow> bool" where "upper c \<longleftrightarrow> 0x80 \<le> (of_char c :: nat)"

lemma upper_range: "in_range x y b \<Longrightarrow> 0x80 \<le> x \<Longrightarrow> upper b"
  by (simp add: in_range_def upper_def)

lemma behind_take:
  "second_in lo hi (take (Suc k) t) = second_in lo hi t" "third_continues (take (Suc (Suc k)) t) = third_continues t"
  "fourth_continues (take (Suc (Suc (Suc k))) t) = fourth_continues t"
  by (cases t; cases "tl t"; cases "tl (tl t)"; cases k; simp)+

lemma behind_upper:
  "second_in lo hi t \<Longrightarrow> 0x80 \<le> lo \<Longrightarrow> list_all upper (take (Suc 0) t)"
  "second_in lo hi t \<Longrightarrow> 0x80 \<le> lo \<Longrightarrow> third_continues t \<Longrightarrow> list_all upper (take (Suc (Suc 0)) t)"
  "second_in lo hi t \<Longrightarrow> 0x80 \<le> lo \<Longrightarrow> third_continues t \<Longrightarrow> fourth_continues t \<Longrightarrow> list_all upper (take (Suc (Suc (Suc 0))) t)"
  by (cases t; cases "tl t"; cases "tl (tl t)"; auto intro: upper_range)+

lemma point_size: "utf8_point (a # t) = Some n \<Longrightarrow> n \<in> {1, 2, 3, 4}"
  by (auto simp: utf8_point_def split: if_splits)

lemma point_take: "utf8_point (a # t) = Some (Suc n) \<Longrightarrow> utf8_point (a # take n t) = Some (Suc n)"
proof -
  assume p: "utf8_point (a # t) = Some (Suc n)"
  consider "n = 0" | "n = Suc 0" | "n = Suc (Suc 0)" | "n = Suc (Suc (Suc 0))" using point_size [OF p] by auto
  then show ?thesis using p
    by cases (simp_all add: utf8_point_def behind_take split: if_splits)
qed

lemma point_upper:
  "utf8_point (a # t) = Some (Suc n) \<Longrightarrow> (n = 0 \<and> in_range 0 0x7F a) \<or> (upper a \<and> list_all upper (take n t))"
proof -
  assume p: "utf8_point (a # t) = Some (Suc n)"
  show ?thesis
  proof (cases "in_range 0 0x7F a")
    case True
    then show ?thesis using p by (simp add: utf8_point_def)
  next
    case False
    then have "upper a" by (simp add: in_range_def upper_def)
    consider "n = 0" | "n = Suc 0" | "n = Suc (Suc 0)" | "n = Suc (Suc (Suc 0))" using point_size [OF p] by auto
    then have "list_all upper (take n t)" using p False
      by cases (auto simp: utf8_point_def intro: behind_upper split: if_splits)
    then show ?thesis using \<open>upper a\<close> by simp
  qed
qed

lemma point_alone:
  assumes "utf8_point s = Some n"
  shows "utf8_point (take n s) = Some n" "(n = 1 \<and> in_range 0 0x7F (hd s)) \<or> list_all upper (take n s)"
proof -
  obtain a t where s: "s = a # t" using assms by (cases s) (auto simp: utf8_point_def)
  obtain k where k: "n = Suc k" using utf8_point_bounds [OF assms] by (cases n) auto
  show "utf8_point (take n s) = Some n" using point_take assms unfolding s k by simp
  show "(n = 1 \<and> in_range 0 0x7F (hd s)) \<or> list_all upper (take n s)" using point_upper [of a t k] assms unfolding s k by auto
qed

lemma escape_upper: "list_all upper s \<Longrightarrow> concat (map escape_char s) = s"
  by (induction s) (auto simp: escape_char_def Let_def upper_def QUOTE_def BACKSLASH_def)

lemma hex_char_ascii: "n < 16 \<Longrightarrow> in_range 0 0x7F (hex_char n)"
  by (auto simp: in_range_def hex_char_def)

lemma escape_ascii: "in_range 0 0x7F c \<Longrightarrow> list_all (in_range 0 0x7F) (escape_char c)"
  using hex_char_ascii [of "of_char c div 16"] hex_char_ascii [of "of_char c mod 16"]
  by (auto simp: escape_char_def Let_def BACKSLASH_def QUOTE_def in_range_def)

lemma utf8_escape: "utf8_valid s \<Longrightarrow> utf8_valid (concat (map escape_char s))"
proof (induction s rule: utf8_valid.induct)
  case (1 s)
  show ?case
  proof (cases "s = []")
    case True
    then show ?thesis by (simp add: utf8_valid.simps)
  next
    case False
    then obtain n where n: "utf8_point s = Some n" "utf8_valid (drop (max 1 n) s)"
      using 1(2) by (subst (asm) utf8_valid.simps) (auto split: option.splits)
    then have rest: "utf8_valid (concat (map escape_char (drop n s)))"
      using 1(1) False utf8_point_bounds [OF n(1)] by (simp add: max_def)
    have "utf8_valid (concat (map escape_char (take n s)))"
    proof (cases "list_all upper (take n s)")
      case True
      have "utf8_valid (take n s)"
        using point_alone(1) [OF n(1)] utf8_point_bounds [OF n(1)]
        by (subst utf8_valid.simps) (simp add: utf8_valid.simps max_def)
      then show ?thesis using escape_upper [OF True] by simp
    next
      case False
      then have a: "n = 1" "in_range 0 0x7F (hd s)" using point_alone(2) [OF n(1)] by auto
      then have "concat (map escape_char (take n s)) = escape_char (hd s)" using \<open>s \<noteq> []\<close> by (cases s) simp_all
      then show ?thesis using utf8_ascii [OF escape_ascii [OF a(2)]] by simp
    qed
    then have "utf8_valid (concat (map escape_char (take n s)) @ concat (map escape_char (drop n s)))"
      using rest by (rule utf8_valid_append)
    then show ?thesis by (metis append_take_drop_id concat_append map_append)
  qed
qed

lemma utf8_quote: "utf8_valid s \<Longrightarrow> utf8_valid (quote s)"
proof -
  assume "utf8_valid s"
  then have "utf8_valid ((concat (map escape_char s)) @ [QUOTE])"
    by (rule utf8_valid_append [OF utf8_escape utf8_ascii]) (simp add: in_range_def QUOTE_def)
  then have "utf8_valid ([QUOTE] @ (concat (map escape_char s)) @ [QUOTE])"
    by (rule utf8_valid_append [OF utf8_ascii, rotated]) (simp add: in_range_def QUOTE_def)
  then show ?thesis by (simp add: quote_def)
qed

fun js_utf8 :: "js \<Rightarrow> bool" where
  "js_utf8 (JString s) = utf8_valid s"
| "js_utf8 (JArray xs) = list_all js_utf8 xs"
| "js_utf8 (JObject fs) = list_all (\<lambda>(k, x). utf8_valid k \<and> js_utf8 x) fs"
| "js_utf8 _ = True"

lemma number_char_ascii: "number_char c \<Longrightarrow> in_range 0 0x7F c"
  by (auto simp: number_char_def in_range_def char_class_defs)

lemma number_text_ascii:
  assumes "numbers_ok nb" "json_doc nb x" "x = JNum n \<or> x = JFrac q"
  shows "list_all (in_range 0 0x7F) (number_text nb x)"
proof -
  have "follow []" by (simp add: follow_def)
  then have "scan_number (number_text nb x @ []) = Some (number_text nb x, [])"
    by (rule scan_number_text(1) [OF assms(1,2) _ assms(3)])
  then have "list_all number_char (number_text nb x)" using scan_number_split by blast
  then show ?thesis using number_char_ascii by (auto simp: list_all_iff)
qed

lemma utf8_around: "utf8_valid s \<Longrightarrow> list_all (in_range 0 0x7F) a \<Longrightarrow> list_all (in_range 0 0x7F) b \<Longrightarrow> utf8_valid (a @ s @ b)"
  by (simp add: utf8_valid_append utf8_ascii)

lemma utf8_comma: "utf8_valid s \<Longrightarrow> utf8_valid (CHR '','' # s)"  "utf8_valid s \<Longrightarrow> utf8_valid (CHR '':'' # s)"
  using utf8_valid_append [OF utf8_ascii [of "'',''"]] utf8_valid_append [OF utf8_ascii [of "'':''"]]
  by (simp_all add: in_range_def)

lemma utf8_join: "list_all utf8_valid ws \<Longrightarrow> utf8_valid (join_with '','' ws)"
proof (induction "'',''" ws rule: join_with.induct)
  case 1
  then show ?case by (simp add: utf8_valid.simps)
next
  case (3 s t ts)
  then have "utf8_valid (s @ ('','' @ join_with '','' (t # ts)))"
    by (simp add: utf8_valid_append utf8_comma)
  then show ?case by simp
qed simp

lemma json_text_utf8:
  assumes "numbers_ok nb" "json_doc nb x" "js_utf8 x"
  shows "utf8_valid (json_text nb x)"
  using assms(2,3)
proof (induction x)
  case (JArray xs)
  then have "utf8_valid (join_with '','' (map (json_text nb) xs))"
    by (intro utf8_join) (auto simp: list_all_iff)
  then have "utf8_valid (''['' @ join_with '','' (map (json_text nb) xs) @ '']'')"
    by (rule utf8_around) (simp_all add: in_range_def)
  then show ?case by simp
next
  case (JObject fs)
  have l: "list_all (\<lambda>(k, x). json_doc nb x) fs" using JObject.prems(1) by simp
  have "utf8_valid (field_text nb p)" if "p \<in> set fs" for p
  proof -
    obtain k y where p: "p = (k, y)" by fastforce
    have k: "utf8_valid k" "js_utf8 y" "json_doc nb y"
      using JObject.prems(2) l that p by (auto simp: list_all_iff)
    have "utf8_valid (json_text nb y)" by (rule JObject.IH [OF that]) (use k p in \<open>auto simp: snds.simps\<close>)
    then have "utf8_valid (quote k @ '':'' @ json_text nb y)"
      using utf8_valid_append [OF utf8_quote [OF k(1)] utf8_comma(2)] by simp
    then show ?thesis by (simp add: field_text_def p)
  qed
  then have "utf8_valid (join_with '','' (map (field_text nb) fs))"
    by (intro utf8_join) (auto simp: list_all_iff)
  then have "utf8_valid (''{'' @ join_with '','' (map (field_text nb) fs) @ ''}'')"
    by (rule utf8_around) (simp_all add: in_range_def)
  then show ?case using json_text_object [OF l] by simp
next
  case (JNum n)
  then show ?case using number_text_ascii [OF assms(1) JNum(1)] by (auto intro: utf8_ascii)
next
  case (JFrac q)
  then show ?case using number_text_ascii [OF assms(1) JFrac(1)] by (auto intro: utf8_ascii)
next
  case (JString s)
  then show ?case by (simp add: utf8_quote)
qed (auto intro!: utf8_ascii simp: in_range_def)

lemma no_bom:
  assumes "json_parse nb s = Some x" shows "\<not> starts_with BOM s"
proof
  assume "starts_with BOM s"
  then obtain t where "s = CHR 0xEF # t" by (cases s) (auto simp: starts_with_def BOM_def)
  moreover have "\<not> json_space CHR 0xEF" "CHR 0xEF \<noteq> QUOTE" "\<not> is_digit CHR 0xEF"
    by (simp_all add: json_space_def QUOTE_def char_class_defs)
  ultimately have "json_parse nb s = None"
    by (simp add: json_parse_def json_scalar_def starts_with_def scan_number_def scan_minus_def scan_whole_def)
  then show False using assms by simp
qed

text \<open>Whatever document a side writes into a header, the other side reads.\<close>

lemma codec_roundtrip:
  assumes "numbers_ok nb" "json_doc nb x" "js_utf8 x"
  shows "\<exists>header. encodeBase64Json nb x = Inr header \<and> decodeBase64Json nb header = Some x"
proof -
  have d: "x \<noteq> JUndefined" using doc_defined [OF assms(2)] .
  have p: "json_parse nb (json_text nb x) = Some x" by (rule json_roundtrip [OF assms(1,2)])
  show ?thesis
    using json_doc_serialisable [OF assms(2)] d json_text_utf8 [OF assms] no_bom [OF p] p
    by (simp add: encodeBase64Json_def decodeBase64Json_def decode_fatal_def)
qed

text \<open>C17: what a buyer or a seller writes into an x402 header, the other side reads back: for every document
whose texts are well-formed, encoding succeeds and decoding returns the document itself. The
base64, the escapes of the JSON text and the fatal UTF-8 decoder lose nothing.\<close>

theorem header_codec_roundtrip:
  assumes "numbers_ok nb" "json_doc nb x" "js_utf8 x"
  shows "\<exists>header. encodePaymentHeader nb x = Inr header \<and> decodePaymentHeader nb header = Some x"
  using codec_roundtrip [OF assms] by (simp add: encodePaymentHeader_def decodePaymentHeader_def)

text \<open>An engine with one fraction, and a document with every kind of value in it.\<close>

definition demo_numbers :: js_numbers where
  "demo_numbers = \<lparr>num_ok = (\<lambda>x. x = JFrac (3 / 2)), num_text = (\<lambda>_. ''1.5''), num_read = (\<lambda>_. JFrac (3 / 2))\<rparr>"

definition demo_document :: js where
  "demo_document = JObject [(''x402Version'', JNum 2), (''name'', JString [CHR 0xEA, CHR 0xB0, CHR 0x80, CHR 0x0A, QUOTE]),
     (''ok'', JBool True), (''none'', JNull), (''rate'', JFrac (3 / 2)), (''list'', JArray [JNum (-1), JArray []])]"

lemma demo_numbers_ok: "numbers_ok demo_numbers"
proof -
  have "num_read demo_numbers t = JFrac (3 / 2) \<and> num_ok demo_numbers (JFrac (3 / 2))" for t by (simp add: demo_numbers_def)
  moreover have "\<forall>x. num_ok demo_numbers x \<longrightarrow>
      scan_number (num_text demo_numbers x) = Some (num_text demo_numbers x, []) \<and> \<not> plain_integer (num_text demo_numbers x) \<and>
      num_read demo_numbers (num_text demo_numbers x) = x"
    by (simp add: demo_numbers_def scan_number_def scan_minus_def scan_whole_def scan_fraction_def
        scan_exponent_def plain_integer_def char_class_defs)
  ultimately show ?thesis unfolding numbers_ok_def by blast
qed

theorem header_codec_roundtrip_witness:
  "\<exists>header. encodePaymentHeader demo_numbers demo_document = Inr header \<and> decodePaymentHeader demo_numbers header = Some demo_document"
proof (rule header_codec_roundtrip)
  show "numbers_ok demo_numbers" by (rule demo_numbers_ok)
  show "json_doc demo_numbers demo_document"
    by (simp add: demo_document_def demo_numbers_def isSafeInteger_def MAX_SAFE_INTEGER_def)
  show "js_utf8 demo_document"
    by (simp add: demo_document_def utf8_valid.simps utf8_point_def in_range_def QUOTE_def)
qed

end
