(* ===== verification/Bearer_Redaction.thy ===== *)
theory Bearer_Redaction
  imports Json "HOL-Library.Sublist"
begin

text \<open>
  What keeps the buyer's bearer authorization out of its result: \<^verbatim>\<open>redactBearerSecrets\<close> of
  \<^verbatim>\<open>packages/delegation/src/payment-client.ts\<close>. It prints the value, replaces every occurrence of
  a secret in the JSON text and parses the text again; the theory shows what that does to the
  strings of the value, escapes included.
\<close>

section \<open>The code\<close>

definition BEARER_REDACTION :: string where
  "BEARER_REDACTION = ''[redacted: bearer payment authorization]''"

text \<open>
  One pass from left to right: \<open>m\<close> is the length of the match a text begins with. It models
  \<^verbatim>\<open>replace\<close> with a global expression and \<^verbatim>\<open>split(secret).join(marker)\<close> alike.
\<close>

function replace_all :: "(string \<Rightarrow> nat option) \<Rightarrow> string \<Rightarrow> string \<Rightarrow> string" where
  "replace_all m marker s = (case s of
     [] \<Rightarrow> []
   | c # t \<Rightarrow> (case m s of
       None \<Rightarrow> c # replace_all m marker t
     | Some n \<Rightarrow> marker @ replace_all m marker (drop (max 1 n) s)))"
  by pat_completeness auto
termination by (relation "measure (\<lambda>(_, _, s). length s)") auto

declare replace_all.simps [simp del]

text \<open>\<^verbatim>\<open>/^0x[0-9a-fA-F]+$/\<close>, and the digits behind the prefix.\<close>

definition hexBody :: "string \<Rightarrow> string option" where
  "hexBody secret = (if starts_with ''0x'' secret \<and> drop 2 secret \<noteq> [] \<and> list_all is_hex (drop 2 secret)
     then Some (drop 2 secret) else None)"

text \<open>\<^verbatim>\<open>(?:0x)?\<close> and the digits, letter case ignored; and a literal match.\<close>

definition match_hex :: "string \<Rightarrow> string \<Rightarrow> nat option" where
  "match_hex body s =
     (if toLowerCase (take (length body + 2) s) = ''0x'' @ toLowerCase body then Some (length body + 2)
      else if toLowerCase (take (length body) s) = toLowerCase body then Some (length body) else None)"

definition match_exact :: "string \<Rightarrow> string \<Rightarrow> nat option" where
  "match_exact secret s = (if starts_with secret s then Some (length secret) else None)"

definition secret_match :: "string \<Rightarrow> string \<Rightarrow> nat option" where
  "secret_match secret = (case hexBody secret of
     Some body \<Rightarrow> if 32 \<le> length body then match_hex body else match_exact secret
   | None \<Rightarrow> match_exact secret)"

definition redact_one :: "string \<Rightarrow> string \<Rightarrow> string" where
  "redact_one secret cleaned =
     (if length secret < 32 then cleaned else replace_all (secret_match secret) BEARER_REDACTION cleaned)"

definition redactBearerSecrets :: "js_numbers \<Rightarrow> js \<Rightarrow> string list \<Rightarrow> js result" where
  "redactBearerSecrets nb v secrets =
     (if \<not> serialisable v then Inl (TypeError ''Do not know how to serialize a BigInt'')
      else if v = JUndefined then Inr v
      else let serialized = json_text nb v; cleaned = fold redact_one secrets serialized in
        if cleaned = serialized then Inr v
        else (case json_parse nb cleaned of
            None \<Rightarrow> Inl (SyntaxError ''Bad escaped character in JSON'')
          | Some x \<Rightarrow> Inr x))"

section \<open>One pass\<close>

text \<open>The alphabet of the secrets: base64, hexadecimal among it.\<close>

definition secret_char :: "char \<Rightarrow> bool" where
  "secret_char c \<longleftrightarrow> is_digit c \<or> is_lower c \<or> is_upper c \<or> c \<in> {CHR ''+'', CHR ''/'', CHR ''=''}"

definition secret_word :: "string \<Rightarrow> bool" where
  "secret_word w \<longleftrightarrow> w \<noteq> [] \<and> list_all secret_char w"

lemma secret_char_facts [simp]:
  "\<not> secret_char CHR ''[''" "\<not> secret_char CHR '']''" "\<not> secret_char CHR '':''" "\<not> secret_char QUOTE" "\<not> secret_char BACKSLASH"
  by (simp_all add: secret_char_def char_class_defs QUOTE_def BACKSLASH_def)

lemma is_hex_secret: "is_hex c \<Longrightarrow> secret_char c"
  by (auto simp: secret_char_def char_class_defs)

lemma replace_all_Nil [simp]: "replace_all m marker [] = []"
  by (simp add: replace_all.simps)

lemma replace_all_step:
  "replace_all m marker (c # t) = (case m (c # t) of None \<Rightarrow> c # replace_all m marker t
     | Some n \<Rightarrow> marker @ replace_all m marker (drop (max 1 n) (c # t)))"
  by (subst replace_all.simps) simp

lemma marker_hd: "BEARER_REDACTION = CHR ''['' # tl BEARER_REDACTION"
  by (simp add: BEARER_REDACTION_def)

lemma marker_last: "BEARER_REDACTION = butlast BEARER_REDACTION @ '']''"
  by (simp add: BEARER_REDACTION_def)

text \<open>A word of the alphabet stands at the front of the output only if it stood at the front of the input.\<close>

lemma replace_prefix:
  assumes "list_all secret_char w" "prefix w (replace_all m BEARER_REDACTION s)"
  shows "prefix w s"
  using assms
proof (induction s arbitrary: w)
  case Nil
  then show ?case by simp
next
  case (Cons c t)
  show ?case
  proof (cases w)
    case Nil
    then show ?thesis by simp
  next
    case w: (Cons a v)
    show ?thesis
    proof (cases "m (c # t)")
      case None
      then have "a = c" "prefix v (replace_all m BEARER_REDACTION t)"
        using Cons.prems(2) w by (simp_all add: replace_all_step)
      then show ?thesis using Cons.IH [of v] Cons.prems(1) w by simp
    next
      case (Some n)
      then obtain x where "prefix (a # v) (BEARER_REDACTION @ x)" using Cons.prems(2) w by (simp add: replace_all_step)
      then have "a = hd (BEARER_REDACTION @ x)" by (auto simp: prefix_def)
      then have "a = CHR ''[''" by (simp add: BEARER_REDACTION_def)
      then show ?thesis using Cons.prems(1) w by simp
    qed
  qed
qed

lemma sublist_marker:
  assumes "secret_word w" "32 \<le> length w" shows "\<not> sublist w BEARER_REDACTION"
proof
  assume "sublist w BEARER_REDACTION"
  then obtain ps ss where m: "BEARER_REDACTION = ps @ w @ ss" by (auto simp: sublist_def)
  have len: "length BEARER_REDACTION = 40" "BEARER_REDACTION ! 9 = CHR '':''" by (simp_all add: BEARER_REDACTION_def)
  then have "length ps + length w + length ss = 40" using m by (metis add.assoc length_append)
  then have p: "length ps \<le> 8" using assms(2) by simp
  have "(ps @ w @ ss) ! 9 = CHR '':''" using len(2) m by simp
  then have "w ! (9 - length ps) = CHR '':''" using p assms(2) by (simp add: nth_append split: if_splits)
  moreover have "9 - length ps < length w" using assms(2) by simp
  ultimately have "CHR '':'' \<in> set w" by (metis nth_mem)
  then show False using assms(1) by (auto simp: secret_word_def list_all_iff)
qed

text \<open>A long word of the alphabet in the output stood in the input, where no match began.\<close>

lemma replace_sublist:
  assumes "secret_word w" "32 \<le> length w" "sublist w (replace_all m BEARER_REDACTION s)"
  shows "\<exists>u. suffix u s \<and> prefix w u \<and> m u = None"
  using assms(3)
proof (induction "length s" arbitrary: s rule: less_induct)
  case less
  show ?case
  proof (cases s)
    case Nil
    then show ?thesis using less.prems assms(1) by (simp add: secret_word_def)
  next
    case (Cons c t)
    show ?thesis
    proof (cases "m s")
      case None
      then have r: "replace_all m BEARER_REDACTION s = c # replace_all m BEARER_REDACTION t"
        using Cons by (simp add: replace_all_step)
      from less.prems consider "prefix w (replace_all m BEARER_REDACTION s)" | "sublist w (replace_all m BEARER_REDACTION t)"
        unfolding r sublist_Cons_right by blast
      then show ?thesis
      proof cases
        case 1
        then have "prefix w s" using replace_prefix assms(1) by (auto simp: secret_word_def)
        then show ?thesis using None by blast
      next
        case 2
        then obtain u where "suffix u t" "prefix w u" "m u = None" using less.hyps [of t] Cons by auto
        moreover from this(1) have "suffix u s" using Cons by (simp add: suffix_ConsI)
        ultimately show ?thesis by blast
      qed
    next
      case (Some n)
      let ?rest = "drop (max 1 n) s"
      have r: "replace_all m BEARER_REDACTION s = BEARER_REDACTION @ replace_all m BEARER_REDACTION ?rest"
        using Some Cons by (simp add: replace_all_step)
      have "sublist w (replace_all m BEARER_REDACTION ?rest)"
      proof -
        from less.prems consider "sublist w BEARER_REDACTION" | "sublist w (replace_all m BEARER_REDACTION ?rest)"
          | xs ys where "w = xs @ ys" "suffix xs BEARER_REDACTION" "prefix ys (replace_all m BEARER_REDACTION ?rest)"
          unfolding r sublist_append by blast
        then show ?thesis
        proof cases
          case 1
          then show ?thesis using sublist_marker [OF assms(1,2)] by blast
        next
          case 2
          then show ?thesis .
        next
          case 3
          show ?thesis
          proof (cases "xs = []")
            case True
            then show ?thesis using 3 by (simp add: prefix_imp_sublist)
          next
            case False
            moreover obtain zs where "BEARER_REDACTION = zs @ xs" using 3(2) by (auto simp: suffix_def)
            ultimately have "last xs = last BEARER_REDACTION" by (metis last_appendR)
            then have "last xs = CHR '']''" by (simp add: BEARER_REDACTION_def)
            moreover have "last xs \<in> set w" using False 3(1) by simp
            ultimately have "CHR '']'' \<in> set w" by simp
            then show ?thesis using assms(1) by (auto simp: secret_word_def list_all_iff)
          qed
        qed
      qed
      moreover have "length ?rest < length s" using Cons by simp
      ultimately obtain u where "suffix u ?rest" "prefix w u" "m u = None" using less.hyps by blast
      then show ?thesis by (metis suffix_drop suffix_order.trans)
    qed
  qed
qed

section \<open>The secrets are gone from the text\<close>

text \<open>The spellings of a secret: the digits in any letter case, or the text itself.\<close>

definition spells :: "string \<Rightarrow> string \<Rightarrow> bool" where
  "spells secret w \<longleftrightarrow> (case hexBody secret of
     Some body \<Rightarrow> if 32 \<le> length body then toLowerCase w = toLowerCase body else w = secret
   | None \<Rightarrow> w = secret)"

text \<open>What the client sends: permission contexts and base64 headers of at least thirty-two characters.\<close>

definition bearer_secret :: "string \<Rightarrow> bool" where
  "bearer_secret secret \<longleftrightarrow> list_all secret_char secret \<and> 34 \<le> length secret"

lemma bearer_spelling:
  assumes "bearer_secret secret" "spells secret w"
  shows "secret_word w" "32 \<le> length w"
proof -
  have "secret_word w \<and> 32 \<le> length w"
  proof (cases "w = secret")
    case True
    then show ?thesis using assms(1) by (auto simp: bearer_secret_def secret_word_def)
  next
    case False
    then obtain body where b: "hexBody secret = Some body" "32 \<le> length body" "toLowerCase w = toLowerCase body"
      using assms(2) by (auto simp: spells_def split: option.splits if_splits)
    then have "list_all is_hex body" by (auto simp: hexBody_def split: if_splits)
    have len: "length w = length body" using b(3) by (metis length_toLowerCase)
    have "is_hex c" if "c \<in> set w" for c
    proof -
      have "to_lower_char c \<in> set (toLowerCase w)" using that by (simp add: toLowerCase_def)
      then have "to_lower_char c \<in> set (toLowerCase body)" by (simp only: b(3))
      then have "to_lower_char c \<in> to_lower_char ` set body" by (simp add: toLowerCase_def)
      then obtain d where "d \<in> set body" "to_lower_char c = to_lower_char d" by blast
      then have h: "is_hex (to_lower_char c)" using \<open>list_all is_hex body\<close> by (auto simp: list_all_iff)
      show ?thesis
      proof (cases "is_upper c")
        case True
        then have l: "(of_char c + 32 :: nat) < 256" by (simp add: is_upper_def char_between_def)
        then have "(of_char (to_lower_char c) :: nat) = of_char c + 32" using True by (simp add: to_lower_char_def)
        then show ?thesis using h True by (auto simp: char_class_defs)
      next
        case False
        then show ?thesis using h by (simp add: to_lower_char_def)
      qed
    qed
    then have "list_all secret_char w" by (simp add: list_all_iff is_hex_secret)
    then show ?thesis using len b(2) by (auto simp: secret_word_def)
  qed
  then show "secret_word w" "32 \<le> length w" by auto
qed

lemma spells_matched:
  assumes "spells secret w" "prefix w u" shows "secret_match secret u \<noteq> None"
proof -
  have t: "take (length w) u = w" using assms(2) by (auto simp: prefix_def)
  show ?thesis
  proof (cases "\<exists>body. hexBody secret = Some body \<and> 32 \<le> length body")
    case True
    then obtain body where b: "hexBody secret = Some body" "32 \<le> length body" by blast
    then have l: "toLowerCase w = toLowerCase body" using assms(1) by (simp add: spells_def)
    then have "length w = length body" by (metis length_toLowerCase)
    then show ?thesis using b l t by (simp add: secret_match_def match_hex_def)
  next
    case False
    then have "w = secret" "secret_match secret = match_exact secret" using assms(1)
      by (auto simp: spells_def secret_match_def split: option.splits)
    then show ?thesis using t by (simp add: match_exact_def starts_with_def)
  qed
qed

lemma redact_one_removes:
  assumes "bearer_secret secret" "spells secret w" shows "\<not> sublist w (redact_one secret s)"
proof
  assume "sublist w (redact_one secret s)"
  then have "sublist w (replace_all (secret_match secret) BEARER_REDACTION s)"
    using assms(1) by (auto simp: redact_one_def bearer_secret_def)
  then obtain u where "prefix w u" "secret_match secret u = None"
    using replace_sublist bearer_spelling [OF assms] by blast
  then show False using spells_matched [OF assms(2)] by blast
qed

lemma redact_one_keeps:
  assumes "secret_word w" "32 \<le> length w" "sublist w (redact_one secret s)" shows "sublist w s"
proof (cases "length secret < 32")
  case True
  then show ?thesis using assms(3) by (simp add: redact_one_def)
next
  case False
  then obtain u where "suffix u s" "prefix w u"
    using replace_sublist [OF assms(1,2)] assms(3) by (auto simp: redact_one_def)
  then show ?thesis by (meson prefix_imp_sublist suffix_imp_sublist sublist_order.order.trans)
qed

lemma redacted_text_clean:
  assumes "secret \<in> set secrets" "bearer_secret secret" "spells secret w"
  shows "\<not> sublist w (fold redact_one secrets s)"
  using assms(1)
proof (induction secrets arbitrary: s)
  case (Cons a secrets)
  have later: "sublist w s'" if "sublist w (fold redact_one ss s')" for ss s'
    using that
  proof (induction ss arbitrary: s')
    case (Cons b ss)
    have "sublist w (fold redact_one ss (redact_one b s'))" using Cons.prems by simp
    then have "sublist w (redact_one b s')" by (rule Cons.IH)
    then show ?case by (rule redact_one_keeps [OF bearer_spelling [OF assms(2,3)]])
  qed simp
  show ?case
  proof (cases "secret \<in> set secrets")
    case True
    then show ?thesis using Cons.IH by simp
  next
    case False
    then have "a = secret" using Cons.prems by simp
    then show ?thesis using later [of secrets "redact_one secret s"] redact_one_removes [OF assms(2,3), of s] by auto
  qed
qed simp

section \<open>The escapes of the text stay harmless\<close>

text \<open>Every escape of a printed text stands for a control character, a quote or a backslash.\<close>

fun tame :: "string \<Rightarrow> bool" where
  "tame [] = True"
| "tame [c] = True"
| "tame (c # e # r) = (if c \<noteq> BACKSLASH then tame (e # r)
     else if e = CHR ''u'' then (case hex4 r of Some n \<Rightarrow> n < 32 | None \<Rightarrow> True) \<and> tame r
     else e \<noteq> CHR ''/'' \<and> tame r)"

lemma tame_plain: "c \<noteq> BACKSLASH \<Longrightarrow> tame (c # t) = tame t"
  by (cases t) simp_all

lemma tame_append: "BACKSLASH \<notin> set w \<Longrightarrow> tame (w @ t) = tame t"
  by (induction w) (auto simp: tame_plain)

lemma tame_drop: "tame t \<Longrightarrow> BACKSLASH \<notin> set (take n t) \<Longrightarrow> tame (drop n t)"
  using tame_append [of "take n t" "drop n t"] by simp

lemma tame_hex4: "tame r \<Longrightarrow> hex4 r = Some n \<Longrightarrow> tame (drop 4 r)"
proof (rule tame_drop)
  assume "hex4 r = Some n"
  then have "list_all is_hex (take 4 r)" by (simp add: hex4_def split: if_splits)
  moreover have "\<not> is_hex BACKSLASH" by (simp add: BACKSLASH_def char_class_defs)
  ultimately show "BACKSLASH \<notin> set (take 4 r)" by (auto simp: list_all_iff)
qed

lemma hex4_prefix: "hex4 s = Some n \<Longrightarrow> prefix (take 4 s) t \<Longrightarrow> hex4 t = Some n"
proof -
  assume h: "hex4 s = Some n" and p: "prefix (take 4 s) t"
  have l: "length (take 4 s) = 4" using h by (auto simp: hex4_def split: if_splits)
  then have "take 4 t = take 4 s" using p by (auto simp: prefix_def)
  moreover have "4 \<le> length t" using p l prefix_length_le by fastforce
  ultimately show ?thesis using h by (auto simp: hex4_def split: if_splits)
qed

text \<open>The matches of a secret lie inside its alphabet.\<close>

definition safe_match :: "(string \<Rightarrow> nat option) \<Rightarrow> bool" where
  "safe_match m \<longleftrightarrow> (\<forall>s n. m s = Some n \<longrightarrow> 0 < n \<and> n \<le> length s \<and> list_all secret_char (take n s))"

lemma safe_not_escape: "safe_match m \<Longrightarrow> m (BACKSLASH # t) = None"
proof (rule ccontr)
  assume s: "safe_match m" and "m (BACKSLASH # t) \<noteq> None"
  then obtain n where n: "0 < n" "list_all secret_char (take n (BACKSLASH # t))" by (auto simp: safe_match_def)
  then obtain k where "n = Suc k" by (cases n) auto
  then show False using n(2) by simp
qed

lemma safe_drop: "safe_match m \<Longrightarrow> tame s \<Longrightarrow> m s = Some n \<Longrightarrow> tame (drop n s)"
proof (rule tame_drop)
  assume "safe_match m" "m s = Some n"
  then have "list_all secret_char (take n s)" by (simp add: safe_match_def)
  then show "BACKSLASH \<notin> set (take n s)" by (auto simp: list_all_iff)
qed

lemma tame_marker [simp]: "tame (BEARER_REDACTION @ t) = tame t"
  by (rule tame_append) (simp add: BEARER_REDACTION_def BACKSLASH_def)

lemma tame_escaped_marker: "tame (BACKSLASH # BEARER_REDACTION @ t) = tame t"
  by (simp add: BEARER_REDACTION_def BACKSLASH_def tame_plain)

lemma replace_tame:
  assumes "safe_match m" "tame s" shows "tame (replace_all m BEARER_REDACTION s)"
  using assms(2)
proof (induction "length s" arbitrary: s rule: less_induct)
  case less
  let ?R = "replace_all m BEARER_REDACTION"
  have matched: "tame (?R s')" if "m s' = Some n" "tame s'" "length s' \<le> length s" for s' n
  proof -
    have n: "0 < n" "n \<le> length s'" using assms(1) that(1) by (auto simp: safe_match_def)
    then obtain c t where s': "s' = c # t" by (cases s') auto
    have "tame (?R (drop n s'))"
      by (rule less.hyps) (use n that(3) safe_drop [OF assms(1) that(2,1)] in auto)
    then show ?thesis using that(1) n s' by (simp add: replace_all_step max_def)
  qed
  show ?case
  proof (cases "m s")
    case (Some n)
    then show ?thesis using matched less.prems by simp
  next
    case None
    show ?thesis
    proof (cases s)
      case Nil
      then show ?thesis by simp
    next
      case (Cons c t)
      then have r: "?R s = c # ?R t" using None by (simp add: replace_all_step)
      show ?thesis
      proof (cases "c = BACKSLASH")
        case False
        then have "tame t" using less.prems Cons by (simp add: tame_plain)
        then have "tame (?R t)" using less.hyps [of t] Cons by simp
        then show ?thesis using r False by (simp add: tame_plain)
      next
        case c: True
        show ?thesis
        proof (cases t)
          case Nil
          then show ?thesis using r by simp
        next
          case t: (Cons e u)
          have u: "tame u" using less.prems Cons c t by (auto split: if_splits)
          show ?thesis
          proof (cases "m t")
            case m: (Some n)
            then have "secret_char e" using assms(1) t unfolding safe_match_def by (cases n) (auto dest!: spec [of _ t])
            then have "tame t" using u t by (cases "e = BACKSLASH") (auto simp: tame_plain)
            then have "tame (?R t)" using matched m Cons by simp
            moreover obtain mk x where "?R t = BEARER_REDACTION @ x" using m t by (simp add: replace_all_step)
            ultimately show ?thesis using r c by (simp add: tame_escaped_marker)
          next
            case m: None
            then have rt: "?R t = e # ?R u" using t by (simp add: replace_all_step)
            have ru: "tame (?R u)" using less.hyps [of u] u Cons t by simp
            show ?thesis
            proof (cases "e = CHR ''u''")
              case False
              then show ?thesis using less.prems Cons c t r rt ru by simp
            next
              case e: True
              have "n < 32" if "hex4 (?R u) = Some n" for n
              proof -
                have "list_all is_hex (take 4 (?R u))" using that by (simp add: hex4_def split: if_splits)
                then have "list_all secret_char (take 4 (?R u))" by (auto simp: list_all_iff is_hex_secret)
                then have "prefix (take 4 (?R u)) u" by (rule replace_prefix) (rule take_is_prefix)
                then have "hex4 u = Some n" by (rule hex4_prefix [OF that])
                then show ?thesis using less.prems Cons c t e by simp
              qed
              then show ?thesis using e c r rt ru by (auto split: option.split)
            qed
          qed
        qed
      qed
    qed
  qed
qed

lemma secret_safe:
  assumes "bearer_secret secret" shows "safe_match (secret_match secret)"
proof -
  have chars: "list_all secret_char secret" and len: "34 \<le> length secret" using assms by (auto simp: bearer_secret_def)
  have lower: "list_all secret_char u" if "toLowerCase u = toLowerCase v" "list_all is_hex v \<or> list_all secret_char v" for u v
  proof -
    have up: "secret_char c" if "secret_char (to_lower_char c)" for c
      using that by (cases "is_upper c") (auto simp: secret_char_def to_lower_char_def)
    have down: "secret_char (to_lower_char c)" if "secret_char c" for c
    proof (cases "is_upper c")
      case True
      then have l: "(of_char c + 32 :: nat) < 256" by (simp add: is_upper_def char_between_def)
      then have "(of_char (to_lower_char c) :: nat) = of_char c + 32" using True by (simp add: to_lower_char_def)
      then show ?thesis using True by (auto simp: secret_char_def char_class_defs)
    qed (use that in \<open>simp add: to_lower_char_def\<close>)
    have v: "list_all secret_char v" using that(2) is_hex_secret by (auto simp: list_all_iff)
    have "secret_char c" if "c \<in> set u" for c
    proof -
      have "to_lower_char c \<in> set (toLowerCase u)" using that by (simp add: toLowerCase_def)
      then have "to_lower_char c \<in> set (toLowerCase v)" by (simp only: \<open>toLowerCase u = toLowerCase v\<close>)
      then obtain d where "d \<in> set v" "to_lower_char c = to_lower_char d" by (auto simp: toLowerCase_def)
      then have "secret_char (to_lower_char c)" using v down by (simp add: list_all_iff)
      then show ?thesis by (rule up)
    qed
    then show ?thesis by (simp add: list_all_iff)
  qed
  have exact: "safe_match (match_exact secret)"
    unfolding safe_match_def
  proof (intro allI impI)
    fix s n assume "match_exact secret s = Some n"
    then have "n = length secret" "take (length secret) s = secret" by (auto simp: match_exact_def starts_with_def split: if_splits)
    then show "0 < n \<and> n \<le> length s \<and> list_all secret_char (take n s)"
      using chars len by (metis length_take less_le_trans min.cobounded1 zero_less_numeral)
  qed
  have hex: "safe_match (match_hex body)" if b: "hexBody secret = Some body" "32 \<le> length body" for body
    unfolding safe_match_def
  proof (intro allI impI)
    fix s n assume m: "match_hex body s = Some n"
    have h: "list_all is_hex body" using b(1) by (auto simp: hexBody_def split: if_splits)
    from m obtain v where v: "toLowerCase (take n s) = toLowerCase v" "list_all secret_char v" "n = length v"
    proof -
      have x: "''0x'' @ toLowerCase body = toLowerCase (''0x'' @ body)" by (simp add: toLowerCase_def to_lower_char_def is_upper_def char_between_def)
      have "list_all secret_char (''0x'' @ body)" using h is_hex_secret by (auto simp: list_all_iff secret_char_def char_class_defs)
      moreover have "list_all secret_char body" using h is_hex_secret by (auto simp: list_all_iff)
      ultimately show thesis using m that [of "''0x'' @ body"] that [of body] unfolding match_hex_def x by (auto split: if_splits)
    qed
    have "length (take n s) = n" using v(1,3) by (metis length_toLowerCase)
    moreover have "0 < n" using m b(2) by (auto simp: match_hex_def split: if_splits)
    ultimately show "0 < n \<and> n \<le> length s \<and> list_all secret_char (take n s)" using lower [OF v(1)] v(2) by simp
  qed
  show ?thesis using exact hex by (auto simp: secret_match_def split: option.splits)
qed

lemma redacted_tame: "list_all bearer_secret secrets \<Longrightarrow> tame s \<Longrightarrow> tame (fold redact_one secrets s)"
  by (induction secrets arbitrary: s) (auto simp: redact_one_def intro: replace_tame secret_safe)

section \<open>Printed text is tame\<close>

lemma scan_no_backslash: "scan_number s = Some (t, r) \<Longrightarrow> BACKSLASH \<notin> set t"
  using scan_number_split by (fastforce simp: list_all_iff number_char_def BACKSLASH_def char_class_defs)

lemma tame_escape: "tame (escape_char c @ t) = tame t"
proof -
  let ?n = "of_char c :: nat"
  have q: "QUOTE \<noteq> CHR ''/''" "BACKSLASH \<noteq> CHR ''/''" "CHR ''0'' \<noteq> BACKSLASH" by (simp_all add: QUOTE_def BACKSLASH_def)
  consider "c = QUOTE \<or> c = BACKSLASH" | "c \<noteq> QUOTE" "c \<noteq> BACKSLASH" "32 \<le> ?n"
    | "\<exists>e. escape_char c = [BACKSLASH, e] \<and> e \<noteq> CHR ''/'' \<and> e \<noteq> CHR ''u''"
    | "?n < 32" "escape_char c = [BACKSLASH, CHR ''u'', CHR ''0'', CHR ''0'', hex_char (?n div 16), hex_char (?n mod 16)]"
  proof -
    assume r: "c = QUOTE \<or> c = BACKSLASH \<Longrightarrow> thesis" "c \<noteq> QUOTE \<Longrightarrow> c \<noteq> BACKSLASH \<Longrightarrow> 32 \<le> ?n \<Longrightarrow> thesis"
      "\<exists>e. escape_char c = [BACKSLASH, e] \<and> e \<noteq> CHR ''/'' \<and> e \<noteq> CHR ''u'' \<Longrightarrow> thesis"
      "?n < 32 \<Longrightarrow> escape_char c = [BACKSLASH, CHR ''u'', CHR ''0'', CHR ''0'', hex_char (?n div 16), hex_char (?n mod 16)] \<Longrightarrow> thesis"
    show thesis
    proof (cases "c = QUOTE \<or> c = BACKSLASH \<or> 32 \<le> ?n")
      case True
      then show ?thesis using r by blast
    next
      case False
      show ?thesis
      proof (cases "?n \<in> {8, 9, 10, 12, 13}")
        case True
        then show ?thesis using False by (intro r(3)) (auto simp: escape_char_def)
      next
        case n: False
        then show ?thesis using False by (intro r(4)) (auto simp: escape_char_def Let_def)
      qed
    qed
  qed
  then show ?thesis
  proof cases
    case 1
    then show ?thesis using q by (auto simp: escape_char_def)
  next
    case 2
    then show ?thesis by (simp add: escape_char_def tame_plain)
  next
    case 3
    then show ?thesis by auto
  next
    case 4
    have "?n div 16 < 16" using 4(1) by simp
    then have "hex_char (?n div 16) \<noteq> BACKSLASH" "hex_char (?n mod 16) \<noteq> BACKSLASH"
      using hex_char_facts(1) [of "?n div 16"] hex_char_facts(1) [of "?n mod 16"] by (auto simp: BACKSLASH_def char_class_defs)
    then show ?thesis using 4 hex4_control [OF 4(1), of t] q(3) by (simp add: tame_plain)
  qed
qed


lemma tame_quote: "tame (quote s @ t) = tame t"
proof -
  have "tame (concat (map escape_char s) @ u) = tame u" for u by (induction s) (simp_all add: tame_escape)
  then show ?thesis by (simp add: quote_def tame_plain)
qed

lemma json_text_tame:
  assumes "numbers_ok nb" "json_doc nb x"
  shows "tame (json_text nb x @ t) = tame t"
  using assms(2)
proof (induction x arbitrary: t)
  case (JArray xs)
  have items: "tame (join_with '','' (map (json_text nb) ys) @ u) = tame u" if "set ys \<subseteq> set xs" for ys u
    using that
  proof (induction ys arbitrary: u)
    case (Cons y ys)
    have y: "tame (json_text nb y @ v) = tame v" for v
      by (rule JArray.IH) (use Cons.prems JArray.prems in \<open>auto simp: list_all_iff\<close>)
    then show ?case using Cons by (cases ys) (simp_all add: tame_plain BACKSLASH_def)
  qed simp
  show ?case using items [of xs "CHR '']'' # t"] by (simp add: tame_plain BACKSLASH_def)
next
  case (JObject fs)
  have l: "list_all (\<lambda>(k, x). json_doc nb x) fs" using JObject.prems by simp
  have items: "tame (join_with '','' (map (field_text nb) ys) @ u) = tame u" if "set ys \<subseteq> set fs" for ys u
    using that
  proof (induction ys arbitrary: u)
    case (Cons y ys)
    have "tame (json_text nb (snd y) @ v) = tame v" for v
      by (rule JObject.IH [of y]) (use Cons.prems l in \<open>auto simp: list_all_iff snds.simps\<close>)
    then have y: "tame (field_text nb y @ v) = tame v" for v
      by (simp add: field_text_def tame_quote tame_plain BACKSLASH_def)
    then show ?case using Cons by (cases ys) (simp_all add: tame_plain BACKSLASH_def)
  qed simp
  show ?case using items [of fs "CHR ''}'' # t"] by (simp add: json_text_object [OF l] tame_plain BACKSLASH_def del: json_text.simps)
next
  case (JNum n)
  have f: "follow []" by (simp add: follow_def)
  have "scan_number (number_text nb (JNum n) @ []) = Some (number_text nb (JNum n), [])"
    by (rule scan_number_text(1) [OF assms(1) JNum f]) simp
  then have "BACKSLASH \<notin> set (number_text nb (JNum n))" by (intro scan_no_backslash) simp
  then show ?case by (simp add: tame_append)
next
  case (JFrac q)
  have f: "follow []" by (simp add: follow_def)
  have "scan_number (number_text nb (JFrac q) @ []) = Some (number_text nb (JFrac q), [])"
    by (rule scan_number_text(1) [OF assms(1) JFrac f]) simp
  then have "BACKSLASH \<notin> set (number_text nb (JFrac q))" by (intro scan_no_backslash) simp
  then show ?case by (simp add: tame_append)
next
  case (JString s)
  then show ?case by (simp add: tame_quote)
qed (auto simp: tame_plain BACKSLASH_def)

section \<open>A secret in a parsed string stood in the text\<close>

lemma secret_char_code: "secret_char c \<Longrightarrow> 43 \<le> (of_char c :: nat)"
  by (auto simp: secret_char_def char_class_defs)

lemma utf8_unit_control: "(n :: nat) < 32 \<Longrightarrow> \<not> secret_char (char_of n)"
  using secret_char_code [of "char_of n"] by auto

lemma simple_escape_plain: "simple_escape e = Some x \<Longrightarrow> e \<noteq> CHR ''/'' \<Longrightarrow> \<not> secret_char x"
  by (auto simp: simple_escape_def secret_char_def char_class_defs QUOTE_def BACKSLASH_def split: if_splits)

lemma tame_unicode:
  assumes "unicode_escape r = Some (b, n)" "tame (BACKSLASH # CHR ''u'' # r)"
  shows "\<exists>c. b = [c] \<and> \<not> secret_char c" "tame (drop n r)"
proof -
  obtain k where k: "hex4 r = Some k" using assms(1) by (auto simp: unicode_escape_def split: option.splits)
  then have small: "k < 32" "tame r" using assms(2) by auto
  then have "b = [char_of k]" "n = 4" using assms(1) k by (auto simp: unicode_escape_def utf8_unit_def)
  then show "\<exists>c. b = [c] \<and> \<not> secret_char c" "tame (drop n r)"
    using utf8_unit_control small tame_hex4 [OF small(2) k] by auto
qed

lemma json_chars_cases:
  assumes "json_chars s = Some (w, z)" "tame s"
  obtains (close) "s = QUOTE # z" "w = []"
  | (verbatim) c t v where "s = c # t" "w = c # v" "json_chars t = Some (v, z)" "tame t" "c \<noteq> BACKSLASH"
  | (escaped) c v n where "w = c # v" "\<not> secret_char c" "json_chars (drop n s) = Some (v, z)" "tame (drop n s)" "0 < n" "s \<noteq> []"
proof (cases s)
  case Nil
  then show thesis using assms(1) by (simp add: json_chars.simps)
next
  case (Cons c t)
  consider "c = QUOTE" | "c = BACKSLASH" | "c \<noteq> QUOTE" "c \<noteq> BACKSLASH" by blast
  then show thesis
  proof cases
    case 1
    then show ?thesis using assms(1) Cons by (intro close) auto
  next
    case 2
    then obtain e r where t: "t = e # r" using assms(1) Cons by (cases t) (simp_all add: json_chars.simps)
    show ?thesis
    proof (cases "e = CHR ''u''")
      case True
      then obtain b n where u: "unicode_escape r = Some (b, n)"
        using assms(1) Cons 2 t by (subst (asm) json_chars.simps) (auto split: option.splits)
      then obtain v where v: "json_chars (drop n r) = Some (v, z)" "w = b @ v"
        using assms(1) Cons 2 t True json_chars_unicode [OF u] by auto
      have "tame (BACKSLASH # CHR ''u'' # r)" using assms(2) Cons 2 t True by simp
      note tu = tame_unicode [OF u this]
      then obtain x where "b = [x]" "\<not> secret_char x" by blast
      then show ?thesis using tu(2) v Cons t by (intro escaped [of x v "Suc (Suc n)"]) auto
    next
      case False
      then obtain x where x: "simple_escape e = Some x"
        using assms(1) Cons 2 t by (subst (asm) json_chars.simps) (auto split: option.splits)
      then obtain v where v: "json_chars r = Some (v, z)" "w = x # v"
        using assms(1) Cons 2 t False json_chars_simple [OF x False] by auto
      have "e \<noteq> CHR ''/''" "tame r" using assms(2) Cons 2 t False by simp_all
      then show ?thesis using v Cons t simple_escape_plain [OF x] by (intro escaped [of x v "Suc (Suc 0)"]) auto
    qed
  next
    case 3
    then have "32 \<le> (of_char c :: nat)" using assms(1) Cons by (subst (asm) json_chars.simps) (auto split: if_splits)
    then obtain v where "json_chars t = Some (v, z)" "w = c # v" using assms(1) Cons 3 json_chars_plain [of c t] by auto
    then show ?thesis using Cons 3 assms(2) by (intro verbatim) (auto simp: tame_plain)
  qed
qed

lemma chars_prefix:
  assumes "json_chars s = Some (u, z)" "tame s" "list_all secret_char w" "prefix w u"
  shows "prefix w s"
  using assms
proof (induction "length s" arbitrary: s u w rule: less_induct)
  case less
  show ?case
  proof (cases w)
    case Nil
    then show ?thesis by simp
  next
    case w: (Cons a w')
    from less.prems(1,2) show ?thesis
    proof (cases rule: json_chars_cases)
      case close
      then show ?thesis using less.prems(4) w by simp
    next
      case (verbatim c t v)
      then have "prefix w' t" using less.hyps [of t v w'] less.prems w by simp
      then show ?thesis using verbatim less.prems(4) w by simp
    next
      case (escaped c v n)
      then show ?thesis using less.prems(3,4) w by simp
    qed
  qed
qed

lemma chars_sublist:
  assumes "json_chars s = Some (u, z)" "tame s"
  shows "tame z \<and> suffix z s \<and> (\<forall>w. secret_word w \<longrightarrow> sublist w u \<longrightarrow> sublist w s)"
  using assms
proof (induction "length s" arbitrary: s u rule: less_induct)
  case less
  from less.prems show ?case
  proof (cases rule: json_chars_cases)
    case close
    then show ?thesis using less.prems by (auto simp: tame_plain secret_word_def suffix_ConsI)
  next
    case (verbatim c t v)
    have ih: "tame z \<and> suffix z t \<and> (\<forall>w. secret_word w \<longrightarrow> sublist w v \<longrightarrow> sublist w t)"
      using less.hyps [of t v] verbatim by simp
    have "sublist w s" if "secret_word w" "sublist w u" for w
    proof -
      from that(2) consider "prefix w u" | "sublist w v" unfolding verbatim(2) sublist_Cons_right by blast
      then show ?thesis
      proof cases
        case 1
        then show ?thesis using chars_prefix [OF less.prems] that(1) by (simp add: secret_word_def prefix_imp_sublist)
      next
        case 2
        then have "sublist w t" using ih that(1) by blast
        then show ?thesis using verbatim(1) by (simp add: sublist_Cons_right)
      qed
    qed
    moreover have "suffix z s" using ih verbatim(1) by (simp add: suffix_ConsI)
    ultimately show ?thesis using ih by blast
  next
    case (escaped c v n)
    have ih: "tame z \<and> suffix z (drop n s) \<and> (\<forall>w. secret_word w \<longrightarrow> sublist w v \<longrightarrow> sublist w (drop n s))"
      using less.hyps [of "drop n s" v] escaped by simp
    have "sublist w s" if "secret_word w" "sublist w u" for w
    proof -
      have "\<not> prefix w u" using that(1) escaped(1,2) by (cases w) (auto simp: secret_word_def)
      then have "sublist w v" using that(2) unfolding escaped(1) sublist_Cons_right by blast
      then have "sublist w (drop n s)" using ih that(1) by blast
      moreover have "sublist (drop n s) s" by (simp add: suffix_drop suffix_imp_sublist)
      ultimately show ?thesis by (rule sublist_order.order.trans)
    qed
    moreover have "suffix z s" using ih suffix_drop suffix_order.trans by blast
    ultimately show ?thesis using ih by blast
  qed
qed

text \<open>Every string of a value, keys included.\<close>

fun js_strings :: "js \<Rightarrow> string set" where
  "js_strings (JString s) = {s}"
| "js_strings (JArray xs) = (\<Union>x \<in> set xs. js_strings x)"
| "js_strings (JObject fs) = (\<Union>(k, x) \<in> set fs. insert k (js_strings x))"
| "js_strings _ = {}"

definition traced :: "string set \<Rightarrow> string \<Rightarrow> bool" where
  "traced U s \<longleftrightarrow> (\<forall>u \<in> U. \<forall>w. secret_word w \<longrightarrow> sublist w u \<longrightarrow> sublist w s)"

lemma traced_suffix: "traced U t \<Longrightarrow> suffix t s \<Longrightarrow> traced U s"
  unfolding traced_def by (meson suffix_imp_sublist sublist_order.order.trans)

lemma traced_Un [simp]: "traced (U \<union> V) s \<longleftrightarrow> traced U s \<and> traced V s" "traced {} s" 
  by (auto simp: traced_def)

lemma eat_suffix: "eat c s = Some t \<Longrightarrow> suffix t s"
proof -
  assume "eat c s = Some t"
  then have "suffix t (skip_ws s)" by (auto simp: eat_def suffix_ConsI split: list.splits if_splits)
  then show ?thesis using suffix_dropWhile suffix_order.trans by blast
qed

lemma space_plain: "json_space c \<Longrightarrow> c \<noteq> BACKSLASH"
  by (auto simp: json_space_def BACKSLASH_def)

lemma skip_tame: "tame s \<Longrightarrow> tame (skip_ws s)"
  by (induction s) (auto simp: space_plain tame_plain)

lemma eat_tame: "eat c s = Some t \<Longrightarrow> c \<noteq> BACKSLASH \<Longrightarrow> tame s \<Longrightarrow> tame t"
  using skip_tame [of s] by (cases "skip_ws s") (auto simp: eat_def tame_plain split: if_splits)

lemma scalar_facts:
  assumes "numbers_ok nb" "json_scalar nb s = Some (x, r)" "tame s"
  shows "tame r" "js_strings x = {}" "suffix r s"
proof -
  have "tame r \<and> js_strings x = {} \<and> suffix r s"
  proof (cases "starts_with ''true'' s \<or> starts_with ''false'' s \<or> starts_with ''null'' s")
    case True
    have cut: "tame (drop (length p) s) \<and> suffix (drop (length p) s) s" if "starts_with p s" "BACKSLASH \<notin> set p" for p
      using tame_drop [OF assms(3), of "length p"] that by (simp add: starts_with_def suffix_drop)
    have plain: "BACKSLASH \<notin> set ''true''" "BACKSLASH \<notin> set ''false''" "BACKSLASH \<notin> set ''null''" by (simp_all add: BACKSLASH_def)
    from True consider "starts_with ''true'' s" | "\<not> starts_with ''true'' s" "starts_with ''false'' s"
      | "\<not> starts_with ''true'' s" "\<not> starts_with ''false'' s" "starts_with ''null'' s" by blast
    then show ?thesis
    proof cases
      case 1
      then show ?thesis using assms(2) cut [OF 1 plain(1)] by (auto simp: json_scalar_def eval_nat_numeral)
    next
      case 2
      then show ?thesis using assms(2) cut [OF 2(2) plain(2)] by (auto simp: json_scalar_def eval_nat_numeral)
    next
      case 3
      then show ?thesis using assms(2) cut [OF 3(3) plain(3)] by (auto simp: json_scalar_def eval_nat_numeral)
    qed
  next
    case False
    then obtain t where t: "scan_number s = Some (t, r)" "x = read_number nb t"
      using assms(2) by (auto simp: json_scalar_def split: option.splits)
    have "s = t @ r" "BACKSLASH \<notin> set t" using scan_number_split [OF t(1)] scan_no_backslash [OF t(1)] by auto
    moreover have "(\<exists>n. num_read nb t = JNum n) \<or> (\<exists>q. num_read nb t = JFrac q)"
      using assms(1) unfolding numbers_ok_def by blast
    then have "js_strings x = {}" using t(2) by (auto simp: read_number_def)
    ultimately show ?thesis using assms(3) tame_append by (auto simp: suffix_def)
  qed
  then show "tame r" "js_strings x = {}" "suffix r s" by auto
qed

lemma put_field_strings: "js_strings (JObject (put_field k x fs)) \<subseteq> insert k (js_strings x \<union> js_strings (JObject fs))"
  by (induction fs) auto

lemma traced_mono: "traced U s \<Longrightarrow> V \<subseteq> U \<Longrightarrow> traced V s"
  by (auto simp: traced_def)

definition read_ok :: "string \<Rightarrow> string set \<Rightarrow> string \<Rightarrow> bool" where
  "read_ok s U r \<longleftrightarrow> tame r \<and> suffix r s \<and> traced U s"

lemma read_ok_eat: "read_ok t U r \<Longrightarrow> eat c s = Some t \<Longrightarrow> read_ok s U r"
  using eat_suffix traced_suffix suffix_order.trans unfolding read_ok_def by blast

lemma read_ok_then: "read_ok s U r \<Longrightarrow> eat c r = Some t \<Longrightarrow> c \<noteq> BACKSLASH \<Longrightarrow> read_ok t V z \<Longrightarrow> read_ok s (U \<union> V) z"
  unfolding read_ok_def by (metis eat_suffix suffix_order.trans traced_Un(1) traced_suffix)

lemma read_ok_end: "read_ok s U r \<Longrightarrow> eat c r = Some t \<Longrightarrow> c \<noteq> BACKSLASH \<Longrightarrow> read_ok s U t"
  unfolding read_ok_def by (metis eat_suffix eat_tame suffix_order.trans)

lemma chars_ok: "json_chars s = Some (w, r) \<Longrightarrow> tame s \<Longrightarrow> read_ok s {w} r"
  using chars_sublist [of s w r] by (simp add: read_ok_def traced_def)

lemma backslash_apart [simp]: "CHR ''['' \<noteq> BACKSLASH" "CHR '']'' \<noteq> BACKSLASH" "CHR ''{'' \<noteq> BACKSLASH" "CHR ''}'' \<noteq> BACKSLASH"
  "CHR '','' \<noteq> BACKSLASH" "CHR '':'' \<noteq> BACKSLASH"
  by (simp_all add: BACKSLASH_def)

lemma parse_traced:
  shows "json_value nb n s = Some (x, r) \<Longrightarrow> numbers_ok nb \<Longrightarrow> tame s \<Longrightarrow> read_ok s (js_strings x) r"
    and "json_items nb n acc s = Some (xs, r') \<Longrightarrow> numbers_ok nb \<Longrightarrow> tame s \<Longrightarrow>
      \<exists>ys. xs = acc @ ys \<and> read_ok s (js_strings (JArray ys)) r'"
    and "json_fields nb n fs s = Some (gs, r'') \<Longrightarrow> numbers_ok nb \<Longrightarrow> tame s \<Longrightarrow>
      \<exists>U. js_strings (JObject gs) \<subseteq> js_strings (JObject fs) \<union> U \<and> read_ok s U r''"
proof (induction nb n s and nb n acc s and nb n fs s arbitrary: x r and xs r' and gs r''
    rule: json_value_json_items_json_fields.induct)
  case (2 nb n s)
  note run = 2(3) and tame = 2(5)
  have nil: "read_ok u {} u" if "tame u" for u using that by (simp add: read_ok_def)
  show ?case
  proof (cases "eat QUOTE s")
    case (Some t)
    then obtain w where w: "json_chars t = Some (w, r)" "x = JString w" using run by auto
    have "read_ok t {w} r" by (rule chars_ok [OF w(1)]) (use eat_tame [OF Some _ tame] in simp)
    then show ?thesis using read_ok_eat [OF _ Some] w(2) by simp
  next
    case q: None
    show ?thesis
    proof (cases "eat CHR ''['' s")
      case b: (Some t)
      have t: "tame t" by (rule eat_tame [OF b _ tame]) simp
      show ?thesis
      proof (cases "eat CHR '']'' t")
        case None
        then obtain xs where xs: "json_items nb n [] t = Some (xs, r)" "x = JArray xs" using run q b by auto
        then have "read_ok t (js_strings x) r" using 2(2) [OF q b None xs(1) 2(4) t] by auto
        then show ?thesis by (rule read_ok_eat [OF _ b])
      next
        case (Some u)
        then have "x = JArray []" "r = u" using run q b by auto
        then show ?thesis using read_ok_eat [OF read_ok_end [OF nil [OF t] Some] b] by simp
      qed
    next
      case b: None
      show ?thesis
      proof (cases "eat CHR ''{'' s")
        case c: (Some t)
        have t: "tame t" by (rule eat_tame [OF c _ tame]) simp
        show ?thesis
        proof (cases "eat CHR ''}'' t")
          case None
          then obtain fs where fs: "json_fields nb n [] t = Some (fs, r)" "x = JObject fs" using run q b c by auto
          then obtain U where "js_strings x \<subseteq> U" "read_ok t U r" using 2(1) [OF q b c None fs(1) 2(4) t] by auto
          then have "read_ok t (js_strings x) r" unfolding read_ok_def using traced_mono by blast
          then show ?thesis by (rule read_ok_eat [OF _ c])
        next
          case (Some u)
          then have "x = JObject []" "r = u" using run q b c by auto
          then show ?thesis using read_ok_eat [OF read_ok_end [OF nil [OF t] Some] c] by simp
        qed
      next
        case c: None
        then have "json_scalar nb (skip_ws s) = Some (x, r)" using run q b by simp
        then have f: "tame r" "js_strings x = {}" "suffix r (skip_ws s)"
          using scalar_facts [OF 2(4) _ skip_tame [OF tame]] by auto
        have "suffix r s" using f(3) suffix_dropWhile suffix_order.trans by blast
        then show ?thesis using f by (simp add: read_ok_def)
      qed
    qed
  qed
next
  case (4 nb n acc s)
  note run = 4(3) and tame = 4(5)
  obtain y z where y: "json_value nb n s = Some (y, z)" using run by (auto split: option.splits)
  have v: "read_ok s (js_strings y) z" by (rule 4(1) [OF y 4(4) tame])
  show ?case
  proof (cases "eat CHR '','' z")
    case (Some t)
    then have rest: "json_items nb n (acc @ [y]) t = Some (xs, r')" using run y by simp
    have "tame t" by (rule eat_tame [OF Some]) (use v in \<open>simp_all add: read_ok_def\<close>)
    then obtain ys where ys: "xs = (acc @ [y]) @ ys" "read_ok t (js_strings (JArray ys)) r'"
      using 4(2) [OF y refl Some rest 4(4)] by blast
    have "read_ok s (js_strings y \<union> js_strings (JArray ys)) r'" by (rule read_ok_then [OF v Some _ ys(2)]) simp
    then show ?thesis using ys(1) by (intro exI [of _ "y # ys"]) simp
  next
    case None
    then obtain t where t: "eat CHR '']'' z = Some t" "xs = acc @ [y]" "r' = t" using run y by (auto split: option.splits)
    have "read_ok s (js_strings y) t" by (rule read_ok_end [OF v t(1)]) simp
    then show ?thesis using t by (intro exI [of _ "[y]"]) simp
  qed
next
  case (6 nb n fs s)
  note run = 6(3) and tame = 6(5)
  obtain t k z u where t: "eat QUOTE s = Some t" "json_chars t = Some (k, z)" "eat CHR '':'' z = Some u"
    using run by (auto split: option.splits)
  obtain y v where y: "json_value nb n u = Some (y, v)" using run t by (auto split: option.splits)
  have "tame t" by (rule eat_tame [OF t(1) _ tame]) simp
  then have key: "read_ok s {k} z" using read_ok_eat [OF chars_ok [OF t(2)] t(1)] by blast
  have "tame u" by (rule eat_tame [OF t(3)]) (use key in \<open>simp_all add: read_ok_def\<close>)
  then have "read_ok u (js_strings y) v" using 6(1) [OF t(1,2) refl t(3) y 6(4)] by blast
  then have kv: "read_ok s ({k} \<union> js_strings y) v" by (rule read_ok_then [OF key t(3), rotated]) simp
  have put: "js_strings (JObject (put_field k y fs)) \<subseteq> js_strings (JObject fs) \<union> ({k} \<union> js_strings y)"
    using put_field_strings [of k y fs] by blast
  show ?case
  proof (cases "eat CHR '','' v")
    case (Some w)
    then have rest: "json_fields nb n (put_field k y fs) w = Some (gs, r'')" using run t y by simp
    have "tame w" by (rule eat_tame [OF Some]) (use kv in \<open>simp_all add: read_ok_def\<close>)
    then obtain U where U: "js_strings (JObject gs) \<subseteq> js_strings (JObject (put_field k y fs)) \<union> U" "read_ok w U r''"
      using 6(2) [OF t(1,2) refl t(3) y refl Some rest 6(4)] by blast
    have "read_ok s (({k} \<union> js_strings y) \<union> U) r''" by (rule read_ok_then [OF kv Some _ U(2)]) simp
    then show ?thesis using U(1) put by (intro exI [of _ "({k} \<union> js_strings y) \<union> U"]) auto
  next
    case None
    then obtain w where w: "eat CHR ''}'' v = Some w" "gs = put_field k y fs" "r'' = w" using run t y by (auto split: option.splits)
    have "read_ok s ({k} \<union> js_strings y) w" by (rule read_ok_end [OF kv w(1)]) simp
    then show ?thesis using w put by (intro exI [of _ "{k} \<union> js_strings y"]) auto
  qed
qed simp_all

lemma json_parse_traced:
  assumes "numbers_ok nb" "tame s" "json_parse nb s = Some x" "u \<in> js_strings x" "secret_word w" "sublist w u"
  shows "sublist w s"
proof -
  obtain r where "json_value nb (2 * length s + 1) s = Some (x, r)"
    using assms(3) by (auto simp: json_parse_def split: option.splits if_splits)
  then have "read_ok s (js_strings x) r" using parse_traced(1) assms(1,2) by blast
  then show ?thesis using assms(4-) by (auto simp: read_ok_def traced_def)
qed

lemma escape_secret: "list_all secret_char w \<Longrightarrow> concat (map escape_char w) = w"
proof (induction w)
  case (Cons c w)
  then have "c \<noteq> QUOTE" "c \<noteq> BACKSLASH" "32 \<le> (of_char c :: nat)" using secret_char_code [of c] by auto
  then show ?case using Cons by (simp add: escape_char_def)
qed simp

lemma quoted_sublist: "secret_word w \<Longrightarrow> sublist w u \<Longrightarrow> sublist w (quote u)"
proof -
  assume "secret_word w" "sublist w u"
  then obtain a b where u: "u = a @ w @ b" by (auto simp: sublist_def)
  have w: "concat (map escape_char w) = w" using \<open>secret_word w\<close> by (simp add: secret_word_def escape_secret)
  have "quote u = (QUOTE # concat (map escape_char a)) @ w @ (concat (map escape_char b) @ [QUOTE])"
    using w by (simp add: u quote_def)
  then show ?thesis by (metis sublist_appendI)
qed

lemma sublist_padded: "sublist x y \<Longrightarrow> sublist x (a @ y)" "sublist x y \<Longrightarrow> sublist x (y @ b)"
  by (auto simp: sublist_append)

lemma join_sublist: "x \<in> set xs \<Longrightarrow> sublist x (join_with sep xs)"
proof (induction sep xs rule: join_with.induct)
  case (3 sep s t ts)
  show ?case
  proof (cases "x = s")
    case True
    then show ?thesis by simp
  next
    case False
    then have "sublist x (join_with sep (t # ts))" using 3 by auto
    moreover have "sublist (join_with sep (t # ts)) (join_with sep (s # t # ts))"
      by (simp add: sublist_padded)
    ultimately show ?thesis by (rule sublist_order.order.trans)
  qed
qed auto

lemma strings_printed:
  assumes "json_doc nb v" "u \<in> js_strings v" "secret_word w" "sublist w u"
  shows "sublist w (json_text nb v)"
  using assms(1,2)
proof (induction v)
  case (JArray xs)
  then obtain x where x: "x \<in> set xs" "u \<in> js_strings x" by auto
  have "sublist w (json_text nb x)" by (rule JArray.IH [OF x(1) _ x(2)]) (use JArray.prems(1) x(1) in \<open>auto simp: list_all_iff\<close>)
  also have "sublist (json_text nb x) (join_with '','' (map (json_text nb) xs))" by (rule join_sublist) (use x in simp)
  also have "sublist \<dots> (''['' @ \<dots> @ '']'')" by (rule sublist_appendI)
  finally show ?case by simp
next
  case (JObject fs)
  have l: "list_all (\<lambda>(k, x). json_doc nb x) fs" using JObject.prems by simp
  obtain k x where p: "(k, x) \<in> set fs" "u = k \<or> u \<in> js_strings x" using JObject.prems(2) by auto
  have "sublist w (field_text nb (k, x))"
  proof (cases "u = k")
    case True
    have "sublist w (quote k)" using quoted_sublist assms(3,4) True by blast
    then show ?thesis by (simp add: field_text_def sublist_padded)
  next
    case False
    then have "sublist w (json_text nb x)"
      using JObject.IH [of "(k, x)" x] p l by (auto simp: list_all_iff snds.simps)
    moreover have "sublist (json_text nb x) (quote k @ '':'' @ json_text nb x)" by (metis append.assoc sublist_appendI append_Nil2)
    ultimately show ?thesis by (metis append_Cons append_Nil field_text_def fst_conv snd_conv sublist_order.order.trans)
  qed
  also have "sublist (field_text nb (k, x)) (join_with '','' (map (field_text nb) fs))"
    by (rule join_sublist) (use p in force)
  also have "sublist \<dots> (''{'' @ \<dots> @ ''}'')" by (rule sublist_appendI)
  finally show ?case using json_text_object [OF l] by simp
next
  case (JString s)
  then show ?case using quoted_sublist assms(3,4) by simp
qed simp_all

section \<open>What comes back\<close>

lemma redacted_strings_clean:
  assumes "numbers_ok nb" "json_doc nb v" "list_all bearer_secret secrets"
    and "redactBearerSecrets nb v secrets = Inr v'" "secret \<in> set secrets" "spells secret w" "u \<in> js_strings v'"
  shows "\<not> sublist w u"
proof
  assume w: "sublist w u"
  let ?cleaned = "fold redact_one secrets (json_text nb v)"
  have s: "bearer_secret secret" using assms(3,5) by (auto simp: list_all_iff)
  note word = bearer_spelling(1) [OF s assms(6)]
  have "tame (json_text nb v @ [])" using json_text_tame [OF assms(1,2), of "[]"] by simp
  then have tame: "tame ?cleaned" using redacted_tame [OF assms(3)] by simp
  have "v \<noteq> JUndefined" using doc_defined [OF assms(2)] .
  then consider "?cleaned = json_text nb v" "v' = v" | "json_parse nb ?cleaned = Some v'"
    using assms(4) by (auto simp: redactBearerSecrets_def Let_def split: if_splits option.splits)
  then have "sublist w ?cleaned"
  proof cases
    case 1
    then show ?thesis using strings_printed [OF assms(2)] assms(7) word w by metis
  next
    case 2
    then show ?thesis using json_parse_traced [OF assms(1) tame 2 assms(7) word w] by simp
  qed
  then show False using redacted_text_clean [OF assms(5) s assms(6)] by simp
qed

text \<open>A value without the secrets comes back as it is.\<close>

lemma replace_none: "(\<And>u. suffix u s \<Longrightarrow> u \<noteq> [] \<Longrightarrow> m u = None) \<Longrightarrow> replace_all m marker s = s"
proof (induction s)
  case (Cons c t)
  have "m (c # t) = None" using Cons.prems [of "c # t"] by simp
  moreover have "replace_all m marker t = t"
    by (rule Cons.IH) (simp add: Cons.prems suffix_ConsI)
  ultimately show ?case by (simp add: replace_all_step)
qed simp

text \<open>
  The replacement can break an escape: a string that holds the control character U+000E
  followed by a secret without its first character \<^verbatim>\<open>e\<close> is printed as \<^verbatim>\<open>\u000e...\<close>, and
  the match takes the last digit of the escape with it. The parser then throws.
\<close>

lemma broken_escape_throws:
  assumes "list_all secret_char rest" "31 \<le> length rest"
  shows "redactBearerSecrets nb (JString (CHR 0x0E # rest)) [CHR ''e'' # rest] = Inl (SyntaxError ''Bad escaped character in JSON'')"
proof -
  let ?s = "CHR ''e'' # rest"
  have hb: "hexBody ?s = None" by (simp add: hexBody_def starts_with_def)
  have "hex_char 0 = char_of (of_char CHR ''0'' :: nat)" "hex_char 14 = char_of (of_char CHR ''e'' :: nat)" by (simp_all add: hex_char_def)
  then have digits: "hex_char 0 = CHR ''0''" "hex_char 14 = CHR ''e''" by (simp_all only: char_of_char)
  have printed: "json_text nb (JString (CHR 0x0E # rest)) = QUOTE # BACKSLASH # ''u000'' @ ?s @ [QUOTE]"
    using escape_secret [OF assms(1)] by (simp add: quote_def escape_char_def Let_def QUOTE_def BACKSLASH_def digits)
  have m: "secret_match ?s = match_exact ?s" by (simp add: secret_match_def hb)
  have "?s @ [QUOTE] = CHR ''e'' # rest @ [QUOTE]" by simp
  have e: "replace_all (match_exact ?s) BEARER_REDACTION (?s @ [QUOTE]) = BEARER_REDACTION @ [QUOTE]"
    by (simp add: replace_all_step match_exact_def starts_with_def QUOTE_def)
  have skip: "match_exact ?s (c # t) = None" if "c \<noteq> CHR ''e''" for c t
    using that by (simp add: match_exact_def starts_with_def)
  have red: "redact_one ?s (QUOTE # BACKSLASH # ''u000'' @ ?s @ [QUOTE]) = QUOTE # BACKSLASH # ''u000'' @ BEARER_REDACTION @ [QUOTE]"
    using assms(2) e by (simp add: redact_one_def m replace_all_step skip QUOTE_def BACKSLASH_def)
  have h: "hex4 (''000'' @ BEARER_REDACTION @ [QUOTE]) = None"
    by (simp add: hex4_def BEARER_REDACTION_def char_class_defs)
  have "json_chars (BACKSLASH # CHR ''u'' # ''000'' @ BEARER_REDACTION @ [QUOTE]) = None"
    using h by (subst json_chars.simps) (simp add: unicode_escape_def)
  then have "json_parse nb (QUOTE # BACKSLASH # ''u000'' @ BEARER_REDACTION @ [QUOTE]) = None"
    by (simp add: json_parse_def)
  then show ?thesis using red printed by (simp add: redactBearerSecrets_def Let_def BEARER_REDACTION_def)
qed

end
