(* ===== verification/Buyer_Client.thy ===== *)
theory Buyer_Client
  imports Seller Wire_Codec Bearer_Redaction
begin

text \<open>
  The buyer (\<^verbatim>\<open>packages/delegation/src/payment-client.ts\<close>): the choice of an offer, the
  reading of a seller's answers, and \<^verbatim>\<open>payForDelegatedResource\<close>, the exchange GET, 402, sign,
  retry. The network is a function of a world, so that a seller with state can stand behind it;
  the run records what the client did in order. Clock and timeouts are the network's: an answer
  that does not arrive is a call that throws.

  Parameters: the \<^verbatim>\<open>viem\<close> functions, the spelling of numbers, \<^verbatim>\<open>new URL\<close> (for the redaction of
  thrown texts), the engine's wording of a JSON syntax error, the leaf provider, the preflight
  and the sixteen random bytes of an identifier.
\<close>

section \<open>Vocabulary\<close>

datatype DelegatedPaymentFailureCode =
    NOT_PAYMENT_REQUIRED | UNSUPPORTED_X402_VERSION | SELLER_OFFER_INVALID | FACILITATOR_UNTRUSTED | MANAGER_MISMATCH
  | LIMIT_EXCEEDED | SPEND_POLICY_REFUSED | PERMISSION_INACTIVE | PERMISSION_EMPTY | SIGNING_FAILED
  | PAYMENT_REJECTED | SELLER_UNAVAILABLE | SETTLEMENT_UNKNOWN | MALFORMED_RESOURCE | TRANSPORT_ERROR

definition SETTLEMENT_UNKNOWN_STATUSES :: "int list" where
  "SETTLEMENT_UNKNOWN_STATUSES = [408, 425, 504, 502, 520, 521, 522, 523, 524]"

definition SELLER_UNAVAILABLE_STATUSES :: "int list" where
  "SELLER_UNAVAILABLE_STATUSES = [429, 503]"

definition X402_REFUSAL_WORDS :: "string list" where
  "X402_REFUSAL_WORDS = [''insufficient_funds'', ''invalid_scheme'', ''unsupported_scheme'', ''invalid_network'',
     INVALID_PAYLOAD, ''invalid_payment_requirements'', ''invalid_x402_version'', ''invalid_transaction_state'']"

definition SELLER_REFUSAL_CODES :: "(string \<times> DelegatedPaymentFailureCode) list" where
  "SELLER_REFUSAL_CODES =
     [(SETTLEMENT_PENDING, SETTLEMENT_UNKNOWN), (UNEXPECTED_SETTLE_ERROR, SETTLEMENT_UNKNOWN),
      (RATE_LIMITED, SELLER_UNAVAILABLE), (FACILITATOR_NOT_READY, SELLER_UNAVAILABLE),
      (UNEXPECTED_VERIFY_ERROR, SELLER_UNAVAILABLE), (DELEGATION_REJECTED, PAYMENT_REJECTED),
      (PAYMENT_IDENTIFIER_CONFLICT, PAYMENT_REJECTED), (PAYMENT_IDENTIFIER_SETTLED, SETTLEMENT_UNKNOWN)]
     @ map (\<lambda>word. (word, PAYMENT_REJECTED)) X402_REFUSAL_WORDS"

definition REFUSAL_NOTE :: "DelegatedPaymentFailureCode \<Rightarrow> string" where
  "REFUSAL_NOTE code = (if code = SETTLEMENT_UNKNOWN then ''the payer may already be charged''
     else if code = SELLER_UNAVAILABLE then ''nothing charged, retry later'' else ''no settlement was attempted'')"

text \<open>The verdict of a preflight, and what the caller configures.\<close>

datatype PreflightVerdict = PreflightOk | PreflightRefused DelegatedPaymentFailureCode string

record leaf =
  lf_delegationManager :: string
  lf_permissionContext :: string
  lf_delegator :: string

record DelegatedPaymentConfig =
  dc_provider :: "js \<Rightarrow> leaf result"
  dc_delegationManager :: string
  dc_trustedFacilitators :: "string list"
  dc_preflight :: "(js \<Rightarrow> PreflightVerdict result) option"

record paid_result =
  pd_amount :: js
  pd_payTo :: string
  pd_transaction :: "string option"
  pd_contentType :: "string option"
  pd_resource :: js
  pd_paymentIdentifier :: string

record failed_result =
  fl_code :: DelegatedPaymentFailureCode
  fl_status :: "int option"
  fl_detail :: string
  fl_paymentIdentifier :: "string option"
  fl_transaction :: "string option"

datatype DelegatedPaymentResult = Paid paid_result | Unpaid failed_result

definition client_failure :: "DelegatedPaymentFailureCode \<Rightarrow> string \<Rightarrow> int option \<Rightarrow> DelegatedPaymentResult" where
  "client_failure code detail status = Unpaid \<lparr>fl_code = code, fl_status = status, fl_detail = detail,
     fl_paymentIdentifier = None, fl_transaction = None\<rparr>"

text \<open>What the engine and the libraries provide; \<open>be_loose\<close> is \<^verbatim>\<open>isAddress(x, {strict: false})\<close>, the test inside \<^verbatim>\<open>getAddress\<close>.\<close>

record buyer_env =
  be_viem :: viem
  be_loose :: "string \<Rightarrow> bool"
  be_numbers :: js_numbers
  be_url :: url_parser
  be_syntax :: "string \<Rightarrow> string"

text \<open>\<^verbatim>\<open>redactForLog(error)\<close>: \<^verbatim>\<open>`${error.name}: ${error.message}`\<close>, redacted.\<close>

definition thrown_text :: "js_error \<Rightarrow> string" where
  "thrown_text e = (case e of
     TypeError m \<Rightarrow> ''TypeError: '' @ m
   | RangeError m \<Rightarrow> ''RangeError: '' @ m
   | Error m \<Rightarrow> ''Error: '' @ m
   | SyntaxError m \<Rightarrow> ''SyntaxError: '' @ m
   | ConstraintFailed m \<Rightarrow> ''SQLiteError: '' @ m
   | SettlementBudgetExceeded m \<Rightarrow> ''SettlementBudgetExceededError: '' @ m
   | AdmissionError m \<Rightarrow> ''AdmissionError: '' @ m)"

definition errorMessage :: "buyer_env \<Rightarrow> js_error \<Rightarrow> string" where
  "errorMessage env e = redactForLog (be_url env) (thrown_text e) 300"

section \<open>A value in a template\<close>

text \<open>
  \<^verbatim>\<open>String(x)\<close> of a value that \<^verbatim>\<open>JSON.parse\<close> returned, as a template literal and \<^verbatim>\<open>RegExp.test\<close>
  convert it. An object with a property \<^verbatim>\<open>toString\<close> of its own has one that cannot be called,
  and the conversion throws.
\<close>

fun results :: "'a result list \<Rightarrow> 'a list result" where
  "results [] = Inr []"
| "results (r # rs) = ebind r (\<lambda>x. ebind (results rs) (\<lambda>xs. Inr (x # xs)))"

function template_text :: "js_numbers \<Rightarrow> js \<Rightarrow> string result" where
  "template_text nb JUndefined = Inr ''undefined''"
| "template_text nb JNull = Inr ''null''"
| "template_text nb (JBool b) = Inr (if b then ''true'' else ''false'')"
| "template_text nb (JNum n) = Inr (number_text nb (JNum n))"
| "template_text nb (JFrac q) = Inr (number_text nb (JFrac q))"
| "template_text nb (JBigint n) = Inr (String n)"
| "template_text nb (JString s) = Inr s"
| "template_text nb (JArray xs) = ebind
     (results (map (\<lambda>x. if x = JUndefined \<or> x = JNull then Inr [] else template_text nb x) xs)) (\<lambda>ts. Inr (join_with '','' ts))"
| "template_text nb (JObject fs) =
     (if ''toString'' \<in> fst ` set fs then Inl (TypeError ''Cannot convert object to primitive value'')
      else Inr ''[object Object]'')"
  by pat_completeness auto
termination by (relation "measure (\<lambda>(_, x). size x)") (auto simp: size_list_estimation' less_Suc_eq_le)

section \<open>The choice of an offer\<close>

definition newPaymentIdentifier :: "nat list \<Rightarrow> string" where
  "newPaymentIdentifier bytes = ''pay_'' @ concat (map (\<lambda>b. [hex_char (b div 16 mod 16), hex_char (b mod 16)]) bytes)"

definition isExactErc7710OnGiwa :: "js \<Rightarrow> bool" where
  "isExactErc7710OnGiwa v \<longleftrightarrow> typeof_object v \<and> v \<noteq> JNull \<and>
     js_get v ''scheme'' = JString ''exact'' \<and> js_get v ''network'' = JString GIWA_SEPOLIA_CAIP2 \<and>
     js_get (js_get v ''extra'') ''assetTransferMethod'' = JString ''erc7710''"

text \<open>\<^verbatim>\<open>/^[1-9]\d*$/\<close>.\<close>

definition positive_whole :: "string \<Rightarrow> bool" where
  "positive_whole s \<longleftrightarrow> s \<noteq> [] \<and> list_all is_digit s \<and> hd s \<noteq> CHR ''0''"

definition absent :: "js \<Rightarrow> bool" where
  "absent x \<longleftrightarrow> x = JUndefined \<or> x = JNull"

text \<open>A value that is no string is no address.\<close>

definition assertErc7710Offer :: "buyer_env \<Rightarrow> js \<Rightarrow> js result" where
  "assertErc7710Offer env v =
     (let vm = be_viem env; asset = js_get v ''asset''; payTo = js_get v ''payTo''; extra = js_get v ''extra'' in
      ebind (ensure (isExactErc7710OnGiwa v) (Error ''seller did not offer exact ERC-7710 on GIWA'')) (\<lambda>_.
      ebind (ensure (js_isAddress vm asset \<and> js_getAddress vm asset = MOCK_USDC_address)
        (Error (if js_isAddress vm asset then ''unexpected asset '' @ js_getAddress vm asset
                else ''seller asset is not an address''))) (\<lambda>_.
      ebind (ensure (js_isAddress vm payTo) (Error ''seller payTo is malformed'')) (\<lambda>_.
      ebind (ensure (js_getAddress vm payTo \<noteq> zeroAddress) (Error ''seller payTo is the zero address'')) (\<lambda>_.
      ebind (template_text (be_numbers env) (js_get v ''amount'')) (\<lambda>amount.
      ebind (ensure (positive_whole amount) (Error ''seller amount is malformed'')) (\<lambda>_.
      ebind (ensure (js_get extra ''paymentFlow'' \<in> {JUndefined, JNull, JString ''upfront'', JString ''authorization''})
        (Error ''seller declares an unsupported payment flow'')) (\<lambda>_.
      ebind (ensure (case js_get v ''maxTimeoutSeconds'' of JNum n \<Rightarrow> 1 \<le> n \<and> n \<le> 300 | _ \<Rightarrow> False)
        (Error ''seller timeout is unsafe'')) (\<lambda>_.
      ebind (ensure (absent (js_get extra ''facilitatorAddresses'') \<or>
          (case js_get extra ''facilitatorAddresses'' of JArray _ \<Rightarrow> True | _ \<Rightarrow> False))
        (Error ''seller facilitatorAddresses is not a list'')) (\<lambda>_.
      ebind (ensure (absent (js_get extra ''delegationManager'') \<or> js_isAddress vm (js_get extra ''delegationManager''))
        (Error ''seller delegationManager is malformed'')) (\<lambda>_.
      Inr v)))))))))))"

datatype OfferSelection = Accepted js | NotAccepted DelegatedPaymentFailureCode string

definition advertised_facilitators :: "js \<Rightarrow> js list" where
  "advertised_facilitators v = (case js_get (js_get v ''extra'') ''facilitatorAddresses'' of JArray xs \<Rightarrow> xs | _ \<Rightarrow> [])"

definition facilitators_overlap :: "buyer_env \<Rightarrow> DelegatedPaymentConfig \<Rightarrow> js \<Rightarrow> bool" where
  "facilitators_overlap env config v \<longleftrightarrow> list_ex (\<lambda>trusted. list_ex (\<lambda>f.
     js_isAddress (be_viem env) f \<and> js_getAddress (be_viem env) f = trusted) (advertised_facilitators v))
     (dc_trustedFacilitators config)"

text \<open>\<^verbatim>\<open>getAddress(x)\<close> of any value: it throws on what is no address, with any checksum.\<close>

definition getAddress_of :: "buyer_env \<Rightarrow> js \<Rightarrow> string result" where
  "getAddress_of env x = (case x of
     JString s \<Rightarrow> if be_loose env s then Inr (v_getAddress (be_viem env) s) else Inl (Error ''Address is invalid.'')
   | _ \<Rightarrow> Inl (Error ''Address is invalid.''))"

definition judgeOffer :: "buyer_env \<Rightarrow> DelegatedPaymentConfig \<Rightarrow> js \<Rightarrow> OfferSelection result" where
  "judgeOffer env config candidate =
     (case assertErc7710Offer env candidate of
        Inl e \<Rightarrow> Inr (NotAccepted SELLER_OFFER_INVALID (errorMessage env e))
      | Inr accepted \<Rightarrow>
          if \<not> facilitators_overlap env config accepted
          then Inr (NotAccepted FACILITATOR_UNTRUSTED ''seller and trusted facilitator signer lists do not overlap'')
          else let manager = js_get (js_get accepted ''extra'') ''delegationManager'' in
            if manager = JUndefined then Inr (Accepted accepted)
            else ebind (getAddress_of env manager) (\<lambda>advertised.
              ebind (getAddress_of env (JString (dc_delegationManager config))) (\<lambda>expected.
                if advertised \<noteq> expected
                then Inr (NotAccepted MANAGER_MISMATCH ''seller advertises a different DelegationManager than the verified deployment'')
                else Inr (Accepted accepted))))"

fun select_from :: "buyer_env \<Rightarrow> DelegatedPaymentConfig \<Rightarrow> js list \<Rightarrow> OfferSelection option \<Rightarrow> OfferSelection option result" where
  "select_from env config [] onRail = Inr onRail"
| "select_from env config (c # cs) onRail = ebind (judgeOffer env config c) (\<lambda>verdict. case verdict of
       Accepted v \<Rightarrow> Inr (Some (Accepted v))
     | NotAccepted _ _ \<Rightarrow>
         select_from env config cs (if onRail = None \<and> isExactErc7710OnGiwa c then Some verdict else onRail))"

definition selectOffer :: "buyer_env \<Rightarrow> DelegatedPaymentConfig \<Rightarrow> js \<Rightarrow> OfferSelection result" where
  "selectOffer env config accepts = (case accepts of
     JArray (c # cs) \<Rightarrow> ebind (select_from env config (c # cs) None) (\<lambda>sel. Inr (case sel of
         Some s \<Rightarrow> s
       | None \<Rightarrow> NotAccepted SELLER_OFFER_INVALID
           (''no exact ERC-7710 offer on GIWA among '' @ nat_dec (length (c # cs)) @ '' accepts'')))
   | _ \<Rightarrow> Inr (NotAccepted SELLER_OFFER_INVALID ''402 body has no accepts''))"

section \<open>A seller's answer\<close>

text \<open>
  What the client reads of a response: \<open>pa_body\<close> is the decoded text of the body, or the
  exception the read ends in. \<^verbatim>\<open>json()\<close> parses that text.
\<close>

record pay_answer =
  pa_status :: int
  pa_required :: "string option"
  pa_response :: "string option"
  pa_contentType :: "string option"
  pa_body :: "string result"

definition answer_json :: "buyer_env \<Rightarrow> pay_answer \<Rightarrow> js result" where
  "answer_json env a = ebind (pa_body a) (\<lambda>body. case json_parse (be_numbers env) body of
     None \<Rightarrow> Inl (SyntaxError (be_syntax env body)) | Some x \<Rightarrow> Inr x)"

text \<open>\<^verbatim>\<open>response.ok\<close>.\<close>

definition answer_ok :: "pay_answer \<Rightarrow> bool" where
  "answer_ok a \<longleftrightarrow> 200 \<le> pa_status a \<and> pa_status a \<le> 299"

definition TRANSACTION_HASH :: "string \<Rightarrow> bool" where
  "TRANSACTION_HASH = hex_literal is_hex 64"

definition hash_of_js :: "js \<Rightarrow> string option" where
  "hash_of_js x = (case x of JString t \<Rightarrow> if TRANSACTION_HASH t then Some t else None | _ \<Rightarrow> None)"

definition extractTransaction :: "js \<Rightarrow> string option" where
  "extractTransaction resource = hash_of_js (js_get (js_get resource ''receipt'') ''transaction'')"

definition mediaType :: "string \<Rightarrow> string" where
  "mediaType contentType = toLowerCase (trim (hd (split_char CHR '';'' contentType)))"

definition isJsonMediaType :: "string \<Rightarrow> bool" where
  "isJsonMediaType t \<longleftrightarrow> t = ''application/json'' \<or> ends_with ''+json'' t"

text \<open>\<^verbatim>\<open>readSettlementReceipt\<close>: none when the header is no receipt of this payment.\<close>

definition readSettlementReceipt :: "buyer_env \<Rightarrow> string option \<Rightarrow> string \<Rightarrow> string option option" where
  "readSettlementReceipt env header delegator =
     (case header of
        None \<Rightarrow> None
      | Some h \<Rightarrow> (case decodePaymentResponseHeader (be_numbers env) h of
          None \<Rightarrow> None
        | Some receipt \<Rightarrow>
            if \<not> (typeof_object receipt \<and> receipt \<noteq> JNull \<and> js_get receipt ''success'' = JBool True \<and>
               js_get receipt ''network'' = JString GIWA_SEPOLIA_CAIP2 \<and> js_isAddress (be_viem env) (js_get receipt ''payer'') \<and>
               js_getAddress (be_viem env) (js_get receipt ''payer'') = v_getAddress (be_viem env) delegator)
            then None
            else let t = js_get receipt ''transaction'' in
              if absent t \<or> t = JString [] then Some None
              else (case hash_of_js t of None \<Rightarrow> None | Some x \<Rightarrow> Some (Some x))))"

record DeclaredRefusal =
  dr_code :: "DelegatedPaymentFailureCode option"
  dr_reason :: string
  dr_transaction :: "string option"

definition refusal_code :: "string \<Rightarrow> DelegatedPaymentFailureCode option" where
  "refusal_code reason = map_of (rev SELLER_REFUSAL_CODES) reason"

definition readSellerRefusal :: "buyer_env \<Rightarrow> string option \<Rightarrow> DeclaredRefusal" where
  "readSellerRefusal env header =
     (let nothing = \<lparr>dr_code = None, dr_reason = [], dr_transaction = None\<rparr> in
      case header of
        None \<Rightarrow> nothing
      | Some h \<Rightarrow> (case decodePaymentResponseHeader (be_numbers env) h of
          None \<Rightarrow> nothing
        | Some receipt \<Rightarrow>
            let code = (case js_get receipt ''errorReason'' of JString reason \<Rightarrow> refusal_code reason | _ \<Rightarrow> None) in
            \<lparr>dr_code = code, dr_reason = (if code = None then [] else js_text (js_get receipt ''errorReason'')),
              dr_transaction = hash_of_js (js_get receipt ''transaction'')\<rparr>))"

text \<open>The em dash, as its UTF-8 bytes.\<close>

definition DASH :: string where
  "DASH = [CHR '' '', CHR 0xE2, CHR 0x80, CHR 0x94, CHR '' '']"

definition status_code :: "int \<Rightarrow> DelegatedPaymentFailureCode" where
  "status_code s = (if s \<in> set SETTLEMENT_UNKNOWN_STATUSES then SETTLEMENT_UNKNOWN
     else if s \<in> set SELLER_UNAVAILABLE_STATUSES then SELLER_UNAVAILABLE else PAYMENT_REJECTED)"

definition answer_code :: "int \<Rightarrow> DeclaredRefusal \<Rightarrow> DelegatedPaymentFailureCode" where
  "answer_code status refusal =
     (if status_code status = SETTLEMENT_UNKNOWN \<or> dr_transaction refusal \<noteq> None then SETTLEMENT_UNKNOWN
      else (case dr_code refusal of Some c \<Rightarrow> c | None \<Rightarrow> status_code status))"

text \<open>An answer that is not a 2xx: the body is not read.\<close>

definition refused_payment :: "buyer_env \<Rightarrow> string \<Rightarrow> pay_answer \<Rightarrow> DelegatedPaymentResult" where
  "refused_payment env paymentIdentifier second =
     (let refusal = readSellerRefusal env (pa_response second);
          code = answer_code (pa_status second) refusal;
          status = '' ('' @ String (pa_status second) @ '')'';
          what = (if dr_code refusal \<noteq> None then ''seller reported '' @ dr_reason refusal @ status
            else if code = SETTLEMENT_UNKNOWN then ''seller could not confirm settlement'' @ status
            else if code = SELLER_UNAVAILABLE then ''seller could not take the payment'' @ status
            else ''seller rejected the payment'' @ status);
          found = (case dr_transaction refusal of None \<Rightarrow> [] | Some t \<Rightarrow> DASH @ ''transaction '' @ t)
      in Unpaid \<lparr>fl_code = code, fl_status = Some (pa_status second), fl_detail = what @ DASH @ REFUSAL_NOTE code @ found,
           fl_paymentIdentifier = Some paymentIdentifier,
           fl_transaction = (if code = SETTLEMENT_UNKNOWN then dr_transaction refusal else None)\<rparr>)"

definition sent_failure :: "DelegatedPaymentFailureCode \<Rightarrow> string \<Rightarrow> string \<Rightarrow> DelegatedPaymentResult" where
  "sent_failure code paymentIdentifier detail = Unpaid \<lparr>fl_code = code, fl_status = None, fl_detail = detail,
     fl_paymentIdentifier = Some paymentIdentifier, fl_transaction = None\<rparr>"

text \<open>A 2xx: the declared media type decides how the body is read, and both are redacted.\<close>

definition read_content_type :: "buyer_env \<Rightarrow> string list \<Rightarrow> pay_answer \<Rightarrow> string option result" where
  "read_content_type env secrets second = (case pa_contentType second of
     None \<Rightarrow> Inr None
   | Some declared \<Rightarrow> ebind (redactBearerSecrets (be_numbers env) (JString declared) secrets) (\<lambda>x. case x of
       JString t \<Rightarrow> Inr (Some (mediaType t))
     | _ \<Rightarrow> Inl (TypeError ''contentType.split is not a function'')))"

definition read_resource :: "buyer_env \<Rightarrow> string option \<Rightarrow> pay_answer \<Rightarrow> js result" where
  "read_resource env contentType second =
     (if (case contentType of Some t \<Rightarrow> isJsonMediaType t | None \<Rightarrow> False) then answer_json env second
      else ebind (pa_body second) (\<lambda>body. Inr (JString body)))"

definition paid_resource ::
    "buyer_env \<Rightarrow> js \<Rightarrow> string \<Rightarrow> string \<Rightarrow> string list \<Rightarrow> pay_answer \<Rightarrow> DelegatedPaymentResult result" where
  "paid_resource env accepted delegator paymentIdentifier secrets second =
     ebind (read_content_type env secrets second) (\<lambda>contentType.
       case read_resource env contentType second of
         Inl e \<Rightarrow> Inr (sent_failure MALFORMED_RESOURCE paymentIdentifier (''resource could not be read: '' @ errorMessage env e))
       | Inr raw \<Rightarrow> ebind (redactBearerSecrets (be_numbers env) raw secrets) (\<lambda>resource.
           Inr (Paid \<lparr>pd_amount = js_get accepted ''amount'',
             pd_payTo = js_getAddress (be_viem env) (js_get accepted ''payTo''),
             pd_transaction = (case readSettlementReceipt env (pa_response second) delegator of
                Some t \<Rightarrow> t | None \<Rightarrow> extractTransaction resource),
             pd_contentType = contentType, pd_resource = resource, pd_paymentIdentifier = paymentIdentifier\<rparr>)))"

section \<open>The exchange\<close>

datatype buyer_event = Sent "string option" | Preflighted js | SignedFor js

record 'w pay_run =
  pr_outcome :: "DelegatedPaymentResult result"
  pr_world :: 'w
  pr_events :: "buyer_event list"

text \<open>The 402: the offer out of the header, out of the body when the header does not decode.\<close>

definition offered_body :: "buyer_env \<Rightarrow> pay_answer \<Rightarrow> js result" where
  "offered_body env first =
     (case (case pa_required first of None \<Rightarrow> None | Some h \<Rightarrow> decodePaymentRequiredHeader (be_numbers env) h) of
        Some body \<Rightarrow> Inr body
      | None \<Rightarrow> answer_json env first)"

definition read_offer :: "buyer_env \<Rightarrow> DelegatedPaymentConfig \<Rightarrow> pay_answer \<Rightarrow> (DelegatedPaymentResult + js) result" where
  "read_offer env config first =
     (if pa_status first \<noteq> 402
      then Inr (Inl (client_failure NOT_PAYMENT_REQUIRED (''expected 402, received '' @ String (pa_status first)) (Some (pa_status first))))
      else (case offered_body env first of
          Inl e \<Rightarrow> Inr (Inl (client_failure SELLER_OFFER_INVALID
            (''402 offer is neither a Payment-Required header nor a JSON body: '' @ errorMessage env e) None))
        | Inr body \<Rightarrow>
            if body = JNull \<or> \<not> typeof_object body
            then Inr (Inl (client_failure SELLER_OFFER_INVALID ''402 body is not an object'' None))
            else if js_get body ''x402Version'' \<noteq> JNum X402_VERSION
            then ebind (template_text (be_numbers env) (js_get body ''x402Version'')) (\<lambda>v.
              Inr (Inl (client_failure UNSUPPORTED_X402_VERSION (''unsupported x402 version '' @ v) None)))
            else ebind (selectOffer env config (js_get body ''accepts'')) (\<lambda>sel. case sel of
                NotAccepted code detail \<Rightarrow> Inr (Inl (client_failure code detail None))
              | Accepted accepted \<Rightarrow> Inr (Inr accepted))))"

definition run_preflight :: "buyer_env \<Rightarrow> DelegatedPaymentConfig \<Rightarrow> js \<Rightarrow> DelegatedPaymentResult option" where
  "run_preflight env config accepted = (case dc_preflight config of
     None \<Rightarrow> None
   | Some check \<Rightarrow> (case check accepted of
       Inl e \<Rightarrow> Some (client_failure TRANSPORT_ERROR (''preflight read failed: '' @ errorMessage env e) None)
     | Inr (PreflightRefused code detail) \<Rightarrow> Some (client_failure code detail None)
     | Inr PreflightOk \<Rightarrow> None))"

text \<open>Whether the leaf is one the client can send; a configured manager that is no address throws.\<close>

definition usable_leaf :: "buyer_env \<Rightarrow> DelegatedPaymentConfig \<Rightarrow> leaf \<Rightarrow> bool result" where
  "usable_leaf env config l =
     (if \<not> v_isAddress (be_viem env) (lf_delegationManager l) \<or> \<not> v_isAddress (be_viem env) (lf_delegator l) then Inr False
      else ebind (getAddress_of env (JString (dc_delegationManager config))) (\<lambda>expected.
        Inr (v_getAddress (be_viem env) (lf_delegationManager l) = expected)))"

definition payment_payload :: "buyer_env \<Rightarrow> js \<Rightarrow> leaf \<Rightarrow> string \<Rightarrow> js" where
  "payment_payload env accepted l paymentIdentifier = buildErc7710PaymentPayload accepted
     (v_getAddress (be_viem env) (lf_delegationManager l)) (lf_permissionContext l) (v_getAddress (be_viem env) (lf_delegator l))
     (Some (JObject [(PAYMENT_IDENTIFIER_EXTENSION, buildPaymentIdentifierEcho paymentIdentifier)]))"

text \<open>Everything before the payment is sent: a result, or the offer, the leaf and the header.\<close>

record prepared =
  pp_accepted :: js
  pp_leaf :: leaf
  pp_identifier :: string
  pp_header :: string

definition prepare_payment ::
    "buyer_env \<Rightarrow> DelegatedPaymentConfig \<Rightarrow> nat list \<Rightarrow> pay_answer \<Rightarrow> (DelegatedPaymentResult + prepared) result \<times> buyer_event list" where
  "prepare_payment env config bytes first =
     (case read_offer env config first of
        Inl e \<Rightarrow> (Inl e, [])
      | Inr (Inl failed) \<Rightarrow> (Inr (Inl failed), [])
      | Inr (Inr accepted) \<Rightarrow>
          let checked = (if dc_preflight config = None then [] else [Preflighted accepted]);
              signed = checked @ [SignedFor accepted] in
          (case run_preflight env config accepted of
             Some failed \<Rightarrow> (Inr (Inl failed), checked)
           | None \<Rightarrow> (case dc_provider config accepted of
               Inl e \<Rightarrow> (Inr (Inl (client_failure SIGNING_FAILED (''leaf signing failed: '' @ errorMessage env e) None)), signed)
             | Inr l \<Rightarrow> (case usable_leaf env config l of
                 Inl e \<Rightarrow> (Inl e, signed)
               | Inr False \<Rightarrow> (Inr (Inl (client_failure MANAGER_MISMATCH ''provider returned an unexpected DelegationManager'' None)), signed)
               | Inr True \<Rightarrow>
                   (case encodePaymentHeader (be_numbers env) (payment_payload env accepted l (newPaymentIdentifier bytes)) of
                      Inl e \<Rightarrow> (Inl e, signed)
                    | Inr header \<Rightarrow> (Inr (Inr \<lparr>pp_accepted = accepted, pp_leaf = l,
                        pp_identifier = newPaymentIdentifier bytes, pp_header = header\<rparr>), signed))))))"

text \<open>And what the answer to the payment makes of it.\<close>

definition payment_answer :: "buyer_env \<Rightarrow> prepared \<Rightarrow> pay_answer result \<Rightarrow> DelegatedPaymentResult result" where
  "payment_answer env p second = (case second of
     Inl e \<Rightarrow> Inr (sent_failure SETTLEMENT_UNKNOWN (pp_identifier p) (''no answer after the payment was sent: '' @ errorMessage env e))
   | Inr reply \<Rightarrow>
       if \<not> answer_ok reply then Inr (refused_payment env (pp_identifier p) reply)
       else paid_resource env (pp_accepted p) (v_getAddress (be_viem env) (lf_delegator (pp_leaf p))) (pp_identifier p)
         [lf_permissionContext (pp_leaf p), pp_header p] reply)"

definition payForDelegatedResource ::
    "buyer_env \<Rightarrow> DelegatedPaymentConfig \<Rightarrow> ('w \<Rightarrow> string option \<Rightarrow> pay_answer result \<times> 'w) \<Rightarrow> nat list \<Rightarrow> 'w \<Rightarrow> 'w pay_run" where
  "payForDelegatedResource env config fetch bytes w0 =
     (case fetch w0 None of
        (Inl e, w1) \<Rightarrow> \<lparr>pr_outcome = Inr (client_failure TRANSPORT_ERROR (errorMessage env e) None), pr_world = w1, pr_events = [Sent None]\<rparr>
      | (Inr first, w1) \<Rightarrow> (case prepare_payment env config bytes first of
          (Inl e, evs) \<Rightarrow> \<lparr>pr_outcome = Inl e, pr_world = w1, pr_events = Sent None # evs\<rparr>
        | (Inr (Inl failed), evs) \<Rightarrow> \<lparr>pr_outcome = Inr failed, pr_world = w1, pr_events = Sent None # evs\<rparr>
        | (Inr (Inr p), evs) \<Rightarrow> (case fetch w1 (Some (pp_header p)) of (second, w2) \<Rightarrow>
            \<lparr>pr_outcome = payment_answer env p second, pr_world = w2,
              pr_events = Sent None # evs @ [Sent (Some (pp_header p))]\<rparr>)))"

section \<open>What the client signs\<close>

text \<open>An offer this agent may pay: the checks of \<^verbatim>\<open>assertErc7710Offer\<close> and \<^verbatim>\<open>judgeOffer\<close> as one statement.\<close>

definition payable :: "buyer_env \<Rightarrow> DelegatedPaymentConfig \<Rightarrow> js \<Rightarrow> bool" where
  "payable env config v \<longleftrightarrow>
     js_get v ''scheme'' = JString ''exact'' \<and> js_get v ''network'' = JString GIWA_SEPOLIA_CAIP2 \<and>
     js_get (js_get v ''extra'') ''assetTransferMethod'' = JString ''erc7710'' \<and>
     js_getAddress (be_viem env) (js_get v ''asset'') = MOCK_USDC_address \<and>
     js_isAddress (be_viem env) (js_get v ''payTo'') \<and> js_getAddress (be_viem env) (js_get v ''payTo'') \<noteq> zeroAddress \<and>
     (\<exists>amount. template_text (be_numbers env) (js_get v ''amount'') = Inr amount \<and> positive_whole amount) \<and>
     js_get (js_get v ''extra'') ''paymentFlow'' \<in> {JUndefined, JNull, JString ''upfront'', JString ''authorization''} \<and>
     (\<exists>n. js_get v ''maxTimeoutSeconds'' = JNum n \<and> 1 \<le> n \<and> n \<le> 300) \<and>
     (\<exists>f \<in> set (advertised_facilitators v). js_isAddress (be_viem env) f \<and>
        js_getAddress (be_viem env) f \<in> set (dc_trustedFacilitators config)) \<and>
     (js_get (js_get v ''extra'') ''delegationManager'' = JUndefined \<or>
        js_isAddress (be_viem env) (js_get (js_get v ''extra'') ''delegationManager'') \<and>
        js_getAddress (be_viem env) (js_get (js_get v ''extra'') ''delegationManager'')
          = v_getAddress (be_viem env) (dc_delegationManager config))"

lemma assert_facts:
  "assertErc7710Offer env c = Inr v \<Longrightarrow> v = c \<and> isExactErc7710OnGiwa c \<and>
     js_isAddress (be_viem env) (js_get c ''asset'') \<and> js_getAddress (be_viem env) (js_get c ''asset'') = MOCK_USDC_address \<and>
     js_isAddress (be_viem env) (js_get c ''payTo'') \<and> js_getAddress (be_viem env) (js_get c ''payTo'') \<noteq> zeroAddress \<and>
     (\<exists>amount. template_text (be_numbers env) (js_get c ''amount'') = Inr amount \<and> positive_whole amount) \<and>
     js_get (js_get c ''extra'') ''paymentFlow'' \<in> {JUndefined, JNull, JString ''upfront'', JString ''authorization''} \<and>
     (\<exists>n. js_get c ''maxTimeoutSeconds'' = JNum n \<and> 1 \<le> n \<and> n \<le> 300) \<and>
     (absent (js_get (js_get c ''extra'') ''delegationManager'') \<or>
        js_isAddress (be_viem env) (js_get (js_get c ''extra'') ''delegationManager''))"
  unfolding assertErc7710Offer_def Let_def ebind_Inr_iff ensure_iff
  by (cases "js_get c ''maxTimeoutSeconds''") auto

lemma getAddress_of_facts:
  "getAddress_of env x = Inr a \<longleftrightarrow> (\<exists>s. x = JString s \<and> be_loose env s \<and> a = v_getAddress (be_viem env) s)"
  by (cases x) (auto simp: getAddress_of_def)

lemma judge_accepted:
  assumes "judgeOffer env config c = Inr (Accepted v)" shows "v = c \<and> payable env config v \<and> isExactErc7710OnGiwa v"
proof -
  obtain a where a: "assertErc7710Offer env c = Inr a" using assms by (auto simp: judgeOffer_def split: sum.splits)
  note f = assert_facts [OF a]
  have o: "facilitators_overlap env config a" using assms a by (auto simp: judgeOffer_def split: if_splits)
  then have overlap: "\<exists>f \<in> set (advertised_facilitators c). js_isAddress (be_viem env) f \<and>
      js_getAddress (be_viem env) f \<in> set (dc_trustedFacilitators config)"
    using f by (auto simp: facilitators_overlap_def list_ex_iff)
  let ?m = "js_get (js_get a ''extra'') ''delegationManager''"
  have "v = a \<and> (?m = JUndefined \<or> js_isAddress (be_viem env) ?m \<and>
      js_getAddress (be_viem env) ?m = v_getAddress (be_viem env) (dc_delegationManager config))"
  proof (cases "?m = JUndefined")
    case True
    then show ?thesis using assms a o by (simp add: judgeOffer_def)
  next
    case False
    then have "ebind (getAddress_of env ?m) (\<lambda>advertised.
        ebind (getAddress_of env (JString (dc_delegationManager config))) (\<lambda>expected.
          if advertised \<noteq> expected
          then Inr (NotAccepted MANAGER_MISMATCH ''seller advertises a different DelegationManager than the verified deployment'')
          else Inr (Accepted a))) = Inr (Accepted v)"
      using assms a o by (simp add: judgeOffer_def Let_def)
    then show ?thesis using f by (auto simp: ebind_Inr_iff getAddress_of_facts js_getAddress_def absent_def split: if_splits)
  qed
  then show ?thesis using f overlap unfolding payable_def isExactErc7710OnGiwa_def by blast
qed

text \<open>The selection goes by the seller's order: the first offer that is judged payable.\<close>

lemma select_from_facts:
  assumes "select_from env config cs onRail = Inr sel"
  shows "(\<exists>pre v post. cs = pre @ v # post \<and> sel = Some (Accepted v) \<and> judgeOffer env config v = Inr (Accepted v) \<and>
        (\<forall>c \<in> set pre. \<exists>code d. judgeOffer env config c = Inr (NotAccepted code d))) \<or>
    (\<forall>c \<in> set cs. \<exists>code d. judgeOffer env config c = Inr (NotAccepted code d)) \<and>
      sel = (if onRail \<noteq> None then onRail
        else map_option (\<lambda>c. projr (judgeOffer env config c)) (find isExactErc7710OnGiwa cs))"
  using assms
proof (induction cs arbitrary: onRail)
  case (Cons c cs)
  then obtain verdict where j: "judgeOffer env config c = Inr verdict" by (auto simp: ebind_Inr_iff)
  show ?case
  proof (cases verdict)
    case (Accepted v)
    then have "v = c" using judge_accepted j by blast
    then show ?thesis using Cons.prems j Accepted
      by (intro disjI1 exI [of _ "[]"] exI [of _ c] exI [of _ cs]) simp
  next
    case (NotAccepted code d)
    let ?next = "if onRail = None \<and> isExactErc7710OnGiwa c then Some verdict else onRail"
    have "select_from env config cs ?next = Inr sel"
      using Cons.prems unfolding select_from.simps j ebind_simps NotAccepted OfferSelection.case .
    from Cons.IH [OF this] show ?thesis
    proof
      assume "\<exists>pre v post. cs = pre @ v # post \<and> sel = Some (Accepted v) \<and> judgeOffer env config v = Inr (Accepted v) \<and>
        (\<forall>c \<in> set pre. \<exists>code d. judgeOffer env config c = Inr (NotAccepted code d))"
      then obtain pre v post where "cs = pre @ v # post" "sel = Some (Accepted v)" "judgeOffer env config v = Inr (Accepted v)"
        "\<forall>c \<in> set pre. \<exists>code d. judgeOffer env config c = Inr (NotAccepted code d)" by blast
      then show ?thesis using j NotAccepted
        by (intro disjI1 exI [of _ "c # pre"] exI [of _ v] exI [of _ post]) auto
    next
      assume r: "(\<forall>c \<in> set cs. \<exists>code d. judgeOffer env config c = Inr (NotAccepted code d)) \<and>
        sel = (if ?next \<noteq> None then ?next else map_option (\<lambda>c. projr (judgeOffer env config c)) (find isExactErc7710OnGiwa cs))"
      then show ?thesis using j NotAccepted by (intro disjI2) (auto split: if_splits)
    qed
  qed
qed auto

lemma read_offer_accepted:
  assumes "read_offer env config first = Inr (Inr v)"
  shows "pa_status first = 402 \<and> (\<exists>body xs. offered_body env first = Inr body \<and> js_get body ''accepts'' = JArray xs \<and>
    v \<in> set xs \<and> payable env config v)"
proof -
  obtain body where b: "pa_status first = 402" "offered_body env first = Inr body"
      "ebind (selectOffer env config (js_get body ''accepts'')) (\<lambda>sel. case sel of
         NotAccepted code detail \<Rightarrow> Inr (Inl (client_failure code detail None)) | Accepted accepted \<Rightarrow> Inr (Inr accepted)) = Inr (Inr v)"
    using assms by (auto simp: read_offer_def ebind_Inr_iff split: if_splits sum.splits)
  obtain sel0 where sel0: "selectOffer env config (js_get body ''accepts'') = Inr sel0" using b(3) by (auto simp: ebind_Inr_iff)
  have s: "selectOffer env config (js_get body ''accepts'') = Inr (Accepted v)"
    using b(3) sel0 by (cases sel0) auto
  then obtain c cs where xs: "js_get body ''accepts'' = JArray (c # cs)"
    by (auto simp: selectOffer_def split: js.splits list.splits)
  then obtain sel where sel: "select_from env config (c # cs) None = Inr sel" "(case sel of Some s \<Rightarrow> s
      | None \<Rightarrow> NotAccepted SELLER_OFFER_INVALID (''no exact ERC-7710 offer on GIWA among '' @ nat_dec (length (c # cs)) @ '' accepts'')) = Accepted v"
    using s by (simp add: selectOffer_def ebind_Inr_iff del: select_from.simps) blast
  then have sv: "sel = Some (Accepted v)" by (cases sel) auto
  from select_from_facts [OF sel(1)] have "v \<in> set (c # cs) \<and> judgeOffer env config v = Inr (Accepted v)"
  proof
    assume "\<exists>pre v post. c # cs = pre @ v # post \<and> sel = Some (Accepted v) \<and> judgeOffer env config v = Inr (Accepted v) \<and>
        (\<forall>c \<in> set pre. \<exists>code d. judgeOffer env config c = Inr (NotAccepted code d))"
    then obtain pre v' post where d: "c # cs = pre @ v' # post" "sel = Some (Accepted v')" "judgeOffer env config v' = Inr (Accepted v')"
      by blast
    have "v' \<in> set (c # cs)" unfolding d(1) by simp
    then show ?thesis using d(2,3) sv by simp
  next
    assume r: "(\<forall>c \<in> set (c # cs). \<exists>code d. judgeOffer env config c = Inr (NotAccepted code d)) \<and>
      sel = (if None \<noteq> None then None else map_option (\<lambda>c. projr (judgeOffer env config c)) (find isExactErc7710OnGiwa (c # cs)))"
    have "map_option (\<lambda>c. projr (judgeOffer env config c)) (find isExactErc7710OnGiwa (c # cs)) = Some (Accepted v)"
      using conjunct2 [OF r] sv by (simp del: find.simps)
    then obtain z where "find isExactErc7710OnGiwa (c # cs) = Some z" "projr (judgeOffer env config z) = Accepted v"
      unfolding map_option_eq_Some by blast
    moreover from this(1) have "z \<in> set (c # cs)" unfolding find_Some_iff by (metis nth_mem)
    ultimately show ?thesis using r by fastforce
  qed
  then show ?thesis using b(1,2) xs judge_accepted by blast
qed

text \<open>Preparing a payment, step by step.\<close>

lemma prepare_cases:
  obtains (threw) e evs where "prepare_payment env config bytes first = (Inl e, evs)"
  | (failed) f evs where "prepare_payment env config bytes first = (Inr (Inl f), evs)"
  | (ready) p evs where "prepare_payment env config bytes first = (Inr (Inr p), evs)"
  by (cases "prepare_payment env config bytes first"; cases "fst (prepare_payment env config bytes first)";
      cases "projr (fst (prepare_payment env config bytes first))") auto


lemma prepared_facts:
  assumes "prepare_payment env config bytes first = (Inr (Inr p), evs)"
  shows "read_offer env config first = Inr (Inr (pp_accepted p)) \<and> run_preflight env config (pp_accepted p) = None \<and>
    dc_provider config (pp_accepted p) = Inr (pp_leaf p) \<and> usable_leaf env config (pp_leaf p) = Inr True \<and>
    pp_identifier p = newPaymentIdentifier bytes \<and>
    encodePaymentHeader (be_numbers env) (payment_payload env (pp_accepted p) (pp_leaf p) (pp_identifier p)) = Inr (pp_header p) \<and>
    evs = (if dc_preflight config = None then [] else [Preflighted (pp_accepted p)]) @ [SignedFor (pp_accepted p)]"
proof -
  obtain a where a: "read_offer env config first = Inr (Inr a)"
    using assms by (auto simp: prepare_payment_def split: sum.splits)
  have pre: "run_preflight env config a = None" using assms a by (cases "run_preflight env config a") (auto simp: prepare_payment_def Let_def)
  obtain l where l: "dc_provider config a = Inr l" using assms a pre
    by (cases "dc_provider config a") (auto simp: prepare_payment_def Let_def)
  obtain b where b: "usable_leaf env config l = Inr b" using assms a pre l
    by (cases "usable_leaf env config l") (auto simp: prepare_payment_def Let_def)
  have t: "b" using assms a pre l b by (cases b) (auto simp: prepare_payment_def Let_def)
  obtain h where h: "encodePaymentHeader (be_numbers env) (payment_payload env a l (newPaymentIdentifier bytes)) = Inr h"
    using assms a pre l b t
    by (cases "encodePaymentHeader (be_numbers env) (payment_payload env a l (newPaymentIdentifier bytes))") (auto simp: prepare_payment_def Let_def)
  show ?thesis using assms a pre l b t h by (auto simp: prepare_payment_def Let_def)
qed

lemma prepared_events:
  assumes "prepare_payment env config bytes first = (out, evs)"
  shows "(evs = [] \<or> (\<exists>v. read_offer env config first = Inr (Inr v) \<and>
      (evs = (if dc_preflight config = None then [] else [Preflighted v]) \<or>
       run_preflight env config v = None \<and> evs = (if dc_preflight config = None then [] else [Preflighted v]) @ [SignedFor v])))"
proof (cases "\<exists>v. read_offer env config first = Inr (Inr v)")
  case False
  then show ?thesis using assms by (auto simp: prepare_payment_def split: sum.splits)
next
  case True
  then obtain v where v: "read_offer env config first = Inr (Inr v)" by blast
  show ?thesis
  proof (cases "run_preflight env config v")
    case (Some f)
    then show ?thesis using assms v by (auto simp: prepare_payment_def Let_def)
  next
    case None
    then have "evs = (if dc_preflight config = None then [] else [Preflighted v]) @ [SignedFor v]"
      using assms v by (auto simp: prepare_payment_def Let_def split: sum.splits bool.splits)
    then show ?thesis using v None by blast
  qed
qed

text \<open>Every run, by how far it came.\<close>

lemma pay_cases:
  obtains (unreached) e w1 where "fetch w None = (Inl e, w1)"
      "payForDelegatedResource env config fetch bytes w
        = \<lparr>pr_outcome = Inr (client_failure TRANSPORT_ERROR (errorMessage env e) None), pr_world = w1, pr_events = [Sent None]\<rparr>"
  | (threw) first w1 e evs where "fetch w None = (Inr first, w1)" "prepare_payment env config bytes first = (Inl e, evs)"
      "payForDelegatedResource env config fetch bytes w = \<lparr>pr_outcome = Inl e, pr_world = w1, pr_events = Sent None # evs\<rparr>"
  | (declined) first w1 f evs where "fetch w None = (Inr first, w1)" "prepare_payment env config bytes first = (Inr (Inl f), evs)"
      "payForDelegatedResource env config fetch bytes w = \<lparr>pr_outcome = Inr f, pr_world = w1, pr_events = Sent None # evs\<rparr>"
  | (sent) first w1 p evs second w2 where "fetch w None = (Inr first, w1)"
      "prepare_payment env config bytes first = (Inr (Inr p), evs)" "fetch w1 (Some (pp_header p)) = (second, w2)"
      "payForDelegatedResource env config fetch bytes w = \<lparr>pr_outcome = payment_answer env p second, pr_world = w2,
         pr_events = Sent None # evs @ [Sent (Some (pp_header p))]\<rparr>"
proof (cases "fetch w None")
  case f: (Pair out w1)
  show thesis
  proof (cases out)
    case (Inl e)
    then show ?thesis using f by (intro unreached) (auto simp: payForDelegatedResource_def)
  next
    case (Inr first)
    show ?thesis
    proof (cases rule: prepare_cases [of env config bytes first])
      case (threw e evs)
      then show ?thesis using f Inr that(2) by (simp add: payForDelegatedResource_def)
    next
      case (failed g evs)
      then show ?thesis using f Inr declined by (simp add: payForDelegatedResource_def)
    next
      case (ready p evs)
      obtain second w2 where "fetch w1 (Some (pp_header p)) = (second, w2)" by fastforce
      then show ?thesis using f Inr ready sent by (simp add: payForDelegatedResource_def)
    qed
  qed
qed

text \<open>C14: the client signs only what it checked. Whatever the network answers, a leaf is signed for
an offer only when that offer is on this rail, in this asset, to a real recipient, for a whole
positive amount, with a safe deadline, through a facilitator the agent trusts and under the manager
it verified, and only after the preflight agreed. It signs at most once, and the only payment it
sends is the encoded payload of that very offer, after the signature.\<close>

theorem signs_only_what_it_checked:
  assumes "SignedFor v \<in> set (pr_events (payForDelegatedResource env config fetch bytes w))"
  shows "payable env config v \<and>
    (\<forall>check. dc_preflight config = Some check \<longrightarrow> check v = Inr PreflightOk) \<and>
    (\<exists>pre rest. pr_events (payForDelegatedResource env config fetch bytes w) = pre @ SignedFor v # rest \<and>
       (\<forall>e \<in> set pre. e = Sent None \<or> e = Preflighted v) \<and>
       (rest = [] \<or> (\<exists>l header. rest = [Sent (Some header)] \<and> dc_provider config v = Inr l \<and>
          encodePaymentHeader (be_numbers env) (payment_payload env v l (newPaymentIdentifier bytes)) = Inr header)))"
proof -
  have checked: "payable env config u \<and> (\<forall>check. dc_preflight config = Some check \<longrightarrow> check u = Inr PreflightOk)"
    if "read_offer env config first = Inr (Inr u)" "run_preflight env config u = None" for first u
    using read_offer_accepted [OF that(1)] that(2)
    by (auto simp: run_preflight_def split: option.splits sum.splits PreflightVerdict.splits)
  have signed: "read_offer env config first = Inr (Inr v) \<and> run_preflight env config v = None \<and>
      evs = (if dc_preflight config = None then [] else [Preflighted v]) @ [SignedFor v]"
    if "prepare_payment env config bytes first = (out, evs)" "SignedFor v \<in> set evs" for first out evs
    using prepared_events [OF that(1)] that(2) by (auto split: if_splits)
  let ?pre = "Sent None # (if dc_preflight config = None then [] else [Preflighted v])"
  show ?thesis
  proof (cases rule: pay_cases [of fetch w env config bytes])
    case (unreached e w1)
    then show ?thesis using assms by simp
  next
    case (threw first w1 e evs)
    then have s: "SignedFor v \<in> set evs" using assms by simp
    note f = signed [OF threw(2) s]
    then show ?thesis using checked threw(3) by (intro conjI exI [of _ ?pre] exI [of _ "[]"]) auto
  next
    case (declined first w1 g evs)
    then have s: "SignedFor v \<in> set evs" using assms by simp
    note f = signed [OF declined(2) s]
    then show ?thesis using checked declined(3) by (intro conjI exI [of _ ?pre] exI [of _ "[]"]) auto
  next
    case (sent first w1 p evs second w2)
    then have s: "SignedFor v \<in> set evs" using assms by simp
    note f = signed [OF sent(2) s] and g = prepared_facts [OF sent(2)]
    have "pp_accepted p = v" using f g by simp
    then show ?thesis using checked f g sent(4)
      by (intro conjI exI [of _ ?pre] exI [of _ "[Sent (Some (pp_header p))]"]) auto
  qed
qed

section \<open>When it throws\<close>

text \<open>
  The client promises a reason instead of an exception. Three answers of a seller break the
  promise, and they are named here exactly: a version that is not 2 and cannot be printed; an offer
  that passes every check of \<^verbatim>\<open>assertErc7710Offer\<close>, overlaps the trusted facilitators and has
  \<^verbatim>\<open>delegationManager: null\<close>, behind offers that were all judged unacceptable; and a paid answer
  whose redacted text is no JSON any more.
\<close>

definition null_manager :: "buyer_env \<Rightarrow> DelegatedPaymentConfig \<Rightarrow> js \<Rightarrow> bool" where
  "null_manager env config c \<longleftrightarrow> assertErc7710Offer env c = Inr c \<and> facilitators_overlap env config c \<and>
     js_get (js_get c ''extra'') ''delegationManager'' = JNull"

definition hostile_offer :: "buyer_env \<Rightarrow> DelegatedPaymentConfig \<Rightarrow> pay_answer \<Rightarrow> bool" where
  "hostile_offer env config first \<longleftrightarrow> pa_status first = 402 \<and>
     (\<exists>body. offered_body env first = Inr body \<and> body \<noteq> JNull \<and> typeof_object body \<and>
       (if js_get body ''x402Version'' \<noteq> JNum X402_VERSION
        then \<exists>e. template_text (be_numbers env) (js_get body ''x402Version'') = Inl e
        else \<exists>pre c post. js_get body ''accepts'' = JArray (pre @ c # post) \<and> null_manager env config c \<and>
          (\<forall>b \<in> set pre. \<exists>code d. judgeOffer env config b = Inr (NotAccepted code d))))"

definition unreadable_reply :: "buyer_env \<Rightarrow> string list \<Rightarrow> pay_answer \<Rightarrow> bool" where
  "unreadable_reply env secrets reply \<longleftrightarrow>
     (\<exists>declared. pa_contentType reply = Some declared \<and>
        (\<forall>t. json_parse (be_numbers env) (fold redact_one secrets (json_text (be_numbers env) (JString declared))) \<noteq> Some (JString t))) \<or>
     (\<exists>ct raw. read_content_type env secrets reply = Inr ct \<and> read_resource env ct reply = Inr raw \<and>
        json_parse (be_numbers env) (fold redact_one secrets (json_text (be_numbers env) raw)) = None)"

text \<open>An answer some of whose text the redaction changes at all.\<close>

definition echoes_secret :: "buyer_env \<Rightarrow> string list \<Rightarrow> pay_answer \<Rightarrow> bool" where
  "echoes_secret env secrets reply \<longleftrightarrow> (\<exists>v. fold redact_one secrets (json_text (be_numbers env) v) \<noteq> json_text (be_numbers env) v \<and>
     ((\<exists>declared. pa_contentType reply = Some declared \<and> v = JString declared) \<or> answer_json env reply = Inr v \<or>
      (\<exists>body. pa_body reply = Inr body \<and> v = JString body)))"

text \<open>The configured manager is an address, and \<^verbatim>\<open>viem\<close>'s loose test accepts what the strict one does.\<close>

definition manager_ok :: "buyer_env \<Rightarrow> DelegatedPaymentConfig \<Rightarrow> bool" where
  "manager_ok env config \<longleftrightarrow> v_isAddress (be_viem env) (dc_delegationManager config) \<and>
     (\<forall>a. v_isAddress (be_viem env) a \<longrightarrow> be_loose env a)"

lemma manager_reads: "manager_ok env config \<Longrightarrow>
    getAddress_of env (JString (dc_delegationManager config)) = Inr (v_getAddress (be_viem env) (dc_delegationManager config))"
  "manager_ok env config \<Longrightarrow> js_isAddress (be_viem env) x \<Longrightarrow> getAddress_of env x = Inr (js_getAddress (be_viem env) x)"
  by (cases x; simp add: manager_ok_def getAddress_of_def js_isAddress_def js_getAddress_def)+

lemma judge_throws:
  assumes "manager_ok env config"
  shows "(\<exists>e. judgeOffer env config c = Inl e) \<longleftrightarrow> null_manager env config c"
proof
  assume "\<exists>e. judgeOffer env config c = Inl e"
  then obtain e a where a: "judgeOffer env config c = Inl e" "assertErc7710Offer env c = Inr a"
    by (auto simp: judgeOffer_def split: sum.splits)
  note f = assert_facts [OF a(2)]
  let ?m = "js_get (js_get a ''extra'') ''delegationManager''"
  have o: "facilitators_overlap env config a" "?m \<noteq> JUndefined"
    using a by (auto simp: judgeOffer_def Let_def split: if_splits)
  have "\<not> js_isAddress (be_viem env) ?m"
  proof
    assume "js_isAddress (be_viem env) ?m"
    then show False using a o manager_reads [OF assms] by (simp add: judgeOffer_def Let_def split: if_splits)
  qed
  then show "null_manager env config c" using f o a(2) by (auto simp: absent_def null_manager_def)
next
  assume "null_manager env config c"
  then show "\<exists>e. judgeOffer env config c = Inl e"
    by (simp add: null_manager_def judgeOffer_def Let_def getAddress_of_def)
qed

lemma select_throws:
  assumes "manager_ok env config"
  shows "(\<exists>e. select_from env config cs onRail = Inl e) \<longleftrightarrow>
    (\<exists>pre c post. cs = pre @ c # post \<and> null_manager env config c \<and>
       (\<forall>b \<in> set pre. \<exists>code d. judgeOffer env config b = Inr (NotAccepted code d)))"
proof (induction cs arbitrary: onRail)
  case (Cons c cs)
  let ?behind = "\<lambda>cs. \<exists>pre c post. cs = pre @ c # post \<and> null_manager env config c \<and>
       (\<forall>b \<in> set pre. \<exists>code d. judgeOffer env config b = Inr (NotAccepted code d))"
  have split: "?behind (c # cs) \<longleftrightarrow> null_manager env config c \<or>
      (\<exists>code d. judgeOffer env config c = Inr (NotAccepted code d)) \<and> ?behind cs" (is "_ \<longleftrightarrow> ?r")
  proof
    assume "?behind (c # cs)"
    then obtain pre x post where x: "c # cs = pre @ x # post" "null_manager env config x"
        "\<forall>b \<in> set pre. \<exists>code d. judgeOffer env config b = Inr (NotAccepted code d)" by blast
    then show ?r by (cases pre) auto
  next
    assume ?r
    then show "?behind (c # cs)"
    proof
      assume "null_manager env config c"
      then show ?thesis by (intro exI [of _ "[]"]) simp
    next
      assume n: "(\<exists>code d. judgeOffer env config c = Inr (NotAccepted code d)) \<and> ?behind cs"
      then obtain pre x post where "cs = pre @ x # post" "null_manager env config x"
          "\<forall>b \<in> set pre. \<exists>code d. judgeOffer env config b = Inr (NotAccepted code d)" by blast
      then show ?thesis using n by (intro exI [of _ "c # pre"] exI [of _ x] exI [of _ post]) simp
    qed
  qed
  show ?case
  proof (cases "judgeOffer env config c")
    case (Inl e)
    then show ?thesis using judge_throws [OF assms] split by auto
  next
    case (Inr verdict)
    then have "\<not> null_manager env config c" using judge_throws [OF assms, of c] by auto
    then show ?thesis using Inr split Cons.IH by (cases verdict) auto
  qed
qed simp

lemma select_offer_throws:
  assumes "manager_ok env config"
  shows "(\<exists>e. selectOffer env config accepts = Inl e) \<longleftrightarrow>
    (\<exists>pre c post. accepts = JArray (pre @ c # post) \<and> null_manager env config c \<and>
       (\<forall>b \<in> set pre. \<exists>code d. judgeOffer env config b = Inr (NotAccepted code d)))"
proof (cases "\<exists>xs. accepts = JArray xs")
  case True
  then obtain xs where xs: "accepts = JArray xs" by blast
  have "(\<exists>e. selectOffer env config (JArray xs) = Inl e) \<longleftrightarrow> (\<exists>e. select_from env config xs None = Inl e)"
    by (cases xs) (auto simp: selectOffer_def ebind_Inl_iff simp del: select_from.simps(2))
  then show ?thesis using select_throws [OF assms, of xs None] xs by simp
qed (auto simp: selectOffer_def split: js.splits)

lemma read_offer_throws:
  assumes "manager_ok env config"
  shows "(\<exists>e. read_offer env config first = Inl e) \<longleftrightarrow> hostile_offer env config first"
proof (cases "pa_status first = 402 \<and> (\<exists>body. offered_body env first = Inr body \<and> body \<noteq> JNull \<and> typeof_object body)")
  case True
  then obtain body where b: "pa_status first = 402" "offered_body env first = Inr body" "body \<noteq> JNull" "typeof_object body" by blast
  let ?sel = "selectOffer env config (js_get body ''accepts'')"
  show ?thesis
  proof (cases "js_get body ''x402Version'' = JNum X402_VERSION")
    case False
    then show ?thesis using b by (auto simp: read_offer_def hostile_offer_def ebind_Inl_iff)
  next
    case two: True
    have "(\<exists>e. read_offer env config first = Inl e) \<longleftrightarrow> (\<exists>e. ?sel = Inl e)"
    proof (cases ?sel)
      case (Inr sel)
      then show ?thesis using b two by (cases sel) (simp_all add: read_offer_def)
    qed (use b two in \<open>simp add: read_offer_def\<close>)
    then show ?thesis using b two select_offer_throws [OF assms] by (simp add: hostile_offer_def)
  qed
qed (auto simp: read_offer_def hostile_offer_def split: sum.splits)

lemma js_get_doc: "json_doc nb v \<Longrightarrow> js_get v k = JUndefined \<or> json_doc nb (js_get v k)"
proof (cases v)
  case (JObject fs)
  assume "json_doc nb v"
  then show ?thesis using JObject map_of_SomeD [of "rev fs" k]
    by (auto simp: js_get_def list_all_iff split: option.splits)
qed (auto simp: js_get_def)

lemma offered_doc:
  assumes "numbers_ok (be_numbers env)" "offered_body env first = Inr body" shows "json_doc (be_numbers env) body"
  using assms(2) json_parse_doc [OF assms(1)]
  by (auto simp: offered_body_def decodePaymentRequiredHeader_def decodeBase64Json_def answer_json_def ebind_Inr_iff split: option.splits)

lemma accepted_doc:
  assumes "numbers_ok (be_numbers env)" "read_offer env config first = Inr (Inr v)"
  shows "json_doc (be_numbers env) v"
proof -
  obtain body xs where b: "offered_body env first = Inr body" "js_get body ''accepts'' = JArray xs" "v \<in> set xs"
    using read_offer_accepted [OF assms(2)] by blast
  have "json_doc (be_numbers env) (JArray xs)"
    using js_get_doc [OF offered_doc [OF assms(1) b(1)], of "''accepts''"] b(2) by auto
  then show ?thesis using b(3) by (simp add: list_all_iff)
qed

lemma payload_serialisable: "serialisable accepted \<Longrightarrow> serialisable (payment_payload env accepted l i)"
  by (simp add: payment_payload_def buildErc7710PaymentPayload_def buildPaymentIdentifierEcho_def PAYMENT_IDENTIFIER_SCHEMA_def)

lemma prepare_throws:
  assumes "numbers_ok (be_numbers env)" "manager_ok env config"
  shows "(\<exists>e evs. prepare_payment env config bytes first = (Inl e, evs)) \<longleftrightarrow> hostile_offer env config first"
proof (cases "\<exists>e. read_offer env config first = Inl e")
  case True
  then obtain e where e: "read_offer env config first = Inl e" by blast
  then have "prepare_payment env config bytes first = (Inl e, [])" by (simp add: prepare_payment_def)
  then show ?thesis using e read_offer_throws [OF assms(2)] by blast
next
  case False
  have False if p: "prepare_payment env config bytes first = (Inl e, evs)" for e evs
  proof -
    obtain v where v: "read_offer env config first = Inr (Inr v)"
      using False p by (cases "read_offer env config first") (auto simp: prepare_payment_def split: sum.splits)
    have s: "serialisable v" using json_doc_serialisable accepted_doc [OF assms(1) v] by blast
    have u: "usable_leaf env config l \<noteq> Inl x" for l x
      using manager_reads(1) [OF assms(2)] by (simp add: usable_leaf_def)
    have "encodePaymentHeader (be_numbers env) (payment_payload env v l i) \<noteq> Inl x" for l i x
      using payload_serialisable [OF s] by (simp add: encodePaymentHeader_def encodeBase64Json_def)
    then show False using p v u
      by (auto simp: prepare_payment_def Let_def split: option.splits sum.splits bool.splits)
  qed
  then show ?thesis using False read_offer_throws [OF assms(2)] by blast
qed

lemma redact_throws:
  assumes "redactBearerSecrets nb v secrets = Inl e" "serialisable v"
  shows "fold redact_one secrets (json_text nb v) \<noteq> json_text nb v"
  using assms by (auto simp: redactBearerSecrets_def Let_def split: if_splits)

lemma redact_same: "serialisable v \<Longrightarrow> fold redact_one secrets (json_text nb v) = json_text nb v \<Longrightarrow> redactBearerSecrets nb v secrets = Inr v"
  by (simp add: redactBearerSecrets_def)

lemma resource_throws:
  assumes "numbers_ok (be_numbers env)" "paid_resource env accepted d i secrets reply = Inl e"
  shows "echoes_secret env secrets reply"
proof -
  consider "read_content_type env secrets reply = Inl e"
    | ct raw where "read_content_type env secrets reply = Inr ct" "read_resource env ct reply = Inr raw"
        "redactBearerSecrets (be_numbers env) raw secrets = Inl e"
  proof (cases "read_content_type env secrets reply")
    case (Inl x)
    then show ?thesis using assms(2) that(1) by (simp add: paid_resource_def)
  next
    case ct: (Inr c)
    show ?thesis
    proof (cases "read_resource env c reply")
      case (Inl x)
      then show ?thesis using assms(2) ct by (simp add: paid_resource_def)
    next
      case (Inr raw)
      then show ?thesis using assms(2) ct that(2) by (auto simp: paid_resource_def ebind_Inl_iff)
    qed
  qed
  then show ?thesis
  proof cases
    case 1
    then obtain declared where d: "pa_contentType reply = Some declared" by (auto simp: read_content_type_def split: option.splits)
    then have "fold redact_one secrets (json_text (be_numbers env) (JString declared)) \<noteq> json_text (be_numbers env) (JString declared)"
      using 1 redact_same [of "JString declared"] by (auto simp: read_content_type_def)
    then show ?thesis using d unfolding echoes_secret_def by blast
  next
    case 2
    have raw: "answer_json env reply = Inr raw \<or> (\<exists>body. pa_body reply = Inr body \<and> raw = JString body)"
      using 2(2) by (auto simp: read_resource_def ebind_Inr_iff split: if_splits)
    have "serialisable raw"
      using raw json_parse_doc [OF assms(1)] json_doc_serialisable by (fastforce simp: answer_json_def ebind_Inr_iff split: option.splits)
    then have "fold redact_one secrets (json_text (be_numbers env) raw) \<noteq> json_text (be_numbers env) raw"
      using redact_throws [OF 2(3)] by blast
    then show ?thesis using raw unfolding echoes_secret_def by blast
  qed
qed

text \<open>The redaction of a parsed document is what its redacted text parses to.\<close>

lemma redact_doc:
  assumes "numbers_ok nb" "json_doc nb v"
  shows "redactBearerSecrets nb v secrets = (case json_parse nb (fold redact_one secrets (json_text nb v)) of
    None \<Rightarrow> Inl (SyntaxError ''Bad escaped character in JSON'') | Some x \<Rightarrow> Inr x)"
  using json_doc_serialisable [OF assms(2)] doc_defined [OF assms(2)] json_roundtrip [OF assms]
  by (simp add: redactBearerSecrets_def Let_def)

lemma read_resource_doc:
  assumes "numbers_ok (be_numbers env)" "read_resource env ct reply = Inr raw" shows "json_doc (be_numbers env) raw"
  using assms(2) json_parse_doc [OF assms(1)]
  by (auto simp: read_resource_def answer_json_def ebind_Inr_iff split: option.splits if_splits)

lemma paid_resource_throws:
  assumes "numbers_ok (be_numbers env)"
  shows "(\<exists>e. paid_resource env accepted d i secrets reply = Inl e) \<longleftrightarrow> unreadable_reply env secrets reply"
proof -
  let ?nb = "be_numbers env"
  have type: "(\<exists>e. read_content_type env secrets reply = Inl e) \<longleftrightarrow> (\<exists>declared. pa_contentType reply = Some declared \<and>
      (\<forall>t. json_parse ?nb (fold redact_one secrets (json_text ?nb (JString declared))) \<noteq> Some (JString t)))"
  proof (cases "pa_contentType reply")
    case (Some declared)
    have "redactBearerSecrets ?nb (JString declared) secrets = (case json_parse ?nb (fold redact_one secrets (json_text ?nb (JString declared))) of
        None \<Rightarrow> Inl (SyntaxError ''Bad escaped character in JSON'') | Some x \<Rightarrow> Inr x)"
      by (rule redact_doc [OF assms]) simp
    then show ?thesis using Some
      by (cases "json_parse ?nb (fold redact_one secrets (json_text ?nb (JString declared)))")
        (auto simp: read_content_type_def split: js.splits)
  qed (simp add: read_content_type_def)
  show ?thesis
  proof (cases "read_content_type env secrets reply")
    case (Inl e)
    then show ?thesis using type by (auto simp: paid_resource_def unreadable_reply_def)
  next
    case ct: (Inr c)
    show ?thesis
    proof (cases "read_resource env c reply")
      case (Inl e)
      then show ?thesis using ct type by (auto simp: paid_resource_def unreadable_reply_def)
    next
      case (Inr raw)
      then have "redactBearerSecrets ?nb raw secrets = (case json_parse ?nb (fold redact_one secrets (json_text ?nb raw)) of
          None \<Rightarrow> Inl (SyntaxError ''Bad escaped character in JSON'') | Some x \<Rightarrow> Inr x)"
        using redact_doc [OF assms] read_resource_doc [OF assms] by blast
      then show ?thesis using ct Inr type
        by (cases "json_parse ?nb (fold redact_one secrets (json_text ?nb raw))") (auto simp: paid_resource_def unreadable_reply_def)
    qed
  qed
qed

text \<open>Only an answer whose text the redaction changes can be unreadable.\<close>

lemma unreadable_echoes:
  assumes "numbers_ok (be_numbers env)" "unreadable_reply env secrets reply" shows "echoes_secret env secrets reply"
  using resource_throws [OF assms(1)] paid_resource_throws [OF assms(1), of undefined undefined undefined secrets reply] assms(2) by blast

text \<open>C16: the client returns a reason instead of throwing, on every exchange but three, named exactly.
Its result is an exception if and only if the 402 is answered by a version that is not 2 and cannot be
printed, or its first offer that is not refused passes every check but has \<^verbatim>\<open>delegationManager: null\<close>,
or the payment is answered by a 2xx whose content type or resource is no JSON string or document once
the two secrets are cut out of it (so the answer echoes one of them). On every other exchange,
whatever the network, the provider and the preflight do, a result comes back.\<close>

theorem client_throws_only_if_attacked:
  assumes "numbers_ok (be_numbers env)" "manager_ok env config"
  shows "(\<exists>e. pr_outcome (payForDelegatedResource env config fetch bytes w) = Inl e) \<longleftrightarrow>
    (\<exists>first w1. fetch w None = (Inr first, w1) \<and> (hostile_offer env config first \<or>
     (\<exists>p evs reply w2. prepare_payment env config bytes first = (Inr (Inr p), evs) \<and>
        fetch w1 (Some (pp_header p)) = (Inr reply, w2) \<and> answer_ok reply \<and>
        unreadable_reply env [lf_permissionContext (pp_leaf p), pp_header p] reply)))"
proof (cases rule: pay_cases [of fetch w env config bytes])
  case (threw first w1 e evs)
  then show ?thesis using prepare_throws [OF assms, of bytes first] by auto
next
  case (declined first w1 f evs)
  then show ?thesis using prepare_throws [OF assms, of bytes first] by auto
next
  case (sent first w1 p evs second w2)
  have quiet: "\<not> hostile_offer env config first" using prepare_throws [OF assms, of bytes first] sent(2) by auto
  have "(\<exists>e. payment_answer env p second = Inl e) \<longleftrightarrow> (\<exists>reply. second = Inr reply \<and> answer_ok reply \<and>
      unreadable_reply env [lf_permissionContext (pp_leaf p), pp_header p] reply)"
    using paid_resource_throws [OF assms(1)] by (cases second) (auto simp: payment_answer_def)
  then show ?thesis using quiet sent by auto
qed auto

section \<open>An honest offer\<close>

lemma positive_String: "0 < i \<Longrightarrow> positive_whole (String i)"
  using nat_dec_digits [of "nat i"] hd_nat_dec_nonzero [of "nat i"] by (simp add: positive_whole_def String_def)

lemma honest_offer_accepted:
  fixes amount :: int
  assumes "viem_ok (be_viem env)" "v_isAddress (be_viem env) payTo" "v_getAddress (be_viem env) payTo \<noteq> zeroAddress" "0 < amount"
    and "f \<in> set facs" "v_isAddress (be_viem env) f" "v_getAddress (be_viem env) f \<in> set (dc_trustedFacilitators config)"
    and "\<forall>m. manager = Some m \<longrightarrow> v_isAddress (be_viem env) m \<and>
        v_getAddress (be_viem env) m = v_getAddress (be_viem env) (dc_delegationManager config)"
    and "manager_ok env config"
  shows "judgeOffer env config (buildErc7710PaymentRequirements payTo amount (Some facs) manager None)
    = Inr (Accepted (buildErc7710PaymentRequirements payTo amount (Some facs) manager None))"
proof -
  let ?o = "buildErc7710PaymentRequirements payTo amount (Some facs) manager None"
  have usdc: "v_isAddress (be_viem env) MOCK_USDC_address" "v_getAddress (be_viem env) MOCK_USDC_address = MOCK_USDC_address"
    using assms(1) by (simp_all add: viem_ok_def)
  have exact: "isExactErc7710OnGiwa ?o"
    by (simp add: isExactErc7710OnGiwa_def) (simp add: buildErc7710PaymentRequirements_def)
  have man: "absent (js_get (js_get ?o ''extra'') ''delegationManager'') \<or> js_isAddress (be_viem env) (js_get (js_get ?o ''extra'') ''delegationManager'')"
    using assms(8) by (cases manager) (auto simp: absent_def js_isAddress_def)
  have a: "assertErc7710Offer env ?o = Inr ?o"
    using exact man usdc assms(2,3) positive_String [OF assms(4)]
    by (simp add: assertErc7710Offer_def Let_def js_isAddress_def js_getAddress_def)
  have o: "facilitators_overlap env config ?o"
    using assms(5-7) by (auto simp: facilitators_overlap_def advertised_facilitators_def list_ex_iff js_isAddress_def js_getAddress_def)
  show ?thesis
  proof (cases "js_get (js_get ?o ''extra'') ''delegationManager'' = JUndefined")
    case True
    then show ?thesis using a o by (simp add: judgeOffer_def)
  next
    case False
    then obtain m where m: "manager = Some m" "js_get (js_get ?o ''extra'') ''delegationManager'' = JString m"
      by (cases manager) (auto split: if_splits)
    then have "js_isAddress (be_viem env) (JString m)" using assms(8) by (simp add: js_isAddress_def)
    then show ?thesis using a o m assms(8) manager_reads [OF assms(9)]
      by (simp add: judgeOffer_def js_getAddress_def)
  qed
qed

section \<open>A sample purchase, for the witnesses\<close>

definition demo_env :: buyer_env where
  "demo_env = \<lparr>be_viem = sample_viem, be_loose = (\<lambda>_. True), be_numbers = demo_numbers, be_url = (\<lambda>_. None), be_syntax = (\<lambda>_. [])\<rparr>"

definition demo_leaf :: leaf where
  "demo_leaf = \<lparr>lf_delegationManager = addr CHR ''2'', lf_permissionContext = addr CHR ''3'', lf_delegator = addr CHR ''3''\<rparr>"

definition demo_buyer :: DelegatedPaymentConfig where
  "demo_buyer = \<lparr>dc_provider = (\<lambda>_. Inr demo_leaf), dc_delegationManager = addr CHR ''2'',
     dc_trustedFacilitators = [v_getAddress sample_viem (addr CHR ''1'')], dc_preflight = Some (\<lambda>_. Inr PreflightOk)\<rparr>"

definition demo_402 :: "js \<Rightarrow> js" where
  "demo_402 c = JObject [(''x402Version'', JNum 2), (''accepts'', JArray [c])]"

definition demo_first :: "js \<Rightarrow> pay_answer" where
  "demo_first c = \<lparr>pa_status = 402, pa_required = None, pa_response = None, pa_contentType = Some ''application/json'',
     pa_body = Inr (json_text demo_numbers (demo_402 c))\<rparr>"

text \<open>A network whose second answer is given.\<close>

definition demo_fetch :: "js \<Rightarrow> pay_answer result \<Rightarrow> nat \<Rightarrow> string option \<Rightarrow> pay_answer result \<times> nat" where
  "demo_fetch c second n header = (if header = None then Inr (demo_first c) else second, n + 1)"

lemma demo_simps [simp]: "be_loose demo_env a" "be_viem demo_env = sample_viem" "be_numbers demo_env = demo_numbers"
    "dc_delegationManager demo_buyer = addr CHR ''2''" "dc_provider demo_buyer v = Inr demo_leaf"
    "dc_preflight demo_buyer = Some (\<lambda>_. Inr PreflightOk)"
    "dc_trustedFacilitators demo_buyer = [v_getAddress sample_viem (addr CHR ''1'')]"
  by (simp_all add: demo_env_def demo_buyer_def)

lemma demo_body:
  assumes "json_doc demo_numbers c" shows "offered_body demo_env (demo_first c) = Inr (demo_402 c)"
proof -
  have "json_doc demo_numbers (demo_402 c)"
    using assms by (simp add: demo_402_def isSafeInteger_def MAX_SAFE_INTEGER_def)
  then show ?thesis using json_roundtrip [OF demo_numbers_ok]
    by (simp add: offered_body_def demo_first_def answer_json_def)
qed

lemma demo_read:
  assumes "json_doc demo_numbers c"
  shows "read_offer demo_env config (demo_first c) = ebind (selectOffer demo_env config (JArray [c])) (\<lambda>sel. case sel of
      NotAccepted code detail \<Rightarrow> Inr (Inl (client_failure code detail None)) | Accepted accepted \<Rightarrow> Inr (Inr accepted))"
proof -
  have b: "js_get (demo_402 c) ''x402Version'' = JNum X402_VERSION" "js_get (demo_402 c) ''accepts'' = JArray [c]"
    "typeof_object (demo_402 c)" "demo_402 c \<noteq> JNull" "pa_status (demo_first c) = 402"
    by (simp_all add: demo_402_def js_get_def X402_VERSION_def demo_first_def)
  show ?thesis using demo_body [OF assms] by (simp add: read_offer_def b)
qed

lemma sample_offer_doc: "json_doc demo_numbers sample_offer"
  by (simp add: sample_offer_def buildErc7710PaymentRequirements_def offer_extra_def isSafeInteger_def MAX_SAFE_INTEGER_def)

lemma addr_lower: "is_digit c \<Longrightarrow> toLowerCase (addr c) = addr c"
  by (simp add: addr_def toLowerCase_def to_lower_char_def) (auto simp: char_class_defs)

lemma addr_one: "v_getAddress sample_viem (addr CHR ''1'') = addr CHR ''1''" "addr CHR ''1'' \<noteq> zeroAddress"
proof -
  have l: "toLowerCase (addr CHR ''1'') = addr CHR ''1''" by (rule addr_lower) (simp add: char_class_defs)
  have "toLowerCase MOCK_USDC_address ! 2 = CHR ''c''"
    by (simp add: MOCK_USDC_address_def toLowerCase_def to_lower_char_def char_class_defs)
  moreover have "addr CHR ''1'' ! 2 = CHR ''1''" by (simp add: addr_def)
  ultimately have "addr CHR ''1'' \<noteq> toLowerCase MOCK_USDC_address" by auto
  then show "v_getAddress sample_viem (addr CHR ''1'') = addr CHR ''1''" by (simp add: sample_viem_def l)
  have "zeroAddress ! 2 = CHR ''0''" by (simp add: zeroAddress_def)
  then show "addr CHR ''1'' \<noteq> zeroAddress" using \<open>addr CHR ''1'' ! 2 = CHR ''1''\<close> by auto
qed

lemma demo_manager: "manager_ok demo_env demo_buyer"
  by (simp add: manager_ok_def)

lemma demo_selects: "read_offer demo_env demo_buyer (demo_first sample_offer) = Inr (Inr sample_offer)"
proof -
  have "judgeOffer demo_env demo_buyer sample_offer = Inr (Accepted sample_offer)"
    unfolding sample_offer_def
    by (rule honest_offer_accepted [where f = "addr CHR ''1''"]) (simp_all add: sample_viem_ok addr_one demo_manager)
  then show ?thesis by (simp add: demo_read sample_offer_doc selectOffer_def)
qed

lemma demo_usable: "usable_leaf demo_env demo_buyer demo_leaf = Inr True"
  by (simp add: usable_leaf_def demo_leaf_def getAddress_of_def js_isAddress_def js_getAddress_def)

lemma demo_prepared:
  "\<exists>header. prepare_payment demo_env demo_buyer bytes (demo_first sample_offer) =
    (Inr (Inr \<lparr>pp_accepted = sample_offer, pp_leaf = demo_leaf, pp_identifier = newPaymentIdentifier bytes, pp_header = header\<rparr>),
     [Preflighted sample_offer, SignedFor sample_offer])"
proof -
  have "serialisable (payment_payload demo_env sample_offer demo_leaf (newPaymentIdentifier bytes))"
    by (rule payload_serialisable) (rule json_doc_serialisable [OF sample_offer_doc])
  then show ?thesis
    by (simp add: prepare_payment_def demo_selects run_preflight_def demo_usable encodePaymentHeader_def encodeBase64Json_def)
qed

theorem signs_only_what_it_checked_witness:
  "payable demo_env demo_buyer sample_offer \<and>
   SignedFor sample_offer \<in> set (pr_events (payForDelegatedResource demo_env demo_buyer (demo_fetch sample_offer (Inl (Error ''reset''))) [] 0))"
proof -
  obtain header where p: "prepare_payment demo_env demo_buyer [] (demo_first sample_offer) =
    (Inr (Inr \<lparr>pp_accepted = sample_offer, pp_leaf = demo_leaf, pp_identifier = newPaymentIdentifier [], pp_header = header\<rparr>),
     [Preflighted sample_offer, SignedFor sample_offer])" using demo_prepared by blast
  have "SignedFor sample_offer \<in> set (pr_events (payForDelegatedResource demo_env demo_buyer (demo_fetch sample_offer (Inl (Error ''reset''))) [] 0))"
    by (simp add: payForDelegatedResource_def demo_fetch_def p)
  then show ?thesis using signs_only_what_it_checked [THEN conjunct1, of sample_offer demo_env demo_buyer] by simp
qed

text \<open>An offer with \<^verbatim>\<open>delegationManager: null\<close> passes the assertion and makes the comparison throw.\<close>

definition null_manager_offer :: js where
  "null_manager_offer = JObject
     [(''scheme'', JString ''exact''), (''network'', JString GIWA_SEPOLIA_CAIP2), (''amount'', JString (String 5)),
      (''payTo'', JString (addr CHR ''1'')), (''maxTimeoutSeconds'', JNum 60), (''asset'', JString MOCK_USDC_address),
      (''extra'', JObject [(''assetTransferMethod'', JString ''erc7710''),
         (''facilitatorAddresses'', JArray [JString (addr CHR ''1'')]), (''delegationManager'', JNull)])]"

lemma null_manager_fields:
  "js_get null_manager_offer ''scheme'' = JString ''exact''" "js_get null_manager_offer ''network'' = JString GIWA_SEPOLIA_CAIP2"
  "js_get null_manager_offer ''amount'' = JString (String 5)" "js_get null_manager_offer ''payTo'' = JString (addr CHR ''1'')"
  "js_get null_manager_offer ''maxTimeoutSeconds'' = JNum 60" "js_get null_manager_offer ''asset'' = JString MOCK_USDC_address"
  "js_get (js_get null_manager_offer ''extra'') ''assetTransferMethod'' = JString ''erc7710''"
  "js_get (js_get null_manager_offer ''extra'') ''facilitatorAddresses'' = JArray [JString (addr CHR ''1'')]"
  "js_get (js_get null_manager_offer ''extra'') ''delegationManager'' = JNull"
  "js_get (js_get null_manager_offer ''extra'') ''paymentFlow'' = JUndefined" "typeof_object null_manager_offer" "null_manager_offer \<noteq> JNull"
  by (simp_all add: null_manager_offer_def js_get_def)

lemma null_manager_doc: "json_doc demo_numbers null_manager_offer"
  by (simp add: null_manager_offer_def isSafeInteger_def MAX_SAFE_INTEGER_def)

lemma null_manager_read:
  "read_offer demo_env demo_buyer (demo_first null_manager_offer) = Inl (Error ''Address is invalid.'')"
proof -
  have usdc: "v_isAddress sample_viem MOCK_USDC_address" "v_getAddress sample_viem MOCK_USDC_address = MOCK_USDC_address"
    using sample_viem_ok by (simp_all add: viem_ok_def)
  have "positive_whole (String 5)" by (rule positive_String) simp
  then have "assertErc7710Offer demo_env null_manager_offer = Inr null_manager_offer"
    by (simp add: assertErc7710Offer_def Let_def isExactErc7710OnGiwa_def null_manager_fields js_isAddress_def js_getAddress_def
        usdc addr_one absent_def)
  then have "judgeOffer demo_env demo_buyer null_manager_offer = Inl (Error ''Address is invalid.'')"
    by (simp add: judgeOffer_def facilitators_overlap_def advertised_facilitators_def null_manager_fields js_isAddress_def
        js_getAddress_def getAddress_of_def)
  then show ?thesis by (simp add: demo_read null_manager_doc selectOffer_def)
qed

lemma null_manager_throws:
  "pr_outcome (payForDelegatedResource demo_env demo_buyer (demo_fetch null_manager_offer second) bytes n) = Inl (Error ''Address is invalid.'')"
  by (simp add: payForDelegatedResource_def demo_fetch_def prepare_payment_def null_manager_read)

lemma null_manager_hostile: "hostile_offer demo_env demo_buyer (demo_first null_manager_offer)"
  using read_offer_throws [OF demo_manager] null_manager_read by blast

theorem client_throws_only_if_attacked_witness:
  "(\<exists>e. pr_outcome (payForDelegatedResource demo_env demo_buyer (demo_fetch null_manager_offer (Inl (Error []))) [] 0) = Inl e) \<and>
   \<not> (\<exists>e. pr_outcome (payForDelegatedResource demo_env demo_buyer (\<lambda>w h. (Inl (Error []), w)) [] (0::nat)) = Inl e)"
  using client_throws_only_if_attacked [of demo_env demo_buyer "demo_fetch null_manager_offer (Inl (Error []))" "[]" 0]
    client_throws_only_if_attacked [of demo_env demo_buyer "\<lambda>w h. (Inl (Error []), w)" "[]" "0::nat"]
    null_manager_hostile demo_numbers_ok demo_manager
  by (simp add: demo_fetch_def)

text \<open>And a version whose text the seller chose comes back in the detail, at its full length.\<close>

lemma version_is_echoed:
  assumes "offered_body env first = Inr body" "body \<noteq> JNull" "typeof_object body" "pa_status first = 402"
    and "js_get body ''x402Version'' = JString prose"
  shows "read_offer env config first = Inr (Inl (client_failure UNSUPPORTED_X402_VERSION (''unsupported x402 version '' @ prose) None))"
  using assms by (simp add: read_offer_def)


lemma unprintable_version_throws:
  assumes "offered_body env first = Inr body" "body \<noteq> JNull" "typeof_object body" "pa_status first = 402"
    and "js_get body ''x402Version'' = JObject [(''toString'', x)]"
  shows "read_offer env config first = Inl (TypeError ''Cannot convert object to primitive value'')"
  using assms by (simp add: read_offer_def)

section \<open>The bearer stays out of the result\<close>

text \<open>A payment header is base64 of a JSON object: a secret word that begins with \<^verbatim>\<open>eyJ4\<close>.\<close>

lemma b64_char_secret: "n < 64 \<Longrightarrow> secret_char (b64_char n)"
proof -
  assume "n < 64"
  then consider "n < 26" | "26 \<le> n" "n < 52" | "52 \<le> n" "n < 62" | "n = 62" | "n = 63" by linarith
  then show ?thesis
  proof cases
    case 1
    then have "is_upper (b64_char n)" by (simp add: is_upper_def char_between_def b64_char_code)
    then show ?thesis by (simp add: secret_char_def)
  next
    case 2
    then have "is_lower (b64_char n)" by (simp add: is_lower_def char_between_def b64_char_code)
    then show ?thesis by (simp add: secret_char_def)
  next
    case 3
    then have "48 \<le> (of_char (b64_char n) :: nat)" "(of_char (b64_char n) :: nat) \<le> 57" by (simp_all add: b64_char_code)
    then have "is_digit (b64_char n)" by (simp add: is_digit_def char_between_def)
    then show ?thesis by (simp add: secret_char_def)
  qed (simp_all add: secret_char_def b64_char_code)
qed

lemma btoa_secret: "list_all secret_char (btoa s)"
proof -
  have "list_all (\<lambda>a. a < 256) (map of_char s :: nat list)" by (simp add: list_all_iff)
  then have "list_all (\<lambda>n. n < 64) (sextets (map of_char s))" by (rule sextets_small)
  then show ?thesis using b64_char_secret by (auto simp: btoa_def btoa_sextets list_all_iff secret_char_def)
qed

lemma length_btoa: "length s \<le> length (btoa s)"
proof -
  have "length (btoa_groups xs) \<ge> length xs" for xs :: "nat list" by (induction xs rule: btoa_groups.induct) simp_all
  then show ?thesis by (metis btoa_def length_map)
qed

lemma btoa_begins:
  "btoa (CHR ''{'' # QUOTE # CHR ''x'' # s) = CHR ''e'' # CHR ''y'' # CHR ''J'' # CHR ''4'' # btoa s"
proof -
  have "b64_char 30 = char_of (of_char CHR ''e'' :: nat)" "b64_char 50 = char_of (of_char CHR ''y'' :: nat)"
    "b64_char 9 = char_of (of_char CHR ''J'' :: nat)" "b64_char 56 = char_of (of_char CHR ''4'' :: nat)"
    by (simp_all add: b64_char_def)
  then have "b64_char 30 = CHR ''e''" "b64_char 50 = CHR ''y''" "b64_char 9 = CHR ''J''" "b64_char 56 = CHR ''4''"
    by (simp_all only: char_of_char)
  then show ?thesis by (simp add: btoa_def QUOTE_def)
qed

lemma quote_begins: "c \<noteq> QUOTE \<Longrightarrow> c \<noteq> BACKSLASH \<Longrightarrow> 32 \<le> (of_char c :: nat) \<Longrightarrow> quote (c # s) = QUOTE # c # tl (quote s)"
  by (simp add: quote_def escape_char_def)

lemma payload_text:
  assumes "json_doc nb accepted"
  shows "\<exists>s. json_text nb (payment_payload env accepted l i) = CHR ''{'' # QUOTE # CHR ''x'' # s \<and> 31 \<le> length s"
proof -
  let ?rest = "json_text nb accepted"
  have k: "quote ''x402Version'' = QUOTE # ''x402Version'' @ [QUOTE]" "quote ''accepted'' = QUOTE # ''accepted'' @ [QUOTE]"
    "quote ''payload'' = QUOTE # ''payload'' @ [QUOTE]"
    by (simp_all add: quote_def escape_char_def QUOTE_def BACKSLASH_def)
  have d: "accepted \<noteq> JUndefined" using doc_defined [OF assms] .
  show ?thesis
    by (simp add: payment_payload_def buildErc7710PaymentPayload_def k d)
qed

lemma header_secret:
  assumes "json_doc nb accepted" "encodePaymentHeader nb (payment_payload env accepted l i) = Inr header"
  shows "bearer_secret header" "hexBody header = None" "\<exists>c \<in> set header. is_upper c"
proof -
  obtain s where s: "json_text nb (payment_payload env accepted l i) = CHR ''{'' # QUOTE # CHR ''x'' # s" "31 \<le> length s"
    using payload_text [OF assms(1)] by blast
  have "payment_payload env accepted l i \<noteq> JUndefined"
    by (simp add: payment_payload_def buildErc7710PaymentPayload_def)
  then have h: "header = btoa (CHR ''{'' # QUOTE # CHR ''x'' # s)"
    using assms(2) s(1) by (auto simp: encodePaymentHeader_def encodeBase64Json_def split: if_splits)
  have "34 \<le> length header" using s(2) length_btoa [of "CHR ''{'' # QUOTE # CHR ''x'' # s"] unfolding h by simp
  then show "bearer_secret header" using btoa_secret h by (simp add: bearer_secret_def)
  have "header = CHR ''e'' # CHR ''y'' # CHR ''J'' # CHR ''4'' # btoa s" unfolding h by (rule btoa_begins)
  then show "hexBody header = None" "\<exists>c \<in> set header. is_upper c"
    by (simp_all add: hexBody_def starts_with_def is_upper_def char_between_def)
qed

text \<open>A lower-cased media type holds a lower-cased piece of the header it was read from.\<close>

lemma lower_sublist:
  assumes "sublist w (toLowerCase t)" shows "\<exists>w'. sublist w' t \<and> toLowerCase w' = w"
proof -
  obtain a b where t: "toLowerCase t = a @ w @ b" using assms by (auto simp: sublist_def)
  let ?w = "take (length w) (drop (length a) t)"
  have "toLowerCase ?w = take (length w) (drop (length a) (toLowerCase t))" by (simp add: toLowerCase_def take_map drop_map)
  then have "toLowerCase ?w = w" by (simp add: t)
  moreover have "t = take (length a) t @ ?w @ drop (length w) (drop (length a) t)" by (metis append_take_drop_id)
  then have "sublist ?w t" by (metis sublist_appendI)
  ultimately show ?thesis by blast
qed

lemma split_hd: "hd (split_char c s) = takeWhile (\<lambda>x. x \<noteq> c) s"
  by (induction s) (auto split: list.split)

lemma media_sublist:
  assumes "sublist w (mediaType t)" shows "\<exists>w'. sublist w' t \<and> toLowerCase w' = w"
proof -
  obtain w' where w': "sublist w' (trim (hd (split_char CHR '';'' t)))" "toLowerCase w' = w"
    using lower_sublist assms unfolding mediaType_def by blast
  have "sublist w' (hd (split_char CHR '';'' t))" by (rule sublist_order.order.trans [OF w'(1) trim_sublist])
  moreover have "prefix (hd (split_char CHR '';'' t)) t" unfolding split_hd by (rule takeWhile_is_prefix)
  ultimately have "sublist w' t" using prefix_imp_sublist sublist_order.order.trans by blast
  then show ?thesis using w'(2) by blast
qed

lemma prepare_sends_nothing: "prepare_payment env config bytes first = (out, evs) \<Longrightarrow> Sent (Some h) \<notin> set evs"
  using prepared_events [of env config bytes first out evs] by (auto split: if_splits)

lemma paid_parts:
  assumes "paid_resource env accepted d i secrets reply = Inr (Paid r)" "numbers_ok (be_numbers env)"
  shows "\<exists>raw. json_doc (be_numbers env) raw \<and> redactBearerSecrets (be_numbers env) raw secrets = Inr (pd_resource r)"
    and "pd_contentType r = Some t \<Longrightarrow> \<exists>declared t0. redactBearerSecrets (be_numbers env) (JString declared) secrets = Inr (JString t0) \<and>
      t = mediaType t0"
proof -
  obtain ct where ct: "read_content_type env secrets reply = Inr ct" using assms(1) by (auto simp: paid_resource_def ebind_Inr_iff)
  obtain raw where raw: "read_resource env ct reply = Inr raw"
    using assms(1) ct by (cases "read_resource env ct reply") (auto simp: paid_resource_def sent_failure_def)
  obtain x where x: "redactBearerSecrets (be_numbers env) raw secrets = Inr x" "pd_resource r = x" "pd_contentType r = ct"
    using assms(1) ct raw by (auto simp: paid_resource_def ebind_Inr_iff)
  have "json_doc (be_numbers env) raw"
    using raw json_parse_doc [OF assms(2)]
    by (auto simp: read_resource_def answer_json_def ebind_Inr_iff split: if_splits option.splits)
  then show "\<exists>raw. json_doc (be_numbers env) raw \<and> redactBearerSecrets (be_numbers env) raw secrets = Inr (pd_resource r)"
    using x by blast
  assume "pd_contentType r = Some t"
  then have "read_content_type env secrets reply = Inr (Some t)" using ct x(3) by simp
  then show "\<exists>declared t0. redactBearerSecrets (be_numbers env) (JString declared) secrets = Inr (JString t0) \<and> t = mediaType t0"
  proof -
    assume c: "read_content_type env secrets reply = Inr (Some t)"
    then obtain declared where d: "pa_contentType reply = Some declared" by (auto simp: read_content_type_def split: option.splits)
    then obtain x where x: "redactBearerSecrets (be_numbers env) (JString declared) secrets = Inr x"
        "(case x of JString t \<Rightarrow> Inr (Some (mediaType t)) | _ \<Rightarrow> Inl (TypeError ''contentType.split is not a function'')) = Inr (Some t)"
      using c by (auto simp: read_content_type_def ebind_Inr_iff)
    then obtain t0 where "x = JString t0" "t = mediaType t0" by (cases x) auto
    then show ?thesis using x(1) by blast
  qed
qed

text \<open>C15: no bearer authorization comes out of a paid resource. Whatever a seller serves, nested in whatever
JSON, escaped, in another letter case or without its prefix: no string of the resource, no property
name and no content type that the client returns holds the permission context it signed or the
payment header it sent.\<close>

theorem paid_result_hides_bearer:
  assumes "numbers_ok (be_numbers env)"
    and "pr_outcome (payForDelegatedResource env config fetch bytes w) = Inr (Paid r)"
    and "SignedFor v \<in> set (pr_events (payForDelegatedResource env config fetch bytes w))" "dc_provider config v = Inr l"
    and "Sent (Some header) \<in> set (pr_events (payForDelegatedResource env config fetch bytes w))"
    and "bearer_secret (lf_permissionContext l)" "hexBody (lf_permissionContext l) \<noteq> None"
    and "secret \<in> {lf_permissionContext l, header}" "spells secret u"
  shows "(\<forall>s \<in> js_strings (pd_resource r). \<not> sublist u s) \<and> (\<forall>t. pd_contentType r = Some t \<longrightarrow> \<not> sublist u t)"
proof (cases rule: pay_cases [of fetch w env config bytes])
  case (sent first w1 p evs second w2)
  let ?nb = "be_numbers env"
  note f = prepared_facts [OF sent(2)]
  have p: "pp_accepted p = v" "pp_leaf p = l" "pp_header p = header" using assms(3-5) sent(4) f by (auto split: if_splits)
  have doc: "json_doc ?nb v" using accepted_doc [OF assms(1)] f p(1) by blast
  note h = header_secret [OF doc, of env l "pp_identifier p" header]
  have enc: "encodePaymentHeader ?nb (payment_payload env v l (pp_identifier p)) = Inr header"
    using f unfolding p by blast
  obtain reply where reply: "second = Inr reply" "answer_ok reply"
      "paid_resource env v (v_getAddress (be_viem env) (lf_delegator l)) (pp_identifier p) [lf_permissionContext l, header] reply = Inr (Paid r)"
    using assms(2) sent(4) p
    by (cases second) (auto simp: payment_answer_def refused_payment_def sent_failure_def Let_def split: if_splits)
  have secrets: "list_all bearer_secret [lf_permissionContext l, header]" using assms(6) h(1) [OF enc] by simp
  have clean: "\<not> sublist u' s" if "json_doc ?nb raw" "redactBearerSecrets ?nb raw [lf_permissionContext l, header] = Inr x"
      "s \<in> js_strings x" "spells secret u'" for raw x s u'
    by (rule redacted_strings_clean [OF assms(1) that(1) secrets that(2) _ that(4,3)]) (use assms(8) in auto)
  have "\<not> sublist u t" if t: "pd_contentType r = Some t" for t
  proof
    assume "sublist u t"
    obtain declared t0 where d: "redactBearerSecrets ?nb (JString declared) [lf_permissionContext l, header] = Inr (JString t0)" "t = mediaType t0"
      using paid_parts(2) [OF reply(3) assms(1) t] by blast
    obtain u' where u': "sublist u' t0" "toLowerCase u' = u" using media_sublist \<open>sublist u t\<close> d(2) by blast
    have low: "toLowerCase u = u" using u'(2) toLowerCase_idem by blast
    have "spells secret u'"
    proof (cases "secret = header")
      case True
      then have "u = header" using assms(9) h(2) [OF enc] by (simp add: spells_def)
      moreover obtain c where "c \<in> set header" "is_upper c" using h(3) [OF enc] by blast
      moreover have "\<not> is_upper c" if cu: "c \<in> set u" for c
      proof -
        obtain d where "c = to_lower_char d" using cu u'(2) by (auto simp: toLowerCase_def)
        then show ?thesis using to_lower_char_idem [of d] by (auto simp: to_lower_char_def is_upper_def char_between_def split: if_splits)
      qed
      ultimately show ?thesis by blast
    next
      case False
      then have s: "secret = lf_permissionContext l" using assms(8) by simp
      obtain body where body: "hexBody secret = Some body" using assms(7) s by auto
      then have "32 \<le> length body" using assms(6) s by (auto simp: bearer_secret_def hexBody_def split: if_splits)
      then show ?thesis using assms(9) body low u'(2) by (simp add: spells_def)
    qed
    then show False using clean [OF _ d(1), of t0 u'] u'(1) by simp
  qed
  then show ?thesis using paid_parts(1) [OF reply(3) assms(1)] clean assms(9) by blast
next
  case (declined first w1 f evs)
  then show ?thesis using assms(5) prepare_sends_nothing [OF declined(2)] by auto
next
  case (threw first w1 e evs)
  then show ?thesis using assms(5) prepare_sends_nothing [OF threw(2)] by auto
qed (use assms in auto)


text \<open>A text shorter than the secrets is left alone.\<close>

lemma redact_short:
  assumes "bearer_secret secret" "length s < 32" shows "redact_one secret s = s"
proof -
  have "secret_match secret u = None" if u: "suffix u s" for u
  proof (rule ccontr)
    assume "secret_match secret u \<noteq> None"
    then obtain n where n: "secret_match secret u = Some n" by blast
    have "n \<le> length u" using secret_safe [OF assms(1)] n by (auto simp: safe_match_def)
    moreover have "32 \<le> n" using n assms(1)
      by (auto simp: secret_match_def match_hex_def match_exact_def bearer_secret_def split: option.splits if_splits)
    moreover have "length u \<le> length s" using u by (rule suffix_length_le)
    ultimately show False using assms(2) by simp
  qed
  then show ?thesis by (simp add: redact_one_def replace_none)
qed

lemma demo_context: "bearer_secret (addr CHR ''3'')" "hexBody (addr CHR ''3'') = Some (replicate 40 CHR ''3'')"
  by (simp_all add: bearer_secret_def hexBody_def addr_def starts_with_def list_all_iff secret_char_def char_class_defs)

definition demo_reply :: pay_answer where
  "demo_reply = \<lparr>pa_status = 200, pa_required = None, pa_response = None, pa_contentType = Some ''text/plain'', pa_body = Inr ''report''\<rparr>"

lemma demo_short: "length (json_text nb (JString ''text/plain'')) < 32" "length (json_text nb (JString ''report'')) < 32"
  by (simp_all add: quote_def escape_char_def QUOTE_def BACKSLASH_def)

lemma demo_media: "mediaType ''text/plain'' = ''text/plain''" "\<not> isJsonMediaType ''text/plain''"
  by code_simp+

theorem paid_result_hides_bearer_witness:
  "\<exists>r. pr_outcome (payForDelegatedResource demo_env demo_buyer (demo_fetch sample_offer (Inr demo_reply)) [] 0) = Inr (Paid r) \<and>
     pd_resource r = JString ''report'' \<and> (\<forall>s \<in> js_strings (pd_resource r). \<not> sublist (replicate 40 CHR ''3'') s)"
proof -
  obtain header where p: "prepare_payment demo_env demo_buyer [] (demo_first sample_offer) =
    (Inr (Inr \<lparr>pp_accepted = sample_offer, pp_leaf = demo_leaf, pp_identifier = newPaymentIdentifier [], pp_header = header\<rparr>),
     [Preflighted sample_offer, SignedFor sample_offer])" using demo_prepared by blast
  let ?run = "payForDelegatedResource demo_env demo_buyer (demo_fetch sample_offer (Inr demo_reply)) [] 0"
  have run: "pr_events ?run = [Sent None, Preflighted sample_offer, SignedFor sample_offer, Sent (Some header)]"
    by (simp add: payForDelegatedResource_def demo_fetch_def p)
  have enc: "encodePaymentHeader demo_numbers (payment_payload demo_env sample_offer demo_leaf (newPaymentIdentifier [])) = Inr header"
    using prepared_facts [OF p] by simp
  have h: "bearer_secret header" by (rule header_secret(1) [OF sample_offer_doc enc])
  have redact: "redactBearerSecrets demo_numbers (JString t) [addr CHR ''3'', header] = Inr (JString t)"
    if "length (json_text demo_numbers (JString t)) < 32" for t
    by (rule redact_same) (use that redact_short [OF h] redact_short [OF demo_context(1)] in simp_all)
  have out: "\<exists>r. pr_outcome ?run = Inr (Paid r) \<and> pd_resource r = JString ''report''"
    using redact [OF demo_short(1)] redact [OF demo_short(2)]
    by (simp add: payForDelegatedResource_def demo_fetch_def p payment_answer_def answer_ok_def demo_reply_def paid_resource_def
        read_content_type_def read_resource_def demo_media demo_leaf_def)
  then obtain r where r: "pr_outcome ?run = Inr (Paid r)" "pd_resource r = JString ''report''" by blast
  have "(\<forall>s \<in> js_strings (pd_resource r). \<not> sublist (replicate 40 CHR ''3'') s) \<and>
      (\<forall>t. pd_contentType r = Some t \<longrightarrow> \<not> sublist (replicate 40 CHR ''3'') t)"
    by (rule paid_result_hides_bearer [OF _ r(1), of sample_offer demo_leaf header "addr CHR ''3''"])
      (simp_all add: run demo_numbers_ok demo_leaf_def demo_context spells_def)
  then show ?thesis using r by blast
qed

end
