(* ===== verification/Payment_Path.thy ===== *)
theory Payment_Path
  imports Buyer_Client Facilitator_Service
begin

text \<open>
  The whole path of one purchase: the buyer (\<^verbatim>\<open>payment-client.ts\<close>) asks a paywalled route
  (\<^verbatim>\<open>packages/seller\<close>), whose facilitator client calls the facilitator
  (\<^verbatim>\<open>apps/facilitator-erc7710\<close>: the limiter, the readiness probe, the routes, the coordinator,
  the journal). Every hop carries text: the payment and the answers pass the header codec, the
  facilitator's requests and answers pass JSON. Each hop may lose the request or the answer.

  The theorems say what the buyer may believe at its end of this path about the journal at the
  other end.
\<close>

section \<open>The stack\<close>

datatype fate = Arrives | RequestLost | AnswerLost

record 's stack =
  sk_viem :: viem
  sk_numbers :: js_numbers
  sk_sha256 :: "string \<Rightarrow> string"
  sk_paywall :: Paywall
  sk_identifiers :: "'s identifier_service"
  sk_kind :: "string option \<Rightarrow> FacilitatorKind option"
  sk_request :: seller_request
  sk_handler :: "SettlementReceipt \<Rightarrow> pay_answer"
  sk_missing :: pay_answer
  sk_fault :: pay_answer
  sk_service :: service
  sk_chain :: "seller_call \<Rightarrow> chain_answers"
  sk_limited :: "seller_call \<Rightarrow> bool"
  sk_ready :: "seller_call \<Rightarrow> thrown + unit"
  sk_link :: "seller_call \<Rightarrow> fate"
  sk_net :: "string option \<Rightarrow> fate"

text \<open>What changes: the seller's identifier store, the facilitator's database, and the bytes it broadcast.\<close>

record 's world =
  wd_identifiers :: 's
  wd_journal :: journal_db
  wd_sent :: "string list"

section \<open>The facilitator, as its client reaches it\<close>

text \<open>The limiter and the readiness probe stand before the routes.\<close>

definition verify_app :: "'s stack \<Rightarrow> thrown + js \<Rightarrow> journal_db \<Rightarrow> http_answer" where
  "verify_app k body db =
     (if sk_limited k CalledVerify then \<lparr>ans_status = 200, ans_body = VERIFY_RATE_LIMITED\<rparr>
      else if \<not> requireReadiness (sk_ready k CalledVerify) then VERIFY_NOT_READY
      else verify_route (sk_service k) (sk_chain k CalledVerify) body db)"

definition settle_app :: "'s stack \<Rightarrow> thrown + js \<Rightarrow> journal_db \<Rightarrow> http_answer \<times> journal_db \<times> string list" where
  "settle_app k body db =
     (if sk_limited k CalledSettle then (\<lparr>ans_status = 200, ans_body = SETTLE_RATE_LIMITED\<rparr>, db, [])
      else if \<not> requireReadiness (sk_ready k CalledSettle) then (SETTLE_NOT_READY, db, [])
      else settle_route (sk_service k) (sk_chain k CalledSettle) body db)"

text \<open>The request as the facilitator reads it, and the answer as the seller's client reads it.\<close>

definition carried_body :: "js_numbers \<Rightarrow> js \<Rightarrow> thrown + js" where
  "carried_body nb request = readJson (json_parse nb) (Some ''application/json'')
     (Some (int (length (json_text nb request)))) (json_text nb request)"

definition carried_answer :: "js_numbers \<Rightarrow> http_answer \<Rightarrow> FacilitatorAnswer" where
  "carried_answer nb a = client_answer
     (FetchAnswered (200 \<le> ans_status a \<and> ans_status a < 300) (json_parse nb (json_text nb (ans_body a))))"

definition facilitator_link :: "'s stack \<Rightarrow> (journal_db \<times> string list) facilitator_service" where
  "facilitator_link k = \<lparr>
     fs_verify = (\<lambda>(db, sent) request ip.
       (if sk_link k CalledVerify = Arrives
        then carried_answer (sk_numbers k) (verify_app k (carried_body (sk_numbers k) request) db)
        else client_answer FetchThrew, (db, sent))),
     fs_settle = (\<lambda>(db, sent) request ip.
       if sk_link k CalledSettle = RequestLost then (client_answer FetchThrew, (db, sent))
       else case settle_app k (carried_body (sk_numbers k) request) db of (a, db', out) \<Rightarrow>
         (if sk_link k CalledSettle = Arrives then carried_answer (sk_numbers k) a else client_answer FetchThrew,
          (db', sent @ out)))\<rparr>"

section \<open>The seller, as the buyer reaches it\<close>

text \<open>
  The response to what the middleware decided. The framework's own answers, to a route it does not
  find and to a fault, are \<^verbatim>\<open>sk_missing\<close> and \<^verbatim>\<open>sk_fault\<close>, any answers; the paid handler's response
  gets the receipt over whatever the handler set.
\<close>

definition optional_header :: "(js \<Rightarrow> string result) \<Rightarrow> js option \<Rightarrow> string option result" where
  "optional_header enc x = (case x of None \<Rightarrow> Inr None | Some v \<Rightarrow> ebind (enc v) (\<lambda>h. Inr (Some h)))"

definition seller_response :: "'s stack \<Rightarrow> paywall_outcome \<Rightarrow> pay_answer result" where
  "seller_response k outcome = (case outcome of
     NotFound \<Rightarrow> Inr (sk_missing k)
   | Answer a \<Rightarrow> ebind (optional_header (encodePaymentResponseHeader (sk_numbers k)) (sa_receipt a)) (\<lambda>receipt.
       ebind (optional_header (encodePaymentRequiredHeader (sk_numbers k)) (sa_offer a)) (\<lambda>required.
         Inr \<lparr>pa_status = sa_status a, pa_required = required, pa_response = receipt,
           pa_contentType = Some ''application/json'', pa_body = Inr (json_text (sk_numbers k) (sa_body a))\<rparr>))
   | Deliver receipt doc \<Rightarrow> ebind (encodePaymentResponseHeader (sk_numbers k) doc)
       (\<lambda>h. Inr ((sk_handler k receipt)\<lparr>pa_response := Some h\<rparr>)))"

definition seller_visit :: "'s stack \<Rightarrow> string option \<Rightarrow> 's world \<Rightarrow> ('s, journal_db \<times> string list) seller_result" where
  "seller_visit k header w = paywall (sk_viem k) (sk_sha256 k) (decodePaymentHeader (sk_numbers k)) (sk_paywall k)
     (sk_identifiers k) (facilitator_link k) (sk_kind k header) ((sk_request k)\<lparr>req_payment_header := header\<rparr>)
     (wd_identifiers w) (wd_journal w, wd_sent w)"

definition seller_http :: "'s stack \<Rightarrow> paywall_outcome result \<Rightarrow> pay_answer" where
  "seller_http k outcome = (case ebind outcome (seller_response k) of
     Inl _ \<Rightarrow> sk_fault k | Inr a \<Rightarrow> a)"

text \<open>The buyer's \<^verbatim>\<open>fetch\<close> with \<^verbatim>\<open>redirect: "error"\<close>.\<close>

definition redirects :: "int \<Rightarrow> bool" where
  "redirects status \<longleftrightarrow> status \<in> {301, 302, 303, 307, 308}"

definition buyer_fetch :: "'s stack \<Rightarrow> 's world \<Rightarrow> string option \<Rightarrow> pay_answer result \<times> 's world" where
  "buyer_fetch k w header =
     (if sk_net k header = RequestLost then (Inl (TypeError ''fetch failed''), w)
      else let r = seller_visit k header w; a = seller_http k (rs_outcome r);
               w' = \<lparr>wd_identifiers = rs_ids r, wd_journal = fst (rs_fac r), wd_sent = snd (rs_fac r)\<rparr> in
        (if sk_net k header = AnswerLost \<or> redirects (pa_status a) then Inl (TypeError ''fetch failed'') else Inr a, w'))"

definition purchase :: "buyer_env \<Rightarrow> DelegatedPaymentConfig \<Rightarrow> 's stack \<Rightarrow> nat list \<Rightarrow> 's world \<Rightarrow> 's world pay_run" where
  "purchase env config k bytes w = payForDelegatedResource env config (buyer_fetch k) bytes w"

section \<open>What the seller's client reads\<close>

lemma ladder_hash_hex: "ladder_hash (decideSettlement v sa p) = Some h \<Longrightarrow> hex_literal is_hex 64 h"
  by (cases "js_get (fa_body sa) ''transaction''")
    (auto simp: decideSettlement_def Let_def readTransaction_def split: if_splits)

lemma ladder_hash_payer: "ladder_hash (decideSettlement v sa p) = ladder_hash (decideSettlement v' sa q)"
  by (simp add: decideSettlement_def Let_def)

lemma truth_without_hash: "ladder_truth l i db db' sent \<Longrightarrow> ladder_hash l = None \<Longrightarrow> same_books db db' \<and> sent = []"
  by (cases l) (auto simp: ladder_truth_def)

text \<open>JSON brings every answer of the facilitator over as it is.\<close>

lemma settle_failure_doc: "ans_status (settle_failure_answer e) = 200 \<and> json_doc nb (ans_body (settle_failure_answer e))"
  by (cases "describeFailure e RouteSettle") (simp_all add: settle_failure_answer_def SETTLE_NOT_READY_def)

lemma settlementResponse_doc: "settlementResponse rec rep = Inr body \<Longrightarrow> json_doc nb body"
  by (cases "sr_terminal rec"; cases "recorded_failure rec") (auto simp: settlementResponse_def)

lemma settle_route_doc:
  assumes "settle_route svc ch body db = (a, db', sent)" shows "ans_status a = 200 \<and> json_doc nb (ans_body a)"
proof (cases "ebind body (validate_request svc)")
  case (Inl e)
  then show ?thesis using assms settle_failure_doc [of e nb] by (auto simp: settle_route_def)
next
  case (Inr payment)
  obtain r db1 out where c: "coordinator_settle svc ch payment db = (r, db1, out)" by (cases "coordinator_settle svc ch payment db") auto
  show ?thesis
  proof (cases r)
    case (Inl e)
    then show ?thesis using assms Inr c settle_failure_doc [of e nb] by (auto simp: settle_route_def)
  next
    case body: (Inr b)
    then have "json_doc nb b"
      using c settlementResponse_doc by (auto simp: coordinator_settle_def Let_def ebind_Inr_iff split: prod.splits sum.splits)
    then show ?thesis using assms Inr c body by (auto simp: settle_route_def)
  qed
qed

lemma settle_app_doc:
  assumes "settle_app k body db = (a, db', sent)" shows "ans_status a = 200 \<and> json_doc nb (ans_body a)"
proof -
  have "json_doc nb SETTLE_RATE_LIMITED" "ans_status SETTLE_NOT_READY = 200 \<and> json_doc nb (ans_body SETTLE_NOT_READY)"
    by (simp_all add: SETTLE_RATE_LIMITED_def SETTLE_NOT_READY_def)
  then show ?thesis using assms settle_route_doc by (auto simp: settle_app_def split: if_splits)
qed

lemma carried_seen:
  assumes "numbers_ok nb" "ans_status a = 200" "json_doc nb (ans_body a)"
  shows "carried_answer nb a = seen_by_seller a"
  using assms by (simp add: carried_answer_def seen_by_seller_def client_answer_def json_roundtrip)

section \<open>What a call may have moved\<close>

lemma settle_app_moves:
  assumes "books_ok db" "plain_chain (sk_service k) (sk_chain k CalledSettle)" "settle_app k body db = (a, db', out)"
  shows "same_books db db' \<and> out = [] \<or> ladder_hash (decideSettlement v (seen_by_seller a) p) \<noteq> None"
proof (cases "sk_limited k CalledSettle \<or> \<not> requireReadiness (sk_ready k CalledSettle)")
  case True
  then show ?thesis using assms(3) by (auto simp: settle_app_def split: if_splits)
next
  case False
  then have r: "settle_route (sk_service k) (sk_chain k CalledSettle) body db = (a, db', out)"
    using assms(3) by (simp add: settle_app_def)
  show ?thesis
  proof (cases "ebind body (validate_request (sk_service k))")
    case (Inl e)
    then show ?thesis using r by (simp add: settle_route_def)
  next
    case (Inr payment)
    from settle_route_truth [OF assms(1,2) Inr r] truth_without_hash
    show ?thesis using ladder_hash_payer [of v "seen_by_seller a" p] by metis
  qed
qed

lemma link_verify [simp]: "snd (fs_verify (facilitator_link k) f request ip) = f"
  by (cases f) (simp add: facilitator_link_def)

lemma link_settle:
  assumes "books_ok (fst f)" "plain_chain (sk_service k) (sk_chain k CalledSettle)" "numbers_ok (sk_numbers k)"
    and "fs_settle (facilitator_link k) f request ip = (sa, f')"
  shows "same_books (fst f) (fst f') \<and> snd f' = snd f \<or> decideSettlement v sa p = LadderUnknown None \<or>
    ladder_hash (decideSettlement v sa p) \<noteq> None"
proof -
  obtain db sent where f: "f = (db, sent)" by fastforce
  let ?body = "carried_body (sk_numbers k) request"
  obtain a db' out where r: "settle_app k ?body db = (a, db', out)" by (cases "settle_app k ?body db") auto
  have lost: "decideSettlement v (client_answer FetchThrew) p = LadderUnknown None"
    by (simp add: client_answer_def decideSettlement_def)
  have "carried_answer (sk_numbers k) a = seen_by_seller a"
    using settle_app_doc [OF r] carried_seen [OF assms(3)] by blast
  then show ?thesis
    using assms(1,4) lost settle_app_moves [OF _ assms(2) r, of v p] r
    by (auto simp: facilitator_link_def f split: if_splits)
qed

text \<open>An outcome that tells the buyer its money may have moved.\<close>

definition alarming :: "string \<Rightarrow> paywall_outcome \<Rightarrow> bool" where
  "alarming payer outcome \<longleftrightarrow> (case outcome of
     NotFound \<Rightarrow> False
   | Answer a \<Rightarrow> (\<forall>x. sa_offer a = Some x \<longrightarrow> serialisable x) \<and>
       (\<exists>w h. sa_receipt a = Some (failure_receipt w (Some payer) h) \<and>
         (sa_status a \<in> {502, 504} \<or> w = SETTLEMENT_REVERTED \<and> hex_literal is_hex 64 h))
   | Deliver receipt doc \<Rightarrow> doc = success_receipt receipt \<and> rc_payer receipt = payer \<and>
       (\<exists>h. rc_transaction receipt = Some h \<and> hex_literal is_hex 64 h))"

definition offers_print :: "Paywall \<Rightarrow> bool" where
  "offers_print pw \<longleftrightarrow> (\<forall>x. pw_advertised pw = Some x \<longrightarrow> serialisable x)"

lemma built_offers_print: "buildPaywall v base opts = Inr pw \<Longrightarrow> offers_print pw"
  by (cases "po_extensions opts")
    (auto simp: buildPaywall_def offers_print_def ebind_Inr_iff ensure_iff buildPaymentIdentifierOffer_def PAYMENT_IDENTIFIER_SCHEMA_def
      split: if_splits)

lemma requirements_print: "serialisable (requirements_of pw kd)"
  by (cases "fk_delegationManager kd") (simp_all add: requirements_of_def buildErc7710PaymentRequirements_def offer_extra_def list_all_iff)

lemma offer_prints: "offers_print pw \<Longrightarrow> serialisable requirements \<Longrightarrow> serialisable (offer_body pw req requirements)"
  by (cases "pw_advertised pw") (simp_all add: offer_body_def offers_print_def Let_def)

lemma outcome_alarms:
  assumes "l = decideSettlement v sa p" "l = LadderUnknown None \<or> ladder_hash l \<noteq> None"
    and "offers_print pw" "serialisable r"
  shows "case settle_outcome v pw req r i p l of Inl out \<Rightarrow> alarming p out | Inr receipt \<Rightarrow> alarming p (deliver receipt)"
proof (cases l)
  case (LadderUnavailable w)
  then show ?thesis using assms(2) by simp
next
  case (LadderUnknown t)
  then show ?thesis by (auto simp: settle_outcome_def error_answer_def alarming_def)
next
  case (LadderFailed w t)
  then obtain h where h: "t = Some h" "hex_literal is_hex 64 h" using assms ladder_hash_hex [of v sa p] by auto
  then have "w \<in> set MINED_REFUSAL_REASONS" using failed_hash_mined [of v sa p w t] assms(1) LadderFailed by simp
  then show ?thesis using LadderFailed h
    using offer_prints [OF assms(3,4)]
    by (auto simp: settle_outcome_def Let_def error_answer_def offer_def alarming_def mined_words or_blank_def)
next
  case (LadderSettled t rep)
  then obtain h where "t = Some h" "hex_literal is_hex 64 h" using assms ladder_hash_hex [of v sa p] by auto
  then show ?thesis using LadderSettled by (simp add: settle_outcome_def alarming_def deliver_def)
qed

definition unmoved :: "journal_db \<times> string list \<Rightarrow> journal_db \<times> string list \<Rightarrow> bool" where
  "unmoved f f' \<longleftrightarrow> same_books (fst f) (fst f') \<and> snd f' = snd f"

lemma unmoved_refl [simp]: "unmoved f f"
  by (simp add: unmoved_def)

lemma charge_moves:
  assumes "books_ok (fst f)" "plain_chain (sk_service k) (sk_chain k CalledSettle)" "numbers_ok (sk_numbers k)"
    and "offers_print pw" "serialisable requirements"
    and "r = charge_payment v pw ids (facilitator_link k) req requirements i pay s f"
  shows "unmoved f (rs_fac r) \<or> (\<exists>out. rs_outcome r = Inr out \<and> alarming (rd_payer pay) out)"
proof -
  let ?q = "facilitator_request (rd_payload pay) requirements"
  obtain va f1 where va: "fs_verify (facilitator_link k) f ?q (req_client_ip req) = (va, f1)" by (rule prod.exhaust)
  then have f1: "f1 = f" using link_verify [of k f ?q "req_client_ip req"] by simp
  obtain sa f2 where sa: "fs_settle (facilitator_link k) f ?q (req_client_ip req) = (sa, f2)" by (rule prod.exhaust)
  show ?thesis
  proof (cases "decideVerification v va (rd_payer pay)")
    case (VerifyAccepted q)
    let ?l = "decideSettlement v sa (rd_payer pay)"
    have "unmoved f f2 \<or> ?l = LadderUnknown None \<or> ladder_hash ?l \<noteq> None"
      using link_settle [OF assms(1-3) sa] unfolding unmoved_def by blast
    moreover have "rs_fac r = f2" "rs_outcome r = Inr (case settle_outcome v pw req requirements i (rd_payer pay) ?l of
        Inl out \<Rightarrow> out | Inr receipt \<Rightarrow> deliver receipt)"
      using assms(6) VerifyAccepted va sa f1 by (auto simp: charge_payment_def Let_def split: sum.splits)
    ultimately show ?thesis
      using outcome_alarms [OF refl _ assms(4,5), of v sa "rd_payer pay" req i] by (auto split: sum.splits)
  qed (use assms(6) va f1 in \<open>simp_all add: charge_payment_def Let_def\<close>)
qed

lemma paywall_moves:
  assumes "books_ok (fst f)" "plain_chain (sk_service k) (sk_chain k CalledSettle)" "numbers_ok (sk_numbers k)"
    and "offers_print pw" and "r = paywall v sha decode pw ids (facilitator_link k) kind req s f"
  shows "unmoved f (rs_fac r) \<or> req_payment_header req \<noteq> None \<and>
    (\<exists>out pay. rs_outcome r = Inr out \<and> read_header v decode pw req = Inr (Some pay) \<and> alarming (rd_payer pay) out)"
proof (cases rule: paywall_cases [of req v sha decode pw ids "facilitator_link k" kind s f])
  case (paid kd pay)
  let ?r = "requirements_of pw kd"
  show ?thesis
  proof (cases rule: serve_cases [where v = v and pw = pw and r = ?r and pay = pay and sha = sha and req = req
        and ids = ids and fac = "facilitator_link k" and s = s and f = f])
    case (charged s')
    have r: "r = charge_payment v pw ids (facilitator_link k) req ?r (intent_of v pw ?r (rd_payload pay)) pay s' f"
      using assms(5) paid charged by simp
    from charge_moves [OF assms(1-4) requirements_print r] show ?thesis using paid by blast
  qed (use assms(5) paid in simp_all)
qed (use assms(5) in simp_all)

section \<open>What the buyer hears\<close>

lemma hex_utf8: "hex_literal is_hex n s \<Longrightarrow> utf8_valid s"
proof (rule utf8_ascii)
  assume h: "hex_literal is_hex n s"
  have "in_range 0 0x7F c" if "is_hex c" for c using that by (auto simp: in_range_def char_class_defs)
  then have "list_all (in_range 0 0x7F) (drop 2 s)" using h by (auto simp: hex_literal_def list_all_iff)
  moreover have "list_all (in_range 0 0x7F) (take 2 s)" using h by (simp add: hex_literal_def in_range_def)
  ultimately show "list_all (in_range 0 0x7F) s" by (metis append_take_drop_id list_all_append)
qed

lemma receipts_travel:
  assumes "numbers_ok nb" "hex_literal is_hex 40 payer" "hex_literal is_hex 64 h"
  shows "\<exists>t. encodePaymentResponseHeader nb (failure_receipt SETTLEMENT_REVERTED (Some payer) h) = Inr t \<and>
      decodePaymentResponseHeader nb t = Some (failure_receipt SETTLEMENT_REVERTED (Some payer) h)"
    and "rc_payer receipt = payer \<Longrightarrow> rc_transaction receipt = Some h \<Longrightarrow>
      \<exists>t. encodePaymentResponseHeader nb (success_receipt receipt) = Inr t \<and>
        decodePaymentResponseHeader nb t = Some (success_receipt receipt)"
proof -
  have words: "utf8_valid ''success''" "utf8_valid ''errorReason''" "utf8_valid ''network''" "utf8_valid ''payer''"
      "utf8_valid ''transaction''" "utf8_valid GIWA_SEPOLIA_CAIP2" "utf8_valid SETTLEMENT_REVERTED"
    by (rule utf8_ascii; simp add: in_range_def GIWA_SEPOLIA_CAIP2_def SETTLEMENT_REVERTED_def)+
  note texts = words hex_utf8 [OF assms(2)] hex_utf8 [OF assms(3)]
  show "\<exists>t. encodePaymentResponseHeader nb (failure_receipt SETTLEMENT_REVERTED (Some payer) h) = Inr t \<and>
      decodePaymentResponseHeader nb t = Some (failure_receipt SETTLEMENT_REVERTED (Some payer) h)"
    unfolding encodePaymentResponseHeader_def decodePaymentResponseHeader_def
    by (rule codec_roundtrip [OF assms(1)]) (simp_all add: failure_receipt_def texts)
  show "\<exists>t. encodePaymentResponseHeader nb (success_receipt receipt) = Inr t \<and>
      decodePaymentResponseHeader nb t = Some (success_receipt receipt)"
    if "rc_payer receipt = payer" "rc_transaction receipt = Some h"
    unfolding encodePaymentResponseHeader_def decodePaymentResponseHeader_def
    by (rule codec_roundtrip [OF assms(1)]) (simp_all add: success_receipt_def or_blank_def that texts)
qed

lemma refused_unknown:
  assumes "dr_transaction (readSellerRefusal env (pa_response a)) \<noteq> None \<or> pa_status a \<in> set SETTLEMENT_UNKNOWN_STATUSES"
  shows "\<exists>f. refused_payment env i a = Unpaid f \<and> fl_code f = SETTLEMENT_UNKNOWN"
  using assms by (auto simp: refused_payment_def Let_def answer_code_def status_code_def)

lemma named_hash_heard:
  assumes "decodePaymentResponseHeader (be_numbers env) t = Some receipt"
    and "js_get receipt ''transaction'' = JString h" "hex_literal is_hex 64 h"
  shows "dr_transaction (readSellerRefusal env (Some t)) = Some h"
  using assms by (simp add: readSellerRefusal_def Let_def hash_of_js_def TRANSACTION_HASH_def)

lemma failure_receipt_prints: "\<exists>t. encodePaymentResponseHeader nb (failure_receipt w p h) = Inr t"
  by (cases p) (simp_all add: encodePaymentResponseHeader_def encodeBase64Json_def failure_receipt_def)

lemma offer_header_prints:
  "\<forall>x. required = Some x \<longrightarrow> serialisable x \<Longrightarrow> \<exists>t. optional_header (encodePaymentRequiredHeader nb) required = Inr t"
  by (cases required) (simp_all add: optional_header_def encodePaymentRequiredHeader_def encodeBase64Json_def)

lemma alarm_heard:
  assumes "numbers_ok (be_numbers env)" "sk_numbers k = be_numbers env" "hex_literal is_hex 40 payer"
    and "alarming payer out" "a = seller_http k (Inr out)"
  shows "\<exists>f. refused_payment env i a = Unpaid f \<and> fl_code f = SETTLEMENT_UNKNOWN"
proof (cases out)
  case (Answer b)
  obtain w h where r: "sa_receipt b = Some (failure_receipt w (Some payer) h)"
      "sa_status b \<in> {502, 504} \<or> w = SETTLEMENT_REVERTED \<and> hex_literal is_hex 64 h"
      "\<forall>x. sa_offer b = Some x \<longrightarrow> serialisable x"
    using assms(4) Answer by (auto simp: alarming_def)
  obtain t where t: "encodePaymentResponseHeader (be_numbers env) (failure_receipt w (Some payer) h) = Inr t"
    using failure_receipt_prints by blast
  have "\<exists>o'. optional_header (encodePaymentRequiredHeader (be_numbers env)) (sa_offer b) = Inr o'"
    by (rule offer_header_prints [OF r(3)])
  then have a: "pa_status a = sa_status b" "pa_response a = Some t"
    using assms(2,5) Answer r(1) t by (auto simp: seller_http_def seller_response_def optional_header_def)
  have "sa_status b \<in> {502, 504} \<or> dr_transaction (readSellerRefusal env (Some t)) = Some h"
    using r(2) receipts_travel(1) [OF assms(1,3)] t named_hash_heard [of env t] by fastforce
  then show ?thesis using a by (intro refused_unknown) (auto simp: SETTLEMENT_UNKNOWN_STATUSES_def)
next
  case (Deliver receipt doc)
  then obtain h where h: "doc = success_receipt receipt" "rc_payer receipt = payer" "rc_transaction receipt = Some h"
      "hex_literal is_hex 64 h"
    using assms(4) by (auto simp: alarming_def)
  obtain t where t: "encodePaymentResponseHeader (be_numbers env) doc = Inr t"
      "decodePaymentResponseHeader (be_numbers env) t = Some doc"
    using receipts_travel(2) [OF assms(1,3) h(4,2,3)] h(1) by blast
  have "pa_response a = Some t" using assms(2,5) Deliver t(1) by (simp add: seller_http_def seller_response_def)
  moreover have "js_get doc ''transaction'' = JString h" by (simp add: h success_receipt_def or_blank_def js_get_def)
  ultimately show ?thesis using named_hash_heard [OF t(2) _ h(4)] by (intro refused_unknown) simp
qed (use assms(4) in \<open>simp add: alarming_def\<close>)

section \<open>What the buyer may believe\<close>

lemma fetch_answer:
  assumes "buyer_fetch k w header = (Inr a, w')"
  shows "a = seller_http k (rs_outcome (seller_visit k header w)) \<and> wd_journal w' = fst (rs_fac (seller_visit k header w)) \<and>
    wd_sent w' = snd (rs_fac (seller_visit k header w))"
  using assms by (auto simp: buyer_fetch_def Let_def split: if_splits)

text \<open>A look at the price moves nothing.\<close>

lemma look_moves_nothing:
  assumes "buyer_fetch k w None = (out, w')" shows "wd_journal w' = wd_journal w \<and> wd_sent w' = wd_sent w"
proof -
  let ?req = "(sk_request k)\<lparr>req_payment_header := None\<rparr>"
  have "rs_fac (seller_visit k None w) = (wd_journal w, wd_sent w)"
    unfolding seller_visit_def
    by (cases rule: paywall_cases [of ?req "sk_viem k" "sk_sha256 k" "decodePaymentHeader (sk_numbers k)" "sk_paywall k"
        "sk_identifiers k" "facilitator_link k" "sk_kind k None" "wd_identifiers w" "(wd_journal w, wd_sent w)"]) simp_all
  then show ?thesis using assms by (auto simp: buyer_fetch_def Let_def split: if_splits)
qed

lemma paid_resource_fails:
  assumes "paid_resource env accepted d i secrets reply = Inr (Unpaid f)" shows "fl_code f = MALFORMED_RESOURCE"
proof -
  obtain ct where "read_content_type env secrets reply = Inr ct" using assms by (auto simp: paid_resource_def ebind_Inr_iff)
  then show ?thesis using assms
    by (cases "read_resource env ct reply") (auto simp: paid_resource_def ebind_Inr_iff sent_failure_def)
qed

lemma payer_hex:
  assumes "\<forall>a. v_isAddress v a \<longrightarrow> hex_literal is_hex 40 (v_getAddress v a)" "read_header v decode pw req = Inr (Some pay)"
  shows "hex_literal is_hex 40 (rd_payer pay)"
proof -
  obtain header payload where p: "readDelegatedPayment v decode header = Inr payload"
      "rd_payer pay = js_getAddress v (js_get (js_get payload ''payload'') ''delegator'')"
    using assms(2) by (auto simp: read_header_def Let_def split: option.splits sum.splits if_splits PaymentIdentifierRead.splits)
  have "js_isAddress v (js_get (js_get payload ''payload'') ''delegator'')"
    using p(1) by (auto simp: readDelegatedPayment_def delegation_payload_ok_def split: option.splits if_splits)
  then show ?thesis using assms(1) p(2)
    by (cases "js_get (js_get payload ''payload'') ''delegator''") (simp_all add: js_isAddress_def js_getAddress_def)
qed

text \<open>A paying visit that moved something is answered so that the buyer does not take it for a refusal.\<close>

lemma paying_visit_heard:
  assumes "books_ok (wd_journal w)" "plain_chain (sk_service k) (sk_chain k CalledSettle)"
    "numbers_ok (be_numbers env)" "sk_numbers k = be_numbers env" "offers_print (sk_paywall k)"
    "\<forall>a. v_isAddress (sk_viem k) a \<longrightarrow> hex_literal is_hex 40 (v_getAddress (sk_viem k) a)"
    and "buyer_fetch k w (Some header) = (second, w')"
    and "payment_answer env p second = Inr (Unpaid f)" "fl_code f \<notin> {SETTLEMENT_UNKNOWN, MALFORMED_RESOURCE}"
  shows "unmoved (wd_journal w, wd_sent w) (wd_journal w', wd_sent w')"
proof -
  obtain a where a: "second = Inr a" using assms(8,9) by (cases second) (auto simp: payment_answer_def sent_failure_def)
  let ?r = "seller_visit k (Some header) w"
  have "\<not> answer_ok a"
    using assms(8,9) a paid_resource_fails by (fastforce simp: payment_answer_def)
  then have f: "refused_payment env (pp_identifier p) a = Unpaid f" using assms(8) a by (simp add: payment_answer_def)
  note g = fetch_answer [OF assms(7) [unfolded a]]
  have "unmoved (wd_journal w, wd_sent w) (rs_fac ?r)"
  proof (rule ccontr)
    assume "\<not> ?thesis"
    then obtain out pay where o: "rs_outcome ?r = Inr out" "alarming (rd_payer pay) out"
        "read_header (sk_viem k) (decodePaymentHeader (sk_numbers k)) (sk_paywall k)
          ((sk_request k)\<lparr>req_payment_header := Some header\<rparr>) = Inr (Some pay)"
      using paywall_moves [OF _ assms(2) _ assms(5), of "(wd_journal w, wd_sent w)" ?r] assms(1,3,4)
      unfolding seller_visit_def by fastforce
    have "a = seller_http k (Inr out)" using g o(1) by simp
    then obtain f' where "refused_payment env (pp_identifier p) a = Unpaid f'" "fl_code f' = SETTLEMENT_UNKNOWN"
      using alarm_heard [OF assms(3,4) payer_hex [OF assms(6) o(3)] o(2)] by blast
    then show False using f assms(9) by simp
  qed
  then show ?thesis using g by simp
qed

text \<open>C12: a buyer that is told no was not charged. Whatever the client reports other than an unknown
settlement or an unreadable paid resource, the facilitator's journal holds the intents and the budget
it held before the purchase and nothing was broadcast: however the offers, the verification, the
chain and the journal fell out, whichever of the four hops lost a request or an answer, and whatever
the paid handler did.\<close>

theorem refusal_means_uncharged:
  assumes "service_run (wd_journal w)" "plain_chain (sk_service k) (sk_chain k CalledSettle)"
    and "numbers_ok (be_numbers env)" "sk_numbers k = be_numbers env" "buildPaywall (sk_viem k) base opts = Inr (sk_paywall k)"
    and "\<forall>a. v_isAddress (sk_viem k) a \<longrightarrow> hex_literal is_hex 40 (v_getAddress (sk_viem k) a)"
    and "pr_outcome (purchase env config k bytes w) = Inr (Unpaid f)" "fl_code f \<notin> {SETTLEMENT_UNKNOWN, MALFORMED_RESOURCE}"
  shows "same_books (wd_journal w) (wd_journal (pr_world (purchase env config k bytes w))) \<and>
    wd_sent (pr_world (purchase env config k bytes w)) = wd_sent w"
proof -
  note books = service_run_books [OF assms(1)]
  show ?thesis
  proof (cases rule: pay_cases [of "buyer_fetch k" w env config bytes])
    case (sent first w1 p evs second w2)
    have w1: "wd_journal w1 = wd_journal w" "wd_sent w1 = wd_sent w" using look_moves_nothing [OF sent(1)] by simp_all
    have "payment_answer env p second = Inr (Unpaid f)" using assms(7) sent(4) by (simp add: purchase_def)
    from paying_visit_heard [OF _ assms(2-4) built_offers_print [OF assms(5)] assms(6) sent(3) this assms(8)] books w1
    show ?thesis using sent(4) by (simp add: purchase_def unmoved_def)
  qed (use assms(7) look_moves_nothing in \<open>auto simp: purchase_def\<close>)
qed

end
