(* ===== verification/Purchase_Completes.thy ===== *)
theory Purchase_Completes
  imports Payment_Path
begin

text \<open>
  The purchase that goes through: an honest buyer, a paywall, a facilitator that settles, and no
  hop that loses anything. The offer survives its header and its body, the payment survives its
  header, the identifier, the validator and the JSON of the facilitator's wire, and the receipt
  comes back as the transaction the journal recorded.
\<close>

section \<open>Documents that travel\<close>

definition ascii :: "string \<Rightarrow> bool" where
  "ascii s \<longleftrightarrow> list_all (in_range 0 0x7F) s"

lemma ascii_utf8: "ascii s \<Longrightarrow> utf8_valid s"
  unfolding ascii_def by (rule utf8_ascii)

lemma ascii_String: "ascii (String i)"
proof -
  have "in_range 0 0x7F c" if "c \<in> set (String i)" for c
    using String_chars [OF that] by (auto simp: in_range_def char_class_defs)
  then show ?thesis by (simp add: ascii_def list_all_iff)
qed

lemma ascii_words:
  "ascii GIWA_SEPOLIA_CAIP2" "ascii PAYMENT_IDENTIFIER_EXTENSION" "ascii ''scheme''" "ascii ''network''" "ascii ''amount''"
  "ascii ''payTo''" "ascii ''maxTimeoutSeconds''" "ascii ''asset''" "ascii ''extra''" "ascii ''exact''"
  "ascii ''assetTransferMethod''" "ascii ''paymentFlow''" "ascii ''upfront''" "ascii ''erc7710''" "ascii ''facilitatorAddresses''"
  "ascii ''delegationManager''" "ascii ''x402Version''" "ascii ''accepted''" "ascii ''payload''" "ascii ''permissionContext''"
  "ascii ''delegator''" "ascii ''extensions''" "ascii ''info''" "ascii ''required''" "ascii ''id''" "ascii ''schema''"
  "ascii ''$schema''" "ascii ''type''" "ascii ''object''" "ascii ''properties''" "ascii ''boolean''" "ascii ''string''"
  "ascii ''minLength''" "ascii ''maxLength''" "ascii ''https://json-schema.org/draft/2020-12/schema''"
  by (simp_all add: ascii_def in_range_def GIWA_SEPOLIA_CAIP2_def PAYMENT_IDENTIFIER_EXTENSION_def)

lemmas word_utf8 = ascii_words [THEN ascii_utf8]

lemma requirements_utf8:
  assumes "utf8_valid payTo" "\<forall>a \<in> set facs. utf8_valid a" "\<forall>m. manager = Some m \<longrightarrow> utf8_valid m"
  shows "js_utf8 (buildErc7710PaymentRequirements payTo amt (Some facs) manager None)"
  using assms hex_utf8 [OF mock_usdc_hex] ascii_utf8 [OF ascii_String] word_utf8
  by (cases manager) (simp_all add: buildErc7710PaymentRequirements_def offer_extra_def list_all_iff)

lemma requirements_doc: "json_doc nb (buildErc7710PaymentRequirements payTo amt (Some facs) manager None)"
  by (cases manager)
    (simp_all add: buildErc7710PaymentRequirements_def offer_extra_def list_all_iff isSafeInteger_def MAX_SAFE_INTEGER_def)

lemma schema_facts: "js_utf8 PAYMENT_IDENTIFIER_SCHEMA" "json_doc nb PAYMENT_IDENTIFIER_SCHEMA"
  using word_utf8 by (simp_all add: PAYMENT_IDENTIFIER_SCHEMA_def isSafeInteger_def MAX_SAFE_INTEGER_def)

lemma payload_facts:
  assumes "js_utf8 accepted" "json_doc nb accepted" "utf8_valid dm" "utf8_valid ctx" "utf8_valid d" "utf8_valid i"
  defines "p \<equiv> buildErc7710PaymentPayload accepted dm ctx d (Some (JObject [(PAYMENT_IDENTIFIER_EXTENSION, buildPaymentIdentifierEcho i)]))"
  shows "js_utf8 p" "json_doc nb p"
  using assms(1-6) word_utf8 schema_facts
  by (simp_all add: p_def buildErc7710PaymentPayload_def buildPaymentIdentifierEcho_def X402_VERSION_def
      isSafeInteger_def MAX_SAFE_INTEGER_def)

text \<open>An offer is read back from its header, or from the body when its texts are no well-formed UTF-8.\<close>

lemma offered_recovers:
  assumes "numbers_ok (be_numbers env)" "json_doc (be_numbers env) body"
    and "encodePaymentRequiredHeader (be_numbers env) body = Inr h"
    and "pa_required a = Some h" "pa_body a = Inr (json_text (be_numbers env) body)"
  shows "offered_body env a = Inr body"
proof -
  let ?t = "json_text (be_numbers env) body"
  have r: "json_parse (be_numbers env) ?t = Some body" by (rule json_roundtrip [OF assms(1,2)])
  have "h = btoa ?t" using assms(3) doc_defined [OF assms(2)]
    by (auto simp: encodePaymentRequiredHeader_def encodeBase64Json_def split: if_splits)
  then have "decodePaymentRequiredHeader (be_numbers env) h = (if utf8_valid ?t then Some body else None)"
    using no_bom [OF r] r by (simp add: decodePaymentRequiredHeader_def decodeBase64Json_def decode_fatal_def)
  then show ?thesis using assms(4,5) r by (simp add: offered_body_def answer_json_def)
qed

text \<open>The identifier of the buyer is one the seller accepts.\<close>

lemma identifier_facts:
  assumes "length bytes = 16"
  shows "is_identifier (newPaymentIdentifier bytes)" "ascii (newPaymentIdentifier bytes)"
proof -
  have h: "is_hex (hex_char (b div 16 mod 16)) \<and> is_hex (hex_char (b mod 16))" for b
    by (simp add: hex_char_facts)
  have l: "length (newPaymentIdentifier bytes) = 36"
    using assms by (simp add: newPaymentIdentifier_def length_concat sum_list_triv comp_def)
  have c: "list_all is_hex (concat (map (\<lambda>b. [hex_char (b div 16 mod 16), hex_char (b mod 16)]) bytes))"
    using h by (auto simp: list_all_iff)
  have w: "is_digit c \<or> is_lower c \<or> is_upper c" "in_range 0 0x7F c" if "is_hex c" for c
    using that by (auto simp: in_range_def char_class_defs)
  show "is_identifier (newPaymentIdentifier bytes)"
    unfolding is_identifier_def using l c w(1) by (auto simp: newPaymentIdentifier_def list_all_iff is_lower_def char_between_def)
  show "ascii (newPaymentIdentifier bytes)"
    using c w(2) by (auto simp: newPaymentIdentifier_def ascii_def list_all_iff in_range_def)
qed

lemma identifier_read:
  assumes "is_identifier i"
  shows "readPaymentIdentifier (buildErc7710PaymentPayload accepted dm ctx d
    (Some (JObject [(PAYMENT_IDENTIFIER_EXTENSION, buildPaymentIdentifierEcho i)]))) = IdPresent i"
  using assms
  by (simp add: readPaymentIdentifier_def buildErc7710PaymentPayload_def asRecord_def is_object_body_def
      js_has_def buildPaymentIdentifierEcho_def js_get_JObject)

section \<open>An honest market\<close>

text \<open>One runtime everywhere; what the sources rely on of it.\<close>

definition same_runtime :: "buyer_env \<Rightarrow> 's stack \<Rightarrow> bool" where
  "same_runtime env k \<longleftrightarrow> be_viem env = sk_viem k \<and> svc_viem (sk_service k) = sk_viem k \<and> sk_numbers k = be_numbers env \<and>
     viem_ok (sk_viem k) \<and> numbers_ok (be_numbers env) \<and> (\<forall>a. v_isAddress (sk_viem k) a \<longrightarrow> hex_literal is_hex 40 a \<and> v_isAddress (sk_viem k) (toLowerCase a))"

text \<open>The route is served, priced and published with what the facilitator advertised.\<close>

definition selling :: "'s stack \<Rightarrow> FacilitatorKind \<Rightarrow> bool" where
  "selling k kd \<longleftrightarrow> \<not> req_last_route (sk_request k) \<and> (\<forall>h. sk_kind k h = Some kd) \<and>
     v_isAddress (sk_viem k) (pw_payTo (sk_paywall k)) \<and> v_getAddress (sk_viem k) (pw_payTo (sk_paywall k)) \<noteq> zeroAddress \<and>
     0 < pw_amount (sk_paywall k) \<and>
     (\<forall>x. pw_advertised (sk_paywall k) = Some x \<longrightarrow> json_doc (sk_numbers k) x) \<and>
     (\<forall>a \<in> set (fk_facilitatorAddresses kd). v_isAddress (sk_viem k) a) \<and>
     (\<forall>m. fk_delegationManager kd = Some m \<longrightarrow> v_isAddress (sk_viem k) m)"

abbreviation deal :: "'s stack \<Rightarrow> FacilitatorKind \<Rightarrow> js" where
  "deal k kd \<equiv> requirements_of (sk_paywall k) kd"

text \<open>The buyer trusts the facilitator, agrees to the offer and signs a context for it.\<close>

definition buying :: "buyer_env \<Rightarrow> DelegatedPaymentConfig \<Rightarrow> 's stack \<Rightarrow> FacilitatorKind \<Rightarrow> leaf \<Rightarrow> bool" where
  "buying env config k kd l \<longleftrightarrow> manager_ok env config \<and>
     (\<exists>f \<in> set (fk_facilitatorAddresses kd). v_getAddress (sk_viem k) f \<in> set (dc_trustedFacilitators config)) \<and>
     (\<forall>m. fk_delegationManager kd = Some m \<longrightarrow>
        v_getAddress (sk_viem k) m = v_getAddress (sk_viem k) (dc_delegationManager config)) \<and>
     (\<forall>check. dc_preflight config = Some check \<longrightarrow> check (deal k kd) = Inr PreflightOk) \<and>
     dc_provider config (deal k kd) = Inr l \<and>
     v_getAddress (sk_viem k) (lf_delegationManager l) = v_getAddress (sk_viem k) (dc_delegationManager config) \<and>
     signed_facts (sk_viem k) (svc_options (sk_service k)) (lf_delegationManager l) (lf_permissionContext l) (lf_delegator l) \<and>
     utf8_valid (lf_permissionContext l)"

lemma honest_look:
  assumes "same_runtime env k" "selling k kd" "buying env config k kd l" "\<forall>h. sk_net k h = Arrives"
  shows "\<exists>first. buyer_fetch k w None = (Inr first, w) \<and> read_offer env config first = Inr (Inr (deal k kd))"
proof -
  let ?pw = "sk_paywall k" and ?req = "(sk_request k)\<lparr>req_payment_header := None\<rparr>" and ?nb = "be_numbers env"
  let ?body = "offer_body ?pw ?req (deal k kd)"
  note f = assms(1-3) [unfolded same_runtime_def selling_def buying_def]
  have visit: "rs_outcome (seller_visit k None w) = Inr (offer ?pw ?req (deal k kd) None)"
      "rs_ids (seller_visit k None w) = wd_identifiers w" "rs_fac (seller_visit k None w) = (wd_journal w, wd_sent w)"
    using f by (simp_all add: seller_visit_def paywall_def read_header_def Let_def)
  have doc: "json_doc ?nb ?body"
    using f requirements_doc [of ?nb "pw_payTo ?pw" "pw_amount ?pw" "fk_facilitatorAddresses kd" "fk_delegationManager kd"]
    by (cases "pw_advertised ?pw")
      (simp_all add: offer_body_def Let_def requirements_of_def X402_VERSION_def isSafeInteger_def MAX_SAFE_INTEGER_def)
  obtain h where h: "encodePaymentRequiredHeader ?nb ?body = Inr h"
    using json_doc_serialisable [OF doc] by (auto simp: encodePaymentRequiredHeader_def encodeBase64Json_def)
  let ?first = "seller_http k (Inr (offer ?pw ?req (deal k kd) None))"
  have first: "pa_status ?first = 402" "pa_required ?first = Some h" "pa_body ?first = Inr (json_text ?nb ?body)"
    using f h by (simp_all add: seller_http_def seller_response_def offer_def optional_header_def)
  have fetch: "buyer_fetch k w None = (Inr ?first, w)"
    using assms(4) visit first(1) by (simp add: buyer_fetch_def Let_def redirects_def)
  have body: "js_get ?body ''x402Version'' = JNum X402_VERSION" "js_get ?body ''accepts'' = JArray [deal k kd]"
      "typeof_object ?body" "?body \<noteq> JNull"
    by (cases "pw_advertised ?pw"; simp add: offer_body_def Let_def js_get_JObject)+
  obtain g where "g \<in> set (fk_facilitatorAddresses kd)" "v_getAddress (sk_viem k) g \<in> set (dc_trustedFacilitators config)"
    using f by blast
  then have "judgeOffer env config (deal k kd) = Inr (Accepted (deal k kd))"
    unfolding requirements_of_def using f by (intro honest_offer_accepted [where f = g]) simp_all
  then have "selectOffer env config (JArray [deal k kd]) = Inr (Accepted (deal k kd))" by (simp add: selectOffer_def)
  then have "read_offer env config ?first = Inr (Inr (deal k kd))"
    using offered_recovers [OF _ doc h first(2,3)] f first(1) body by (simp add: read_offer_def)
  then show ?thesis using fetch by blast
qed

text \<open>The buyer prepares the payment, and the seller reads it off the header.\<close>

abbreviation paid_with :: "buyer_env \<Rightarrow> 's stack \<Rightarrow> FacilitatorKind \<Rightarrow> leaf \<Rightarrow> nat list \<Rightarrow> js" where
  "paid_with env k kd l bytes \<equiv> payment_payload env (deal k kd) l (newPaymentIdentifier bytes)"

lemma address_utf8:
  assumes "same_runtime env k" "v_isAddress (sk_viem k) a" shows "utf8_valid a" "utf8_valid (v_getAddress (sk_viem k) a)"
proof -
  have "v_isAddress (sk_viem k) (v_getAddress (sk_viem k) a)" using assms viem_isAddress_get by (auto simp: same_runtime_def)
  then show "utf8_valid a" "utf8_valid (v_getAddress (sk_viem k) a)" using assms hex_utf8 by (auto simp: same_runtime_def)
qed

lemma honest_header:
  assumes "same_runtime env k" "selling k kd" "buying env config k kd l" "length bytes = 16"
  shows "\<exists>header. encodePaymentHeader (be_numbers env) (paid_with env k kd l bytes) = Inr header \<and>
    decodePaymentHeader (be_numbers env) header = Some (paid_with env k kd l bytes)"
proof -
  note f = assms(1-3) [unfolded same_runtime_def selling_def buying_def signed_facts_def]
  note a = address_utf8 [OF assms(1)]
  have d: "js_utf8 (deal k kd)" "json_doc (be_numbers env) (deal k kd)"
    unfolding requirements_of_def using f a by (auto intro!: requirements_utf8 requirements_doc)
  show ?thesis
    unfolding encodePaymentHeader_def decodePaymentHeader_def payment_payload_def
    using f a(2) [of "lf_delegationManager l"] a(2) [of "lf_delegator l"] d ascii_utf8 [OF identifier_facts(2) [OF assms(4)]]
    by (intro codec_roundtrip payload_facts) simp_all
qed

lemma honest_prepare:
  assumes "same_runtime env k" "buying env config k kd l" "read_offer env config first = Inr (Inr (deal k kd))"
    and "encodePaymentHeader (be_numbers env) (paid_with env k kd l bytes) = Inr header"
  shows "\<exists>evs. prepare_payment env config bytes first = (Inr (Inr \<lparr>pp_accepted = deal k kd, pp_leaf = l,
    pp_identifier = newPaymentIdentifier bytes, pp_header = header\<rparr>), evs)"
proof -
  note f = assms(1,2) [unfolded same_runtime_def buying_def signed_facts_def]
  have "run_preflight env config (deal k kd) = None" using f by (cases "dc_preflight config") (simp_all add: run_preflight_def)
  moreover have "usable_leaf env config l = Inr True" using f manager_reads(1) [of env config] by (simp add: usable_leaf_def)
  ultimately show ?thesis using assms(3,4) f by (simp add: prepare_payment_def Let_def)
qed

definition payment_read :: "'s stack \<Rightarrow> js \<Rightarrow> leaf \<Rightarrow> nat list \<Rightarrow> read_payment" where
  "payment_read k payload l bytes = \<lparr>rd_payload = payload, rd_payer = v_getAddress (sk_viem k) (lf_delegator l),
     rd_identifier = (if pw_identifiers (sk_paywall k) then Some (newPaymentIdentifier bytes) else None)\<rparr>"

lemma honest_arrival:
  assumes "same_runtime env k" "buying env config k kd l" "length bytes = 16"
    and "decodePaymentHeader (be_numbers env) header = Some (paid_with env k kd l bytes)" "length header \<le> MAX_PAYMENT_HEADER_LENGTH"
  shows "read_header (sk_viem k) (decodePaymentHeader (sk_numbers k)) (sk_paywall k) ((sk_request k)\<lparr>req_payment_header := Some header\<rparr>)
    = Inr (Some (payment_read k (paid_with env k kd l bytes) l bytes))"
proof -
  note f = assms(1,2) [unfolded same_runtime_def buying_def signed_facts_def]
  let ?p = "paid_with env k kd l bytes"
  have idem: "v_getAddress (sk_viem k) (v_getAddress (sk_viem k) a) = v_getAddress (sk_viem k) a"
      "v_isAddress (sk_viem k) (v_getAddress (sk_viem k) a)" if "v_isAddress (sk_viem k) a" for a
    using that f viem_getAddress_idem viem_isAddress_get by blast+
  have ok: "readDelegatedPayment (sk_viem k) (decodePaymentHeader (sk_numbers k)) header = Inr ?p"
    using f idem(2) [of "lf_delegationManager l"] idem(2) [of "lf_delegator l"] assms(4)
    by (simp add: readDelegatedPayment_def delegation_payload_ok_def payment_payload_def requirements_of_def)
  have i: "readPaymentIdentifier ?p = IdPresent (newPaymentIdentifier bytes)"
    unfolding payment_payload_def by (rule identifier_read) (rule identifier_facts(1) [OF assms(3)])
  have d: "js_getAddress (sk_viem k) (js_get (js_get ?p ''payload'') ''delegator'') = v_getAddress (sk_viem k) (lf_delegator l)"
    using f idem by (simp add: payment_payload_def)
  show ?thesis using ok i d assms(5) by (simp add: read_header_def Let_def payment_read_def)
qed

section \<open>The facilitator settles\<close>

text \<open>Its doors are open, its wire holds, and the request fits the body it reads.\<close>

definition facilitating :: "'s stack \<Rightarrow> FacilitatorKind \<Rightarrow> js \<Rightarrow> bool" where
  "facilitating k kd request \<longleftrightarrow>
     vo_facilitator (svc_options (sk_service k)) \<in> set (fk_facilitatorAddresses kd) \<and>
     (\<forall>m. vo_maxAmount (svc_options (sk_service k)) = Some m \<longrightarrow> pw_amount (sk_paywall k) \<le> m) \<and>
     (\<forall>c. \<not> sk_limited k c \<and> sk_ready k c = Inr () \<and> sk_link k c = Arrives) \<and>
     length (json_text (sk_numbers k) request) \<le> 150000"

lemma doc_text_nonempty: "numbers_ok nb \<Longrightarrow> json_doc nb x \<Longrightarrow> json_text nb x \<noteq> []"
proof
  assume "numbers_ok nb" "json_doc nb x" "json_text nb x = []"
  then have "json_parse nb [] = Some x" using json_roundtrip by metis
  then show False by (simp add: json_parse_def json_scalar_def scan_number_def scan_minus_def scan_whole_def starts_with_def)
qed

lemma carried_request:
  assumes "numbers_ok nb" "json_doc nb request" "length (json_text nb request) \<le> 150000"
  shows "carried_body nb request = Inr request"
proof -
  have "starts_with ''application/json'' (toLowerCase ''application/json'')" by code_simp
  then show ?thesis using doc_text_nonempty [OF assms(1,2)] json_roundtrip [OF assms(1,2)] assms(3)
    by (simp add: carried_body_def readJson_def Let_def)
qed

lemma signed_facts_checksummed:
  assumes "viem_ok v" "signed_facts v opts dm ctx d" shows "signed_facts v opts (v_getAddress v dm) ctx (v_getAddress v d)"
proof -
  note f = assms(2) [unfolded signed_facts_def]
  have "v_getAddress v (v_getAddress v dm) = v_getAddress v dm" "v_getAddress v (v_getAddress v d) = v_getAddress v d"
      "v_isAddress v (v_getAddress v dm)" "v_isAddress v (v_getAddress v d)"
    using f viem_getAddress_idem [OF assms(1)] viem_isAddress_get [OF assms(1)] by blast+
  then show ?thesis using f unfolding signed_facts_def by metis
qed

lemma honest_request:
  assumes "same_runtime env k" "selling k kd" "buying env config k kd l" "length bytes = 16"
    and "facilitating k kd (facilitator_request (paid_with env k kd l bytes) (deal k kd))"
  shows "carried_body (sk_numbers k) (facilitator_request (paid_with env k kd l bytes) (deal k kd))
      = Inr (facilitator_request (paid_with env k kd l bytes) (deal k kd))"
    and "\<exists>payment. validate_request (sk_service k) (facilitator_request (paid_with env k kd l bytes) (deal k kd)) = Inr payment \<and>
      vp_payer payment = v_getAddress (sk_viem k) (lf_delegator l)"
proof -
  let ?p = "paid_with env k kd l bytes"
  note f = assms(1-3,5) [unfolded same_runtime_def selling_def buying_def facilitating_def]
  have d: "json_doc (be_numbers env) (deal k kd)" unfolding requirements_of_def by (rule requirements_doc)
  obtain header where h: "decodePaymentHeader (be_numbers env) header = Some ?p" using honest_header [OF assms(1-4)] by blast
  have "json_doc (be_numbers env) ?p"
    using h f json_parse_doc by (auto simp: decodePaymentHeader_def decodeBase64Json_def split: option.splits)
  then have "json_doc (be_numbers env) (facilitator_request ?p (deal k kd))"
    using d by (simp add: facilitator_request_def X402_VERSION_def isSafeInteger_def MAX_SAFE_INTEGER_def)
  then show "carried_body (sk_numbers k) (facilitator_request ?p (deal k kd)) = Inr (facilitator_request ?p (deal k kd))"
    using f carried_request by simp
  have s: "signed_facts (sk_viem k) (svc_options (sk_service k)) (v_getAddress (sk_viem k) (lf_delegationManager l))
      (lf_permissionContext l) (v_getAddress (sk_viem k) (lf_delegator l))"
    using f signed_facts_checksummed by blast
  have i: "v_getAddress (sk_viem k) (v_getAddress (sk_viem k) (lf_delegator l)) = v_getAddress (sk_viem k) (lf_delegator l)"
    using f by (intro viem_getAddress_idem) (simp_all add: signed_facts_def)
  let ?ext = "Some (JObject [(PAYMENT_IDENTIFIER_EXTENSION, buildPaymentIdentifierEcho (newPaymentIdentifier bytes))])"
  have "\<exists>q. validateDelegatedPayment (sk_viem k) (facilitator_request ?p (deal k kd)) (svc_options (sk_service k)) = Inr q \<and>
      vp_payer q = v_getAddress (sk_viem k) (v_getAddress (sk_viem k) (lf_delegator l))"
  proof -
    have v: "be_viem env = sk_viem k" using f by simp
    show ?thesis
      unfolding payment_payload_def requirements_of_def v
      using honest_payment_validates [of "sk_viem k" "pw_payTo (sk_paywall k)" "pw_amount (sk_paywall k)"
        "svc_options (sk_service k)" "fk_facilitatorAddresses kd" "fk_delegationManager kd", OF _ _ _ _ _ _ _ s, of ?ext] f by blast
  qed
  then show "\<exists>payment. validate_request (sk_service k) (facilitator_request ?p (deal k kd)) = Inr payment \<and>
      vp_payer payment = v_getAddress (sk_viem k) (lf_delegator l)"
    using f i by (auto simp: validate_request_def)
qed

text \<open>
  What the journal and the chain must answer: the intent is new, the probe and the simulation
  pass, the signer signs what was allocated, the day's gas budget admits the claim, and the node
  has the receipt of a redemption that credited the recipient.
\<close>

definition probe_passes :: "service \<Rightarrow> chain_answers \<Rightarrow> int \<Rightarrow> bool" where
  "probe_passes svc ch gas \<longleftrightarrow> ch_simulate ch = Inr () \<and> ch_estimateGas ch = Inr gas \<and> gas \<le> svc_max_redemption_gas svc"

definition redeemed :: "service \<Rightarrow> ValidatedDelegatedPayment \<Rightarrow> string \<Rightarrow> RecoveryReceipt \<Rightarrow> bool" where
  "redeemed svc payment h rcp \<longleftrightarrow> toLowerCase (rcp_transactionHash rcp) = h \<and>
     (\<exists>used price l1. rcp_gasUsed rcp = JBigint used \<and> 0 < used \<and> rcp_effectiveGasPrice rcp = JBigint price \<and> 0 \<le> price \<and>
        readReceiptFeeField (rcp_l1Fee rcp) = Inr l1) \<and>
     receiptFailure (svc_viem svc) (rcp_success rcp) (rcp_logs rcp)
       (js_text (js_get (vp_paymentRequirements payment) ''asset'')) (vp_payer payment)
       (js_text (js_get (vp_paymentRequirements payment) ''payTo'')) (vp_amount payment) = None"

definition storage_works :: "recovery_env \<Rightarrow> bool" where
  "storage_works env \<longleftrightarrow> \<not> rv_read_fault env \<and> \<not> rv_nonce_fault env \<and> \<not> rv_claim_fault env \<and> \<not> rv_finish_fault env \<and>
     isSafeInteger (rv_finish_now env) \<and> 0 \<le> rv_finish_now env"

definition chain_serves :: "'s stack \<Rightarrow> ValidatedDelegatedPayment \<Rightarrow> journal_db \<Rightarrow> bool" where
  "chain_serves k payment db \<longleftrightarrow>
     (let svc = sk_service k; env = svc_recovery svc; ch = sk_chain k CalledSettle; i = vp_paymentIntentId payment in
      storage_works env \<and> hex_literal is_hex 64 i \<and> select_intent db (toLowerCase i) = None \<and>
      (\<exists>gas. probe_passes svc (sk_chain k CalledVerify) gas) \<and>
      (\<exists>pending nonce gas maxFee priority raw tx rec db1 rcp.
         ch_transactionCount ch = Inr pending \<and> nextNonce db (rv_signer env) (rv_chainId env) pending = Inr nonce \<and>
         probe_passes svc ch gas \<and> ch_feesPerGas ch = Inr (maxFee, priority) \<and>
         ch_sign ch nonce gas maxFee priority = Inr raw \<and> rv_parseTransaction env raw = Inr tx \<and>
         envelope_matches env nonce tx \<and>
         claim db (claim_input env (recovery_payment payment) nonce raw tx) (rv_limits env) = Inr (rec, db1) \<and>
         ch_receipt ch (toLowerCase (rv_keccak256 env raw)) = Inr (Some rcp) \<and>
         redeemed svc payment (toLowerCase (rv_keccak256 env raw)) rcp))"

lemma chain_servesI:
  assumes "storage_works (svc_recovery (sk_service k))" "hex_literal is_hex 64 (vp_paymentIntentId payment)"
    "select_intent db (toLowerCase (vp_paymentIntentId payment)) = None"
    "probe_passes (sk_service k) (sk_chain k CalledVerify) checked"
    "ch_transactionCount (sk_chain k CalledSettle) = Inr pending"
    "nextNonce db (rv_signer (svc_recovery (sk_service k))) (rv_chainId (svc_recovery (sk_service k))) pending = Inr nonce"
    "probe_passes (sk_service k) (sk_chain k CalledSettle) gas" "ch_feesPerGas (sk_chain k CalledSettle) = Inr (maxFee, priority)"
    "ch_sign (sk_chain k CalledSettle) nonce gas maxFee priority = Inr raw"
    "rv_parseTransaction (svc_recovery (sk_service k)) raw = Inr tx" "envelope_matches (svc_recovery (sk_service k)) nonce tx"
    "claim db (claim_input (svc_recovery (sk_service k)) (recovery_payment payment) nonce raw tx) (rv_limits (svc_recovery (sk_service k)))
      = Inr (rec, db1)"
    "ch_receipt (sk_chain k CalledSettle) (toLowerCase (rv_keccak256 (svc_recovery (sk_service k)) raw)) = Inr (Some rcp)"
    "redeemed (sk_service k) payment (toLowerCase (rv_keccak256 (svc_recovery (sk_service k)) raw)) rcp"
  shows "chain_serves k payment db"
  unfolding chain_serves_def Let_def using assms by blast

text \<open>Claiming a new intent leaves an open record with the prepared hash.\<close>

lemma claimed_record:
  assumes "claim db input limits = Inr (rec, db1)" "select_intent db (toLowerCase (si_paymentIntentId input)) = None"
  shows "\<exists>r. select_intent db1 (toLowerCase (si_paymentIntentId input)) = Some r \<and> rec = record_of_row (events db1) r \<and>
    ir_terminal_event_id r = None \<and> ir_tx_hash r = toLowerCase (si_txHash input) \<and> ir_payer r = toLowerCase (si_payer input) \<and>
    ir_payment_intent_id r = toLowerCase (si_paymentIntentId input) \<and> sr_terminal rec = None"
  using assms(1)
proof (cases rule: claim_cases)
  case (known r)
  then show ?thesis using assms(2) by simp
next
  case (fresh r)
  from fresh(2) obtain q where q: "intents db1 = intents db @ [q]" "ir_payment_intent_id q = toLowerCase (si_paymentIntentId input)"
      "ir_tx_hash q = toLowerCase (si_txHash input)" "ir_payer q = toLowerCase (si_payer input)" "ir_terminal_event_id q = None"
    by (rule claim_newE) auto
  have "select_intent db1 (toLowerCase (si_paymentIntentId input)) = Some q"
    using select_intent_append [OF q(1)] assms(2) [unfolded select_intent_None] q(2) by simp
  then have "r = q" using fresh(4) by simp
  then show ?thesis using q fresh by (intro exI [of _ q]) (simp add: record_of_row_def)
qed

text \<open>Finishing an open record with a redeemed receipt settles it.\<close>

lemma finished_settled:
  assumes "journal_ok db" "select_intent db (toLowerCase i) = Some r" "hex_literal is_hex 64 i" "ir_terminal_event_id r = None"
    "0 \<le> fin_actualCost res" "0 \<le> fin_gasUsed res" "isSafeInteger (fin_at res)" "0 \<le> fin_at res" "fin_errorCode res = None"
  shows "\<exists>rec db' ev. finish db i res = Inr (rec, db') \<and> sr_terminal rec = Some ev \<and> ev_outcome ev = Settled \<and> si_payer rec = ir_payer r"
proof -
  obtain rec db' where fin: "finish db i res = Inr (rec, db')" using finish_returns [OF assms(1-8)] by blast
  have "intent_ok (events db) r" using assms(1) select_intent_Some [OF assms(2)] by (simp add: journal_ok_def)
  then have nt: "sr_terminal (record_of_row (events db) r) = None" using terminal_of_ok assms(4) by simp
  from fin show ?thesis
  proof (cases rule: finish_cases)
    case (replay q)
    then show ?thesis using assms(2) nt by simp
  next
    case (fresh q e)
    have q: "q = r" using fresh(1) assms(2) by simp
    have "distinct (map row_id (events db'))" using finish_ok [OF assms(1) fin] by (simp add: journal_ok_def ledger_ok_def)
    then have "find (\<lambda>x. row_id x = row_id e) (events db') = Some e" by (rule find_distinct) (simp add: fresh(10))
    moreover have "row_outcome e = Settled" using fresh(9) assms(9) by (auto elim!: ledger_recordE simp: terminal_event_def)
    ultimately show ?thesis using fin fresh(13) q by (simp add: record_of_row_def toSettlementEvent_def)
  qed
qed

text \<open>The coordinator settles the payment for its payer.\<close>

definition settles_for :: "'s stack \<Rightarrow> ValidatedDelegatedPayment \<Rightarrow> journal_db \<Rightarrow> bool" where
  "settles_for k payment db \<longleftrightarrow> coordinator_simulate (sk_service k) (sk_chain k CalledVerify) payment db = Inr () \<and>
     (case coordinator_settle (sk_service k) (sk_chain k CalledSettle) payment db of (r, db', out) \<Rightarrow>
        (\<exists>body. r = Inr body \<and> js_get body ''success'' = JBool True \<and>
          names_payer (sk_viem k) (js_get body ''payer'') (vp_payer payment)))"

lemma passes_through: "beforeBroadcast (Inr x) = Inr x"
  by simp

lemma operation_fields [simp]:
  "op_pendingNonce (settle_operations svc ch payment) = beforeBroadcast (ch_transactionCount ch)"
  "op_receipt (settle_operations svc ch payment) = ch_receipt ch"
  "pay_paymentIntentId (recovery_payment payment) = vp_paymentIntentId payment"
  by (simp_all add: settle_operations_def recovery_payment_def)

text \<open>A new payment is prepared: claimed, with the hash of what was signed.\<close>

lemma fresh_prepared:
  assumes "chain_serves k payment db"
  defines "env \<equiv> svc_recovery (sk_service k)" and "ops \<equiv> settle_operations (sk_service k) (sk_chain k CalledSettle) payment"
  shows "\<exists>rec db1 r h rcp. recovery_prepare env ops (recovery_payment payment) db = (Inr (rec, False), db1) \<and>
    (journal_ok db \<longrightarrow> journal_ok db1) \<and>
    select_intent db1 (toLowerCase (vp_paymentIntentId payment)) = Some r \<and> rec = record_of_row (events db1) r \<and>
    ir_terminal_event_id r = None \<and> ir_tx_hash r = h \<and> ir_payer r = toLowerCase (vp_payer payment) \<and>
    ir_payment_intent_id r = toLowerCase (vp_paymentIntentId payment) \<and> sr_terminal rec = None \<and>
    ch_receipt (sk_chain k CalledSettle) h = Inr (Some rcp) \<and> redeemed (sk_service k) payment h rcp"
proof -
  let ?svc = "sk_service k" and ?ch = "sk_chain k CalledSettle" and ?i = "vp_paymentIntentId payment" and ?pay = "recovery_payment payment"
  note c = assms(1) [unfolded chain_serves_def Let_def storage_works_def probe_passes_def, folded env_def]
  obtain pending nonce gas maxFee priority raw tx rec db1 rcp where a:
      "ch_transactionCount ?ch = Inr pending" "nextNonce db (rv_signer env) (rv_chainId env) pending = Inr nonce"
      "ch_simulate ?ch = Inr ()" "ch_estimateGas ?ch = Inr gas" "gas \<le> svc_max_redemption_gas ?svc"
      "ch_feesPerGas ?ch = Inr (maxFee, priority)" "ch_sign ?ch nonce gas maxFee priority = Inr raw"
      "rv_parseTransaction env raw = Inr tx" "envelope_matches env nonce tx"
      "claim db (claim_input env ?pay nonce raw tx) (rv_limits env) = Inr (rec, db1)"
      "ch_receipt ?ch (toLowerCase (rv_keccak256 env raw)) = Inr (Some rcp)"
      "redeemed ?svc payment (toLowerCase (rv_keccak256 env raw)) rcp"
    using c by blast
  have i: "hex_literal is_hex 64 ?i" "select_intent db (toLowerCase ?i) = None" using c by blast+
  have "journal_read db ?i = Inr None" using i by (simp add: journal_read_def hex_def)
  then have unknown: "known env db ?i = Inr None" using c by (simp add: known_def)
  have signed: "op_prepare ops nonce = Inr raw" using a(3-7) by (simp add: ops_def settle_operations_def prepareRedemption_def passes_through)
  have "recovery_prepare env ops ?pay db = (Inr (rec, False), db1)"
  proof -
    have "op_pendingNonce ops = Inr pending" by (simp add: ops_def a(1) passes_through)
    moreover have "allocate_nonce env db pending = Inr nonce" using a(2) c by (simp add: allocate_nonce_def)
    moreover have "claim_prepared env (claim_input env ?pay nonce raw tx) db = (Inr rec, db1)"
      using a(10) c by (simp add: claim_prepared_def)
    ultimately show ?thesis using a(8,9) unknown signed by (simp add: recovery_prepare_def)
  qed
  moreover have "si_paymentIntentId (claim_input env ?pay nonce raw tx) = ?i" "si_txHash (claim_input env ?pay nonce raw tx) = rv_keccak256 env raw"
      "si_payer (claim_input env ?pay nonce raw tx) = vp_payer payment"
    by (simp_all add: claim_input_def) (simp_all add: recovery_payment_def)
  ultimately show ?thesis using claimed_record [OF a(10)] i(2) a(11,12) claim_ok [OF _ a(10)] by metis
qed

text \<open>And resolved: its receipt is accounted, and the record comes back settled.\<close>

lemma fresh_resolved:
  assumes "journal_ok db" "select_intent db (toLowerCase i) = Some r" "rec = record_of_row (events db) r" "sr_terminal rec = None"
    "ir_terminal_event_id r = None" "hex_literal is_hex 64 i" "ir_payment_intent_id r = toLowerCase i"
    "ch_receipt ch (ir_tx_hash r) = Inr (Some rcp)" "redeemed svc payment (ir_tx_hash r) rcp" "storage_works (svc_recovery svc)"
  shows "\<exists>rec' db' ev. recovery_resolve (svc_recovery svc) (settle_operations svc ch payment) rec db = (Inr rec', db', []) \<and>
    sr_terminal rec' = Some ev \<and> ev_outcome ev = Settled \<and> si_payer rec' = ir_payer r"
proof -
  let ?env = "svc_recovery svc" and ?ops = "settle_operations svc ch payment"
  obtain used price l1 where fee: "rcp_gasUsed rcp = JBigint used" "0 < used" "rcp_effectiveGasPrice rcp = JBigint price" "0 \<le> price"
      "readReceiptFeeField (rcp_l1Fee rcp) = Inr l1" "toLowerCase (rcp_transactionHash rcp) = ir_tx_hash r"
    using assms(9) unfolding redeemed_def by blast
  have l1: "0 \<le> l1" using readReceiptFeeField_nonneg [OF fee(5)] .
  have cost: "receipt_cost rec rcp = Inr (used, used * price + l1)"
    using fee assms(3)
    by (simp add: receipt_cost_def readReceiptFeeField_def [of "JBigint used"] readReceiptFeeField_def [of "JBigint price"])
  let ?res = "\<lparr>fin_at = rv_finish_now ?env, fin_gasUsed = used, fin_actualCost = used * price + l1, fin_errorCode = None\<rparr>"
  have low: "hex_literal is_hex 64 (toLowerCase i)" "toLowerCase (toLowerCase i) = toLowerCase i"
    using assms(6) by (simp_all add: hex_literal_lower toLowerCase_idem)
  obtain rec' db' ev where fin: "finish db (toLowerCase i) ?res = Inr (rec', db')" "sr_terminal rec' = Some ev"
      "ev_outcome ev = Settled" "si_payer rec' = ir_payer r"
    using finished_settled [OF assms(1) _ low(1) assms(5), of ?res] assms(2,10) fee(2,4) l1 low(2) by (auto simp: storage_works_def)
  have none: "op_failure ?ops rcp = None" using assms(9) by (simp add: redeemed_def settle_operations_def)
  have "recovery_resolve ?env ?ops rec db = (Inr rec', db', [])"
    using assms(3,4,7,8,10) cost fin(1) none by (simp add: recovery_resolve_def obtain_receipt_def storage_works_def)
  then show ?thesis using fin by blast
qed

lemma serving_chain_settles:
  assumes "journal_ok db" "chain_serves k payment db" "viem_ok (sk_viem k)"
    and "v_isAddress (sk_viem k) (vp_payer payment)" "v_getAddress (sk_viem k) (vp_payer payment) = vp_payer payment"
    and "\<forall>a. v_isAddress (sk_viem k) a \<longrightarrow> v_isAddress (sk_viem k) (toLowerCase a)"
  shows "settles_for k payment db"
proof -
  let ?svc = "sk_service k" and ?ch = "sk_chain k CalledSettle" and ?i = "vp_paymentIntentId payment"
  note c = assms(2) [unfolded chain_serves_def Let_def]
  have i: "hex_literal is_hex 64 ?i" "storage_works (svc_recovery ?svc)" using c by blast+
  obtain rec db1 r rcp where p: "recovery_prepare (svc_recovery ?svc) (settle_operations ?svc ?ch payment) (recovery_payment payment) db = (Inr (rec, False), db1)"
      "journal_ok db1" "select_intent db1 (toLowerCase ?i) = Some r" "rec = record_of_row (events db1) r" "ir_terminal_event_id r = None"
      "ir_payer r = toLowerCase (vp_payer payment)" "ir_payment_intent_id r = toLowerCase ?i" "sr_terminal rec = None"
      "ch_receipt ?ch (ir_tx_hash r) = Inr (Some rcp)" "redeemed ?svc payment (ir_tx_hash r) rcp"
    using fresh_prepared [OF assms(2)] assms(1) by blast
  obtain rec' db' ev where s: "recovery_resolve (svc_recovery ?svc) (settle_operations ?svc ?ch payment) rec db1 = (Inr rec', db', [])"
      "sr_terminal rec' = Some ev" "ev_outcome ev = Settled" "si_payer rec' = ir_payer r"
    using fresh_resolved [OF p(2-4,8,5) i(1) p(7,9,10) i(2)] by blast
  obtain body where body: "settlementResponse rec' False = Inr body" by (simp add: settlementResponse_def s(2))
  have "js_get body ''success'' = JBool True" "js_get body ''payer'' = JString (toLowerCase (vp_payer payment))"
    using response_fields [OF body s(2)] s(3,4) p(6) by simp_all
  moreover have "v_getAddress (sk_viem k) (toLowerCase (vp_payer payment)) = v_getAddress (sk_viem k) (vp_payer payment)"
    using assms(3,4,6) toLowerCase_idem unfolding viem_ok_def by metis
  moreover have "coordinator_settle ?svc ?ch payment db = (Inr body, db', [])"
    by (simp add: coordinator_settle_def recovery_settle_def p(1) s(1) body)
  moreover have "journal_read db ?i = Inr None" using c by (auto simp: journal_read_def hex_def)
  then have "coordinator_simulate ?svc (sk_chain k CalledVerify) payment db = Inr ()"
    using c i(2) by (auto simp: coordinator_simulate_def prepareRedemption_def known_def probe_passes_def storage_works_def passes_through)
  ultimately show ?thesis using assms(4-6) by (simp add: settles_for_def names_payer_def)
qed

lemma settled_answer:
  assumes "books_ok db" "plain_chain svc ch" "coordinator_settle svc ch payment db = (Inr body, db', out)"
    "js_get body ''success'' = JBool True" "names_payer v (js_get body ''payer'') p"
  shows "\<exists>h rep. decideSettlement v (seen_by_seller \<lparr>ans_status = 200, ans_body = body\<rparr>) p = LadderSettled (Some h) rep \<and>
    hash_of db' (vp_paymentIntentId payment) = Some h \<and> hex_literal is_hex 64 h"
proof -
  let ?pay = "recovery_payment payment" and ?i = "vp_paymentIntentId payment"
  obtain rec rep where s: "recovery_settle (svc_recovery svc) (settle_operations svc ch payment) ?pay db = (Inr (rec, rep), db', out)"
      and b: "settlementResponse rec rep = Inr body"
    using assms(3) by (auto simp: coordinator_settle_def Let_def ebind_Inr_iff split: prod.splits sum.splits)
  have i: "pay_paymentIntentId ?pay = ?i" by (simp add: recovery_payment_def)
  have ok: "books_ok db'" using settle_books [OF s assms(1)] .
  have "journal_ok db" using assms(1) by (simp add: books_ok_def)
  from settle_answer [OF this settle_operations_plain [OF assms(2)] s, unfolded i]
  obtain ev where rec: "sr_terminal rec = Some ev" "journal_read db' ?i = Inr (Some rec)" by auto
  have hash: "hash_of db' ?i = Some (si_txHash rec)"
    using journal_readE(2) [OF rec(2), symmetric] by (auto simp: hash_of_def)
  then have hex: "hex_literal is_hex 64 (si_txHash rec)" using hash_of_hex ok by (auto simp: books_ok_def)
  note t = terminal_event_ok [OF ok rec(2,1)]
  have "ev_outcome ev = Settled" "js_get body ''payer'' = JString (si_payer rec)"
    using response_fields [OF b rec(1)] assms(4) by simp_all
  then have "recorded_failure rec = None" "names_payer v (JString (si_payer rec)) p" using t assms(5) by auto
  then show ?thesis using ladder_of_response [OF b rec(1) hex t, of v p] hash hex by simp
qed

lemma honest_visit:
  fixes w :: "'s world" and k :: "'s stack"
  assumes "books_ok (wd_journal w)" "plain_chain (sk_service k) (sk_chain k CalledSettle)"
    and "same_runtime env k" "selling k kd" "buying env config k kd l" "length bytes = 16"
    and "facilitating k kd (facilitator_request (paid_with env k kd l bytes) (deal k kd))"
    and "\<forall>i fp it. fst (is_bind (sk_identifiers k) (wd_identifiers w) i fp it) = Inr BindNew"
    and "validate_request (sk_service k) (facilitator_request (paid_with env k kd l bytes) (deal k kd)) = Inr payment"
    and "settles_for k payment (wd_journal w)"
    and "decodePaymentHeader (be_numbers env) header = Some (paid_with env k kd l bytes)" "length header \<le> MAX_PAYMENT_HEADER_LENGTH"
  shows "\<exists>receipt h. rs_outcome (seller_visit k (Some header) w) = Inr (deliver receipt) \<and>
    rc_payer receipt = v_getAddress (sk_viem k) (lf_delegator l) \<and> rc_transaction receipt = Some h \<and> hex_literal is_hex 64 h \<and>
    hash_of (fst (rs_fac (seller_visit k (Some header) w))) (vp_paymentIntentId payment) = Some h"
proof -
  let ?p = "paid_with env k kd l bytes" and ?v = "sk_viem k" and ?svc = "sk_service k"
  let ?q = "facilitator_request ?p (deal k kd)" and ?pay = "payment_read k (paid_with env k kd l bytes) l bytes"
  let ?req = "(sk_request k)\<lparr>req_payment_header := Some header\<rparr>"
  note f = assms(3-5,7) [unfolded same_runtime_def selling_def buying_def facilitating_def]
  note q = honest_request [OF assms(3-7)]
  have payer: "vp_payer payment = rd_payer ?pay" "rd_payload ?pay = ?p" using q(2) assms(9) by (auto simp: payment_read_def)
  obtain body db' out where c: "coordinator_settle ?svc (sk_chain k CalledSettle) payment (wd_journal w) = (Inr body, db', out)"
      "js_get body ''success'' = JBool True" "names_payer ?v (js_get body ''payer'') (rd_payer ?pay)"
    using assms(10) payer by (auto simp: settles_for_def split: prod.splits)
  obtain h rep where l: "decideSettlement ?v (seen_by_seller \<lparr>ans_status = 200, ans_body = body\<rparr>) (rd_payer ?pay) = LadderSettled (Some h) rep"
      "hash_of db' (vp_paymentIntentId payment) = Some h" "hex_literal is_hex 64 h"
    using settled_answer [OF assms(1,2) c] by blast
  have route: "settle_app k (Inr ?q) (wd_journal w) = (\<lparr>ans_status = 200, ans_body = body\<rparr>, db', out)"
    using f c(1) assms(9) by (simp add: settle_app_def settle_route_def requireReadiness_def)
  have verified: "verify_app k (Inr ?q) (wd_journal w) = \<lparr>ans_status = 200,
      ans_body = JObject [(''isValid'', JBool True), (''payer'', JString (vp_payer payment))]\<rparr>"
    using f assms(9,10) by (simp add: verify_app_def verify_route_def verify_answer_def requireReadiness_def settles_for_def)
  have d: "v_isAddress ?v (rd_payer ?pay)" "v_getAddress ?v (rd_payer ?pay) = rd_payer ?pay"
    using f viem_getAddress_idem [of ?v "lf_delegator l"] viem_isAddress_get [of ?v "lf_delegator l"]
    by (simp_all add: payment_read_def signed_facts_def)
  have request: "carried_body (sk_numbers k) ?q = Inr ?q" by (rule q(1))
  have va: "fs_verify (facilitator_link k) (wd_journal w, wd_sent w) ?q ip = (seen_by_seller (verify_app k (Inr ?q) (wd_journal w)),
      (wd_journal w, wd_sent w))" for ip
    using f request verified carried_seen [of "sk_numbers k" "verify_app k (Inr ?q) (wd_journal w)"]
    by (simp add: facilitator_link_def)
  have accepted: "decideVerification ?v (seen_by_seller (verify_app k (Inr ?q) (wd_journal w))) (rd_payer ?pay) = VerifyAccepted (rd_payer ?pay)"
    unfolding verified using d payer(1)
    by (simp add: decideVerification_def seen_by_seller_def is_object_body_def isVerificationAccepted_def names_payer_def js_get_def)
  have sa: "fs_settle (facilitator_link k) (wd_journal w, wd_sent w) ?q ip =
      (seen_by_seller \<lparr>ans_status = 200, ans_body = body\<rparr>, (db', wd_sent w @ out))" for ip
    using f request route settle_app_doc [OF route, of "sk_numbers k"] carried_seen [of "sk_numbers k" "\<lparr>ans_status = 200, ans_body = body\<rparr>"]
    by (simp add: facilitator_link_def)
  have charged: "\<exists>receipt. rs_outcome (charge_payment ?v (sk_paywall k) ids (facilitator_link k) ?req (deal k kd) it ?pay s'
        (wd_journal w, wd_sent w)) = Inr (deliver receipt) \<and> rc_payer receipt = rd_payer ?pay \<and> rc_transaction receipt = Some h \<and>
      rs_fac (charge_payment ?v (sk_paywall k) ids (facilitator_link k) ?req (deal k kd) it ?pay s' (wd_journal w, wd_sent w))
        = (db', wd_sent w @ out)" for ids :: "'s identifier_service" and it s'
    using accepted l(1) by (simp add: charge_payment_def Let_def payer(2) va sa settle_outcome_def) (intro exI conjI, rule refl, simp_all)
  have bound: "\<exists>s'. is_bind (sk_identifiers k) (wd_identifiers w) i fp it = (Inr BindNew, s')" for i fp it
    using assms(8) by (metis prod.collapse)
  have "\<exists>s' it. seller_visit k (Some header) w = charge_payment ?v (sk_paywall k) (sk_identifiers k) (facilitator_link k) ?req
      (deal k kd) it ?pay s' (wd_journal w, wd_sent w)"
  proof (cases "pw_identifiers (sk_paywall k)")
    case True
    obtain s' where "is_bind (sk_identifiers k) (wd_identifiers w) (newPaymentIdentifier bytes)
        (requestFingerprint (sk_sha256 k) (deal k kd) (resource_of (sk_paywall k) ?req) (req_method ?req))
        (intent_of ?v (sk_paywall k) (deal k kd) ?p) = (Inr BindNew, s')" using bound by blast
    then show ?thesis using True honest_arrival [OF assms(3,5,6,11,12)] f
      by (auto simp: seller_visit_def paywall_def serve_payment_def Let_def payment_read_def)
  next
    case False
    then show ?thesis using honest_arrival [OF assms(3,5,6,11,12)] f
      by (auto simp: seller_visit_def paywall_def serve_payment_def Let_def payment_read_def)
  qed
  then show ?thesis using charged l(2,3) by (fastforce simp: payment_read_def)
qed

section \<open>The buyer is served\<close>

text \<open>A paid answer the buyer can read, and that does not echo what it sent.\<close>

definition readable :: "buyer_env \<Rightarrow> string list \<Rightarrow> pay_answer \<Rightarrow> bool" where
  "readable env secrets a \<longleftrightarrow> answer_ok a \<and> \<not> echoes_secret env secrets a \<and> (\<exists>body. pa_body a = Inr body) \<and>
     (\<forall>t. pa_contentType a = Some t \<and> isJsonMediaType (mediaType t) \<longrightarrow> (\<exists>x. answer_json env a = Inr x))"

lemma readable_paid:
  assumes "numbers_ok (be_numbers env)" "readable env secrets a"
    and "readSettlementReceipt env (pa_response a) d = Some (Some h)"
  shows "\<exists>r. paid_resource env accepted d i secrets a = Inr (Paid r) \<and> pd_transaction r = Some h \<and>
    pd_amount r = js_get accepted ''amount'' \<and> pd_payTo r = js_getAddress (be_viem env) (js_get accepted ''payTo'') \<and>
    pd_paymentIdentifier r = i"
proof -
  note e = assms(2) [unfolded readable_def]
  have no_throw: "paid_resource env accepted d i secrets a \<noteq> Inl x" for x
    using resource_throws [OF assms(1)] e by blast
  have same: "redactBearerSecrets (be_numbers env) (JString t) secrets = Inr (JString t)" if "pa_contentType a = Some t" for t
  proof (rule redact_same)
    show "fold redact_one secrets (json_text (be_numbers env) (JString t)) = json_text (be_numbers env) (JString t)"
      using e that unfolding echoes_secret_def by blast
  qed simp
  obtain ct where ct: "read_content_type env secrets a = Inr ct"
      "\<And>t. ct = Some t \<Longrightarrow> \<exists>declared. pa_contentType a = Some declared \<and> t = mediaType declared"
  proof (cases "pa_contentType a")
    case None
    then show ?thesis using that [of None] by (simp add: read_content_type_def)
  next
    case (Some t)
    then show ?thesis using that [of "Some (mediaType t)"] same [OF Some] by (simp add: read_content_type_def)
  qed
  obtain raw where raw: "read_resource env ct a = Inr raw"
  proof (cases ct)
    case None
    then show ?thesis using e that by (auto simp: read_resource_def)
  next
    case (Some t)
    then show ?thesis using e that ct(2) by (cases "isJsonMediaType t") (auto simp: read_resource_def)
  qed
  obtain x where "redactBearerSecrets (be_numbers env) raw secrets = Inr x"
    using no_throw ct(1) raw by (cases "redactBearerSecrets (be_numbers env) raw secrets") (auto simp: paid_resource_def)
  then show ?thesis using ct(1) raw assms(3) by (simp add: paid_resource_def)
qed

lemma receipt_heard:
  assumes "viem_ok (be_viem env)" "v_isAddress (be_viem env) d"
    and "decodePaymentResponseHeader (be_numbers env) t = Some (success_receipt receipt)"
    and "rc_payer receipt = v_getAddress (be_viem env) d" "rc_transaction receipt = Some h" "hex_literal is_hex 64 h"
  shows "readSettlementReceipt env (Some t) (v_getAddress (be_viem env) d) = Some (Some h)"
proof -
  have s: "js_get (success_receipt receipt) ''success'' = JBool True" "typeof_object (success_receipt receipt)"
      "js_get (success_receipt receipt) ''network'' = JString GIWA_SEPOLIA_CAIP2" "success_receipt receipt \<noteq> JNull"
      "js_get (success_receipt receipt) ''payer'' = JString (v_getAddress (be_viem env) d)"
      "js_get (success_receipt receipt) ''transaction'' = JString h"
    by (simp_all add: success_receipt_def js_get_def assms or_blank_def)
  have "h \<noteq> []" using assms(6) by (auto simp: hex_literal_def)
  then show ?thesis
    using assms(3,6) s viem_getAddress_idem [OF assms(1,2)] viem_isAddress_get [OF assms(1,2)]
    by (simp add: readSettlementReceipt_def Let_def hash_of_js_def TRANSACTION_HASH_def absent_def)
qed

lemma readable_response: "readable env secrets (a\<lparr>pa_response := t\<rparr>) = readable env secrets a"
  by (simp add: readable_def echoes_secret_def answer_json_def answer_ok_def)

lemma served_payment_settles:
  assumes "service_run (wd_journal w)" "same_runtime env k" "selling k kd" "buying env config k kd l" "length bytes = 16"
    and "facilitating k kd (facilitator_request (paid_with env k kd l bytes) (deal k kd))"
    and "validate_request (sk_service k) (facilitator_request (paid_with env k kd l bytes) (deal k kd)) = Inr payment"
    and "chain_serves k payment (wd_journal w)"
  shows "settles_for k payment (wd_journal w)"
proof -
  note f = assms(2,4) [unfolded same_runtime_def buying_def signed_facts_def]
  have "vp_payer payment = v_getAddress (sk_viem k) (lf_delegator l)" using honest_request(2) [OF assms(2-6)] assms(7) by auto
  moreover have "v_isAddress (sk_viem k) (lf_delegator l)" "viem_ok (sk_viem k)" using f by blast+
  moreover have "journal_ok (wd_journal w)" using service_run_books [OF assms(1)] by (simp add: books_ok_def)
  ultimately show ?thesis
    using f viem_isAddress_get viem_getAddress_idem by (intro serving_chain_settles [OF _ assms(8)]) auto
qed

text \<open>C13: an honest purchase completes. When the buyer trusts the facilitator the seller published and
signs a context the validator accepts, no hop loses anything and the facilitator settles the payment
for its payer, the client returns the resource as paid: with the price and the recipient of the offer,
under its identifier, and with the transaction hash the facilitator's journal records for the intent
of this very payment.\<close>

theorem honest_purchase_completes:
  fixes w :: "'s world" and k :: "'s stack"
  assumes "service_run (wd_journal w)" "plain_chain (sk_service k) (sk_chain k CalledSettle)"
    and "same_runtime env k" "selling k kd" "buying env config k kd l" "length bytes = 16"
    and "facilitating k kd (facilitator_request (paid_with env k kd l bytes) (deal k kd))"
    and "\<forall>i fp it. fst (is_bind (sk_identifiers k) (wd_identifiers w) i fp it) = Inr BindNew"
    and "\<forall>h. sk_net k h = Arrives"
    and "\<forall>payment. validate_request (sk_service k) (facilitator_request (paid_with env k kd l bytes) (deal k kd)) = Inr payment
      \<longrightarrow> chain_serves k payment (wd_journal w)"
    and "\<forall>header. encodePaymentHeader (be_numbers env) (paid_with env k kd l bytes) = Inr header \<longrightarrow>
      length header \<le> MAX_PAYMENT_HEADER_LENGTH \<and> (\<forall>receipt. readable env [lf_permissionContext l, header] (sk_handler k receipt))"
  shows "\<exists>r h payment. pr_outcome (purchase env config k bytes w) = Inr (Paid r) \<and> pd_transaction r = Some h \<and>
    pd_amount r = JString (String (pw_amount (sk_paywall k))) \<and>
    pd_payTo r = v_getAddress (sk_viem k) (pw_payTo (sk_paywall k)) \<and> pd_paymentIdentifier r = newPaymentIdentifier bytes \<and>
    validate_request (sk_service k) (facilitator_request (paid_with env k kd l bytes) (deal k kd)) = Inr payment \<and>
    hash_of (wd_journal (pr_world (purchase env config k bytes w))) (vp_paymentIntentId payment) = Some h"
proof -
  note f = assms(3-5) [unfolded same_runtime_def selling_def buying_def signed_facts_def]
  let ?p = "paid_with env k kd l bytes"
  obtain first where first: "buyer_fetch k w None = (Inr first, w)" "read_offer env config first = Inr (Inr (deal k kd))"
    using honest_look [OF assms(3-5,9)] by blast
  obtain header where header: "encodePaymentHeader (be_numbers env) ?p = Inr header" "decodePaymentHeader (be_numbers env) header = Some ?p"
    using honest_header [OF assms(3-6)] by blast
  obtain evs where prep: "prepare_payment env config bytes first = (Inr (Inr \<lparr>pp_accepted = deal k kd, pp_leaf = l,
      pp_identifier = newPaymentIdentifier bytes, pp_header = header\<rparr>), evs)"
    using honest_prepare [OF assms(3,5) first(2) header(1)] by blast
  obtain payment where payment: "validate_request (sk_service k) (facilitator_request ?p (deal k kd)) = Inr payment"
    using honest_request(2) [OF assms(3-7)] by blast
  have settles: "settles_for k payment (wd_journal w)"
    by (rule served_payment_settles [OF assms(1,3-7) payment]) (use assms(10) payment in blast)
  have size: "length header \<le> MAX_PAYMENT_HEADER_LENGTH"
    and reads: "\<And>receipt. readable env [lf_permissionContext l, header] (sk_handler k receipt)" using assms(11) header(1) by blast+
  obtain receipt h where visit: "rs_outcome (seller_visit k (Some header) w) = Inr (deliver receipt)"
      "rc_payer receipt = v_getAddress (sk_viem k) (lf_delegator l)" "rc_transaction receipt = Some h" "hex_literal is_hex 64 h"
      "hash_of (fst (rs_fac (seller_visit k (Some header) w))) (vp_paymentIntentId payment) = Some h"
    using honest_visit [OF service_run_books [OF assms(1)] assms(2-8) payment settles header(2) size] by blast
  have hex: "hex_literal is_hex 40 (v_getAddress (sk_viem k) (lf_delegator l))"
    using f viem_isAddress_get [of "sk_viem k" "lf_delegator l"] by blast
  obtain t where t: "encodePaymentResponseHeader (be_numbers env) (success_receipt receipt) = Inr t"
      "decodePaymentResponseHeader (be_numbers env) t = Some (success_receipt receipt)"
    using receipts_travel(2) [OF _ hex visit(4,2,3)] f by blast
  let ?reply = "(sk_handler k receipt)\<lparr>pa_response := Some t\<rparr>"
  have ok: "answer_ok (sk_handler k receipt)" using reads by (simp add: readable_def)
  have second: "buyer_fetch k w (Some header) = (Inr ?reply, \<lparr>wd_identifiers = rs_ids (seller_visit k (Some header) w),
      wd_journal = fst (rs_fac (seller_visit k (Some header) w)), wd_sent = snd (rs_fac (seller_visit k (Some header) w))\<rparr>)"
    using assms(9) visit(1) t(1) f ok
    by (auto simp: buyer_fetch_def Let_def seller_http_def seller_response_def deliver_def redirects_def answer_ok_def)
  have heard: "readSettlementReceipt env (pa_response ?reply) (v_getAddress (be_viem env) (lf_delegator l)) = Some (Some h)"
    using receipt_heard [OF _ _ t(2) _ visit(3,4), of "lf_delegator l"] f visit(2) by simp
  have good: "numbers_ok (be_numbers env)" "readable env [lf_permissionContext l, header] ?reply"
    using f reads readable_response by blast+
  obtain r where r: "paid_resource env (deal k kd) (v_getAddress (be_viem env) (lf_delegator l)) (newPaymentIdentifier bytes)
      [lf_permissionContext l, header] ?reply = Inr (Paid r)" "pd_transaction r = Some h"
      "pd_amount r = js_get (deal k kd) ''amount''" "pd_payTo r = js_getAddress (be_viem env) (js_get (deal k kd) ''payTo'')"
      "pd_paymentIdentifier r = newPaymentIdentifier bytes"
    using readable_paid [OF good heard] by blast
  have "purchase env config k bytes w = \<lparr>pr_outcome = Inr (Paid r), pr_world = snd (buyer_fetch k w (Some header)),
      pr_events = Sent None # evs @ [Sent (Some header)]\<rparr>"
    using first(1) prep second r(1) ok by (simp add: purchase_def payForDelegatedResource_def payment_answer_def answer_ok_def)
  then show ?thesis using r(2-5) second payment visit(5) f by (simp add: requirements_of_def)
qed

end
