(* ===== verification/Path_Demo.thy ===== *)
theory Path_Demo
  imports Purchase_Completes
begin

text \<open>
  A market small enough to evaluate: one buyer, one paywalled route, one facilitator whose chain
  executes every redemption. It shows that the hypotheses of \<^verbatim>\<open>honest_purchase_completes\<close> hold
  together, and, with the facilitator's limiter closed, those of \<^verbatim>\<open>refusal_means_uncharged\<close>.
\<close>

section \<open>A sample market, for the witnesses\<close>

definition path_viem :: viem where
  "path_viem = sample_viem\<lparr>v_keccak256 := \<lambda>_. sample_hex 64 CHR ''1''\<rparr>"

definition path_env :: buyer_env where
  "path_env = demo_env\<lparr>be_viem := path_viem\<rparr>"

definition path_chain :: chain_answers where
  "path_chain = sample_chain\<lparr>ch_simulate := Inr (), ch_receipt := \<lambda>_. Inr (Some (sample_receipt\<lparr>
     rcp_logs := [transfer_log path_viem MOCK_USDC_address (addr CHR ''3'') (addr CHR ''1'') 5]\<rparr>))\<rparr>"

text \<open>A market of one seller, whose facilitator admits every call, or none.\<close>

definition path_stack :: "bool \<Rightarrow> nat stack" where
  "path_stack limited = \<lparr>sk_viem = path_viem, sk_numbers = demo_numbers, sk_sha256 = id, sk_paywall = sample_paywall,
     sk_identifiers = no_identifiers, sk_kind = \<lambda>_. Some sample_kind, sk_request = sample_request, sk_handler = \<lambda>_. demo_reply,
     sk_missing = demo_reply\<lparr>pa_status := 404\<rparr>, sk_fault = demo_reply\<lparr>pa_status := 500\<rparr>,
     sk_service = sample_service\<lparr>svc_viem := path_viem\<rparr>, sk_chain = \<lambda>_. path_chain, sk_limited = \<lambda>_. limited,
     sk_ready = \<lambda>_. Inr (), sk_link = \<lambda>_. Arrives, sk_net = \<lambda>_. Arrives\<rparr>"

abbreviation path_bytes :: "nat list" where "path_bytes \<equiv> replicate 16 0"

definition path_world :: "nat world" where
  "path_world = \<lparr>wd_identifiers = 0, wd_journal = empty_journal, wd_sent = []\<rparr>"

abbreviation path_deal :: js where "path_deal \<equiv> requirements_of sample_paywall sample_kind"

abbreviation path_payload :: js where
  "path_payload \<equiv> payment_payload path_env path_deal demo_leaf (newPaymentIdentifier path_bytes)"

lemma path_viem_fields [simp]: "v_isAddress path_viem = v_isAddress sample_viem" "v_getAddress path_viem = v_getAddress sample_viem"
    "v_isHex path_viem = v_isHex sample_viem" "v_decodeDelegations path_viem = v_decodeDelegations sample_viem"
    "v_keccak256 path_viem s = sample_hex 64 CHR ''1''"
  by (simp_all add: path_viem_def)

lemma path_viem_ok: "viem_ok path_viem"
  using sample_viem_ok by (simp add: viem_ok_def)

lemma path_stack_fields [simp]:
  "sk_viem (path_stack b) = path_viem" "sk_numbers (path_stack b) = demo_numbers" "sk_paywall (path_stack b) = sample_paywall"
  "sk_identifiers (path_stack b) = no_identifiers" "sk_kind (path_stack b) h = Some sample_kind" "sk_request (path_stack b) = sample_request"
  "sk_handler (path_stack b) r = demo_reply" "sk_service (path_stack b) = sample_service\<lparr>svc_viem := path_viem\<rparr>"
  "sk_chain (path_stack b) c = path_chain" "sk_limited (path_stack b) c = b" "sk_ready (path_stack b) c = Inr ()"
  "sk_link (path_stack b) c = Arrives" "sk_net (path_stack b) h = Arrives"
  by (simp_all add: path_stack_def)

lemma path_env_fields [simp]: "be_viem path_env = path_viem" "be_numbers path_env = demo_numbers" "be_loose path_env a"
  by (simp_all add: path_env_def)

lemma path_addresses [simp]: "v_getAddress sample_viem (addr CHR ''1'') = addr CHR ''1''"
    "v_getAddress sample_viem (addr CHR ''2'') = addr CHR ''2''" "v_getAddress sample_viem (addr CHR ''3'') = addr CHR ''3''"
  by code_simp+

lemma path_runtime: "same_runtime path_env (path_stack b)"
  using path_viem_ok demo_numbers_ok hex_literal_lower
  by (auto simp: same_runtime_def) (simp_all add: sample_viem_def)

lemma path_selling: "selling (path_stack b) sample_kind"
  using addr_one by (simp add: selling_def sample_request_def sample_paywall_def sample_kind_def)

lemma path_buying: "buying path_env demo_buyer (path_stack b) sample_kind demo_leaf"
proof -
  have "signed_facts path_viem sample_options (addr CHR ''2'') (addr CHR ''3'') (addr CHR ''3'')"
    by (simp add: signed_facts_def sample_options_def MAX_PERMISSION_CONTEXT_HEX_LENGTH_def)
  moreover have "utf8_valid (addr CHR ''3'')" by (rule hex_utf8 [of 40]) (simp add: addr_def hex_literal_def char_class_defs list_all_iff)
  ultimately show ?thesis
    by (simp add: buying_def manager_ok_def sample_kind_def demo_leaf_def sample_service_def sample_options_def)
qed

text \<open>The request and the header are small.\<close>

lemma path_request_size: "length (json_text demo_numbers (facilitator_request path_payload path_deal)) \<le> 15000"
  by code_simp

lemma btoa_length: "length (btoa s) \<le> 4 * length s"
proof -
  have "length (btoa_groups xs) \<le> 4 * length xs" for xs by (induction xs rule: btoa_groups.induct) simp_all
  then show ?thesis by (metis btoa_def length_map)
qed

lemma path_header_size:
  assumes "encodePaymentHeader demo_numbers path_payload = Inr header" shows "length header \<le> MAX_PAYMENT_HEADER_LENGTH"
proof -
  have "length (json_text demo_numbers path_payload) \<le> length (json_text demo_numbers (facilitator_request path_payload path_deal))"
    by (simp add: facilitator_request_def requirements_of_def payment_payload_def buildErc7710PaymentRequirements_def buildErc7710PaymentPayload_def)
  then have "length (json_text demo_numbers path_payload) \<le> 15000" using path_request_size by linarith
  moreover have "header = btoa (json_text demo_numbers path_payload)"
    using assms by (auto simp: encodePaymentHeader_def encodeBase64Json_def payment_payload_def buildErc7710PaymentPayload_def split: if_splits)
  ultimately show ?thesis using btoa_length [of "json_text demo_numbers path_payload"] by (simp add: MAX_PAYMENT_HEADER_LENGTH_def)
qed

lemma path_facilitating: "facilitating (path_stack False) sample_kind (facilitator_request path_payload path_deal)"
  using path_request_size by (simp add: facilitating_def sample_service_def sample_options_def sample_kind_def sample_paywall_def)

text \<open>The validated payment, and the chain that executes it.\<close>

lemma path_payment:
  assumes "validate_request (sk_service (path_stack b)) (facilitator_request path_payload path_deal) = Inr payment"
  shows "vp_paymentIntentId payment = sample_hex 64 CHR ''1''" "vp_payer payment = addr CHR ''3''" "vp_amount payment = 5"
    "vp_paymentRequirements payment = path_deal"
proof -
  have v: "validateDelegatedPayment path_viem (facilitator_request path_payload path_deal) sample_options = Inr payment"
    using assms by (auto simp: validate_request_def sample_service_def split: sum.splits)
  show r: "vp_paymentRequirements payment = path_deal"
    using v by (cases rule: validateE) simp
  show "vp_paymentIntentId payment = sample_hex 64 CHR ''1''" using v by (cases rule: validateE) (simp add: derivePaymentIntentId_def)
  have "validate_terms path_viem path_deal sample_options = Inr (vp_amount payment)" using v by (cases rule: validateE) simp
  from validate_terms_facts(6) [OF this] show "vp_amount payment = 5" by (simp add: requirements_of_def sample_paywall_def)
  have p: "validate_payload path_viem (js_get path_payload ''payload'') sample_options = Inr (vp_payer payment)"
    using v by (cases rule: validateE) simp
  obtain ds where "vp_payer payment = js_getAddress path_viem (js_get (js_get path_payload ''payload'') ''delegator'')"
    using p by (rule validate_payloadE)
  then show "vp_payer payment = addr CHR ''3''" by (simp add: payment_payload_def demo_leaf_def)
qed

lemma path_claim:
  "\<exists>rec db. claim empty_journal (claim_input sample_env \<lparr>pay_paymentIntentId = sample_hex 64 CHR ''1'', pay_payer = addr CHR ''3'',
      pay_payTo = addr CHR ''1'', pay_amountBase = 5\<rparr> 0 (sample_hex 64 CHR ''2'')
      \<lparr>tx_eip1559 = True, tx_chainId = Some 91342, tx_nonce = Some 0, tx_gas = Some 2,
       tx_maxFeePerGas = Some 3, tx_maxPriorityFeePerGas = Some 1\<rparr>) sample_limits = Inr (rec, db)"
proof -
  have a: "hex_literal is_hex 40 (addr CHR ''3'')" "hex_literal is_hex 40 (addr CHR ''1'')"
    by (simp_all add: addr_def hex_literal_def char_class_defs list_all_iff)
  show ?thesis
    by (simp add: a claim_input_def sample_env_def claim_def claim_new_def sample_limits_def empty_journal_def
        select_intent_def hex_def uint_def amount_def isSafeInteger_def MAX_SAFE_INTEGER_def epoch_day
        load_def insert_intent_def save_budget_def Let_def)
qed

lemma path_redeemed:
  assumes "vp_payer payment = addr CHR ''3''" "vp_amount payment = 5" "vp_paymentRequirements payment = path_deal"
  shows "redeemed (sk_service (path_stack b)) payment (sample_hex 64 CHR ''2'') (sample_receipt\<lparr>
     rcp_logs := [transfer_log path_viem MOCK_USDC_address (addr CHR ''3'') (addr CHR ''1'') 5]\<rparr>)"
proof -
  have t: "toLowerCase (TRANSFER_EVENT_TOPIC path_viem) = TRANSFER_EVENT_TOPIC path_viem" by (simp add: TRANSFER_EVENT_TOPIC_def)
  have "js_get path_deal ''asset'' = JString MOCK_USDC_address" "js_get path_deal ''payTo'' = JString (addr CHR ''1'')"
    by (simp_all add: requirements_of_def sample_paywall_def)
  then show ?thesis
    using transfer_log_credit [OF t, of MOCK_USDC_address "addr CHR ''3''" "addr CHR ''1''" 5]
      transfer_log_amount [of 5 path_viem MOCK_USDC_address "addr CHR ''3''" "addr CHR ''1''"] assms
    by (simp add: redeemed_def sample_receipt_def sample_service_def receiptFailure_def reconcileSettlementReceipt_def readReceiptFeeField_def)
qed

lemma path_serves:
  assumes "validate_request (sk_service (path_stack b)) (facilitator_request path_payload path_deal) = Inr payment"
  shows "chain_serves (path_stack b) payment empty_journal"
proof -
  note p = path_payment [OF assms]
  have nonce: "nextNonce empty_journal (sample_hex 40 CHR ''1'') 91342 0 = Inr 0"
    by (simp add: nextNonce_def hex_def uint_def max_nonce_def empty_journal_def isSafeInteger_def MAX_SAFE_INTEGER_def Let_def)
  have pay: "recovery_payment payment = \<lparr>pay_paymentIntentId = sample_hex 64 CHR ''1'', pay_payer = addr CHR ''3'',
      pay_payTo = addr CHR ''1'', pay_amountBase = 5\<rparr>"
    using p by (simp add: recovery_payment_def) (simp add: requirements_of_def sample_paywall_def)
  obtain rec db where c: "claim empty_journal (claim_input sample_env (recovery_payment payment) 0 (sample_hex 64 CHR ''2'')
      \<lparr>tx_eip1559 = True, tx_chainId = Some 91342, tx_nonce = Some 0, tx_gas = Some 2,
       tx_maxFeePerGas = Some 3, tx_maxPriorityFeePerGas = Some 1\<rparr>) sample_limits = Inr (rec, db)"
    using path_claim pay by metis
  have probe: "probe_passes (sample_service\<lparr>svc_viem := path_viem\<rparr>) path_chain 2"
    by (simp add: probe_passes_def path_chain_def sample_chain_def sample_service_def)
  have sane: "storage_works sample_env"
    by (simp add: storage_works_def sample_env_def isSafeInteger_def MAX_SAFE_INTEGER_def)
  have env: "svc_recovery (sample_service\<lparr>svc_viem := path_viem\<rparr>) = sample_env" by (simp add: sample_service_def)
  have chain: "ch_transactionCount path_chain = Inr 0" "ch_feesPerGas path_chain = Inr (3, 1)"
      "ch_sign path_chain 0 2 3 1 = Inr (sample_hex 64 CHR ''2'')"
      "ch_receipt path_chain h = Inr (Some (sample_receipt\<lparr>
     rcp_logs := [transfer_log path_viem MOCK_USDC_address (addr CHR ''3'') (addr CHR ''1'') 5]\<rparr>))" for h
    by (simp_all add: path_chain_def sample_chain_def)
  have env2: "rv_signer sample_env = sample_hex 40 CHR ''1''" "rv_chainId sample_env = 91342" "rv_keccak256 sample_env s = s" for s
    by (simp_all add: sample_env_def)
  have tx: "rv_parseTransaction sample_env s = Inr \<lparr>tx_eip1559 = True, tx_chainId = Some 91342, tx_nonce = Some 0, tx_gas = Some 2,
       tx_maxFeePerGas = Some 3, tx_maxPriorityFeePerGas = Some 1\<rparr>" "rv_limits sample_env = sample_limits" for s
    by (simp_all add: sample_env_def)
  have fresh: "select_intent empty_journal i = None" for i by (simp add: select_intent_def empty_journal_def)
  show ?thesis
  proof (rule chain_servesI [where k = "path_stack b" and payment = payment and pending = 0 and nonce = 0 and gas = 2 and maxFee = 3 and priority = 1
        and raw = "sample_hex 64 CHR ''2''", unfolded path_stack_fields env, OF sane _ _ probe chain(1) _ probe chain(2,3) tx(1) _ c [folded tx(2)]])
    show "ch_receipt path_chain (toLowerCase (rv_keccak256 sample_env (sample_hex 64 CHR ''2''))) = Inr (Some (sample_receipt\<lparr>
        rcp_logs := [transfer_log path_viem MOCK_USDC_address (addr CHR ''3'') (addr CHR ''1'') 5]\<rparr>))" by (rule chain(4))
  qed (use nonce path_redeemed [OF p(2-4)] in \<open>simp_all add: p(1) fresh env2 envelope_matches_def\<close>)
qed


lemma path_readable:
  assumes "encodePaymentHeader demo_numbers path_payload = Inr header"
  shows "readable path_env [lf_permissionContext demo_leaf, header] demo_reply"
proof -
  have "bearer_secret header" using header_secret(1) [OF requirements_doc [of demo_numbers] assms [unfolded requirements_of_def]] .
  then have same: "fold redact_one [addr CHR ''3'', header] s = s" if "length s < 32" for s
    using that redact_short demo_context(1) by simp
  have "json_parse demo_numbers ''report'' = None" by code_simp
  then have "answer_json path_env demo_reply \<noteq> Inr v" for v by (simp add: answer_json_def demo_reply_def)
  then have "\<not> echoes_secret path_env [addr CHR ''3'', header] demo_reply"
    using same [OF demo_short(1)] same [OF demo_short(2)] by (auto simp: echoes_secret_def demo_reply_def)
  then show ?thesis by (simp add: readable_def answer_ok_def demo_leaf_def) (simp add: demo_reply_def demo_media)
qed

lemma path_run: "service_run (wd_journal path_world)" "plain_chain (sk_service (path_stack b)) (sk_chain (path_stack b) CalledSettle)"
  using service_start by (simp_all add: path_world_def plain_chain_def path_chain_def sample_chain_def sample_service_def sample_env_def)

theorem honest_purchase_completes_witness:
  "\<exists>r h. pr_outcome (purchase path_env demo_buyer (path_stack False) path_bytes path_world) = Inr (Paid r) \<and>
     pd_transaction r = Some h \<and> pd_amount r = JString (String 5) \<and>
     hash_of (wd_journal (pr_world (purchase path_env demo_buyer (path_stack False) path_bytes path_world))) (sample_hex 64 CHR ''1'') = Some h"
proof -
  have serves: "\<forall>payment. validate_request (sk_service (path_stack False)) (facilitator_request path_payload path_deal) = Inr payment
      \<longrightarrow> chain_serves (path_stack False) payment (wd_journal path_world)"
    using path_serves by (simp add: path_world_def)
  have "\<exists>r h payment. pr_outcome (purchase path_env demo_buyer (path_stack False) path_bytes path_world) = Inr (Paid r) \<and> pd_transaction r = Some h \<and>
    pd_amount r = JString (String (pw_amount (sk_paywall (path_stack False)))) \<and>
    pd_payTo r = v_getAddress (sk_viem (path_stack False)) (pw_payTo (sk_paywall (path_stack False))) \<and>
    pd_paymentIdentifier r = newPaymentIdentifier path_bytes \<and>
    validate_request (sk_service (path_stack False)) (facilitator_request path_payload path_deal) = Inr payment \<and>
    hash_of (wd_journal (pr_world (purchase path_env demo_buyer (path_stack False) path_bytes path_world))) (vp_paymentIntentId payment) = Some h"
    using honest_purchase_completes [OF path_run path_runtime path_selling path_buying, of path_bytes, unfolded path_stack_fields]
      path_facilitating serves path_header_size path_readable
    by (simp add: no_identifiers_def)
  then show ?thesis using path_payment(1) by (fastforce simp: sample_paywall_def)
qed


text \<open>When the facilitator admits no call, the buyer hears it, and nothing moved.\<close>

definition path_options :: PaywallOptions where
  "path_options = \<lparr>po_payTo = addr CHR ''1'', po_price = ''0.000005'', po_description = ''report'', po_extensions = None, po_identifiers = False\<rparr>"

lemma path_built: "buildPaywall path_viem None path_options = Inr sample_paywall"
proof -
  have "parsePrice ''0.000005'' = Inr 5" "trim ''0.000005'' = ''0.000005''" "trim ''report'' \<noteq> []" "trim (addr CHR ''1'') = addr CHR ''1''" by code_simp+
  moreover have "parsePayTo path_viem (addr CHR ''1'') = Inr (addr CHR ''1'')"
    using addr_one(2) \<open>trim (addr CHR ''1'') = addr CHR ''1''\<close> by (simp add: parsePayTo_def)
  ultimately show ?thesis by (simp add: buildPaywall_def path_options_def sample_paywall_def ensure_def)
qed

lemma path_busy:
  assumes "decodePaymentHeader demo_numbers header = Some path_payload" "length header \<le> MAX_PAYMENT_HEADER_LENGTH"
  shows "rs_outcome (seller_visit (path_stack True) (Some header) w) = Inr (error_answer 503 ''facilitator_unavailable''
    (Some (failure_receipt RATE_LIMITED (Some (addr CHR ''3'')) [])))"
proof -
  have "read_header path_viem (decodePaymentHeader demo_numbers) sample_paywall (sample_request\<lparr>req_payment_header := Some header\<rparr>)
      = Inr (Some (payment_read (path_stack True) path_payload demo_leaf path_bytes))"
    using honest_arrival [OF path_runtime path_buying, of path_bytes header True] assms by simp
  moreover have "carried_answer demo_numbers \<lparr>ans_status = 200, ans_body = VERIFY_RATE_LIMITED\<rparr>
      = seen_by_seller \<lparr>ans_status = 200, ans_body = VERIFY_RATE_LIMITED\<rparr>"
    using demo_numbers_ok by (intro carried_seen) (simp_all add: VERIFY_RATE_LIMITED_def)
  moreover have "decideVerification path_viem (seen_by_seller \<lparr>ans_status = 200, ans_body = VERIFY_RATE_LIMITED\<rparr>) p = VerifyUnavailable RATE_LIMITED" for p
    by (simp add: decideVerification_def seen_by_seller_def is_object_body_def VERIFY_RATE_LIMITED_def js_get_def)
  moreover have "\<not> req_last_route sample_request" "\<not> pw_identifiers sample_paywall" by (simp_all add: sample_request_def sample_paywall_def)
  ultimately show ?thesis
    by (simp add: seller_visit_def paywall_def serve_payment_def charge_payment_def Let_def facilitator_link_def verify_app_def
        payment_read_def demo_leaf_def)
qed

theorem refusal_means_uncharged_witness:
  "\<exists>f. pr_outcome (purchase path_env demo_buyer (path_stack True) path_bytes path_world) = Inr (Unpaid f) \<and> fl_code f = SELLER_UNAVAILABLE \<and>
     wd_sent (pr_world (purchase path_env demo_buyer (path_stack True) path_bytes path_world)) = []"
proof -
  let ?k = "path_stack True"
  obtain first where first: "buyer_fetch ?k path_world None = (Inr first, path_world)" "read_offer path_env demo_buyer first = Inr (Inr path_deal)"
    using honest_look [OF path_runtime path_selling path_buying, of True path_world] by auto
  obtain header where header: "encodePaymentHeader demo_numbers path_payload = Inr header" "decodePaymentHeader demo_numbers header = Some path_payload"
    using honest_header [OF path_runtime path_selling path_buying, where bytes = path_bytes] by auto
  obtain evs where prep: "prepare_payment path_env demo_buyer path_bytes first = (Inr (Inr \<lparr>pp_accepted = path_deal, pp_leaf = demo_leaf,
      pp_identifier = newPaymentIdentifier path_bytes, pp_header = header\<rparr>), evs)"
    using honest_prepare [OF path_runtime path_buying, where first = first and bytes = path_bytes and header = header] first(2) header(1) by auto
  let ?receipt = "failure_receipt RATE_LIMITED (Some (addr CHR ''3'')) []"
  have "utf8_valid (addr CHR ''3'')" "utf8_valid RATE_LIMITED" "utf8_valid ''success''" "utf8_valid ''errorReason''"
      "utf8_valid ''network''" "utf8_valid ''payer''" "utf8_valid ''transaction''" "utf8_valid GIWA_SEPOLIA_CAIP2" "utf8_valid []"
    by code_simp+
  then have "js_utf8 ?receipt" "json_doc demo_numbers ?receipt" by (simp_all add: failure_receipt_def)
  then obtain t where t: "encodePaymentResponseHeader demo_numbers ?receipt = Inr t" "decodePaymentResponseHeader demo_numbers t = Some ?receipt"
    using codec_roundtrip [OF demo_numbers_ok, of ?receipt] unfolding encodePaymentResponseHeader_def decodePaymentResponseHeader_def by blast
  let ?a = "seller_http ?k (Inr (error_answer 503 ''facilitator_unavailable'' (Some ?receipt)))"
  have a: "pa_status ?a = 503" "pa_response ?a = Some t"
    using t(1) by (simp_all add: seller_http_def seller_response_def optional_header_def error_answer_def)
  obtain w2 where second: "buyer_fetch ?k path_world (Some header) = (Inr ?a, w2)"
    using path_busy [OF header(2) path_header_size [OF header(1)], of path_world] a(1) by (simp add: buyer_fetch_def Let_def redirects_def)
  have "refusal_code RATE_LIMITED \<in> {None, Some SELLER_UNAVAILABLE}" by code_simp
  then have "\<exists>f. refused_payment path_env (newPaymentIdentifier path_bytes) ?a = Unpaid f \<and> fl_code f = SELLER_UNAVAILABLE"
    using a t(2)
    by (auto simp: refused_payment_def Let_def answer_code_def status_code_def readSellerRefusal_def failure_receipt_def js_get_def
        hash_of_js_def TRANSACTION_HASH_def hex_literal_def SETTLEMENT_UNKNOWN_STATUSES_def SELLER_UNAVAILABLE_STATUSES_def)
  then obtain f where f: "refused_payment path_env (newPaymentIdentifier path_bytes) ?a = Unpaid f" "fl_code f = SELLER_UNAVAILABLE" by blast
  have "purchase path_env demo_buyer ?k path_bytes path_world = \<lparr>pr_outcome = Inr (Unpaid f),
      pr_world = w2, pr_events = Sent None # evs @ [Sent (Some header)]\<rparr>"
    using first(1) prep second f(1) a(1) by (simp add: purchase_def payForDelegatedResource_def payment_answer_def answer_ok_def)
  then have out: "pr_outcome (purchase path_env demo_buyer ?k path_bytes path_world) = Inr (Unpaid f)" by simp
  have "\<forall>a. v_isAddress path_viem a \<longrightarrow> hex_literal is_hex 40 (v_getAddress path_viem a)"
    using path_runtime [of True] path_viem_ok viem_isAddress_get unfolding same_runtime_def by (metis path_stack_fields(1))
  then have "wd_sent (pr_world (purchase path_env demo_buyer ?k path_bytes path_world)) = wd_sent path_world"
    using refusal_means_uncharged [where env = path_env and k = "path_stack True" and base = None and opts = path_options and config = demo_buyer
        and bytes = path_bytes and f = f and w = path_world, OF path_run] out f(2)
      demo_numbers_ok path_built by (simp add: path_world_def)
  then show ?thesis using out f(2) by (simp add: path_world_def)
qed

end
