(* ===== verification/Spec2Isabelle.thy ===== *)
theory Spec2Isabelle
  imports Journal_Properties Store_Scheduler Facilitator_Service Shop_App Faucet_Page Path_Demo
begin

text \<open>
  A verification development of Mapae, a stack that pays for HTTP resources with signed delegations:
  x402 offers, ERC-7710 permission contexts, a facilitator that redeems them on chain. File names
  are relative to the repository.

  \<^bold>\<open>The program.\<close> A buyer (\<^verbatim>\<open>packages/delegation/src/payment-client.ts\<close>) asks a paywalled route and is
  answered 402 with an offer. It chooses an offer, signs a leaf of its delegation for it, and sends the
  payment in a header. The paywall (\<^verbatim>\<open>packages/seller/src/index.ts\<close>) reads the payment, binds its
  payment identifier, and asks the facilitator to verify and then to settle it. The facilitator
  (\<^verbatim>\<open>apps/facilitator-erc7710\<close>) validates the payment (\<^verbatim>\<open>packages/delegation/src/x402.ts\<close>), derives its
  intent (\<^verbatim>\<open>facilitator-contract.ts\<close>), claims a transaction for the intent in the journal
  (\<^verbatim>\<open>packages/store/src/settlement.ts\<close>) under the daily budget, broadcasts it, and records what its
  receipt says; a crash in between is resumed from the journal. The seller turns the answer into one of
  settled, failed, unknown or unavailable, and delivers, re-offers, or says that it does not know. The
  hosted shop (\<^verbatim>\<open>apps/delegated-seller/app.ts\<close>) puts the paywall before its items and issues a ticket
  per paid order; the scheduler store keeps recurring payments; the faucet (\<^verbatim>\<open>apps/faucet/claims.ts\<close>)
  hands out test tokens and ether under limits from its own ledger.

  \<^bold>\<open>The theories\<close>, in the order they build on each other:

  \<^item> \<^verbatim>\<open>Prelude\<close>, \<^verbatim>\<open>Js_Text\<close>, \<^verbatim>\<open>Js_Date\<close>, \<^verbatim>\<open>Token\<close>: values and errors of the language (\<^verbatim>\<open>js\<close>, \<^verbatim>\<open>js_error\<close>,
    \<^verbatim>\<open>result\<close> with its bind), decimal text of integers, the pieces of regular expressions the sources
    use, the day of a clock reading, token amounts (\<^verbatim>\<open>packages/shared/src/token.ts\<close>).
  \<^item> \<^verbatim>\<open>Retention\<close>, \<^verbatim>\<open>Write_Once\<close>: the two contracts several tables share, as locales. \<^verbatim>\<open>retention\<close> is a
    bounded prune of open rows (interpreted for the settlement ledger and the payment identifiers);
    \<^verbatim>\<open>write_once\<close> is a value that no operation changes once set (interpreted for the transaction of an
    intent, the order of an intent, the bytes of a faucet claim and the row of a finished one).
  \<^item> \<^verbatim>\<open>Store_Ledger\<close>, \<^verbatim>\<open>Settlement_Journal\<close>, \<^verbatim>\<open>Journal_Properties\<close>, \<^verbatim>\<open>Payment_Identifiers\<close>, \<^verbatim>\<open>Store_Shop\<close>,
    \<^verbatim>\<open>Store_Scheduler\<close>: the tables of \<^verbatim>\<open>packages/store/src\<close>. A table is a list of rows in insertion order,
    a transaction is a function whose \<^verbatim>\<open>Inl\<close> result leaves the store as it was, and the constraints of
    the schema are checks of the inserts. \<^verbatim>\<open>Payment_Identifiers\<close> states the binding contract as the
    locale \<^verbatim>\<open>identifier_binding\<close>, interpreted on the table.
  \<^item> \<^verbatim>\<open>Rate_Limit\<close>, \<^verbatim>\<open>Spend_Budget\<close>: \<^verbatim>\<open>FixedWindowLimiter\<close> and \<^verbatim>\<open>SpendBudget\<close> of \<^verbatim>\<open>account-bootstrap.ts\<close>,
    the second over the locale \<^verbatim>\<open>budget_store\<close>, interpreted on the series of the budget table.
  \<^item> \<^verbatim>\<open>Facilitator_Contract\<close>, \<^verbatim>\<open>X402\<close>, \<^verbatim>\<open>Settlement_Evidence\<close>: the wire vocabulary and the verdicts the
    seller draws from it, the validator and the single flight, the checks of a receipt.
  \<^item> \<^verbatim>\<open>Facilitator_Guards\<close>, \<^verbatim>\<open>Settlement_Recovery\<close>, \<^verbatim>\<open>Facilitator_Service\<close>: classification of failures,
    the journal around a broadcast (calls as an interleaving of the two halves of \<^verbatim>\<open>settle\<close>, with crashes
    between them), the two routes from the body to the answer.
  \<^item> \<^verbatim>\<open>Json\<close>, \<^verbatim>\<open>Wire_Codec\<close>, \<^verbatim>\<open>Bearer_Redaction\<close>, \<^verbatim>\<open>Shared_Net\<close>: \<^verbatim>\<open>JSON.stringify\<close> and \<^verbatim>\<open>JSON.parse\<close>, the
    header codec with UTF-8 and base64, the redaction of secrets in results and in log lines, client
    buckets and RPC targets.
  \<^item> \<^verbatim>\<open>Seller\<close>, \<^verbatim>\<open>Shop_App\<close>, \<^verbatim>\<open>Buyer_Client\<close>: the paywall, the shop's routes, the buyer.
  \<^item> \<^verbatim>\<open>Payment_Path\<close>, \<^verbatim>\<open>Purchase_Completes\<close>, \<^verbatim>\<open>Path_Demo\<close>: the three programs composed over a network
    that may lose any request or answer; what the buyer may conclude, and that an honest purchase goes
    through; a market small enough to evaluate, which instantiates the hypotheses.
  \<^item> \<^verbatim>\<open>Faucet_Ledger\<close>, \<^verbatim>\<open>Faucet_Policy\<close>, \<^verbatim>\<open>Faucet_Service\<close>, \<^verbatim>\<open>Faucet_Runs\<close>, \<^verbatim>\<open>Faucet_Page\<close>: the faucet's
    ledger, published policy, decisions and reconciler, the runs of the whole service with other
    requests interleaved at every await, and the parsers its page uses.

  \<^bold>\<open>How the model corresponds to the code.\<close> Definitions keep the names of the sources. Objects and
  rows are records, unions of literals are datatypes, bigint and safe integers are \<^verbatim>\<open>int\<close>, the 32-bit
  operators of the ticket printer and the digest comparison are words. Text is its UTF-8 bytes: a
  length the sources count in UTF-16 units is counted in bytes here, which differs only for text
  outside ASCII. A thrown error is \<^verbatim>\<open>Inl\<close>; every \<^verbatim>\<open>throw\<close>, \<^verbatim>\<open>catch\<close> and early return is a branch. JSON
  documents off the wire are \<^verbatim>\<open>js\<close>, and a property read of a missing field is \<^verbatim>\<open>JUndefined\<close>. What the
  sources await is an argument: an answer or a thrown error per call, the readings of the clock, and,
  where other requests may run meanwhile, what they wrote (always steps of the same store). Code that
  is not in the repository is a parameter: viem's address functions and hashes (\<^verbatim>\<open>viem\<close>, with the
  documented laws in \<^verbatim>\<open>viem_ok\<close>), the permission-context decoder, the URL parser, sha256, the spelling
  of numbers beyond safe integers (\<^verbatim>\<open>js_numbers\<close>, laws in \<^verbatim>\<open>numbers_ok\<close>).

  \<^bold>\<open>What the theorems show.\<close> Money: the journal's booked totals are conserved and within their limits,
  a budget's days are within the ceiling up to overshoots of settlements, schedules keep their caps, and
  at most one transaction is ever broadcast for an intent. Truth: what the seller concludes from an
  answer, and what the buyer concludes from the seller's, is true of the journal, whichever hop lost
  what; an interrupted payment completes; an honest purchase completes. Bearer secrets: the buyer
  signs only what it checked, and neither its result nor a log line carries the signed context in the
  forms the theorems name. Identity: an intent has one order, an identifier one payment, a claim one
  set of bytes. Faucet: the published limits hold over every interleaving, nothing pays that is not on
  disk, refusals cost nothing. Round trips: headers, amounts, the faucet's answers.

  \<^bold>\<open>Bounds.\<close> Every recursion ends. \<^verbatim>\<open>json_parse\<close> recurses on fuel of twice the length of the text
  and one; more fuel never changes its answer (\<^verbatim>\<open>json_parse_fuel\<close>), and every printed document parses
  (\<^verbatim>\<open>json_roundtrip\<close>). \<^verbatim>\<open>fill_from\<close> and the printing of numerals have their termination proofs; loops
  over rows are structural.

  \<^bold>\<open>Left out, and where the model is narrower than the code.\<close> HTTP servers, HTML, process start-up,
  RPC transport with its pacing and back-off, SQL text (its effect is modelled), the detail strings of
  settlement discrepancies. \<^verbatim>\<open>derivePaymentIntentId\<close> is total, where viem's encoder refuses an amount of
  2^256 or more; \<^verbatim>\<open>js_isAddress\<close> refuses every value that is no string, where viem's may answer or throw
  on an array or object. \<^verbatim>\<open>fs_sent\<close> of the faucet records what is sent for claims; gap fillers are
  returned apart. The web applications, the arcade, the contracts, the scripts and the deployment tools
  are not modelled; the manifest lists each with its reason.
\<close>

end
